(* ===== verification/Prelude.thy ===== *)
theory Prelude
  imports Main "HOL-Library.Word" "HOL-Library.List_Lexorder" "HOL-Library.Char_ord"
begin

text \<open>
  What every component of the development shares: the outcome of a Rust function
  (value, error or panic), machine-sized arithmetic on \<open>usize\<close> and \<open>u32\<close>
  quantities, the ordered maps and sets of the standard library
  (\<open>BTreeMap\<close>, \<open>BTreeSet\<close>) as strictly sorted lists, and two interfaces that
  several components implement: an ordered map, and a stored vocabulary (an enum
  written to and read from the database by name).

  A Rust \<open>String\<close> is its UTF-8 byte sequence, a HOL \<open>string\<close>, since HOL
  characters are bytes; \<open>len\<close> is \<open>length\<close> and the derived order of
  \<open>str\<close> is the lexicographic order on bytes.
\<close>

named_theorems outcome_simps "unfolding rules for outcomes and their sequencing"

section \<open>Outcomes of fallible functions\<close>

text \<open>
  \<open>Ok\<close> and \<open>Err\<close> are the two constructors of Rust's \<open>Result\<close>; \<open>Panic\<close>
  stands for a failed \<open>expect\<close>, an out-of-range index or an arithmetic
  underflow, none of which the caller can handle.
\<close>

datatype (ok: 'a, err: 'e) outcome = Ok (the_ok: 'a) | Err (the_err: 'e) | Panic

primrec bindr :: "('a, 'e) outcome \<Rightarrow> ('a \<Rightarrow> ('b, 'e) outcome) \<Rightarrow> ('b, 'e) outcome" where
  "bindr (Ok x) f = f x"
| "bindr (Err e) f = Err e"
| "bindr Panic f = Panic"

primrec map_err :: "('e \<Rightarrow> 'f) \<Rightarrow> ('a, 'e) outcome \<Rightarrow> ('a, 'f) outcome" where
  "map_err f (Ok x) = Ok x"
| "map_err f (Err e) = Err (f e)"
| "map_err f Panic = Panic"

primrec ok_or :: "'a option \<Rightarrow> 'e \<Rightarrow> ('a, 'e) outcome" where
  "ok_or (Some x) e = Ok x"
| "ok_or None e = Err e"

primrec expect :: "'a option \<Rightarrow> ('a, 'e) outcome" where
  "expect (Some x) = Ok x"
| "expect None = Panic"

definition guard :: "bool \<Rightarrow> 'e \<Rightarrow> (unit, 'e) outcome" where
  "guard b e = (if b then Ok () else Err e)"

definition is_ok :: "('a, 'e) outcome \<Rightarrow> bool" where
  "is_ok r \<longleftrightarrow> (case r of Ok _ \<Rightarrow> True | _ \<Rightarrow> False)"

text \<open>A \<open>for\<close> loop whose body may return early, threading a state.\<close>

primrec for_each :: "('x \<Rightarrow> 's \<Rightarrow> ('s, 'e) outcome) \<Rightarrow> 'x list \<Rightarrow> 's \<Rightarrow> ('s, 'e) outcome" where
  "for_each f [] s = Ok s"
| "for_each f (x # xs) s = bindr (f x s) (for_each f xs)"

lemma bindr_cong [fundef_cong]:
  "m = n \<Longrightarrow> (\<And>x. n = Ok x \<Longrightarrow> f x = g x) \<Longrightarrow> bindr m f = bindr n g"
  by (cases n) auto

lemma for_each_cong [fundef_cong]:
  "xs = ys \<Longrightarrow> s = t \<Longrightarrow> (\<And>x s. x \<in> set ys \<Longrightarrow> f x s = g x s)
    \<Longrightarrow> for_each f xs s = for_each g ys t"
proof (induction ys arbitrary: xs s t)
  case (Cons y ys)
  show ?case
    using Cons.prems by (auto intro!: bindr_cong Cons.IH)
qed simp

lemma bindr_eq_Ok [simp, outcome_simps]:
  "bindr m f = Ok y \<longleftrightarrow> (\<exists>x. m = Ok x \<and> f x = Ok y)"
  by (cases m) auto

lemma bindr_eq_Err:
  "bindr m f = Err e \<longleftrightarrow> m = Err e \<or> (\<exists>x. m = Ok x \<and> f x = Err e)"
  by (cases m) auto

lemma bindr_eq_Panic:
  "bindr m f = Panic \<longleftrightarrow> m = Panic \<or> (\<exists>x. m = Ok x \<and> f x = Panic)"
  by (cases m) auto

lemma bindr_assoc: "bindr (bindr m f) g = bindr m (\<lambda>x. bindr (f x) g)"
  by (cases m) auto

lemma map_err_eq_Ok [simp]: "map_err f m = Ok x \<longleftrightarrow> m = Ok x"
  by (cases m) auto

lemma map_err_eq_Panic [simp]: "map_err f m = Panic \<longleftrightarrow> m = Panic"
  by (cases m) auto

lemma ok_or_eq_Ok [simp]: "ok_or x e = Ok y \<longleftrightarrow> x = Some y"
  by (cases x) auto

lemma ok_or_eq_Err [simp]: "ok_or x e = Err e' \<longleftrightarrow> x = None \<and> e = e'"
  by (cases x) auto

lemma ok_or_not_Panic [simp]: "ok_or x e \<noteq> Panic"
  by (cases x) auto

lemma expect_eq_Ok [simp]: "expect x = Ok y \<longleftrightarrow> x = Some y"
  by (cases x) auto

lemma expect_not_Err [simp]: "expect x \<noteq> Err e"
  by (cases x) auto

lemma expect_eq_Panic [simp]: "expect x = Panic \<longleftrightarrow> x = None"
  by (cases x) auto

lemma guard_eq_Ok [simp]: "guard b e = Ok u \<longleftrightarrow> b"
  by (simp add: guard_def)

lemma guard_eq_Err [simp]: "guard b e = Err e' \<longleftrightarrow> \<not> b \<and> e = e'"
  by (auto simp: guard_def)

lemma guard_not_Panic [simp]: "guard b e \<noteq> Panic"
  by (simp add: guard_def)

lemma is_ok_iff [simp]: "is_ok r \<longleftrightarrow> (\<exists>x. r = Ok x)"
  by (cases r) (auto simp: is_ok_def)

lemma not_Ok_cases: "(\<nexists>x. r = Ok x) \<longleftrightarrow> r = Panic \<or> (\<exists>e. r = Err e)"
  by (cases r) auto

text \<open>A loop keeps what its body keeps, and never panics where its body never does.\<close>

lemma for_each_invariant:
  assumes "for_each f xs s = Ok t" and "I s"
    and "\<And>x s s'. x \<in> set xs \<Longrightarrow> I s \<Longrightarrow> f x s = Ok s' \<Longrightarrow> I s'"
  shows "I t"
  using assms by (induction xs arbitrary: s) auto

lemma for_each_no_panic:
  assumes "I s"
    and "\<And>x s s'. x \<in> set xs \<Longrightarrow> I s \<Longrightarrow> f x s = Ok s' \<Longrightarrow> I s'"
    and "\<And>x s. x \<in> set xs \<Longrightarrow> I s \<Longrightarrow> f x s \<noteq> Panic"
  shows "for_each f xs s \<noteq> Panic"
  using assms
proof (induction xs arbitrary: s)
  case (Cons x xs)
  have "f x s \<noteq> Panic" using Cons.prems by simp
  moreover have "for_each f xs s' \<noteq> Panic" if "f x s = Ok s'" for s'
    using Cons.prems that by (intro Cons.IH) auto
  ultimately show ?case by (auto simp: bindr_eq_Panic)
qed simp

lemma for_each_append: "for_each f (xs @ ys) s = bindr (for_each f xs s) (for_each f ys)"
  by (induction xs arbitrary: s) (auto simp: bindr_assoc intro!: bindr_cong)

section \<open>Machine-sized arithmetic\<close>

text \<open>
  Sizes and counts of values in memory (\<open>usize\<close>, 64 bits on the program's targets) are
  naturals whose saturating and checked operations are written out; the \<open>u32\<close>
  counters the program adds up are words.
\<close>

definition usize_max :: nat where
  "usize_max = 2 ^ 64 - 1"

definition saturating_add :: "nat \<Rightarrow> nat \<Rightarrow> nat" where
  "saturating_add a b = min (a + b) usize_max"

definition checked_sub :: "nat \<Rightarrow> nat \<Rightarrow> nat option" where
  "checked_sub a b = (if b \<le> a then Some (a - b) else None)"

definition checked_add :: "'w::len word \<Rightarrow> 'w word \<Rightarrow> 'w word option" where
  "checked_add a b = (if unat a + unat b < 2 ^ LENGTH('w) then Some (a + b) else None)"

lemma checked_sub_eq_Some [simp]: "checked_sub a b = Some c \<longleftrightarrow> b \<le> a \<and> c = a - b"
  by (auto simp: checked_sub_def)

lemma checked_sub_eq_None [simp]: "checked_sub a b = None \<longleftrightarrow> a < b"
  by (auto simp: checked_sub_def)

lemma checked_sub_one [simp]:
  "checked_sub 0 (Suc 0) = None" "checked_sub (Suc b) (Suc 0) = Some b"
  by (simp_all add: checked_sub_def)

lemma checked_add_eq_Some:
  "checked_add (a :: 'w::len word) b = Some c \<longleftrightarrow> unat c = unat a + unat b"
proof
  assume "checked_add a b = Some c"
  then show "unat c = unat a + unat b"
    by (auto simp: checked_add_def unat_word_ariths split: if_splits)
next
  assume sum: "unat c = unat a + unat b"
  moreover have "unat c < 2 ^ LENGTH('w)" by (rule unsigned_less)
  ultimately show "checked_add a b = Some c"
    by (simp add: checked_add_def word_unat_eq_iff unat_word_ariths)
qed

lemma saturating_add_le: "c \<le> usize_max \<Longrightarrow> c < saturating_add a b \<longleftrightarrow> c < a + b \<and> c \<noteq> usize_max"
  by (auto simp: saturating_add_def)

lemma saturating_add_exact: "a + b \<le> usize_max \<Longrightarrow> saturating_add a b = a + b"
  by (simp add: saturating_add_def)

section \<open>Byte strings\<close>

text \<open>ASCII classes of \<open>u8\<close>, and \<open>str::split\<close> on one ASCII separator.\<close>

definition is_ascii_digit :: "char \<Rightarrow> bool" where
  "is_ascii_digit c \<longleftrightarrow> 48 \<le> (of_char c :: nat) \<and> (of_char c :: nat) \<le> 57"

definition is_ascii_alphabetic :: "char \<Rightarrow> bool" where
  "is_ascii_alphabetic c \<longleftrightarrow>
     65 \<le> (of_char c :: nat) \<and> (of_char c :: nat) \<le> 90 \<or>
     97 \<le> (of_char c :: nat) \<and> (of_char c :: nat) \<le> 122"

definition is_ascii_alphanumeric :: "char \<Rightarrow> bool" where
  "is_ascii_alphanumeric c \<longleftrightarrow> is_ascii_alphabetic c \<or> is_ascii_digit c"

fun split_on :: "char \<Rightarrow> string \<Rightarrow> string list" where
  "split_on c [] = [[]]"
| "split_on c (x # xs) =
     (if x = c then [] # split_on c xs
      else (case split_on c xs of [] \<Rightarrow> [[x]] | p # ps \<Rightarrow> (x # p) # ps))"

fun join_with :: "char \<Rightarrow> string list \<Rightarrow> string" where
  "join_with c [] = []"
| "join_with c [p] = p"
| "join_with c (p # ps) = p @ c # join_with c ps"

lemma split_on_not_Nil [simp]: "split_on c s \<noteq> []"
  by (induction s) (auto split: list.splits)

lemma join_split_on: "join_with c (split_on c s) = s"
proof (induction s)
  case (Cons x s)
  obtain p ps where ps: "split_on c s = p # ps"
    by (cases "split_on c s") auto
  then show ?case
    using Cons.IH by (cases ps) auto
qed simp

lemma split_on_append_sep: "c \<notin> set p \<Longrightarrow> split_on c (p @ c # s) = p # split_on c s"
  by (induction p) auto

lemma split_on_no_sep: "c \<notin> set p \<Longrightarrow> split_on c p = [p]"
  by (induction p) auto

lemma split_on_parts: "p \<in> set (split_on c s) \<Longrightarrow> c \<notin> set p"
proof (induction s arbitrary: p)
  case (Cons x s)
  then show ?case
    by (cases "split_on c s") (auto split: if_splits)
qed simp

lemma split_join: "ps \<noteq> [] \<Longrightarrow> \<forall>p \<in> set ps. c \<notin> set p \<Longrightarrow> split_on c (join_with c ps) = ps"
  by (induction c ps rule: join_with.induct) (auto simp: split_on_append_sep split_on_no_sep)

section \<open>Ordered maps and sets\<close>

text \<open>
  \<open>BTreeMap\<close> and \<open>BTreeSet\<close> iterate in key order and hold each key once: a map is
  the list of its entries in that order, a set the list of its elements.
\<close>

type_synonym ('k, 'v) btree_map = "('k \<times> 'v) list"
type_synonym 'a btree_set = "'a list"

definition bt_ok :: "('k::linorder, 'v) btree_map \<Rightarrow> bool" where
  "bt_ok m \<longleftrightarrow> sorted_wrt (<) (map fst m)"

definition bt_get :: "('k, 'v) btree_map \<Rightarrow> 'k \<Rightarrow> 'v option" where
  "bt_get m k = map_of m k"

definition bt_keys :: "('k, 'v) btree_map \<Rightarrow> 'k list" where
  "bt_keys m = map fst m"

fun bt_insert :: "'k::linorder \<Rightarrow> 'v \<Rightarrow> ('k, 'v) btree_map \<Rightarrow> ('k, 'v) btree_map" where
  "bt_insert k v [] = [(k, v)]"
| "bt_insert k v ((k', v') # m) =
     (if k' < k then (k', v') # bt_insert k v m
      else if k' = k then (k, v) # m
      else (k, v) # (k', v') # m)"

definition bt_contains :: "('k, 'v) btree_map \<Rightarrow> 'k \<Rightarrow> bool" where
  "bt_contains m k \<longleftrightarrow> bt_get m k \<noteq> None"

definition bs_ok :: "'a::linorder btree_set \<Rightarrow> bool" where
  "bs_ok s \<longleftrightarrow> sorted_wrt (<) s"

definition bs_insert :: "'a::linorder \<Rightarrow> 'a btree_set \<Rightarrow> 'a btree_set" where
  "bs_insert x s = (if x \<in> set s then s else insort x s)"

lemma bs_ok_iff: "bs_ok s \<longleftrightarrow> sorted s \<and> distinct s"
  by (simp add: bs_ok_def strict_sorted_iff)

lemma bs_ok_Nil [simp]: "bs_ok []"
  by (simp add: bs_ok_def)

lemma bs_ok_tl: "bs_ok (x # s) \<Longrightarrow> bs_ok s"
  by (simp add: bs_ok_def)

lemma set_bs_insert [simp]: "set (bs_insert x s) = insert x (set s)"
  by (auto simp: bs_insert_def set_insort_key)

lemma bs_ok_insert [intro]: "bs_ok s \<Longrightarrow> bs_ok (bs_insert x s)"
  by (simp add: bs_ok_iff bs_insert_def sorted_insort distinct_insort)

lemma bt_keys_insert: "set (map fst (bt_insert k v m)) = insert k (set (map fst m))"
  by (induction k v m rule: bt_insert.induct) auto

lemma bt_ok_insert: "bt_ok m \<Longrightarrow> bt_ok (bt_insert k v m)"
proof (induction k v m rule: bt_insert.induct)
  case (2 k v k' v' m)
  have "fst x \<in> insert k (set (map fst m))" if "x \<in> set (bt_insert k v m)" for x
    using that bt_keys_insert [of k v m] by auto
  then show ?case
    using 2 by (fastforce simp: bt_ok_def)
qed (simp add: bt_ok_def)

lemma bt_get_insert: "bt_ok m \<Longrightarrow> bt_get (bt_insert k v m) = (bt_get m)(k \<mapsto> v)"
proof (induction k v m rule: bt_insert.induct)
  case (2 k v k' v' m)
  then show ?case
    by (fastforce simp: bt_get_def bt_ok_def fun_eq_iff)
qed (simp add: bt_get_def fun_eq_iff)

lemma bt_keys_dom: "set (bt_keys m) = dom (bt_get m)"
  by (simp add: bt_keys_def bt_get_def [abs_def] dom_map_of_conv_image_fst)

lemma bt_contains_iff: "bt_contains m k \<longleftrightarrow> k \<in> set (bt_keys m)"
  by (auto simp: bt_contains_def bt_keys_dom)

lemma bt_get_in_set: "bt_get m k = Some v \<Longrightarrow> (k, v) \<in> set m"
  by (simp add: bt_get_def map_of_SomeD)

lemma bt_get_iff: "bt_ok m \<Longrightarrow> bt_get m k = Some v \<longleftrightarrow> (k, v) \<in> set m"
  by (simp add: bt_get_def bt_ok_def strict_sorted_iff)

lemma bt_ok_distinct: "bt_ok m \<Longrightarrow> distinct (map fst m)"
  by (simp add: bt_ok_def strict_sorted_iff)

lemma find_SomeD: "find P xs = Some x \<Longrightarrow> x \<in> set xs \<and> P x"
  by (auto simp: find_Some_iff)

lemma find_NoneD: "find P xs = None \<Longrightarrow> x \<in> set xs \<Longrightarrow> \<not> P x"
  by (auto simp: find_None_iff)

text \<open>The interface the components use: laws of lookup after insertion, and key order.\<close>

locale ordered_map =
  fixes get :: "'m \<Rightarrow> 'k::linorder \<Rightarrow> 'v option"
    and put :: "'k \<Rightarrow> 'v \<Rightarrow> 'm \<Rightarrow> 'm"
    and keys :: "'m \<Rightarrow> 'k list"
    and okm :: "'m \<Rightarrow> bool"
  assumes get_put: "okm m \<Longrightarrow> get (put k v m) = (get m)(k \<mapsto> v)"
    and ok_put: "okm m \<Longrightarrow> okm (put k v m)"
    and keys_dom: "set (keys m) = dom (get m)"
    and keys_sorted: "okm m \<Longrightarrow> sorted_wrt (<) (keys m)"
begin

lemma put_existing_keys: "okm m \<Longrightarrow> k \<in> set (keys m) \<Longrightarrow> keys (put k v m) = keys m"
  by (rule sorted_distinct_set_unique)
    (use keys_sorted ok_put in \<open>auto simp: strict_sorted_iff keys_dom get_put\<close>)

lemma length_keys: "okm m \<Longrightarrow> length (keys m) = card (dom (get m))"
  using keys_sorted [of m] by (simp add: strict_sorted_iff flip: keys_dom distinct_card)

lemma put_all_get:
  "okm m \<Longrightarrow> get (fold (\<lambda>(k, v). put k v) kvs m) = get m ++ map_of (rev kvs)"
  by (induction kvs arbitrary: m) (auto simp: get_put ok_put map_add_def fun_eq_iff split: option.splits)

lemma put_all_ok: "okm m \<Longrightarrow> okm (fold (\<lambda>(k, v). put k v) kvs m)"
  by (induction kvs arbitrary: m) (auto simp: ok_put)

end

interpretation btm: ordered_map bt_get bt_insert bt_keys bt_ok
proof unfold_locales
  show "bt_get (bt_insert k v m) = (bt_get m)(k \<mapsto> v)" if "bt_ok m"
    for m :: "('a::linorder, 'b) btree_map" and k v
    using that by (rule bt_get_insert)
qed (simp_all add: bt_ok_insert bt_keys_dom, simp add: bt_ok_def bt_keys_def)

section \<open>Allowances\<close>

text \<open>
  Several parts of the program debit a shared allowance and refuse the debit that does
  not fit: the root budget of a run, the byte budget of a writer, the node budget of a
  value check. A run of debits stops at the first refusal.
\<close>

primrec charge_all :: "('c \<Rightarrow> 's \<Rightarrow> 's option) \<Rightarrow> 'c list \<Rightarrow> 's \<Rightarrow> 's option" where
  "charge_all charge [] s = Some s"
| "charge_all charge (c # cs) s = Option.bind (charge c s) (charge_all charge cs)"

locale allowance =
  fixes charge :: "'c \<Rightarrow> 's \<Rightarrow> 's option"
    and cost :: "'c \<Rightarrow> nat"
    and left :: "'s \<Rightarrow> nat"
    and oka :: "'s \<Rightarrow> bool"
  assumes granted_iff: "oka s \<Longrightarrow> (\<exists>s'. charge c s = Some s') \<longleftrightarrow> cost c \<le> left s"
    and granted_left: "oka s \<Longrightarrow> charge c s = Some s' \<Longrightarrow> left s' + cost c = left s"
    and granted_ok: "oka s \<Longrightarrow> charge c s = Some s' \<Longrightarrow> oka s'"
begin

lemma all_granted_left:
  "oka s \<Longrightarrow> charge_all charge cs s = Some s' \<Longrightarrow> left s' + sum_list (map cost cs) = left s \<and> oka s'"
proof (induction cs arbitrary: s)
  case (Cons c cs)
  then obtain t where t: "charge c s = Some t" and rest: "charge_all charge cs t = Some s'"
    by (auto simp: Option.bind_eq_Some_conv)
  have "left s' + sum_list (map cost cs) = left t \<and> oka s'"
    using Cons.IH [OF granted_ok [OF Cons.prems(1) t] rest] .
  then show ?case
    using granted_left [OF Cons.prems(1) t] by simp
qed simp

lemma all_granted_iff:
  "oka s \<Longrightarrow> (\<exists>s'. charge_all charge cs s = Some s') \<longleftrightarrow> sum_list (map cost cs) \<le> left s"
proof (induction cs arbitrary: s)
  case (Cons c cs)
  show ?case
  proof (cases "charge c s")
    case None
    then have "left s < cost c"
      using granted_iff [OF Cons.prems, of c] by auto
    then show ?thesis using None by simp
  next
    case (Some t)
    then show ?thesis
      using Cons.IH [OF granted_ok [OF Cons.prems Some]] granted_left [OF Cons.prems Some] by auto
  qed
qed simp

end

section \<open>Stored vocabularies\<close>

text \<open>
  Enums the database stores by name: \<open>as_str\<close> prints the name, \<open>from_str\<close> reads it
  back. A lenient reader accepts further spellings; an exact one accepts the printed
  name only.
\<close>

locale printed_vocabulary =
  fixes as_str :: "'v \<Rightarrow> string"
    and from_str :: "string \<Rightarrow> ('v, 'e) outcome"
  assumes parse_print: "from_str (as_str v) = Ok v"
begin

lemma as_str_inj: "as_str v = as_str w \<Longrightarrow> v = w"
  by (metis parse_print outcome.inject(1))

lemma as_str_eq_iff: "as_str v = as_str w \<longleftrightarrow> v = w"
  using as_str_inj by blast

end

locale stored_vocabulary = printed_vocabulary +
  assumes parse_exact: "from_str s = Ok v \<Longrightarrow> s = as_str v"
begin

lemma parse_iff: "from_str s = Ok v \<longleftrightarrow> s = as_str v"
  using parse_exact parse_print by blast

lemma parse_unknown: "s \<notin> range as_str \<Longrightarrow> from_str s \<noteq> Ok v"
  using parse_exact by blast

end

section \<open>Guarded state machines\<close>

text \<open>
  A stored state changes by the operations of the program (\<open>step\<close>), a table lists the
  changes the database admits (\<open>allowed\<close>), and final states admit no further change.
\<close>

locale guarded_machine =
  fixes step :: "'s \<Rightarrow> 's \<Rightarrow> bool"
    and allowed :: "'s \<Rightarrow> 's \<Rightarrow> bool"
    and final :: "'s \<Rightarrow> bool"
  assumes step_allowed: "step s s' \<Longrightarrow> allowed s s'"
    and final_stays: "final s \<Longrightarrow> step s s' \<Longrightarrow> s' = s"
begin

lemma final_forever: "step\<^sup>*\<^sup>* s s' \<Longrightarrow> final s \<Longrightarrow> s' = s"
  by (induction rule: rtranclp_induct) (auto dest: final_stays)

lemma steps_allowed: "step\<^sup>*\<^sup>* s s' \<Longrightarrow> allowed\<^sup>*\<^sup>* s s'"
  using rtranclp_mono [of step allowed] step_allowed by blast

lemma change_precedes_final: "step\<^sup>*\<^sup>* s s' \<Longrightarrow> s' \<noteq> s \<Longrightarrow> \<not> final s"
  using final_forever by blast

end

section \<open>Leased queues\<close>

text \<open>
  A history of a queue whose claims mint execution ids: every event is admitted against the
  ids used so far and adds those it issues.
\<close>

inductive history ::
    "('x set \<Rightarrow> 'e \<Rightarrow> 's \<Rightarrow> bool) \<Rightarrow> ('e \<Rightarrow> 's \<Rightarrow> 's) \<Rightarrow> ('e \<Rightarrow> 's \<Rightarrow> 'x set)
      \<Rightarrow> 'x set \<Rightarrow> 's \<Rightarrow> 'e list \<Rightarrow> 'x set \<Rightarrow> 's \<Rightarrow> bool"
  for admitted perform issues used s where
  history_nil: "history admitted perform issues used s [] used s"
| history_snoc: "history admitted perform issues used s es used' s' \<Longrightarrow> admitted used' e s'
    \<Longrightarrow> history admitted perform issues used s (es @ [e]) (used' \<union> issues e s') (perform e s')"

text \<open>
  What a queue promises its workers: its invariant survives every event, an execution comes to
  hold a row only when it is issued, and an issued execution was never used before.
\<close>

locale leased_queue =
  fixes ok :: "'s \<Rightarrow> bool"
    and admitted :: "'x set \<Rightarrow> 'e \<Rightarrow> 's \<Rightarrow> bool"
    and perform :: "'e \<Rightarrow> 's \<Rightarrow> 's"
    and issues :: "'e \<Rightarrow> 's \<Rightarrow> 'x set"
    and holds :: "'x \<Rightarrow> 's \<Rightarrow> bool"
  assumes ok_perform: "ok s \<Longrightarrow> admitted used e s \<Longrightarrow> ok (perform e s)"
    and holds_perform: "ok s \<Longrightarrow> admitted used e s \<Longrightarrow> holds x (perform e s) \<Longrightarrow> holds x s \<or> x \<in> issues e s"
    and issues_fresh: "admitted used e s \<Longrightarrow> x \<in> issues e s \<Longrightarrow> x \<notin> used"
begin

lemma history_ok: "history admitted perform issues used s es used' s' \<Longrightarrow> ok s \<Longrightarrow> ok s'"
  by (induction rule: history.induct) (auto intro: ok_perform)

lemma history_used: "history admitted perform issues used s es used' s' \<Longrightarrow> used \<subseteq> used'"
  by (induction rule: history.induct) auto

lemma superseded_forever:
  assumes "history admitted perform issues used s es used' s'" and "ok s" and "x \<in> used" and "\<not> holds x s"
  shows "\<not> holds x s'"
  using assms
proof (induction rule: history.induct)
  case (history_snoc es used' s' e)
  have "ok s'" and "x \<in> used'"
    using history_ok history_used history_snoc by blast+
  then show ?case
    using history_snoc holds_perform issues_fresh by blast
qed

end

end
