(* ===== verification/Names.thy ===== *)
theory Names
  imports Prelude
begin

unbundle bit_operations_syntax

text \<open>
  Checked identifiers: \<open>src/src/domain/workflow/ids.rs\<close> (names, revisions,
  UUID newtypes), \<open>evidence.rs\<close> (evidence identifiers) and
  \<open>reply_integrity.rs\<close> (the hexadecimal form of a SHA-256 digest). A newtype over a
  checked string is the string; its \<open>parse\<close> function is the only constructor.
\<close>

section \<open>Names\<close>

definition MAX_NAME_BYTES :: nat where
  "MAX_NAME_BYTES = 128"

datatype name_error = Invalid | Reserved

definition valid_part :: "string \<Rightarrow> bool" where
  "valid_part v \<longleftrightarrow>
     length v \<le> MAX_NAME_BYTES \<and>
     (case v of [] \<Rightarrow> False
      | c # cs \<Rightarrow> (is_ascii_alphabetic c \<or> c = CHR ''_'') \<and>
          list_all (\<lambda>c. is_ascii_alphanumeric c \<or> c = CHR ''_'' \<or> c = CHR ''-'') cs)"

text \<open>The macro \<open>name_type!\<close>, with its \<open>$dotted\<close> argument as the first parameter.\<close>

definition parse_name :: "bool \<Rightarrow> string \<Rightarrow> (string, name_error) outcome" where
  "parse_name dotted v =
     (if v = ''$end'' then Err Reserved
      else
        let valid = (if dotted
          then length v \<le> MAX_NAME_BYTES \<and> list_all valid_part (split_on CHR ''.'' v)
          else valid_part v)
        in if \<not> valid then Err Invalid else Ok v)"

type_synonym step_id = string
type_synonym choice_name = string
type_synonym resource_name = string
type_synonym type_name = string
type_synonym failure_code = string
type_synonym template_id = string

definition StepId_parse :: "string \<Rightarrow> (step_id, name_error) outcome" where
  "StepId_parse = parse_name False"

definition ChoiceName_parse :: "string \<Rightarrow> (choice_name, name_error) outcome" where
  "ChoiceName_parse = parse_name False"

definition TypeName_parse :: "string \<Rightarrow> (type_name, name_error) outcome" where
  "TypeName_parse = parse_name True"

definition FailureCode_parse :: "string \<Rightarrow> (failure_code, name_error) outcome" where
  "FailureCode_parse = parse_name True"

section \<open>Revisions and UUIDs\<close>

text \<open>
  \<open>positive_revision!\<close> wraps a \<open>NonZeroU64\<close>; \<open>uuid_type!\<close> wraps a 128-bit UUID,
  compared and ordered as the number its bytes spell.
\<close>

definition revision_new :: "64 word \<Rightarrow> (64 word) option" where
  "revision_new value = (if value = 0 then None else Some value)"

type_synonym uuid = "128 word"
type_synonym company_id = uuid
type_synonym workflow_id = uuid
type_synonym version_id = uuid
type_synonym run_id = uuid
type_synonym execution_id = uuid
type_synonym trigger_id = uuid
type_synonym schedule_id = uuid
type_synonym schedule_occurrence_id = uuid
type_synonym action_invocation_id = uuid
type_synonym wait_id = uuid
type_synonym tool_call_id = uuid

section \<open>Evidence identifiers\<close>

datatype evidence_identity_error = EvidenceIdentityError

definition evidence_reference :: "string \<Rightarrow> bool" where
  "evidence_reference v \<longleftrightarrow>
     v \<noteq> [] \<and> length v \<le> 128 \<and> is_ascii_alphanumeric (hd v) \<and>
     list_all (\<lambda>b. is_ascii_alphanumeric b \<or> b \<in> set ''_-.:/'') v"

definition evidence_digest :: "string \<Rightarrow> bool" where
  "evidence_digest v \<longleftrightarrow>
     length v = 64 \<and>
     list_all (\<lambda>b. is_ascii_digit b \<or> 97 \<le> (of_char b :: nat) \<and> (of_char b :: nat) \<le> 102) v"

definition evidence_parse ::
    "(string \<Rightarrow> bool) \<Rightarrow> string \<Rightarrow> (string, evidence_identity_error) outcome" where
  "evidence_parse valid v = (if \<not> valid v then Err EvidenceIdentityError else Ok v)"

section \<open>Reply integrity\<close>

text \<open>The wrapped array \<open>[u8; 32]\<close> is a list of bytes, of length 32 in every value.\<close>

type_synonym reply_integrity = "(8 word) list"

datatype integrity_error = InvalidIntegrity

definition HEX :: string where
  "HEX = ''0123456789abcdef''"

definition as_hex :: "reply_integrity \<Rightarrow> string" where
  "as_hex bytes =
     concat (map (\<lambda>b. [HEX ! unat (drop_bit 4 b), HEX ! unat (b AND 15)]) bytes)"

definition nibble :: "8 word \<Rightarrow> (8 word) option" where
  "nibble v =
     (if 48 \<le> v \<and> v \<le> 57 then Some (v - 48)
      else if 97 \<le> v \<and> v \<le> 102 then Some (v - 97 + 10)
      else None)"

fun decode_pairs :: "string \<Rightarrow> (reply_integrity, integrity_error) outcome" where
  "decode_pairs (h # l # rest) =
     bindr (ok_or (nibble (of_char h)) InvalidIntegrity) (\<lambda>high.
     bindr (ok_or (nibble (of_char l)) InvalidIntegrity) (\<lambda>low.
     bindr (decode_pairs rest) (\<lambda>bytes. Ok ((push_bit 4 high OR low) # bytes))))"
| "decode_pairs _ = Ok []"

definition integrity_try_from :: "string \<Rightarrow> (reply_integrity, integrity_error) outcome" where
  "integrity_try_from v = (if length v \<noteq> 64 then Err InvalidIntegrity else decode_pairs v)"

section \<open>Lemmas\<close>

lemma valid_part_chars:
  assumes "valid_part v" and "c \<in> set v"
  shows "is_ascii_alphanumeric c \<or> c = CHR ''_'' \<or> c = CHR ''-''"
  using assms by (cases v) (auto simp: valid_part_def is_ascii_alphanumeric_def list_all_iff)

lemma valid_part_no_special:
  "valid_part v \<Longrightarrow> c \<in> set ''/~.$'' \<Longrightarrow> c \<notin> set v"
  using valid_part_chars [of v c]
  by (auto simp: is_ascii_alphanumeric_def is_ascii_alphabetic_def is_ascii_digit_def)

lemma end_not_valid [simp]: "\<not> valid_part ''$end''"
  by (simp add: valid_part_def is_ascii_alphabetic_def)

lemma parse_name_undotted: "parse_name False v = Ok w \<longleftrightarrow> w = v \<and> valid_part v"
  by (auto simp: parse_name_def Let_def)

lemma parse_name_dotted:
  "parse_name True v = Ok w \<longleftrightarrow>
     w = v \<and> length v \<le> MAX_NAME_BYTES \<and> (\<forall>p \<in> set (split_on CHR ''.'' v). valid_part p)"
proof -
  have "split_on CHR ''.'' ''$end'' = [''$end'']" by simp
  then show ?thesis
    by (auto simp: parse_name_def Let_def list_all_iff)
qed

lemma nibble_bound: "nibble v = Some n \<Longrightarrow> n < 16"
  by (auto simp: nibble_def word_less_nat_alt word_le_nat_alt unat_sub_if' unat_word_ariths split: if_splits)

text \<open>A nibble and its digit determine each other.\<close>

lemma hex_digits_decode: "list_all (\<lambda>n. nibble (of_char (HEX ! n)) = Some (word_of_nat n)) [0..<16]"
  by code_simp

lemma nibble_hex: "w < 16 \<Longrightarrow> nibble (of_char (HEX ! unat w)) = Some w"
proof -
  assume "w < 16"
  then have "unat w \<in> set [0..<16]" by (simp add: word_less_nat_alt)
  then show ?thesis
    using hex_digits_decode unfolding list_all_iff by (metis of_nat_unat ucast_id)
qed

lemma hex_digits_encode:
  "list_all (\<lambda>c. case nibble (of_char c) of None \<Rightarrow> True | Some n \<Rightarrow> HEX ! unat n = c) Enum.enum"
  by code_simp

lemma hex_nibble: "nibble (of_char c) = Some n \<Longrightarrow> HEX ! unat n = c"
proof -
  assume "nibble (of_char c) = Some n"
  moreover have "c \<in> set Enum.enum" by (simp add: enum_UNIV)
  ultimately show ?thesis
    using hex_digits_encode unfolding list_all_iff by fastforce
qed

lemma fifteen_mask: "(15 :: 8 word) = mask 4"
  by (simp add: mask_eq_exp_minus_1)

lemma byte_of_nibbles: "push_bit 4 (drop_bit 4 b) OR (b AND 15) = (b :: 8 word)"
  by (rule bit_eqI) (auto simp: bit_simps fifteen_mask)

lemma nibbles_lt: "drop_bit 4 (b :: 8 word) < 16" "b AND 15 < (16 :: 8 word)"
proof -
  have "unat b < 256" using unsigned_less [of b] by simp
  then show "drop_bit 4 b < 16"
    by (simp add: word_less_nat_alt drop_bit_eq_div unat_div)
  show "b AND 15 < 16"
    by (simp add: fifteen_mask word_less_nat_alt take_bit_eq_mod unat_mod flip: take_bit_eq_mask)
qed

lemma nibble_bits: "w < (16 :: 8 word) \<Longrightarrow> bit w n \<Longrightarrow> n < 4"
proof -
  assume "w < 16" and "bit w n"
  then have "w = take_bit 4 w"
    using less_mask_eq [of w 4] by (simp add: take_bit_eq_mask)
  with \<open>bit w n\<close> show ?thesis by (metis bit_take_bit_iff)
qed

lemma nibbles_of_byte:
  assumes "h < 16" and "l < (16 :: 8 word)"
  shows "drop_bit 4 (push_bit 4 h OR l) = h" and "(push_bit 4 h OR l) AND 15 = l"
proof -
  show "drop_bit 4 (push_bit 4 h OR l) = h"
    by (rule bit_eqI)
      (auto simp: bit_simps dest: nibble_bits [OF assms(1)] nibble_bits [OF assms(2)])
  show "(push_bit 4 h OR l) AND 15 = l"
    by (rule bit_eqI)
      (auto simp: bit_simps fifteen_mask dest: nibble_bits [OF assms(1)] nibble_bits [OF assms(2)])
qed

lemmas nibble_facts = nibble_hex nibbles_lt byte_of_nibbles nibbles_of_byte hex_nibble nibble_bound

lemma as_hex_simps:
  "as_hex [] = []"
  "as_hex (b # bs) = (HEX ! unat (drop_bit 4 b)) # (HEX ! unat (b AND 15)) # as_hex bs"
  by (simp_all add: as_hex_def)

lemma decode_pairs_as_hex: "decode_pairs (as_hex bytes) = Ok bytes"
  by (induction bytes) (simp_all add: as_hex_simps nibble_facts)

lemma decode_pairs_canonical: "decode_pairs s = Ok bytes \<Longrightarrow> even (length s) \<Longrightarrow> as_hex bytes = s"
  by (induction s arbitrary: bytes rule: decode_pairs.induct)
    (auto simp: as_hex_simps nibble_facts simp del: drop_bit_or)

lemma length_as_hex: "length (as_hex bytes) = 2 * length bytes"
  by (induction bytes) (simp_all add: as_hex_simps)

section \<open>Properties\<close>

text \<open>
  The hexadecimal form of a reply integrity value and the value determine each
  other: a 32-byte value printed by \<open>as_hex\<close> reads back as itself, and the only text
  that \<open>try_from\<close> accepts for a value is that 64-character lower-case form, so one
  digest never has two accepted spellings.
\<close>

theorem integrity_round_trip:
  "integrity_try_from s = Ok bytes \<longleftrightarrow> length bytes = 32 \<and> s = as_hex bytes"
proof
  assume ok: "integrity_try_from s = Ok bytes"
  then have "length s = 64" and "decode_pairs s = Ok bytes"
    by (auto simp: integrity_try_from_def split: if_splits)
  moreover from this have "as_hex bytes = s" by (simp add: decode_pairs_canonical)
  ultimately show "length bytes = 32 \<and> s = as_hex bytes"
    using length_as_hex [of bytes] by simp
next
  assume "length bytes = 32 \<and> s = as_hex bytes"
  then show "integrity_try_from s = Ok bytes"
    by (simp add: integrity_try_from_def decode_pairs_as_hex length_as_hex)
qed

text \<open>
  \<open>StepId::parse\<close> (and every undotted name) accepts exactly the names of 1 to 128
  bytes over letters, digits, underscore and hyphen that start with a letter or an
  underscore, and returns the text unchanged; a dotted name is accepted exactly when it
  fits 128 bytes and each of its dot-separated parts is such a name. The reserved
  transition target \<open>$end\<close> is refused with its own error by both.
\<close>

theorem names_parse_exactly:
  "(StepId_parse v = Ok w \<longleftrightarrow> w = v \<and> valid_part v)
   \<and> (TypeName_parse v = Ok w \<longleftrightarrow>
        w = v \<and> length v \<le> MAX_NAME_BYTES \<and> (\<forall>p \<in> set (split_on CHR ''.'' v). valid_part p))
   \<and> (StepId_parse v = Err Reserved \<longleftrightarrow> v = ''$end'')
   \<and> (TypeName_parse v = Err Reserved \<longleftrightarrow> v = ''$end'')
   \<and> (valid_part v \<longleftrightarrow> 1 \<le> length v \<and> length v \<le> 128
        \<and> (is_ascii_alphabetic (hd v) \<or> hd v = CHR ''_'')
        \<and> (\<forall>c \<in> set v. is_ascii_alphanumeric c \<or> c = CHR ''_'' \<or> c = CHR ''-''))"
proof -
  have "valid_part v \<longleftrightarrow> 1 \<le> length v \<and> length v \<le> 128
        \<and> (is_ascii_alphabetic (hd v) \<or> hd v = CHR ''_'')
        \<and> (\<forall>c \<in> set v. is_ascii_alphanumeric c \<or> c = CHR ''_'' \<or> c = CHR ''-'')"
    by (cases v) (auto simp: valid_part_def MAX_NAME_BYTES_def list_all_iff is_ascii_alphanumeric_def)
  moreover have "parse_name d v = Err Reserved \<longleftrightarrow> v = ''$end''" for d
    by (simp add: parse_name_def Let_def)
  ultimately show ?thesis
    by (simp add: StepId_parse_def TypeName_parse_def parse_name_undotted parse_name_dotted)
qed

text \<open>The bounded quantifiers of the statement range over the bytes of one concrete name.\<close>

theorem names_parse_exactly_witness:
  "StepId_parse ''valid_2-name'' = Ok ''valid_2-name'' \<and> TypeName_parse ''agent.run'' = Ok ''agent.run''"
proof -
  have "valid_part ''valid_2-name''" and "valid_part ''agent''" and "valid_part ''run''"
    by code_simp+
  then show ?thesis
    using names_parse_exactly [of "''valid_2-name''" "''valid_2-name''"]
      names_parse_exactly [of "''agent.run''" "''agent.run''"]
    by (simp add: MAX_NAME_BYTES_def)
qed

end
