(* ===== verification/Budget.thy ===== *)
theory Budget
  imports Names
begin

text \<open>
  The immutable ceilings shared by all work descended from one admitted root:
  \<open>src/src/domain/workflow/budget.rs\<close>, and the reservation request of
  \<open>src/src/application/workflow/budget.rs\<close>. Counters are \<open>u32\<close>, so they are
  32-bit words, and the checked addition of a debit is on words.
\<close>

section \<open>Model\<close>

definition MAX_ROOT_ACTIVATIONS :: "32 word" where
  "MAX_ROOT_ACTIVATIONS = 100000"

definition MAX_ROOT_MODEL_CALLS :: "32 word" where
  "MAX_ROOT_MODEL_CALLS = 1000"

definition MAX_ROOT_REPETITIONS :: "32 word" where
  "MAX_ROOT_REPETITIONS = 1000"

datatype token_refusal = Rejected | Expired

fun failure_code :: "token_refusal \<Rightarrow> string" where
  "failure_code Rejected = ''workflow.tokens_rejected''"
| "failure_code Expired = ''workflow.tokens_expired''"

datatype budget_resource = Activation | ModelCall | Repetition

fun maximum :: "budget_resource \<Rightarrow> 32 word" where
  "maximum Activation = MAX_ROOT_ACTIVATIONS"
| "maximum ModelCall = MAX_ROOT_MODEL_CALLS"
| "maximum Repetition = MAX_ROOT_REPETITIONS"

datatype budget_limit_error = BudgetLimitError

record token_allowance =
  max_tokens :: "32 word"
  reviewers :: "uuid list"

record root_budget_limits =
  activations :: "32 word"
  model_calls :: "32 word"
  repetitions :: "32 word"
  tokens :: "token_allowance option"

record budget_charge =
  resource :: budget_resource
  quantity :: "32 word"

definition BudgetCharge_new ::
    "budget_resource \<Rightarrow> 32 word \<Rightarrow> (budget_charge, budget_limit_error) outcome" where
  "BudgetCharge_new r q =
     (if q = 0 \<or> q > maximum r then Err BudgetLimitError
      else Ok \<lparr>resource = r, quantity = q\<rparr>)"

definition RootBudgetLimits_new ::
    "32 word \<Rightarrow> 32 word \<Rightarrow> 32 word \<Rightarrow> (root_budget_limits, budget_limit_error) outcome" where
  "RootBudgetLimits_new a m r =
     bindr (BudgetCharge_new Activation a) (\<lambda>_.
     bindr (BudgetCharge_new ModelCall m) (\<lambda>_.
     bindr (BudgetCharge_new Repetition r) (\<lambda>_.
     Ok \<lparr>activations = a, model_calls = m, repetitions = r, tokens = None\<rparr>)))"

definition with_tokens :: "root_budget_limits \<Rightarrow> token_allowance \<Rightarrow> root_budget_limits" where
  "with_tokens l t = l\<lparr>tokens := Some t\<rparr>"

fun limit :: "root_budget_limits \<Rightarrow> budget_resource \<Rightarrow> 32 word" where
  "limit l Activation = activations l"
| "limit l ModelCall = model_calls l"
| "limit l Repetition = repetitions l"

definition RootBudgetLimits_default :: root_budget_limits where
  "RootBudgetLimits_default =
     \<lparr>activations = MAX_ROOT_ACTIVATIONS, model_calls = MAX_ROOT_MODEL_CALLS,
      repetitions = MAX_ROOT_REPETITIONS, tokens = None\<rparr>"

definition MAX_TOKENS :: "32 word" where
  "MAX_TOKENS = 2147483647"

definition MAX_REVIEWERS :: nat where
  "MAX_REVIEWERS = 16"

text \<open>The duplicate test collects the reviewers into a \<open>BTreeSet\<close> and compares sizes.\<close>

definition TokenAllowance_new ::
    "32 word \<Rightarrow> uuid list \<Rightarrow> (token_allowance, budget_limit_error) outcome" where
  "TokenAllowance_new n rs =
     (if n = 0 \<or> n > MAX_TOKENS \<or> rs = [] \<or> length rs > MAX_REVIEWERS
         \<or> length (foldr bs_insert rs []) \<noteq> length rs
      then Err BudgetLimitError
      else Ok \<lparr>max_tokens = n, reviewers = rs\<rparr>)"

definition consumed_after ::
    "budget_charge \<Rightarrow> root_budget_limits \<Rightarrow> 32 word \<Rightarrow> (32 word) option" where
  "consumed_after c limits consumed =
     (case checked_add consumed (quantity c) of
        None \<Rightarrow> None
      | Some t \<Rightarrow> if t \<le> limit limits (resource c) then Some t else None)"

text \<open>A reservation carries model calls and repetitions; activations belong to the runtime.\<close>

datatype budget_request_error = InvalidReservationKey | ActivationBelongsToRuntime

definition BudgetReservationKey_parse :: "string \<Rightarrow> (string, budget_request_error) outcome" where
  "BudgetReservationKey_parse v =
     (if v = [] \<or> length v > 128 \<or> \<not> is_ascii_alphanumeric (hd v)
         \<or> \<not> list_all (\<lambda>b. is_ascii_alphanumeric b \<or> b \<in> set ''_.:-'') v
      then Err InvalidReservationKey else Ok v)"

record 'fence budget_reservation =
  fence :: 'fence
  reservation_key :: string
  charge :: budget_charge

definition BudgetReservation_new ::
    "'fence \<Rightarrow> string \<Rightarrow> budget_charge
      \<Rightarrow> ('fence budget_reservation, budget_request_error) outcome" where
  "BudgetReservation_new f k c =
     (if resource c = Activation then Err ActivationBelongsToRuntime
      else Ok \<lparr>fence = f, reservation_key = k, charge = c\<rparr>)"

section \<open>Lemmas\<close>

lemma consumed_after_eq_Some:
  "consumed_after c limits n = Some m \<longleftrightarrow>
     unat m = unat n + unat (quantity c) \<and> m \<le> limit limits (resource c)"
  by (auto simp: consumed_after_def checked_add_eq_Some split: option.splits if_splits)
    (metis checked_add_eq_Some option.inject option.distinct(1))+

lemma consumed_after_granted_iff:
  "(\<exists>m. consumed_after c limits n = Some m) \<longleftrightarrow>
     unat n + unat (quantity c) \<le> unat (limit limits (resource c))"
proof
  assume "unat n + unat (quantity c) \<le> unat (limit limits (resource c))"
  moreover have "unat (limit limits (resource c)) < 2 ^ 32"
    using unsigned_less [of "limit limits (resource c)"] by simp
  ultimately have "unat (n + quantity c) = unat n + unat (quantity c)"
    and "n + quantity c \<le> limit limits (resource c)"
    by (simp_all add: word_le_nat_alt unat_word_ariths)
  then show "\<exists>m. consumed_after c limits n = Some m"
    using consumed_after_eq_Some by blast
qed (auto simp: consumed_after_eq_Some word_le_nat_alt)

text \<open>The debits of one resource are an allowance: what is left is the unconsumed part.\<close>

interpretation root_ledger: allowance
  "\<lambda>q n. consumed_after \<lparr>resource = r, quantity = q\<rparr> limits n"
  unat
  "\<lambda>n. unat (limit limits r) - unat n"
  "\<lambda>n. n \<le> limit limits r"
  for r limits
proof unfold_locales
  fix s c assume "s \<le> limit limits r"
  then show "(\<exists>s'. consumed_after \<lparr>resource = r, quantity = c\<rparr> limits s = Some s') \<longleftrightarrow>
      unat c \<le> unat (limit limits r) - unat s"
    using consumed_after_granted_iff [of "\<lparr>resource = r, quantity = c\<rparr>" limits s]
    by (auto simp: word_le_nat_alt)
qed (auto simp: consumed_after_eq_Some word_le_nat_alt)

lemma foldr_bs_insert: "bs_ok (foldr bs_insert xs []) \<and> set (foldr bs_insert xs []) = set xs"
  by (induction xs) auto

lemma length_foldr_bs_insert: "length (foldr bs_insert xs []) = card (set xs)"
  using foldr_bs_insert [of xs] by (metis bs_ok_iff distinct_card)

section \<open>Properties\<close>

text \<open>
  The debits of one budget resource, made one after another from zero, all succeed
  exactly when their sum fits the root's limit, and the counter then holds exactly that
  sum: no debit is lost, none wraps a 32-bit counter, and no sequence of grants spends
  more than the limit frozen at admission.
\<close>

theorem root_budget_never_overspent:
  "charge_all (\<lambda>q n. consumed_after \<lparr>resource = r, quantity = q\<rparr> limits n) qs 0 = Some m \<longleftrightarrow>
     unat m = (\<Sum>q \<leftarrow> qs. unat q) \<and> (\<Sum>q \<leftarrow> qs. unat q) \<le> unat (limit limits r)"
  (is "?run = Some m \<longleftrightarrow> ?spec m")
proof -
  have spec: "?run = Some k \<Longrightarrow> ?spec k" for k
    using root_ledger.all_granted_left [of 0 limits r qs k] by (auto simp: word_le_nat_alt)
  have "(\<exists>k. ?run = Some k) \<longleftrightarrow> (\<Sum>q \<leftarrow> qs. unat q) \<le> unat (limit limits r)"
    using root_ledger.all_granted_iff [of 0 limits r qs] by simp
  with spec show ?thesis
    by (metis word_unat_eq_iff)
qed

text \<open>
  Budget values exist only within the platform ceilings: limits accepted by
  \<open>RootBudgetLimits::new\<close> are positive and at most the maximum of each resource, a
  charge is positive and at most that maximum, and a token allowance names between one
  and sixteen distinct reviewers; exactly these inputs are accepted, and the default
  limits are the ceilings themselves.
\<close>

theorem budget_values_within_ceilings:
  "(is_ok (RootBudgetLimits_new a m r) \<longleftrightarrow>
      (0 < a \<and> a \<le> 100000) \<and> (0 < m \<and> m \<le> 1000) \<and> (0 < r \<and> r \<le> 1000))
   \<and> (is_ok (BudgetCharge_new res q) \<longleftrightarrow> 0 < q \<and> q \<le> limit RootBudgetLimits_default res)
   \<and> (is_ok (TokenAllowance_new n rs) \<longleftrightarrow>
        0 < n \<and> unat n < 2 ^ 31 \<and> 1 \<le> length rs \<and> length rs \<le> 16 \<and> distinct rs)"
proof -
  have charge: "is_ok (BudgetCharge_new res q) \<longleftrightarrow> 0 < q \<and> q \<le> maximum res" for res q
    by (auto simp: BudgetCharge_new_def word_gt_0 not_less)
  have dflt: "limit RootBudgetLimits_default res = maximum res"
    by (cases res) (simp_all add: RootBudgetLimits_default_def)
  have limits: "is_ok (RootBudgetLimits_new a m r) \<longleftrightarrow> is_ok (BudgetCharge_new Activation a)
      \<and> is_ok (BudgetCharge_new ModelCall m) \<and> is_ok (BudgetCharge_new Repetition r)"
    by (auto simp: RootBudgetLimits_new_def)
  have reviewers: "length (foldr bs_insert rs []) = length rs \<longleftrightarrow> distinct rs"
    by (metis length_foldr_bs_insert card_distinct distinct_card)
  have tokens: "is_ok (TokenAllowance_new n rs) \<longleftrightarrow>
      0 < n \<and> unat n < 2 ^ 31 \<and> 1 \<le> length rs \<and> length rs \<le> 16 \<and> distinct rs"
    unfolding TokenAllowance_new_def reviewers
    by (cases rs) (auto simp: MAX_TOKENS_def MAX_REVIEWERS_def not_less word_le_nat_alt word_less_nat_alt unat_gt_0)
  show ?thesis
    using limits tokens
    by (simp only: charge dflt) (simp add: MAX_ROOT_ACTIVATIONS_def MAX_ROOT_MODEL_CALLS_def
        MAX_ROOT_REPETITIONS_def)
qed

end
