(* ===== verification/Access_Level.thy ===== *)
theory Access_Level
  imports Prelude
begin

text \<open>
  Access levels and knowledge classification:
  \<open>src/src/domain/entities/access_level.rs\<close> and the membership authority of
  \<open>src/src/domain/entities/company_member.rs\<close>. Levels are ordered, the order being
  that of their numbers; content is released only to a destination at least as cleared.
\<close>

section \<open>Model\<close>

datatype access_level = L0 | L1 | L2 | L3 | L4 | L5 | L6 | L7 | L8 | L9

definition PUBLIC :: access_level where
  "PUBLIC = L0"

definition LEVEL_MAX :: access_level where
  "LEVEL_MAX = L9"

definition LEVEL_ALL :: "access_level list" where
  "LEVEL_ALL = [L0, L1, L2, L3, L4, L5, L6, L7, L8, L9]"

fun as_i16 :: "access_level \<Rightarrow> int" where
  "as_i16 L0 = 0" | "as_i16 L1 = 1" | "as_i16 L2 = 2" | "as_i16 L3 = 3" | "as_i16 L4 = 4"
| "as_i16 L5 = 5" | "as_i16 L6 = 6" | "as_i16 L7 = 7" | "as_i16 L8 = 8" | "as_i16 L9 = 9"

datatype level_error = LevelOutOfRange

definition level_try_from :: "int \<Rightarrow> (access_level, level_error) outcome" where
  "level_try_from v =
     (if v = 0 then Ok L0 else if v = 1 then Ok L1 else if v = 2 then Ok L2
      else if v = 3 then Ok L3 else if v = 4 then Ok L4 else if v = 5 then Ok L5
      else if v = 6 then Ok L6 else if v = 7 then Ok L7 else if v = 8 then Ok L8
      else if v = 9 then Ok L9 else Err LevelOutOfRange)"

text \<open>The derived \<open>Ord\<close> compares discriminants.\<close>

lemma as_i16_inj [simp]: "as_i16 a = as_i16 b \<longleftrightarrow> a = b"
  by (cases a; cases b) simp_all

instantiation access_level :: linorder
begin

definition less_eq_access_level :: "access_level \<Rightarrow> access_level \<Rightarrow> bool" where
  "a \<le> b \<longleftrightarrow> as_i16 a \<le> as_i16 b"

definition less_access_level :: "access_level \<Rightarrow> access_level \<Rightarrow> bool" where
  "a < b \<longleftrightarrow> as_i16 a < as_i16 b"

instance
  by intro_classes (auto simp: less_eq_access_level_def less_access_level_def)

end

lemmas level_order_defs = less_eq_access_level_def less_access_level_def

fun lowest_from :: "access_level \<Rightarrow> access_level list \<Rightarrow> access_level" where
  "lowest_from m [] = m"
| "lowest_from m (x # xs) = lowest_from (min m x) xs"

definition lowest :: "access_level list \<Rightarrow> access_level" where
  "lowest readers = (case readers of [] \<Rightarrow> PUBLIC | x # xs \<Rightarrow> lowest_from x xs)"

definition audience_level :: "access_level list \<Rightarrow> access_level" where
  "audience_level readers = lowest readers"

definition may_release :: "access_level \<Rightarrow> access_level \<Rightarrow> bool" where
  "may_release content destination \<longleftrightarrow> as_i16 content \<le> as_i16 destination"

definition visible_to :: "access_level \<Rightarrow> access_level \<Rightarrow> bool" where
  "visible_to viewer stamp \<longleftrightarrow> as_i16 viewer \<ge> as_i16 stamp"

datatype company_membership = Owner | Admin | Member | NoMembership

fun is_team :: "company_membership \<Rightarrow> bool" where
  "is_team NoMembership = False"
| "is_team _ = True"

fun is_owner :: "company_membership \<Rightarrow> bool" where
  "is_owner Owner = True"
| "is_owner _ = False"

fun manages_company_operations :: "company_membership \<Rightarrow> bool" where
  "manages_company_operations Owner = True"
| "manages_company_operations Admin = True"
| "manages_company_operations _ = False"

record level_actor =
  membership :: company_membership
  actor_level :: access_level

definition manages_levels :: "level_actor \<Rightarrow> bool" where
  "manages_levels a = manages_company_operations (membership a)"

datatype level_target = OwnerTarget | Assignable access_level

datatype level_refusal = NotAdministrator | OwnerFixed | TargetAboveActor | RequestedAboveActor

definition may_assign_level ::
    "level_actor \<Rightarrow> level_target \<Rightarrow> access_level \<Rightarrow> (unit, level_refusal) outcome" where
  "may_assign_level actor target requested =
     (if \<not> manages_levels actor then Err NotAdministrator
      else case target of
        OwnerTarget \<Rightarrow> Err OwnerFixed
      | Assignable current \<Rightarrow>
          if is_owner (membership actor) then Ok ()
          else if current > actor_level actor then Err TargetAboveActor
          else if requested > actor_level actor then Err RequestedAboveActor
          else Ok ())"

record run_knowledge =
  knowledge_ceiling :: access_level
  content_level :: access_level

datatype knowledge_error = ContentExceedsCeiling

definition RunKnowledge_new ::
    "access_level \<Rightarrow> access_level \<Rightarrow> (run_knowledge, knowledge_error) outcome" where
  "RunKnowledge_new ceiling content =
     (if content > ceiling then Err ContentExceedsCeiling
      else Ok \<lparr>knowledge_ceiling = ceiling, content_level = content\<rparr>)"

section \<open>Lemmas\<close>

lemma level_try_from_as_i16: "level_try_from (as_i16 l) = Ok l"
  by (cases l) (simp_all add: level_try_from_def)

lemma level_try_from_eq_Ok: "level_try_from v = Ok l \<longleftrightarrow> v = as_i16 l"
proof
  assume "level_try_from v = Ok l"
  then show "v = as_i16 l" by (auto simp: level_try_from_def split: if_splits)
qed (simp add: level_try_from_as_i16)

lemma as_i16_range: "0 \<le> as_i16 l \<and> as_i16 l \<le> 9"
  by (cases l) simp_all

lemma lowest_from_Min: "lowest_from m xs = Min (insert m (set xs))"
proof (induction xs arbitrary: m)
  case (Cons x xs)
  have "Min (insert (min m x) (set xs)) = Min (insert m (insert x (set xs)))"
    by (cases "xs = []") (auto simp: min.assoc)
  then show ?case by (simp add: Cons.IH)
qed simp

lemma lowest_Min: "readers \<noteq> [] \<Longrightarrow> lowest readers = Min (set readers)"
  by (cases readers) (simp_all add: lowest_def lowest_from_Min)

lemma may_release_iff: "may_release c d \<longleftrightarrow> c \<le> d"
  by (simp add: may_release_def less_eq_access_level_def)

lemma visible_to_iff: "visible_to v s \<longleftrightarrow> s \<le> v"
  by (simp add: visible_to_def less_eq_access_level_def)

section \<open>Properties\<close>

text \<open>
  Releasing content to a shared audience never shows it to a reader below its
  classification: content may be released to the level of an audience exactly when it is
  visible to every reader in it, and, for an audience with no readers, exactly when the
  content is public.
\<close>

theorem audience_release_is_safe:
  "may_release content (audience_level readers) \<longleftrightarrow>
     (if readers = [] then content = PUBLIC else list_all (\<lambda>r. visible_to r content) readers)"
proof (cases "readers = []")
  case True
  then show ?thesis
    by (cases content) (simp_all add: audience_level_def lowest_def may_release_def PUBLIC_def)
next
  case False
  then show ?thesis
    by (simp add: audience_level_def lowest_Min may_release_iff visible_to_iff list_all_iff)
qed

text \<open>
  Who may set whose access level: the assignment is permitted exactly when the
  target is not the owner and the actor is the owner, or an admin both whose own level
  is at least the target's current level and at least the requested one. So an admin can
  neither raise anyone above themselves nor touch anyone above them, and a plain member
  or a stranger assigns nothing.
\<close>

theorem level_assignment_is_bounded_by_actor:
  "is_ok (may_assign_level actor target requested) \<longleftrightarrow>
     (\<exists>current. target = Assignable current \<and>
        (membership actor = Owner \<or>
         membership actor = Admin \<and> current \<le> actor_level actor \<and> requested \<le> actor_level actor))"
  by (cases "membership actor"; cases target)
    (auto simp: may_assign_level_def manages_levels_def not_less split: if_splits)

text \<open>
  Stored level numbers and levels determine each other, and a run's knowledge record
  exists only with its content at or below its ceiling: reading a number succeeds exactly
  for 0 to 9, yields the level that prints that number, the list \<open>ALL\<close> holds the ten
  levels in order, and \<open>RunKnowledge::new\<close> accepts
  exactly the pairs whose content may be released to the ceiling.
\<close>

theorem levels_round_trip_and_ceiling:
  "(level_try_from v = Ok l \<longleftrightarrow> v = as_i16 l)
   \<and> (is_ok (level_try_from v) \<longleftrightarrow> 0 \<le> v \<and> v \<le> 9)
   \<and> map as_i16 LEVEL_ALL = [0..9]
   \<and> (RunKnowledge_new ceiling content = Ok k \<longleftrightarrow>
        may_release content ceiling \<and> k = \<lparr>knowledge_ceiling = ceiling, content_level = content\<rparr>)"
proof -
  have "is_ok (level_try_from v)" if "0 \<le> v" "v \<le> 9"
  proof -
    have "v \<in> {0, 1, 2, 3, 4, 5, 6, 7, 8, 9}" using that by (simp; presburger)
    then show ?thesis by (auto simp: level_try_from_def)
  qed
  moreover have "map as_i16 LEVEL_ALL = [0..9]"
    by code_simp
  ultimately show ?thesis
    using as_i16_range by (auto simp: level_try_from_eq_Ok RunKnowledge_new_def may_release_iff)
qed

end
