(* ===== verification/Json.thy ===== *)
theory Json
  imports Names
begin

text \<open>
  JSON values as the workflow engine sees them, the bounded checks every value passes
  before it is stored, and the typed comparison of values:
  \<open>check_size\<close>, \<open>ensure_pending_capacity\<close>, \<open>check_value\<close> and
  \<open>validate_context_value\<close> of \<open>src/src/domain/workflow/context/mod.rs\<close>, and
  \<open>src/src/domain/workflow/expression.rs\<close>.

  \<open>serde_json\<close> and \<open>bigdecimal\<close> are libraries the program calls. Numbers are an
  arbitrary type; the chunks of bytes that serialisation hands to its writer, and the
  exact decimal value of a number, are parameters (\<open>externals\<close>). Objects iterate in
  key order, since the crate builds \<open>serde_json\<close> without insertion order.
\<close>

section \<open>Model\<close>

datatype 'n json =
    VNull
  | VBool bool
  | VNumber 'n
  | VString string
  | VArray "'n json list"
  | VObject "(string \<times> 'n json) list"

text \<open>Every object holds its keys once and in order, as \<open>serde_json::Map\<close> does.\<close>

fun json_ok :: "'n json \<Rightarrow> bool" where
  "json_ok (VArray vs) = list_all json_ok vs"
| "json_ok (VObject kvs) = (bt_ok kvs \<and> list_all (\<lambda>(k, v). json_ok v) kvs)"
| "json_ok _ = True"

record ('n, 'd) externals =
  to_writer :: "'n json \<Rightarrow> string list" \<comment> \<open>\<open>serde_json::to_writer\<close>: the chunks written\<close>
  decimal :: "'n \<Rightarrow> 'd" \<comment> \<open>\<open>BigDecimal::from_str\<close> of the printed number\<close>
  uuid_to_string :: "uuid \<Rightarrow> string" \<comment> \<open>\<open>Uuid\<close>'s \<open>Display\<close>\<close>
  to_rfc3339_micros :: "int \<Rightarrow> string" \<comment> \<open>\<open>DateTime::to_rfc3339_opts\<close>\<close>

datatype context_error =
    Missing string
  | InvalidReference string
  | Limit string
  | Operand string

definition MAX_JSON_DEPTH :: nat where
  "MAX_JSON_DEPTH = 64"

definition MAX_OUTPUT_BYTES :: nat where
  "MAX_OUTPUT_BYTES = 1024 * 1024"

definition MAX_WORK_NODES :: nat where
  "MAX_WORK_NODES = 65536"

record context_limits =
  output_bytes :: nat
  work_nodes :: nat

definition ContextLimits_default :: context_limits where
  "ContextLimits_default = \<lparr>output_bytes = MAX_OUTPUT_BYTES, work_nodes = MAX_WORK_NODES\<rparr>"

subsection \<open>Size\<close>

text \<open>One write call of \<open>CappedWriter\<close>; the writer's state is the bytes remaining.\<close>

definition capped_write :: "string \<Rightarrow> nat \<Rightarrow> nat option" where
  "capped_write bytes remaining = checked_sub remaining (length bytes)"

definition check_size ::
    "('n, 'd) externals \<Rightarrow> 'n json \<Rightarrow> nat \<Rightarrow> (nat, context_error) outcome" where
  "check_size x value remaining =
     ok_or (charge_all capped_write (to_writer x value) remaining) (Limit ''output bytes'')"

subsection \<open>Nodes and depth\<close>

definition ensure_pending_capacity ::
    "nat \<Rightarrow> nat \<Rightarrow> nat \<Rightarrow> string \<Rightarrow> (unit, context_error) outcome" where
  "ensure_pending_capacity pending children remaining lim =
     (if saturating_add pending children > remaining then Err (Limit lim) else Ok ())"

text \<open>
  The loop of \<open>check_value\<close>. The top of the Rust stack is its last element; here it is
  the head of the list, so the children pushed in order are reversed.
\<close>

function check_value_loop ::
    "('n json \<times> nat) list \<Rightarrow> nat \<Rightarrow> nat \<Rightarrow> (nat, context_error) outcome" where
  "check_value_loop [] budget max_depth = Ok budget"
| "check_value_loop ((value, depth) # stack) budget max_depth =
     (case checked_sub budget 1 of
        None \<Rightarrow> Err (Limit ''work nodes'')
      | Some budget' \<Rightarrow>
          if depth > max_depth then Err (Limit ''JSON depth'')
          else (case value of
              VObject kvs \<Rightarrow>
                bindr (ensure_pending_capacity (length stack) (length kvs) budget' ''work nodes'')
                  (\<lambda>_. check_value_loop
                    (rev (map (\<lambda>kv. (snd kv, depth + 1)) kvs) @ stack) budget' max_depth)
            | VArray vs \<Rightarrow>
                bindr (ensure_pending_capacity (length stack) (length vs) budget' ''work nodes'')
                  (\<lambda>_. check_value_loop
                    (rev (map (\<lambda>v. (v, depth + 1)) vs) @ stack) budget' max_depth)
            | _ \<Rightarrow> check_value_loop stack budget' max_depth))"
  by pat_completeness auto
termination
  by (relation "measure (\<lambda>(stack, budget, max_depth). budget)") auto

definition check_value ::
    "'n json \<Rightarrow> nat \<Rightarrow> nat \<Rightarrow> (nat, context_error) outcome" where
  "check_value value budget max_depth = check_value_loop [(value, 0)] budget max_depth"

definition validate_context_value ::
    "('n, 'd) externals \<Rightarrow> 'n json \<Rightarrow> context_limits \<Rightarrow> (unit, context_error) outcome" where
  "validate_context_value x value limits =
     bindr (check_value value (min (work_nodes limits) MAX_WORK_NODES) MAX_JSON_DEPTH) (\<lambda>_.
     bindr (check_size x value (min (output_bytes limits) MAX_OUTPUT_BYTES)) (\<lambda>_. Ok ()))"

subsection \<open>Comparison\<close>

datatype comparison = Eq | Ne | Lt | Le | Gt | Ge

lemma size_zip_left [termination_simp]:
  "(a, b) \<in> set (zip xs ys) \<Longrightarrow> size a < Suc (size_list size xs)"
  by (metis less_Suc_eq_le set_zip_leftD size_list_estimation' order_refl)

fun json_equal :: "('n, 'd::linorder) externals \<Rightarrow> 'n json \<Rightarrow> 'n json \<Rightarrow> bool" where
  "json_equal x (VNumber a) (VNumber b) = (decimal x a = decimal x b)"
| "json_equal x (VArray a) (VArray b) =
     (length a = length b \<and> list_all (\<lambda>p. json_equal x (fst p) (snd p)) (zip a b))"
| "json_equal x (VObject a) (VObject b) =
     (length a = length b \<and>
      list_all (\<lambda>p. case bt_get b (fst p) of None \<Rightarrow> False | Some y \<Rightarrow> json_equal x (snd p) y) a)"
| "json_equal x VNull VNull = True"
| "json_equal x (VBool a) (VBool b) = (a = b)"
| "json_equal x (VString a) (VString b) = (a = b)"
| "json_equal x _ _ = False"

datatype ordering = Less | Equal | Greater

definition cmp :: "'a::linorder \<Rightarrow> 'a \<Rightarrow> ordering" where
  "cmp a b = (if a < b then Less else if a = b then Equal else Greater)"

definition json_order ::
    "('n, 'd::linorder) externals \<Rightarrow> 'n json \<Rightarrow> 'n json \<Rightarrow> (ordering, context_error) outcome" where
  "json_order x left right =
     (case (left, right) of
        (VNumber a, VNumber b) \<Rightarrow> Ok (cmp (decimal x a) (decimal x b))
      | (VString a, VString b) \<Rightarrow> Ok (cmp a b)
      | _ \<Rightarrow> Err (Operand ''ordering expects two numbers or two strings''))"

fun compare ::
    "('n, 'd::linorder) externals \<Rightarrow> comparison \<Rightarrow> 'n json \<Rightarrow> 'n json \<Rightarrow> (bool, context_error) outcome" where
  "compare x Eq left right = Ok (json_equal x left right)"
| "compare x Ne left right = Ok (\<not> json_equal x left right)"
| "compare x Lt left right = bindr (json_order x left right) (\<lambda>o'. Ok (o' = Less))"
| "compare x Le left right = bindr (json_order x left right) (\<lambda>o'. Ok (o' \<noteq> Greater))"
| "compare x Gt left right = bindr (json_order x left right) (\<lambda>o'. Ok (o' = Greater))"
| "compare x Ge left right = bindr (json_order x left right) (\<lambda>o'. Ok (o' \<noteq> Less))"

section \<open>Reference definitions\<close>

text \<open>The size and height of a value as a tree, and the bytes it serialises to.\<close>

fun nodes :: "'n json \<Rightarrow> nat" where
  "nodes (VArray vs) = Suc (sum_list (map nodes vs))"
| "nodes (VObject kvs) = Suc (sum_list (map (\<lambda>p. nodes (snd p)) kvs))"
| "nodes _ = 1"

fun height :: "'n json \<Rightarrow> nat" where
  "height (VArray vs) = fold max (map (\<lambda>v. Suc (height v)) vs) 0"
| "height (VObject kvs) = fold max (map (\<lambda>p. Suc (height (snd p))) kvs) 0"
| "height _ = 0"

definition serialized_len :: "('n, 'd) externals \<Rightarrow> 'n json \<Rightarrow> nat" where
  "serialized_len x v = sum_list (map length (to_writer x v))"

section \<open>Lemmas\<close>

subsection \<open>Size\<close>

interpretation capped_writer: allowance capped_write length "\<lambda>n. n" "\<lambda>_. True"
  by unfold_locales (auto simp: capped_write_def)

lemma check_size_eq_Ok:
  "check_size x v n = Ok m \<longleftrightarrow> serialized_len x v \<le> n \<and> m = n - serialized_len x v"
proof -
  have "charge_all capped_write (to_writer x v) n = Some m \<longleftrightarrow>
      serialized_len x v \<le> n \<and> m = n - serialized_len x v"
    using capped_writer.all_granted_iff [where cs = "to_writer x v" and s = n]
      capped_writer.all_granted_left [where cs = "to_writer x v" and s = n]
    unfolding serialized_len_def
    by (metis add_diff_cancel_right' option.inject)
  then show ?thesis by (simp add: check_size_def)
qed

lemma check_size_total:
  "check_size x v n =
     (if serialized_len x v \<le> n then Ok (n - serialized_len x v) else Err (Limit ''output bytes''))"
proof (cases "serialized_len x v \<le> n")
  case True
  then show ?thesis by (simp add: check_size_eq_Ok)
next
  case False
  then have "charge_all capped_write (to_writer x v) n = None"
    using capped_writer.all_granted_iff [where cs = "to_writer x v" and s = n]
    unfolding serialized_len_def by auto
  then show ?thesis using False by (simp add: check_size_def)
qed

subsection \<open>Nodes and depth\<close>

lemma nodes_pos: "0 < nodes v"
  by (cases v) simp_all

lemma fold_max_le: "fold max ns (a :: nat) \<le> d \<longleftrightarrow> a \<le> d \<and> (\<forall>n \<in> set ns. n \<le> d)"
  by (induction ns arbitrary: a) auto

lemma length_le_nodes: "length vs \<le> sum_list (map nodes vs)"
proof (induction vs)
  case (Cons v vs)
  then show ?case using nodes_pos [of v] by simp
qed simp

text \<open>What is pending on the stack: its nodes in total, and the depth each entry reaches.\<close>

definition pending_nodes :: "('n json \<times> nat) list \<Rightarrow> nat" where
  "pending_nodes stack = sum_list (map (\<lambda>p. nodes (fst p)) stack)"

definition within_depth :: "('n json \<times> nat) list \<Rightarrow> nat \<Rightarrow> bool" where
  "within_depth stack d \<longleftrightarrow> (\<forall>(v, k) \<in> set stack. k + height v \<le> d)"

lemma pending_simps [simp]:
  "pending_nodes [] = 0"
  "pending_nodes (p # stack) = nodes (fst p) + pending_nodes stack"
  "pending_nodes (xs @ ys) = pending_nodes xs + pending_nodes ys"
  "pending_nodes (rev xs) = pending_nodes xs"
  "within_depth [] d"
  "within_depth (p # stack) d \<longleftrightarrow> snd p + height (fst p) \<le> d \<and> within_depth stack d"
  "within_depth (xs @ ys) d \<longleftrightarrow> within_depth xs d \<and> within_depth ys d"
  "within_depth (rev xs) d \<longleftrightarrow> within_depth xs d"
  by (auto simp: pending_nodes_def within_depth_def rev_map [symmetric] sum_list_rev)

lemma pending_children:
  "pending_nodes (map (\<lambda>v. (v, k)) vs) = sum_list (map nodes vs)"
  "pending_nodes (map (\<lambda>p. (snd p, k)) kvs) = sum_list (map (\<lambda>p. nodes (snd p)) kvs)"
  by (simp_all add: pending_nodes_def comp_def)

lemma within_depth_children:
  "d \<ge> k \<Longrightarrow> within_depth (map (\<lambda>v. (v, Suc k)) vs) d \<longleftrightarrow> k + height (VArray vs) \<le> d"
  "d \<ge> k \<Longrightarrow> within_depth (map (\<lambda>p. (snd p, Suc k)) kvs) d \<longleftrightarrow> k + height (VObject kvs) \<le> d"
proof -
  have le: "k + n \<le> d \<longleftrightarrow> n \<le> d - k" if "d \<ge> k" for n using that by arith
  show "d \<ge> k \<Longrightarrow> within_depth (map (\<lambda>v. (v, Suc k)) vs) d \<longleftrightarrow> k + height (VArray vs) \<le> d"
    by (auto simp: le fold_max_le within_depth_def)
  show "d \<ge> k \<Longrightarrow> within_depth (map (\<lambda>p. (snd p, Suc k)) kvs) d \<longleftrightarrow> k + height (VObject kvs) \<le> d"
    by (force simp: le fold_max_le within_depth_def)
qed

lemma length_le_pending: "length stack \<le> pending_nodes stack"
  using length_le_nodes [of "map fst stack"] by (simp add: pending_nodes_def comp_def)

lemma capacity_refused: "ensure_pending_capacity p c r l = Err e \<Longrightarrow> r < p + c"
  by (auto simp: ensure_pending_capacity_def saturating_add_def split: if_splits)

lemma capacity_cases:
  "ensure_pending_capacity p c r l = Ok () \<or> ensure_pending_capacity p c r l = Err (Limit l)"
  by (auto simp: ensure_pending_capacity_def)

text \<open>
  The loop accepts exactly the stacks whose nodes fit the budget and whose entries stay
  within the depth; the early capacity refusal never turns away a stack that fits.
\<close>

lemma capacity_then:
  assumes "ensure_pending_capacity p c b l = Ok () \<Longrightarrow> m = Ok r \<longleftrightarrow> P"
    and "P \<Longrightarrow> p + c \<le> b"
  shows "ensure_pending_capacity p c b l = Ok () \<and> m = Ok r \<longleftrightarrow> P"
  using assms capacity_cases [of p c b l] capacity_refused [of p c b l]
  by (metis linorder_not_less)

lemma check_value_loop_eq_Ok:
  "check_value_loop stack budget d = Ok r \<longleftrightarrow>
     pending_nodes stack \<le> budget \<and> within_depth stack d \<and> r = budget - pending_nodes stack"
proof (induction stack budget d rule: check_value_loop.induct)
  case (2 v depth stack budget d)
  note ih = "2.IH"
  show ?case
  proof (cases "budget = 0 \<or> depth > d")
    case True
    then show ?thesis
      using nodes_pos [of v] by (auto split: option.splits)
  next
    case False
    then obtain b where b: "checked_sub budget 1 = Some b" and budget: "budget = Suc b"
      by (cases budget) auto
    have depth: "\<not> depth > d" using False by simp
    have pend: "length stack \<le> pending_nodes stack" by (rule length_le_pending)
    show ?thesis
    proof (cases v)
      case (VArray vs)
      have kids: "length vs \<le> sum_list (map nodes vs)" by (rule length_le_nodes)
      show ?thesis
        using ih(5) [OF b depth VArray] depth pend kids within_depth_children(1) [of depth d vs]
        by (simp add: VArray budget) (rule capacity_then, auto simp: pending_children)
    next
      case (VObject kvs)
      have kids: "length kvs \<le> sum_list (map (\<lambda>p. nodes (snd p)) kvs)"
        using length_le_nodes [of "map snd kvs"] by (simp add: comp_def)
      show ?thesis
        using ih(6) [OF b depth VObject] depth pend kids within_depth_children(2) [of depth d kvs]
        by (simp add: VObject budget) (rule capacity_then, auto simp: pending_children)
    qed (use ih b depth budget in \<open>auto\<close>)
  qed
qed auto

declare check_value_loop.simps(2) [simp del]

lemma check_value_eq_Ok:
  "check_value v budget d = Ok r \<longleftrightarrow> nodes v \<le> budget \<and> height v \<le> d \<and> r = budget - nodes v"
  by (simp add: check_value_def check_value_loop_eq_Ok)

lemma check_value_loop_cases:
  "(\<exists>r. check_value_loop stack b d = Ok r) \<or> (\<exists>l. check_value_loop stack b d = Err (Limit l))"
proof (induction stack b d rule: check_value_loop.induct)
  case (2 v depth stack budget d)
  show ?case
  proof (cases "budget = 0 \<or> depth > d")
    case True
    then show ?thesis
      by (auto simp: check_value_loop.simps(2) split: option.splits)
  next
    case False
    then obtain b where b: "checked_sub budget 1 = Some b" and budget: "budget = Suc b"
      by (cases budget) auto
    have depth: "\<not> depth > d" using False by simp
    note ih = "2.IH" [OF b depth]
    show ?thesis
      by (cases v)
        (use ih depth in \<open>simp_all add: budget check_value_loop.simps(2) ensure_pending_capacity_def\<close>)
  qed
qed simp

lemma check_value_cases:
  "(\<exists>r. check_value v b d = Ok r) \<or> (\<exists>l. check_value v b d = Err (Limit l))"
  by (simp add: check_value_def check_value_loop_cases)

lemma validate_context_value_eq_Ok:
  "validate_context_value x v limits = Ok () \<longleftrightarrow>
     nodes v \<le> min (work_nodes limits) MAX_WORK_NODES \<and> height v \<le> MAX_JSON_DEPTH \<and>
     serialized_len x v \<le> min (output_bytes limits) MAX_OUTPUT_BYTES"
  by (auto simp: validate_context_value_def check_value_eq_Ok check_size_eq_Ok)

lemma validate_context_value_cases:
  "validate_context_value x v limits = Ok () \<or>
   (\<exists>l. validate_context_value x v limits = Err (Limit l))"
  using check_value_cases [of v "min (work_nodes limits) MAX_WORK_NODES" MAX_JSON_DEPTH]
  by (auto simp: validate_context_value_def check_size_total)

subsection \<open>Comparison\<close>

lemma bt_same_keys:
  assumes "bt_ok a" "bt_ok b" "length a = length b" "fst ` set a \<subseteq> fst ` set b"
  shows "map fst a = map fst b"
proof -
  have da: "distinct (map fst a)" and db: "distinct (map fst b)"
    using assms by (auto simp: bt_ok_distinct)
  have "card (set (map fst a)) = card (set (map fst b))"
    using distinct_card [OF da] distinct_card [OF db] assms(3) by simp
  then have "set (map fst a) = set (map fst b)"
    using assms(4) by (intro card_subset_eq) auto
  then show ?thesis
    using assms(1,2) unfolding bt_ok_def strict_sorted_iff by (metis sorted_distinct_set_unique)
qed

lemma bt_pointwise:
  assumes "bt_ok a" "bt_ok b"
  shows "length a = length b \<and>
      (\<forall>p \<in> set a. case bt_get b (fst p) of None \<Rightarrow> False | Some y \<Rightarrow> f (snd p) = f y) \<longleftrightarrow>
    map (map_prod id f) a = map (map_prod id f) b" (is "?l \<longleftrightarrow> ?r")
proof
  assume l: ?l
  then have "fst ` set a \<subseteq> fst ` set b"
    by (force split: option.splits dest: bt_get_in_set)
  with l assms have keys: "map fst a = map fst b" by (intro bt_same_keys) auto
  show ?r
  proof (rule nth_equalityI)
    fix i assume "i < length (map (map_prod id f) a)"
    then have i: "i < length a" "i < length b" using l by auto
    have "fst (a ! i) = fst (b ! i)" using keys i by (metis nth_map)
    moreover have "bt_get b (fst (b ! i)) = Some (snd (b ! i))"
      using assms(2) i by (simp add: bt_get_iff)
    ultimately show "map (map_prod id f) a ! i = map (map_prod id f) b ! i"
      using l i nth_mem [OF i(1)] by (fastforce simp: prod_eq_iff)
  qed (use l in simp)
next
  assume r: ?r
  then have len: "length a = length b" by (metis length_map)
  have "\<exists>y. bt_get b (fst p) = Some y \<and> f (snd p) = f y" if mem: "p \<in> set a" for p
  proof -
    obtain i where i: "i < length a" "p = a ! i" using mem by (metis in_set_conv_nth)
    have "map_prod id f (a ! i) = map_prod id f (b ! i)" using r i len by (metis nth_map)
    then have "fst p = fst (b ! i)" "f (snd p) = f (snd (b ! i))" using i by (auto simp: prod_eq_iff)
    moreover have "bt_get b (fst (b ! i)) = Some (snd (b ! i))"
      using assms(2) i len by (simp add: bt_get_iff)
    ultimately show ?thesis by auto
  qed
  then show ?l using len by fastforce
qed

lemma json_equal_iff:
  "json_ok a \<Longrightarrow> json_ok b \<Longrightarrow>
    json_equal x a b \<longleftrightarrow> map_json (decimal x) a = map_json (decimal x) b"
proof (induction x a b rule: json_equal.induct)
  case (2 x a b)
  have "json_equal x (fst p) (snd p) \<longleftrightarrow> map_json (decimal x) (fst p) = map_json (decimal x) (snd p)"
    if "p \<in> set (zip a b)" for p
    using "2.IH" [OF that] "2.prems" that
    by (cases p) (auto simp: list_all_iff dest: set_zip_leftD set_zip_rightD)
  then show ?case
    by (auto simp: list_all_iff list_eq_iff_zip_eq zip_map_map)
next
  case (3 x a b)
  have eq: "json_equal x (snd p) y \<longleftrightarrow> map_json (decimal x) (snd p) = map_json (decimal x) y"
    if "p \<in> set a" "bt_get b (fst p) = Some y" for p y
    using 3 that by (fastforce simp: list_all_iff dest: bt_get_in_set)
  have "json_equal x (VObject a) (VObject b) \<longleftrightarrow> length a = length b \<and>
      (\<forall>p \<in> set a. case bt_get b (fst p) of None \<Rightarrow> False
        | Some y \<Rightarrow> map_json (decimal x) (snd p) = map_json (decimal x) y)"
    using eq by (auto simp: list_all_iff split: option.splits)
  also have "\<dots> \<longleftrightarrow> map (map_prod id (map_json (decimal x))) a = map (map_prod id (map_json (decimal x))) b"
    using 3 by (intro bt_pointwise) auto
  finally show ?case by (simp add: id_def)
qed auto

lemma cmp_simps:
  "cmp a b = Less \<longleftrightarrow> a < b" "cmp a b = Greater \<longleftrightarrow> b < a" "cmp a b = Equal \<longleftrightarrow> a = b"
  by (auto simp: cmp_def)

lemma compare_cases:
  "(\<exists>r. compare x c a b = Ok r) \<or> (\<exists>m. compare x c a b = Err (Operand m))"
  by (cases c) (auto simp: json_order_def split: json.splits)

section \<open>Properties\<close>

text \<open>
  The iterative value check is exact: \<open>check_value\<close> succeeds exactly when the value
  has at most \<open>budget\<close> nodes and is at most \<open>max_depth\<close> deep, and then debits exactly
  its node count. The early refusal by pending capacity, which lets the loop stop before
  its stack grows past the budget, rejects no value that fits.
\<close>

theorem check_value_exact:
  "check_value v budget max_depth = Ok r \<longleftrightarrow>
     nodes v \<le> budget \<and> height v \<le> max_depth \<and> r = budget - nodes v"
  by (rule check_value_eq_Ok)

text \<open>
  A stored value is accepted by \<open>validate_context_value\<close> exactly when it fits all
  three limits at once: at most the configured (and never more than 65536) nodes, at most
  64 levels, and at most the configured (never more than 1 MiB) serialised bytes; any
  other value is refused with a limit error, never with a panic or another error.
\<close>

theorem context_value_bounds_exact:
  "(validate_context_value x v limits = Ok () \<longleftrightarrow>
      nodes v \<le> min (work_nodes limits) 65536 \<and> height v \<le> 64 \<and>
      serialized_len x v \<le> min (output_bytes limits) 1048576)
   \<and> (validate_context_value x v limits = Ok () \<or>
      (\<exists>l. validate_context_value x v limits = Err (Limit l)))"
  using validate_context_value_eq_Ok [of x v limits] validate_context_value_cases [of x v limits]
  by (simp add: MAX_WORK_NODES_def MAX_JSON_DEPTH_def MAX_OUTPUT_BYTES_def)

text \<open>
  JSON equality of bindings is equality of the values with every number replaced by
  its exact decimal value: arrays agree element by element, objects agree key by key, and
  values of different kinds are never equal. In particular equality is reflexive,
  symmetric and transitive, and \<open>1\<close> equals \<open>1.0\<close>.
\<close>

theorem json_equality_is_decimal_equality:
  assumes "json_ok a" and "json_ok b"
  shows "json_equal x a b \<longleftrightarrow> map_json (decimal x) a = map_json (decimal x) b"
  using assms by (rule json_equal_iff)

theorem json_equality_is_decimal_equality_witness:
  "json_equal \<lparr>to_writer = (\<lambda>_. []), decimal = (\<lambda>n::int. n div 10),
       uuid_to_string = (\<lambda>_. []), to_rfc3339_micros = (\<lambda>_. [])\<rparr>
     (VObject [(''a'', VNumber 10), (''b'', VNull)]) (VObject [(''a'', VNumber 11), (''b'', VNull)])"
proof -
  have "json_ok (VObject [(''a'', VNumber (10::int)), (''b'', VNull)])"
    and "json_ok (VObject [(''a'', VNumber (11::int)), (''b'', VNull)])"
    by code_simp+
  then show ?thesis
    by (subst json_equality_is_decimal_equality) simp_all
qed

text \<open>
  The ordering comparisons agree with the order of the operands: on two numbers they
  compare exact decimal values, on two strings their bytes, and on any other pair every
  ordering comparison is the same operand error; \<open>le\<close> is the negation of \<open>gt\<close> and
  \<open>ge\<close> that of \<open>lt\<close>, and exactly one of \<open>lt\<close>, equality of keys and \<open>gt\<close> holds.
\<close>

theorem compare_is_a_total_order_on_like_operands:
  "compare x Lt (VNumber a) (VNumber b) = Ok (decimal x a < decimal x b)
   \<and> compare x Gt (VNumber a) (VNumber b) = Ok (decimal x b < decimal x a)
   \<and> compare x Lt (VString s) (VString t) = Ok (s < t)
   \<and> compare x Gt (VString s) (VString t) = Ok (t < s)
   \<and> compare x Le l r = bindr (compare x Gt l r) (\<lambda>g. Ok (\<not> g))
   \<and> compare x Ge l r = bindr (compare x Lt l r) (\<lambda>g. Ok (\<not> g))
   \<and> compare x Gt l r = compare x Lt r l
   \<and> (compare x Eq (VNumber a) (VNumber b) = Ok (decimal x a = decimal x b))
   \<and> (is_ok (compare x Lt l r) \<longleftrightarrow>
        (\<exists>a b. l = VNumber a \<and> r = VNumber b) \<or> (\<exists>s t. l = VString s \<and> r = VString t))"
proof -
  have swap: "compare x Gt l r = compare x Lt r l"
    by (cases l; cases r) (simp_all add: json_order_def cmp_simps)
  have le: "compare x Le l r = bindr (compare x Gt l r) (\<lambda>g. Ok (\<not> g))"
    and ge: "compare x Ge l r = bindr (compare x Lt l r) (\<lambda>g. Ok (\<not> g))"
    by (simp_all add: bindr_assoc)
  have dom: "is_ok (compare x Lt l r) \<longleftrightarrow>
      (\<exists>a b. l = VNumber a \<and> r = VNumber b) \<or> (\<exists>s t. l = VString s \<and> r = VString t)"
    by (cases l; cases r) (simp_all add: json_order_def)
  show ?thesis
    using swap le ge dom by (simp add: json_order_def cmp_simps)
qed

end
