(* ===== verification/Reference.thy ===== *)
theory Reference
  imports Json
begin

text \<open>
  Context references: JSON pointers into a run's input, parameters, committed step
  outputs and metadata (\<open>ContextReference\<close>, \<open>segments\<close>, \<open>lookup\<close>,
  \<open>canonical_array_index\<close>, \<open>reference\<close>, \<open>Context\<close> and \<open>RunMetadata\<close> of
  \<open>src/src/domain/workflow/context/mod.rs\<close>). Instants are integers (the order is
  all that matters here); printing them and UUIDs is the libraries' part.
\<close>

section \<open>Model\<close>

definition MAX_POINTER_BYTES :: nat where
  "MAX_POINTER_BYTES = 1024"

definition MAX_POINTER_SEGMENTS :: nat where
  "MAX_POINTER_SEGMENTS = 64"

datatype reference_root =
    Input
  | Params
  | StepOutput step_id
  | RunId
  | ParentRunId
  | RunDeadline

record context_reference =
  raw :: string
  root :: reference_root
  path :: "string list"

type_synonym instant = int

record run_metadata =
  meta_run_id :: run_id
  meta_parent_run_id :: "run_id option"
  meta_deadline :: "instant option"

record 'n run_context =
  input :: "'n json"
  params :: "'n json"
  step_outputs :: "(step_id, 'n json) btree_map"
  run :: run_metadata

fun decode_segment :: "string \<Rightarrow> string option" where
  "decode_segment [] = Some []"
| "decode_segment (c # cs) =
     (if c = CHR ''~'' then
        (case cs of
           [] \<Rightarrow> None
         | d # rest \<Rightarrow>
             if d = CHR ''0'' then map_option (Cons (CHR ''~'')) (decode_segment rest)
             else if d = CHR ''1'' then map_option (Cons (CHR ''/'')) (decode_segment rest)
             else None)
      else map_option (Cons c) (decode_segment cs))"

fun decode_all :: "string \<Rightarrow> string list \<Rightarrow> (string list, context_error) outcome" where
  "decode_all pointer [] = Ok []"
| "decode_all pointer (part # parts) =
     bindr (ok_or (decode_segment part) (InvalidReference pointer)) (\<lambda>decoded.
     bindr (decode_all pointer parts) (\<lambda>rest. Ok (decoded # rest)))"

definition segments :: "string \<Rightarrow> (string list, context_error) outcome" where
  "segments pointer =
     (if length pointer > MAX_POINTER_BYTES then Err (Limit ''pointer bytes'')
      else (case pointer of
          [] \<Rightarrow> Err (InvalidReference pointer)
        | c # rest \<Rightarrow>
            if c \<noteq> CHR ''/'' then Err (InvalidReference pointer)
            else let parts = split_on (CHR ''/'') rest in
              if length parts > MAX_POINTER_SEGMENTS then Err (Limit ''pointer segments'')
              else decode_all pointer parts))"

definition ContextReference_parse :: "string \<Rightarrow> (context_reference, context_error) outcome" where
  "ContextReference_parse pointer =
     bindr (segments pointer) (\<lambda>path.
     bindr (if path = [] then Err (InvalidReference pointer)
            else if path ! 0 = ''input'' then Ok Input
            else if path ! 0 = ''params'' then Ok Params
            else if path ! 0 = ''steps'' \<and> length path \<ge> 3 \<and> path ! 2 = ''output'' then
              bindr (map_err (\<lambda>_. InvalidReference pointer) (StepId_parse (path ! 1)))
                (\<lambda>sid. Ok (StepOutput sid))
            else if path ! 0 = ''run'' \<and> length path = 2 \<and> path ! 1 = ''id'' then Ok RunId
            else if path ! 0 = ''run'' \<and> length path = 2 \<and> path ! 1 = ''parent_id'' then Ok ParentRunId
            else if path ! 0 = ''run'' \<and> length path = 2 \<and> path ! 1 = ''deadline'' then Ok RunDeadline
            else Err (InvalidReference pointer)) (\<lambda>root.
     Ok \<lparr>raw = pointer, root = root, path = path\<rparr>))"

fun root_step_id :: "reference_root \<Rightarrow> step_id option" where
  "root_step_id (StepOutput sid) = Some sid"
| "root_step_id _ = None"

text \<open>A slice \<open>&path[n..]\<close> panics past the end.\<close>

definition slice_from :: "nat \<Rightarrow> 'a list \<Rightarrow> ('a list, 'e) outcome" where
  "slice_from n xs = (if n \<le> length xs then Ok (drop n xs) else Panic)"

definition reference_tail :: "context_reference \<Rightarrow> (string list, 'e) outcome" where
  "reference_tail r =
     (case root r of
        Input \<Rightarrow> slice_from 1 (path r)
      | Params \<Rightarrow> slice_from 1 (path r)
      | StepOutput _ \<Rightarrow> slice_from 3 (path r)
      | _ \<Rightarrow> Ok [])"

fun root_name :: "reference_root \<Rightarrow> string" where
  "root_name Input = ''input''"
| "root_name Params = ''params''"
| "root_name (StepOutput _) = ''steps''"
| "root_name RunId = ''run.id''"
| "root_name ParentRunId = ''run.parent_id''"
| "root_name RunDeadline = ''run.deadline''"

text \<open>\<open>str::parse::<usize>\<close> on a non-empty string of ASCII digits.\<close>

definition digits_value :: "string \<Rightarrow> nat" where
  "digits_value s = foldl (\<lambda>n c. 10 * n + (of_char c - 48)) 0 s"

definition parse_usize :: "string \<Rightarrow> nat option" where
  "parse_usize s = (if digits_value s \<le> usize_max then Some (digits_value s) else None)"

definition canonical_array_index :: "string \<Rightarrow> nat option" where
  "canonical_array_index segment =
     (if segment = [] \<or> (length segment > 1 \<and> hd segment = CHR ''0'')
         \<or> \<not> list_all is_ascii_digit segment
      then None
      else parse_usize segment)"

definition nth_opt :: "'a list \<Rightarrow> nat \<Rightarrow> 'a option" where
  "nth_opt xs i = (if i < length xs then Some (xs ! i) else None)"

fun lookup :: "'n json \<Rightarrow> string list \<Rightarrow> string \<Rightarrow> ('n json, context_error) outcome" where
  "lookup v [] pointer = Ok v"
| "lookup v (part # rest) pointer =
     bindr (case v of
         VObject kvs \<Rightarrow> ok_or (bt_get kvs part) (Missing pointer)
       | VArray items \<Rightarrow>
           bindr (ok_or (canonical_array_index part) (InvalidReference pointer)) (\<lambda>i.
           ok_or (nth_opt items i) (Missing pointer))
       | _ \<Rightarrow> Err (InvalidReference pointer)) (\<lambda>v'. lookup v' rest pointer)"

definition render_deadline :: "('n, 'd) externals \<Rightarrow> instant \<Rightarrow> string" where
  "render_deadline x deadline = to_rfc3339_micros x deadline"

definition reference ::
    "('n, 'd) externals \<Rightarrow> context_reference \<Rightarrow> 'n run_context \<Rightarrow> ('n json, context_error) outcome" where
  "reference x pointer ctx =
     (case root pointer of
        Input \<Rightarrow> bindr (slice_from 1 (path pointer)) (\<lambda>p. lookup (input ctx) p (raw pointer))
      | Params \<Rightarrow> bindr (slice_from 1 (path pointer)) (\<lambda>p. lookup (params ctx) p (raw pointer))
      | StepOutput sid \<Rightarrow>
          bindr (ok_or (bt_get (step_outputs ctx) sid) (Missing (raw pointer))) (\<lambda>output.
          bindr (slice_from 3 (path pointer)) (\<lambda>p. lookup output p (raw pointer)))
      | RunId \<Rightarrow> Ok (VString (uuid_to_string x (meta_run_id (run ctx))))
      | ParentRunId \<Rightarrow>
          Ok (case meta_parent_run_id (run ctx) of
                None \<Rightarrow> VNull | Some pid \<Rightarrow> VString (uuid_to_string x pid))
      | RunDeadline \<Rightarrow>
          bindr (ok_or (meta_deadline (run ctx)) (Missing (raw pointer))) (\<lambda>deadline.
          Ok (VString (render_deadline x deadline))))"

section \<open>Reference definitions\<close>

text \<open>The escaping that \<open>segments\<close> undoes, and decimal printing of an index.\<close>

fun escape_segment :: "string \<Rightarrow> string" where
  "escape_segment [] = []"
| "escape_segment (c # cs) =
     (if c = CHR ''~'' then CHR ''~'' # CHR ''0'' # escape_segment cs
      else if c = CHR ''/'' then CHR ''~'' # CHR ''1'' # escape_segment cs
      else c # escape_segment cs)"

definition render_pointer :: "string list \<Rightarrow> string" where
  "render_pointer ps = concat (map (\<lambda>p. CHR ''/'' # escape_segment p) ps)"

fun show_nat :: "nat \<Rightarrow> string" where
  "show_nat n = (if n < 10 then [char_of (48 + n)] else show_nat (n div 10) @ [char_of (48 + n mod 10)])"

declare show_nat.simps [simp del]

definition parsed :: "context_reference \<Rightarrow> bool" where
  "parsed r \<longleftrightarrow> ContextReference_parse (raw r) = Ok r"

section \<open>Lemmas\<close>

subsection \<open>Pointers\<close>

lemma escape_no_slash: "CHR ''/'' \<notin> set (escape_segment s)"
  by (induction s) auto

lemma decode_escape: "decode_segment (escape_segment s) = Some s"
  by (induction s) auto

lemma escape_decode: "decode_segment s = Some t \<Longrightarrow> CHR ''/'' \<notin> set s \<Longrightarrow> escape_segment t = s"
proof (induction s arbitrary: t rule: length_induct)
  case (1 s)
  note ih = "1.IH" [rule_format]
  show ?case
  proof (cases s)
    case Nil
    then show ?thesis using "1.prems" by simp
  next
    case (Cons c cs)
    show ?thesis
    proof (cases "c = CHR ''~''")
      case False
      then obtain t' where t': "decode_segment cs = Some t'" "t = c # t'"
        using "1.prems" Cons by auto
      have "escape_segment t' = cs" using ih [OF _ t'(1)] "1.prems" Cons by simp
      then show ?thesis using t' Cons False "1.prems" by auto
    next
      case True
      then obtain d rest t' where d: "cs = d # rest" "decode_segment rest = Some t'"
        "d = CHR ''0'' \<and> t = CHR ''~'' # t' \<or> d = CHR ''1'' \<and> t = CHR ''/'' # t'"
        using "1.prems"(1) Cons by (cases cs) (auto split: if_splits)
      have "escape_segment t' = rest" using ih [OF _ d(2)] "1.prems" Cons d(1) by simp
      then show ?thesis using d Cons True by auto
    qed
  qed
qed

lemma decode_all_eq_Ok: "decode_all p parts = Ok ps \<longleftrightarrow> map decode_segment parts = map Some ps"
proof (induction parts arbitrary: ps)
  case (Cons part parts)
  then show ?case by (cases ps) auto
qed auto

lemma join_with_slashes: "ps \<noteq> [] \<Longrightarrow> concat (map (Cons c) ps) = c # join_with c ps"
  by (induction c ps rule: join_with.induct) auto

lemma map_decode_iff:
  assumes "\<forall>s \<in> set parts. CHR ''/'' \<notin> set s"
  shows "map decode_segment parts = map Some ps \<longleftrightarrow> parts = map escape_segment ps"
  using assms
proof (induction parts arbitrary: ps)
  case (Cons s parts)
  then show ?case
    by (cases ps) (auto simp: decode_escape escape_decode)
qed auto

lemma render_pointer_join:
  "ps \<noteq> [] \<Longrightarrow> render_pointer ps = CHR ''/'' # join_with (CHR ''/'') (map escape_segment ps)"
  using join_with_slashes [of "map escape_segment ps" "CHR ''/''"]
  by (simp add: render_pointer_def comp_def)

lemma segments_eq_Ok:
  "segments p = Ok ps \<longleftrightarrow>
     ps \<noteq> [] \<and> p = render_pointer ps \<and> length p \<le> MAX_POINTER_BYTES \<and> length ps \<le> MAX_POINTER_SEGMENTS"
proof
  assume ok: "segments p = Ok ps"
  then obtain rest where p: "p = CHR ''/'' # rest" and len: "length p \<le> MAX_POINTER_BYTES"
    and n: "length (split_on (CHR ''/'') rest) \<le> MAX_POINTER_SEGMENTS"
    and dec: "map decode_segment (split_on (CHR ''/'') rest) = map Some ps"
    by (auto simp: segments_def Let_def decode_all_eq_Ok split: if_splits list.splits)
  then have parts: "split_on (CHR ''/'') rest = map escape_segment ps"
    using map_decode_iff split_on_parts by blast
  then have "ps \<noteq> []" using split_on_not_Nil by (metis list.simps(8))
  moreover have "join_with (CHR ''/'') (map escape_segment ps) = rest"
    using join_split_on parts by metis
  moreover have "length ps = length (split_on (CHR ''/'') rest)"
    using parts by simp
  ultimately show "ps \<noteq> [] \<and> p = render_pointer ps \<and> length p \<le> MAX_POINTER_BYTES
      \<and> length ps \<le> MAX_POINTER_SEGMENTS"
    using p len n by (simp add: render_pointer_join)
next
  assume r: "ps \<noteq> [] \<and> p = render_pointer ps \<and> length p \<le> MAX_POINTER_BYTES
      \<and> length ps \<le> MAX_POINTER_SEGMENTS"
  have "split_on (CHR ''/'') (join_with (CHR ''/'') (map escape_segment ps)) = map escape_segment ps"
    using r by (intro split_join) (auto simp: escape_no_slash)
  then show "segments p = Ok ps"
    using r by (subst segments_def)
      (auto simp: render_pointer_join Let_def decode_all_eq_Ok decode_escape)
qed

subsection \<open>Array indices\<close>

lemma digits_value_snoc: "digits_value (s @ [c]) = 10 * digits_value s + (of_char c - 48)"
  by (simp add: digits_value_def)

lemma digit_char: "n < 10 \<Longrightarrow> of_char (char_of (48 + n) :: char) = 48 + (n :: nat)"
  by simp

lemma show_nat_digits:
  "list_all is_ascii_digit (show_nat n) \<and> show_nat n \<noteq> [] \<and> digits_value (show_nat n) = n
   \<and> (hd (show_nat n) = CHR ''0'' \<longleftrightarrow> n = 0) \<and> (length (show_nat n) > 1 \<longleftrightarrow> 10 \<le> n)"
proof (induction n rule: show_nat.induct)
  case (1 n)
  show ?case
  proof (cases "n < 10")
    case True
    have "(char_of (48 + n) :: char) = CHR ''0'' \<longleftrightarrow> n = 0"
    proof -
      have "(char_of (48 + n) :: char) = CHR ''0'' \<longleftrightarrow>
          (of_char (char_of (48 + n) :: char) :: nat) = of_char (CHR ''0'')"
        by (simp only: of_char_eq_iff)
      then show ?thesis by (simp only: digit_char [OF True]) simp
    qed
    then show ?thesis
      using True by (simp add: show_nat.simps [of n] is_ascii_digit_def digits_value_def)
  next
    case False
    then have "show_nat n = show_nat (n div 10) @ [char_of (48 + n mod 10)]"
      by (simp add: show_nat.simps [of n])
    moreover have "n div 10 \<noteq> 0" using False by auto
    ultimately show ?thesis
      using "1" [OF False] False by (auto simp: digits_value_snoc is_ascii_digit_def)
  qed
qed

lemma show_nat_digits_value:
  assumes "list_all is_ascii_digit s" and "s \<noteq> []" and "length s > 1 \<Longrightarrow> hd s \<noteq> CHR ''0''"
  shows "show_nat (digits_value s) = s"
  using assms
proof (induction s rule: rev_induct)
  case (snoc c s)
  have c: "48 \<le> (of_char c :: nat)" "of_char c \<le> (57 :: nat)"
    using snoc.prems(1) by (auto simp: is_ascii_digit_def)
  define k where "k = of_char c - (48 :: nat)"
  have k: "k < 10" "char_of (48 + k) = c" using c by (auto simp: k_def)
  show ?case
  proof (cases "s = []")
    case True
    then show ?thesis using k by (simp add: digits_value_def show_nat.simps flip: k_def)
  next
    case False
    have s: "show_nat (digits_value s) = s"
      using snoc.prems False by (intro snoc.IH) auto
    have "hd s \<noteq> CHR ''0''" using snoc.prems(3) False by (simp add: hd_append)
    then have "digits_value s \<noteq> 0"
      using s show_nat_digits [of "digits_value s"] by auto
    then show ?thesis
      using k s by (simp add: digits_value_snoc show_nat.simps [of "10 * _ + _"] flip: k_def)
  qed
qed simp

lemma canonical_array_index_eq_Some:
  "canonical_array_index s = Some n \<longleftrightarrow> s = show_nat n \<and> n \<le> usize_max"
proof
  assume "canonical_array_index s = Some n"
  then show "s = show_nat n \<and> n \<le> usize_max"
    using show_nat_digits_value [of s]
    by (auto simp: canonical_array_index_def parse_usize_def split: if_splits)
next
  assume "s = show_nat n \<and> n \<le> usize_max"
  then show "canonical_array_index s = Some n"
    using show_nat_digits [of n] by (auto simp: canonical_array_index_def parse_usize_def)
qed

subsection \<open>References\<close>

lemma slice_from_eq_Ok [simp]: "slice_from n xs = Ok ys \<longleftrightarrow> n \<le> length xs \<and> ys = drop n xs"
  by (auto simp: slice_from_def)

lemma slice_from_not_Err [simp]: "slice_from n xs \<noteq> Err e"
  by (simp add: slice_from_def)

lemma slice_from_eq_Panic [simp]: "slice_from n xs = Panic \<longleftrightarrow> length xs < n"
  by (auto simp: slice_from_def)

lemma parsed_shape:
  assumes "ContextReference_parse p = Ok r"
  shows "raw r = p" and "path r \<noteq> []" and "segments p = Ok (path r)"
    and "\<And>sid. root r = StepOutput sid \<Longrightarrow>
        valid_part sid \<and> (\<exists>rest. path r = [''steps'', sid, ''output''] @ rest)"
proof -
  show "raw r = p" and seg: "segments p = Ok (path r)"
    using assms by (auto simp: ContextReference_parse_def)
  show "path r \<noteq> []" using seg by (simp add: segments_eq_Ok)
  fix sid assume "root r = StepOutput sid"
  then have "path r ! 0 = ''steps''" "3 \<le> length (path r)" "path r ! 2 = ''output''"
    "path r ! 1 = sid" "valid_part sid"
    using assms
    by (auto simp: ContextReference_parse_def StepId_parse_def parse_name_undotted split: if_splits)
  moreover from this obtain a b c rest where "path r = a # b # c # rest"
    by (metis One_nat_def Suc_le_length_iff numeral_3_eq_3)
  ultimately show "valid_part sid \<and> (\<exists>rest. path r = [''steps'', sid, ''output''] @ rest)"
    by auto
qed

lemma parse_step_output:
  assumes "valid_part sid" and "length (render_pointer ([''steps'', sid, ''output''] @ rest)) \<le> 1024"
    and "length rest \<le> 61"
  shows "ContextReference_parse (render_pointer ([''steps'', sid, ''output''] @ rest)) =
    Ok \<lparr>raw = render_pointer ([''steps'', sid, ''output''] @ rest), root = StepOutput sid,
        path = [''steps'', sid, ''output''] @ rest\<rparr>"
proof -
  have "segments (render_pointer ([''steps'', sid, ''output''] @ rest)) =
      Ok ([''steps'', sid, ''output''] @ rest)"
    unfolding segments_eq_Ok using assms
    by (simp add: MAX_POINTER_BYTES_def MAX_POINTER_SEGMENTS_def)
  moreover have "StepId_parse sid = Ok sid"
    using assms(1) by (simp add: StepId_parse_def parse_name_undotted)
  ultimately show ?thesis
    by (simp add: ContextReference_parse_def)
qed

lemma lookup_no_panic: "lookup v p s \<noteq> Panic"
  by (induction v p s rule: lookup.induct) (auto simp: bindr_eq_Panic split: json.splits)

lemma lookup_error_names_pointer:
  "lookup v p s = Err e \<Longrightarrow> e = Missing s \<or> e = InvalidReference s"
proof (induction v p s rule: lookup.induct)
  case (2 v part rest s)
  then show ?case
    by (auto simp: bindr_eq_Err split: json.splits)
qed simp

lemma lookup_append:
  "lookup v (p @ q) s = bindr (lookup v p s) (\<lambda>w. lookup w q s)"
  by (induction p arbitrary: v) (simp_all add: bindr_assoc)

lemma reference_no_panic: "parsed r \<Longrightarrow> reference x r ctx \<noteq> Panic"
  using parsed_shape [of "raw r" r] lookup_no_panic
  by (fastforce simp: parsed_def reference_def bindr_eq_Panic Suc_le_eq split: reference_root.splits)

lemma reference_error:
  "reference x r ctx = Err e \<Longrightarrow> e = Missing (raw r) \<or> e = InvalidReference (raw r)"
  by (auto simp: reference_def bindr_eq_Err dest: lookup_error_names_pointer split: reference_root.splits)

lemma reference_not_limit: "reference x r ctx \<noteq> Err (Limit l)"
  using reference_error by blast

lemma reference_tail_ok: "parsed r \<Longrightarrow> \<exists>t. reference_tail r = Ok t"
  using parsed_shape [of "raw r" r]
  by (fastforce simp: parsed_def reference_tail_def Suc_le_eq split: reference_root.splits)

section \<open>Properties\<close>

text \<open>
  Pointer syntax round trips: \<open>segments\<close> accepts exactly the pointers that are the
  escaped rendering of a non-empty path of at most 64 segments in at most 1024 bytes, and
  returns that path. So every path has one spelling, and \<open>~\<close> and \<open>/\<close> inside a
  segment survive.
\<close>

theorem pointer_round_trip:
  "segments p = Ok ps \<longleftrightarrow>
     ps \<noteq> [] \<and> p = render_pointer ps \<and> length p \<le> 1024 \<and> length ps \<le> 64"
  by (simp add: segments_eq_Ok MAX_POINTER_BYTES_def MAX_POINTER_SEGMENTS_def)

text \<open>
  An array index has one spelling: \<open>canonical_array_index\<close> reads exactly the decimal
  numerals without leading zeros (and without sign) of the numbers a \<open>usize\<close> holds.
\<close>

theorem array_index_round_trip:
  "canonical_array_index s = Some n \<longleftrightarrow> s = show_nat n \<and> n < 2 ^ 64"
  by (simp add: canonical_array_index_eq_Some usize_max_def) linarith

text \<open>
  A parsed reference reads safely in every context: resolving it never slices past
  its path or panics otherwise, its only errors are \<open>Missing\<close> and
  \<open>InvalidReference\<close>, both naming the pointer as written, and a reference to a step's
  output names a checked step identifier, found in the second segment of the path.
\<close>

theorem parsed_reference_is_safe:
  assumes "ContextReference_parse p = Ok r"
  shows "reference x r ctx \<noteq> Panic
    \<and> (\<forall>e. reference x r ctx = Err e \<longrightarrow> e = Missing p \<or> e = InvalidReference p)
    \<and> (\<exists>t. reference_tail r = (Ok t :: (string list, context_error) outcome))
    \<and> (\<forall>sid. root r = StepOutput sid \<longrightarrow> StepId_parse sid = Ok sid \<and> path r ! 1 = sid)"
proof -
  have parsed: "parsed r" and raw: "raw r = p"
    using assms parsed_shape(1) [OF assms] by (simp_all add: parsed_def)
  have "StepId_parse sid = Ok sid \<and> path r ! 1 = sid" if "root r = StepOutput sid" for sid
    using parsed_shape(4) [OF assms that] by (auto simp: StepId_parse_def parse_name_undotted)
  then show ?thesis
    using reference_no_panic [OF parsed] reference_tail_ok [OF parsed] reference_error raw by metis
qed

theorem parsed_reference_is_safe_witness:
  "\<exists>r. ContextReference_parse ''/steps/fetch/output/items/0'' = Ok r
     \<and> root r = StepOutput ''fetch'' \<and> path r ! 1 = ''fetch''
     \<and> reference \<lparr>to_writer = (\<lambda>_. []), decimal = (\<lambda>n::int. n), uuid_to_string = (\<lambda>_. []),
           to_rfc3339_micros = (\<lambda>_. [])\<rparr> r
         \<lparr>input = VNull, params = VNull, step_outputs = [], run = \<lparr>meta_run_id = 0,
           meta_parent_run_id = None, meta_deadline = None\<rparr>\<rparr> \<noteq> Panic"
proof -
  define r where "r = \<lparr>raw = ''/steps/fetch/output/items/0'', root = StepOutput ''fetch'',
      path = [''steps'', ''fetch'', ''output'', ''items'', ''0'']\<rparr>"
  have "ContextReference_parse ''/steps/fetch/output/items/0'' = Ok r"
    unfolding r_def by code_simp
  moreover have "root r = StepOutput ''fetch''" by (simp add: r_def)
  ultimately show ?thesis
    using parsed_reference_is_safe by blast
qed

text \<open>
  Every step of a workflow can be referred to: for a valid step identifier and any
  path into its output that fits the pointer limits, the rendered pointer
  \<open>/steps/<id>/output/...\<close> parses to a reference to that step with exactly that tail.
\<close>

theorem step_output_reference_parses:
  assumes "StepId_parse sid = Ok sid"
    and "length (render_pointer ([''steps'', sid, ''output''] @ rest)) \<le> 1024" and "length rest \<le> 61"
  shows "\<exists>r. ContextReference_parse (render_pointer ([''steps'', sid, ''output''] @ rest)) = Ok r
      \<and> root r = StepOutput sid \<and> reference_tail r = (Ok rest :: (string list, context_error) outcome)"
proof -
  have "valid_part sid" using assms(1) by (simp add: StepId_parse_def parse_name_undotted)
  then show ?thesis
    using parse_step_output [of sid rest] assms(2,3)
    by (auto simp: reference_tail_def slice_from_def)
qed

theorem step_output_reference_parses_witness:
  "\<exists>r. ContextReference_parse ''/steps/a/output/x~1y'' = Ok r \<and> root r = StepOutput ''a''
     \<and> reference_tail r = (Ok [''x/y''] :: (string list, context_error) outcome)"
proof -
  have "StepId_parse ''a'' = Ok ''a''" by code_simp
  moreover have "render_pointer ([''steps'', ''a'', ''output''] @ [''x/y'']) = ''/steps/a/output/x~1y''"
    by code_simp
  ultimately show ?thesis
    using step_output_reference_parses [of "''a''" "[''x/y'']"] by simp
qed

end
