(* ===== verification/Binding_Facts.thy ===== *)
theory Binding_Facts
  imports Bindings
begin

text \<open>
  What holds of the binding evaluator of \<open>Bindings\<close>: it computes the reference
  semantics or stops at a limit, it reads only the references a binding mentions, its
  results fit the limits, and the preflight bounds the recursion.
\<close>

section \<open>The evaluator computes the reference semantics\<close>

definition computes ::
    "('a \<times> nat \<times> nat, context_error) outcome \<Rightarrow> ('a, context_error) outcome \<Rightarrow> bool" where
  "computes m d \<longleftrightarrow>
     (case m of
        Ok r \<Rightarrow> d = Ok (fst r)
      | Err e \<Rightarrow> (\<exists>l. e = Limit l) \<or> d = Err e
      | Panic \<Rightarrow> d = Panic)"

named_theorems computes_intros "introduction rules for computations that refine a denotation"

lemma computes_simps [simp]:
  "computes (Ok r) d \<longleftrightarrow> d = Ok (fst r)"
  "computes (Err e) d \<longleftrightarrow> (\<exists>l. e = Limit l) \<or> d = Err e"
  "computes Panic d \<longleftrightarrow> d = Panic"
  by (simp_all add: computes_def)

lemma computes_bind [computes_intros]:
  "computes m d \<Longrightarrow> (\<And>v b y. d = Ok v \<Longrightarrow> computes (f (v, b, y)) (g v))
    \<Longrightarrow> computes (bindr m f) (bindr d g)"
  by (cases m) (auto split: prod.splits)

lemma computes_same_bind [computes_intros]:
  "(\<And>v. m = Ok v \<Longrightarrow> computes (f v) (g v)) \<Longrightarrow> computes (bindr m f) (bindr m g)"
  by (cases m) auto

lemma computes_at_depth [computes_intros]: "computes m d \<Longrightarrow> computes (at_depth depth m) d"
  by (simp add: at_depth_def)

lemma computes_charge [computes_intros]: "computes (charge_value x v bu by' depth) (Ok v)"
  using check_value_cases [of v bu "MAX_JSON_DEPTH - depth"]
  by (auto simp: charge_value_def check_size_total)

lemma computes_map:
  "computes m d \<Longrightarrow> computes (bindr m (\<lambda>(v, b, y). Ok (h v, b, y))) (bindr d (\<lambda>v. Ok (h v)))"
  by (cases m) auto

lemma eval_fields_computes:
  "(\<And>p bu by'. p \<in> set fs \<Longrightarrow> computes (ev (snd p) bu by') (f (snd p)))
    \<Longrightarrow> computes (eval_fields ev fs out bu by') (denote_fields f fs out)"
proof (induction fs arbitrary: out bu by')
  case (Cons p fs)
  have "computes (ev (snd p) bu by') (f (snd p))"
    by (rule Cons.prems) simp
  moreover have "computes (eval_fields ev fs out' bu' by'') (denote_fields f fs out')" for out' bu' by''
    by (rule Cons.IH) (rule Cons.prems, simp)
  ultimately show ?case
    by (simp add: computes_bind)
qed simp

lemma eval_items_computes:
  "(\<And>i bu by'. i \<in> set is \<Longrightarrow> computes (ev i bu by') (f i))
    \<Longrightarrow> computes (eval_items ev is bu by') (denote_items f is)"
  by (induction "is" arbitrary: bu by') (auto intro!: computes_intros)

lemma eval_concat_computes:
  "(\<And>i bu by'. i \<in> set is \<Longrightarrow> computes (ev i bu by') (f i))
    \<Longrightarrow> computes (eval_concat x ev is s bu by') (denote_concat f is s)"
  by (induction "is" arbitrary: s bu by')
    (auto simp: check_size_total intro!: computes_intros split: json.splits)

lemma eval_boolean_computes:
  "(\<And>i bu by'. i \<in> set is \<Longrightarrow> computes (ev i bu by') (f i))
    \<Longrightarrow> computes (eval_boolean ev is c bu by') (denote_boolean f is c)"
  by (induction "is" arbitrary: bu by') (auto intro!: computes_intros split: json.splits)

lemma evaluate_computes: "computes (evaluate x ctx depth b bu by') (denote x ctx b)"
proof (induction x ctx b arbitrary: depth bu by' rule: denote.induct)
  case (2 x ctx r)
  show ?case
    by (cases "reference x r ctx") (auto intro!: computes_intros)
next
  case (3 x ctx r fallback)
  show ?case
  proof (cases "reference x r ctx")
    case (Err e)
    then show ?thesis
      using "3.IH" [OF Err] by (cases e) (auto intro!: computes_intros)
  qed (auto intro!: computes_intros)
next
  case (4 x ctx fs)
  then show ?case
    by (auto intro!: computes_at_depth computes_map eval_fields_computes)
next
  case (5 x ctx items)
  then show ?case
    by (auto intro!: computes_at_depth computes_map eval_items_computes)
next
  case (6 x ctx r)
  show ?case
    by (auto intro!: computes_intros split: outcome.splits context_error.splits)
next
  case (8 x ctx op l r)
  then show ?case
    by (auto simp: eval_compare_def intro!: computes_intros)
next
  case (9 x ctx v items)
  then show ?case
    by (auto simp: eval_membership_def list_ex_iff intro!: computes_intros split: json.splits)
next
  case (12 x ctx item)
  then show ?case
    by (auto simp: eval_not_def intro!: computes_intros split: json.splits)
qed (auto intro!: computes_intros eval_concat_computes eval_boolean_computes)

lemma evaluate_Ok_denote: "evaluate x ctx depth b bu by' = Ok (v, bu', by'') \<Longrightarrow> denote x ctx b = Ok v"
  using evaluate_computes [of x ctx depth b bu by'] by simp

section \<open>The evaluator reads only the references of a binding\<close>

lemma evaluate_reads_references:
  "(\<And>r. r \<in> set (references b) \<Longrightarrow> reference x r ctx = reference x r ctx')
    \<Longrightarrow> evaluate x ctx depth b bu by' = evaluate x ctx' depth b bu by'"
proof (induction b arbitrary: depth bu by' rule: references.induct)
  case (5 fs)
  have "evaluate x ctx (depth + 1) (snd p) = evaluate x ctx' (depth + 1) (snd p)" if p: "p \<in> set fs" for p
  proof (intro ext)
    have "reference x r ctx = reference x r ctx'" if "r \<in> set (references (snd p))" for r
      using that p by (intro "5.prems") force
    then show "evaluate x ctx (depth + 1) (snd p) bu by' = evaluate x ctx' (depth + 1) (snd p) bu by'" for bu by'
      by (intro "5.IH" [OF p])
  qed
  then have "eval_fields (evaluate x ctx (depth + 1)) fs [] bu by' =
      eval_fields (evaluate x ctx' (depth + 1)) fs [] bu by'"
    by (intro eval_fields_cong) auto
  then show ?case by simp
next
  case (6 items)
  have "evaluate x ctx (depth + 1) i = evaluate x ctx' (depth + 1) i" if "i \<in> set items" for i
    by (intro ext "6.IH" [OF that] "6.prems") (use that in auto)
  then have "eval_items (evaluate x ctx (depth + 1)) items bu by' =
      eval_items (evaluate x ctx' (depth + 1)) items bu by'"
    by (intro eval_items_cong) auto
  then show ?case by simp
next
  case (7 items)
  have "evaluate x ctx (depth + 1) i = evaluate x ctx' (depth + 1) i" if "i \<in> set items" for i
    by (intro ext "7.IH" [OF that] "7.prems") (use that in auto)
  then have "eval_concat x (evaluate x ctx (depth + 1)) items [] bu by' =
      eval_concat x (evaluate x ctx' (depth + 1)) items [] bu by'"
    by (intro eval_concat_cong) auto
  then show ?case by simp
next
  case (8 items)
  have "evaluate x ctx (depth + 1) i = evaluate x ctx' (depth + 1) i" if "i \<in> set items" for i
    by (intro ext "8.IH" [OF that] "8.prems") (use that in auto)
  then have "eval_boolean (evaluate x ctx (depth + 1)) items True bu by' =
      eval_boolean (evaluate x ctx' (depth + 1)) items True bu by'"
    by (intro eval_boolean_cong) auto
  then show ?case by simp
next
  case (9 items)
  have "evaluate x ctx (depth + 1) i = evaluate x ctx' (depth + 1) i" if "i \<in> set items" for i
    by (intro ext "9.IH" [OF that] "9.prems") (use that in auto)
  then have "eval_boolean (evaluate x ctx (depth + 1)) items False bu by' =
      eval_boolean (evaluate x ctx' (depth + 1)) items False bu by'"
    by (intro eval_boolean_cong) auto
  then show ?case by simp
next
  case (4 r fallback)
  then show ?case
    by (simp split: outcome.splits context_error.splits)
next
  case (10 op l r)
  then show ?case by (simp add: eval_compare_def)
next
  case (11 v items)
  then show ?case by (simp add: eval_membership_def)
next
  case (12 inner)
  then show ?case by (simp add: eval_not_def)
qed simp_all

section \<open>The preflight bounds a binding\<close>

fun children :: "'n binding \<Rightarrow> 'n binding list" where
  "children (Object fs) = map snd fs"
| "children (Array items) = items"
| "children (Concat items) = items"
| "children (And items) = items"
| "children (Or items) = items"
| "children (Default _ fallback) = [fallback]"
| "children (Compare _ l r) = [l, r]"
| "children (In v items) = [v, items]"
| "children (Not inner) = [inner]"
| "children _ = []"

lemma size_child [termination_simp]: "c \<in> set (children b) \<Longrightarrow> size c < size b"
proof (cases b)
  case (Object fs)
  assume "c \<in> set (children b)"
  then obtain k where kc: "(k, c) \<in> set fs" using Object by auto
  then have "size c \<le> size_list (size_prod (\<lambda>_. 0) size) fs"
    using size_list_estimation' [OF kc, of "size c" "size_prod (\<lambda>_. 0) size"] by simp
  then show ?thesis using Object by simp
qed (auto simp: less_Suc_eq_le size_list_estimation')

fun bnodes :: "'n binding \<Rightarrow> nat" where
  "bnodes b = (case b of Literal v \<Rightarrow> nodes v | _ \<Rightarrow> Suc (sum_list (map bnodes (children b))))"

fun bheight :: "'n binding \<Rightarrow> nat" where
  "bheight b =
     (case b of Literal v \<Rightarrow> height v | _ \<Rightarrow> fold max (map (\<lambda>c. Suc (bheight c)) (children b)) 0)"

declare bnodes.simps [simp del] bheight.simps [simp del]

definition is_literal :: "'n binding \<Rightarrow> bool" where
  "is_literal b \<longleftrightarrow> (case b of Literal _ \<Rightarrow> True | _ \<Rightarrow> False)"

lemma bnodes_simps:
  "bnodes (Literal v) = nodes v"
  "\<not> is_literal b \<Longrightarrow> bnodes b = Suc (sum_list (map bnodes (children b)))"
  by (cases b; simp add: bnodes.simps is_literal_def)+

lemma bheight_simps:
  "bheight (Literal v) = height v"
  "\<not> is_literal b \<Longrightarrow> bheight b \<le> d \<longleftrightarrow> (\<forall>c \<in> set (children b). Suc (bheight c) \<le> d)"
  by (simp add: bheight.simps) (subst bheight.simps, cases b; auto simp: fold_max_le is_literal_def)

lemma check_literal_bounds:
  assumes "check_literal x v bu kb depth = Ok bu'"
  shows "bu' + nodes v \<le> Suc bu" and "height v \<le> MAX_JSON_DEPTH - depth"
  using assms by (auto simp: check_literal_def check_value_eq_Ok saturating_add_def)

text \<open>One turn of the loop charges a literal as a whole, or charges a node and pushes its children.\<close>

lemma check_binding_loop_step:
  assumes "check_binding_loop x ((b, depth) # stack) bu kb = Ok r"
  obtains (literal) v bu' where "b = Literal v" "depth \<le> MAX_BINDING_DEPTH"
      "bu' + nodes v \<le> bu" "bu' < bu" "depth + height v \<le> MAX_BINDING_DEPTH"
      "check_binding_loop x stack bu' kb = Ok r"
  | (node) bu' kb' where "\<not> is_literal b" "depth \<le> MAX_BINDING_DEPTH" "bu = Suc bu'"
      "check_binding_loop x (push_all (children b) (depth + 1) stack) bu' kb' = Ok r"
proof -
  obtain bu' where bu: "bu = Suc bu'" and depth: "depth \<le> MAX_BINDING_DEPTH"
    using assms by (cases bu) (auto split: if_splits)
  show thesis
  proof (cases b)
    case (Literal v)
    then obtain bu'' where c: "check_literal x v bu' kb depth = Ok bu''"
      and rest: "check_binding_loop x stack bu'' kb = Ok r"
      using assms bu depth by auto
    have "depth + height v \<le> MAX_BINDING_DEPTH"
      using check_literal_bounds(2) [OF c] depth by (simp add: MAX_JSON_DEPTH_def MAX_BINDING_DEPTH_def)
    then show thesis
      using literal [OF Literal depth _ _ _ rest] check_literal_bounds(1) [OF c]
        check_literal_decreases [OF c] bu by auto
  qed (use assms bu depth node in \<open>auto simp: is_literal_def push_all_def\<close>)
qed

lemma check_binding_loop_bounds:
  "check_binding_loop x stack bu kb = Ok (bu', kb')
    \<Longrightarrow> sum_list (map (\<lambda>p. bnodes (fst p)) stack) + bu' \<le> bu
      \<and> (\<forall>p \<in> set stack. snd p + bheight (fst p) \<le> MAX_BINDING_DEPTH)"
proof (induction bu arbitrary: stack kb rule: less_induct)
  case (less bu)
  show ?case
  proof (cases stack)
    case Nil
    then show ?thesis using less.prems by simp
  next
    case (Cons p rest)
    obtain b depth where p: "p = (b, depth)" by (cases p)
    from less.prems [unfolded Cons p] show ?thesis
    proof (cases rule: check_binding_loop_step)
      case (literal v bu1)
      then show ?thesis
        using less.IH [OF literal(4,6)] by (auto simp: Cons p bnodes_simps bheight_simps)
    next
      case (node bu1 kb1)
      have "bheight b \<le> MAX_BINDING_DEPTH - depth"
        using less.IH [OF _ node(4)] node by (force simp: bheight_simps push_all_def)
      then show ?thesis
        using less.IH [OF _ node(4)] node
        by (auto simp: Cons p bnodes_simps push_all_def comp_def simp flip: rev_map)
    qed
  qed
qed

lemma check_binding_bounds:
  "check_binding x b bu kb = Ok (bu', kb') \<Longrightarrow> bnodes b + bu' \<le> bu \<and> bheight b \<le> MAX_BINDING_DEPTH"
  using check_binding_loop_bounds [of x "[(b, 0)]"] by (simp add: check_binding_def)

section \<open>After the preflight the recursion stays within the depth limit\<close>

abbreviation too_deep :: context_error where
  "too_deep \<equiv> Limit ''binding depth''"

named_theorems depth_safe "computations that never report the depth limit"

lemma check_value_loop_not_too_deep [depth_safe]: "check_value_loop stack b d \<noteq> Err too_deep"
proof (induction stack b d rule: check_value_loop.induct)
  case (2 v depth stack budget d)
  show ?case
  proof (cases "budget = 0 \<or> depth > d")
    case True
    then show ?thesis
      by (auto simp: check_value_loop.simps(2) split: option.splits)
  next
    case False
    then obtain b where b: "checked_sub budget 1 = Some b" and budget: "budget = Suc b"
      by (cases budget) auto
    have depth: "\<not> depth > d" using False by simp
    note ih = "2.IH" [OF b depth]
    show ?thesis
      by (cases v)
        (use ih depth in \<open>simp_all add: budget check_value_loop.simps(2) ensure_pending_capacity_def\<close>)
  qed
qed simp

lemma charge_value_not_too_deep [depth_safe]: "charge_value x v bu by' depth \<noteq> Err too_deep"
  by (auto simp: charge_value_def check_value_def bindr_eq_Err check_size_total depth_safe)

lemma compare_not_too_deep [depth_safe]: "compare x op a b \<noteq> Err too_deep"
  using compare_cases [of x op a b] by auto

lemma eval_fields_not_too_deep:
  "(\<And>p bu by'. p \<in> set fs \<Longrightarrow> ev (snd p) bu by' \<noteq> Err too_deep)
    \<Longrightarrow> eval_fields ev fs out bu by' \<noteq> Err too_deep"
proof (induction fs arbitrary: out bu by')
  case (Cons p fs)
  have "ev (snd p) bu by' \<noteq> Err too_deep"
    by (rule Cons.prems) simp
  moreover have "eval_fields ev fs out' bu' by'' \<noteq> Err too_deep" for out' bu' by''
    by (rule Cons.IH) (rule Cons.prems, simp)
  ultimately show ?case
    by (simp add: bindr_eq_Err)
qed simp

lemma eval_items_not_too_deep:
  "(\<And>i bu by'. i \<in> set is \<Longrightarrow> ev i bu by' \<noteq> Err too_deep) \<Longrightarrow> eval_items ev is bu by' \<noteq> Err too_deep"
  by (induction "is" arbitrary: bu by') (auto simp: bindr_eq_Err)

lemma eval_concat_not_too_deep:
  "(\<And>i bu by'. i \<in> set is \<Longrightarrow> ev i bu by' \<noteq> Err too_deep)
    \<Longrightarrow> eval_concat x ev is s bu by' \<noteq> Err too_deep"
  by (induction "is" arbitrary: s bu by')
    (auto simp: bindr_eq_Err check_size_total split: json.splits if_splits)

lemma eval_boolean_not_too_deep:
  "(\<And>i bu by'. i \<in> set is \<Longrightarrow> ev i bu by' \<noteq> Err too_deep)
    \<Longrightarrow> eval_boolean ev is c bu by' \<noteq> Err too_deep"
  by (induction "is" arbitrary: bu by') (auto simp: bindr_eq_Err split: json.splits if_splits)

lemma children_within:
  assumes "depth + bheight b \<le> MAX_BINDING_DEPTH" and "c \<in> set (children b)"
  shows "depth + 1 + bheight c \<le> MAX_BINDING_DEPTH"
proof -
  have "\<not> is_literal b" using assms(2) by (cases b) (auto simp: is_literal_def)
  moreover have "bheight b \<le> MAX_BINDING_DEPTH - depth" using assms(1) by simp
  ultimately show ?thesis using assms by (fastforce simp: bheight_simps)
qed

lemma evaluate_not_too_deep:
  "depth + bheight b \<le> MAX_BINDING_DEPTH \<Longrightarrow> evaluate x ctx depth b bu by' \<noteq> Err too_deep"
proof (induction b arbitrary: depth bu by' rule: references.induct)
  case (2 r)
  then show ?case
    by (auto simp: at_depth_def reference_not_limit bindr_eq_Err depth_safe)
next
  case (4 r fallback)
  have "evaluate x ctx (depth + 1) fallback bu by' \<noteq> Err too_deep" if "reference x r ctx = Err (Missing p)" for p
    using "4.IH" children_within [OF "4.prems"] by simp
  then show ?case
    using "4.prems" reference_not_limit [of x r ctx]
    by (auto simp: at_depth_def depth_safe split: outcome.splits context_error.splits)
next
  case (5 fs)
  have "evaluate x ctx (depth + 1) (snd p) bu by' \<noteq> Err too_deep" if "p \<in> set fs" for p bu by'
    using that by (intro "5.IH" [OF that] children_within [OF "5.prems"]) auto
  then show ?case
    using "5.prems" by (auto simp: at_depth_def bindr_eq_Err eval_fields_not_too_deep)
next
  case (6 items)
  then show ?case
    using children_within [OF "6.prems"]
    by (auto simp: at_depth_def bindr_eq_Err eval_items_not_too_deep)
next
  case (3 r)
  then show ?case
    using reference_not_limit [of x r ctx]
    by (auto simp: at_depth_def split: outcome.splits context_error.splits)
next
  case (10 op l r)
  then show ?case
    using children_within [OF "10.prems"]
    by (auto simp: at_depth_def eval_compare_def bindr_eq_Err depth_safe)
next
  case (11 v items)
  then show ?case
    using children_within [OF "11.prems"]
    by (auto simp: at_depth_def eval_membership_def bindr_eq_Err split: json.splits)
next
  case (12 item)
  then show ?case
    using children_within [OF "12.prems"]
    by (auto simp: at_depth_def eval_not_def bindr_eq_Err split: json.splits)
next
  case (7 items)
  then show ?case
    using children_within [OF "7.prems"] by (auto simp: at_depth_def eval_concat_not_too_deep)
next
  case (8 items)
  then show ?case
    using children_within [OF "8.prems"] by (auto simp: at_depth_def eval_boolean_not_too_deep)
next
  case (9 items)
  then show ?case
    using children_within [OF "9.prems"] by (auto simp: at_depth_def eval_boolean_not_too_deep)
qed (auto simp: at_depth_def depth_safe)

section \<open>Parsed references never panic\<close>

definition safe_binding :: "'n binding \<Rightarrow> bool" where
  "safe_binding b \<longleftrightarrow> (\<forall>r \<in> set (references b). parsed r)"

lemma denote_fields_no_panic:
  "(\<And>p. p \<in> set fs \<Longrightarrow> f (snd p) \<noteq> Panic) \<Longrightarrow> denote_fields f fs out \<noteq> Panic"
proof (induction fs arbitrary: out)
  case (Cons p fs)
  have "f (snd p) \<noteq> Panic" by (rule Cons.prems) simp
  moreover have "denote_fields f fs out' \<noteq> Panic" for out'
    by (rule Cons.IH) (rule Cons.prems, simp)
  ultimately show ?case by (simp add: bindr_eq_Panic)
qed simp

lemma denote_lists_no_panic:
  assumes "\<And>i. i \<in> set is \<Longrightarrow> f i \<noteq> Panic"
  shows "denote_items f is \<noteq> Panic" "denote_concat f is s \<noteq> Panic" "denote_boolean f is c \<noteq> Panic"
  using assms
  by (induction "is" arbitrary: s) (auto simp: bindr_eq_Panic split: json.splits if_splits)

lemma denote_no_panic: "safe_binding b \<Longrightarrow> denote x ctx b \<noteq> Panic"
proof (induction b rule: references.induct)
  case (2 r)
  then show ?case by (simp add: safe_binding_def reference_no_panic)
next
  case (3 r)
  then show ?case
    using reference_no_panic [of r x ctx]
    by (auto simp: safe_binding_def split: outcome.splits context_error.splits)
next
  case (4 r fallback)
  then show ?case
    using reference_no_panic [of r x ctx]
    by (auto simp: safe_binding_def split: outcome.splits context_error.splits)
next
  case (5 fs)
  have "denote x ctx (snd p) \<noteq> Panic" if p: "p \<in> set fs" for p
    using "5.prems" p by (intro "5.IH" [OF p]) (force simp: safe_binding_def)
  then show ?case by (simp add: bindr_eq_Panic denote_fields_no_panic)
next
  case (6 items)
  then show ?case by (auto simp: safe_binding_def bindr_eq_Panic denote_lists_no_panic(1))
next
  case (7 items)
  then show ?case by (auto simp: safe_binding_def denote_lists_no_panic(2))
next
  case (8 items)
  then show ?case by (auto simp: safe_binding_def denote_lists_no_panic(3))
next
  case (9 items)
  then show ?case by (auto simp: safe_binding_def denote_lists_no_panic(3))
next
  case (10 op l r)
  have "compare x op a b \<noteq> Panic" for a b using compare_cases [of x op a b] by auto
  then show ?case using 10 by (auto simp: safe_binding_def bindr_eq_Panic)
next
  case (11 v items)
  then show ?case by (auto simp: safe_binding_def bindr_eq_Panic split: json.splits)
next
  case (12 inner)
  then show ?case by (auto simp: safe_binding_def bindr_eq_Panic split: json.splits)
qed simp

lemma evaluate_no_panic: "safe_binding b \<Longrightarrow> evaluate x ctx depth b bu by' \<noteq> Panic"
  using evaluate_computes [of x ctx depth b bu by'] denote_no_panic [of b x ctx] by auto

lemma evaluate_Err_cases:
  "evaluate x ctx depth b bu by' = Err e \<Longrightarrow> (\<exists>l. e = Limit l) \<or> denote x ctx b = Err e"
  using evaluate_computes [of x ctx depth b bu by'] by simp

lemma key_bytes_charge_cases:
  "(\<exists>kb'. key_bytes_charge fs kb = Ok kb') \<or> (\<exists>l. key_bytes_charge fs kb = Err (Limit l))"
  by (induction fs kb rule: key_bytes_charge.induct) (auto simp: checked_sub_def)

lemma check_literal_cases:
  "(\<exists>r. check_literal x v bu kb depth = Ok r) \<or> (\<exists>l. check_literal x v bu kb depth = Err (Limit l))"
  using check_value_cases [of v "saturating_add bu 1" "MAX_JSON_DEPTH - depth"]
  by (auto simp: check_literal_def check_size_total)

definition ok_or_limit :: "('a, context_error) outcome \<Rightarrow> bool" where
  "ok_or_limit m \<longleftrightarrow> (\<exists>r. m = Ok r) \<or> (\<exists>l. m = Err (Limit l))"

lemma ok_or_limit_simps [simp]:
  "ok_or_limit (Ok r)" "ok_or_limit (Err e) \<longleftrightarrow> (\<exists>l. e = Limit l)" "\<not> ok_or_limit Panic"
  by (simp_all add: ok_or_limit_def)

lemma check_value_total: "ok_or_limit (check_value v k d)"
  using check_value_cases [of v k d] by auto

lemma ok_or_limit_bind:
  "ok_or_limit m \<Longrightarrow> (\<And>v. m = Ok v \<Longrightarrow> ok_or_limit (f v)) \<Longrightarrow> ok_or_limit (bindr m f)"
  by (cases m) (auto simp: ok_or_limit_def)

lemma check_binding_loop_total: "ok_or_limit (check_binding_loop x stack bu kb)"
proof (induction bu arbitrary: stack kb rule: less_induct)
  case (less bu)
  show ?case
  proof (cases stack)
    case Nil
    then show ?thesis by (simp add: ok_or_limit_def)
  next
    case (Cons p rest)
    obtain b depth where p: "p = (b, depth)" by (cases p)
    show ?thesis
    proof (cases "bu = 0 \<or> depth > MAX_BINDING_DEPTH")
      case True
      then show ?thesis
        by (auto simp: Cons p ok_or_limit_def split: option.splits)
    next
      case False
      then obtain bu' where bu: "bu = Suc bu'" and depth: "depth \<le> MAX_BINDING_DEPTH"
        by (cases bu) auto
      have ih: "ok_or_limit (check_binding_loop x stack' b' kb')" if "b' \<le> bu'" for stack' b' kb'
        using less.IH that bu by simp
      have capacity: "ok_or_limit (ensure_pending_capacity a c d l)" for a c d l
        by (simp add: ok_or_limit_def ensure_pending_capacity_def)
      show ?thesis
      proof (cases b)
        case (Literal v)
        then show ?thesis
          using check_literal_cases [of x v bu' kb depth] ih depth
          by (simp add: Cons p bu) (auto intro!: ok_or_limit_bind dest: check_literal_decreases)
      next
        case (Object fs)
        have "ok_or_limit (key_bytes_charge fs kb)"
          using key_bytes_charge_cases [of fs kb] by (simp add: ok_or_limit_def)
        then show ?thesis
          using ih depth by (simp add: Cons p bu Object) (intro ok_or_limit_bind capacity, auto)
      qed (use ih depth in \<open>auto simp: Cons p bu intro!: ok_or_limit_bind capacity\<close>)
    qed
  qed
qed

lemma check_binding_total: "ok_or_limit (check_binding x b bu kb)"
  unfolding check_binding_def by (rule check_binding_loop_total)

section \<open>Resolution\<close>

lemma preflight_binding_total: "ok_or_limit (preflight_binding x b limits)"
  unfolding preflight_binding_def
  by (intro ok_or_limit_bind check_binding_total) (simp add: ok_or_limit_def)

lemma resolve_Ok:
  assumes "resolve x b ctx limits = Ok v"
  shows "denote x ctx b = Ok v" and "height v \<le> MAX_JSON_DEPTH"
    and "serialized_len x v \<le> min (output_bytes limits) MAX_OUTPUT_BYTES"
    and "preflight_binding x b limits = Ok ()"
  using assms
  by (auto simp: resolve_def Let_def check_value_eq_Ok check_size_eq_Ok dest: evaluate_Ok_denote)

lemma ok_or_limit_Err: "ok_or_limit m \<Longrightarrow> m = Err e \<Longrightarrow> \<exists>l. e = Limit l"
  by simp

lemma ok_or_limit_Panic: "ok_or_limit m \<Longrightarrow> m \<noteq> Panic"
  by auto

lemma resolve_Err:
  "resolve x b ctx limits = Err e \<Longrightarrow> (\<exists>l. e = Limit l) \<or> denote x ctx b = Err e"
  using ok_or_limit_Err [OF check_value_total] ok_or_limit_Err [OF preflight_binding_total, of x b limits e]
  by (auto simp: resolve_def Let_def bindr_eq_Err check_size_total dest: evaluate_Err_cases
      split: if_splits)

lemma resolve_no_panic: "safe_binding b \<Longrightarrow> resolve x b ctx limits \<noteq> Panic"
  using ok_or_limit_Panic [OF preflight_binding_total, of x b limits] ok_or_limit_Panic [OF check_value_total]
    evaluate_no_panic [of b x ctx 0]
  by (auto simp: resolve_def Let_def bindr_eq_Panic check_size_total split: if_splits)

lemma evaluate_inputs_Ok:
  "evaluate_inputs x ctx index bs vals bu by' = Ok r
    \<Longrightarrow> \<exists>ws. length ws = length bs \<and> r = fold (\<lambda>(k, v). bt_insert k v) (zip (map fst bs) ws) vals
        \<and> (\<forall>i < length bs. denote x ctx (snd (bs ! i)) = Ok (ws ! i))"
proof (induction x ctx index bs vals bu by' arbitrary: r rule: evaluate_inputs.induct)
  case (2 x ctx index name b rest vals budget bytes)
  then obtain bytes' v budget' bytes'' where c: "charge_name x index name bytes = Ok bytes'"
    and e: "evaluate x ctx 0 b budget bytes' = Ok (v, budget', bytes'')"
    and rest: "evaluate_inputs x ctx (index + 1) rest (bt_insert name v vals) budget' bytes'' = Ok r"
    by auto
  obtain ws where ws: "length ws = length rest"
    "r = fold (\<lambda>(k, v). bt_insert k v) (zip (map fst rest) ws) (bt_insert name v vals)"
    "\<forall>i < length rest. denote x ctx (snd (rest ! i)) = Ok (ws ! i)"
    using "2.IH" [OF c _ refl refl rest] e by auto
  have "denote x ctx b = Ok v" using e by (rule evaluate_Ok_denote)
  then show ?case
    using ws by (intro exI [of _ "v # ws"]) (auto simp: nth_Cons split: nat.splits)
qed simp

lemma charge_name_cases:
  "(\<exists>r. charge_name x index name by' = Ok r) \<or>
   charge_name x index name by' = Err (Some name, Limit ''output bytes'')"
  by (auto simp: charge_name_def checked_sub_def check_size_total)

lemma preflight_inputs_outcome:
  "case preflight_inputs x index bs n by' of
     Ok _ \<Rightarrow> sum_list (map (\<lambda>p. bnodes (snd p)) bs) \<le> n
   | Err e \<Rightarrow> \<exists>p \<in> set bs. fst e = Some (fst p) \<and> (\<exists>l. snd e = Limit l)
   | Panic \<Rightarrow> False"
proof (induction x index bs n by' rule: preflight_inputs.induct)
  case (2 x index name b rest n by')
  show ?case
  proof (cases "charge_name x index name by'")
    case c: (Ok by1)
    show ?thesis
    proof (cases "check_binding x b n by1")
      case k: (Ok q)
      obtain n2 by2 where q: "q = (n2, by2)" by (cases q)
      have "map_err (Pair (Some name)) (check_binding x b n by1) = Ok q" using k by simp
      from "2.IH" [OF c this q [symmetric]] show ?thesis
        using check_binding_bounds [OF k [unfolded q]] by (fastforce simp: c k q split: outcome.splits)
    next
      case (Err e)
      then show ?thesis
        using ok_or_limit_Err [OF check_binding_total Err] by (simp add: c)
    next
      case Panic
      then show ?thesis using ok_or_limit_Panic [OF check_binding_total, of x b n by1] by simp
    qed
  qed (use charge_name_cases [of x index name by'] in auto)
qed simp

lemma evaluate_inputs_failure:
  "\<forall>p \<in> set bs. safe_binding (snd p) \<Longrightarrow>
   (case evaluate_inputs x ctx index bs vals bu by' of
     Ok _ \<Rightarrow> True
   | Err e \<Rightarrow> \<exists>p \<in> set bs. fst e = Some (fst p) \<and>
       ((\<exists>l. snd e = Limit l) \<or> denote x ctx (snd p) = Err (snd e))
   | Panic \<Rightarrow> False)"
proof (induction x ctx index bs vals bu by' rule: evaluate_inputs.induct)
  case (2 x ctx index name b rest vals bu by')
  show ?case
  proof (cases "charge_name x index name by'")
    case c: (Ok by1)
    show ?thesis
    proof (cases "evaluate x ctx 0 b bu by1")
      case k: (Ok q)
      obtain v bu2 by2 where q: "q = (v, bu2, by2)" by (cases q)
      have "map_err (Pair (Some name)) (evaluate x ctx 0 b bu by1) = Ok q" using k by simp
      from "2.IH" [OF c this q [symmetric] refl] "2.prems" show ?thesis
        by (fastforce simp: c k q split: outcome.splits)
    next
      case (Err e)
      then show ?thesis
        using evaluate_Err_cases [OF Err] by (simp add: c)
    next
      case Panic
      then show ?thesis using evaluate_no_panic [of b x ctx 0 bu by1] "2.prems" by simp
    qed
  qed (use charge_name_cases [of x index name by'] in auto)
qed simp

lemma inserted_fields:
  fixes bs :: "('k::linorder \<times> 'b) list"
  assumes ok: "bt_ok bs" and len: "length ws = length bs"
    and r: "r = fold (\<lambda>(k, v). bt_insert k v) (zip (map fst bs) ws) []"
  shows "map fst r = map fst bs" and "\<And>i. i < length bs \<Longrightarrow> bt_get r (fst (bs ! i)) = Some (ws ! i)"
proof -
  let ?kvs = "zip (map fst bs) ws"
  have keys: "map fst ?kvs = map fst bs" using len by simp
  have dist: "distinct (map fst ?kvs)" using bt_ok_distinct [OF ok] keys by simp
  have empty: "bt_ok ([] :: ('k \<times> 'c) list)" by (simp add: bt_ok_def)
  have okr: "bt_ok r"
    using btm.put_all_ok [OF empty] by (simp add: r)
  have get: "bt_get r = map_of (rev ?kvs)"
    using btm.put_all_get [OF empty, of ?kvs] by (simp add: r bt_get_def [abs_def])
  have dist: "distinct (map fst (rev ?kvs))" using dist by (simp flip: rev_map)
  show "\<And>i. i < length bs \<Longrightarrow> bt_get r (fst (bs ! i)) = Some (ws ! i)"
    unfolding get using len by (intro map_of_is_SomeI [OF dist]) (force simp: set_zip)
  have "set (map fst r) = fst ` set ?kvs"
    using bt_keys_dom [of r] unfolding get dom_map_of_conv_image_fst bt_keys_def by simp
  also have "\<dots> = set (map fst bs)" using keys by (metis list.set_map)
  finally have "set (map fst r) = set (map fst bs)" .
  then show "map fst r = map fst bs"
    using okr ok unfolding bt_ok_def strict_sorted_iff by (metis sorted_distinct_set_unique)
qed

lemma preflight_inputs_failure:
  "preflight_inputs x index bs n by' = Err e \<Longrightarrow> \<exists>p \<in> set bs. fst e = Some (fst p) \<and> (\<exists>l. snd e = Limit l)"
  "preflight_inputs x index bs n by' \<noteq> Panic"
  using preflight_inputs_outcome [where x = x and index = index and bs = bs and n = n and by' = by'] by auto

lemma resolve_inputs_Err:
  assumes safe: "\<forall>p \<in> set bs. safe_binding (snd p)" and err: "resolve_inputs x bs ctx limits = Err e"
  shows "fst e = None \<and> (\<exists>l. snd e = Limit l) \<or>
    (\<exists>p \<in> set bs. fst e = Some (fst p) \<and> ((\<exists>l. snd e = Limit l) \<or> denote x ctx (snd p) = Err (snd e)))"
proof -
  have "map_err (Pair None) (validate_context_value x v limits) = Err e
      \<Longrightarrow> fst e = None \<and> (\<exists>l. snd e = Limit l)" for v
    using validate_context_value_cases [of x v limits] by auto
  moreover have "evaluate_inputs x ctx 0 bs [] bu by' = Err e \<Longrightarrow> \<exists>p \<in> set bs. fst e = Some (fst p)
      \<and> ((\<exists>l. snd e = Limit l) \<or> denote x ctx (snd p) = Err (snd e))" for bu by'
    using evaluate_inputs_failure [OF safe, of x ctx 0 "[]" bu by'] by simp
  moreover note preflight_inputs_failure(1) [of x 0 bs]
  ultimately show ?thesis
    using err unfolding resolve_inputs_def Let_def bindr_eq_Err by (elim disjE exE conjE) auto
qed

lemma resolve_inputs_no_panic:
  assumes safe: "\<forall>p \<in> set bs. safe_binding (snd p)"
  shows "resolve_inputs x bs ctx limits \<noteq> Panic"
proof -
  have "validate_context_value x v limits \<noteq> Panic" for v
    using validate_context_value_cases [of x v limits] by auto
  moreover have "evaluate_inputs x ctx 0 bs [] bu by' \<noteq> Panic" for bu by'
    using evaluate_inputs_failure [OF safe, of x ctx 0 "[]" bu by'] by auto
  ultimately show ?thesis
    using preflight_inputs_failure(2) [of x 0 bs]
    by (auto simp: resolve_inputs_def Let_def bindr_eq_Panic)
qed

section \<open>Rules\<close>

lemma decide_cases_Cons:
  "decide_cases x ctx limits (k # cs) dflt = Ok c \<longleftrightarrow>
     resolve x (case_when k) ctx limits = Ok (VBool True) \<and> c = case_choice k \<or>
     resolve x (case_when k) ctx limits = Ok (VBool False) \<and> decide_cases x ctx limits cs dflt = Ok c"
proof (cases "resolve x (case_when k) ctx limits")
  case (Ok v)
  then show ?thesis by (cases v) auto
qed auto

lemma ex_le_Suc: "(\<exists>i \<le> Suc n. P i) \<longleftrightarrow> P 0 \<or> (\<exists>i \<le> n. P (Suc i))"
  by (metis Suc_le_mono le0 not0_implies_Suc)

lemma decide_cases_iff:
  "decide_cases x ctx limits cs dflt = Ok c \<longleftrightarrow>
     (\<exists>i \<le> length cs.
        (\<forall>j < i. resolve x (case_when (cs ! j)) ctx limits = Ok (VBool False)) \<and>
        (if i < length cs
         then resolve x (case_when (cs ! i)) ctx limits = Ok (VBool True) \<and> c = case_choice (cs ! i)
         else c = dflt))" (is "_ \<longleftrightarrow> (\<exists>i \<le> _. ?P cs i)")
proof (induction cs)
  case (Cons k cs)
  let ?r = "resolve x (case_when k) ctx limits"
  have "(\<exists>i \<le> length (k # cs). ?P (k # cs) i) \<longleftrightarrow> ?P (k # cs) 0 \<or> (\<exists>i \<le> length cs. ?P (k # cs) (Suc i))"
    unfolding list.size(4) add_Suc_right add_0_right by (rule ex_le_Suc)
  also have "\<dots> \<longleftrightarrow> (?r = Ok (VBool True) \<and> c = case_choice k) \<or>
      (?r = Ok (VBool False) \<and> (\<exists>i \<le> length cs. ?P cs i))"
    by (simp add: All_less_Suc2) blast
  finally show ?case
    using Cons.IH by (simp only: decide_cases_Cons)
qed auto

lemma decide_cases_choice:
  "decide_cases x ctx limits cs dflt = Ok c \<Longrightarrow> c \<in> insert dflt (case_choice ` set cs)"
  by (induction cs) (auto simp: decide_cases_Cons simp del: decide_cases.simps(2))

lemma check_choices_iff: "check_choices choices cs = Ok () \<longleftrightarrow> set cs \<subseteq> set choices"
  by (induction cs) auto

section \<open>A concrete context\<close>

definition sample_externals :: "(int, int) externals" where
  "sample_externals = \<lparr>to_writer = (\<lambda>v. case v of VString s \<Rightarrow> [''#'', s, ''#''] | _ \<Rightarrow> [''0000'']),
     decimal = (\<lambda>n. n), uuid_to_string = (\<lambda>_. ''run''), to_rfc3339_micros = (\<lambda>_. ''time'')\<rparr>"

definition sample_context :: "int run_context" where
  "sample_context = \<lparr>input = VObject [(''n'', VNumber 3)], params = VNull, step_outputs = [],
     run = \<lparr>meta_run_id = 0, meta_parent_run_id = None, meta_deadline = None\<rparr>\<rparr>"

definition sample_reference :: context_reference where
  "sample_reference = \<lparr>raw = ''/input/n'', root = Input, path = [''input'', ''n'']\<rparr>"

definition sample_limits :: context_limits where
  "sample_limits = \<lparr>output_bytes = 100, work_nodes = 50\<rparr>"

definition sample_binding :: "int binding" where
  "sample_binding = Compare Ge (Reference sample_reference) (Literal (VNumber 2))"

lemma sample_parsed: "parsed sample_reference"
  unfolding parsed_def sample_reference_def by code_simp

lemma sample_safe: "safe_binding sample_binding"
  by (simp add: safe_binding_def sample_binding_def sample_parsed)

lemma sample_reads: "reference sample_externals sample_reference sample_context = Ok (VNumber 3)"
  unfolding sample_externals_def sample_reference_def sample_context_def by code_simp

lemma sample_resolves:
  "resolve sample_externals sample_binding sample_context sample_limits = Ok (VBool True)"
proof -
  have len: "serialized_len sample_externals (VNumber n) = 4" "serialized_len sample_externals (VBool p) = 4" for n p
    by (simp_all add: serialized_len_def sample_externals_def)
  have cv: "check_value (VNumber n) b d = (if b = 0 then Err (Limit ''work nodes'') else Ok (b - 1))"
    "check_value (VBool p) b d = (if b = 0 then Err (Limit ''work nodes'') else Ok (b - 1))"
    for n :: int and p b d
    by (cases b; simp add: check_value_def check_value_loop.simps)+
  have dec: "decimal sample_externals n = n" for n by (simp add: sample_externals_def)
  show ?thesis
    by (simp add: resolve_def Let_def preflight_binding_def check_binding_def check_literal_def
        sample_limits_def sample_binding_def push_all_def ensure_pending_capacity_def saturating_add_def
        usize_max_def MAX_OUTPUT_BYTES_def MAX_WORK_NODES_def MAX_BINDING_NODES_def MAX_BINDING_DEPTH_def
        at_depth_def eval_compare_def sample_reads charge_value_def cv check_size_total len checked_sub_def
        json_order_def cmp_def dec)
qed

section \<open>Properties\<close>

text \<open>
  The value of a binding depends on the run only through the references it names:
  two contexts that agree on them resolve it alike, errors included.
\<close>

theorem resolve_reads_only_its_references:
  assumes "\<forall>r \<in> set (references b). reference x r ctx = reference x r ctx'"
  shows "resolve x b ctx limits = resolve x b ctx' limits"
  using evaluate_reads_references [of b x ctx ctx'] assms by (simp add: resolve_def)

theorem resolve_reads_only_its_references_witness:
  "resolve sample_externals sample_binding (sample_context\<lparr>params := VBool True\<rparr>) sample_limits
    = Ok (VBool True)"
proof -
  have "\<forall>r \<in> set (references sample_binding).
      reference sample_externals r (sample_context\<lparr>params := VBool True\<rparr>)
        = reference sample_externals r sample_context"
    unfolding sample_binding_def sample_reference_def sample_context_def sample_externals_def by code_simp
  from resolve_reads_only_its_references [OF this] show ?thesis
    by (simp add: sample_resolves)
qed

text \<open>
  The preflight is what keeps the recursive evaluator shallow: once it has accepted a
  binding, no evaluation of it, in any context and with any budgets, reaches the depth
  limit of \<open>evaluate\<close>.
\<close>

theorem preflight_rules_out_depth_errors:
  assumes "preflight_binding x b limits = Ok ()"
  shows "evaluate x ctx 0 b budget bytes \<noteq> Err (Limit ''binding depth'')"
proof -
  obtain r where "check_binding x b MAX_BINDING_NODES
      (min (output_bytes limits) MAX_OUTPUT_BYTES) = Ok r"
    using assms by (auto simp: preflight_binding_def)
  then have "bheight b \<le> MAX_BINDING_DEPTH"
    using check_binding_bounds by (cases r) blast
  then show ?thesis by (intro evaluate_not_too_deep) simp
qed

theorem preflight_rules_out_depth_errors_witness:
  "evaluate sample_externals sample_context 0 sample_binding 7 9 \<noteq> Err (Limit ''binding depth'')"
  using preflight_rules_out_depth_errors [OF resolve_Ok(4) [OF sample_resolves]] .

text \<open>
  The named inputs of a step are resolved as one snapshot: the result is an object
  with exactly the declared names in order, each holding the denotation of its binding,
  and it passes the limits as a whole; a failure names a declared input whose binding
  fails or a limit, an anonymous failure is a limit; and the subtraction that is not
  checked a second time never underflows.
\<close>

theorem resolved_inputs_are_a_snapshot:
  assumes ok: "bt_ok bindings" and safe: "\<forall>p \<in> set bindings. safe_binding (snd p)"
  shows "case resolve_inputs x bindings ctx limits of
      Ok v \<Rightarrow> validate_context_value x v limits = Ok () \<and>
        (\<exists>vals. v = VObject vals \<and> map fst vals = map fst bindings \<and>
          (\<forall>p \<in> set bindings. \<exists>w. bt_get vals (fst p) = Some w \<and> denote x ctx (snd p) = Ok w))
    | Err (Some name, e) \<Rightarrow> \<exists>b. (name, b) \<in> set bindings \<and>
        ((\<exists>l. e = Limit l) \<or> denote x ctx b = Err e)
    | Err (None, e) \<Rightarrow> (\<exists>l. e = Limit l)
    | Panic \<Rightarrow> False"
proof (cases "resolve_inputs x bindings ctx limits")
  case (Ok v)
  then obtain vals bu by' where e: "evaluate_inputs x ctx 0 bindings [] bu by' = Ok vals"
    and v: "v = VObject vals" "validate_context_value x (VObject vals) limits = Ok ()"
    by (auto simp: resolve_inputs_def Let_def)
  obtain ws where ws: "length ws = length bindings"
    "vals = fold (\<lambda>(k, v). bt_insert k v) (zip (map fst bindings) ws) []"
    "\<forall>i < length bindings. denote x ctx (snd (bindings ! i)) = Ok (ws ! i)"
    using evaluate_inputs_Ok [OF e] by auto
  have "\<exists>w. bt_get vals (fst p) = Some w \<and> denote x ctx (snd p) = Ok w" if "p \<in> set bindings" for p
    using inserted_fields(2) [OF ok ws(1,2)] ws(3) that by (metis in_set_conv_nth)
  then show ?thesis
    using inserted_fields(1) [OF ok ws(1,2)] v by (simp add: Ok)
next
  case (Err e)
  then show ?thesis
    using resolve_inputs_Err [OF safe Err] by (cases e) (auto split: option.splits)
next
  case Panic
  then show ?thesis
    using resolve_inputs_no_panic [OF safe, of x ctx limits] by simp
qed

theorem resolved_inputs_are_a_snapshot_witness:
  "resolve_inputs sample_externals [(''big'', sample_binding)] sample_context
     \<lparr>output_bytes = 1, work_nodes = 50\<rparr> = Err (None, Limit ''output bytes'')
   \<and> resolve_inputs sample_externals [(''big'', sample_binding)] sample_context sample_limits \<noteq> Panic"
proof
  have ok: "bt_ok [(''big'', sample_binding)]"
    and safe: "\<forall>p \<in> set [(''big'', sample_binding)]. safe_binding (snd p)"
    by (simp_all add: bt_ok_def sample_safe)
  show "resolve_inputs sample_externals [(''big'', sample_binding)] sample_context sample_limits \<noteq> Panic"
    using resolved_inputs_are_a_snapshot [OF ok safe, where x = sample_externals
        and ctx = sample_context and limits = sample_limits]
    by auto
qed (simp add: resolve_inputs_def Let_def checked_sub_def MAX_OUTPUT_BYTES_def)

text \<open>
  A rule decides by its first true case: \<open>rule_decide\<close> answers a choice exactly when
  every case before some position resolves to false and either the case there resolves to
  true and carries that choice, or the position is past the last case and the choice is
  the default.
\<close>

theorem rule_decides_by_first_true_case:
  "rule_decide x rule ctx limits = Ok c \<longleftrightarrow>
     (\<exists>i \<le> length (cases rule).
        (\<forall>j < i. resolve x (case_when (cases rule ! j)) ctx limits = Ok (VBool False)) \<and>
        (if i < length (cases rule)
         then resolve x (case_when (cases rule ! i)) ctx limits = Ok (VBool True)
           \<and> c = case_choice (cases rule ! i)
         else c = default_choice rule))"
  unfolding rule_decide_def by (rule decide_cases_iff)

theorem rule_decides_by_first_true_case_witness:
  "rule_decide sample_externals \<lparr>cases = [\<lparr>case_when = sample_binding, case_choice = ''yes''\<rparr>],
     default_choice = ''no''\<rparr> sample_context sample_limits = Ok ''yes''"
  by (rule rule_decides_by_first_true_case [THEN iffD2], rule exI [of _ 0]) (simp add: sample_resolves)

text \<open>
  A checked rule stays within the choices of its step: when \<open>rule_check\<close> accepts a
  rule against a set of choices, every decision it ever makes is one of them, and it has
  between 1 and 256 cases.
\<close>

theorem checked_rule_decides_a_declared_choice:
  assumes "rule_check rule choices = Ok ()" and "rule_decide x rule ctx limits = Ok c"
  shows "c \<in> set choices \<and> cases rule \<noteq> [] \<and> length (cases rule) \<le> 256"
  using assms decide_cases_choice [of x ctx limits "cases rule"]
  by (auto simp: rule_check_def rule_decide_def check_choices_iff split: if_splits)

theorem checked_rule_decides_a_declared_choice_witness:
  "rule_decide sample_externals \<lparr>cases = [\<lparr>case_when = sample_binding, case_choice = ''yes''\<rparr>],
     default_choice = ''no''\<rparr> sample_context sample_limits = Ok ''yes''
   \<and> ''yes'' \<in> set [''no'', ''yes'']"
proof -
  let ?rule = "\<lparr>cases = [\<lparr>case_when = sample_binding, case_choice = ''yes''\<rparr>], default_choice = ''no''\<rparr>"
  have decide: "rule_decide sample_externals ?rule sample_context sample_limits = Ok ''yes''"
    by (simp add: rule_decide_def sample_resolves)
  have "rule_check ?rule [''no'', ''yes''] = Ok ()"
    by (simp add: rule_check_def)
  from checked_rule_decides_a_declared_choice [OF this decide] decide show ?thesis
    by simp
qed

end
