(* ===== verification/Limit_Facts.thy ===== *)
theory Limit_Facts
  imports Binding_Facts
begin

text \<open>
  The limits of the binding evaluator of \<open>Bindings\<close>, from the other side: a binding
  that is small enough, and reads little enough, is resolved. How much a binding reads is
  measured on the binding and the context alone, not by running the evaluator.
\<close>

section \<open>What a binding reads\<close>

text \<open>
  The reading of a binding: the nodes, the depth and the serialized bytes of the literals it holds
  and of the values its references have in the context. A fallback is read only where its reference
  has no value. The parts of a concatenation are read one at a time, and its text counts as a whole.
\<close>

fun read_nodes :: "('n, 'd::linorder) externals \<Rightarrow> 'n run_context \<Rightarrow> 'n binding \<Rightarrow> nat" where
  "read_nodes x ctx b =
     (case b of
        Literal v \<Rightarrow> nodes v
      | Reference r \<Rightarrow> (case reference x r ctx of Ok v \<Rightarrow> nodes v | _ \<Rightarrow> 0)
      | Default r fallback \<Rightarrow>
          (case reference x r ctx of Ok v \<Rightarrow> nodes v | _ \<Rightarrow> sum_list (map (read_nodes x ctx) (children b)))
      | _ \<Rightarrow> sum_list (map (read_nodes x ctx) (children b)))"

fun read_height :: "('n, 'd::linorder) externals \<Rightarrow> 'n run_context \<Rightarrow> 'n binding \<Rightarrow> nat" where
  "read_height x ctx b =
     (let below = fold max (map (\<lambda>c. Suc (read_height x ctx c)) (children b)) 0 in
      case b of
        Literal v \<Rightarrow> height v
      | Reference r \<Rightarrow> (case reference x r ctx of Ok v \<Rightarrow> height v | _ \<Rightarrow> 0)
      | Default r _ \<Rightarrow> (case reference x r ctx of Ok v \<Rightarrow> height v | _ \<Rightarrow> below)
      | _ \<Rightarrow> below)"

definition text_length :: "('n json, context_error) outcome \<Rightarrow> nat" where
  "text_length m = (case m of Ok (VString s) \<Rightarrow> length s | _ \<Rightarrow> 0)"

definition value_bytes :: "('n, 'd) externals \<Rightarrow> ('n json, context_error) outcome \<Rightarrow> nat" where
  "value_bytes x m = (case m of Ok v \<Rightarrow> serialized_len x v | _ \<Rightarrow> 0)"

fun read_bytes :: "('n, 'd::linorder) externals \<Rightarrow> 'n run_context \<Rightarrow> 'n binding \<Rightarrow> nat" where
  "read_bytes x ctx b =
     (let below = map (read_bytes x ctx) (children b) in
      case b of
        Literal v \<Rightarrow> serialized_len x v
      | Reference r \<Rightarrow> value_bytes x (reference x r ctx)
      | Default r _ \<Rightarrow> (case reference x r ctx of Ok v \<Rightarrow> serialized_len x v | _ \<Rightarrow> sum_list below)
      | Concat items \<Rightarrow>
          fold max below (max (sum_list (map (\<lambda>i. text_length (denote x ctx i)) items)) (value_bytes x (denote x ctx b)))
      | _ \<Rightarrow> sum_list below)"

fun literal_bytes :: "('n, 'd) externals \<Rightarrow> 'n binding \<Rightarrow> nat" where
  "literal_bytes x b =
     (case b of Literal v \<Rightarrow> serialized_len x v | _ \<Rightarrow> fold max (map (literal_bytes x) (children b)) 0)"

fun name_bytes :: "'n binding \<Rightarrow> nat" where
  "name_bytes b =
     (case b of Object fs \<Rightarrow> sum_list (map (\<lambda>p. length (fst p)) fs) | _ \<Rightarrow> 0) + sum_list (map name_bytes (children b))"

declare read_nodes.simps [simp del] read_height.simps [simp del] read_bytes.simps [simp del]
  literal_bytes.simps [simp del] name_bytes.simps [simp del]

text \<open>
  A binding fits the limits: it is not too large or too deep itself, its names and its literals fit
  the output, what it reads fits the output and the work, and so does its value, which is checked
  against the work that is left.
\<close>

definition fits_limits :: "('n, 'd::linorder) externals \<Rightarrow> 'n run_context \<Rightarrow> context_limits \<Rightarrow> 'n binding \<Rightarrow> bool" where
  "fits_limits x ctx limits b \<longleftrightarrow>
     (let bytes = min (output_bytes limits) 1048576; work = min (work_nodes limits) 65536 in
      bnodes b \<le> 4096 \<and> bheight b \<le> 64 \<and> name_bytes b + literal_bytes x b \<le> bytes
      \<and> read_height x ctx b \<le> 64 \<and> read_bytes x ctx b \<le> bytes
      \<and> (case denote x ctx b of
           Ok v \<Rightarrow> read_nodes x ctx b + nodes v \<le> work \<and> height v \<le> 64 \<and> serialized_len x v \<le> bytes
         | _ \<Rightarrow> read_nodes x ctx b \<le> work))"

section \<open>The preflight accepts what fits\<close>

lemma literal_bytes_simps:
  "literal_bytes x (Literal v) = serialized_len x v"
  "\<not> is_literal b \<Longrightarrow> literal_bytes x b \<le> n \<longleftrightarrow> (\<forall>c \<in> set (children b). literal_bytes x c \<le> n)"
  by (simp add: literal_bytes.simps) (subst literal_bytes.simps, cases b; auto simp: fold_max_le is_literal_def)

lemma key_bytes_charge_fits:
  "sum_list (map (\<lambda>p. length (fst p)) fs) \<le> kb
    \<Longrightarrow> key_bytes_charge fs kb = Ok (kb - sum_list (map (\<lambda>p. length (fst p)) fs))"
  by (induction fs arbitrary: kb) (auto simp: checked_sub_def)

lemma bnodes_pos: "0 < bnodes b"
  by (cases "is_literal b") (auto simp: bnodes_simps nodes_pos is_literal_def split: binding.splits)

lemma sum_list_pos_length: "length bs \<le> sum_list (map bnodes bs)"
proof (induction bs)
  case (Cons b bs)
  then show ?case using bnodes_pos [of b] by simp
qed simp

lemma capacity_granted:
  "p + c \<le> r \<Longrightarrow> r \<le> usize_max \<Longrightarrow> ensure_pending_capacity p c r l = Ok ()"
  by (simp add: ensure_pending_capacity_def saturating_add_def)

definition stack_fits :: "('n, 'd) externals \<Rightarrow> ('n binding \<times> nat) list \<Rightarrow> nat \<Rightarrow> nat \<Rightarrow> bool" where
  "stack_fits x stack bu kb \<longleftrightarrow> bu \<le> usize_max
     \<and> sum_list (map (\<lambda>p. bnodes (fst p)) stack) \<le> bu
     \<and> (\<forall>p \<in> set stack. snd p + bheight (fst p) \<le> MAX_BINDING_DEPTH
         \<and> sum_list (map (\<lambda>p. name_bytes (fst p)) stack) + literal_bytes x (fst p) \<le> kb)"

lemma stack_fits_literal:
  assumes "stack_fits x ((Literal v, depth) # stack) (Suc bu) kb"
  shows "check_literal x v bu kb depth = Ok (Suc bu - nodes v)" and "stack_fits x stack (Suc bu - nodes v) kb"
  using assms nodes_pos [of v]
  by (auto simp: stack_fits_def check_literal_def check_value_eq_Ok check_size_total saturating_add_def bnodes_simps
      bheight_simps literal_bytes_simps MAX_JSON_DEPTH_def MAX_BINDING_DEPTH_def name_bytes.simps [of "Literal v"])

definition own_names :: "'n binding \<Rightarrow> nat" where
  "own_names b = (case b of Object fs \<Rightarrow> sum_list (map (\<lambda>p. length (fst p)) fs) | _ \<Rightarrow> 0)"

lemma name_bytes_eq: "name_bytes b = own_names b + sum_list (map name_bytes (children b))"
  by (subst name_bytes.simps) (simp add: own_names_def)

lemma stack_fits_node:
  assumes "stack_fits x ((b, depth) # stack) (Suc bu) kb" and "\<not> is_literal b"
  shows "stack_fits x (push_all (children b) (depth + 1) stack) bu (kb - own_names b)"
proof -
  have h: "Suc (depth + bheight c) \<le> MAX_BINDING_DEPTH" if "c \<in> set (children b)" for c
  proof -
    have "depth + bheight b \<le> MAX_BINDING_DEPTH" using assms(1) by (simp add: stack_fits_def)
    then have "bheight b \<le> MAX_BINDING_DEPTH - depth" by linarith
    then have "Suc (bheight c) \<le> MAX_BINDING_DEPTH - depth" using that bheight_simps(2) [OF assms(2)] by blast
    then show ?thesis by linarith
  qed
  have l: "literal_bytes x c \<le> literal_bytes x b" if "c \<in> set (children b)" for c
    using that literal_bytes_simps(2) [OF assms(2), of x "literal_bytes x b"] by blast
  have names: "sum_list (map (\<lambda>p. name_bytes (fst p)) (push_all (children b) (depth + 1) stack)) + own_names b
      = name_bytes b + sum_list (map (\<lambda>p. name_bytes (fst p)) stack)"
    by (simp add: push_all_def name_bytes_eq [of b] comp_def flip: rev_map)
  have nodes: "sum_list (map (\<lambda>p. bnodes (fst p)) (push_all (children b) (depth + 1) stack)) \<le> bu"
    using assms by (simp add: push_all_def stack_fits_def bnodes_simps(2) comp_def flip: rev_map)
  have "snd p + bheight (fst p) \<le> MAX_BINDING_DEPTH
      \<and> name_bytes b + sum_list (map (\<lambda>p. name_bytes (fst p)) stack) + literal_bytes x (fst p) \<le> kb"
    if "p \<in> set (push_all (children b) (depth + 1) stack)" for p
  proof -
    from that consider "p \<in> set stack" | "snd p = Suc depth" "fst p \<in> set (children b)"
      by (auto simp: push_all_def)
    then show ?thesis
    proof cases
      case 1
      then show ?thesis using assms(1) by (simp add: stack_fits_def)
    next
      case 2
      have "name_bytes b + sum_list (map (\<lambda>p. name_bytes (fst p)) stack) + literal_bytes x b \<le> kb"
        using assms(1) by (simp add: stack_fits_def)
      then show ?thesis using h [OF 2(2)] l [OF 2(2)] 2(1) by simp
    qed
  qed
  then show ?thesis using assms(1) nodes names by (fastforce simp: stack_fits_def)
qed

lemma check_binding_loop_node:
  assumes "stack_fits x ((b, depth) # stack) (Suc bu) kb" and "\<not> is_literal b"
  shows "check_binding_loop x ((b, depth) # stack) (Suc bu) kb
    = check_binding_loop x (push_all (children b) (depth + 1) stack) bu (kb - own_names b)"
proof -
  have depth: "depth \<le> MAX_BINDING_DEPTH" using assms(1) by (simp add: stack_fits_def)
  have "length (children b) + length stack \<le> bu"
  proof -
    have "length (map fst (push_all (children b) (depth + 1) stack)) \<le> bu"
      using stack_fits_node [OF assms] sum_list_pos_length [of "map fst (push_all (children b) (depth + 1) stack)"]
      by (simp add: stack_fits_def comp_def)
    then show ?thesis by (simp add: push_all_def)
  qed
  then have cap: "ensure_pending_capacity (length stack) (length (children b)) bu l = Ok ()" for l
    using assms(1) by (intro capacity_granted) (simp_all add: stack_fits_def)
  have "own_names b \<le> kb" using assms(1) name_bytes_eq [of b] by (simp add: stack_fits_def)
  then have keys: "key_bytes_charge fs kb = Ok (kb - own_names b)" if "b = Object fs" for fs
    using that key_bytes_charge_fits [of fs kb] by (simp add: own_names_def)
  show ?thesis
    using depth cap assms(2) keys
    by (cases b) (simp_all add: checked_sub_def own_names_def is_literal_def push_all_def)
qed

lemma check_binding_loop_fits: "stack_fits x stack bu kb \<Longrightarrow> is_ok (check_binding_loop x stack bu kb)"
proof (induction bu arbitrary: stack kb rule: less_induct)
  case (less bu)
  show ?case
  proof (cases stack)
    case Nil
    then show ?thesis by simp
  next
    case (Cons p rest)
    obtain b depth where p: "p = (b, depth)" by (cases p)
    have "0 < bu" using less.prems bnodes_pos [of b] by (auto simp: Cons p stack_fits_def)
    then obtain n where bu: "bu = Suc n" by (cases bu) auto
    note fits = less.prems [unfolded Cons p bu]
    show ?thesis
    proof (cases "is_literal b")
      case True
      then obtain v where b: "b = Literal v" by (auto simp: is_literal_def split: binding.splits)
      have "depth \<le> MAX_BINDING_DEPTH" using fits by (simp add: stack_fits_def)
      moreover have "Suc n - nodes v < bu" using nodes_pos [of v] bu by simp
      ultimately show ?thesis
        using stack_fits_literal [OF fits [unfolded b]] less.IH [of "Suc n - nodes v" rest kb]
        by (simp add: Cons p b bu checked_sub_def)
    next
      case False
      show ?thesis
        unfolding Cons p bu check_binding_loop_node [OF fits False]
        using stack_fits_node [OF fits False] less.IH [of n] bu by simp
    qed
  qed
qed

lemma preflight_fits:
  assumes "bnodes b \<le> 4096" and "bheight b \<le> 64"
    and "name_bytes b + literal_bytes x b \<le> min (output_bytes limits) MAX_OUTPUT_BYTES"
  shows "preflight_binding x b limits = Ok ()"
proof -
  have "stack_fits x [(b, 0)] MAX_BINDING_NODES (min (output_bytes limits) MAX_OUTPUT_BYTES)"
    using assms by (simp add: stack_fits_def MAX_BINDING_NODES_def MAX_BINDING_DEPTH_def usize_max_def)
  from check_binding_loop_fits [OF this] show ?thesis
    by (auto simp: preflight_binding_def check_binding_def is_ok_def split: outcome.splits)
qed

section \<open>Evaluation stays within what is read\<close>

text \<open>
  A computation that spends at most the given nodes and bytes of its two budgets and does what the
  denotation does.
\<close>

definition spends ::
    "('a \<times> nat \<times> nat, context_error) outcome \<Rightarrow> ('a, context_error) outcome \<Rightarrow> nat \<Rightarrow> nat \<Rightarrow> nat \<Rightarrow> nat \<Rightarrow> bool" where
  "spends m d bu by' cn cb \<longleftrightarrow>
     (case d of
        Ok v \<Rightarrow> \<exists>bu' by''. m = Ok (v, bu', by'') \<and> bu \<le> bu' + cn \<and> by' \<le> by'' + cb
      | Err e \<Rightarrow> m = Err e
      | Panic \<Rightarrow> m = Panic)"

lemma spends_simps [simp]:
  "spends m (Ok v) bu by' cn cb \<longleftrightarrow> (\<exists>bu' by''. m = Ok (v, bu', by'') \<and> bu \<le> bu' + cn \<and> by' \<le> by'' + cb)"
  "spends m (Err e) bu by' cn cb \<longleftrightarrow> m = Err e"
  "spends m Panic bu by' cn cb \<longleftrightarrow> m = Panic"
  by (simp_all add: spends_def)

lemma spends_bind:
  assumes "spends m d bu by' cn cb"
    and "\<And>v bu' by''. d = Ok v \<Longrightarrow> bu \<le> bu' + cn \<Longrightarrow> by' \<le> by'' + cb \<Longrightarrow> spends (f (v, bu', by'')) (g v) bu' by'' cn' cb'"
  shows "spends (bindr m f) (bindr d g) bu by' (cn + cn') (cb + cb')"
proof (cases d)
  case (Ok v)
  then obtain bu' by'' where m: "m = Ok (v, bu', by'')" "bu \<le> bu' + cn" "by' \<le> by'' + cb"
    using assms(1) by auto
  from assms(2) [OF Ok m(2,3)] have "spends (f (v, bu', by'')) (g v) bu' by'' cn' cb'" .
  then show ?thesis using m Ok by (cases "g v") auto
qed (use assms(1) in auto)

lemma spends_then:
  assumes "spends m d bu by' cn cb"
    and "\<And>v bu' by''. d = Ok v \<Longrightarrow> spends (f (v, bu', by'')) (g v) bu' by'' 0 0"
  shows "spends (bindr m f) (bindr d g) bu by' cn cb"
  using spends_bind [OF assms(1), of f g 0 0] assms(2) by simp

lemma spends_mono: "spends m d bu by' cn cb \<Longrightarrow> cn \<le> cn' \<Longrightarrow> cb \<le> cb' \<Longrightarrow> spends m d bu by' cn' cb'"
  by (cases d) fastforce+

lemma spends_charge:
  "nodes v \<le> bu \<Longrightarrow> serialized_len x v \<le> by' \<Longrightarrow> depth + height v \<le> MAX_JSON_DEPTH
    \<Longrightarrow> spends (charge_value x v bu by' depth) (Ok v) bu by' (nodes v) (serialized_len x v)"
proof -
  assume a: "nodes v \<le> bu" "serialized_len x v \<le> by'" "depth + height v \<le> MAX_JSON_DEPTH"
  then have "check_value v bu (MAX_JSON_DEPTH - depth) = Ok (bu - nodes v)" by (simp add: check_value_eq_Ok)
  then show ?thesis using a by (simp add: charge_value_def check_size_total)
qed

lemma spends_fields:
  assumes "\<And>p bu by'. p \<in> set fs \<Longrightarrow> rn (snd p) \<le> bu \<Longrightarrow> rb (snd p) \<le> by'
      \<Longrightarrow> spends (ev (snd p) bu by') (f (snd p)) bu by' (rn (snd p)) (rb (snd p))"
    and "sum_list (map (\<lambda>p. rn (snd p)) fs) \<le> bu" and "sum_list (map (\<lambda>p. rb (snd p)) fs) \<le> by'"
  shows "spends (eval_fields ev fs out bu by') (denote_fields f fs out) bu by'
      (sum_list (map (\<lambda>p. rn (snd p)) fs)) (sum_list (map (\<lambda>p. rb (snd p)) fs))"
  using assms
proof (induction fs arbitrary: out bu by')
  case (Cons p fs)
  have "spends (ev (snd p) bu by') (f (snd p)) bu by' (rn (snd p)) (rb (snd p))"
    using Cons.prems(2,3) by (intro Cons.prems(1)) simp_all
  then show ?case
    unfolding eval_fields.simps denote_fields.simps list.map sum_list.Cons
  proof (rule spends_bind)
    fix v bu' by'' assume "bu \<le> bu' + rn (snd p)" "by' \<le> by'' + rb (snd p)"
    then show "spends (case (v, bu', by'') of (v, budget', bytes') \<Rightarrow> eval_fields ev fs (bt_insert (fst p) v out) budget' bytes')
        (denote_fields f fs (bt_insert (fst p) v out)) bu' by'' (\<Sum>p\<leftarrow>fs. rn (snd p)) (\<Sum>p\<leftarrow>fs. rb (snd p))"
      using Cons.prems Cons.IH [of bu' by''] by simp
  qed
qed simp

lemma spends_items:
  assumes "\<And>i bu by'. i \<in> set is \<Longrightarrow> rn i \<le> bu \<Longrightarrow> rb i \<le> by' \<Longrightarrow> spends (ev i bu by') (f i) bu by' (rn i) (rb i)"
    and "sum_list (map rn is) \<le> bu" and "sum_list (map rb is) \<le> by'"
  shows "spends (eval_items ev is bu by') (denote_items f is) bu by' (sum_list (map rn is)) (sum_list (map rb is))"
  using assms
proof (induction "is" arbitrary: bu by')
  case (Cons i "is")
  have "spends (ev i bu by') (f i) bu by' (rn i) (rb i)"
    using Cons.prems(2,3) by (intro Cons.prems(1)) simp_all
  then show ?case
    unfolding eval_items.simps denote_items.simps list.map sum_list.Cons
  proof (rule spends_bind)
    fix v bu' by'' assume "bu \<le> bu' + rn i" "by' \<le> by'' + rb i"
    then have "spends (eval_items ev is bu' by'') (denote_items f is) bu' by'' (sum_list (map rn is)) (sum_list (map rb is))"
      using Cons.prems by (intro Cons.IH) simp_all
    then show "spends (case (v, bu', by'') of (v, budget', bytes') \<Rightarrow>
          bindr (eval_items ev is budget' bytes') (\<lambda>(vs, budget'', bytes''). Ok (v # vs, budget'', bytes'')))
        (bindr (denote_items f is) (\<lambda>vs. Ok (v # vs))) bu' by'' (sum_list (map rn is)) (sum_list (map rb is))"
      unfolding prod.case by (rule spends_then) simp
  qed
qed simp

lemma spends_boolean:
  assumes "\<And>i bu by'. i \<in> set is \<Longrightarrow> rn i \<le> bu \<Longrightarrow> rb i \<le> by' \<Longrightarrow> spends (ev i bu by') (f i) bu by' (rn i) (rb i)"
    and "sum_list (map rn is) \<le> bu" and "sum_list (map rb is) \<le> by'"
  shows "spends (eval_boolean ev is c bu by') (denote_boolean f is c) bu by' (sum_list (map rn is)) (sum_list (map rb is))"
  using assms
proof (induction "is" arbitrary: bu by')
  case (Cons i "is")
  have "spends (ev i bu by') (f i) bu by' (rn i) (rb i)"
    using Cons.prems(2,3) by (intro Cons.prems(1)) simp_all
  then show ?case
    unfolding eval_boolean.simps denote_boolean.simps list.map sum_list.Cons
  proof (rule spends_bind)
    fix v bu' by'' assume "bu \<le> bu' + rn i" "by' \<le> by'' + rb i"
    then have "spends (eval_boolean ev is c bu' by'') (denote_boolean f is c) bu' by'' (sum_list (map rn is)) (sum_list (map rb is))"
      using Cons.prems by (intro Cons.IH) simp_all
    then show "spends (case (v, bu', by'') of (v, budget', bytes') \<Rightarrow>
          (case v of VBool p \<Rightarrow> if p \<noteq> c then Ok (VBool (\<not> c), budget', bytes') else eval_boolean ev is c budget' bytes'
           | _ \<Rightarrow> Err (Operand ''boolean operator expects booleans'')))
        (case v of VBool p \<Rightarrow> if p \<noteq> c then Ok (VBool (\<not> c)) else denote_boolean f is c
           | _ \<Rightarrow> Err (Operand ''boolean operator expects booleans'')) bu' by'' (sum_list (map rn is)) (sum_list (map rb is))"
      by (cases v) auto
  qed
qed simp

lemma spends_concat:
  assumes "\<And>i bu by'. i \<in> set is \<Longrightarrow> rn i \<le> bu \<Longrightarrow> rb i \<le> by' \<Longrightarrow> spends (ev i bu by') (f i) bu by' (rn i) (rb i)"
    and "sum_list (map rn is) \<le> bu" and "\<forall>i \<in> set is. rb i \<le> by'"
    and "length s + sum_list (map (\<lambda>i. text_length (f i)) is) \<le> by'" and "value_bytes x (denote_concat f is s) \<le> by'"
  shows "spends (eval_concat x ev is s bu by') (denote_concat f is s) bu by' (sum_list (map rn is))
      (value_bytes x (denote_concat f is s))"
  using assms
proof (induction "is" arbitrary: s bu)
  case Nil
  then show ?case by (simp add: check_size_total value_bytes_def)
next
  case (Cons i "is")
  have i: "spends (ev i bu by') (f i) bu by' (rn i) (rb i)"
    using Cons.prems(2,3) by (intro Cons.prems(1)) simp_all
  show ?case
  proof (cases "\<exists>part. f i = Ok (VString part)")
    case True
    then obtain part bu' by'' where f: "f i = Ok (VString part)"
      and e: "ev i bu by' = Ok (VString part, bu', by'')" "bu \<le> bu' + rn i"
      using i by auto
    have "length s + length part \<le> by'" using Cons.prems(4) f by (simp add: text_length_def)
    then have small: "\<not> by' < saturating_add (length s) (length part)"
      by (simp add: saturating_add_def)
    have "spends (eval_concat x ev is (s @ part) bu' by') (denote_concat f is (s @ part)) bu' by' (sum_list (map rn is))
        (value_bytes x (denote_concat f is (s @ part)))"
      using Cons.prems e(2) f by (intro Cons.IH) (simp_all add: text_length_def)
    then show ?thesis
      using e f small by (cases "denote_concat f is (s @ part)") fastforce+
  next
    case False
    then show ?thesis using i by (cases "f i") (auto split: json.splits)
  qed
qed

lemma read_simps:
  "read_nodes x ctx (Literal v) = nodes v" "read_bytes x ctx (Literal v) = serialized_len x v"
  "read_height x ctx (Literal v) = height v"
  "reference x r ctx = Ok v \<Longrightarrow> read_nodes x ctx (Reference r) = nodes v"
  "reference x r ctx = Ok v \<Longrightarrow> read_bytes x ctx (Reference r) = serialized_len x v"
  "reference x r ctx = Ok v \<Longrightarrow> read_height x ctx (Reference r) = height v"
  "reference x r ctx = Ok v \<Longrightarrow> read_nodes x ctx (Default r b) = nodes v"
  "reference x r ctx = Ok v \<Longrightarrow> read_bytes x ctx (Default r b) = serialized_len x v"
  "reference x r ctx = Ok v \<Longrightarrow> read_height x ctx (Default r b) = height v"
  "reference x r ctx = Err e \<Longrightarrow> read_nodes x ctx (Default r b) = read_nodes x ctx b"
  "reference x r ctx = Err e \<Longrightarrow> read_bytes x ctx (Default r b) = read_bytes x ctx b"
  "reference x r ctx = Err e \<Longrightarrow> read_height x ctx (Default r b) = Suc (read_height x ctx b)"
  by (subst read_nodes.simps read_bytes.simps read_height.simps; simp add: value_bytes_def)+

definition reads_leaf :: "'n binding \<Rightarrow> bool" where
  "reads_leaf b \<longleftrightarrow> (case b of Literal _ \<Rightarrow> True | Reference _ \<Rightarrow> True | Default _ _ \<Rightarrow> True | _ \<Rightarrow> False)"

lemma read_node_simps:
  "\<not> reads_leaf b \<Longrightarrow> read_nodes x ctx b = sum_list (map (read_nodes x ctx) (children b))"
  "\<not> reads_leaf b \<Longrightarrow> \<forall>is. b \<noteq> Concat is \<Longrightarrow> read_bytes x ctx b = sum_list (map (read_bytes x ctx) (children b))"
  "\<not> reads_leaf b \<Longrightarrow> c \<in> set (children b) \<Longrightarrow> Suc (read_height x ctx c) \<le> read_height x ctx b"
proof -
  show "\<not> reads_leaf b \<Longrightarrow> read_nodes x ctx b = sum_list (map (read_nodes x ctx) (children b))"
    by (subst read_nodes.simps) (cases b; simp add: reads_leaf_def)
  show "\<not> reads_leaf b \<Longrightarrow> \<forall>is. b \<noteq> Concat is \<Longrightarrow> read_bytes x ctx b = sum_list (map (read_bytes x ctx) (children b))"
    by (subst read_bytes.simps) (cases b; simp add: reads_leaf_def)
  assume b: "\<not> reads_leaf b" and c: "c \<in> set (children b)"
  have "read_height x ctx b = fold max (map (\<lambda>c. Suc (read_height x ctx c)) (children b)) 0"
    using b by (subst read_height.simps) (cases b; simp add: reads_leaf_def)
  then show "Suc (read_height x ctx c) \<le> read_height x ctx b"
    using c fold_max_le [of "map (\<lambda>c. Suc (read_height x ctx c)) (children b)" 0 "read_height x ctx b"] by auto
qed

lemma bheight_child: "\<not> is_literal b \<Longrightarrow> c \<in> set (children b) \<Longrightarrow> Suc (bheight c) \<le> bheight b"
  using bheight_simps(2) [of b "bheight b"] by blast

lemma read_concat:
  "i \<in> set bs \<Longrightarrow> read_bytes x ctx i \<le> read_bytes x ctx (Concat bs)"
  "sum_list (map (\<lambda>i. text_length (denote x ctx i)) bs) \<le> read_bytes x ctx (Concat bs)"
  "value_bytes x (denote_concat (denote x ctx) bs []) \<le> read_bytes x ctx (Concat bs)"
proof -
  let ?n = "read_bytes x ctx (Concat bs)"
  have "fold max (map (read_bytes x ctx) bs) (max (sum_list (map (\<lambda>i. text_length (denote x ctx i)) bs))
      (value_bytes x (denote x ctx (Concat bs)))) \<le> ?n"
    by (simp add: read_bytes.simps [of x ctx "Concat bs"])
  then show "i \<in> set bs \<Longrightarrow> read_bytes x ctx i \<le> ?n"
    "sum_list (map (\<lambda>i. text_length (denote x ctx i)) bs) \<le> ?n"
    "value_bytes x (denote_concat (denote x ctx) bs []) \<le> ?n"
    by (auto simp: fold_max_le)
qed

text \<open>Within the budgets, and no deeper than the limit, evaluation is the denotation.\<close>

definition room :: "('n, 'd::linorder) externals \<Rightarrow> 'n run_context \<Rightarrow> nat \<Rightarrow> 'n binding \<Rightarrow> nat \<Rightarrow> nat \<Rightarrow> bool" where
  "room x ctx depth b bu by' \<longleftrightarrow> depth + bheight b \<le> MAX_BINDING_DEPTH \<and> depth + read_height x ctx b \<le> MAX_JSON_DEPTH
     \<and> read_nodes x ctx b \<le> bu \<and> read_bytes x ctx b \<le> by'"

lemma room_child:
  assumes "room x ctx depth b bu by'" and "\<not> reads_leaf b" and "c \<in> set (children b)"
    and "read_nodes x ctx c \<le> bu'" and "read_bytes x ctx c \<le> by''"
  shows "room x ctx (depth + 1) c bu' by''"
proof -
  have "\<not> is_literal b" using assms(2) by (auto simp: reads_leaf_def is_literal_def split: binding.splits)
  from bheight_child [OF this assms(3)] read_node_simps(3) [OF assms(2,3), of x ctx] show ?thesis
    using assms by (simp add: room_def)
qed

lemma spends_at_depth: "room x ctx depth b bu by' \<Longrightarrow> spends m d bu by' cn cb \<Longrightarrow> spends (at_depth depth m) d bu by' cn cb"
  by (simp add: at_depth_def room_def)

lemma spends_value:
  "room x ctx depth b bu by' \<Longrightarrow> nodes v \<le> read_nodes x ctx b \<Longrightarrow> serialized_len x v \<le> read_bytes x ctx b
    \<Longrightarrow> height v \<le> read_height x ctx b
    \<Longrightarrow> spends (charge_value x v bu by' depth) (Ok v) bu by' (read_nodes x ctx b) (read_bytes x ctx b)"
  by (rule spends_mono [OF spends_charge]) (auto simp: room_def)

lemma spends_same: "spends (bindr m (\<lambda>r. Ok (h r, bu, by'))) (bindr m (\<lambda>r. Ok (h r))) bu by' 0 0"
  by (cases m) simp_all

lemma spends_two:
  assumes room: "room x ctx depth b bu by'" and leaf: "\<not> reads_leaf b" "\<forall>is. b \<noteq> Concat is" and kids: "children b = [l, r]"
    and ihl: "\<And>bu by'. room x ctx (depth + 1) l bu by' \<Longrightarrow>
      spends (evaluate x ctx (depth + 1) l bu by') (denote x ctx l) bu by' (read_nodes x ctx l) (read_bytes x ctx l)"
    and ihr: "\<And>a bu by'. denote x ctx l = Ok a \<Longrightarrow> room x ctx (depth + 1) r bu by' \<Longrightarrow>
      spends (evaluate x ctx (depth + 1) r bu by') (denote x ctx r) bu by' (read_nodes x ctx r) (read_bytes x ctx r)"
    and last: "\<And>left right bu' by'. spends (f left right bu' by') (g left right) bu' by' 0 0"
  shows "spends (bindr (evaluate x ctx (depth + 1) l bu by') (\<lambda>(left, bu', by').
        bindr (evaluate x ctx (depth + 1) r bu' by') (\<lambda>(right, bu', by'). f left right bu' by')))
      (bindr (denote x ctx l) (\<lambda>left. bindr (denote x ctx r) (\<lambda>right. g left right))) bu by'
      (read_nodes x ctx b) (read_bytes x ctx b)"
proof -
  have sums: "read_nodes x ctx b = read_nodes x ctx l + read_nodes x ctx r"
    "read_bytes x ctx b = read_bytes x ctx l + read_bytes x ctx r"
    using read_node_simps(1,2) [OF leaf(1)] leaf(2) kids by simp_all
  have l: "room x ctx (depth + 1) l bu by'"
    using room sums kids by (intro room_child [OF room leaf(1)]) (simp_all add: room_def)
  have r: "room x ctx (depth + 1) r bu' by''"
    if "bu \<le> bu' + read_nodes x ctx l" "by' \<le> by'' + read_bytes x ctx l" for bu' by''
    using room sums kids that by (intro room_child [OF room leaf(1)]) (simp_all add: room_def)
  show ?thesis
    unfolding sums
  proof (rule spends_bind [OF ihl [OF l]])
    fix left bu' by'' assume a: "denote x ctx l = Ok left"
      and *: "bu \<le> bu' + read_nodes x ctx l" "by' \<le> by'' + read_bytes x ctx l"
    show "spends (case (left, bu', by'') of (left, bu', by') \<Rightarrow>
          bindr (evaluate x ctx (depth + 1) r bu' by') (\<lambda>(right, bu', by'). f left right bu' by'))
        (bindr (denote x ctx r) (\<lambda>right. g left right)) bu' by'' (read_nodes x ctx r) (read_bytes x ctx r)"
      unfolding prod.case by (rule spends_then [OF ihr [OF a r [OF *]]]) (simp add: last)
  qed
qed

lemma evaluate_spends:
  "room x ctx depth b bu by'
    \<Longrightarrow> spends (evaluate x ctx depth b bu by') (denote x ctx b) bu by' (read_nodes x ctx b) (read_bytes x ctx b)"
proof (induction x ctx b arbitrary: depth bu by' rule: denote.induct)
  case (1 x ctx v)
  then show ?case
    unfolding evaluate.simps denote.simps
    by (intro spends_at_depth [OF 1] spends_value [OF 1]) (simp_all add: read_simps)
next
  case (2 x ctx r)
  show ?case
    unfolding evaluate.simps denote.simps
  proof (rule spends_at_depth [OF 2], cases "reference x r ctx")
    case (Ok v)
    then show "spends (bindr (reference x r ctx) (\<lambda>v. charge_value x v bu by' depth)) (reference x r ctx) bu by'
        (read_nodes x ctx (Reference r)) (read_bytes x ctx (Reference r))"
      using spends_value [OF 2, of v] by (simp add: read_simps)
  qed simp_all
next
  case (3 x ctx r fallback)
  show ?case
    unfolding evaluate.simps denote.simps
  proof (rule spends_at_depth [OF 3(2)], cases "reference x r ctx")
    case (Ok v)
    then show "spends (case reference x r ctx of Ok v \<Rightarrow> charge_value x v bu by' depth
          | Err (Missing u) \<Rightarrow> evaluate x ctx (depth + 1) fallback bu by' | Err e \<Rightarrow> Err e | Panic \<Rightarrow> Panic)
        (case reference x r ctx of Err (Missing u) \<Rightarrow> denote x ctx fallback | m \<Rightarrow> m) bu by'
        (read_nodes x ctx (Default r fallback)) (read_bytes x ctx (Default r fallback))"
      using spends_value [OF 3(2), of v] by (simp add: read_simps)
  next
    case (Err e)
    have "\<not> is_literal (Default r fallback)" by (simp add: is_literal_def)
    then have "room x ctx (depth + 1) fallback bu by'"
      using 3(2) Err bheight_child [of "Default r fallback" fallback] by (simp add: room_def read_simps)
    then show "spends (case reference x r ctx of Ok v \<Rightarrow> charge_value x v bu by' depth
          | Err (Missing u) \<Rightarrow> evaluate x ctx (depth + 1) fallback bu by' | Err e \<Rightarrow> Err e | Panic \<Rightarrow> Panic)
        (case reference x r ctx of Err (Missing u) \<Rightarrow> denote x ctx fallback | m \<Rightarrow> m) bu by'
        (read_nodes x ctx (Default r fallback)) (read_bytes x ctx (Default r fallback))"
      using 3(1) Err by (cases e) (simp_all add: read_simps)
  qed simp
next
  case (4 x ctx fs)
  let ?b = "Object fs"
  have leaf: "\<not> reads_leaf ?b" "\<forall>is. ?b \<noteq> Concat is" by (simp_all add: reads_leaf_def)
  have sums: "read_nodes x ctx ?b = sum_list (map (\<lambda>p. read_nodes x ctx (snd p)) fs)"
    "read_bytes x ctx ?b = sum_list (map (\<lambda>p. read_bytes x ctx (snd p)) fs)"
    using read_node_simps(1,2) [OF leaf(1)] leaf(2) by (simp_all add: comp_def)
  have ih: "spends (evaluate x ctx (depth + 1) (snd p) bu' by'') (denote x ctx (snd p)) bu' by''
      (read_nodes x ctx (snd p)) (read_bytes x ctx (snd p))"
    if "p \<in> set fs" "read_nodes x ctx (snd p) \<le> bu'" "read_bytes x ctx (snd p) \<le> by''" for p bu' by''
    using 4(1) [OF that(1) room_child [OF 4(2) leaf(1) _ that(2,3)]] that(1) by simp
  show ?case
    unfolding evaluate.simps denote.simps sums
    by (intro spends_at_depth [OF 4(2)] spends_then spends_fields ih)
      (use 4(2) sums in \<open>simp_all add: room_def\<close>)
next
  case (5 x ctx items)
  let ?b = "Array items"
  have leaf: "\<not> reads_leaf ?b" "\<forall>is. ?b \<noteq> Concat is" by (simp_all add: reads_leaf_def)
  note sums = read_node_simps(1,2) [OF leaf(1), unfolded children.simps, of x ctx] leaf(2)
  show ?case
    unfolding evaluate.simps denote.simps sums(1) sums(2) [OF leaf(2)]
    by (intro spends_at_depth [OF 5(2)] spends_then spends_items 5(1) room_child [OF 5(2) leaf(1)])
      (use 5(2) sums in \<open>simp_all add: room_def\<close>)
next
  case (6 x ctx r)
  show ?case
    unfolding evaluate.simps denote.simps
    by (rule spends_at_depth [OF 6]) (auto split: outcome.splits context_error.splits)
next
  case (7 x ctx items)
  let ?b = "Concat items"
  have leaf: "\<not> reads_leaf ?b" by (simp add: reads_leaf_def)
  note sums = read_node_simps(1) [OF leaf, unfolded children.simps, of x ctx]
  have r: "read_nodes x ctx ?b \<le> bu" "read_bytes x ctx ?b \<le> by'" using 7(2) by (simp_all add: room_def)
  have "spends (eval_concat x (evaluate x ctx (depth + 1)) items [] bu by') (denote_concat (denote x ctx) items []) bu by'
      (sum_list (map (read_nodes x ctx) items)) (value_bytes x (denote_concat (denote x ctx) items []))"
    by (intro spends_concat [where rb = "read_bytes x ctx"] 7(1) room_child [OF 7(2) leaf])
      (use r sums read_concat [where bs = items and x = x and ctx = ctx] in \<open>auto intro: order_trans\<close>)
  then show ?case
    unfolding evaluate.simps denote.simps sums
    by (intro spends_at_depth [OF 7(2)]) (rule spends_mono [OF _ order_refl read_concat(3)])
next
  case (10 x ctx items)
  let ?b = "And items"
  have leaf: "\<not> reads_leaf ?b" "\<forall>is. ?b \<noteq> Concat is" by (simp_all add: reads_leaf_def)
  note sums = read_node_simps(1,2) [OF leaf(1), unfolded children.simps, of x ctx] leaf(2)
  show ?case
    unfolding evaluate.simps denote.simps sums(1) sums(2) [OF leaf(2)]
    by (intro spends_at_depth [OF 10(2)] spends_boolean 10(1) room_child [OF 10(2) leaf(1)])
      (use 10(2) sums in \<open>simp_all add: room_def\<close>)
next
  case (11 x ctx items)
  let ?b = "Or items"
  have leaf: "\<not> reads_leaf ?b" "\<forall>is. ?b \<noteq> Concat is" by (simp_all add: reads_leaf_def)
  note sums = read_node_simps(1,2) [OF leaf(1), unfolded children.simps, of x ctx] leaf(2)
  show ?case
    unfolding evaluate.simps denote.simps sums(1) sums(2) [OF leaf(2)]
    by (intro spends_at_depth [OF 11(2)] spends_boolean 11(1) room_child [OF 11(2) leaf(1)])
      (use 11(2) sums in \<open>simp_all add: room_def\<close>)
next
  case (12 x ctx item)
  let ?b = "Not item"
  have leaf: "\<not> reads_leaf ?b" "\<forall>is. ?b \<noteq> Concat is" by (simp_all add: reads_leaf_def)
  note sums = read_node_simps(1,2) [OF leaf(1), unfolded children.simps, of x ctx] leaf(2)
  have "room x ctx (depth + 1) item bu by'"
    using 12(2) sums by (intro room_child [OF 12(2) leaf(1)]) (simp_all add: room_def)
  from 12(1) [OF this] show ?case
    unfolding evaluate.simps denote.simps sums(1) sums(2) [OF leaf(2)] eval_not_def
    by (intro spends_at_depth [OF 12(2)] spends_then) (auto split: json.splits)
next
  case (8 x ctx op l r)
  show ?case
    unfolding evaluate.simps denote.simps eval_compare_def
    by (intro spends_at_depth [OF 8(3)] spends_two [OF 8(3) _ _ _ 8(1,2)] spends_same) (simp_all add: reads_leaf_def)
next
  case (9 x ctx v items)
  show ?case
    unfolding evaluate.simps denote.simps eval_membership_def
    by (intro spends_at_depth [OF 9(3)] spends_two [OF 9(3) _ _ _ 9(1,2)])
      (auto simp: reads_leaf_def list_ex_iff split: json.splits)
qed

lemma resolve_fits:
  assumes "fits_limits x ctx limits b"
  shows "resolve x b ctx limits = denote x ctx b"
proof -
  let ?bytes = "min (output_bytes limits) MAX_OUTPUT_BYTES" and ?work = "min (work_nodes limits) MAX_WORK_NODES"
  have fits: "bnodes b \<le> 4096" "bheight b \<le> 64" "name_bytes b + literal_bytes x b \<le> ?bytes"
    "read_height x ctx b \<le> 64" "read_bytes x ctx b \<le> ?bytes" "read_nodes x ctx b \<le> ?work"
    and result: "\<And>v. denote x ctx b = Ok v \<Longrightarrow>
      read_nodes x ctx b + nodes v \<le> ?work \<and> height v \<le> 64 \<and> serialized_len x v \<le> ?bytes"
    using assms by (auto simp: fits_limits_def Let_def MAX_OUTPUT_BYTES_def MAX_WORK_NODES_def split: outcome.splits)
  have "room x ctx 0 b ?work ?bytes"
    using fits by (simp add: room_def MAX_BINDING_DEPTH_def MAX_JSON_DEPTH_def)
  note sp = evaluate_spends [OF this]
  show ?thesis
  proof (cases "denote x ctx b")
    case (Ok v)
    then obtain bu by' where e: "evaluate x ctx 0 b ?work ?bytes = Ok (v, bu, by')" "?work \<le> bu + read_nodes x ctx b"
      using sp by auto
    have "nodes v \<le> bu" using result [OF Ok] e(2) by linarith
    then have "check_value v bu MAX_JSON_DEPTH = Ok (bu - nodes v)"
      using result [OF Ok] by (simp add: check_value_eq_Ok MAX_JSON_DEPTH_def)
    then show ?thesis
      using preflight_fits [OF fits(1-3)] e(1) result [OF Ok] by (simp add: resolve_def Let_def Ok check_size_total)
  qed (use sp preflight_fits [OF fits(1-3)] in \<open>simp_all add: resolve_def Let_def\<close>)
qed

section \<open>Properties\<close>

text \<open>
  C8. Resolution refines the reference semantics. On a binding whose references were
  parsed, \<open>resolve\<close> never panics; a value it returns is the denotation of the binding and
  fits the three limits (depth, serialized bytes, and the preflight's node and depth
  limits on the binding itself); an error it returns is the error of the denotation, or a
  limit error for a binding that does not fit the limits. A binding that fits them (its own nodes,
  depth, names and literals, what it reads, and its value, measured without running the
  evaluator) resolves to exactly its denotation.
\<close>

theorem resolve_refines_denotation:
  assumes "safe_binding b"
  shows "(case resolve x b ctx limits of
      Ok v \<Rightarrow> denote x ctx b = Ok v \<and> height v \<le> 64
        \<and> serialized_len x v \<le> min (output_bytes limits) 1048576
        \<and> bnodes b \<le> 4096 \<and> bheight b \<le> 64
    | Err e \<Rightarrow> denote x ctx b = Err e \<or> (\<exists>l. e = Limit l) \<and> \<not> fits_limits x ctx limits b
    | Panic \<Rightarrow> False)
    \<and> (fits_limits x ctx limits b \<longrightarrow> resolve x b ctx limits = denote x ctx b)"
proof (cases "resolve x b ctx limits")
  case (Ok v)
  then obtain n k where "check_binding x b MAX_BINDING_NODES
      (min (output_bytes limits) MAX_OUTPUT_BYTES) = Ok (n, k)"
    using resolve_Ok(4) [OF Ok] by (auto simp: preflight_binding_def)
  from check_binding_bounds [OF this] show ?thesis
    using resolve_Ok [OF Ok]
    by (simp add: Ok MAX_JSON_DEPTH_def MAX_OUTPUT_BYTES_def MAX_BINDING_NODES_def MAX_BINDING_DEPTH_def)
next
  case (Err e)
  then show ?thesis using resolve_Err [OF Err] resolve_fits [of x ctx limits b] by auto
qed (use resolve_no_panic [OF assms, of x ctx limits] in simp)

theorem resolve_refines_denotation_witness:
  "fits_limits sample_externals sample_context sample_limits sample_binding
    \<and> resolve sample_externals sample_binding sample_context sample_limits = Ok (VBool True)"
proof -
  have len: "serialized_len sample_externals (VNumber n) = 4" "serialized_len sample_externals (VBool p) = 4" for n p
    by (simp_all add: serialized_len_def sample_externals_def)
  have denote: "denote sample_externals sample_context sample_binding = Ok (VBool True)"
    using resolve_refines_denotation [OF sample_safe, where x = sample_externals and ctx = sample_context and limits = sample_limits]
    by (simp add: sample_resolves)
  let ?l = "Reference sample_reference :: int binding" and ?r = "Literal (VNumber 2) :: int binding"
  have node: "\<not> is_literal sample_binding" "\<not> reads_leaf sample_binding" "\<forall>is. sample_binding \<noteq> Concat is"
    "children sample_binding = [?l, ?r]" "\<not> is_literal ?l"
    by (simp_all add: sample_binding_def is_literal_def reads_leaf_def)
  have "bnodes sample_binding = 3" "bheight sample_binding \<le> 64"
    using node by (simp_all add: bnodes_simps bheight_simps bheight_simps(2) [of ?l])
  moreover have "name_bytes sample_binding + literal_bytes sample_externals sample_binding \<le> 100"
  proof -
    have "name_bytes sample_binding = 0"
      by (simp add: sample_binding_def name_bytes_eq own_names_def)
    moreover have "literal_bytes sample_externals sample_binding \<le> 100"
      using node by (simp add: literal_bytes_simps literal_bytes_simps(2) [of ?l] len)
    ultimately show ?thesis by simp
  qed
  moreover have "read_nodes sample_externals sample_context sample_binding = 2"
    "read_bytes sample_externals sample_context sample_binding = 8"
    using node by (simp_all add: read_node_simps(1,2) read_simps sample_reads len)
  moreover have "read_height sample_externals sample_context sample_binding \<le> 64"
    by (simp add: sample_binding_def read_height.simps [of _ _ "Compare Ge ?l ?r"] read_simps sample_reads)
  ultimately have "fits_limits sample_externals sample_context sample_limits sample_binding"
    unfolding fits_limits_def denote by (simp add: sample_limits_def len)
  then show ?thesis
    using resolve_refines_denotation [OF sample_safe, where x = sample_externals and ctx = sample_context and limits = sample_limits]
    by (simp add: denote)
qed

end
