(* ===== verification/Graph.thy ===== *)
theory Graph
  imports Bindings Budget
begin

text \<open>
  Workflow definitions and their structural validation:
  \<open>src/src/domain/workflow/definition.rs\<close>, \<open>graph.rs\<close> and \<open>transition.rs\<close>. The
  loops of \<open>validate_acyclic\<close> and \<open>validate_reachable\<close> are recursive functions with
  their termination proofs; every \<open>expect\<close>, index and subtraction of the Rust code is a
  branch to \<open>Panic\<close>.
\<close>

section \<open>Model\<close>

subsection \<open>Definitions\<close>

datatype transition_target = Step step_id | End

datatype routes =
    Routes_Success transition_target
  | Routes_Choices "(choice_name \<times> transition_target) list"

record resource_requirement =
  slot :: resource_name
  slot_kind :: type_name
  slot_contract :: "type_name option"

definition MAX_EXECUTION_STEPS :: "32 word" where
  "MAX_EXECUTION_STEPS = 100000"

record execution_limits =
  root_budget :: root_budget_limits
  max_steps :: "32 word"
  max_context_bytes :: nat

record 'n step_definition =
  step_type :: type_name
  step_inputs :: "(string, 'n binding) btree_map"
  step_routes :: routes
  final_error :: "transition_target option"

record 'n workflow_definition =
  format_version :: "32 word"
  workflow_id :: uuid
  version_id :: uuid
  input_schema :: "'n json option"
  parameter_schema :: "'n json option"
  output_schema :: "'n json option"
  resources :: "resource_requirement list"
  wf_entry :: step_id
  wf_steps :: "(step_id, 'n step_definition) btree_map"
  wf_limits :: execution_limits

subsection \<open>Validation\<close>

definition MAX_GRAPH_NODES :: nat where
  "MAX_GRAPH_NODES = 1024"

definition MAX_GRAPH_EDGES :: nat where
  "MAX_GRAPH_EDGES = 8192"

datatype graph_error =
    Empty
  | TooManySteps nat nat
  | TooManyRoutes nat
  | InvalidExecutionLimit string nat nat
  | MissingEntry step_id
  | MissingTarget step_id string step_id
  | DuplicateChoice step_id choice_name
  | EmptyChoices step_id
  | Cycle step_id
  | Unreachable step_id

text \<open>\<open>ValidatedWorkflow\<close> has a private field: only \<open>validate\<close> builds one.\<close>

datatype 'n validated_workflow = ValidatedWorkflow (definition_of: "'n workflow_definition")

definition workflow_context_limits :: "'n validated_workflow \<Rightarrow> context_limits" where
  "workflow_context_limits w =
     \<lparr>output_bytes = max_context_bytes (wf_limits (definition_of w)), work_nodes = MAX_WORK_NODES\<rparr>"

definition validate_limits :: "'n workflow_definition \<Rightarrow> (unit, graph_error) outcome" where
  "validate_limits d =
     (let n = max_steps (wf_limits d); bytes = max_context_bytes (wf_limits d) in
      if n = 0 \<or> n > MAX_EXECUTION_STEPS
      then Err (InvalidExecutionLimit ''max_steps'' (unat n) (unat MAX_EXECUTION_STEPS))
      else if bytes = 0 \<or> bytes > MAX_OUTPUT_BYTES
      then Err (InvalidExecutionLimit ''max_context_bytes'' bytes MAX_OUTPUT_BYTES)
      else Ok ())"

definition preflight_step ::
    "step_id \<times> 'n step_definition \<Rightarrow> nat \<Rightarrow> (nat, graph_error) outcome" where
  "preflight_step p so_far =
     bindr (case step_routes (snd p) of
         Routes_Success _ \<Rightarrow> Ok 1
       | Routes_Choices choices \<Rightarrow>
           if choices = [] then Err (EmptyChoices (fst p)) else Ok (length choices)) (\<lambda>count.
     let so_far' = saturating_add (saturating_add so_far count)
           (if final_error (snd p) \<noteq> None then 1 else 0)
     in if so_far' > MAX_GRAPH_EDGES then Err (TooManyRoutes MAX_GRAPH_EDGES) else Ok so_far')"

definition preflight_routes :: "'n workflow_definition \<Rightarrow> (unit, graph_error) outcome" where
  "preflight_routes d = bindr (for_each preflight_step (wf_steps d) 0) (\<lambda>_. Ok ())"

definition routes_of :: "'n step_definition \<Rightarrow> (string \<times> transition_target) list" where
  "routes_of step =
     (let result = (case step_routes step of
          Routes_Success target \<Rightarrow> [(''success'', target)]
        | Routes_Choices choices \<Rightarrow> choices);
        result' = result @ (case final_error step of None \<Rightarrow> [] | Some target \<Rightarrow> [(''final_error'', target)])
      in sort_key fst result')"

type_synonym adjacency = "(step_id, step_id btree_set) btree_map"
type_synonym indegree = "(step_id, nat) btree_map"

text \<open>\<open>get_mut\<close> followed by an assignment through the reference.\<close>

primrec bt_set :: "'k \<Rightarrow> 'v \<Rightarrow> ('k, 'v) btree_map \<Rightarrow> ('k, 'v) btree_map" where
  "bt_set k v [] = []"
| "bt_set k v (e # m) = (if fst e = k then (k, v) # m else e # bt_set k v m)"

definition decrement ::
    "step_id \<Rightarrow> step_id btree_set \<times> indegree \<Rightarrow> (step_id btree_set \<times> indegree, graph_error) outcome" where
  "decrement target s =
     bindr (expect (bt_get (snd s) target)) (\<lambda>degree.
     bindr (expect (checked_sub degree 1)) (\<lambda>degree'.
     Ok (if degree' = 0 then bs_insert target (fst s) else fst s, bt_set target degree' (snd s))))"

lemma sum_bt_set:
  "bt_get m k = Some d \<Longrightarrow> sum_list (map snd (bt_set k v m)) + d = sum_list (map snd m) + (v :: nat)"
  by (induction m) (auto simp: bt_get_def split: if_splits)

lemma length_bs_insert: "length (bs_insert x s) \<le> Suc (length s)"
  by (simp add: bs_insert_def)

lemma decrement_decreases:
  assumes "decrement t s = Ok s'"
  shows "length (fst s') + sum_list (map snd (snd s')) \<le> length (fst s) + sum_list (map snd (snd s))"
proof -
  obtain d where d: "bt_get (snd s) t = Some d" "1 \<le> d"
    and s': "s' = (if d - 1 = 0 then bs_insert t (fst s) else fst s, bt_set t (d - 1) (snd s))"
    using assms by (auto simp: decrement_def)
  have "sum_list (map snd (bt_set t (d - 1) (snd s))) + 1 = sum_list (map snd (snd s))"
    using sum_bt_set [OF d(1), of "d - 1"] d(2) by simp
  then show ?thesis
    using length_bs_insert [of t "fst s"] d(2) by (cases "d = 1") (auto simp: s')
qed

lemma decrements_decrease:
  assumes "for_each decrement ts s = Ok s'"
  shows "length (fst s') + sum_list (map snd (snd s')) \<le> length (fst s) + sum_list (map snd (snd s))"
  using assms
proof (induction ts arbitrary: s)
  case (Cons t ts)
  then show ?case by (auto dest!: Cons.IH decrement_decreases)
qed simp

function acyclic_loop ::
    "adjacency \<Rightarrow> step_id btree_set \<Rightarrow> indegree \<Rightarrow> nat \<Rightarrow> (indegree \<times> nat, graph_error) outcome" where
  "acyclic_loop adjacency [] indegree visited = Ok (indegree, visited)"
| "acyclic_loop adjacency (i # zero) indegree visited =
     bindr (expect (bt_get adjacency i)) (\<lambda>targets.
     bindr (for_each decrement targets (zero, indegree)) (\<lambda>s.
     acyclic_loop adjacency (fst s) (snd s) (visited + 1)))"
  by pat_completeness auto
termination
  by (relation "measure (\<lambda>(adjacency, zero, indegree, visited). length zero + sum_list (map snd indegree))")
    (auto dest: decrements_decrease)

definition validate_acyclic :: "adjacency \<Rightarrow> indegree \<Rightarrow> (unit, graph_error) outcome" where
  "validate_acyclic adjacency indegree =
     (let zero = map fst (filter (\<lambda>e. snd e = 0) indegree) in
      bindr (acyclic_loop adjacency zero indegree 0) (\<lambda>(indegree', visited).
      if visited \<noteq> length adjacency
      then bindr (expect (find (\<lambda>e. snd e > 0) indegree')) (\<lambda>e. Err (Cycle (fst e)))
      else Ok ()))"

function reachable_loop ::
    "adjacency \<Rightarrow> step_id list \<Rightarrow> step_id btree_set \<Rightarrow> (step_id btree_set, graph_error) outcome" where
  "reachable_loop adjacency [] reachable = Ok reachable"
| "reachable_loop adjacency (i # queue) reachable =
     (if i \<in> set reachable then reachable_loop adjacency queue reachable
      else bindr (expect (bt_get adjacency i)) (\<lambda>targets.
           reachable_loop adjacency (queue @ targets) (bs_insert i reachable)))"
  by pat_completeness auto
termination
proof (relation "measures [\<lambda>(a, q, r). card (set (bt_keys a) - set r), \<lambda>(a, q, r). length q]", goal_cases)
  case (3 a i q r ts)
  then have "i \<in> set (bt_keys a)" by (auto simp: bt_keys_dom)
  with 3 have "card (set (bt_keys a) - insert i (set r)) < card (set (bt_keys a) - set r)"
    by (intro psubset_card_mono) auto
  then show ?case by simp
qed auto

definition validate_reachable :: "'n workflow_definition \<Rightarrow> adjacency \<Rightarrow> (unit, graph_error) outcome" where
  "validate_reachable d adjacency =
     bindr (reachable_loop adjacency [wf_entry d] []) (\<lambda>reachable.
     (case find (\<lambda>i. i \<notin> set reachable) (bt_keys (wf_steps d)) of
        Some i \<Rightarrow> Err (Unreachable i)
      | None \<Rightarrow> Ok ()))"

definition check_choice ::
    "step_id \<Rightarrow> choice_name \<times> transition_target \<Rightarrow> choice_name btree_set
      \<Rightarrow> (choice_name btree_set, graph_error) outcome" where
  "check_choice i p seen =
     (if fst p \<in> set seen then Err (DuplicateChoice i (fst p)) else Ok (bs_insert (fst p) seen))"

definition add_route ::
    "'n workflow_definition \<Rightarrow> step_id \<Rightarrow> string \<times> transition_target
      \<Rightarrow> adjacency \<times> indegree \<Rightarrow> (adjacency \<times> indegree, graph_error) outcome" where
  "add_route d i p s =
     (case snd p of
        End \<Rightarrow> Ok s
      | Step target \<Rightarrow>
          if \<not> bt_contains (wf_steps d) target then Err (MissingTarget i (fst p) target)
          else
            bindr (expect (bt_get (fst s) i)) (\<lambda>successors.
            if target \<in> set successors then Ok s
            else
              bindr (expect (bt_get (snd s) target)) (\<lambda>degree.
              Ok (bt_set i (bs_insert target successors) (fst s), bt_set target (degree + 1) (snd s)))))"

definition add_step ::
    "'n workflow_definition \<Rightarrow> step_id \<times> 'n step_definition
      \<Rightarrow> adjacency \<times> indegree \<Rightarrow> (adjacency \<times> indegree, graph_error) outcome" where
  "add_step d p s =
     bindr (case step_routes (snd p) of
         Routes_Choices choices \<Rightarrow> bindr (for_each (check_choice (fst p)) choices []) (\<lambda>_. Ok ())
       | Routes_Success _ \<Rightarrow> Ok ()) (\<lambda>_.
     for_each (add_route d (fst p)) (routes_of (snd p)) s)"

definition validate ::
    "'n workflow_definition \<Rightarrow> ('n validated_workflow, graph_error) outcome" where
  "validate d =
     (let len = length (wf_steps d) in
      if len = 0 then Err Empty
      else if len > MAX_GRAPH_NODES then Err (TooManySteps len MAX_GRAPH_NODES)
      else if \<not> bt_contains (wf_steps d) (wf_entry d) then Err (MissingEntry (wf_entry d))
      else
        bindr (validate_limits d) (\<lambda>_.
        bindr (preflight_routes d) (\<lambda>_.
        let adjacency = map (\<lambda>i. (i, [])) (bt_keys (wf_steps d));
            indegree = map (\<lambda>i. (i, 0)) (bt_keys (wf_steps d))
        in
          bindr (for_each (add_step d) (wf_steps d) (adjacency, indegree)) (\<lambda>s.
          bindr (validate_acyclic (fst s) (snd s)) (\<lambda>_.
          bindr (validate_reachable d (fst s)) (\<lambda>_.
          Ok (ValidatedWorkflow d)))))))"

subsection \<open>Route selection\<close>

datatype route_selection = Select_Success | Select_Choice choice_name | Select_FinalError

datatype route_error =
    UnknownStep step_id
  | WrongRoute step_id string
  | UnknownChoice step_id choice_name
  | MissingFinalError step_id

definition select_route ::
    "'n validated_workflow \<Rightarrow> step_id \<Rightarrow> route_selection \<Rightarrow> (transition_target, route_error) outcome" where
  "select_route w step selection =
     bindr (ok_or (bt_get (wf_steps (definition_of w)) step) (UnknownStep step)) (\<lambda>d.
     (case (selection, step_routes d) of
        (Select_Success, Routes_Success target) \<Rightarrow> Ok target
      | (Select_Choice choice, Routes_Choices rs) \<Rightarrow>
          ok_or (map_option snd (find (\<lambda>p. fst p = choice) rs)) (UnknownChoice step choice)
      | (Select_FinalError, _) \<Rightarrow> ok_or (final_error d) (MissingFinalError step)
      | (Select_Success, _) \<Rightarrow> Err (WrongRoute step ''success'')
      | (Select_Choice _, _) \<Rightarrow> Err (WrongRoute step ''choice'')))"

end
