(* ===== verification/Graph_Facts.thy ===== *)
theory Graph_Facts
  imports Graph
begin

text \<open>
  What \<open>validate\<close> of \<open>Graph\<close> accepts: exactly the well-formed definitions, whose
  step graph is closed, acyclic and reachable from the entry. The contract a validated
  graph offers to the engine is the locale \<open>route_graph\<close>, interpreted on the accepted
  definitions.
\<close>

section \<open>Specification\<close>

text \<open>
  The graph of a definition, read off its fields and not off the lists the validator builds:
  a step leads to the target of its success route or of each of its choices, and to the target
  of its error route.
\<close>

definition targets :: "'n step_definition \<Rightarrow> step_id set" where
  "targets step = {t. final_error step = Some (Step t)
     \<or> (case step_routes step of
          Routes_Success target \<Rightarrow> target = Step t
        | Routes_Choices cs \<Rightarrow> \<exists>c. (c, Step t) \<in> set cs)}"

definition graph_nodes :: "'n workflow_definition \<Rightarrow> step_id set" where
  "graph_nodes d = set (bt_keys (wf_steps d))"

definition graph_edges :: "'n workflow_definition \<Rightarrow> (step_id \<times> step_id) set" where
  "graph_edges d = {(i, t). \<exists>step. (i, step) \<in> set (wf_steps d) \<and> t \<in> targets step}"

definition route_count :: "'n step_definition \<Rightarrow> nat" where
  "route_count step =
     (case step_routes step of Routes_Success _ \<Rightarrow> 1 | Routes_Choices cs \<Rightarrow> length cs)
      + (if final_error step \<noteq> None then 1 else 0)"

definition choices_ok :: "'n step_definition \<Rightarrow> bool" where
  "choices_ok step \<longleftrightarrow>
     (case step_routes step of Routes_Success _ \<Rightarrow> True | Routes_Choices cs \<Rightarrow> distinct (map fst cs))"

definition has_routes :: "'n step_definition \<Rightarrow> bool" where
  "has_routes step \<longleftrightarrow> step_routes step \<noteq> Routes_Choices []"

definition well_formed :: "'n workflow_definition \<Rightarrow> bool" where
  "well_formed d \<longleftrightarrow>
     1 \<le> length (wf_steps d) \<and> length (wf_steps d) \<le> 1024 \<and>
     wf_entry d \<in> graph_nodes d \<and>
     1 \<le> max_steps (wf_limits d) \<and> max_steps (wf_limits d) \<le> 100000 \<and>
     1 \<le> max_context_bytes (wf_limits d) \<and> max_context_bytes (wf_limits d) \<le> 1048576 \<and>
     (\<forall>p \<in> set (wf_steps d). has_routes (snd p) \<and> choices_ok (snd p)) \<and>
     sum_list (map (\<lambda>p. route_count (snd p)) (wf_steps d)) \<le> 8192 \<and>
     graph_edges d \<subseteq> graph_nodes d \<times> graph_nodes d \<and>
     acyclic (graph_edges d) \<and>
     graph_nodes d \<subseteq> (graph_edges d)\<^sup>* `` {wf_entry d}"

section \<open>The routes of a step\<close>

lemma set_routes_of:
  "set (routes_of step) =
     (case step_routes step of Routes_Success t \<Rightarrow> {(''success'', t)} | Routes_Choices cs \<Rightarrow> set cs)
     \<union> (case final_error step of None \<Rightarrow> {} | Some t \<Rightarrow> {(''final_error'', t)})"
  by (auto simp: routes_of_def Let_def split: routes.splits option.splits)

text \<open>The list the validator walks holds exactly the targets.\<close>

lemma targets_routes_of: "targets step = {t. \<exists>r. (r, Step t) \<in> set (routes_of step)}"
  by (auto simp: targets_def set_routes_of split: routes.splits option.splits)

section \<open>Maps updated in place\<close>

lemma fst_bt_set [simp]: "map fst (bt_set k v m) = map fst m"
  by (induction m) auto

lemma bt_get_set: "bt_get (bt_set k v m) k' = (if k' = k \<and> k \<in> set (map fst m) then Some v else bt_get m k')"
  by (induction m) (force simp: bt_get_def)+

lemma bt_get_key: "bt_get m k = Some v \<Longrightarrow> k \<in> set (map fst m)"
  by (auto dest!: bt_get_in_set intro: rev_image_eqI)

lemma key_bt_get: "k \<in> set (map fst m) \<Longrightarrow> \<exists>v. bt_get m k = Some v"
  using bt_keys_dom [of m] by (auto simp: bt_keys_def)

lemma set_bt_set: "set (bt_set k v m) \<subseteq> insert (k, v) (set m)"
  by (induction m) auto

section \<open>The preflight\<close>

lemma preflight_step_eq_Ok:
  "n \<le> MAX_GRAPH_EDGES \<Longrightarrow> preflight_step p n = Ok m \<longleftrightarrow>
     has_routes (snd p) \<and> m = n + route_count (snd p) \<and> m \<le> MAX_GRAPH_EDGES"
  by (cases "step_routes (snd p)"; cases "final_error (snd p)")
    (auto simp: preflight_step_def has_routes_def route_count_def saturating_add_def Let_def
      MAX_GRAPH_EDGES_def usize_max_def)

lemma preflight_steps_eq_Ok:
  "n \<le> MAX_GRAPH_EDGES \<Longrightarrow> for_each preflight_step ps n = Ok m \<longleftrightarrow>
     (\<forall>p \<in> set ps. has_routes (snd p)) \<and> m = n + sum_list (map (\<lambda>p. route_count (snd p)) ps)
     \<and> m \<le> MAX_GRAPH_EDGES"
  by (induction ps arbitrary: n) (auto simp: preflight_step_eq_Ok)

lemma preflight_routes_eq_Ok:
  "preflight_routes d = Ok () \<longleftrightarrow>
     (\<forall>p \<in> set (wf_steps d). has_routes (snd p)) \<and>
     sum_list (map (\<lambda>p. route_count (snd p)) (wf_steps d)) \<le> MAX_GRAPH_EDGES"
  by (auto simp: preflight_routes_def preflight_steps_eq_Ok MAX_GRAPH_EDGES_def)

lemma preflight_routes_no_panic: "preflight_routes d \<noteq> Panic"
proof -
  have "for_each preflight_step ps n \<noteq> Panic" for ps :: "(step_id \<times> 'a step_definition) list" and n
    by (rule for_each_no_panic [where I = "\<lambda>_. True"])
      (auto simp: preflight_step_def bindr_eq_Panic Let_def split: routes.splits if_splits)
  then show ?thesis by (auto simp: preflight_routes_def bindr_eq_Panic)
qed

lemma one_le_word: "1 \<le> n \<longleftrightarrow> n \<noteq> (0 :: 32 word)"
  by (simp add: word_le_nat_alt Suc_le_eq unat_gt_0)

lemma validate_limits_eq_Ok:
  "validate_limits d = Ok () \<longleftrightarrow>
     1 \<le> max_steps (wf_limits d) \<and> max_steps (wf_limits d) \<le> 100000 \<and>
     1 \<le> max_context_bytes (wf_limits d) \<and> max_context_bytes (wf_limits d) \<le> 1048576"
  by (simp add: validate_limits_def Let_def MAX_EXECUTION_STEPS_def MAX_OUTPUT_BYTES_def not_less
      one_le_word Suc_le_eq) (metis leD)

section \<open>The adjacency lists and indegrees\<close>

definition edge_set :: "adjacency \<Rightarrow> (step_id \<times> step_id) set" where
  "edge_set a = {(i, t). \<exists>s. bt_get a i = Some s \<and> t \<in> set s}"

text \<open>
  The two maps have the step names as keys; the successor lists hold no duplicates, stay
  among the steps, and the indegree of a step counts its predecessors.
\<close>

definition build_inv :: "step_id list \<Rightarrow> (step_id \<times> step_id) set \<Rightarrow> adjacency \<times> indegree \<Rightarrow> bool" where
  "build_inv ks e s \<longleftrightarrow>
     map fst (fst s) = ks \<and> map fst (snd s) = ks \<and>
     (\<forall>i ts. bt_get (fst s) i = Some ts \<longrightarrow> distinct ts) \<and>
     edge_set (fst s) = e \<and> e \<subseteq> set ks \<times> set ks \<and>
     (\<forall>t \<in> set ks. bt_get (snd s) t = Some (card {i. (i, t) \<in> e}))"

lemma bt_get_constant: "bt_get (map (\<lambda>i. (i, v)) ks) k = (if k \<in> set ks then Some v else None)"
  by (induction ks) (auto simp: bt_get_def)

lemma build_inv_init:
  "build_inv ks {} (map (\<lambda>i. (i, [])) ks, map (\<lambda>i. (i, 0)) ks)"
  by (auto simp: build_inv_def edge_set_def comp_def bt_get_constant split: if_splits)

lemma build_inv_edge:
  assumes inv: "build_inv ks e (a, deg)" and i: "i \<in> set ks" and t: "t \<in> set ks"
  obtains ts where "bt_get a i = Some ts" "t \<in> set ts \<longleftrightarrow> (i, t) \<in> e"
    "(i, t) \<in> e \<Longrightarrow> build_inv ks (insert (i, t) e) (a, deg)"
    "(i, t) \<notin> e \<Longrightarrow> \<exists>n. bt_get deg t = Some n \<and>
       build_inv ks (insert (i, t) e) (bt_set i (bs_insert t ts) a, bt_set t (n + 1) deg)"
proof -
  have e: "e = edge_set a" and sub: "e \<subseteq> set ks \<times> set ks"
    and keys: "map fst a = ks" "map fst deg = ks"
    and dis: "\<And>j js. bt_get a j = Some js \<Longrightarrow> distinct js"
    and degs: "\<And>t. t \<in> set ks \<Longrightarrow> bt_get deg t = Some (card {i. (i, t) \<in> e})"
    using inv by (simp_all add: build_inv_def)
  obtain ts where ts: "bt_get a i = Some ts"
    using key_bt_get [of i a] i by (auto simp only: keys)
  have mem: "t \<in> set ts \<longleftrightarrow> (i, t) \<in> e"
    by (simp add: e edge_set_def ts)
  have "build_inv ks (insert (i, t) e) (bt_set i (bs_insert t ts) a, bt_set t (card {i. (i, t) \<in> e} + 1) deg)"
    if new: "(i, t) \<notin> e"
  proof -
    have "finite {j. (j, t') \<in> e}" for t'
      by (rule finite_subset [of _ "set ks"]) (use sub in auto)
    then have card: "card {j. (j, t') \<in> insert (i, t) e} = card {j. (j, t') \<in> e} + (if t' = t then 1 else 0)" for t'
    proof (cases "t' = t")
      case True
      have "{j. (j, t') \<in> insert (i, t) e} = insert i {j. (j, t') \<in> e}" using True by auto
      then show ?thesis
        using new True \<open>finite {j. (j, t') \<in> e}\<close> by simp
    qed auto
    have dist: "distinct (bs_insert t ts)"
      using dis [OF ts] by (simp add: bs_insert_def distinct_insort)
    have edges: "edge_set (bt_set i (bs_insert t ts) a) = insert (i, t) (edge_set a)"
      using ts bt_get_key [OF ts] by (auto simp: edge_set_def bt_get_set split: if_splits)
    show ?thesis
      unfolding build_inv_def fst_conv snd_conv edges fst_bt_set
      using i t card dist sub keys dis degs by (simp add: bt_get_set e [symmetric])
  qed
  then show thesis
    using that [OF ts mem] inv degs [OF t] by (simp add: insert_absorb)
qed

lemma add_route_spec:
  assumes inv: "build_inv ks e s" and i: "i \<in> set ks" and ks: "ks = bt_keys (wf_steps d)"
  shows "case add_route d i p s of
      Ok s' \<Rightarrow> (\<forall>t. snd p = Step t \<longrightarrow> t \<in> set ks) \<and>
        build_inv ks (e \<union> {(i, t) | t. snd p = Step t}) s'
    | Err g \<Rightarrow> \<exists>t. snd p = Step t \<and> t \<notin> set ks \<and> g = MissingTarget i (fst p) t
    | Panic \<Rightarrow> False"
proof (cases "snd p")
  case End
  then show ?thesis using inv by (simp add: add_route_def)
next
  case (Step t)
  obtain a deg where s: "s = (a, deg)" by (cases s)
  show ?thesis
  proof (cases "t \<in> set ks")
    case False
    then show ?thesis by (simp add: add_route_def Step bt_contains_iff flip: ks)
  next
    case True
    have union: "e \<union> {(i, t') | t'. snd p = Step t'} = insert (i, t) e" using Step by auto
    show ?thesis
      by (rule build_inv_edge [OF inv [unfolded s] i True], cases "(i, t) \<in> e")
        (use True in \<open>auto simp: add_route_def Step s bt_contains_iff union [unfolded Step, simplified]
          insert_absorb simp flip: ks\<close>)
  qed
qed

lemma add_routes_spec:
  assumes i: "i \<in> set ks" and ks: "ks = bt_keys (wf_steps d)"
  shows "build_inv ks e s \<Longrightarrow> case for_each (add_route d i) rs s of
      Ok s' \<Rightarrow> {t. \<exists>r. (r, Step t) \<in> set rs} \<subseteq> set ks \<and>
        build_inv ks (e \<union> {i} \<times> {t. \<exists>r. (r, Step t) \<in> set rs}) s'
    | Err g \<Rightarrow> \<exists>r t. (r, Step t) \<in> set rs \<and> t \<notin> set ks \<and> g = MissingTarget i r t
    | Panic \<Rightarrow> False"
proof (induction rs arbitrary: e s)
  case (Cons p rs)
  note one = add_route_spec [OF Cons.prems i ks, of p]
  show ?case
  proof (cases "add_route d i p s")
    case (Ok s')
    let ?e = "e \<union> {(i, t) | t. snd p = Step t}" and ?T = "{t. \<exists>r. (r, Step t) \<in> set rs}"
    let ?T' = "{t. \<exists>r. (r, Step t) \<in> set (p # rs)}"
    have T: "?T' = {t. snd p = Step t} \<union> ?T" by (cases p) auto
    then have e: "?e \<union> {i} \<times> ?T = e \<union> {i} \<times> ?T'" by auto
    have inv: "build_inv ks ?e s'" and sub: "{t. snd p = Step t} \<subseteq> set ks"
      using one Ok by auto
    have step: "for_each (add_route d i) (p # rs) s = for_each (add_route d i) rs s'"
      by (simp add: Ok)
    show ?thesis
    proof (cases "for_each (add_route d i) rs s'")
      case ok: (Ok s'')
      have "?T' \<subseteq> set ks" "build_inv ks (e \<union> {i} \<times> ?T') s''"
        using Cons.IH [OF inv] sub unfolding ok outcome.case e T by blast+
      then show ?thesis unfolding step ok by simp
    next
      case err: (Err g)
      then show ?thesis using Cons.IH [OF inv] unfolding step err by auto
    qed (use Cons.IH [OF inv] in simp)
  next
    case (Err g)
    then show ?thesis using one by (cases p) auto
  qed (use one in simp)
qed simp

lemma check_choices_spec:
  "case for_each (check_choice i) cs seen of
      Ok _ \<Rightarrow> distinct (map fst cs) \<and> set (map fst cs) \<inter> set seen = {}
    | Err g \<Rightarrow> \<not> (distinct (map fst cs) \<and> set (map fst cs) \<inter> set seen = {}) \<and> (\<exists>c. g = DuplicateChoice i c)
    | Panic \<Rightarrow> False"
proof (induction cs arbitrary: seen)
  case (Cons p cs)
  show ?case
    using Cons.IH [of "bs_insert (fst p) seen"] by (auto simp: check_choice_def split: outcome.splits)
qed simp

definition step_defect :: "step_id set \<Rightarrow> step_id \<times> 'n step_definition \<Rightarrow> graph_error \<Rightarrow> bool" where
  "step_defect ks p g \<longleftrightarrow>
     (\<exists>c. g = DuplicateChoice (fst p) c) \<and> \<not> choices_ok (snd p) \<or>
     (\<exists>r t. g = MissingTarget (fst p) r t \<and> (r, Step t) \<in> set (routes_of (snd p)) \<and> t \<notin> ks)"

lemma add_step_spec:
  assumes inv: "build_inv ks e s" and i: "fst p \<in> set ks" and ks: "ks = bt_keys (wf_steps d)"
  shows "case add_step d p s of
      Ok s' \<Rightarrow> choices_ok (snd p) \<and> targets (snd p) \<subseteq> set ks \<and>
        build_inv ks (e \<union> {fst p} \<times> targets (snd p)) s'
    | Err g \<Rightarrow> step_defect (set ks) p g
    | Panic \<Rightarrow> False"
proof -
  note routes = add_routes_spec [OF i ks inv, of "routes_of (snd p)", folded targets_routes_of]
  show ?thesis
  proof (cases "step_routes (snd p)")
    case (Routes_Success t)
    then show ?thesis
      using routes by (auto simp: add_step_def choices_ok_def step_defect_def split: outcome.splits)
  next
    case (Routes_Choices cs)
    then show ?thesis
      using routes check_choices_spec [where i = "fst p" and cs = cs and seen = "[]"]
      by (cases "for_each (check_choice (fst p)) cs []")
        (auto simp: add_step_def choices_ok_def step_defect_def split: outcome.splits)
  qed
qed

lemma add_steps_spec:
  assumes ks: "ks = bt_keys (wf_steps d)"
  shows "build_inv ks e s \<Longrightarrow> fst ` set ps \<subseteq> set ks \<Longrightarrow> case for_each (add_step d) ps s of
      Ok s' \<Rightarrow> (\<forall>p \<in> set ps. choices_ok (snd p) \<and> targets (snd p) \<subseteq> set ks) \<and>
        build_inv ks (e \<union> (\<Union>p \<in> set ps. {fst p} \<times> targets (snd p))) s'
    | Err g \<Rightarrow> \<exists>p \<in> set ps. step_defect (set ks) p g
    | Panic \<Rightarrow> False"
proof (induction ps arbitrary: e s)
  case (Cons p ps)
  have i: "fst p \<in> set ks" using Cons.prems(2) by simp
  note one = add_step_spec [OF Cons.prems(1) i ks]
  show ?case
  proof (cases "add_step d p s")
    case (Ok s')
    then have "build_inv ks (e \<union> {fst p} \<times> targets (snd p)) s'" using one by simp
    from Cons.IH [OF this] Cons.prems(2) show ?thesis
      using one Ok by (auto simp: Un_assoc split: outcome.splits)
  next
    case (Err g)
    then show ?thesis using one by simp
  qed (use one in simp)
qed simp

section \<open>Kahn's algorithm\<close>

text \<open>A visiting order, latest first, in which every step comes after its predecessors.\<close>

fun topological :: "('v \<times> 'v) set \<Rightarrow> 'v list \<Rightarrow> bool" where
  "topological e [] = True"
| "topological e (v # vs) = (topological e vs \<and> v \<notin> set vs \<and> {u. (u, v) \<in> e} \<subseteq> set vs)"

fun position :: "'v list \<Rightarrow> 'v \<Rightarrow> nat" where
  "position [] v = 0"
| "position (u # us) v = (if u = v then Suc (length us) else position us v)"

lemma position_le: "position vs v \<le> length vs"
  by (induction vs) (auto intro: le_SucI)

lemma topological_closed: "topological e order \<Longrightarrow> v \<in> set order \<Longrightarrow> (u, v) \<in> e \<Longrightarrow> u \<in> set order"
  by (induction order) auto

lemma topological_position:
  "topological e vs \<Longrightarrow> (u, v) \<in> e \<Longrightarrow> v \<in> set vs \<Longrightarrow> position vs u < position vs v"
proof (induction vs)
  case (Cons w vs)
  show ?case
  proof (cases "w = v")
    case True
    then have "w \<noteq> u" using Cons.prems by auto
    then show ?thesis using True position_le [of vs u] by (simp add: less_Suc_eq_le)
  next
    case False
    then have v: "v \<in> set vs" using Cons.prems by simp
    have "position vs u < position vs v" using Cons v by simp
    moreover have "w \<noteq> u"
      using topological_closed [of e vs v u] v Cons.prems by auto
    ultimately show ?thesis using False by simp
  qed
qed simp

lemma topological_acyclic:
  assumes "topological e vs" and "snd ` e \<subseteq> set vs"
  shows "acyclic e"
proof (rule acyclicI_order [where f = "\<lambda>v. - int (position vs v)"])
  fix u v assume "(u, v) \<in> e"
  moreover from this have "v \<in> set vs" using assms(2) by force
  ultimately show "- int (position vs v) < - int (position vs u)"
    using topological_position [OF assms(1)] by simp
qed

lemma topological_distinct: "topological e vs \<Longrightarrow> distinct vs"
  by (induction vs) auto

definition waiting_on :: "(step_id \<times> step_id) set \<Rightarrow> step_id list \<Rightarrow> step_id \<Rightarrow> step_id set" where
  "waiting_on e order v = {u. (u, v) \<in> e \<and> u \<notin> set order}"

definition kahn_inv ::
    "step_id list \<Rightarrow> (step_id \<times> step_id) set \<Rightarrow> step_id list \<Rightarrow> step_id list \<Rightarrow> indegree \<Rightarrow> bool" where
  "kahn_inv ks e order zero deg \<longleftrightarrow>
     topological e order \<and> set order \<subseteq> set ks \<and> distinct zero \<and> map fst deg = ks \<and>
     set zero = {v \<in> set ks. v \<notin> set order \<and> waiting_on e order v = {}} \<and>
     (\<forall>v \<in> set ks. bt_get deg v = Some (card (waiting_on e order v)))"

text \<open>The inner loop lowers the degree of each target once and collects those that reach zero.\<close>

lemma decrements_spec:
  assumes "distinct ts" and "distinct zero" and "set ts \<inter> set zero = {}"
    and "\<And>t. t \<in> set ts \<Longrightarrow> \<exists>n. bt_get deg t = Some (Suc n)"
  shows "\<exists>zero' deg'. for_each decrement ts (zero, deg) = Ok (zero', deg') \<and> distinct zero'
    \<and> map fst deg' = map fst deg
    \<and> set zero' = set zero \<union> {t \<in> set ts. bt_get deg t = Some 1}
    \<and> (\<forall>v. bt_get deg' v =
        (if v \<in> set ts then map_option (\<lambda>n. n - 1) (bt_get deg v) else bt_get deg v))"
  using assms
proof (induction ts arbitrary: zero deg)
  case (Cons t ts)
  obtain n where n: "bt_get deg t = Some (Suc n)" using Cons.prems(4) [of t] by auto
  let ?zero = "if n = 0 then bs_insert t zero else zero" and ?deg = "bt_set t n deg"
  have one: "decrement t (zero, deg) = Ok (?zero, ?deg)"
    by (simp add: decrement_def n)
  have get: "bt_get ?deg v = (if v = t then Some n else bt_get deg v)" for v
    using bt_get_key [OF n] by (simp add: bt_get_set)
  have t: "t \<notin> set ts" "t \<notin> set zero" using Cons.prems by auto
  have "distinct ?zero" using Cons.prems(2) by (simp add: bs_insert_def distinct_insort)
  moreover have "set ts \<inter> set ?zero = {}" using Cons.prems(3) t by auto
  moreover have "\<exists>n. bt_get ?deg t' = Some (Suc n)" if "t' \<in> set ts" for t'
    using Cons.prems(4) [of t'] that t get by auto
  ultimately obtain zero' deg' where ih: "for_each decrement ts (?zero, ?deg) = Ok (zero', deg')"
    "distinct zero'" "map fst deg' = map fst ?deg"
    "set zero' = set ?zero \<union> {t \<in> set ts. bt_get ?deg t = Some 1}"
    "\<forall>v. bt_get deg' v = (if v \<in> set ts then map_option (\<lambda>n. n - 1) (bt_get ?deg v) else bt_get ?deg v)"
    using Cons.IH [of ?zero ?deg] Cons.prems(1) by auto
  have "set zero' = set zero \<union> {t' \<in> set (t # ts). bt_get deg t' = Some 1}"
    unfolding ih(4) using n t get by auto
  moreover have "bt_get deg' v =
      (if v \<in> set (t # ts) then map_option (\<lambda>n. n - 1) (bt_get deg v) else bt_get deg v)" for v
    using ih(5) n t get by auto
  moreover have "for_each decrement (t # ts) (zero, deg) = Ok (zero', deg')"
    using ih(1) by (simp only: for_each.simps one bindr.simps)
  ultimately show ?case
    using ih(2,3) by (intro exI [of _ zero'] exI [of _ deg'] conjI allI) simp_all
qed auto

lemma waiting_on_Cons: "waiting_on e (i # order) v = waiting_on e order v - {i}"
  by (auto simp: waiting_on_def)

lemma singleton_card: "w = {i} \<longleftrightarrow> i \<in> w \<and> card w = 1"
  by (metis card_1_singletonE is_singletonI is_singleton_altdef singletonD singletonI)

lemma kahn_step:
  assumes inv: "kahn_inv ks e order (i # zero) deg" and sub: "e \<subseteq> set ks \<times> set ks"
    and ts: "distinct ts" "set ts = {t. (i, t) \<in> e}"
  shows "\<exists>zero' deg'. for_each decrement ts (zero, deg) = Ok (zero', deg')
    \<and> kahn_inv ks e (i # order) zero' deg'"
proof -
  have top: "topological e order" and ord: "set order \<subseteq> set ks" and dz: "distinct (i # zero)"
    and keys: "map fst deg = ks"
    and Z: "set (i # zero) = {v \<in> set ks. v \<notin> set order \<and> waiting_on e order v = {}}"
    and deg: "\<And>v. v \<in> set ks \<Longrightarrow> bt_get deg v = Some (card (waiting_on e order v))"
    using inv unfolding kahn_inv_def by blast+
  have i: "i \<in> set ks" "i \<notin> set order" "waiting_on e order i = {}" using Z by auto
  have fin: "finite (waiting_on e order v)" for v
    by (rule finite_subset [of _ "set ks"]) (use sub in \<open>auto simp: waiting_on_def\<close>)
  have t: "t \<in> set ks" "i \<in> waiting_on e order t" if "t \<in> set ts" for t
    using that ts(2) sub i by (auto simp: waiting_on_def)
  have "v \<in> set (i # zero) \<Longrightarrow> waiting_on e order v = {}" for v
    unfolding Z by simp
  then have "set ts \<inter> set zero = {}"
    using t(2) by (metis disjoint_iff empty_iff list.set_intros(2))
  moreover have "\<exists>n. bt_get deg t = Some (Suc n)" if "t \<in> set ts" for t
    using deg [OF t(1) [OF that]] t(2) [OF that] fin by (metis card_gt_0_iff empty_iff gr0_implies_Suc)
  ultimately obtain zero' deg' where r: "for_each decrement ts (zero, deg) = Ok (zero', deg')"
    "distinct zero'" "map fst deg' = map fst deg"
    "set zero' = set zero \<union> {t \<in> set ts. bt_get deg t = Some 1}"
    "\<And>v. bt_get deg' v = (if v \<in> set ts then map_option (\<lambda>n. n - 1) (bt_get deg v) else bt_get deg v)"
    using decrements_spec [OF ts(1), of zero deg] dz by auto
  have after: "v \<notin> set order" if "v \<in> set ts" for v
    using topological_closed [OF top, of v i] that ts(2) i(2) by auto
  have mem: "v \<in> set ts \<longleftrightarrow> i \<in> waiting_on e order v" for v
    using ts(2) i by (auto simp: waiting_on_def)
  have get': "bt_get deg' v = Some (card (waiting_on e (i # order) v))" if "v \<in> set ks" for v
    using r(5) [of v] deg [OF that] mem [of v] fin [of v]
    by (auto simp: waiting_on_Cons card_Diff_singleton split: if_splits)
  have one: "waiting_on e order v = {i} \<longleftrightarrow> v \<in> set ts \<and> bt_get deg v = Some 1" if "v \<in> set ks" for v
    using singleton_card [of "waiting_on e order v" i] deg [OF that] mem [of v] by simp
  have empty: "waiting_on e (i # order) v = {} \<longleftrightarrow> waiting_on e order v = {} \<or> waiting_on e order v = {i}" for v
    by (auto simp: waiting_on_Cons)
  have "set zero' = {v \<in> set ks. v \<notin> set (i # order) \<and> waiting_on e (i # order) v = {}}"
  proof (intro set_eqI)
    fix v
    have "v \<in> set (i # zero) \<longleftrightarrow> v \<in> set ks \<and> v \<notin> set order \<and> waiting_on e order v = {}"
      unfolding Z by simp
    then have z: "v \<in> set zero \<longleftrightarrow> v \<in> set ks \<and> v \<notin> set (i # order) \<and> waiting_on e order v = {}"
      using dz by auto
    have "v \<in> set ts \<and> bt_get deg v = Some 1 \<longleftrightarrow>
        v \<in> set ks \<and> v \<notin> set (i # order) \<and> waiting_on e order v = {i}"
      using one [of v] t(1) [of v] after [of v] i(3) by fastforce
    then show "v \<in> set zero' \<longleftrightarrow> v \<in> {v \<in> set ks. v \<notin> set (i # order) \<and> waiting_on e (i # order) v = {}}"
      unfolding r(4) empty using z by blast
  qed
  moreover have "topological e (i # order)"
    using top i by (auto simp: waiting_on_def)
  ultimately show ?thesis
    using r(1-3) ord i keys get' unfolding kahn_inv_def
    by (intro exI [of _ zero'] exI [of _ deg'] conjI ballI) simp_all
qed

lemma acyclic_loop_spec:
  assumes "kahn_inv ks e order zero deg" and "build_inv ks e (a, deg0)"
  shows "\<exists>order' deg'. acyclic_loop a zero deg (length order) = Ok (deg', length order')
    \<and> kahn_inv ks e order' [] deg'"
  using assms
proof (induction a zero deg "length order" arbitrary: order rule: acyclic_loop.induct)
  case (2 a i zero deg)
  have sub: "e \<subseteq> set ks \<times> set ks" and e: "edge_set a = e" and keys: "map fst a = ks"
    and dis: "\<And>i ts. bt_get a i = Some ts \<Longrightarrow> distinct ts"
    using "2.prems"(2) by (auto simp: build_inv_def)
  have "i \<in> set ks" using "2.prems"(1) by (auto simp: kahn_inv_def)
  then obtain ts where ts: "bt_get a i = Some ts" using key_bt_get [of i a] by (auto simp only: keys)
  have "set ts = {t. (i, t) \<in> e}" using ts e by (auto simp: edge_set_def)
  from kahn_step [OF "2.prems"(1) sub dis [OF ts] this] obtain zero' deg'
    where step: "for_each decrement ts (zero, deg) = Ok (zero', deg')"
      and inv: "kahn_inv ks e (i # order) zero' deg'" by blast
  have ex: "expect (bt_get a i) = Ok ts" using ts by simp
  have "\<exists>order' deg''. acyclic_loop a zero' deg' (length (i # order)) = Ok (deg'', length order')
    \<and> kahn_inv ks e order' [] deg''"
    using "2.hyps" [OF ex step, of "i # order"] inv "2.prems"(2) by simp
  then show ?case by (simp add: ts step)
qed (use assms in auto)

lemma validate_acyclic_spec:
  assumes inv: "build_inv ks e (a, deg)" and dist: "distinct ks"
  shows "if acyclic e then validate_acyclic a deg = Ok ()
    else \<exists>i \<in> set ks. validate_acyclic a deg = Err (Cycle i)"
proof -
  have sub: "e \<subseteq> set ks \<times> set ks" and keys: "map fst a = ks" "map fst deg = ks"
    and degs: "\<And>t. t \<in> set ks \<Longrightarrow> bt_get deg t = Some (card {i. (i, t) \<in> e})"
    using inv by (auto simp: build_inv_def)
  have fin: "finite e" using sub by (rule finite_subset) simp
  have all: "waiting_on e [] v = {i. (i, v) \<in> e}" for v by (simp add: waiting_on_def)
  have fins: "finite {i. (i, v) \<in> e}" for v
    by (rule finite_subset [of _ "set ks"]) (use sub in auto)
  define zero where "zero = map fst (filter (\<lambda>p. snd p = 0) deg)"
  have entry: "(v, n) \<in> set deg \<longleftrightarrow> v \<in> set ks \<and> n = card {i. (i, v) \<in> e}" for v n
  proof -
    have "distinct (map fst deg)" using dist keys by simp
    then have "(v, n) \<in> set deg \<longleftrightarrow> bt_get deg v = Some n"
      by (simp add: bt_get_def)
    then show ?thesis
      using degs [of v] bt_get_key [of deg v n] keys by (auto simp only: option.inject)
  qed
  have "kahn_inv ks e [] zero deg"
    unfolding kahn_inv_def
  proof (intro conjI)
    show "distinct zero"
      unfolding zero_def using dist keys distinct_map_filter [of fst deg] by simp
    show "set zero = {v \<in> set ks. v \<notin> set [] \<and> waiting_on e [] v = {}}"
    proof (intro set_eqI)
      fix v
      have "v \<in> set zero \<longleftrightarrow> (v, 0) \<in> set deg" by (force simp: zero_def)
      moreover have c: "0 = card {i. (i, v) \<in> e} \<longleftrightarrow> {i. (i, v) \<in> e} = {}"
        using card_0_eq [OF fins [of v]] by metis
      ultimately show "v \<in> set zero \<longleftrightarrow> v \<in> {v \<in> set ks. v \<notin> set [] \<and> waiting_on e [] v = {}}"
        unfolding entry all c by simp
    qed
  qed (use keys degs in \<open>simp_all add: all\<close>)
  from acyclic_loop_spec [OF this inv] obtain order deg'
    where loop: "acyclic_loop a zero deg 0 = Ok (deg', length order)"
      and kahn: "kahn_inv ks e order [] deg'" by auto
  have top: "topological e order" and ord: "set order \<subseteq> set ks" and keys': "map fst deg' = ks"
    and stuck: "\<And>v. v \<in> set ks \<Longrightarrow> v \<notin> set order \<Longrightarrow> waiting_on e order v \<noteq> {}"
    and degs': "\<And>v. v \<in> set ks \<Longrightarrow> bt_get deg' v = Some (card (waiting_on e order v))"
    using kahn unfolding kahn_inv_def by (simp_all, blast)
  have len: "length a = card (set ks)"
    using distinct_card [OF dist] keys(1) by (metis length_map)
  have len': "length order = card (set order)"
    using distinct_card [OF topological_distinct [OF top]] by simp
  show ?thesis
  proof (cases "set order = set ks")
    case True
    then have "acyclic e" using sub by (intro topological_acyclic [OF top]) auto
    then show ?thesis
      using True len len' by (simp add: validate_acyclic_def loop flip: zero_def)
  next
    case False
    then have ne: "set ks - set order \<noteq> {}" using ord by auto
    have "\<not> acyclic e"
    proof
      assume "acyclic e"
      then have "wf e" using fin by (simp add: finite_acyclic_wf)
      from wfE_min' [OF this ne] obtain z where "z \<in> set ks - set order"
        "\<And>y. (y, z) \<in> e \<Longrightarrow> y \<notin> set ks - set order" by blast
      then show False using stuck [of z] sub by (auto simp: waiting_on_def)
    qed
    moreover have "length order \<noteq> length a"
      using False ord len len' by (metis card_subset_eq List.finite_set)
    moreover have "find (\<lambda>p. 0 < snd p) deg' \<noteq> None"
    proof -
      obtain v where v: "v \<in> set ks" "v \<notin> set order" using ne by auto
      have "finite (waiting_on e order v)"
        by (rule finite_subset [OF _ fins [of v]]) (auto simp: waiting_on_def)
      then have "(v, card (waiting_on e order v)) \<in> set deg' \<and> 0 < card (waiting_on e order v)"
        using degs' [OF v(1)] stuck [OF v] by (simp add: card_gt_0_iff bt_get_in_set)
      then show ?thesis unfolding find_None_iff by force
    qed
    then obtain p where p: "find (\<lambda>p. 0 < snd p) deg' = Some p" by auto
    then have "fst p \<in> set ks" using keys' by (auto simp: find_Some_iff)
    ultimately show ?thesis
      using p by (auto simp: validate_acyclic_def loop simp flip: zero_def)
  qed
qed

section \<open>Reachability\<close>

lemma reachable_loop_spec:
  assumes "build_inv ks e (a, deg)" and "set queue \<subseteq> set ks"
    and "\<And>v w. v \<in> set seen \<Longrightarrow> (v, w) \<in> e \<Longrightarrow> w \<in> set seen \<union> set queue"
  shows "\<exists>r. reachable_loop a queue seen = Ok r
    \<and> set seen \<union> set queue \<subseteq> set r \<and> set r \<subseteq> set seen \<union> e\<^sup>* `` set queue
    \<and> (\<forall>v w. v \<in> set r \<longrightarrow> (v, w) \<in> e \<longrightarrow> w \<in> set r)"
  using assms
proof (induction a queue seen rule: reachable_loop.induct)
  case (2 a i queue seen)
  show ?case
  proof (cases "i \<in> set seen")
    case True
    have "\<exists>r. reachable_loop a queue seen = Ok r \<and> set seen \<union> set queue \<subseteq> set r
      \<and> set r \<subseteq> set seen \<union> e\<^sup>* `` set queue \<and> (\<forall>v w. v \<in> set r \<longrightarrow> (v, w) \<in> e \<longrightarrow> w \<in> set r)"
      using "2.prems" True by (intro "2.IH"(1)) auto
    then obtain r where r: "reachable_loop a queue seen = Ok r" "set seen \<union> set queue \<subseteq> set r"
      "set r \<subseteq> set seen \<union> e\<^sup>* `` set queue" "\<forall>v w. v \<in> set r \<longrightarrow> (v, w) \<in> e \<longrightarrow> w \<in> set r"
      by blast
    have "e\<^sup>* `` set queue \<subseteq> e\<^sup>* `` set (i # queue)" by auto
    then show ?thesis
      using True r by (intro exI [of _ r]) auto
  next
    case False
    have keys: "map fst a = ks" and e: "edge_set a = e" and sub: "e \<subseteq> set ks \<times> set ks"
      using "2.prems"(1) by (auto simp: build_inv_def)
    obtain ts where ts: "bt_get a i = Some ts"
      using key_bt_get [of i a] "2.prems"(2) by (auto simp only: keys list.set_intros subsetD)
    have succ: "set ts = {t. (i, t) \<in> e}" using ts e by (auto simp: edge_set_def)
    have "\<exists>r. reachable_loop a (queue @ ts) (bs_insert i seen) = Ok r
      \<and> set (bs_insert i seen) \<union> set (queue @ ts) \<subseteq> set r
      \<and> set r \<subseteq> set (bs_insert i seen) \<union> e\<^sup>* `` set (queue @ ts)
      \<and> (\<forall>v w. v \<in> set r \<longrightarrow> (v, w) \<in> e \<longrightarrow> w \<in> set r)"
      using "2.prems" sub succ False ts by (intro "2.IH"(2)) auto
    then obtain r where r: "reachable_loop a (queue @ ts) (bs_insert i seen) = Ok r"
      "set (bs_insert i seen) \<union> set (queue @ ts) \<subseteq> set r"
      "set r \<subseteq> set (bs_insert i seen) \<union> e\<^sup>* `` set (queue @ ts)"
      "\<forall>v w. v \<in> set r \<longrightarrow> (v, w) \<in> e \<longrightarrow> w \<in> set r" by blast
    have "insert i (e\<^sup>* `` set (queue @ ts)) \<subseteq> e\<^sup>* `` set (i # queue)"
      using succ by (auto intro: converse_rtrancl_into_rtrancl)
    then have "set r \<subseteq> set seen \<union> e\<^sup>* `` set (i # queue)"
      using r(3) unfolding set_bs_insert by blast
    moreover have "set seen \<union> set (i # queue) \<subseteq> set r" using r(2) by auto
    ultimately show ?thesis
      using False ts r(1,4) by simp
  qed
qed auto

lemma validate_reachable_spec:
  assumes inv: "build_inv (bt_keys (wf_steps d)) e (a, deg)" and entry: "wf_entry d \<in> graph_nodes d"
  shows "if graph_nodes d \<subseteq> e\<^sup>* `` {wf_entry d} then validate_reachable d a = Ok ()
    else \<exists>i \<in> graph_nodes d. i \<notin> e\<^sup>* `` {wf_entry d} \<and> validate_reachable d a = Err (Unreachable i)"
proof -
  obtain r where r: "reachable_loop a [wf_entry d] [] = Ok r" "wf_entry d \<in> set r"
    "set r \<subseteq> e\<^sup>* `` {wf_entry d}" "\<forall>v w. v \<in> set r \<longrightarrow> (v, w) \<in> e \<longrightarrow> w \<in> set r"
    using reachable_loop_spec [OF inv, of "[wf_entry d]" "[]"] entry by (auto simp: graph_nodes_def)
  have "w \<in> set r" if "(wf_entry d, w) \<in> e\<^sup>*" for w
    using that by (induction rule: rtrancl_induct) (use r in auto)
  then have reach: "e\<^sup>* `` {wf_entry d} = set r" using r(3) by auto
  show ?thesis
    unfolding validate_reachable_def r(1) bindr.simps reach graph_nodes_def
    by (cases "find (\<lambda>i. i \<notin> set r) (bt_keys (wf_steps d))")
      (auto simp: subset_iff dest: find_SomeD find_NoneD)
qed

section \<open>Validation\<close>

lemma graph_edges_Union: "graph_edges d = (\<Union>p \<in> set (wf_steps d). {fst p} \<times> targets (snd p))"
  by (force simp: graph_edges_def)

lemma graph_edges_closed:
  "graph_edges d \<subseteq> graph_nodes d \<times> graph_nodes d \<longleftrightarrow> (\<forall>p \<in> set (wf_steps d). targets (snd p) \<subseteq> graph_nodes d)"
  by (force simp: graph_edges_Union graph_nodes_def bt_keys_def)

text \<open>Every error of \<open>validate\<close> with the defect of the definition that it reports.\<close>

fun defect :: "'n workflow_definition \<Rightarrow> graph_error \<Rightarrow> bool" where
  "defect d Empty \<longleftrightarrow> wf_steps d = []"
| "defect d (TooManySteps n m) \<longleftrightarrow> n = length (wf_steps d) \<and> m = 1024 \<and> m < n"
| "defect d (MissingEntry i) \<longleftrightarrow> i = wf_entry d \<and> i \<notin> graph_nodes d"
| "defect d (InvalidExecutionLimit f n m) \<longleftrightarrow> \<not> (1 \<le> n \<and> n \<le> m) \<and>
     (f = ''max_steps'' \<and> n = unat (max_steps (wf_limits d)) \<and> m = 100000 \<or>
      f = ''max_context_bytes'' \<and> n = max_context_bytes (wf_limits d) \<and> m = 1048576)"
| "defect d (EmptyChoices i) \<longleftrightarrow> (\<exists>step. (i, step) \<in> set (wf_steps d) \<and> step_routes step = Routes_Choices [])"
| "defect d (TooManyRoutes m) \<longleftrightarrow> m = 8192 \<and> m < sum_list (map (\<lambda>p. route_count (snd p)) (wf_steps d))"
| "defect d (DuplicateChoice i c) \<longleftrightarrow> (\<exists>step. (i, step) \<in> set (wf_steps d) \<and> \<not> choices_ok step)"
| "defect d (MissingTarget i r t) \<longleftrightarrow> (\<exists>step. (i, step) \<in> set (wf_steps d)
     \<and> (r, Step t) \<in> set (routes_of step) \<and> t \<notin> graph_nodes d)"
| "defect d (Cycle i) \<longleftrightarrow> i \<in> graph_nodes d \<and> \<not> acyclic (graph_edges d)"
| "defect d (Unreachable i) \<longleftrightarrow> i \<in> graph_nodes d \<and> i \<notin> (graph_edges d)\<^sup>* `` {wf_entry d}"

lemma validate_limits_Err: "validate_limits d = Err g \<Longrightarrow> defect d g"
  by (auto simp: validate_limits_def Let_def MAX_EXECUTION_STEPS_def MAX_OUTPUT_BYTES_def
      word_less_nat_alt unat_eq_0 split: if_splits)

lemma preflight_steps_Err:
  "for_each preflight_step ps n = Err g \<Longrightarrow> n \<le> MAX_GRAPH_EDGES \<Longrightarrow>
     (\<exists>i step. g = EmptyChoices i \<and> (i, step) \<in> set ps \<and> step_routes step = Routes_Choices []) \<or>
     g = TooManyRoutes 8192 \<and> 8192 < n + sum_list (map (\<lambda>p. route_count (snd p)) ps)"
proof (induction ps arbitrary: n)
  case (Cons p ps)
  show ?case
  proof (cases "preflight_step p n")
    case (Ok m)
    then have "m = n + route_count (snd p)" "m \<le> MAX_GRAPH_EDGES"
      using Cons.prems(2) by (auto simp: preflight_step_eq_Ok)
    with Cons.IH [of m] Cons.prems Ok show ?thesis by auto
  next
    case (Err h)
    then have "h = g" using Cons.prems by simp
    with Err show ?thesis
      by (cases p, cases "step_routes (snd p)"; cases "final_error (snd p)")
        (auto simp: preflight_step_def route_count_def saturating_add_def Let_def
          MAX_GRAPH_EDGES_def usize_max_def split: if_splits)
  qed (use Cons.prems in simp)
qed simp

definition graph_checks ::
    "'n workflow_definition \<Rightarrow> ('n validated_workflow, graph_error) outcome" where
  "graph_checks d =
     bindr (for_each (add_step d) (wf_steps d)
       (map (\<lambda>i. (i, [])) (bt_keys (wf_steps d)), map (\<lambda>i. (i, 0)) (bt_keys (wf_steps d)))) (\<lambda>s.
     bindr (validate_acyclic (fst s) (snd s)) (\<lambda>_.
     bindr (validate_reachable d (fst s)) (\<lambda>_. Ok (ValidatedWorkflow d))))"

lemma validate_staged:
  assumes "wf_steps d \<noteq> []" and "length (wf_steps d) \<le> 1024" and "wf_entry d \<in> set (bt_keys (wf_steps d))"
  shows "validate d = bindr (validate_limits d) (\<lambda>_. bindr (preflight_routes d) (\<lambda>_. graph_checks d))"
  using assms by (simp add: validate_def graph_checks_def bt_contains_iff MAX_GRAPH_NODES_def Let_def)

lemma graph_checks_spec:
  assumes bt: "bt_ok (wf_steps d)" and entry: "wf_entry d \<in> graph_nodes d"
  shows "case graph_checks d of
      Ok w \<Rightarrow> w = ValidatedWorkflow d \<and> (\<forall>p \<in> set (wf_steps d). choices_ok (snd p)) \<and>
        graph_edges d \<subseteq> graph_nodes d \<times> graph_nodes d \<and> acyclic (graph_edges d) \<and>
        graph_nodes d \<subseteq> (graph_edges d)\<^sup>* `` {wf_entry d}
    | Err g \<Rightarrow> defect d g
    | Panic \<Rightarrow> False"
proof -
  let ?ks = "bt_keys (wf_steps d)"
  let ?init = "(map (\<lambda>i. (i, [])) ?ks, map (\<lambda>i. (i, 0)) ?ks) :: adjacency \<times> indegree"
  have dist: "distinct ?ks" using bt_ok_distinct [OF bt] by (simp add: bt_keys_def)
  have "fst ` set (wf_steps d) \<subseteq> set ?ks" by (simp add: bt_keys_def)
  note build = add_steps_spec [OF refl build_inv_init this, folded graph_edges_Union, unfolded Un_empty_left,
      folded graph_edges_Union graph_nodes_def]
  show ?thesis
  proof (cases "for_each (add_step d) (wf_steps d) ?init")
    case (Ok s)
    obtain adj deg where s: "s = (adj, deg)" by (cases s)
    have choices: "\<forall>p \<in> set (wf_steps d). choices_ok (snd p) \<and> targets (snd p) \<subseteq> graph_nodes d"
      and inv: "build_inv ?ks (graph_edges d) (adj, deg)"
      using build unfolding Ok s by simp_all
    have closed: "graph_edges d \<subseteq> graph_nodes d \<times> graph_nodes d"
      using choices unfolding graph_edges_closed by blast
    show ?thesis
      using validate_acyclic_spec [OF inv dist] validate_reachable_spec [OF inv entry] choices closed
      unfolding graph_checks_def Ok s by (auto simp: graph_nodes_def split: if_splits)
  next
    case (Err g)
    then obtain i step where "(i, step) \<in> set (wf_steps d)" "step_defect (graph_nodes d) (i, step) g"
      using build by auto
    then show ?thesis
      unfolding graph_checks_def Err bindr.simps outcome.case step_defect_def by auto
  qed (use build in simp)
qed

text \<open>
  The whole of \<open>validate\<close>: it accepts, or refuses with a defect the definition has, and
  in no case panics.
\<close>

lemma validate_spec:
  assumes bt: "bt_ok (wf_steps d)"
  shows "case validate d of
      Ok w \<Rightarrow> well_formed d \<and> w = ValidatedWorkflow d
    | Err g \<Rightarrow> defect d g
    | Panic \<Rightarrow> False"
proof -
  consider (empty) "wf_steps d = []" | (big) "length (wf_steps d) > 1024"
    | (entry) "wf_steps d \<noteq> []" "length (wf_steps d) \<le> 1024" "wf_entry d \<notin> graph_nodes d"
    | (some) "wf_steps d \<noteq> []" "length (wf_steps d) \<le> 1024" "wf_entry d \<in> graph_nodes d"
    by linarith
  then show ?thesis
  proof cases
    case empty
    then show ?thesis by (simp add: validate_def)
  next
    case big
    then show ?thesis by (auto simp: validate_def MAX_GRAPH_NODES_def Let_def)
  next
    case entry
    then show ?thesis
      by (simp add: validate_def bt_contains_iff MAX_GRAPH_NODES_def Let_def flip: graph_nodes_def)
  next
    case some
    note v = validate_staged [OF some(1,2) some(3) [unfolded graph_nodes_def]]
    note checks = graph_checks_spec [OF bt some(3)]
    show ?thesis
    proof (cases "validate_limits d")
      case limits: (Ok u)
      show ?thesis
      proof (cases "preflight_routes d")
        case preflight: (Ok u')
        have "well_formed d" if "graph_checks d = Ok w" for w
          using checks limits preflight some that
          by (auto simp: well_formed_def validate_limits_eq_Ok preflight_routes_eq_Ok Suc_le_eq
              MAX_GRAPH_EDGES_def)
        then show ?thesis
          using checks unfolding v limits preflight bindr.simps by (auto split: outcome.splits)
      next
        case (Err g)
        then have "for_each preflight_step (wf_steps d) 0 = Err g"
          by (auto simp: preflight_routes_def bindr_eq_Err)
        from preflight_steps_Err [OF this] show ?thesis
          using limits Err by (auto simp: v MAX_GRAPH_EDGES_def)
      qed (use preflight_routes_no_panic in auto)
    next
      case (Err g)
      then show ?thesis by (simp add: v validate_limits_Err)
    next
      case Panic
      then show ?thesis by (auto simp: validate_limits_def Let_def split: if_splits)
    qed
  qed
qed

lemma defect_refutes:
  assumes "defect d g"
  shows "\<not> well_formed d"
proof (cases g)
  case (InvalidExecutionLimit f n m)
  have "1 \<le> max_steps (wf_limits d) \<longleftrightarrow> 1 \<le> unat (max_steps (wf_limits d))"
    "max_steps (wf_limits d) \<le> 100000 \<longleftrightarrow> unat (max_steps (wf_limits d)) \<le> 100000"
    by (simp_all add: word_le_nat_alt)
  then show ?thesis
    using assms unfolding InvalidExecutionLimit well_formed_def by auto
next
  case (EmptyChoices i)
  then show ?thesis using assms by (force simp: well_formed_def has_routes_def)
next
  case (DuplicateChoice i c)
  then show ?thesis using assms by (force simp: well_formed_def)
next
  case (MissingTarget i r t)
  then obtain step where "(i, t) \<in> graph_edges d" "t \<notin> graph_nodes d"
    using assms by (auto simp: graph_edges_def targets_routes_of)
  then show ?thesis by (auto simp: well_formed_def)
qed (use assms in \<open>auto simp: well_formed_def\<close>)

lemma validate_eq_Ok:
  assumes "bt_ok (wf_steps d)"
  shows "validate d = Ok w \<longleftrightarrow> well_formed d \<and> w = ValidatedWorkflow d"
proof (cases "validate d")
  case (Err g)
  then show ?thesis
    using validate_spec [OF assms] defect_refutes [of d g] by auto
qed (use validate_spec [OF assms] in auto)

section \<open>The contract of a validated graph\<close>

fun walk :: "('v \<times> 'v) set \<Rightarrow> 'v list \<Rightarrow> bool" where
  "walk e (u # v # vs) = ((u, v) \<in> e \<and> walk e (v # vs))"
| "walk e _ = True"

lemma walk_trancl: "walk e (u # vs) \<Longrightarrow> v \<in> set vs \<Longrightarrow> (u, v) \<in> e\<^sup>+"
proof (induction vs arbitrary: u)
  case (Cons w vs)
  then show ?case
    by (cases "v = w") (auto intro: trancl_into_trancl2)
qed simp

lemma walk_ConsD: "walk e (v # vs) \<Longrightarrow> walk e vs"
  by (cases vs) auto

locale route_graph =
  fixes okg :: "'g \<Rightarrow> bool"
    and nodes :: "'g \<Rightarrow> 'v set"
    and edges :: "'g \<Rightarrow> ('v \<times> 'v) set"
    and entry :: "'g \<Rightarrow> 'v"
  assumes finite_nodes: "okg g \<Longrightarrow> finite (nodes g)"
    and edges_closed: "okg g \<Longrightarrow> edges g \<subseteq> nodes g \<times> nodes g"
    and edges_acyclic: "okg g \<Longrightarrow> acyclic (edges g)"
    and entry_node: "okg g \<Longrightarrow> entry g \<in> nodes g"
    and all_reachable: "okg g \<Longrightarrow> nodes g \<subseteq> (edges g)\<^sup>* `` {entry g}"
begin

lemma walk_distinct: "okg g \<Longrightarrow> walk (edges g) vs \<Longrightarrow> distinct vs"
proof (induction vs)
  case (Cons v vs)
  then have "v \<notin> set vs"
    using edges_acyclic [of g] walk_trancl [of "edges g" v vs v] by (auto simp: acyclic_def)
  then show ?case using Cons by (auto dest: walk_ConsD)
qed simp

lemma walk_bounded:
  "okg g \<Longrightarrow> walk (edges g) vs \<Longrightarrow> set vs \<subseteq> nodes g \<Longrightarrow> length vs \<le> card (nodes g)"
  using walk_distinct [of g vs] card_mono [of "nodes g" "set vs"] finite_nodes [of g]
  by (simp add: distinct_card)

lemma edges_wf: "okg g \<Longrightarrow> wf ((edges g)\<inverse>)"
  using edges_acyclic finite_nodes edges_closed
  by (intro finite_acyclic_wf_converse) (auto intro: finite_subset [OF edges_closed])

lemma exit_exists: "okg g \<Longrightarrow> \<exists>v \<in> nodes g. \<forall>w. (v, w) \<notin> edges g"
  using wfE_min [OF edges_wf entry_node, of g g] edges_closed [of g] by (metis converse_iff mem_Sigma_iff subsetD)

lemma entry_has_no_predecessor: "okg g \<Longrightarrow> (v, entry g) \<notin> edges g"
proof
  assume g: "okg g" and e: "(v, entry g) \<in> edges g"
  then have "(entry g, v) \<in> (edges g)\<^sup>*" using edges_closed all_reachable by blast
  then have "(entry g, entry g) \<in> (edges g)\<^sup>+" using e by (rule rtrancl_into_trancl1)
  then show False using edges_acyclic [OF g] by (auto simp: acyclic_def)
qed

end

interpretation validated: route_graph "\<lambda>d. bt_ok (wf_steps d) \<and> is_ok (validate d)"
  graph_nodes graph_edges wf_entry
  by unfold_locales (auto simp: validate_eq_Ok well_formed_def graph_nodes_def)

section \<open>Route selection\<close>

lemma select_route_edge:
  assumes "select_route (ValidatedWorkflow d) i sel = Ok (Step t)"
  shows "(i, t) \<in> graph_edges d"
proof -
  obtain step where step: "bt_get (wf_steps d) i = Some step"
    using assms by (auto simp: select_route_def)
  have "\<exists>r. (r, Step t) \<in> set (routes_of step)"
    using assms step
    by (auto simp: select_route_def set_routes_of dest!: find_SomeD
        split: route_selection.splits routes.splits)
  then show ?thesis
    using bt_get_in_set [OF step] by (auto simp: graph_edges_def targets_routes_of)
qed

lemma find_choice: "distinct (map fst cs) \<Longrightarrow> (c, t) \<in> set cs \<Longrightarrow> find (\<lambda>p. fst p = c) cs = Some (c, t)"
  by (induction cs) force+

section \<open>Concrete definitions\<close>

definition sample_step :: "routes \<Rightarrow> transition_target option \<Rightarrow> int step_definition" where
  "sample_step r f = \<lparr>step_type = ''agent.run'', step_inputs = [], step_routes = r, final_error = f\<rparr>"

definition sample_definition :: "step_id \<Rightarrow> (step_id \<times> int step_definition) list \<Rightarrow> int workflow_definition" where
  "sample_definition i ss = \<lparr>format_version = 1, workflow_id = 0, version_id = 0, input_schema = None,
     parameter_schema = None, output_schema = None, resources = [], wf_entry = i, wf_steps = ss,
     wf_limits = \<lparr>root_budget = RootBudgetLimits_default, max_steps = 10, max_context_bytes = 1024\<rparr>\<rparr>"

text \<open>A branch to a second step, with an error route.\<close>

definition branching :: "int workflow_definition" where
  "branching = sample_definition ''a''
     [(''a'', sample_step (Routes_Choices [(''yes'', Step ''b''), (''no'', End)]) (Some End)),
      (''b'', sample_step (Routes_Success End) None)]"

text \<open>A cycle between \<open>y\<close> and \<open>z\<close> that leaves to \<open>b\<close>, a step on no cycle.\<close>

definition cyclic :: "int workflow_definition" where
  "cyclic = sample_definition ''y''
     [(''b'', sample_step (Routes_Success End) None),
      (''y'', sample_step (Routes_Success (Step ''z'')) None),
      (''z'', sample_step (Routes_Choices [(''again'', Step ''y''), (''leave'', Step ''b'')]) None)]"

lemma branching_checked: "graph_checks branching = Ok (ValidatedWorkflow branching)"
  unfolding graph_checks_def by code_simp

lemma cyclic_checked: "graph_checks cyclic = Err (Cycle ''b'')"
  unfolding graph_checks_def by code_simp

lemma preflight_samples:
  "validate_limits branching = Ok ()" "validate_limits cyclic = Ok ()"
  "preflight_routes branching = Ok ()" "preflight_routes cyclic = Ok ()"
  by (simp_all add: validate_limits_eq_Ok preflight_routes_eq_Ok branching_def cyclic_def sample_definition_def
      sample_step_def has_routes_def route_count_def MAX_GRAPH_EDGES_def)

lemma branching_ok: "bt_ok (wf_steps branching)" "validate branching = Ok (ValidatedWorkflow branching)"
proof -
  show "bt_ok (wf_steps branching)" by code_simp
  have "validate branching = bindr (validate_limits branching) (\<lambda>_.
      bindr (preflight_routes branching) (\<lambda>_. graph_checks branching))"
    by (rule validate_staged) (simp_all add: branching_def sample_definition_def bt_keys_def)
  then show "validate branching = Ok (ValidatedWorkflow branching)"
    by (simp add: preflight_samples branching_checked)
qed

lemma cyclic_refused: "validate cyclic = Err (Cycle ''b'')"
proof -
  have "validate cyclic = bindr (validate_limits cyclic) (\<lambda>_.
      bindr (preflight_routes cyclic) (\<lambda>_. graph_checks cyclic))"
    by (rule validate_staged) (simp_all add: cyclic_def sample_definition_def bt_keys_def)
  then show ?thesis
    by (simp add: preflight_samples cyclic_checked)
qed

section \<open>Properties\<close>

text \<open>
  C7. \<open>validate\<close> accepts exactly the well-formed definitions and returns them unchanged:
  1 to 1024 steps, an entry that is a step, execution limits in range, at most 8192 routes,
  no empty or duplicated choices, every target a step, no cycle, and every step reachable
  from the entry.
\<close>

theorem validate_accepts_exactly_the_well_formed:
  assumes "bt_ok (wf_steps d)"
  shows "validate d = Ok w \<longleftrightarrow> well_formed d \<and> w = ValidatedWorkflow d"
  using assms by (rule validate_eq_Ok)

theorem validate_accepts_exactly_the_well_formed_witness:
  "well_formed branching \<and> \<not> well_formed cyclic"
proof -
  have "bt_ok (wf_steps cyclic)" by code_simp
  then have "\<not> well_formed cyclic"
    using validate_accepts_exactly_the_well_formed [of cyclic "ValidatedWorkflow cyclic"]
    by (simp add: cyclic_refused)
  then show ?thesis
    using validate_accepts_exactly_the_well_formed [OF branching_ok(1)] branching_ok(2) by blast
qed

text \<open>
  A refusal is truthful and validation never panics: every error \<open>validate\<close> returns
  names a defect the definition has (the missing step, the repeated choice, the unreachable
  step, the limit out of range with its value), and none of its \<open>expect\<close>, indexing and
  subtraction sites can fail.
\<close>

theorem validate_refusals_are_truthful:
  assumes "bt_ok (wf_steps d)"
  shows "validate d \<noteq> Panic \<and> (\<forall>g. validate d = Err g \<longrightarrow> defect d g)"
  using validate_spec [OF assms] by auto

theorem validate_refusals_are_truthful_witness:
  "validate cyclic = Err (Cycle ''b'') \<and> \<not> acyclic (graph_edges cyclic)"
proof -
  have "bt_ok (wf_steps cyclic)" by code_simp
  from validate_refusals_are_truthful [OF this] show ?thesis
    by (simp add: cyclic_refused)
qed

text \<open>
  C35. The step named by a cycle error need not lie on a cycle, although the message reads
  "contains a cycle involving" it: it is the first step in name order that the
  topological sort could not release, and steps downstream of a cycle are never released
  either. Here \<open>y\<close> and \<open>z\<close> form the cycle and the error names \<open>b\<close>.
\<close>

theorem cycle_error_may_name_a_step_on_no_cycle:
  "validate cyclic = Err (Cycle ''b'') \<and> (''b'', ''b'') \<notin> (graph_edges cyclic)\<^sup>+"
proof -
  have "(''b'', t) \<notin> graph_edges cyclic" for t
    by (auto simp: graph_edges_def targets_def cyclic_def sample_definition_def sample_step_def)
  then have "(''b'', ''b'') \<notin> (graph_edges cyclic)\<^sup>+"
    by (metis tranclD)
  then show ?thesis by (simp add: cyclic_refused)
qed

text \<open>
  No run of a validated workflow repeats a step: any sequence of steps that follows its
  routes has no duplicates and at most as many steps as the definition, hence at most 1024;
  nothing leads back to the entry, and some step can only end.
\<close>

theorem validated_walks_are_bounded:
  assumes "bt_ok (wf_steps d)" and "validate d = Ok w"
  shows "(\<forall>vs. walk (graph_edges d) vs \<longrightarrow> set vs \<subseteq> graph_nodes d \<longrightarrow>
        distinct vs \<and> length vs \<le> length (wf_steps d) \<and> length vs \<le> 1024)
    \<and> (\<forall>v. (v, wf_entry d) \<notin> graph_edges d)
    \<and> (\<exists>v \<in> graph_nodes d. \<forall>t. (v, t) \<notin> graph_edges d)"
proof -
  have g: "bt_ok (wf_steps d) \<and> is_ok (validate d)" using assms by simp
  have n: "length (wf_steps d) \<le> 1024"
    using assms by (simp add: validate_eq_Ok well_formed_def)
  have "card (graph_nodes d) \<le> length (wf_steps d)"
    unfolding graph_nodes_def bt_keys_def by (metis card_length length_map)
  then show ?thesis
    using validated.walk_distinct [OF g] validated.walk_bounded [OF g] n
      validated.entry_has_no_predecessor [OF g] validated.exit_exists [OF g]
    by (meson le_trans)
qed

theorem validated_walks_are_bounded_witness:
  "\<forall>v. (v, ''a'') \<notin> graph_edges branching"
  using validated_walks_are_bounded [OF branching_ok]
  by (simp add: branching_def sample_definition_def)

text \<open>
  Route selection follows the validated graph: a selected step is an existing step
  joined to the current one by an edge, each declared choice of a step selects exactly its
  own target, and selection on a known step fails only for a selection the step does not
  declare.
\<close>

theorem selected_routes_are_edges:
  assumes "bt_ok (wf_steps d)" and "validate d = Ok w"
  shows "(\<forall>i sel t. select_route w i sel = Ok (Step t) \<longrightarrow> (i, t) \<in> graph_edges d \<and> t \<in> graph_nodes d)
    \<and> (\<forall>i step. bt_get (wf_steps d) i = Some step \<longrightarrow>
        (\<forall>t. step_routes step = Routes_Success t \<longrightarrow> select_route w i Select_Success = Ok t) \<and>
        (\<forall>cs c t. step_routes step = Routes_Choices cs \<longrightarrow> (c, t) \<in> set cs
           \<longrightarrow> select_route w i (Select_Choice c) = Ok t) \<and>
        (\<forall>cs c. step_routes step = Routes_Choices cs \<longrightarrow> c \<notin> fst ` set cs
           \<longrightarrow> select_route w i (Select_Choice c) = Err (UnknownChoice i c)))"
proof -
  have w: "w = ValidatedWorkflow d" and wf: "well_formed d"
    using assms by (simp_all add: validate_eq_Ok)
  have "graph_edges d \<subseteq> graph_nodes d \<times> graph_nodes d" using wf by (simp add: well_formed_def)
  then have edges: "select_route w i sel = Ok (Step t) \<Longrightarrow> (i, t) \<in> graph_edges d \<and> t \<in> graph_nodes d" for i sel t
    using select_route_edge [of d i sel t] w by auto
  have distinct: "distinct (map fst cs)" if "bt_get (wf_steps d) i = Some step" "step_routes step = Routes_Choices cs"
    for i step cs
    using wf bt_get_in_set [OF that(1)] that(2) by (force simp: well_formed_def choices_ok_def)
  have missing: "find (\<lambda>p. fst p = c) cs = None" if "c \<notin> fst ` set cs" for c and cs :: "(string \<times> transition_target) list"
    using that by (force simp: find_None_iff)
  show ?thesis
    using edges find_choice [OF distinct] missing by (auto simp: select_route_def w)
qed

theorem selected_routes_are_edges_witness:
  "select_route (ValidatedWorkflow branching) ''a'' (Select_Choice ''yes'') = Ok (Step ''b'')
   \<and> (''a'', ''b'') \<in> graph_edges branching"
proof -
  have "select_route (ValidatedWorkflow branching) ''a'' (Select_Choice ''yes'') = Ok (Step ''b'')"
    by code_simp
  with selected_routes_are_edges [OF branching_ok] show ?thesis by blast
qed

end
