(* ===== verification/Engine.thy ===== *)
theory Engine
  imports Graph Access_Level
begin

text \<open>
  The pure transition decision of the engine, \<open>src/src/domain/workflow/outcome.rs\<close>, and
  the run state machine, \<open>src/src/domain/workflow/state.rs\<close>. Instants
  (\<open>DateTime<Utc>\<close>) are integers.
\<close>

section \<open>Model\<close>

subsection \<open>Step outcomes\<close>

datatype waiting_reason = Decision | Event | Timer | ChildRun | Effect | Reconciliation

definition MAX_DIAGNOSTIC_BYTES :: nat where
  "MAX_DIAGNOSTIC_BYTES = 4096"

definition KNOWLEDGE_AUDIENCE_BELOW_CONTENT :: string where
  "KNOWLEDGE_AUDIENCE_BELOW_CONTENT = ''knowledge.audience_below_content''"

datatype completion_route = Completion_Success | Completion_Choice choice_name

datatype outcome_error =
    Outcome_Context context_error
  | Outcome_Route route_error
  | Outcome_ExpiredDeadline
  | DiagnosticTooLong

record 'n completed_step =
  completed_output :: "'n json"
  completed_route :: completion_route

definition CompletedStep_new ::
    "('n, 'd) externals \<Rightarrow> 'n json \<Rightarrow> completion_route \<Rightarrow> context_limits
      \<Rightarrow> ('n completed_step, outcome_error) outcome" where
  "CompletedStep_new x output route limits =
     bindr (map_err Outcome_Context (validate_context_value x output limits)) (\<lambda>_.
     Ok \<lparr>completed_output = output, completed_route = route\<rparr>)"

record durable_wait_request =
  wait_id :: uuid
  wait_reason :: waiting_reason
  wait_deadline :: instant

definition DurableWaitRequest_new ::
    "uuid \<Rightarrow> waiting_reason \<Rightarrow> instant \<Rightarrow> instant \<Rightarrow> (durable_wait_request, outcome_error) outcome" where
  "DurableWaitRequest_new i reason deadline now =
     (if deadline \<le> now then Err Outcome_ExpiredDeadline
      else Ok \<lparr>wait_id = i, wait_reason = reason, wait_deadline = deadline\<rparr>)"

datatype failure_class = Retryable | TerminalFailure

record knowledge_refusal =
  refused_content :: access_level
  refused_destination :: access_level

record step_failure =
  refusal :: "knowledge_refusal option"
  failure_kind :: failure_class
  code :: failure_code
  diagnostic :: "string option"

definition from_knowledge_refusal :: "knowledge_refusal \<Rightarrow> (step_failure, outcome_error) outcome" where
  "from_knowledge_refusal r =
     (case FailureCode_parse KNOWLEDGE_AUDIENCE_BELOW_CONTENT of
        Ok c \<Rightarrow> Ok \<lparr>refusal = Some r, failure_kind = TerminalFailure, code = c, diagnostic = None\<rparr>
      | _ \<Rightarrow> Panic)"

definition StepFailure_new ::
    "failure_class \<Rightarrow> failure_code \<Rightarrow> string option \<Rightarrow> (step_failure, outcome_error) outcome" where
  "StepFailure_new k c diag =
     (if (case diag of None \<Rightarrow> False | Some text \<Rightarrow> length text > MAX_DIAGNOSTIC_BYTES)
      then Err DiagnosticTooLong
      else Ok \<lparr>refusal = None, failure_kind = k, code = c, diagnostic = diag\<rparr>)"

definition fails_run :: "step_failure \<Rightarrow> bool" where
  "fails_run f \<longleftrightarrow> code f = KNOWLEDGE_AUDIENCE_BELOW_CONTENT"

datatype 'n step_outcome =
    Outcome_Completed "'n completed_step"
  | Outcome_Waiting durable_wait_request
  | Outcome_Failed step_failure

datatype retry_eligibility = Available | Exhausted

datatype 'n engine_disposition =
    Advance "'n completed_step" transition_target
  | Park durable_wait_request
  | Retry step_failure
  | Terminal step_failure "transition_target option"

fun route_selection_of :: "completion_route \<Rightarrow> route_selection" where
  "route_selection_of Completion_Success = Select_Success"
| "route_selection_of (Completion_Choice c) = Select_Choice c"

definition resolve_outcome ::
    "('n, 'd) externals \<Rightarrow> 'n validated_workflow \<Rightarrow> step_id \<Rightarrow> 'n step_outcome \<Rightarrow> retry_eligibility
      \<Rightarrow> instant \<Rightarrow> ('n engine_disposition, outcome_error) outcome" where
  "resolve_outcome x w step result retry now =
     (if \<not> bt_contains (wf_steps (definition_of w)) step then Err (Outcome_Route (UnknownStep step))
      else
        (case result of
           Outcome_Completed completed \<Rightarrow>
             bindr (map_err Outcome_Context
                 (validate_context_value x (completed_output completed) (workflow_context_limits w))) (\<lambda>_.
             bindr (map_err Outcome_Route
                 (select_route w step (route_selection_of (completed_route completed)))) (\<lambda>target.
             Ok (Advance completed target)))
         | Outcome_Waiting request \<Rightarrow>
             if wait_deadline request \<le> now then Err Outcome_ExpiredDeadline else Ok (Park request)
         | Outcome_Failed failure \<Rightarrow>
             if fails_run failure then Ok (Terminal failure None)
             else if failure_kind failure = Retryable \<and> retry = Available then Ok (Retry failure)
             else
               (case select_route w step Select_FinalError of
                  Ok target \<Rightarrow> Ok (Terminal failure (Some target))
                | Err (MissingFinalError _) \<Rightarrow> Ok (Terminal failure None)
                | Err e \<Rightarrow> Err (Outcome_Route e)
                | Panic \<Rightarrow> Panic)))"

subsection \<open>Run states\<close>

datatype run_state = Queued | Running | Waiting waiting_reason | Succeeded | Failed | Cancelled

datatype run_state_error = InvalidTransition run_state string | Run_ExpiredDeadline

definition is_terminal :: "run_state \<Rightarrow> bool" where
  "is_terminal s \<longleftrightarrow> (case s of Succeeded \<Rightarrow> True | Failed \<Rightarrow> True | Cancelled \<Rightarrow> True | _ \<Rightarrow> False)"

fun stored_name :: "run_state \<Rightarrow> string" where
  "stored_name Queued = ''queued''"
| "stored_name Running = ''running''"
| "stored_name (Waiting _) = ''waiting''"
| "stored_name Succeeded = ''succeeded''"
| "stored_name Failed = ''failed''"
| "stored_name Cancelled = ''cancelled''"

definition can_transition_to :: "run_state \<Rightarrow> run_state \<Rightarrow> bool" where
  "can_transition_to s next \<longleftrightarrow>
     (if stored_name s = stored_name next then True
      else
        (case (s, next) of
           (Queued, Running) \<Rightarrow> True | (Queued, Waiting _) \<Rightarrow> True | (Queued, Succeeded) \<Rightarrow> True
         | (Queued, Failed) \<Rightarrow> True | (Queued, Cancelled) \<Rightarrow> True
         | (Running, Waiting _) \<Rightarrow> True | (Running, Succeeded) \<Rightarrow> True
         | (Running, Failed) \<Rightarrow> True | (Running, Cancelled) \<Rightarrow> True
         | (Waiting _, Running) \<Rightarrow> True | (Waiting _, Failed) \<Rightarrow> True | (Waiting _, Cancelled) \<Rightarrow> True
         | (Failed, Running) \<Rightarrow> True
         | _ \<Rightarrow> False))"

definition invalid :: "run_state \<Rightarrow> string \<Rightarrow> run_state_error" where
  "invalid s action = InvalidTransition s action"

definition start :: "run_state \<Rightarrow> (run_state, run_state_error) outcome" where
  "start s = (case s of Queued \<Rightarrow> Ok Running | _ \<Rightarrow> Err (invalid s ''start''))"

definition resume :: "run_state \<Rightarrow> (run_state, run_state_error) outcome" where
  "resume s = (case s of Waiting _ \<Rightarrow> Ok Running | _ \<Rightarrow> Err (invalid s ''resume''))"

definition park ::
    "run_state \<Rightarrow> durable_wait_request \<Rightarrow> instant \<Rightarrow> (run_state, run_state_error) outcome" where
  "park s request now =
     (if s \<noteq> Running then Err (invalid s ''park'')
      else if wait_deadline request \<le> now then Err Run_ExpiredDeadline
      else Ok (Waiting (wait_reason request)))"

fun routed :: "transition_target \<Rightarrow> run_state" where
  "routed (Step _) = Running"
| "routed End = Succeeded"

definition apply_disposition ::
    "run_state \<Rightarrow> 'n engine_disposition \<Rightarrow> instant \<Rightarrow> (run_state, run_state_error) outcome" where
  "apply_disposition s disposition now =
     (if s \<noteq> Running then Err (invalid s ''apply outcome'')
      else
        (case disposition of
           Advance _ target \<Rightarrow> Ok (routed target)
         | Park request \<Rightarrow> park s request now
         | Retry _ \<Rightarrow> Ok Running
         | Terminal _ target \<Rightarrow> Ok (case target of None \<Rightarrow> Failed | Some t \<Rightarrow> routed t)))"

definition fail_terminal :: "run_state \<Rightarrow> (run_state, run_state_error) outcome" where
  "fail_terminal s = (if is_terminal s then Err (invalid s ''fail'') else Ok Failed)"

definition cancel :: "run_state \<Rightarrow> run_state" where
  "cancel s = (if is_terminal s then s else Cancelled)"

end
