(* ===== verification/Engine_Facts.thy ===== *)
theory Engine_Facts
  imports Engine Graph_Facts Binding_Facts
begin

text \<open>
  The engine as a step relation. \<open>state_step\<close> is the run state machine under every
  operation of \<open>state.rs\<close>; \<open>run_step\<close> is a run of a validated workflow, which
  remembers the steps it has visited. Invariants are proved by rule induction.
\<close>

section \<open>The run state machine\<close>

text \<open>
  \<open>apply\<close> reads only the target or the wait of a disposition, never the output a completed
  step carries, so the numbers inside outputs are immaterial here (\<open>unit\<close>).
\<close>

inductive state_step :: "run_state \<Rightarrow> run_state \<Rightarrow> bool" where
  starts: "start s = Ok s' \<Longrightarrow> state_step s s'"
| resumes: "resume s = Ok s' \<Longrightarrow> state_step s s'"
| applies: "apply_disposition s (disposition :: unit engine_disposition) now = Ok s' \<Longrightarrow> state_step s s'"
| fails: "fail_terminal s = Ok s' \<Longrightarrow> state_step s s'"
| cancels: "state_step s (cancel s)"

lemmas state_ops = start_def resume_def apply_disposition_def park_def fail_terminal_def cancel_def
  is_terminal_def can_transition_to_def

lemma routed_cases: "routed t = Running \<or> routed t = Succeeded"
  by (cases t) auto

lemma apply_from_Running:
  "apply_disposition s disposition now = Ok s' \<Longrightarrow> s = Running \<and> s' \<noteq> Queued \<and> s' \<noteq> Cancelled"
  by (auto simp: apply_disposition_def park_def split: engine_disposition.splits if_splits option.splits)
    (metis routed_cases run_state.distinct)+

lemma state_step_allowed: "state_step s s' \<Longrightarrow> can_transition_to s s'"
proof (induction rule: state_step.induct)
  case (applies s disposition now s')
  then show ?case
    using apply_from_Running [OF applies] by (cases s') (auto simp: can_transition_to_def)
qed (auto simp: state_ops split: run_state.splits if_splits)

lemma to_Queued: "can_transition_to s Queued \<longleftrightarrow> s = Queued"
  by (cases s) (simp_all add: can_transition_to_def)

lemma terminal_stays: "is_terminal s \<Longrightarrow> state_step s s' \<Longrightarrow> s' = s"
  by (erule state_step.cases) (auto simp: state_ops split: run_state.splits)

interpretation runs: guarded_machine state_step can_transition_to is_terminal
  by unfold_locales (auto intro: state_step_allowed terminal_stays)

section \<open>Outcome resolution\<close>

lemma select_final_error:
  "bt_get (wf_steps (definition_of w)) i = Some step \<Longrightarrow>
     select_route w i Select_FinalError =
       (case final_error step of Some t \<Rightarrow> Ok t | None \<Rightarrow> Err (MissingFinalError i))"
  by (simp add: select_route_def split: option.splits)

lemma resolve_failed:
  assumes "bt_get (wf_steps (definition_of w)) i = Some step"
  shows "resolve_outcome x w i (Outcome_Failed f) retry now =
    Ok (if fails_run f then Terminal f None
        else if failure_kind f = Retryable \<and> retry = Available then Retry f
        else Terminal f (final_error step))"
  using assms
  by (simp add: resolve_outcome_def bt_contains_def select_final_error split: option.splits)

lemma resolve_known_step:
  "resolve_outcome x w i r retry now = Ok disp \<Longrightarrow> \<exists>step. bt_get (wf_steps (definition_of w)) i = Some step"
  by (auto simp: resolve_outcome_def bt_contains_def split: if_splits)

text \<open>The step a disposition moves the run to, if any.\<close>

fun successor :: "'n engine_disposition \<Rightarrow> step_id option" where
  "successor (Advance _ (Step t)) = Some t"
| "successor (Terminal _ (Some (Step t))) = Some t"
| "successor _ = None"

lemma successor_edge:
  assumes "resolve_outcome x (ValidatedWorkflow d) i r retry now = Ok disp" and "successor disp = Some t"
  shows "(i, t) \<in> graph_edges d"
proof -
  obtain step where step: "bt_get (wf_steps d) i = Some step"
    using resolve_known_step [OF assms(1)] by auto
  show ?thesis
  proof (cases r)
    case (Outcome_Completed c)
    then obtain target where "select_route (ValidatedWorkflow d) i (route_selection_of (completed_route c)) = Ok target"
      "disp = Advance c target"
      using assms(1) by (auto simp: resolve_outcome_def split: if_splits)
    then show ?thesis
      using assms(2) select_route_edge by (cases target) auto
  next
    case (Outcome_Waiting q)
    then show ?thesis
      using assms by (auto simp: resolve_outcome_def split: if_splits)
  next
    case (Outcome_Failed f)
    then have "final_error step = Some (Step t)"
      using assms resolve_failed [of "ValidatedWorkflow d" i step x f retry now] step
      by (auto split: if_splits elim: successor.elims)
    then show ?thesis
      using select_route_edge [of d i Select_FinalError t] select_final_error [of "ValidatedWorkflow d" i step] step
      by simp
  qed
qed

section \<open>Runs of a validated workflow\<close>

text \<open>A run: its state and the steps it has visited, the current one first.\<close>

record run_config =
  config_state :: run_state
  trail :: "step_id list"

inductive run_step ::
    "('n, 'd) externals \<Rightarrow> 'n workflow_definition \<Rightarrow> run_config \<Rightarrow> run_config \<Rightarrow> bool"
  for x d where
  run_outcome: "resolve_outcome x (ValidatedWorkflow d) i result retry now = Ok disp
    \<Longrightarrow> apply_disposition s disp now' = Ok s'
    \<Longrightarrow> run_step x d \<lparr>config_state = s, trail = i # tr\<rparr>
          \<lparr>config_state = s', trail = (case successor disp of Some t \<Rightarrow> t # i # tr | None \<Rightarrow> i # tr)\<rparr>"
| run_start: "start s = Ok s' \<Longrightarrow> run_step x d \<lparr>config_state = s, trail = tr\<rparr> \<lparr>config_state = s', trail = tr\<rparr>"
| run_resume: "resume s = Ok s' \<Longrightarrow> run_step x d \<lparr>config_state = s, trail = tr\<rparr> \<lparr>config_state = s', trail = tr\<rparr>"
| run_fail: "fail_terminal s = Ok s' \<Longrightarrow> run_step x d \<lparr>config_state = s, trail = tr\<rparr> \<lparr>config_state = s', trail = tr\<rparr>"
| run_cancel: "run_step x d \<lparr>config_state = s, trail = tr\<rparr> \<lparr>config_state = cancel s, trail = tr\<rparr>"

definition initial_config :: "'n workflow_definition \<Rightarrow> run_config" where
  "initial_config d = \<lparr>config_state = Queued, trail = [wf_entry d]\<rparr>"

fun without_output :: "'n engine_disposition \<Rightarrow> unit engine_disposition" where
  "without_output (Advance c t) = Advance \<lparr>completed_output = VNull, completed_route = completed_route c\<rparr> t"
| "without_output (Park q) = Park q"
| "without_output (Retry f) = Retry f"
| "without_output (Terminal f t) = Terminal f t"

lemma apply_ignores_output: "apply_disposition s (without_output disposition) now = apply_disposition s disposition now"
  by (cases disposition) (simp_all add: apply_disposition_def)

lemma applies_any: "apply_disposition s disposition now = Ok s' \<Longrightarrow> state_step s s'"
  by (rule state_step.applies [of s "without_output disposition" now]) (simp add: apply_ignores_output)

lemma run_step_state: "run_step x d c c' \<Longrightarrow> state_step (config_state c) (config_state c')"
  by (induction rule: run_step.induct) (auto intro: state_step.intros applies_any)

definition trail_ok :: "'n workflow_definition \<Rightarrow> run_config \<Rightarrow> bool" where
  "trail_ok d c \<longleftrightarrow> walk ((graph_edges d)\<inverse>) (trail c) \<and> set (trail c) \<subseteq> graph_nodes d \<and> trail c \<noteq> []
     \<and> last (trail c) = wf_entry d"

lemma run_step_trail:
  assumes "run_step x d c c'" and "graph_edges d \<subseteq> graph_nodes d \<times> graph_nodes d" and "trail_ok d c"
  shows "trail_ok d c'"
  using assms
proof (induction rule: run_step.induct)
  case (run_outcome i result retry now disp s now' s' tr)
  then show ?case
    using successor_edge [OF run_outcome(1)] by (cases "successor disp") (auto simp: trail_ok_def)
qed (simp_all add: trail_ok_def)

lemma walk_snoc: "walk e (vs @ [u]) \<Longrightarrow> (u, v) \<in> e \<Longrightarrow> walk e (vs @ [u, v])"
  by (induction e vs rule: walk.induct) auto

lemma walk_rev: "walk (e\<inverse>) vs \<Longrightarrow> walk e (rev vs)"
proof (induction vs)
  case (Cons v vs)
  then show ?case
    by (cases vs) (auto dest: walk_ConsD intro: walk_snoc)
qed simp

lemma reachable_trail:
  assumes "(run_step x d)\<^sup>*\<^sup>* (initial_config d) c" and "bt_ok (wf_steps d)" and "validate d = Ok w"
  shows "trail_ok d c"
proof -
  have wf: "graph_edges d \<subseteq> graph_nodes d \<times> graph_nodes d" "wf_entry d \<in> graph_nodes d"
    using assms(2,3) by (simp_all add: validate_eq_Ok well_formed_def)
  then have init: "trail_ok d (initial_config d)"
    by (simp add: trail_ok_def initial_config_def)
  from assms(1) show ?thesis
    by (induction rule: rtranclp_induct) (use init wf run_step_trail in blast)+
qed

section \<open>Properties\<close>

text \<open>
  C2. A run visits each step at most once: in every state reachable from the initial one by
  engine decisions, starts, resumptions, failures and cancellations, retries and waits
  included, the visited steps are distinct steps of the definition, they follow its routes
  from the entry, and there are at most 1024 of them.
\<close>

theorem runs_visit_each_step_at_most_once:
  assumes "bt_ok (wf_steps d)" and "validate d = Ok w" and "(run_step x d)\<^sup>*\<^sup>* (initial_config d) c"
  shows "distinct (trail c) \<and> set (trail c) \<subseteq> graph_nodes d \<and> walk (graph_edges d) (rev (trail c))
    \<and> length (trail c) \<le> 1024 \<and> hd (rev (trail c)) = wf_entry d"
proof -
  have ok: "trail_ok d c" using reachable_trail [OF assms(3,1,2)] .
  have g: "bt_ok (wf_steps d) \<and> is_ok (validate d)" using assms by simp
  have w: "walk (graph_edges d) (rev (trail c))" and n: "set (rev (trail c)) \<subseteq> graph_nodes d"
    using ok by (auto simp: trail_ok_def walk_rev)
  have "length (wf_steps d) \<le> 1024" using assms by (simp add: validate_eq_Ok well_formed_def)
  then have "card (graph_nodes d) \<le> 1024"
    unfolding graph_nodes_def bt_keys_def by (metis card_length le_trans length_map)
  then show ?thesis
    using validated.walk_distinct [OF g w] validated.walk_bounded [OF g w n] ok
    by (simp add: trail_ok_def hd_rev w [unfolded trail_ok_def] walk_rev)
qed

theorem runs_visit_each_step_at_most_once_witness:
  "run_step sample_externals branching (initial_config branching) \<lparr>config_state = Running, trail = [''a'']\<rparr>
   \<and> length (trail \<lparr>config_state = Running, trail = [''a'']\<rparr>) \<le> 1024"
proof -
  have step: "run_step sample_externals branching (initial_config branching)
      \<lparr>config_state = Running, trail = [''a'']\<rparr>"
    using run_step.run_start [of Queued Running sample_externals branching "[''a'']"]
    by (simp add: initial_config_def branching_def sample_definition_def start_def)
  have "(run_step sample_externals branching)\<^sup>*\<^sup>* (initial_config branching)
      \<lparr>config_state = Running, trail = [''a'']\<rparr>"
    using step by (rule r_into_rtranclp)
  from runs_visit_each_step_at_most_once [OF branching_ok this] step show ?thesis by blast
qed

text \<open>
  C26. Every operation conforms to the one transition table, and terminal states are final:
  whatever the engine, a resumer, a failure or a cancellation does to a run, the change is
  one \<open>can_transition_to\<close> admits; a succeeded, failed or cancelled run never changes state
  again through these operations, and no operation returns a run to the queue.
\<close>

theorem run_states_follow_the_table:
  assumes "(run_step x d)\<^sup>*\<^sup>* c c'"
  shows "(is_terminal (config_state c) \<longrightarrow> config_state c' = config_state c)
    \<and> (\<forall>c''. run_step x d c' c'' \<longrightarrow> can_transition_to (config_state c') (config_state c''))
    \<and> (config_state c' = Queued \<longrightarrow> config_state c = Queued)"
proof -
  have steps: "state_step\<^sup>*\<^sup>* (config_state c) (config_state c')"
    using assms by (induction rule: rtranclp_induct) (auto dest: run_step_state)
  then have "config_state c' = Queued \<longrightarrow> config_state c = Queued"
    by (induction rule: rtranclp_induct) (auto dest: state_step_allowed simp: to_Queued)
  moreover have "is_terminal (config_state c) \<longrightarrow> config_state c' = config_state c"
    using runs.final_forever [OF steps] by blast
  moreover have "can_transition_to (config_state c') (config_state c'')" if "run_step x d c' c''" for c''
    using runs.step_allowed [OF run_step_state [OF that]] .
  ultimately show ?thesis by blast
qed

theorem run_states_follow_the_table_witness:
  "can_transition_to (config_state (initial_config branching)) Cancelled"
proof -
  have "run_step sample_externals branching (initial_config branching) \<lparr>config_state = Cancelled, trail = [''a'']\<rparr>"
    using run_step.run_cancel [of sample_externals branching Queued "[''a'']"]
    by (simp add: initial_config_def branching_def sample_definition_def cancel_def is_terminal_def)
  moreover have "(run_step sample_externals branching)\<^sup>*\<^sup>* (initial_config branching) (initial_config branching)"
    by simp
  note run_states_follow_the_table [OF this]
  ultimately show ?thesis
    by (metis run_config.select_convs(1))
qed

text \<open>
  C33. Knowledge refusals fail the run: the failure built from a refusal carries the reserved
  code (its construction cannot panic), and whatever error route the step declares and
  whatever retries remain, the engine ends the run as failed with no successor. So no
  workflow-authored branch runs after an access-level refusal.
\<close>

theorem knowledge_refusals_fail_the_run:
  assumes "bt_get (wf_steps (definition_of w)) i = Some step"
  shows "\<exists>f. from_knowledge_refusal r = Ok f \<and> refusal f = Some r
    \<and> resolve_outcome x w i (Outcome_Failed f) retry now = Ok (Terminal f None)
    \<and> apply_disposition Running (Terminal f None :: 'n engine_disposition) now = Ok Failed"
proof -
  have "FailureCode_parse KNOWLEDGE_AUDIENCE_BELOW_CONTENT = Ok KNOWLEDGE_AUDIENCE_BELOW_CONTENT"
    by code_simp
  then show ?thesis
    by (simp add: resolve_failed [OF assms] from_knowledge_refusal_def fails_run_def apply_disposition_def)
qed

theorem knowledge_refusals_fail_the_run_witness:
  "\<exists>f. from_knowledge_refusal \<lparr>refused_content = L5, refused_destination = L0\<rparr> = Ok f
    \<and> resolve_outcome sample_externals (ValidatedWorkflow branching) ''a'' (Outcome_Failed f) Available 0
        = Ok (Terminal f None)"
proof -
  have "bt_get (wf_steps (definition_of (ValidatedWorkflow branching))) ''a'' =
      Some (sample_step (Routes_Choices [(''yes'', Step ''b''), (''no'', End)]) (Some End))"
    by (simp add: branching_def sample_definition_def bt_get_def)
  from knowledge_refusals_fail_the_run [OF this] show ?thesis by blast
qed

text \<open>
  What the engine decides on each outcome of a known step. A retry is granted exactly
  for a retryable failure, other than the reserved refusal, while the engine says an attempt
  is available: a step cannot grant itself one. A run advances only with an output that
  passed the limits and along a route its step declares. A run parks only on a deadline
  still in the future. A failure is never an engine error.
\<close>

theorem engine_decisions_are_guarded:
  assumes "bt_get (wf_steps (definition_of w)) i = Some step"
  shows "(resolve_outcome x w i r retry now = Ok (Retry f) \<longleftrightarrow>
       r = Outcome_Failed f \<and> \<not> fails_run f \<and> failure_kind f = Retryable \<and> retry = Available)
    \<and> (resolve_outcome x w i r retry now = Ok (Advance c target) \<longleftrightarrow>
       r = Outcome_Completed c
       \<and> validate_context_value x (completed_output c) (workflow_context_limits w) = Ok ()
       \<and> select_route w i (route_selection_of (completed_route c)) = Ok target)
    \<and> (resolve_outcome x w i r retry now = Ok (Park q) \<longleftrightarrow> r = Outcome_Waiting q \<and> now < wait_deadline q)
    \<and> (r = Outcome_Failed f \<longrightarrow> is_ok (resolve_outcome x w i r retry now))"
proof (cases r)
  case (Outcome_Failed g)
  then show ?thesis using resolve_failed [OF assms, of x g retry now] by auto
next
  case (Outcome_Completed k)
  then show ?thesis using assms by (auto simp: resolve_outcome_def bt_contains_def)
next
  case (Outcome_Waiting k)
  then show ?thesis using assms by (auto simp: resolve_outcome_def bt_contains_def)
qed

theorem engine_decisions_are_guarded_witness:
  "resolve_outcome sample_externals (ValidatedWorkflow branching) ''a''
     (Outcome_Waiting \<lparr>wait_id = 7, wait_reason = Timer, wait_deadline = 5\<rparr>) Available 4
   = Ok (Park \<lparr>wait_id = 7, wait_reason = Timer, wait_deadline = 5\<rparr>)"
proof -
  have "bt_get (wf_steps (definition_of (ValidatedWorkflow branching))) ''a'' =
      Some (sample_step (Routes_Choices [(''yes'', Step ''b''), (''no'', End)]) (Some End))"
    by (simp add: branching_def sample_definition_def bt_get_def)
  from engine_decisions_are_guarded [OF this, where x = sample_externals and retry = Available and now = 4
      and r = "Outcome_Waiting \<lparr>wait_id = 7, wait_reason = Timer, wait_deadline = 5\<rparr>"
      and q = "\<lparr>wait_id = 7, wait_reason = Timer, wait_deadline = 5\<rparr>"]
  show ?thesis by simp
qed

end
