(* ===== verification/Recovery.thy ===== *)
theory Recovery
  imports Engine_Facts
begin

text \<open>
  Retry decisions after a failed attempt: \<open>src/src/domain/workflow/recovery.rs\<close>. A
  \<open>std::time::Duration\<close> is its number of nanoseconds, instants are nanoseconds too, and
  the two \<open>chrono\<close> functions the code calls are parameters with their documented
  behaviour as a hypothesis.
\<close>

section \<open>Model\<close>

type_synonym duration = nat

definition from_millis :: "nat \<Rightarrow> duration" where
  "from_millis n = n * 1000000"

definition from_secs :: "nat \<Rightarrow> duration" where
  "from_secs n = n * 1000000000"

definition DURATION_MAX :: duration where
  "DURATION_MAX = (2 ^ 64 - 1) * 1000000000 + 999999999"

definition saturating_mul :: "duration \<Rightarrow> 32 word \<Rightarrow> duration" where
  "saturating_mul d m = min (d * unat m) DURATION_MAX"

definition MAX_BACKOFF :: duration where
  "MAX_BACKOFF = from_secs 3600"

datatype retry_safety = SafeToRetry | EffectOutcomeUnknown

record attempt_budget =
  attempts_consumed :: "32 word"
  attempts_limit :: "32 word"

datatype recovery_policy_error = InvalidAttempts | InvalidBackoff

definition AttemptBudget_new :: "32 word \<Rightarrow> 32 word \<Rightarrow> (attempt_budget, recovery_policy_error) outcome" where
  "AttemptBudget_new c l =
     (if c = 0 \<or> l = 0 \<or> c > l then Err InvalidAttempts
      else Ok \<lparr>attempts_consumed = c, attempts_limit = l\<rparr>)"

record recovery_snapshot =
  attempts :: attempt_budget
  work_budget :: retry_eligibility
  snapshot_now :: instant
  snapshot_deadline :: instant

datatype recovery_limit = DeadlineLimit | WorkBudgetLimit

datatype recovery_decision = RetryAt instant | FinalErrorDecision | FailRun recovery_limit | Reconcile

record recovery_policy =
  initial_backoff :: duration
  maximum_backoff :: duration

definition RecoveryPolicy_new :: "duration \<Rightarrow> duration \<Rightarrow> (recovery_policy, recovery_policy_error) outcome" where
  "RecoveryPolicy_new i m =
     (if i < from_millis 1 \<or> m < i \<or> m > MAX_BACKOFF then Err InvalidBackoff
      else Ok \<lparr>initial_backoff = i, maximum_backoff = m\<rparr>)"

definition RecoveryPolicy_default :: recovery_policy where
  "RecoveryPolicy_default = \<lparr>initial_backoff = from_secs 2, maximum_backoff = from_secs 300\<rparr>"

text \<open>\<open>TimeDelta::from_std\<close> and \<open>DateTime::checked_add_signed\<close> of \<open>chrono\<close>.\<close>

record chrono =
  from_std :: "duration \<Rightarrow> int option"
  checked_add_signed :: "instant \<Rightarrow> int \<Rightarrow> instant option"

text \<open>The subtraction of one from the attempts consumed panics on zero, in debug builds.\<close>

definition decide ::
    "chrono \<Rightarrow> recovery_policy \<Rightarrow> step_failure \<Rightarrow> retry_safety \<Rightarrow> recovery_snapshot
      \<Rightarrow> (recovery_decision, recovery_policy_error) outcome" where
  "decide ch policy failure safety snapshot =
     (if safety = EffectOutcomeUnknown then Ok Reconcile
      else if snapshot_deadline snapshot \<le> snapshot_now snapshot then Ok (FailRun DeadlineLimit)
      else if work_budget snapshot = Exhausted then Ok (FailRun WorkBudgetLimit)
      else if fails_run failure \<or> failure_kind failure = TerminalFailure
          \<or> attempts_consumed (attempts snapshot) = attempts_limit (attempts snapshot)
      then Ok FinalErrorDecision
      else
        bindr (expect (checked_sub (unat (attempts_consumed (attempts snapshot))) 1)) (\<lambda>n.
        let multiplier = push_bit (min n 31) (1 :: 32 word);
            delay = min (saturating_mul (initial_backoff policy) multiplier) (maximum_backoff policy)
        in
          (case Option.bind (from_std ch delay) (checked_add_signed ch (snapshot_now snapshot)) of
             None \<Rightarrow> Ok (FailRun DeadlineLimit)
           | Some retry_at \<Rightarrow>
               if retry_at \<ge> snapshot_deadline snapshot then Ok (FailRun DeadlineLimit)
               else Ok (RetryAt retry_at))))"

section \<open>Specification\<close>

definition chrono_ok :: "chrono \<Rightarrow> bool" where
  "chrono_ok ch \<longleftrightarrow>
     (\<forall>d \<le> MAX_BACKOFF. from_std ch d = Some (int d)) \<and>
     (\<forall>t d t'. checked_add_signed ch t d = Some t' \<longrightarrow> t' = t + d)"

definition valid_policy :: "recovery_policy \<Rightarrow> bool" where
  "valid_policy p \<longleftrightarrow> RecoveryPolicy_new (initial_backoff p) (maximum_backoff p) = Ok p"

definition valid_attempts :: "attempt_budget \<Rightarrow> bool" where
  "valid_attempts b \<longleftrightarrow> AttemptBudget_new (attempts_consumed b) (attempts_limit b) = Ok b"

text \<open>Exponential backoff from the initial delay, capped: 1, 2, 4, ... times the first.\<close>

definition backoff :: "recovery_policy \<Rightarrow> nat \<Rightarrow> duration" where
  "backoff p n = min (initial_backoff p * 2 ^ n) (maximum_backoff p)"

section \<open>Lemmas\<close>

lemma valid_policy_bounds:
  "valid_policy p \<Longrightarrow> 1000000 \<le> initial_backoff p \<and> initial_backoff p \<le> maximum_backoff p
    \<and> maximum_backoff p \<le> 3600000000000"
  by (auto simp: valid_policy_def RecoveryPolicy_new_def from_millis_def MAX_BACKOFF_def from_secs_def
      split: if_splits)

lemma valid_attempts_bounds:
  "valid_attempts b \<longleftrightarrow> 0 < unat (attempts_consumed b) \<and> unat (attempts_consumed b) \<le> unat (attempts_limit b)"
  by (cases b) (auto simp: valid_attempts_def AttemptBudget_new_def word_less_nat_alt word_le_nat_alt
      not_less unat_gt_0)

lemma unat_shift: "n \<le> 31 \<Longrightarrow> unat (push_bit n (1 :: 32 word)) = 2 ^ n"
proof -
  assume "n \<le> 31"
  then have "(2 :: nat) ^ n < 2 ^ 32" by (intro power_strict_increasing) auto
  then show ?thesis by (subst unsigned_push_bit_eq) (simp add: take_bit_eq_mod push_bit_eq_mult)
qed

lemma delay_is_backoff:
  assumes "valid_policy p"
  shows "min (saturating_mul (initial_backoff p) (push_bit (min n 31) 1)) (maximum_backoff p) = backoff p n"
proof -
  have p: "1000000 \<le> initial_backoff p" "maximum_backoff p \<le> 3600000000000"
    using valid_policy_bounds [OF assms] by auto
  have max: "maximum_backoff p \<le> DURATION_MAX" using p by (simp add: DURATION_MAX_def)
  have "min (initial_backoff p * 2 ^ min n 31) (maximum_backoff p) = backoff p n"
  proof (cases "n \<le> 31")
    case False
    have big: "maximum_backoff p \<le> initial_backoff p * 2 ^ k" if "31 \<le> k" for k
    proof -
      have "(2 :: nat) ^ 31 \<le> 2 ^ k" using that by (intro power_increasing) auto
      then have "1000000 * 2 ^ 31 \<le> initial_backoff p * 2 ^ k" using p by (intro mult_mono) auto
      then show ?thesis using p by simp
    qed
    show ?thesis
      using False big [of 31] big [of n] by (simp add: backoff_def min_absorb2)
  qed (simp add: backoff_def)
  then show ?thesis
    using max by (simp only: saturating_mul_def unat_shift [OF min.cobounded2] min.assoc min_absorb2)
qed

lemma backoff_le: "valid_policy p \<Longrightarrow> backoff p n \<le> MAX_BACKOFF"
  using valid_policy_bounds [of p] by (simp add: backoff_def MAX_BACKOFF_def from_secs_def min.coboundedI2)

lemma backoff_bounds: "valid_policy p \<Longrightarrow> initial_backoff p \<le> backoff p n \<and> backoff p n \<le> maximum_backoff p"
  using valid_policy_bounds [of p] by (simp add: backoff_def)

text \<open>The whole decision, with the backoff in closed form.\<close>

lemma decide_eq:
  assumes "chrono_ok ch" and "valid_policy p" and "valid_attempts (attempts s)"
  shows "decide ch p f safety s = Ok
    (if safety = EffectOutcomeUnknown then Reconcile
     else if snapshot_deadline s \<le> snapshot_now s then FailRun DeadlineLimit
     else if work_budget s = Exhausted then FailRun WorkBudgetLimit
     else if fails_run f \<or> failure_kind f = TerminalFailure
         \<or> attempts_consumed (attempts s) = attempts_limit (attempts s) then FinalErrorDecision
     else
       let n = unat (attempts_consumed (attempts s)) - 1 in
       (case checked_add_signed ch (snapshot_now s) (int (backoff p n)) of
          None \<Rightarrow> FailRun DeadlineLimit
        | Some t \<Rightarrow> if t \<ge> snapshot_deadline s then FailRun DeadlineLimit else RetryAt t))"
proof -
  define n where "n = unat (attempts_consumed (attempts s)) - 1"
  have sub: "checked_sub (unat (attempts_consumed (attempts s))) 1 = Some n"
    using assms(3) by (simp add: valid_attempts_bounds n_def Suc_le_eq)
  have std: "from_std ch (backoff p n) = Some (int (backoff p n))"
    using assms(1) backoff_le [OF assms(2)] by (simp add: chrono_ok_def)
  show ?thesis
    unfolding decide_def sub expect.simps bindr.simps delay_is_backoff [OF assms(2)] std Let_def n_def [symmetric]
    by (auto split: option.splits)
qed

section \<open>Properties\<close>

text \<open>
  C34. When a retry happens. A decision to retry is made only after a retryable
  failure whose effect is known not to be in doubt, with attempts and work budget left; it
  is set exactly one backoff after now, the initial delay doubled for each earlier attempt
  and capped at the maximum (so at least the initial delay and at most the maximum), and
  strictly before the run's deadline. The decision itself never panics.
\<close>

theorem retries_are_bounded_backoffs:
  assumes "chrono_ok ch" and "valid_policy p" and "valid_attempts (attempts s)"
  shows "decide ch p f safety s \<noteq> Panic
    \<and> (decide ch p f safety s = Ok (RetryAt t) \<longrightarrow>
        safety = SafeToRetry \<and> \<not> fails_run f \<and> failure_kind f = Retryable \<and> work_budget s = Available
        \<and> attempts_consumed (attempts s) < attempts_limit (attempts s)
        \<and> t = snapshot_now s + int (backoff p (unat (attempts_consumed (attempts s)) - 1))
        \<and> snapshot_now s + int (initial_backoff p) \<le> t \<and> t \<le> snapshot_now s + int (maximum_backoff p)
        \<and> t < snapshot_deadline s)"
proof -
  have "attempts_consumed (attempts s) \<le> attempts_limit (attempts s)"
    unfolding word_le_nat_alt using assms(3) by (simp add: valid_attempts_bounds)
  then have lt: "attempts_consumed (attempts s) < attempts_limit (attempts s)"
    if "attempts_consumed (attempts s) \<noteq> attempts_limit (attempts s)"
    using that by (rule le_neq_trans)
  have add: "checked_add_signed ch a b = Some c \<Longrightarrow> c = a + b" for a b c
    using assms(1) by (simp add: chrono_ok_def)
  show ?thesis
    using lt backoff_bounds [OF assms(2), of "unat (attempts_consumed (attempts s)) - 1"]
    unfolding decide_eq [OF assms] Let_def
    by (auto dest!: add split: if_splits option.splits intro: retry_safety.exhaust failure_class.exhaust
        retry_eligibility.exhaust)
qed

definition sample_chrono :: chrono where
  "sample_chrono = \<lparr>from_std = (\<lambda>d. Some (int d)), checked_add_signed = (\<lambda>t d. Some (t + d))\<rparr>"

definition sample_failure :: step_failure where
  "sample_failure = \<lparr>refusal = None, failure_kind = Retryable, code = ''http.timeout'', diagnostic = None\<rparr>"

definition sample_snapshot :: recovery_snapshot where
  "sample_snapshot = \<lparr>attempts = \<lparr>attempts_consumed = 2, attempts_limit = 5\<rparr>, work_budget = Available,
     snapshot_now = 0, snapshot_deadline = 60000000000\<rparr>"

lemma sample_recovery_ok:
  "chrono_ok sample_chrono" "valid_policy RecoveryPolicy_default" "valid_attempts (attempts sample_snapshot)"
  by (simp_all add: chrono_ok_def sample_chrono_def valid_policy_def RecoveryPolicy_default_def
      RecoveryPolicy_new_def from_millis_def from_secs_def MAX_BACKOFF_def valid_attempts_bounds sample_snapshot_def)

lemma sample_retry:
  "decide sample_chrono RecoveryPolicy_default sample_failure SafeToRetry sample_snapshot = Ok (RetryAt 4000000000)"
  unfolding decide_eq [OF sample_recovery_ok]
  by (simp add: sample_snapshot_def sample_failure_def fails_run_def KNOWLEDGE_AUDIENCE_BELOW_CONTENT_def
      sample_chrono_def backoff_def RecoveryPolicy_default_def from_secs_def)

theorem retries_are_bounded_backoffs_witness:
  "decide sample_chrono RecoveryPolicy_default sample_failure SafeToRetry sample_snapshot = Ok (RetryAt 4000000000)
   \<and> 4000000000 < snapshot_deadline sample_snapshot"
  using retries_are_bounded_backoffs [OF sample_recovery_ok, of sample_failure SafeToRetry 4000000000]
  by (simp add: sample_retry)

text \<open>
  The refusals to retry, in their order of precedence. An effect whose outcome is
  unknown goes to reconciliation whatever else holds; an expired deadline or an exhausted
  work budget fails the run and bypasses every route; a terminal failure, the reserved
  refusal or the last attempt goes to the final error, and resolving that outcome with no
  retry left never yields another retry but ends the step on its declared error route or
  fails it.
\<close>

theorem recovery_refuses_in_order:
  assumes "chrono_ok ch" and "valid_policy p" and "valid_attempts (attempts s)"
    and "bt_get (wf_steps (definition_of w)) i = Some step"
  shows "(decide ch p f safety s = Ok Reconcile \<longleftrightarrow> safety = EffectOutcomeUnknown)
    \<and> (safety = SafeToRetry \<and> snapshot_deadline s \<le> snapshot_now s
        \<longrightarrow> decide ch p f safety s = Ok (FailRun DeadlineLimit))
    \<and> (decide ch p f safety s = Ok (FailRun WorkBudgetLimit) \<longleftrightarrow>
        safety = SafeToRetry \<and> snapshot_now s < snapshot_deadline s \<and> work_budget s = Exhausted)
    \<and> (attempts_consumed (attempts s) = attempts_limit (attempts s) \<longrightarrow> (\<forall>t. decide ch p f safety s \<noteq> Ok (RetryAt t)))
    \<and> (decide ch p f safety s = Ok FinalErrorDecision \<longrightarrow>
        resolve_outcome x w i (Outcome_Failed f) Exhausted now
          = Ok (Terminal f (if fails_run f then None else final_error step)))"
proof -
  have safe: "safety = SafeToRetry \<longleftrightarrow> safety \<noteq> EffectOutcomeUnknown" by (cases safety) auto
  show ?thesis
    unfolding decide_eq [OF assms(1-3)] Let_def resolve_failed [OF assms(4)] safe
    by (auto split: option.splits)
qed

theorem recovery_refuses_in_order_witness:
  "decide sample_chrono RecoveryPolicy_default sample_failure EffectOutcomeUnknown sample_snapshot = Ok Reconcile"
proof -
  have "bt_get (wf_steps (definition_of (ValidatedWorkflow branching))) ''b'' =
      Some (sample_step (Routes_Success End) None)"
    by (simp add: branching_def sample_definition_def bt_get_def)
  from recovery_refuses_in_order [OF sample_recovery_ok this] show ?thesis by blast
qed

end
