(* ===== verification/Causality.thy ===== *)
theory Causality
  imports Budget
begin

text \<open>
  Company-scoped causal references: \<open>src/src/domain/workflow/causality.rs\<close>. Every
  checked reference is built by its constructor only; the constructors refuse references
  that cross companies or runs. Correlation and message identifiers are UUID newtypes.
\<close>

section \<open>Model\<close>

datatype causal_error = CompanyMismatch | ExecutionMismatch | SelfParent

record execution_ref =
  execution_company :: uuid
  execution_run :: uuid
  execution_id :: uuid
  execution_step :: step_id

record action_ref =
  action_execution :: execution_ref
  action_id :: uuid

type_synonym child_ordinal = "16 word"

definition ChildOrdinal_FIRST :: child_ordinal where
  "ChildOrdinal_FIRST = 1"

text \<open>The cast \<open>value as u16\<close> truncates.\<close>

definition ChildOrdinal_new :: "32 word \<Rightarrow> child_ordinal option" where
  "ChildOrdinal_new v = (if 1 \<le> v \<and> v \<le> MAX_ROOT_REPETITIONS then Some (ucast v) else None)"

definition ChildOrdinal_get :: "child_ordinal \<Rightarrow> 32 word" where
  "ChildOrdinal_get n = ucast n"

definition ChildOrdinal_next :: "child_ordinal \<Rightarrow> child_ordinal option" where
  "ChildOrdinal_next n = ChildOrdinal_new (ChildOrdinal_get n + 1)"

record child_step_ref =
  child_execution :: execution_ref
  child_ordinal :: child_ordinal

record child_tool_call_ref =
  tool_execution :: execution_ref
  tool_call :: uuid

datatype child_cause = ChildStep child_step_ref | ChildToolCall child_tool_call_ref

fun cause_execution :: "child_cause \<Rightarrow> execution_ref" where
  "cause_execution (ChildStep r) = child_execution r"
| "cause_execution (ChildToolCall r) = tool_execution r"

datatype trigger_source =
    Message_source uuid
  | Schedule_source uuid uuid
  | Manual_source
  | Child_source child_cause

record trigger_ref =
  trigger_company :: uuid
  trigger_id :: uuid
  trigger_source :: trigger_source

definition TriggerRef_new :: "uuid \<Rightarrow> uuid \<Rightarrow> trigger_source \<Rightarrow> (trigger_ref, causal_error) outcome" where
  "TriggerRef_new company tid source =
     (let trigger = \<lparr>trigger_company = company, trigger_id = tid, trigger_source = source\<rparr> in
      case source of
        Child_source parent \<Rightarrow>
          if execution_company (cause_execution parent) \<noteq> company then Err CompanyMismatch else Ok trigger
      | _ \<Rightarrow> Ok trigger)"

record run_causality =
  causal_run :: uuid
  causal_trigger :: trigger_ref
  correlation_id :: uuid

definition RunCausality_new :: "uuid \<Rightarrow> trigger_ref \<Rightarrow> uuid \<Rightarrow> (run_causality, causal_error) outcome" where
  "RunCausality_new rid trigger correlation =
     (let run = \<lparr>causal_run = rid, causal_trigger = trigger, correlation_id = correlation\<rparr> in
      case trigger_source trigger of
        Child_source parent \<Rightarrow>
          if execution_run (cause_execution parent) = rid then Err SelfParent else Ok run
      | _ \<Rightarrow> Ok run)"

definition causal_company :: "run_causality \<Rightarrow> uuid" where
  "causal_company run = trigger_company (causal_trigger run)"

record step_causality =
  step_execution :: execution_ref

definition StepCausality_new :: "run_causality \<Rightarrow> execution_ref \<Rightarrow> (step_causality, causal_error) outcome" where
  "StepCausality_new run e =
     (if execution_company e \<noteq> causal_company run then Err CompanyMismatch
      else if execution_run e \<noteq> causal_run run then Err ExecutionMismatch
      else Ok \<lparr>step_execution = e\<rparr>)"

record message_effect_link =
  link_message :: uuid
  link_action :: action_ref

definition MessageEffectLink_new :: "uuid \<Rightarrow> action_ref \<Rightarrow> message_effect_link" where
  "MessageEffectLink_new m a = \<lparr>link_message = m, link_action = a\<rparr>"

definition link_company :: "message_effect_link \<Rightarrow> uuid" where
  "link_company l = execution_company (action_execution (link_action l))"

section \<open>Lemmas\<close>

lemma TriggerRef_new_eq_Ok:
  "TriggerRef_new company tid source = Ok t \<longleftrightarrow>
     t = \<lparr>trigger_company = company, trigger_id = tid, trigger_source = source\<rparr> \<and>
     (\<forall>parent. source = Child_source parent \<longrightarrow> execution_company (cause_execution parent) = company)"
  by (auto simp: TriggerRef_new_def Let_def split: trigger_source.splits if_splits)

lemma RunCausality_new_eq_Ok:
  "RunCausality_new rid trigger correlation = Ok run \<longleftrightarrow>
     run = \<lparr>causal_run = rid, causal_trigger = trigger, correlation_id = correlation\<rparr> \<and>
     (\<forall>parent. trigger_source trigger = Child_source parent \<longrightarrow> execution_run (cause_execution parent) \<noteq> rid)"
  by (auto simp: RunCausality_new_def Let_def split: trigger_source.splits if_splits)

lemma StepCausality_new_eq_Ok:
  "StepCausality_new run e = Ok s \<longleftrightarrow>
     s = \<lparr>step_execution = e\<rparr> \<and> execution_company e = causal_company run \<and> execution_run e = causal_run run"
  by (auto simp: StepCausality_new_def)

lemma ordinal_lossless:
  assumes "v \<le> (1000 :: 32 word)"
  shows "ChildOrdinal_get (ucast v) = v"
proof -
  have "unat v \<le> 1000" using assms by (simp add: word_le_nat_alt)
  then have "unat (ucast (ucast v :: 16 word) :: 32 word) = unat v"
    by (simp add: unsigned_ucast_eq take_bit_eq_mod unat_mod)
  then show ?thesis
    by (simp only: ChildOrdinal_get_def word_unat_eq_iff)
qed

lemma ChildOrdinal_new_eq_Some:
  "ChildOrdinal_new v = Some n \<longleftrightarrow> 1 \<le> unat v \<and> unat v \<le> 1000 \<and> ChildOrdinal_get n = v \<and> n = ucast v"
  using ordinal_lossless [of v]
  by (auto simp: ChildOrdinal_new_def MAX_ROOT_REPETITIONS_def word_le_nat_alt)

text \<open>The rounds of one execution, from the first.\<close>

primrec ordinal_rounds :: "nat \<Rightarrow> child_ordinal option" where
  "ordinal_rounds 0 = Some ChildOrdinal_FIRST"
| "ordinal_rounds (Suc k) = Option.bind (ordinal_rounds k) ChildOrdinal_next"

lemma ChildOrdinal_next_round:
  assumes "unat (ChildOrdinal_get n) = m" and "m \<le> 1000"
  shows "if m < 1000 then \<exists>n'. ChildOrdinal_next n = Some n' \<and> unat (ChildOrdinal_get n') = Suc m
    else ChildOrdinal_next n = None"
proof -
  let ?v = "ChildOrdinal_get n + 1"
  have v: "unat ?v = Suc m" using assms by (simp add: unat_word_ariths)
  show ?thesis
  proof (cases "m < 1000")
    case True
    then have "?v \<le> 1000" using v by (simp add: word_le_nat_alt)
    from ordinal_lossless [OF this] have "ChildOrdinal_new ?v = Some (ucast ?v)"
      using v True by (simp add: ChildOrdinal_new_eq_Some)
    then show ?thesis
      using True v ordinal_lossless [OF \<open>?v \<le> 1000\<close>] by (simp add: ChildOrdinal_next_def)
  next
    case False
    then have "ChildOrdinal_new ?v = None"
      using v assms(2) by (simp add: ChildOrdinal_new_def MAX_ROOT_REPETITIONS_def word_le_nat_alt)
    then show ?thesis using False by (simp add: ChildOrdinal_next_def)
  qed
qed

lemma ordinal_rounds_eq:
  "if k < 1000 then \<exists>n. ordinal_rounds k = Some n \<and> unat (ChildOrdinal_get n) = Suc k
   else ordinal_rounds k = None"
proof (induction k)
  case 0
  have "unat (ChildOrdinal_get 1) = 1"
    using ordinal_lossless [of 1] by (simp add: word_le_nat_alt)
  then show ?case by (simp add: ChildOrdinal_FIRST_def)
next
  case (Suc k)
  show ?case
  proof (cases "k < 1000")
    case True
    then obtain n where n: "ordinal_rounds k = Some n" "unat (ChildOrdinal_get n) = Suc k"
      using Suc.IH by auto
    then show ?thesis using ChildOrdinal_next_round [OF n(2)] True by (auto split: if_splits)
  next
    case False
    then show ?thesis using Suc.IH by simp
  qed
qed

section \<open>Properties\<close>

text \<open>
  Provenance stays inside one company and never loops onto itself. When a run's
  causality and one of its step's causality have been built by the checked constructors,
  the step's execution belongs to the run and to the run's company; when the run is a
  child, the execution that caused it belongs to the same company and to a different run;
  and a message caused by an action of that step carries the same company.
\<close>

theorem causal_references_stay_in_one_company:
  assumes "TriggerRef_new company tid source = Ok trigger" and "RunCausality_new rid trigger correlation = Ok run"
    and "StepCausality_new run e = Ok step"
  shows "causal_company run = company \<and> execution_company e = company \<and> execution_run e = rid
    \<and> (\<forall>parent. source = Child_source parent \<longrightarrow>
        execution_company (cause_execution parent) = company \<and> execution_run (cause_execution parent) \<noteq> rid)
    \<and> link_company (MessageEffectLink_new m \<lparr>action_execution = e, action_id = a\<rparr>) = company"
  using assms
  by (auto simp: TriggerRef_new_eq_Ok RunCausality_new_eq_Ok StepCausality_new_eq_Ok causal_company_def
      MessageEffectLink_new_def link_company_def)

theorem causal_references_stay_in_one_company_witness:
  "\<exists>trigger run step.
     TriggerRef_new 1 2 (Child_source (ChildToolCall \<lparr>tool_execution =
       \<lparr>execution_company = 1, execution_run = 5, execution_id = 6, execution_step = ''a''\<rparr>, tool_call = 7\<rparr>)) = Ok trigger
     \<and> RunCausality_new 9 trigger 4 = Ok run
     \<and> StepCausality_new run \<lparr>execution_company = 1, execution_run = 9, execution_id = 8, execution_step = ''b''\<rparr> = Ok step
     \<and> causal_company run = 1"
proof -
  let ?source = "Child_source (ChildToolCall \<lparr>tool_execution =
    \<lparr>execution_company = 1, execution_run = 5, execution_id = 6, execution_step = ''a''\<rparr>, tool_call = 7\<rparr>)"
  let ?trigger = "\<lparr>trigger_company = 1, trigger_id = 2, trigger_source = ?source\<rparr>"
  let ?run = "\<lparr>causal_run = 9, causal_trigger = ?trigger, correlation_id = 4\<rparr>"
  let ?e = "\<lparr>execution_company = 1, execution_run = 9, execution_id = 8, execution_step = ''b''\<rparr>"
  have "TriggerRef_new 1 2 ?source = Ok ?trigger" by (simp add: TriggerRef_new_def)
  moreover have "RunCausality_new 9 ?trigger 4 = Ok ?run" by (simp add: RunCausality_new_def)
  moreover have "StepCausality_new ?run ?e = Ok \<lparr>step_execution = ?e\<rparr>"
    by (simp add: StepCausality_new_def causal_company_def)
  ultimately show ?thesis
    using causal_references_stay_in_one_company by blast
qed

text \<open>
  The cast of a child round to 16 bits loses nothing: \<open>ChildOrdinal::new\<close> accepts
  exactly 1 to 1000 and \<open>get\<close> returns the number given; starting from the first round,
  \<open>next\<close> yields the rounds 1 to 1000 in order and then stops.
\<close>

theorem child_rounds_are_exact:
  "(ChildOrdinal_new v = Some n \<longrightarrow> ChildOrdinal_get n = v)
   \<and> ((\<exists>n. ChildOrdinal_new v = Some n) \<longleftrightarrow> 1 \<le> unat v \<and> unat v \<le> 1000)
   \<and> (if k < 1000 then \<exists>n. ordinal_rounds k = Some n \<and> unat (ChildOrdinal_get n) = Suc k
      else ordinal_rounds k = None)"
  using ordinal_rounds_eq [of k] ordinal_lossless [of v]
  by (auto simp: ChildOrdinal_new_eq_Some word_le_nat_alt)

theorem child_rounds_are_exact_witness: "\<exists>n. ordinal_rounds 3 = Some n \<and> unat (ChildOrdinal_get n) = 4"
  using child_rounds_are_exact [where k = 3 and v = 1 and n = 1] by simp

end
