(* ===== verification/Transport.thy ===== *)
theory Transport
  imports Names
begin

text \<open>
  The transport vocabularies and the delivery state machine:
  \<open>src/src/domain/entities/transport/mod.rs\<close>, \<open>delivery.rs\<close>, \<open>inbound.rs\<close> and
  \<open>integration.rs\<close>, and the two stored vocabularies of workflows,
  \<open>src/src/domain/workflow/trigger.rs\<close> and \<open>response.rs\<close>. Every enum the database
  stores by name interprets the interface \<open>stored_vocabulary\<close>.
\<close>

section \<open>Model\<close>

subsection \<open>The macro \<open>stored_enum!\<close>\<close>

datatype invalid_transport_value = InvalidTransportValue (invalid_field: string) (invalid_value: string)

text \<open>
  The generated \<open>match\<close> tries the stored spellings in the order of the variants; the
  macro's variant list is \<open>all\<close> and its spellings are \<open>as_str\<close>.
\<close>

primrec stored_from_str ::
    "('v \<Rightarrow> string) \<Rightarrow> string \<Rightarrow> 'v list \<Rightarrow> string \<Rightarrow> ('v, invalid_transport_value) outcome" where
  "stored_from_str as_str field [] s = Err (InvalidTransportValue field s)"
| "stored_from_str as_str field (v # vs) s =
     (if s = as_str v then Ok v else stored_from_str as_str field vs s)"

subsection \<open>Transports and recipients\<close>

datatype transport_kind = Email | Slack

fun transport_as_str :: "transport_kind \<Rightarrow> string" where
  "transport_as_str Email = ''email''"
| "transport_as_str Slack = ''slack''"

fun requires_installation :: "transport_kind \<Rightarrow> bool" where
  "requires_installation Email = False"
| "requires_installation Slack = True"

datatype unsupported_transport = UnsupportedTransport string

definition transport_from_str :: "string \<Rightarrow> (transport_kind, unsupported_transport) outcome" where
  "transport_from_str s =
     (if s = ''email'' then Ok Email else if s = ''slack'' then Ok Slack else Err (UnsupportedTransport s))"

datatype recipient_role = To | Cc

fun role_as_str :: "recipient_role \<Rightarrow> string" where
  "role_as_str To = ''to''"
| "role_as_str Cc = ''cc''"

subsection \<open>Deliveries\<close>

datatype delivery_purpose = Notification | WorkflowSend | WorkflowReply

definition purpose_ALL :: "delivery_purpose list" where
  "purpose_ALL = [Notification, WorkflowSend, WorkflowReply]"

fun purpose_as_str :: "delivery_purpose \<Rightarrow> string" where
  "purpose_as_str Notification = ''notification''"
| "purpose_as_str WorkflowSend = ''workflow_send''"
| "purpose_as_str WorkflowReply = ''workflow_reply''"

definition purpose_from_str :: "string \<Rightarrow> (delivery_purpose, invalid_transport_value) outcome" where
  "purpose_from_str = stored_from_str purpose_as_str ''delivery purpose'' purpose_ALL"

fun initiates_conversation :: "delivery_purpose \<Rightarrow> bool" where
  "initiates_conversation WorkflowSend = True"
| "initiates_conversation Notification = False"
| "initiates_conversation WorkflowReply = False"

datatype binding_delivery_policy = ReplyOnly | ReplyAndInitiate

definition delivery_policy_ALL :: "binding_delivery_policy list" where
  "delivery_policy_ALL = [ReplyOnly, ReplyAndInitiate]"

fun delivery_policy_as_str :: "binding_delivery_policy \<Rightarrow> string" where
  "delivery_policy_as_str ReplyOnly = ''reply_only''"
| "delivery_policy_as_str ReplyAndInitiate = ''reply_and_initiate''"

definition delivery_policy_from_str :: "string \<Rightarrow> (binding_delivery_policy, invalid_transport_value) outcome" where
  "delivery_policy_from_str =
     stored_from_str delivery_policy_as_str ''binding delivery policy'' delivery_policy_ALL"

fun permitted_by :: "delivery_purpose \<Rightarrow> binding_delivery_policy \<Rightarrow> bool" where
  "permitted_by purpose ReplyAndInitiate = True"
| "permitted_by purpose ReplyOnly = (\<not> initiates_conversation purpose)"

datatype delivery_status =
    Delivery_Pending | Delivery_Sending | Delivery_Retryable | Delivery_Delivered
  | Delivery_OutcomeUnknown | Delivery_DeadLetter

definition delivery_ALL :: "delivery_status list" where
  "delivery_ALL = [Delivery_Pending, Delivery_Sending, Delivery_Retryable, Delivery_Delivered,
     Delivery_OutcomeUnknown, Delivery_DeadLetter]"

fun delivery_as_str :: "delivery_status \<Rightarrow> string" where
  "delivery_as_str Delivery_Pending = ''pending''"
| "delivery_as_str Delivery_Sending = ''sending''"
| "delivery_as_str Delivery_Retryable = ''retryable''"
| "delivery_as_str Delivery_Delivered = ''delivered''"
| "delivery_as_str Delivery_OutcomeUnknown = ''outcome_unknown''"
| "delivery_as_str Delivery_DeadLetter = ''dead_letter''"

definition delivery_from_str :: "string \<Rightarrow> (delivery_status, invalid_transport_value) outcome" where
  "delivery_from_str = stored_from_str delivery_as_str ''delivery status'' delivery_ALL"

definition delivery_is_claimable :: "delivery_status \<Rightarrow> bool" where
  "delivery_is_claimable s \<longleftrightarrow> s \<in> {Delivery_Pending, Delivery_Retryable}"

definition delivery_holds_lease :: "delivery_status \<Rightarrow> bool" where
  "delivery_holds_lease s \<longleftrightarrow> s = Delivery_Sending"

definition needs_attention :: "delivery_status \<Rightarrow> bool" where
  "needs_attention s \<longleftrightarrow> s \<in> {Delivery_OutcomeUnknown, Delivery_DeadLetter}"

fun delivery_label :: "delivery_status \<Rightarrow> string" where
  "delivery_label Delivery_Pending = ''Queued''"
| "delivery_label Delivery_Sending = ''Sending''"
| "delivery_label Delivery_Retryable = ''Retrying''"
| "delivery_label Delivery_Delivered = ''Delivered''"
| "delivery_label Delivery_OutcomeUnknown = ''Unconfirmed''"
| "delivery_label Delivery_DeadLetter = ''Dead letter''"

datatype delivery_part_status =
    Part_Prepared | Part_Sending | Part_Delivered | Part_OutcomeUnknown | Part_Retryable | Part_Dead

definition part_ALL :: "delivery_part_status list" where
  "part_ALL = [Part_Prepared, Part_Sending, Part_Delivered, Part_OutcomeUnknown, Part_Retryable, Part_Dead]"

fun part_as_str :: "delivery_part_status \<Rightarrow> string" where
  "part_as_str Part_Prepared = ''prepared''"
| "part_as_str Part_Sending = ''sending''"
| "part_as_str Part_Delivered = ''delivered''"
| "part_as_str Part_OutcomeUnknown = ''outcome_unknown''"
| "part_as_str Part_Retryable = ''retryable''"
| "part_as_str Part_Dead = ''dead''"

definition part_from_str :: "string \<Rightarrow> (delivery_part_status, invalid_transport_value) outcome" where
  "part_from_str = stored_from_str part_as_str ''delivery part status'' part_ALL"

definition is_unfinished :: "delivery_part_status \<Rightarrow> bool" where
  "is_unfinished p \<longleftrightarrow> p \<in> {Part_Prepared, Part_Retryable}"

definition aggregate_parent_status :: "delivery_part_status list \<Rightarrow> delivery_status" where
  "aggregate_parent_status parts =
     (if parts = [] then Delivery_DeadLetter
      else if Part_Dead \<in> set parts then Delivery_DeadLetter
      else if Part_OutcomeUnknown \<in> set parts then Delivery_OutcomeUnknown
      else if list_all (\<lambda>p. p = Part_Delivered) parts then Delivery_Delivered
      else Delivery_Retryable)"

definition cancelled_parent_status :: "delivery_part_status list \<Rightarrow> delivery_status" where
  "cancelled_parent_status parts =
     (if list_ex (\<lambda>p. p \<in> {Part_OutcomeUnknown, Part_Sending}) parts then Delivery_OutcomeUnknown
      else if parts \<noteq> [] \<and> list_all (\<lambda>p. p = Part_Delivered) parts then Delivery_Delivered
      else Delivery_DeadLetter)"

datatype delivery_failure_class =
    Authentication | RateLimited | InvalidPayload | DestinationUnavailable | Network | Timeout
  | ProviderFault | Internal | DependencyFailed | Superseded | LeaseExpired | ReconciledNotApplied
  | NotAppliedExhausted | ReconciliationProofExpired

definition failure_ALL :: "delivery_failure_class list" where
  "failure_ALL = [Authentication, RateLimited, InvalidPayload, DestinationUnavailable, Network, Timeout,
     ProviderFault, Internal, DependencyFailed, Superseded, LeaseExpired, ReconciledNotApplied,
     NotAppliedExhausted, ReconciliationProofExpired]"

fun failure_as_str :: "delivery_failure_class \<Rightarrow> string" where
  "failure_as_str Authentication = ''authentication''"
| "failure_as_str RateLimited = ''rate_limited''"
| "failure_as_str InvalidPayload = ''invalid_payload''"
| "failure_as_str DestinationUnavailable = ''destination_unavailable''"
| "failure_as_str Network = ''network''"
| "failure_as_str Timeout = ''timeout''"
| "failure_as_str ProviderFault = ''provider_fault''"
| "failure_as_str Internal = ''internal''"
| "failure_as_str DependencyFailed = ''dependency_failed''"
| "failure_as_str Superseded = ''superseded''"
| "failure_as_str LeaseExpired = ''lease_expired''"
| "failure_as_str ReconciledNotApplied = ''reconciled_not_applied''"
| "failure_as_str NotAppliedExhausted = ''not_applied_exhausted''"
| "failure_as_str ReconciliationProofExpired = ''reconciliation_proof_expired''"

definition failure_from_str :: "string \<Rightarrow> (delivery_failure_class, invalid_transport_value) outcome" where
  "failure_from_str = stored_from_str failure_as_str ''delivery failure class'' failure_ALL"

fun is_worth_retrying :: "delivery_failure_class \<Rightarrow> bool" where
  "is_worth_retrying RateLimited = True"
| "is_worth_retrying Network = True"
| "is_worth_retrying Timeout = True"
| "is_worth_retrying ProviderFault = True"
| "is_worth_retrying _ = False"

datatype delivery_cancellation_reason =
    WorkflowCancelled | WorkflowExpired | WorkflowRevoked | RecipientRevoked | EvidenceConflict | QuestionClosed

definition cancellation_ALL :: "delivery_cancellation_reason list" where
  "cancellation_ALL = [WorkflowCancelled, WorkflowExpired, WorkflowRevoked, RecipientRevoked,
     EvidenceConflict, QuestionClosed]"

fun cancellation_as_str :: "delivery_cancellation_reason \<Rightarrow> string" where
  "cancellation_as_str WorkflowCancelled = ''workflow_cancelled''"
| "cancellation_as_str WorkflowExpired = ''workflow_expired''"
| "cancellation_as_str WorkflowRevoked = ''workflow_revoked''"
| "cancellation_as_str RecipientRevoked = ''recipient_revoked''"
| "cancellation_as_str EvidenceConflict = ''evidence_conflict''"
| "cancellation_as_str QuestionClosed = ''question_closed''"

definition cancellation_from_str :: "string \<Rightarrow> (delivery_cancellation_reason, invalid_transport_value) outcome" where
  "cancellation_from_str =
     stored_from_str cancellation_as_str ''delivery cancellation reason'' cancellation_ALL"

subsection \<open>Inbound events\<close>

datatype inbound_event_status =
    Inbound_Pending | Inbound_Processing | Inbound_Retryable
  | Inbound_Completed | Inbound_Ignored | Inbound_DeadLetter

definition inbound_ALL :: "inbound_event_status list" where
  "inbound_ALL = [Inbound_Pending, Inbound_Processing, Inbound_Retryable,
     Inbound_Completed, Inbound_Ignored, Inbound_DeadLetter]"

fun inbound_as_str :: "inbound_event_status \<Rightarrow> string" where
  "inbound_as_str Inbound_Pending = ''pending''"
| "inbound_as_str Inbound_Processing = ''processing''"
| "inbound_as_str Inbound_Retryable = ''retryable''"
| "inbound_as_str Inbound_Completed = ''completed''"
| "inbound_as_str Inbound_Ignored = ''ignored''"
| "inbound_as_str Inbound_DeadLetter = ''dead_letter''"

definition inbound_from_str :: "string \<Rightarrow> (inbound_event_status, invalid_transport_value) outcome" where
  "inbound_from_str = stored_from_str inbound_as_str ''inbound event status'' inbound_ALL"

definition inbound_is_claimable :: "inbound_event_status \<Rightarrow> bool" where
  "inbound_is_claimable s \<longleftrightarrow> s \<in> {Inbound_Pending, Inbound_Retryable}"

definition inbound_holds_lease :: "inbound_event_status \<Rightarrow> bool" where
  "inbound_holds_lease s \<longleftrightarrow> s = Inbound_Processing"

definition inbound_is_terminal :: "inbound_event_status \<Rightarrow> bool" where
  "inbound_is_terminal s \<longleftrightarrow> s \<in> {Inbound_Completed, Inbound_Ignored, Inbound_DeadLetter}"

datatype inbound_event_error_class =
    Event_Decode | Event_InvalidPayload | Event_Routing
  | Event_Dependency | Event_RateLimited | Event_ProviderFault
  | Event_Deadline | Event_Internal | Event_UnsupportedTransport
  | Event_LeaseExpired | Event_Superseded

definition event_error_ALL :: "inbound_event_error_class list" where
  "event_error_ALL = [Event_Decode, Event_InvalidPayload, Event_Routing,
     Event_Dependency, Event_RateLimited, Event_ProviderFault,
     Event_Deadline, Event_Internal, Event_UnsupportedTransport,
     Event_LeaseExpired, Event_Superseded]"

fun event_error_as_str :: "inbound_event_error_class \<Rightarrow> string" where
  "event_error_as_str Event_Decode = ''decode''"
| "event_error_as_str Event_InvalidPayload = ''invalid_payload''"
| "event_error_as_str Event_Routing = ''routing''"
| "event_error_as_str Event_Dependency = ''dependency''"
| "event_error_as_str Event_RateLimited = ''rate_limited''"
| "event_error_as_str Event_ProviderFault = ''provider_fault''"
| "event_error_as_str Event_Deadline = ''deadline''"
| "event_error_as_str Event_Internal = ''internal''"
| "event_error_as_str Event_UnsupportedTransport = ''unsupported_transport''"
| "event_error_as_str Event_LeaseExpired = ''lease_expired''"
| "event_error_as_str Event_Superseded = ''superseded''"

definition event_error_from_str :: "string \<Rightarrow> (inbound_event_error_class, invalid_transport_value) outcome" where
  "event_error_from_str = stored_from_str event_error_as_str ''inbound event error class'' event_error_ALL"

definition event_error_is_retryable :: "inbound_event_error_class \<Rightarrow> bool" where
  "event_error_is_retryable c \<longleftrightarrow>
     c \<in> {Event_Dependency, Event_RateLimited, Event_ProviderFault, Event_Deadline, Event_Internal,
          Event_LeaseExpired, Event_Superseded}"

datatype inbound_event_ignore_reason =
    Ignore_NotMessage | Ignore_UnsupportedEvent | Ignore_UnsupportedSubtype
  | Ignore_AutomatedSender | Ignore_EmptyContent | Ignore_InactiveBinding
  | Ignore_DeliveryConfirmation

definition ignore_reason_ALL :: "inbound_event_ignore_reason list" where
  "ignore_reason_ALL = [Ignore_NotMessage, Ignore_UnsupportedEvent, Ignore_UnsupportedSubtype,
     Ignore_AutomatedSender, Ignore_EmptyContent, Ignore_InactiveBinding,
     Ignore_DeliveryConfirmation]"

fun ignore_reason_as_str :: "inbound_event_ignore_reason \<Rightarrow> string" where
  "ignore_reason_as_str Ignore_NotMessage = ''not_message''"
| "ignore_reason_as_str Ignore_UnsupportedEvent = ''unsupported_event''"
| "ignore_reason_as_str Ignore_UnsupportedSubtype = ''unsupported_subtype''"
| "ignore_reason_as_str Ignore_AutomatedSender = ''automated_sender''"
| "ignore_reason_as_str Ignore_EmptyContent = ''empty_content''"
| "ignore_reason_as_str Ignore_InactiveBinding = ''inactive_binding''"
| "ignore_reason_as_str Ignore_DeliveryConfirmation = ''delivery_confirmation''"

definition ignore_reason_from_str :: "string \<Rightarrow> (inbound_event_ignore_reason, invalid_transport_value) outcome" where
  "ignore_reason_from_str = stored_from_str ignore_reason_as_str ''inbound event ignore reason'' ignore_reason_ALL"

subsection \<open>Installations and bindings\<close>

datatype installation_status =
    Installation_Active | Installation_ReauthorizationRequired | Installation_Revoked
  | Installation_Disabled

definition installation_ALL :: "installation_status list" where
  "installation_ALL = [Installation_Active, Installation_ReauthorizationRequired, Installation_Revoked,
     Installation_Disabled]"

fun installation_as_str :: "installation_status \<Rightarrow> string" where
  "installation_as_str Installation_Active = ''active''"
| "installation_as_str Installation_ReauthorizationRequired = ''reauthorization_required''"
| "installation_as_str Installation_Revoked = ''revoked''"
| "installation_as_str Installation_Disabled = ''disabled''"

definition installation_from_str :: "string \<Rightarrow> (installation_status, invalid_transport_value) outcome" where
  "installation_from_str = stored_from_str installation_as_str ''installation status'' installation_ALL"

definition installation_is_usable :: "installation_status \<Rightarrow> bool" where
  "installation_is_usable s \<longleftrightarrow> s = Installation_Active"

datatype binding_status = Binding_Active | Binding_Paused | Binding_Disabled | Binding_Orphaned

definition binding_status_ALL :: "binding_status list" where
  "binding_status_ALL = [Binding_Active, Binding_Paused, Binding_Disabled, Binding_Orphaned]"

fun binding_status_as_str :: "binding_status \<Rightarrow> string" where
  "binding_status_as_str Binding_Active = ''active''"
| "binding_status_as_str Binding_Paused = ''paused''"
| "binding_status_as_str Binding_Disabled = ''disabled''"
| "binding_status_as_str Binding_Orphaned = ''orphaned''"

definition binding_status_from_str :: "string \<Rightarrow> (binding_status, invalid_transport_value) outcome" where
  "binding_status_from_str = stored_from_str binding_status_as_str ''binding status'' binding_status_ALL"

definition binding_is_active :: "binding_status \<Rightarrow> bool" where
  "binding_is_active s \<longleftrightarrow> s = Binding_Active"

definition holds_endpoint_claim :: "binding_status \<Rightarrow> bool" where
  "holds_endpoint_claim s \<longleftrightarrow> s \<in> {Binding_Active, Binding_Paused}"

datatype binding_access_policy = ChannelAcl | ConversationMembersReadAndParticipate

definition access_policy_ALL :: "binding_access_policy list" where
  "access_policy_ALL = [ChannelAcl, ConversationMembersReadAndParticipate]"

fun access_policy_as_str :: "binding_access_policy \<Rightarrow> string" where
  "access_policy_as_str ChannelAcl = ''channel_acl''"
| "access_policy_as_str ConversationMembersReadAndParticipate = ''conversation_members_read_and_participate''"

definition access_policy_from_str :: "string \<Rightarrow> (binding_access_policy, invalid_transport_value) outcome" where
  "access_policy_from_str = stored_from_str access_policy_as_str ''binding access policy'' access_policy_ALL"

datatype binding_change_reason =
    ManagerRequest | InstallationRevoked | EndpointRemoved
  | AccessRevoked | ChannelDisabled | ProviderDrift

definition change_reason_ALL :: "binding_change_reason list" where
  "change_reason_ALL = [ManagerRequest, InstallationRevoked, EndpointRemoved,
     AccessRevoked, ChannelDisabled, ProviderDrift]"

fun change_reason_as_str :: "binding_change_reason \<Rightarrow> string" where
  "change_reason_as_str ManagerRequest = ''manager_request''"
| "change_reason_as_str InstallationRevoked = ''installation_revoked''"
| "change_reason_as_str EndpointRemoved = ''endpoint_removed''"
| "change_reason_as_str AccessRevoked = ''access_revoked''"
| "change_reason_as_str ChannelDisabled = ''channel_disabled''"
| "change_reason_as_str ProviderDrift = ''provider_drift''"

definition change_reason_from_str :: "string \<Rightarrow> (binding_change_reason, invalid_transport_value) outcome" where
  "change_reason_from_str = stored_from_str change_reason_as_str ''binding change reason'' change_reason_ALL"

datatype binding_audit_action =
    Audit_Linked | Audit_EndpointChanged | Audit_Enabled
  | Audit_Paused | Audit_Disabled | Audit_DriftDetected
  | Audit_Unlinked

definition audit_action_ALL :: "binding_audit_action list" where
  "audit_action_ALL = [Audit_Linked, Audit_EndpointChanged, Audit_Enabled,
     Audit_Paused, Audit_Disabled, Audit_DriftDetected,
     Audit_Unlinked]"

fun audit_action_as_str :: "binding_audit_action \<Rightarrow> string" where
  "audit_action_as_str Audit_Linked = ''linked''"
| "audit_action_as_str Audit_EndpointChanged = ''endpoint_changed''"
| "audit_action_as_str Audit_Enabled = ''enabled''"
| "audit_action_as_str Audit_Paused = ''paused''"
| "audit_action_as_str Audit_Disabled = ''disabled''"
| "audit_action_as_str Audit_DriftDetected = ''drift_detected''"
| "audit_action_as_str Audit_Unlinked = ''unlinked''"

definition audit_action_from_str :: "string \<Rightarrow> (binding_audit_action, invalid_transport_value) outcome" where
  "audit_action_from_str = stored_from_str audit_action_as_str ''binding audit action'' audit_action_ALL"

datatype integration_credential_kind = BotAccessToken | BotRefreshToken | UserAccessToken

definition credential_kind_ALL :: "integration_credential_kind list" where
  "credential_kind_ALL = [BotAccessToken, BotRefreshToken, UserAccessToken]"

fun credential_kind_as_str :: "integration_credential_kind \<Rightarrow> string" where
  "credential_kind_as_str BotAccessToken = ''bot_access_token''"
| "credential_kind_as_str BotRefreshToken = ''bot_refresh_token''"
| "credential_kind_as_str UserAccessToken = ''user_access_token''"

definition credential_kind_from_str :: "string \<Rightarrow> (integration_credential_kind, invalid_transport_value) outcome" where
  "credential_kind_from_str = stored_from_str credential_kind_as_str ''integration credential kind'' credential_kind_ALL"

subsection \<open>Message triggers and response dispositions\<close>

datatype message_trigger = Direct | Any | Mentioned | MentionedOrReply

record message_facts =
  facts_role :: recipient_role
  mentioned :: bool
  replies_to_workflow :: bool

fun trigger_as_str :: "message_trigger \<Rightarrow> string" where
  "trigger_as_str Direct = ''direct''"
| "trigger_as_str Any = ''any''"
| "trigger_as_str Mentioned = ''mentioned''"
| "trigger_as_str MentionedOrReply = ''mentioned_or_reply''"

fun admits :: "message_trigger \<Rightarrow> message_facts \<Rightarrow> bool" where
  "admits Direct facts = (facts_role facts = To \<or> mentioned facts)"
| "admits Any facts = True"
| "admits Mentioned facts = mentioned facts"
| "admits MentionedOrReply facts = (mentioned facts \<or> replies_to_workflow facts)"

definition trigger_from_str :: "string \<Rightarrow> (message_trigger, string) outcome" where
  "trigger_from_str s =
     (if s = ''direct'' then Ok Direct
      else if s = ''any'' then Ok Any
      else if s = ''mentioned'' then Ok Mentioned
      else if s = ''mentioned_or_reply'' then Ok MentionedOrReply
      else Err (''unknown message trigger '' @ s))"

datatype response_disposition = Automatic | Suppressed

datatype invalid_response_disposition = InvalidResponseDisposition

fun response_as_str :: "response_disposition \<Rightarrow> string" where
  "response_as_str Automatic = ''automatic''"
| "response_as_str Suppressed = ''suppressed''"

definition response_from_str :: "string \<Rightarrow> (response_disposition, invalid_response_disposition) outcome" where
  "response_from_str s =
     (if s = ''automatic'' then Ok Automatic
      else if s = ''suppressed'' then Ok Suppressed
      else Err InvalidResponseDisposition)"

section \<open>Every stored vocabulary meets the interface\<close>

lemma stored_from_str_Ok: "stored_from_str f l vs s = Ok v \<Longrightarrow> s = f v"
  by (induction vs) (auto split: if_splits)

lemma stored_from_str_print: "inj_on f (set vs) \<Longrightarrow> v \<in> set vs \<Longrightarrow> stored_from_str f l vs (f v) = Ok v"
  by (induction vs) (auto simp: inj_on_def)

lemma stored_enum_vocabulary:
  assumes "\<And>v. v \<in> set all" and "inj_on f (set all)"
  shows "stored_vocabulary f (stored_from_str f l all)"
  using assms by unfold_locales (auto simp: stored_from_str_print dest: stored_from_str_Ok)

text \<open>The macro lists every variant and spells no two alike, checked enum by enum.\<close>

interpretation purposes: stored_vocabulary purpose_as_str purpose_from_str
  unfolding purpose_from_str_def
proof (rule stored_enum_vocabulary)
  show "v \<in> set purpose_ALL" for v by (cases v) (simp_all add: purpose_ALL_def)
  show "inj_on purpose_as_str (set purpose_ALL)" by (simp add: purpose_ALL_def)
qed

interpretation delivery_policies: stored_vocabulary delivery_policy_as_str delivery_policy_from_str
  unfolding delivery_policy_from_str_def
proof (rule stored_enum_vocabulary)
  show "v \<in> set delivery_policy_ALL" for v by (cases v) (simp_all add: delivery_policy_ALL_def)
  show "inj_on delivery_policy_as_str (set delivery_policy_ALL)" by (simp add: delivery_policy_ALL_def)
qed

interpretation delivery_statuses: stored_vocabulary delivery_as_str delivery_from_str
  unfolding delivery_from_str_def
proof (rule stored_enum_vocabulary)
  show "v \<in> set delivery_ALL" for v by (cases v) (simp_all add: delivery_ALL_def)
  show "inj_on delivery_as_str (set delivery_ALL)" by (simp add: delivery_ALL_def)
qed

interpretation part_statuses: stored_vocabulary part_as_str part_from_str
  unfolding part_from_str_def
proof (rule stored_enum_vocabulary)
  show "v \<in> set part_ALL" for v by (cases v) (simp_all add: part_ALL_def)
  show "inj_on part_as_str (set part_ALL)" by (simp add: part_ALL_def)
qed

interpretation failure_classes: stored_vocabulary failure_as_str failure_from_str
  unfolding failure_from_str_def
proof (rule stored_enum_vocabulary)
  show "v \<in> set failure_ALL" for v by (cases v) (simp_all add: failure_ALL_def)
  show "inj_on failure_as_str (set failure_ALL)" by (simp add: failure_ALL_def)
qed

interpretation cancellation_reasons: stored_vocabulary cancellation_as_str cancellation_from_str
  unfolding cancellation_from_str_def
proof (rule stored_enum_vocabulary)
  show "v \<in> set cancellation_ALL" for v by (cases v) (simp_all add: cancellation_ALL_def)
  show "inj_on cancellation_as_str (set cancellation_ALL)" by (simp add: cancellation_ALL_def)
qed

interpretation inbound_statuses: stored_vocabulary inbound_as_str inbound_from_str
  unfolding inbound_from_str_def
proof (rule stored_enum_vocabulary)
  show "v \<in> set inbound_ALL" for v by (cases v) (simp_all add: inbound_ALL_def)
  show "inj_on inbound_as_str (set inbound_ALL)" by (simp add: inbound_ALL_def)
qed

interpretation event_errors: stored_vocabulary event_error_as_str event_error_from_str
  unfolding event_error_from_str_def
proof (rule stored_enum_vocabulary)
  show "v \<in> set event_error_ALL" for v by (cases v) (simp_all add: event_error_ALL_def)
  show "inj_on event_error_as_str (set event_error_ALL)" by (simp add: event_error_ALL_def)
qed

interpretation ignore_reasons: stored_vocabulary ignore_reason_as_str ignore_reason_from_str
  unfolding ignore_reason_from_str_def
proof (rule stored_enum_vocabulary)
  show "v \<in> set ignore_reason_ALL" for v by (cases v) (simp_all add: ignore_reason_ALL_def)
  show "inj_on ignore_reason_as_str (set ignore_reason_ALL)" by (simp add: ignore_reason_ALL_def)
qed

interpretation installations: stored_vocabulary installation_as_str installation_from_str
  unfolding installation_from_str_def
proof (rule stored_enum_vocabulary)
  show "v \<in> set installation_ALL" for v by (cases v) (simp_all add: installation_ALL_def)
  show "inj_on installation_as_str (set installation_ALL)" by (simp add: installation_ALL_def)
qed

interpretation binding_statuses: stored_vocabulary binding_status_as_str binding_status_from_str
  unfolding binding_status_from_str_def
proof (rule stored_enum_vocabulary)
  show "v \<in> set binding_status_ALL" for v by (cases v) (simp_all add: binding_status_ALL_def)
  show "inj_on binding_status_as_str (set binding_status_ALL)" by (simp add: binding_status_ALL_def)
qed

interpretation access_policies: stored_vocabulary access_policy_as_str access_policy_from_str
  unfolding access_policy_from_str_def
proof (rule stored_enum_vocabulary)
  show "v \<in> set access_policy_ALL" for v by (cases v) (simp_all add: access_policy_ALL_def)
  show "inj_on access_policy_as_str (set access_policy_ALL)" by (simp add: access_policy_ALL_def)
qed

interpretation change_reasons: stored_vocabulary change_reason_as_str change_reason_from_str
  unfolding change_reason_from_str_def
proof (rule stored_enum_vocabulary)
  show "v \<in> set change_reason_ALL" for v by (cases v) (simp_all add: change_reason_ALL_def)
  show "inj_on change_reason_as_str (set change_reason_ALL)" by (simp add: change_reason_ALL_def)
qed

interpretation audit_actions: stored_vocabulary audit_action_as_str audit_action_from_str
  unfolding audit_action_from_str_def
proof (rule stored_enum_vocabulary)
  show "v \<in> set audit_action_ALL" for v by (cases v) (simp_all add: audit_action_ALL_def)
  show "inj_on audit_action_as_str (set audit_action_ALL)" by (simp add: audit_action_ALL_def)
qed

interpretation credential_kinds: stored_vocabulary credential_kind_as_str credential_kind_from_str
  unfolding credential_kind_from_str_def
proof (rule stored_enum_vocabulary)
  show "v \<in> set credential_kind_ALL" for v by (cases v) (simp_all add: credential_kind_ALL_def)
  show "inj_on credential_kind_as_str (set credential_kind_ALL)" by (simp add: credential_kind_ALL_def)
qed

interpretation transports: stored_vocabulary transport_as_str transport_from_str
proof
  show "transport_from_str (transport_as_str v) = Ok v" for v by (cases v) (simp_all add: transport_from_str_def)
qed (auto simp: transport_from_str_def split: if_splits)

interpretation message_triggers: stored_vocabulary trigger_as_str trigger_from_str
proof
  show "trigger_from_str (trigger_as_str v) = Ok v" for v by (cases v) (simp_all add: trigger_from_str_def)
qed (auto simp: trigger_from_str_def split: if_splits)

interpretation responses: stored_vocabulary response_as_str response_from_str
proof
  show "response_from_str (response_as_str v) = Ok v" for v by (cases v) (simp_all add: response_from_str_def)
qed (auto simp: response_from_str_def split: if_splits)

section \<open>Properties\<close>

text \<open>
  Stored spellings are exact: for every enum of the delivery, inbound and integration
  vocabularies and for transports, message triggers and response dispositions, the reader
  accepts a string exactly when it is the spelling the writer prints for that variant. So
  each variant survives storage and no other string is ever read as one.
\<close>

theorem stored_spellings_are_exact:
  "(purpose_from_str s = Ok v1 \<longleftrightarrow> s = purpose_as_str v1)
   \<and> (delivery_policy_from_str s = Ok v2 \<longleftrightarrow> s = delivery_policy_as_str v2)
   \<and> (delivery_from_str s = Ok v3 \<longleftrightarrow> s = delivery_as_str v3)
   \<and> (part_from_str s = Ok v4 \<longleftrightarrow> s = part_as_str v4)
   \<and> (failure_from_str s = Ok v5 \<longleftrightarrow> s = failure_as_str v5)
   \<and> (cancellation_from_str s = Ok v6 \<longleftrightarrow> s = cancellation_as_str v6)
   \<and> (inbound_from_str s = Ok v7 \<longleftrightarrow> s = inbound_as_str v7)
   \<and> (event_error_from_str s = Ok v8 \<longleftrightarrow> s = event_error_as_str v8)
   \<and> (ignore_reason_from_str s = Ok v9 \<longleftrightarrow> s = ignore_reason_as_str v9)
   \<and> (installation_from_str s = Ok v10 \<longleftrightarrow> s = installation_as_str v10)
   \<and> (binding_status_from_str s = Ok v11 \<longleftrightarrow> s = binding_status_as_str v11)
   \<and> (access_policy_from_str s = Ok v12 \<longleftrightarrow> s = access_policy_as_str v12)
   \<and> (change_reason_from_str s = Ok v13 \<longleftrightarrow> s = change_reason_as_str v13)
   \<and> (audit_action_from_str s = Ok v14 \<longleftrightarrow> s = audit_action_as_str v14)
   \<and> (credential_kind_from_str s = Ok v15 \<longleftrightarrow> s = credential_kind_as_str v15)
   \<and> (transport_from_str s = Ok v16 \<longleftrightarrow> s = transport_as_str v16)
   \<and> (trigger_from_str s = Ok v17 \<longleftrightarrow> s = trigger_as_str v17)
   \<and> (response_from_str s = Ok v18 \<longleftrightarrow> s = response_as_str v18)"
  by (simp only: purposes.parse_iff delivery_policies.parse_iff delivery_statuses.parse_iff
      part_statuses.parse_iff failure_classes.parse_iff cancellation_reasons.parse_iff
      inbound_statuses.parse_iff event_errors.parse_iff ignore_reasons.parse_iff installations.parse_iff
      binding_statuses.parse_iff access_policies.parse_iff change_reasons.parse_iff audit_actions.parse_iff
      credential_kinds.parse_iff transports.parse_iff message_triggers.parse_iff responses.parse_iff)

text \<open>
  Cancelling never hides what a provider may hold: the parent of a cancelled delivery is
  ambiguous exactly when some part is ambiguous or was in flight, delivered exactly when it
  has parts and all were delivered, and dead otherwise; it is never claimable and holds no
  lease. Where no part is dead or in flight, a cancelled delivery and a settled one agree on
  what is delivered and what is ambiguous.
\<close>

theorem cancellation_keeps_ambiguity:
  "(cancelled_parent_status ps = Delivery_OutcomeUnknown \<longleftrightarrow>
      Part_OutcomeUnknown \<in> set ps \<or> Part_Sending \<in> set ps)
   \<and> (cancelled_parent_status ps = Delivery_Delivered \<longleftrightarrow> ps \<noteq> [] \<and> set ps \<subseteq> {Part_Delivered})
   \<and> \<not> delivery_is_claimable (cancelled_parent_status ps) \<and> \<not> delivery_holds_lease (cancelled_parent_status ps)
   \<and> (Part_Dead \<notin> set ps \<and> Part_Sending \<notin> set ps \<longrightarrow>
        (cancelled_parent_status ps = Delivery_OutcomeUnknown \<longleftrightarrow>
           aggregate_parent_status ps = Delivery_OutcomeUnknown) \<and>
        (cancelled_parent_status ps = Delivery_Delivered \<longleftrightarrow>
           aggregate_parent_status ps = Delivery_Delivered))"
  by (auto simp: cancelled_parent_status_def aggregate_parent_status_def list_ex_iff list_all_iff
      delivery_is_claimable_def delivery_holds_lease_def)

theorem cancellation_keeps_ambiguity_witness:
  "aggregate_parent_status [Part_Delivered, Part_OutcomeUnknown] = Delivery_OutcomeUnknown"
  using cancellation_keeps_ambiguity [of "[Part_Delivered, Part_OutcomeUnknown]"]
  by auto

end
