(* ===== verification/Availability.thy ===== *)
theory Availability
  imports Engine_Facts
begin

text \<open>
  Two analyses of the workflow compiler,
  \<open>src/src/application/workflow/compiler/analysis.rs\<close>: which step outputs are available
  on every route into a step (\<open>incoming\<close>, \<open>availability\<close>), and the step-output part of
  the reference check that uses it. \<open>availability\<close> is shown to compute exactly the
  outputs committed on all routes, and the engine to have committed them.
\<close>

section \<open>Model\<close>

type_synonym incoming_edges = "(step_id, (step_id \<times> bool) list) btree_map"

definition add_incoming ::
    "step_id \<Rightarrow> transition_target \<times> bool \<Rightarrow> incoming_edges \<Rightarrow> (incoming_edges, unit) outcome" where
  "add_incoming from p result =
     (case fst p of
        End \<Rightarrow> Ok result
      | Step to \<Rightarrow>
          bindr (expect (bt_get result to)) (\<lambda>sources.
          Ok (bt_set to (sources @ [(from, snd p)]) result)))"

text \<open>The targets a step adds, in the order of the calls: its routes, then its error route.\<close>

definition labelled_targets :: "'n step_definition \<Rightarrow> (transition_target \<times> bool) list" where
  "labelled_targets step =
     (case step_routes step of
        Routes_Success target \<Rightarrow> [(target, True)]
      | Routes_Choices choices \<Rightarrow> map (\<lambda>p. (snd p, True)) choices)
     @ (case final_error step of None \<Rightarrow> [] | Some target \<Rightarrow> [(target, False)])"

definition incoming :: "'n workflow_definition \<Rightarrow> (incoming_edges, unit) outcome" where
  "incoming d =
     for_each (\<lambda>p. for_each (add_incoming (fst p)) (labelled_targets (snd p))) (wf_steps d)
       (map (\<lambda>i. (i, [])) (bt_keys (wf_steps d)))"

type_synonym available_sets = "(step_id, step_id btree_set) btree_map"

fun predecessor_sets ::
    "available_sets \<Rightarrow> (step_id \<times> bool) list \<Rightarrow> (step_id btree_set list, unit) outcome" where
  "predecessor_sets available [] = Ok []"
| "predecessor_sets available ((from, success) # rest) =
     bindr (expect (bt_get available from)) (\<lambda>s.
     bindr (predecessor_sets available rest) (\<lambda>ss.
     Ok ((if success then bs_insert from s else s) # ss)))"

text \<open>\<open>reduce\<close> by intersection, the empty set where there is nothing to reduce.\<close>

fun intersect_all :: "step_id btree_set list \<Rightarrow> step_id btree_set" where
  "intersect_all [] = []"
| "intersect_all (s # ss) = foldl (\<lambda>a b. filter (\<lambda>x. x \<in> set b) a) s ss"

definition ready :: "available_sets \<Rightarrow> step_id \<times> (step_id \<times> bool) list \<Rightarrow> bool" where
  "ready available p \<longleftrightarrow>
     \<not> bt_contains available (fst p) \<and> list_all (\<lambda>q. bt_contains available (fst q)) (snd p)"

lemma length_bt_insert_new: "\<not> bt_contains m k \<Longrightarrow> length (bt_insert k v m) = Suc (length m)"
  by (induction k v m rule: bt_insert.induct) (auto simp: bt_contains_def bt_get_def)

function availability_loop ::
    "nat \<Rightarrow> incoming_edges \<Rightarrow> available_sets \<Rightarrow> (available_sets, unit) outcome" where
  "availability_loop len edges available =
     (if length available < len
      then
        (case find (ready available) edges of
           None \<Rightarrow> Ok available
         | Some p \<Rightarrow>
             bindr (predecessor_sets available (snd p)) (\<lambda>sets.
             availability_loop len edges (bt_insert (fst p) (intersect_all sets) available)))
      else Ok available)"
  by pat_completeness auto
termination
  by (relation "measure (\<lambda>(len, edges, available). len - length available)")
    (auto simp: find_Some_iff ready_def length_bt_insert_new diff_less_mono2)

declare availability_loop.simps [simp del]

definition availability :: "'n workflow_definition \<Rightarrow> (available_sets, unit) outcome" where
  "availability d =
     bindr (incoming d) (\<lambda>edges. availability_loop (length (wf_steps d)) edges [])"

datatype own_output = Own_Unavailable | Own_Provisional

text \<open>
  The guard of \<open>check_reference\<close> on a reference to a step's output: whether it may be read
  at the current step, given the available set and whether the use is optional.
\<close>

definition step_reference_allowed ::
    "step_id \<Rightarrow> step_id btree_set \<Rightarrow> own_output \<Rightarrow> bool \<Rightarrow> step_id \<Rightarrow> bool" where
  "step_reference_allowed current available own optional i \<longleftrightarrow>
     (let own_provisional = (i = current \<and> own = Own_Provisional) in
      \<not> (\<not> own_provisional \<and> (i = current \<or> i \<notin> set available) \<and> \<not> optional))"

section \<open>Specification\<close>

text \<open>
  The edges of the graph, read off the fields of the steps, with whether the step has completed when
  the edge is taken: along its success route or a choice it has, along its error route it has not.
\<close>

definition labelled_edges :: "'n workflow_definition \<Rightarrow> (step_id \<times> bool \<times> step_id) set" where
  "labelled_edges d =
     {(i, True, t) | i t. \<exists>step. (i, step) \<in> set (wf_steps d) \<and>
        (case step_routes step of
           Routes_Success target \<Rightarrow> target = Step t
         | Routes_Choices cs \<Rightarrow> \<exists>c. (c, Step t) \<in> set cs)}
     \<union> {(i, False, t) | i t. \<exists>step. (i, step) \<in> set (wf_steps d) \<and> final_error step = Some (Step t)}"

text \<open>
  A route from the entry to a step, with the steps whose output was committed on the way:
  those left by a success or choice route.
\<close>

inductive route_to :: "'n workflow_definition \<Rightarrow> step_id \<Rightarrow> step_id set \<Rightarrow> bool" for d where
  at_entry: "route_to d (wf_entry d) {}"
| along: "route_to d i outs \<Longrightarrow> (i, b, t) \<in> labelled_edges d
    \<Longrightarrow> route_to d t (if b then insert i outs else outs)"

definition always_committed :: "'n workflow_definition \<Rightarrow> step_id \<Rightarrow> step_id set" where
  "always_committed d i = \<Inter> {outs. route_to d i outs}"

section \<open>Incoming edges\<close>

lemma set_labelled_targets:
  "(Step t, b) \<in> set (labelled_targets step) \<longleftrightarrow>
     (if b then (case step_routes step of
                   Routes_Success target \<Rightarrow> target = Step t
                 | Routes_Choices cs \<Rightarrow> \<exists>c. (c, Step t) \<in> set cs)
      else final_error step = Some (Step t))"
  by (force simp: labelled_targets_def split: routes.splits option.splits)

text \<open>The targets the analysis lists for a step are the edges that leave it.\<close>

lemma labelled_edges_targets:
  "labelled_edges d = {(i, b, t). \<exists>step. (i, step) \<in> set (wf_steps d) \<and> (Step t, b) \<in> set (labelled_targets step)}"
  unfolding labelled_edges_def set_labelled_targets by (auto split: if_splits)

lemma labelled_targets_iff:
  "(\<exists>b. (Step t, b) \<in> set (labelled_targets step)) \<longleftrightarrow> t \<in> targets step"
proof -
  have "fst ` set (labelled_targets step) = snd ` set (routes_of step)"
    by (cases "step_routes step"; cases "final_error step")
      (simp_all add: labelled_targets_def set_routes_of image_Un image_image insert_commute)
  then have "Step t \<in> fst ` set (labelled_targets step) \<longleftrightarrow> Step t \<in> snd ` set (routes_of step)" by simp
  then show ?thesis by (auto simp: targets_routes_of image_iff Bex_def)
qed

lemma labelled_edges_iff: "(i, t) \<in> graph_edges d \<longleftrightarrow> (\<exists>b. (i, b, t) \<in> labelled_edges d)"
  unfolding graph_edges_def labelled_edges_targets by (auto simp flip: labelled_targets_iff)

definition incoming_inv :: "step_id list \<Rightarrow> (step_id \<times> bool \<times> step_id) set \<Rightarrow> incoming_edges \<Rightarrow> bool" where
  "incoming_inv ks e m \<longleftrightarrow> map fst m = ks \<and>
     (\<forall>t \<in> set ks. \<exists>l. bt_get m t = Some l \<and> set l = {(i, b). (i, b, t) \<in> e})"

lemma add_incoming_inv:
  assumes inv: "incoming_inv ks e m" and p: "\<forall>t. fst p = Step t \<longrightarrow> t \<in> set ks"
  shows "\<exists>m'. add_incoming i p m = Ok m' \<and> incoming_inv ks (e \<union> {(i, snd p, t) | t. fst p = Step t}) m'"
proof (cases "fst p")
  case End
  then show ?thesis using inv by (simp add: add_incoming_def)
next
  case (Step t)
  then have t: "t \<in> set ks" using p by simp
  have keys: "map fst m = ks" and all: "\<And>t. t \<in> set ks \<Longrightarrow> \<exists>l. bt_get m t = Some l \<and> set l = {(i, b). (i, b, t) \<in> e}"
    using inv by (simp_all add: incoming_inv_def)
  obtain l where l: "bt_get m t = Some l" "set l = {(i, b). (i, b, t) \<in> e}" using all [OF t] by blast
  let ?e = "e \<union> {(i, snd p, t)}" and ?m = "bt_set t (l @ [(i, snd p)]) m"
  have "\<exists>l'. bt_get ?m t' = Some l' \<and> set l' = {(i, b). (i, b, t') \<in> ?e}" if "t' \<in> set ks" for t'
  proof (cases "t' = t")
    case True
    then show ?thesis using l t keys by (auto simp: bt_get_set)
  next
    case False
    then show ?thesis using all [OF that] by (auto simp: bt_get_set)
  qed
  then have "incoming_inv ks ?e ?m" using keys by (simp add: incoming_inv_def)
  moreover have "{(i, snd p, t') | t'. fst p = Step t'} = {(i, snd p, t)}" using Step by auto
  ultimately show ?thesis
    by (simp add: add_incoming_def Step l)
qed

lemma add_targets_inv:
  assumes "incoming_inv ks e m" and "\<forall>t b. (Step t, b) \<in> set ps \<longrightarrow> t \<in> set ks"
  shows "\<exists>m'. for_each (add_incoming i) ps m = Ok m'
    \<and> incoming_inv ks (e \<union> {(i, b, t) | b t. (Step t, b) \<in> set ps}) m'"
  using assms
proof (induction ps arbitrary: e m)
  case (Cons p ps)
  have "\<forall>t. fst p = Step t \<longrightarrow> t \<in> set ks" using Cons.prems(2) by (cases p) auto
  from add_incoming_inv [OF Cons.prems(1) this, where i = i] obtain m1 where
    m1: "add_incoming i p m = Ok m1" "incoming_inv ks (e \<union> {(i, snd p, t) | t. fst p = Step t}) m1" by blast
  have "\<forall>t b. (Step t, b) \<in> set ps \<longrightarrow> t \<in> set ks" using Cons.prems(2) by simp
  from Cons.IH [OF m1(2) this] obtain m2 where m2: "for_each (add_incoming i) ps m1 = Ok m2"
    "incoming_inv ks (e \<union> {(i, snd p, t) | t. fst p = Step t} \<union> {(i, b, t) | b t. (Step t, b) \<in> set ps}) m2"
    by blast
  have "e \<union> {(i, snd p, t) | t. fst p = Step t} \<union> {(i, b, t) | b t. (Step t, b) \<in> set ps}
      = e \<union> {(i, b, t) | b t. (Step t, b) \<in> set (p # ps)}"
    by (cases p) auto
  then show ?case using m1(1) m2 by simp
qed simp

lemma incoming_spec:
  assumes closed: "graph_edges d \<subseteq> graph_nodes d \<times> graph_nodes d"
  obtains edges where "incoming d = Ok edges" "incoming_inv (bt_keys (wf_steps d)) (labelled_edges d) edges"
proof -
  let ?ks = "bt_keys (wf_steps d)"
  let ?f = "\<lambda>p. for_each (add_incoming (fst p)) (labelled_targets (snd p))"
  have t: "t \<in> set ?ks" if "p \<in> set (wf_steps d)" "(Step t, b) \<in> set (labelled_targets (snd p))" for p t b
  proof -
    have "(fst p, t) \<in> graph_edges d"
      using that unfolding labelled_edges_iff labelled_edges_targets
      by (intro exI [of _ b] CollectI case_prodI exI [of _ "snd p"] conjI) simp_all
    then show ?thesis using closed by (auto simp: graph_nodes_def)
  qed
  have "\<exists>m'. for_each ?f ps m = Ok m' \<and>
      incoming_inv ?ks (e \<union> {(i, b, t). \<exists>step. (i, step) \<in> set ps \<and> (Step t, b) \<in> set (labelled_targets step)}) m'"
    if "incoming_inv ?ks e m" "set ps \<subseteq> set (wf_steps d)" for ps e m
    using that
  proof (induction ps arbitrary: e m)
    case (Cons p ps)
    have "\<forall>t' b. (Step t', b) \<in> set (labelled_targets (snd p)) \<longrightarrow> t' \<in> set ?ks"
      using t [of p] Cons.prems(2) by auto
    from add_targets_inv [OF Cons.prems(1) this, where i = "fst p"] obtain m1 where m1: "?f p m = Ok m1"
      "incoming_inv ?ks (e \<union> {(fst p, b, t) | b t. (Step t, b) \<in> set (labelled_targets (snd p))}) m1" by blast
    have "set ps \<subseteq> set (wf_steps d)" using Cons.prems(2) by simp
    from Cons.IH [OF m1(2) this] obtain m2 where m2: "for_each ?f ps m1 = Ok m2"
      "incoming_inv ?ks (e \<union> {(fst p, b, t) | b t. (Step t, b) \<in> set (labelled_targets (snd p))}
        \<union> {(i, b, t). \<exists>step. (i, step) \<in> set ps \<and> (Step t, b) \<in> set (labelled_targets step)}) m2" by blast
    have "e \<union> {(fst p, b, t) | b t. (Step t, b) \<in> set (labelled_targets (snd p))}
        \<union> {(i, b, t). \<exists>step. (i, step) \<in> set ps \<and> (Step t, b) \<in> set (labelled_targets step)}
      = e \<union> {(i, b, t). \<exists>step. (i, step) \<in> set (p # ps) \<and> (Step t, b) \<in> set (labelled_targets step)}"
      by (cases p) auto
    then show ?case using m1(1) m2 by simp
  qed (simp add: case_prod_unfold)
  moreover have "incoming_inv ?ks {} (map (\<lambda>i. (i, [])) ?ks)"
    by (auto simp: incoming_inv_def bt_get_constant comp_def)
  ultimately show thesis
    using that unfolding incoming_def labelled_edges_targets by fastforce
qed

section \<open>Outputs on every route\<close>

context route_graph
begin

lemma predecessor_exists: "okg g \<Longrightarrow> v \<in> nodes g \<Longrightarrow> v \<noteq> entry g \<Longrightarrow> \<exists>u. (u, v) \<in> edges g"
  using all_reachable [of g] by (metis ImageE rtranclE singletonD subsetD)

lemma least_outside:
  assumes "okg g" and "v \<in> nodes g" and "v \<notin> s"
  shows "\<exists>u \<in> nodes g. u \<notin> s \<and> (\<forall>w. (w, u) \<in> edges g \<longrightarrow> w \<in> s)"
proof -
  have "finite (edges g)"
    using finite_nodes [OF assms(1)] edges_closed [OF assms(1)] by (meson finite_SigmaI finite_subset)
  then have "wf (edges g)" using edges_acyclic [OF assms(1)] by (rule finite_acyclic_wf)
  then obtain u where "u \<in> nodes g - s" "\<And>w. (w, u) \<in> edges g \<Longrightarrow> w \<notin> nodes g - s"
    using assms(2,3) by (auto elim: wfE_min [where x = v and Q = "nodes g - s"])
  then show ?thesis using edges_closed [OF assms(1)] by auto
qed

end

inductive_cases route_toE: "route_to d t outs"

lemma always_committed_entry:
  assumes "\<And>v. (v, wf_entry d) \<notin> graph_edges d"
  shows "always_committed d (wf_entry d) = {}"
proof -
  have "outs = {}" if "route_to d (wf_entry d) outs" for outs
    using that assms by (cases rule: route_to.cases) (auto simp: labelled_edges_iff)
  moreover have "route_to d (wf_entry d) {}" by (rule at_entry)
  ultimately show ?thesis by (auto simp: always_committed_def)
qed

definition after_edge :: "step_id \<times> bool \<Rightarrow> step_id set \<Rightarrow> step_id set" where
  "after_edge p outs = (if snd p then insert (fst p) outs else outs)"

lemma route_to_step:
  assumes "t \<noteq> wf_entry d"
  shows "route_to d t outs \<longleftrightarrow>
    (\<exists>i b before. route_to d i before \<and> (i, b, t) \<in> labelled_edges d \<and> outs = after_edge (i, b) before)"
proof
  assume "route_to d t outs"
  then show "\<exists>i b before. route_to d i before \<and> (i, b, t) \<in> labelled_edges d \<and> outs = after_edge (i, b) before"
    using assms unfolding after_edge_def fst_conv snd_conv by (cases rule: route_to.cases) blast+
next
  assume "\<exists>i b before. route_to d i before \<and> (i, b, t) \<in> labelled_edges d \<and> outs = after_edge (i, b) before"
  then show "route_to d t outs" unfolding after_edge_def fst_conv snd_conv by (blast intro: route_to.along)
qed

lemma always_committed_step:
  assumes "t \<noteq> wf_entry d"
  shows "always_committed d t = (\<Inter>p \<in> {(i, b). (i, b, t) \<in> labelled_edges d}. after_edge p (always_committed d (fst p)))"
proof (rule set_eqI)
  fix j
  have "j \<in> always_committed d t \<longleftrightarrow>
      (\<forall>i b before. route_to d i before \<and> (i, b, t) \<in> labelled_edges d \<longrightarrow> j \<in> after_edge (i, b) before)"
    unfolding always_committed_def route_to_step [OF assms] by blast
  also have "\<dots> \<longleftrightarrow> (\<forall>i b. (i, b, t) \<in> labelled_edges d \<longrightarrow> j \<in> after_edge (i, b) (always_committed d i))"
    by (auto simp: after_edge_def always_committed_def)
  finally show "j \<in> always_committed d t \<longleftrightarrow>
      j \<in> (\<Inter>p \<in> {(i, b). (i, b, t) \<in> labelled_edges d}. after_edge p (always_committed d (fst p)))"
    by simp
qed

section \<open>The availability loop\<close>

lemma set_intersect_all: "ss \<noteq> [] \<Longrightarrow> set (intersect_all ss) = (\<Inter>s \<in> set ss. set s)"
proof (cases ss)
  case (Cons s ss')
  have "set (foldl (\<lambda>a b. filter (\<lambda>x. x \<in> set b) a) s ss') = set s \<inter> (\<Inter>s \<in> set ss'. set s)"
    by (induction ss' arbitrary: s) auto
  then show ?thesis using Cons by simp
qed simp

definition av_inv :: "'n workflow_definition \<Rightarrow> available_sets \<Rightarrow> bool" where
  "av_inv d av \<longleftrightarrow> bt_ok av \<and> set (bt_keys av) \<subseteq> graph_nodes d \<and>
     (\<forall>i s. bt_get av i = Some s \<longrightarrow> set s = always_committed d i)"

lemma predecessor_sets_spec:
  assumes "av_inv d av" and "list_all (\<lambda>q. bt_contains av (fst q)) ps"
  shows "\<exists>ss. predecessor_sets av ps = Ok ss \<and> length ss = length ps \<and>
    set ` set ss = (\<lambda>p. after_edge p (always_committed d (fst p))) ` set ps"
  using assms(2)
proof (induction ps)
  case (Cons p ps)
  obtain i b where p: "p = (i, b)" by (cases p)
  obtain s where s: "bt_get av i = Some s" using Cons.prems p by (auto simp: bt_contains_def)
  then have "set s = always_committed d i" using assms(1) by (simp add: av_inv_def)
  then have "set (if b then bs_insert i s else s) = after_edge p (always_committed d i)"
    by (simp add: p after_edge_def)
  then show ?case using Cons p s by auto
qed simp

lemma av_inv_insert:
  assumes d: "bt_ok (wf_steps d)" "is_ok (validate d)" and inv: "av_inv d av" and i: "i \<in> graph_nodes d"
    and ps: "set ps = {(j, b). (j, b, i) \<in> labelled_edges d}" and all: "list_all (\<lambda>q. bt_contains av (fst q)) ps"
  shows "\<exists>ss. predecessor_sets av ps = Ok ss \<and> av_inv d (bt_insert i (intersect_all ss) av)"
proof -
  note okd = conjI [OF d]
  obtain ss where ss: "predecessor_sets av ps = Ok ss" "length ss = length ps"
    "set ` set ss = (\<lambda>p. after_edge p (always_committed d (fst p))) ` set ps"
    using predecessor_sets_spec [OF inv all] by blast
  have "set (intersect_all ss) = always_committed d i"
  proof (cases "i = wf_entry d")
    case True
    have none: "(v, wf_entry d) \<notin> graph_edges d" for v
      by (rule validated.entry_has_no_predecessor [OF okd])
    then have "ps = []" using ps True by (auto simp: labelled_edges_iff simp flip: set_empty)
    then show ?thesis using ss(2) True always_committed_entry [OF none] by simp
  next
    case False
    then have "ps \<noteq> []"
      using validated.predecessor_exists [OF okd i] ps by (auto simp: labelled_edges_iff)
    then have "ss \<noteq> []" using ss(2) by auto
    then have "set (intersect_all ss) = \<Inter> (set ` set ss)" by (rule set_intersect_all)
    then show ?thesis unfolding ss(3) ps always_committed_step [OF False] .
  qed
  then have "av_inv d (bt_insert i (intersect_all ss) av)"
    using inv i bt_keys_insert [of i "intersect_all ss" av]
    by (auto simp: av_inv_def bt_ok_insert bt_get_insert bt_keys_def)
  then show ?thesis using ss(1) by blast
qed

lemma few_keys:
  assumes "bt_ok (wf_steps d)" and "length av < length (wf_steps d)"
  shows "\<not> graph_nodes d \<subseteq> set (bt_keys av)"
proof
  assume "graph_nodes d \<subseteq> set (bt_keys av)"
  then have "card (graph_nodes d) \<le> card (set (bt_keys av))" by (simp add: card_mono)
  moreover have "card (graph_nodes d) = length (wf_steps d)"
    using distinct_card [OF bt_ok_distinct [OF assms(1)]] by (simp add: graph_nodes_def bt_keys_def)
  ultimately show False using assms(2) card_length [of "bt_keys av"] by (simp add: bt_keys_def)
qed

lemma incoming_entry:
  assumes "incoming_inv (bt_keys m) e edges" and "(i, ps) \<in> set edges" and "bt_ok m"
  shows "i \<in> set (bt_keys m) \<and> set ps = {(j, b). (j, b, i) \<in> e}"
proof -
  have keys: "map fst edges = bt_keys m" using assms(1) by (simp add: incoming_inv_def)
  then have "bt_ok edges" using assms(3) by (simp add: bt_ok_def bt_keys_def)
  then have "bt_get edges i = Some ps" using assms(2) by (simp add: bt_get_iff)
  moreover have "i \<in> set (bt_keys m)" using assms(2) by (force simp flip: keys)
  ultimately show ?thesis using assms(1) by (auto simp: incoming_inv_def)
qed

lemma availability_loop_spec:
  assumes d: "bt_ok (wf_steps d)" "is_ok (validate d)"
    and e: "incoming_inv (bt_keys (wf_steps d)) (labelled_edges d) edges"
  shows "av_inv d av \<Longrightarrow> \<exists>av'. availability_loop (length (wf_steps d)) edges av = Ok av' \<and> av_inv d av'
    \<and> length (wf_steps d) \<le> length av'"
proof (induction "length (wf_steps d) - length av" arbitrary: av rule: less_induct)
  case less
  note okd = conjI [OF d]
  show ?case
  proof (cases "length av < length (wf_steps d)")
    case False
    then show ?thesis using less.prems by (simp add: availability_loop.simps)
  next
    case True
    then obtain v where "v \<in> graph_nodes d" "v \<notin> set (bt_keys av)"
      using few_keys [OF d(1)] by blast
    then obtain u where u: "u \<in> graph_nodes d" "u \<notin> set (bt_keys av)"
      "\<And>w. (w, u) \<in> graph_edges d \<Longrightarrow> w \<in> set (bt_keys av)"
      using validated.least_outside [OF okd] by blast
    have in_edges: "i \<in> graph_nodes d \<and> set ps = {(j, b). (j, b, i) \<in> labelled_edges d}" if "(i, ps) \<in> set edges" for i ps
      using incoming_entry [OF e that] d(1) by (simp add: graph_nodes_def)
    obtain ups where ups: "(u, ups) \<in> set edges"
      using e u(1) by (force simp: incoming_inv_def graph_nodes_def dest: bt_get_in_set)
    have "ready av (u, ups)"
      using u in_edges [OF ups] by (auto simp: ready_def bt_contains_iff list_all_iff labelled_edges_iff)
    then obtain p where p: "find (ready av) edges = Some p"
      using ups by (cases "find (ready av) edges") (auto simp: find_None_iff)
    obtain i ps where ip: "p = (i, ps)" by (cases p)
    have i: "(i, ps) \<in> set edges" "ready av (i, ps)" using find_SomeD [OF p] ip by simp_all
    then obtain ss where ss: "predecessor_sets av ps = Ok ss" "av_inv d (bt_insert i (intersect_all ss) av)"
      using av_inv_insert [OF d less.prems, of i ps] in_edges [of i ps] by (auto simp: ready_def)
    have "length (bt_insert i (intersect_all ss) av) = Suc (length av)"
      using i(2) by (simp add: ready_def length_bt_insert_new)
    then show ?thesis
      using less.hyps [OF _ ss(2)] True p ip ss(1)
      by (simp add: availability_loop.simps [of _ _ av])
  qed
qed

lemma availability_spec:
  assumes "bt_ok (wf_steps d)" and "is_ok (validate d)"
  shows "\<exists>av. availability d = Ok av \<and> bt_keys av = bt_keys (wf_steps d) \<and> av_inv d av"
proof -
  obtain edges where edges: "incoming d = Ok edges" "incoming_inv (bt_keys (wf_steps d)) (labelled_edges d) edges"
    using incoming_spec [OF validated.edges_closed [OF conjI [OF assms]]] by blast
  have "av_inv d []" by (simp add: av_inv_def bt_ok_def bt_keys_def bt_get_def)
  then obtain av where av: "availability_loop (length (wf_steps d)) edges [] = Ok av" "av_inv d av"
    "length (wf_steps d) \<le> length av"
    using availability_loop_spec [OF assms edges(2)] by blast
  have sub: "set (bt_keys av) \<subseteq> set (bt_keys (wf_steps d))" using av(2) by (simp add: av_inv_def graph_nodes_def)
  have sorted: "sorted_wrt (<) (bt_keys av)" "sorted_wrt (<) (bt_keys (wf_steps d))"
    using av(2) assms(1) by (simp_all add: av_inv_def bt_ok_def bt_keys_def)
  then have "set (bt_keys av) = set (bt_keys (wf_steps d))"
    using sub av(3) distinct_card [of "bt_keys av"] distinct_card [of "bt_keys (wf_steps d)"]
    by (intro card_seteq) (simp_all add: strict_sorted_iff, simp add: bt_keys_def)
  then have "bt_keys av = bt_keys (wf_steps d)" by (rule strict_sorted_equal [OF sorted(2,1)])
  then show ?thesis using edges(1) av by (simp add: availability_def)
qed

section \<open>Runs commit what the analysis promises\<close>

text \<open>A run with the set of steps whose output it has committed: those that completed.\<close>

inductive run_commits ::
    "('n, 'd) externals \<Rightarrow> 'n workflow_definition \<Rightarrow> run_config \<Rightarrow> step_id set \<Rightarrow> bool"
  for x d where
  begins: "run_commits x d (initial_config d) {}"
| resolves: "run_commits x d \<lparr>config_state = s, trail = i # tr\<rparr> outs
    \<Longrightarrow> resolve_outcome x (ValidatedWorkflow d) i result retry now = Ok disp
    \<Longrightarrow> apply_disposition s disp now' = Ok s'
    \<Longrightarrow> run_commits x d \<lparr>config_state = s', trail = (case successor disp of Some t \<Rightarrow> t # i # tr | None \<Rightarrow> i # tr)\<rparr>
          (case disp of Advance _ _ \<Rightarrow> insert i outs | _ \<Rightarrow> outs)"
| moves: "run_commits x d \<lparr>config_state = s, trail = tr\<rparr> outs
    \<Longrightarrow> start s = Ok s' \<or> resume s = Ok s' \<or> fail_terminal s = Ok s' \<or> s' = cancel s
    \<Longrightarrow> run_commits x d \<lparr>config_state = s', trail = tr\<rparr> outs"

lemma select_route_labelled:
  assumes "select_route (ValidatedWorkflow d) i r = Ok (Step t)"
  shows "(i, r \<noteq> Select_FinalError, t) \<in> labelled_edges d"
proof -
  obtain step where step: "bt_get (wf_steps d) i = Some step"
    using assms by (auto simp: select_route_def)
  have "(Step t, r \<noteq> Select_FinalError) \<in> set (labelled_targets step)"
    using assms step
    by (force simp: select_route_def labelled_targets_def dest!: find_SomeD
        split: route_selection.splits routes.splits)
  then show ?thesis
    using bt_get_in_set [OF step] unfolding labelled_edges_targets by blast
qed

lemma successor_labelled:
  assumes "resolve_outcome x (ValidatedWorkflow d) i r retry now = Ok disp" and "successor disp = Some t"
  shows "(i, (\<exists>c target. disp = Advance c target), t) \<in> labelled_edges d"
proof -
  obtain step where step: "bt_get (wf_steps d) i = Some step"
    using resolve_known_step [OF assms(1)] by auto
  show ?thesis
  proof (cases r)
    case (Outcome_Completed c)
    then obtain target where "select_route (ValidatedWorkflow d) i (route_selection_of (completed_route c)) = Ok target"
      "disp = Advance c target"
      using assms(1) by (auto simp: resolve_outcome_def split: if_splits)
    moreover have "route_selection_of (completed_route c) \<noteq> Select_FinalError"
      by (cases "completed_route c") simp_all
    ultimately show ?thesis
      using assms(2) select_route_labelled [of d i _ t] by (cases target) force+
  next
    case (Outcome_Waiting q)
    then show ?thesis
      using assms by (auto simp: resolve_outcome_def split: if_splits)
  next
    case (Outcome_Failed f)
    then have *: "final_error step = Some (Step t) \<and> \<not> (\<exists>c target. disp = Advance c target)"
      using assms resolve_failed [of "ValidatedWorkflow d" i step x f retry now] step
      by (auto split: if_splits elim: successor.elims)
    then show ?thesis
      using select_route_labelled [of d i Select_FinalError t] select_final_error [of "ValidatedWorkflow d" i step] step
      by simp
  qed
qed

lemma run_commits_route:
  assumes "run_commits x d c outs"
  shows "trail c \<noteq> [] \<and> (\<exists>before. route_to d (hd (trail c)) before \<and> before \<subseteq> outs)"
  using assms
proof (induction rule: run_commits.induct)
  case begins
  then show ?case using at_entry [of d] by (auto simp: initial_config_def)
next
  case (resolves s i tr outs result retry now disp now' s')
  then obtain before where before: "route_to d i before" "before \<subseteq> outs" by auto
  let ?outs = "case disp of Advance _ _ \<Rightarrow> insert i outs | _ \<Rightarrow> outs"
  show ?case
  proof (cases "successor disp")
    case None
    moreover have "before \<subseteq> ?outs" using before(2) by (cases disp) auto
    ultimately show ?thesis using before(1) by auto
  next
    case (Some t)
    have sub: "(if \<exists>c target. disp = Advance c target then insert i before else before) \<subseteq> ?outs"
      using before(2) by (cases disp) auto
    show ?thesis
      using along [OF before(1) successor_labelled [OF resolves(2) Some]] sub Some by auto
  qed
qed simp

text \<open>At a step of a run, what the analysis calls available has been committed.\<close>

lemma available_committed:
  assumes "bt_ok (wf_steps d)" "validate d = Ok w" "availability d = Ok av"
    and "run_commits x d c outs" "bt_get av (hd (trail c)) = Some s" "j \<in> set s"
  shows "j \<in> outs"
proof -
  have "set s = always_committed d (hd (trail c))"
    using availability_spec [of d] assms(1-3,5) by (auto simp: av_inv_def)
  then show ?thesis
    using run_commits_route [OF assms(4)] assms(6) by (auto simp: always_committed_def)
qed

subsection \<open>Concrete run\<close>

lemma branching_available: "availability branching = Ok [(''a'', []), (''b'', [''a''])]"
  by code_simp

lemma branching_committed:
  "run_commits sample_externals branching \<lparr>config_state = Running, trail = [''b'', ''a'']\<rparr> {''a''}"
proof -
  let ?c = "\<lparr>completed_output = VNull, completed_route = Completion_Choice ''yes''\<rparr>"
  have "run_commits sample_externals branching \<lparr>config_state = Queued, trail = [''a'']\<rparr> {}"
    using run_commits.begins [of sample_externals branching]
    by (simp add: initial_config_def branching_def sample_definition_def)
  then have running: "run_commits sample_externals branching \<lparr>config_state = Running, trail = [''a'']\<rparr> {}"
    by (rule run_commits.moves) (simp add: start_def)
  have route: "select_route (ValidatedWorkflow branching) ''a'' (Select_Choice ''yes'') = Ok (Step ''b'')"
    "bt_contains (wf_steps branching) ''a''" "max_context_bytes (wf_limits branching) = 1024"
    by (simp_all add: branching_def sample_definition_def sample_step_def select_route_def bt_get_def bt_contains_def)
  then have "validate_context_value sample_externals (VNull :: int json)
      (workflow_context_limits (ValidatedWorkflow branching)) = Ok ()"
    by (simp add: validate_context_value_eq_Ok workflow_context_limits_def
        MAX_WORK_NODES_def MAX_OUTPUT_BYTES_def MAX_JSON_DEPTH_def serialized_len_def sample_externals_def)
  then have "resolve_outcome sample_externals (ValidatedWorkflow branching) ''a'' (Outcome_Completed ?c) Exhausted 0
      = Ok (Advance ?c (Step ''b''))"
    using route by (simp add: resolve_outcome_def)
  from run_commits.resolves [OF running this, of 0 Running] show ?thesis
    by (simp add: apply_disposition_def)
qed

section \<open>Properties\<close>

text \<open>
  C10. The availability analysis is exact and total: on every validated definition it ends
  without a panic, with one set for every step, and the set of a step is the
  intersection, over all routes from the entry to it, of the steps left by a success or
  choice route on the way. A step left by its error route does not count.
\<close>

theorem availability_is_exact:
  assumes "bt_ok (wf_steps d)" and "validate d = Ok w"
  shows "\<exists>av. availability d = Ok av \<and> bt_keys av = bt_keys (wf_steps d)
    \<and> (\<forall>i s. bt_get av i = Some s \<longrightarrow> set s = always_committed d i)"
  using availability_spec [of d] assms by (auto simp: av_inv_def)

theorem availability_is_exact_witness: "always_committed branching ''b'' = {''a''}"
proof -
  have "bt_get [(''a'', []), (''b'', [''a''])] ''b'' = Some [''a'']"
    by (simp add: bt_get_def)
  then show ?thesis
    using availability_is_exact [OF branching_ok] unfolding branching_available by fastforce
qed

text \<open>
  C9. A reference the availability guard lets a step read without a default names an output
  the run has committed: whenever a run of a validated definition stands at a step, through
  any sequence of completions, failures, error routes, waits, resumptions and cancellations,
  every step output that the guard allows there as a required read is among the outputs of
  the steps that completed.
\<close>

theorem allowed_references_are_committed:
  assumes "bt_ok (wf_steps d)" and "validate d = Ok w" and "availability d = Ok av"
    and "run_commits x d c outs" and "bt_get av (hd (trail c)) = Some s"
    and "step_reference_allowed (hd (trail c)) s Own_Unavailable False j"
  shows "j \<in> outs"
proof -
  have "j \<in> set s" using assms(6) by (auto simp: step_reference_allowed_def Let_def)
  with assms(1-5) show ?thesis by (rule available_committed)
qed

theorem allowed_references_are_committed_witness:
  "run_commits sample_externals branching \<lparr>config_state = Running, trail = [''b'', ''a'']\<rparr> {''a''} \<and> ''a'' \<in> {''a''}"
proof -
  have "bt_get [(''a'', []), (''b'', [''a''])] (hd (trail \<lparr>config_state = Running, trail = [''b'', ''a'']\<rparr>)) = Some [''a'']"
    by (simp add: bt_get_def)
  moreover have "step_reference_allowed (hd (trail \<lparr>config_state = Running, trail = [''b'', ''a'']\<rparr>)) [''a''] Own_Unavailable False ''a''"
    by (simp add: step_reference_allowed_def)
  ultimately show ?thesis
    using branching_committed
      allowed_references_are_committed [OF branching_ok branching_available branching_committed] by blast
qed

end
