(* ===== verification/Delivery_Queue.thy ===== *)
theory Delivery_Queue
  imports Complex_Main Transport Reference "HOL-Library.Product_Lexorder"
begin

text \<open>
  The durable delivery queue: \<open>src/src/adapters/persistence/delivery/queue.rs\<close>,
  \<open>cancellation.rs\<close>, \<open>evidence.rs\<close> and \<open>mod.rs\<close> there, with the types of
  \<open>src/src/application/transport/{queue,delivery,lease}.rs\<close>.

  The two tables are lists of rows with distinct ids. A statement \<open>UPDATE .. WHERE\<close> maps over
  the rows that satisfy its condition; the number of those rows is \<open>rows_affected\<close>. A
  transaction is one function on the tables, and a rollback returns the tables it started
  from: every operation locks the parent row before it writes, so operations on one delivery
  do not interleave. \<open>CURRENT_TIMESTAMP\<close>, the ids of \<open>gen_random_uuid()\<close>, the values of
  \<open>random()\<close> and the rows that \<open>SKIP LOCKED\<close> passes over are arguments. Status columns hold
  the enum values; that their stored spellings are exact is \<open>stored_spellings_are_exact\<close>.
  Instants are nanoseconds.
\<close>

section \<open>Types of the queue port\<close>

definition MAX_DELIVERY_ATTEMPTS :: int where
  "MAX_DELIVERY_ATTEMPTS = 5"

definition DELIVERY_LEASE_SECONDS :: int where
  "DELIVERY_LEASE_SECONDS = 120"

definition DELIVERY_CLAIM_BATCH :: int where
  "DELIVERY_CLAIM_BATCH = 20"

text \<open>The backoff policy; durations in whole seconds, as every use of it reads them.\<close>

record delivery_backoff =
  backoff_base :: int
  backoff_cap :: int
  backoff_jitter :: rat

definition DeliveryBackoff_DEFAULT :: delivery_backoff where
  "DeliveryBackoff_DEFAULT = \<lparr>backoff_base = 2, backoff_cap = 600, backoff_jitter = 2 / 10\<rparr>"

text \<open>\<open>2u32.saturating_pow\<close> and the product of a \<open>Duration\<close>, both saturating.\<close>

definition delay_after :: "delivery_backoff \<Rightarrow> int \<Rightarrow> int" where
  "delay_after b attempts =
     (let exponent = nat (max 0 (min attempts 16));
          factor = min (2 ^ exponent) (2 ^ 32 - 1)
      in min (min (backoff_base b * factor) (2 ^ 64 - 1)) (backoff_cap b))"

record execution_lease =
  lease_row :: uuid
  lease_execution :: uuid
  lease_owner :: uuid
  lease_expires_at :: instant

definition is_live_at :: "execution_lease \<Rightarrow> instant \<Rightarrow> bool" where
  "is_live_at l now \<longleftrightarrow> lease_expires_at l > now"

definition renewed_until :: "execution_lease \<Rightarrow> instant \<Rightarrow> execution_lease" where
  "renewed_until l t = l\<lparr>lease_expires_at := t\<rparr>"

datatype provider_send_outcome =
    Sent_Delivered "string option"
  | Sent_RetryAfter int delivery_failure_class string
  | Sent_Retryable delivery_failure_class string
  | Sent_OutcomeUnknown delivery_failure_class string
  | Sent_Terminal delivery_failure_class string

fun outcome_retry_after :: "provider_send_outcome \<Rightarrow> int option" where
  "outcome_retry_after (Sent_RetryAfter d _ _) = Some d"
| "outcome_retry_after _ = None"

fun is_safely_retryable :: "provider_send_outcome \<Rightarrow> bool" where
  "is_safely_retryable (Sent_Retryable _ _) = True"
| "is_safely_retryable (Sent_RetryAfter _ _ _) = True"
| "is_safely_retryable _ = False"

fun outcome_class :: "provider_send_outcome \<Rightarrow> delivery_failure_class option" where
  "outcome_class (Sent_Delivered _) = None"
| "outcome_class (Sent_RetryAfter _ c _) = Some c"
| "outcome_class (Sent_Retryable c _) = Some c"
| "outcome_class (Sent_OutcomeUnknown c _) = Some c"
| "outcome_class (Sent_Terminal c _) = Some c"

record part_transition =
  t_status :: delivery_part_status
  t_provider_key :: "string option"
  t_class :: "delivery_failure_class option"
  t_detail :: "string option"
  t_consumes_attempt :: bool
  t_retry_after :: "int option"

fun PartTransition_of :: "provider_send_outcome \<Rightarrow> part_transition" where
  "PartTransition_of (Sent_Delivered key) = \<lparr>t_status = Part_Delivered, t_provider_key = key,
     t_class = None, t_detail = None, t_consumes_attempt = False, t_retry_after = None\<rparr>"
| "PartTransition_of (Sent_RetryAfter d c detail) = \<lparr>t_status = Part_Retryable, t_provider_key = None,
     t_class = Some c, t_detail = Some detail, t_consumes_attempt = False, t_retry_after = Some d\<rparr>"
| "PartTransition_of (Sent_Retryable c detail) = \<lparr>t_status = Part_Retryable, t_provider_key = None,
     t_class = Some c, t_detail = Some detail, t_consumes_attempt = True, t_retry_after = None\<rparr>"
| "PartTransition_of (Sent_OutcomeUnknown c detail) = \<lparr>t_status = Part_OutcomeUnknown, t_provider_key = None,
     t_class = Some c, t_detail = Some detail, t_consumes_attempt = True, t_retry_after = None\<rparr>"
| "PartTransition_of (Sent_Terminal c detail) = \<lparr>t_status = Part_Dead, t_provider_key = None,
     t_class = Some c, t_detail = Some detail, t_consumes_attempt = True, t_retry_after = None\<rparr>"

datatype disposition = Dispose_Retry | Dispose_Terminal

datatype delivery_outcome = Applied delivery_status | Cancelled_As delivery_status | LeaseLost

fun lease_held :: "delivery_outcome \<Rightarrow> bool" where
  "lease_held (Applied _) = True"
| "lease_held _ = False"

record delivery_reaping =
  leases_expired :: nat
  dependencies_orphaned :: nat

definition is_quiet :: "delivery_reaping \<Rightarrow> bool" where
  "is_quiet r \<longleftrightarrow> leases_expired r = 0 \<and> dependencies_orphaned r = 0"

section \<open>Rows\<close>

text \<open>The columns of a delivery; the last two are read and written only for evidence.\<close>

record delivery_db =
  d_id :: uuid
  d_company_id :: uuid
  d_channel_id :: "uuid option"
  d_message_id :: "uuid option"
  d_source_binding_id :: "uuid option"
  d_destination_binding_id :: "uuid option"
  d_external_destination :: "string option"
  d_depends_on_delivery_id :: "uuid option"
  d_correlation_id :: uuid
  d_transport :: transport_kind
  d_purpose :: delivery_purpose
  d_idempotency_key :: string
  d_status :: delivery_status
  d_attempt_count :: int
  d_max_attempts :: int
  d_available_at :: instant
  d_last_error_class :: "delivery_failure_class option"
  d_last_error_detail :: "string option"
  d_execution_id :: "uuid option"
  d_owner_worker_id :: "uuid option"
  d_locked_at :: "instant option"
  d_lock_expires_at :: "instant option"
  d_delivered_at :: "instant option"
  d_created_at :: instant
  d_updated_at :: instant
  d_cancellation_requested_at :: "instant option"
  d_cancellation_reason :: "delivery_cancellation_reason option"
  d_settled_evidence_id :: "uuid option"
  d_reopen_id :: "uuid option"

text \<open>A part; its payload is the stored JSON text.\<close>

record part_db =
  p_id :: uuid
  p_company_id :: uuid
  p_delivery_id :: uuid
  p_part_index :: int
  p_part_key :: string
  p_payload :: string
  p_status :: delivery_part_status
  p_provider_message_key :: "string option"
  p_content_digest :: string
  p_attempt_count :: int
  p_last_error_class :: "delivery_failure_class option"
  p_last_error_detail :: "string option"
  p_request_started_at :: "instant option"
  p_delivered_at :: "instant option"
  p_created_at :: instant
  p_updated_at :: instant

record queue_db =
  q_deliveries :: "delivery_db list"
  q_parts :: "part_db list"

text \<open>The lease a row carries, every field or none.\<close>

definition row_lease :: "delivery_db \<Rightarrow> execution_lease option" where
  "row_lease r =
     (case (d_execution_id r, d_owner_worker_id r, d_lock_expires_at r) of
        (Some e, Some w, Some t) \<Rightarrow>
          Some \<lparr>lease_row = d_id r, lease_execution = e, lease_owner = w, lease_expires_at = t\<rparr>
      | _ \<Rightarrow> None)"

definition update_where :: "('r \<Rightarrow> bool) \<Rightarrow> ('r \<Rightarrow> 'r) \<Rightarrow> 'r list \<Rightarrow> 'r list" where
  "update_where P f rows = map (\<lambda>r. if P r then f r else r) rows"

definition rows_affected :: "('r \<Rightarrow> bool) \<Rightarrow> 'r list \<Rightarrow> nat" where
  "rows_affected P rows = length (filter P rows)"

text \<open>Every statement that ends a lease clears its four columns.\<close>

definition clear_lease :: "delivery_db \<Rightarrow> delivery_db" where
  "clear_lease r = r\<lparr>d_execution_id := None, d_owner_worker_id := None, d_locked_at := None,
     d_lock_expires_at := None\<rparr>"

definition own_row_fence :: "execution_lease \<Rightarrow> delivery_db \<Rightarrow> bool" where
  "own_row_fence fence r \<longleftrightarrow> d_id r = lease_row fence \<and> d_status r = Delivery_Sending
     \<and> d_execution_id r = Some (lease_execution fence) \<and> d_owner_worker_id r = Some (lease_owner fence)"

text \<open>A NULL expiry compares as unknown, which a \<open>WHERE\<close> treats as false.\<close>

definition live_fence :: "execution_lease \<Rightarrow> instant \<Rightarrow> delivery_db \<Rightarrow> bool" where
  "live_fence fence now r \<longleftrightarrow> own_row_fence fence r
     \<and> (case d_lock_expires_at r of Some t \<Rightarrow> t > now | None \<Rightarrow> False)"

text \<open>
  The delay in nanoseconds, \<open>r\<close> being the value of \<open>random()\<close>; PostgreSQL keeps intervals
  in microseconds.
\<close>

definition retry_delay :: "int \<Rightarrow> rat \<Rightarrow> int" where
  "retry_delay attempts r =
     (let b = DeliveryBackoff_DEFAULT;
          low = 1 - backoff_jitter b;
          span = 2 * backoff_jitter b
      in round (of_int (min (backoff_cap b) (backoff_base b * 2 ^ nat (min attempts 16)))
                * (low + r * span) * 1000000) * 1000)"

definition attempt_failed_set ::
    "instant \<Rightarrow> (uuid \<Rightarrow> rat) \<Rightarrow> delivery_failure_class option \<Rightarrow> string option \<Rightarrow> delivery_db \<Rightarrow> delivery_db" where
  "attempt_failed_set now random class detail r = clear_lease (r\<lparr>
     d_status := (if d_attempt_count r + 1 \<ge> d_max_attempts r then Delivery_DeadLetter else Delivery_Retryable),
     d_attempt_count := d_attempt_count r + 1,
     d_last_error_class := class,
     d_last_error_detail := detail,
     d_available_at := now + retry_delay (d_attempt_count r + 1) (random (d_id r)),
     d_updated_at := now\<rparr>)"

definition part_statuses :: "uuid \<Rightarrow> queue_db \<Rightarrow> delivery_part_status list" where
  "part_statuses i db = map p_status (sort_key p_part_index (filter (\<lambda>p. p_delivery_id p = i) (q_parts db)))"

section \<open>Cancellation\<close>

fun cancellation_detail :: "delivery_cancellation_reason \<Rightarrow> string" where
  "cancellation_detail WorkflowCancelled = ''The workflow run that produced this delivery was cancelled''"
| "cancellation_detail WorkflowExpired = ''The workflow run that produced this delivery ended before it went out''"
| "cancellation_detail WorkflowRevoked = ''The workflow messaging authority was revoked before this delivery went out''"
| "cancellation_detail RecipientRevoked = ''The current recipient identity or clearance no longer permits this delivery''"
| "cancellation_detail EvidenceConflict = ''A reconciliation finality breach stopped further sends for this message''"
| "cancellation_detail QuestionClosed = ''The question was answered or its human wait closed before this delivery went out''"

text \<open>The parent of a part that already carries the intent, among the given ids.\<close>

definition cancelled_parent :: "uuid list \<Rightarrow> queue_db \<Rightarrow> part_db \<Rightarrow> delivery_db option" where
  "cancelled_parent ids db p =
     find (\<lambda>r. d_id r = p_delivery_id p \<and> d_id r \<in> set ids \<and> d_cancellation_requested_at r \<noteq> None)
       (q_deliveries db)"

definition bury_unsent_parts_on :: "instant \<Rightarrow> uuid list \<Rightarrow> queue_db \<Rightarrow> queue_db" where
  "bury_unsent_parts_on now ids db = db\<lparr>q_parts := map (\<lambda>p.
     (case cancelled_parent ids db p of
        Some r \<Rightarrow>
          if p_status p \<in> {Part_Prepared, Part_Retryable}
          then p\<lparr>p_status := Part_Dead, p_last_error_class := Some Superseded,
                 p_last_error_detail := map_option cancellation_detail (d_cancellation_reason r),
                 p_updated_at := now\<rparr>
          else p
      | None \<Rightarrow> p)) (q_parts db)\<rparr>"

record cancelled_deliveries =
  superseded :: nat
  potentially_sent :: "uuid list"

definition in_flight :: "delivery_status \<Rightarrow> bool" where
  "in_flight s \<longleftrightarrow> s \<in> {Delivery_Sending, Delivery_OutcomeUnknown}"

definition cancel_locked_deliveries_on ::
    "instant \<Rightarrow> uuid list \<Rightarrow> delivery_cancellation_reason \<Rightarrow> queue_db \<Rightarrow> cancelled_deliveries \<times> queue_db" where
  "cancel_locked_deliveries_on now locked reason db =
     (if locked = [] then (\<lparr>superseded = 0, potentially_sent = []\<rparr>, db)
      else
        let unsent = (\<lambda>r. d_id r \<in> set locked \<and> delivery_is_claimable (d_status r));
            supersededs = map d_id (filter unsent (q_deliveries db));
            db1 = db\<lparr>q_deliveries := update_where unsent (\<lambda>r. r\<lparr>d_status := Delivery_DeadLetter,
              d_last_error_class := Some Superseded, d_last_error_detail := Some (cancellation_detail reason),
              d_cancellation_requested_at := Some now, d_cancellation_reason := Some reason,
              d_updated_at := now\<rparr>) (q_deliveries db)\<rparr>;
            db2 = bury_unsent_parts_on now supersededs db1;
            held = (\<lambda>r. d_id r \<in> set locked \<and> in_flight (d_status r))
        in (\<lparr>superseded = length supersededs, potentially_sent = map d_id (filter held (q_deliveries db2))\<rparr>,
            db2\<lparr>q_deliveries := update_where held (\<lambda>r. r\<lparr>d_cancellation_requested_at := Some now,
              d_cancellation_reason := Some reason, d_updated_at := now\<rparr>) (q_deliveries db2)\<rparr>))"

text \<open>
  Cancelling the deliveries of a workflow run or the notices owed to a member: \<open>linked\<close> are the
  ids the statement's join selects, and only rows without an intent are locked.
\<close>

definition cancel_linked_deliveries_on ::
    "instant \<Rightarrow> uuid list \<Rightarrow> delivery_cancellation_reason \<Rightarrow> queue_db \<Rightarrow> cancelled_deliveries \<times> queue_db" where
  "cancel_linked_deliveries_on now linked reason db =
     cancel_locked_deliveries_on now
       (sort (map d_id (filter (\<lambda>r. d_id r \<in> set linked
          \<and> (delivery_is_claimable (d_status r) \<or> in_flight (d_status r))
          \<and> d_cancellation_requested_at r = None) (q_deliveries db)))) reason db"

definition cancel_held_delivery_on ::
    "instant \<Rightarrow> uuid \<Rightarrow> delivery_cancellation_reason \<Rightarrow> queue_db \<Rightarrow> cancelled_deliveries \<times> queue_db" where
  "cancel_held_delivery_on now i reason db = cancel_locked_deliveries_on now [i] reason db"

datatype held_delivery = Held_Lost | Held_Live | Held_Cancelled delivery_cancellation_reason

definition lock_held_delivery_on :: "execution_lease \<Rightarrow> queue_db \<Rightarrow> held_delivery" where
  "lock_held_delivery_on fence db =
     (case find (own_row_fence fence) (q_deliveries db) of
        None \<Rightarrow> Held_Lost
      | Some r \<Rightarrow> (case d_cancellation_reason r of None \<Rightarrow> Held_Live | Some reason \<Rightarrow> Held_Cancelled reason))"

definition settle_cancelled_on ::
    "instant \<Rightarrow> execution_lease \<Rightarrow> delivery_cancellation_reason \<Rightarrow> part_transition option \<Rightarrow> queue_db
      \<Rightarrow> delivery_outcome \<times> queue_db" where
  "settle_cancelled_on now fence reason last_part db0 =
     (let db = bury_unsent_parts_on now [lease_row fence] db0;
          target = cancelled_parent_status (part_statuses (lease_row fence) db);
          (class, detail) =
            (if target = Delivery_DeadLetter then (Some Superseded, Some (cancellation_detail reason))
             else if target = Delivery_OutcomeUnknown
             then (Option.bind last_part t_class, Option.bind last_part t_detail)
             else (None, None));
          db' = db\<lparr>q_deliveries := update_where (own_row_fence fence) (\<lambda>r. clear_lease (r\<lparr>
            d_status := target,
            d_last_error_class := (if target = Delivery_Delivered then None
                                   else case class of Some c \<Rightarrow> Some c | None \<Rightarrow> d_last_error_class r),
            d_last_error_detail := (if target = Delivery_Delivered then None
                                    else if class = None then d_last_error_detail r else detail),
            d_delivered_at := (if target = Delivery_Delivered then Some now else None),
            d_updated_at := now\<rparr>)) (q_deliveries db)\<rparr>
      in if rows_affected (own_row_fence fence) (q_deliveries db) \<noteq> 1 then (LeaseLost, db')
         else (Cancelled_As target, db'))"

text \<open>Whether the sweep's predicate finds the row's lease ended.\<close>

definition lease_expired :: "instant \<Rightarrow> delivery_db \<Rightarrow> bool" where
  "lease_expired now r \<longleftrightarrow> d_status r = Delivery_Sending
     \<and> (case (d_execution_id r, d_owner_worker_id r, d_locked_at r, d_lock_expires_at r) of
          (Some _, Some _, Some locked, Some expires) \<Rightarrow> expires \<le> locked \<or> expires \<le> now
        | _ \<Rightarrow> True)"

definition settle_stranded_cancellations_on ::
    "instant \<Rightarrow> uuid list \<Rightarrow> queue_db \<Rightarrow> nat \<times> queue_db" where
  "settle_stranded_cancellations_on now stranded db0 =
     (let cancelled = map d_id (filter (\<lambda>r. d_id r \<in> set stranded \<and> d_cancellation_requested_at r \<noteq> None)
            (q_deliveries db0))
      in if cancelled = [] then (0, db0)
         else
           let db = bury_unsent_parts_on now cancelled db0;
               P = (\<lambda>r. d_id r \<in> set cancelled \<and> lease_expired now r)
           in (rows_affected P (q_deliveries db),
               db\<lparr>q_deliveries := update_where P (\<lambda>r. clear_lease (r\<lparr>d_status := Delivery_DeadLetter,
                 d_attempt_count := min (d_attempt_count r + 1) (d_max_attempts r),
                 d_last_error_class := Some Superseded,
                 d_last_error_detail := map_option cancellation_detail (d_cancellation_reason r),
                 d_updated_at := now\<rparr>)) (q_deliveries db)\<rparr>))"

section \<open>Claiming and renewing\<close>

definition dependency_delivered :: "queue_db \<Rightarrow> delivery_db \<Rightarrow> bool" where
  "dependency_delivered db r \<longleftrightarrow>
     (case d_depends_on_delivery_id r of
        None \<Rightarrow> True
      | Some i \<Rightarrow> list_ex (\<lambda>x. d_id x = i \<and> d_status x = Delivery_Delivered) (q_deliveries db))"

definition claimable :: "queue_db \<Rightarrow> instant \<Rightarrow> delivery_db \<Rightarrow> bool" where
  "claimable db now r \<longleftrightarrow> delivery_is_claimable (d_status r) \<and> d_cancellation_requested_at r = None
     \<and> d_available_at r \<le> now \<and> dependency_delivered db r"

definition claim_batch :: "queue_db \<Rightarrow> instant \<Rightarrow> uuid list \<Rightarrow> nat \<Rightarrow> uuid list" where
  "claim_batch db now skipped limit =
     map d_id (take limit (sort_key (\<lambda>r. (d_available_at r, d_id r))
       (filter (\<lambda>r. claimable db now r \<and> d_id r \<notin> set skipped) (q_deliveries db))))"

record claimed_delivery =
  claimed_lease :: execution_lease
  claimed_record :: delivery_db
  claimed_parts :: "part_db list"

datatype queue_error = Queue_Internal string | Queue_Conflict string

text \<open>
  \<open>readable\<close> says whether \<open>DeliveryDb::record\<close> and \<open>PartDb::stored\<close> accept the row and
  its parts; where they do not, the transaction is dropped.
\<close>

definition claimed_of ::
    "(delivery_db \<Rightarrow> part_db list \<Rightarrow> bool) \<Rightarrow> queue_db \<Rightarrow> delivery_db \<Rightarrow> (claimed_delivery, queue_error) outcome" where
  "claimed_of readable db r =
     (let parts = sort_key p_part_index (filter (\<lambda>p. p_delivery_id p = d_id r) (q_parts db)) in
      bindr (ok_or (row_lease r) (Queue_Internal ''claimed but carries no lease'')) (\<lambda>lease.
      bindr (guard (readable r parts) (Queue_Internal ''a value this build cannot read'')) (\<lambda>_.
      Ok \<lparr>claimed_lease = lease, claimed_record = r, claimed_parts = parts\<rparr>)))"

fun map_rows :: "('a \<Rightarrow> ('b, 'e) outcome) \<Rightarrow> 'a list \<Rightarrow> ('b list, 'e) outcome" where
  "map_rows f [] = Ok []"
| "map_rows f (x # xs) = bindr (f x) (\<lambda>y. bindr (map_rows f xs) (\<lambda>ys. Ok (y # ys)))"

text \<open>The claim counts a lease in whole seconds.\<close>

definition claimed_row :: "(uuid \<Rightarrow> uuid) \<Rightarrow> instant \<Rightarrow> uuid \<Rightarrow> nat \<Rightarrow> delivery_db \<Rightarrow> delivery_db" where
  "claimed_row fresh now owner lease_for r = r\<lparr>d_status := Delivery_Sending,
     d_execution_id := Some (fresh (d_id r)), d_owner_worker_id := Some owner, d_locked_at := Some now,
     d_lock_expires_at := Some (now + int (lease_for div 1000000000) * 1000000000), d_updated_at := now\<rparr>"

definition claim_deliveries ::
    "(delivery_db \<Rightarrow> part_db list \<Rightarrow> bool) \<Rightarrow> (uuid \<Rightarrow> uuid) \<Rightarrow> uuid list \<Rightarrow> instant
      \<Rightarrow> uuid \<Rightarrow> nat \<Rightarrow> nat \<Rightarrow> queue_db \<Rightarrow> (claimed_delivery list, queue_error) outcome \<times> queue_db" where
  "claim_deliveries readable fresh skipped now owner lease_for limit db =
     (let ids = claim_batch db now skipped limit;
          rows = update_where (\<lambda>r. d_id r \<in> set ids) (claimed_row fresh now owner lease_for) (q_deliveries db);
          db' = db\<lparr>q_deliveries := rows\<rparr>
      in case map_rows (claimed_of readable db') (filter (\<lambda>r. d_id r \<in> set ids) rows) of
           Ok claimed \<Rightarrow> (Ok claimed, db')
         | failed \<Rightarrow> (failed, db))"

definition renew_delivery_leases ::
    "instant \<Rightarrow> execution_lease list \<Rightarrow> nat \<Rightarrow> queue_db \<Rightarrow> uuid list \<times> queue_db" where
  "renew_delivery_leases now fences lease_for db =
     (let held = (\<lambda>r. list_ex (\<lambda>fence. live_fence fence now r) fences)
      in (map d_id (filter held (q_deliveries db)),
          db\<lparr>q_deliveries := update_where held (\<lambda>r. r\<lparr>d_lock_expires_at := Some (now + int lease_for),
            d_updated_at := now\<rparr>) (q_deliveries db)\<rparr>))"

section \<open>Fenced writes\<close>

datatype workflow_delivery_admission = NotWorkflow | Refuse delivery_cancellation_reason | Proceed

definition expire_reopened_part_on ::
    "instant \<Rightarrow> execution_lease \<Rightarrow> uuid \<Rightarrow> queue_db \<Rightarrow> delivery_outcome \<times> queue_db" where
  "expire_reopened_part_on now fence part_id db =
     (let detail = ''The reconciliation proof expired before the provider request started'';
          P = (\<lambda>p. p_id p = part_id \<and> p_delivery_id p = lease_row fence \<and> p_status p = Part_Retryable);
          db1 = db\<lparr>q_parts := update_where P (\<lambda>p. p\<lparr>p_status := Part_OutcomeUnknown,
            p_last_error_class := Some ReconciliationProofExpired, p_last_error_detail := Some detail,
            p_updated_at := now\<rparr>) (q_parts db)\<rparr>
      in if rows_affected P (q_parts db) \<noteq> 1 then (LeaseLost, db1)
         else
           let db2 = db1\<lparr>q_deliveries := update_where (own_row_fence fence) (\<lambda>r. clear_lease (r\<lparr>
                 d_status := Delivery_OutcomeUnknown, d_last_error_class := Some ReconciliationProofExpired,
                 d_last_error_detail := Some detail, d_updated_at := now\<rparr>)) (q_deliveries db1)\<rparr>
           in if rows_affected (own_row_fence fence) (q_deliveries db1) \<noteq> 1 then (LeaseLost, db2)
              else (Cancelled_As Delivery_OutcomeUnknown, db2))"

text \<open>
  \<open>admission\<close> and \<open>proof_expired\<close> are what the workflow side answers about this delivery
  (\<open>workflow_delivery_admission_on\<close>, \<open>reopen_proof_expired_on\<close>), both read-only.
\<close>

definition begin_part ::
    "workflow_delivery_admission \<Rightarrow> bool \<Rightarrow> instant \<Rightarrow> execution_lease \<Rightarrow> uuid \<Rightarrow> queue_db
      \<Rightarrow> delivery_outcome \<times> queue_db" where
  "begin_part admission proof_expired now fence part_id db =
     (case lock_held_delivery_on fence db of
        Held_Lost \<Rightarrow> (LeaseLost, db)
      | Held_Cancelled reason \<Rightarrow> settle_cancelled_on now fence reason None db
      | Held_Live \<Rightarrow>
          (case admission of
             Refuse reason \<Rightarrow>
               settle_cancelled_on now fence reason None (snd (cancel_held_delivery_on now (lease_row fence) reason db))
           | _ \<Rightarrow>
               if admission = Proceed \<and> proof_expired
               then (let (outcome, db') = expire_reopened_part_on now fence part_id db
                     in if outcome = LeaseLost then (LeaseLost, db) else (outcome, db'))
               else
                 let P = (\<lambda>p. p_id p = part_id \<and> p_status p \<in> {Part_Prepared, Part_Retryable}
                       \<and> list_ex (\<lambda>r. p_delivery_id p = d_id r \<and> live_fence fence now r) (q_deliveries db))
                 in if rows_affected P (q_parts db) = 1
                    then (Applied Delivery_Sending, db\<lparr>q_parts := update_where P (\<lambda>p. p\<lparr>p_status := Part_Sending,
                      p_attempt_count := p_attempt_count p + 1, p_request_started_at := Some now,
                      p_updated_at := now\<rparr>) (q_parts db)\<rparr>)
                    else (LeaseLost, db)))"

definition retry_parent_on ::
    "instant \<Rightarrow> (uuid \<Rightarrow> rat) \<Rightarrow> execution_lease \<Rightarrow> part_transition \<Rightarrow> queue_db \<Rightarrow> bool \<times> queue_db" where
  "retry_parent_on now random fence transition db =
     (rows_affected (own_row_fence fence) (q_deliveries db) = 1,
      db\<lparr>q_deliveries := update_where (own_row_fence fence)
        (if t_consumes_attempt transition
         then attempt_failed_set now random (t_class transition) (t_detail transition)
         else (\<lambda>r. clear_lease (r\<lparr>d_status := Delivery_Retryable,
           d_last_error_class := t_class transition, d_last_error_detail := t_detail transition,
           d_available_at := now + (case t_retry_after transition of
               Some d \<Rightarrow> d | None \<Rightarrow> retry_delay (d_attempt_count r) (random (d_id r))),
           d_updated_at := now\<rparr>)))
        (q_deliveries db)\<rparr>)"

definition settle_parent_on ::
    "instant \<Rightarrow> execution_lease \<Rightarrow> delivery_status \<Rightarrow> part_transition \<Rightarrow> queue_db \<Rightarrow> bool \<times> queue_db" where
  "settle_parent_on now fence target transition db =
     (rows_affected (own_row_fence fence) (q_deliveries db) = 1,
      db\<lparr>q_deliveries := update_where (own_row_fence fence) (\<lambda>r. clear_lease (r\<lparr>d_status := target,
        d_attempt_count := (if t_consumes_attempt transition
          then min (d_attempt_count r + 1) (d_max_attempts r) else d_attempt_count r),
        d_last_error_class := t_class transition, d_last_error_detail := t_detail transition,
        d_delivered_at := (if target = Delivery_Delivered then Some now else None),
        d_updated_at := now\<rparr>)) (q_deliveries db)\<rparr>)"

definition aggregate_parent_on ::
    "instant \<Rightarrow> (uuid \<Rightarrow> rat) \<Rightarrow> execution_lease \<Rightarrow> part_transition \<Rightarrow> queue_db \<Rightarrow> delivery_outcome \<times> queue_db" where
  "aggregate_parent_on now random fence transition db =
     (let statuses = part_statuses (lease_row fence) db;
          more_to_send = list_ex is_unfinished statuses
      in if Part_Sending \<in> set statuses \<or> (t_status transition = Part_Delivered \<and> more_to_send)
         then (Applied Delivery_Sending, db)
         else
           let target = aggregate_parent_status statuses;
               (applied, db') = (if target = Delivery_Retryable
                 then retry_parent_on now random fence transition db
                 else settle_parent_on now fence target transition db)
           in (if applied then Applied target else LeaseLost, db'))"

definition complete_part ::
    "instant \<Rightarrow> (uuid \<Rightarrow> rat) \<Rightarrow> execution_lease \<Rightarrow> uuid \<Rightarrow> provider_send_outcome \<Rightarrow> queue_db
      \<Rightarrow> delivery_outcome \<times> queue_db" where
  "complete_part now random fence part_id outcome db =
     (let transition = PartTransition_of outcome;
          held = lock_held_delivery_on fence db
      in if held = Held_Lost then (LeaseLost, db)
         else
           let P = (\<lambda>p. p_id p = part_id \<and> p_status p = Part_Sending
                 \<and> list_ex (\<lambda>r. p_delivery_id p = d_id r \<and> own_row_fence fence r) (q_deliveries db));
               db' = db\<lparr>q_parts := update_where P (\<lambda>p. p\<lparr>p_status := t_status transition,
                 p_provider_message_key :=
                   (case t_provider_key transition of Some k \<Rightarrow> Some k | None \<Rightarrow> p_provider_message_key p),
                 p_last_error_class := t_class transition, p_last_error_detail := t_detail transition,
                 p_delivered_at := (if t_status transition = Part_Delivered then Some now else None),
                 p_updated_at := now\<rparr>) (q_parts db)\<rparr>
           in if rows_affected P (q_parts db) \<noteq> 1 then (LeaseLost, db)
              else case held of
                     Held_Cancelled reason \<Rightarrow> settle_cancelled_on now fence reason (Some transition) db'
                   | _ \<Rightarrow> aggregate_parent_on now random fence transition db')"

definition fail_delivery ::
    "instant \<Rightarrow> (uuid \<Rightarrow> rat) \<Rightarrow> execution_lease \<Rightarrow> delivery_failure_class \<Rightarrow> string \<Rightarrow> disposition \<Rightarrow> queue_db
      \<Rightarrow> delivery_outcome \<times> queue_db" where
  "fail_delivery now random fence class detail disposition db =
     (case lock_held_delivery_on fence db of
        Held_Lost \<Rightarrow> (LeaseLost, db)
      | Held_Cancelled reason \<Rightarrow> settle_cancelled_on now fence reason None db
      | Held_Live \<Rightarrow>
          (let set_row = (case disposition of
                 Dispose_Terminal \<Rightarrow> (\<lambda>r. clear_lease (r\<lparr>d_status := Delivery_DeadLetter,
                   d_attempt_count := min (d_attempt_count r + 1) (d_max_attempts r),
                   d_last_error_class := Some class, d_last_error_detail := Some detail,
                   d_updated_at := now\<rparr>))
               | Dispose_Retry \<Rightarrow> attempt_failed_set now random (Some class) (Some detail));
               db' = db\<lparr>q_deliveries := update_where (own_row_fence fence) set_row (q_deliveries db)\<rparr>
           in case find (own_row_fence fence) (q_deliveries db) of
                None \<Rightarrow> (LeaseLost, db')
              | Some r \<Rightarrow> (Applied (d_status (set_row r)), db')))"

definition release_delivery ::
    "instant \<Rightarrow> execution_lease \<Rightarrow> queue_db \<Rightarrow> delivery_outcome \<times> queue_db" where
  "release_delivery now fence db =
     (case lock_held_delivery_on fence db of
        Held_Lost \<Rightarrow> (LeaseLost, db)
      | Held_Cancelled reason \<Rightarrow> settle_cancelled_on now fence reason None db
      | Held_Live \<Rightarrow>
          (let db' = db\<lparr>q_deliveries := update_where (own_row_fence fence) (\<lambda>r. clear_lease
                 (r\<lparr>d_status := Delivery_Pending, d_updated_at := now\<rparr>)) (q_deliveries db)\<rparr>
           in if rows_affected (own_row_fence fence) (q_deliveries db) \<noteq> 1 then (LeaseLost, db')
              else (Applied Delivery_Pending, db')))"

record stuck_work_census =
  delivery_dead_lettered :: nat
  delivery_overdue :: nat
  delivery_unconfirmed :: nat

definition census_stuck_deliveries :: "instant \<Rightarrow> int \<Rightarrow> queue_db \<Rightarrow> stuck_work_census" where
  "census_stuck_deliveries now overdue_after db = \<lparr>
     delivery_dead_lettered = rows_affected (\<lambda>r. d_status r = Delivery_DeadLetter) (q_deliveries db),
     delivery_overdue = rows_affected (\<lambda>r. d_status r \<in> {Delivery_Pending, Delivery_Retryable}
       \<and> d_available_at r < now - overdue_after) (q_deliveries db),
     delivery_unconfirmed = rows_affected (\<lambda>r. d_status r = Delivery_OutcomeUnknown) (q_deliveries db)\<rparr>"

section \<open>The sweep\<close>

definition expired_detail :: string where
  "expired_detail = ''The delivery lease expired without a result''"

text \<open>The sweep's statements, in their order: parts, ambiguous parents, cancelled parents, the rest.\<close>

definition strand_parts_on :: "instant \<Rightarrow> uuid list \<Rightarrow> queue_db \<Rightarrow> queue_db" where
  "strand_parts_on now stranded db = db\<lparr>q_parts := update_where
     (\<lambda>p. p_delivery_id p \<in> set stranded \<and> p_status p = Part_Sending)
     (\<lambda>p. p\<lparr>p_status := (if p_request_started_at p = None then Part_Retryable else Part_OutcomeUnknown),
       p_last_error_class := Some LeaseExpired, p_last_error_detail := Some expired_detail,
       p_updated_at := now\<rparr>) (q_parts db)\<rparr>"

definition holds_ambiguous_part :: "queue_db \<Rightarrow> delivery_db \<Rightarrow> bool" where
  "holds_ambiguous_part db r \<longleftrightarrow>
     list_ex (\<lambda>p. p_delivery_id p = d_id r \<and> p_status p = Part_OutcomeUnknown) (q_parts db)"

definition strand_unknown_on :: "instant \<Rightarrow> uuid list \<Rightarrow> queue_db \<Rightarrow> nat \<times> queue_db" where
  "strand_unknown_on now stranded db =
     (let U = (\<lambda>r. d_id r \<in> set stranded \<and> holds_ambiguous_part db r)
      in (rows_affected U (q_deliveries db),
          db\<lparr>q_deliveries := update_where U (\<lambda>r. clear_lease (r\<lparr>d_status := Delivery_OutcomeUnknown,
            d_attempt_count := min (d_attempt_count r + 1) (d_max_attempts r),
            d_last_error_class := Some LeaseExpired,
            d_last_error_detail := Some ''The lease expired after the provider request had started'',
            d_updated_at := now\<rparr>)) (q_deliveries db)\<rparr>))"

definition strand_retry_on ::
    "instant \<Rightarrow> uuid list \<Rightarrow> (uuid \<Rightarrow> rat) \<Rightarrow> queue_db \<Rightarrow> nat \<times> queue_db" where
  "strand_retry_on now stranded random db =
     (let R = (\<lambda>r. d_id r \<in> set stranded \<and> lease_expired now r \<and> d_cancellation_requested_at r = None)
      in (rows_affected R (q_deliveries db),
          db\<lparr>q_deliveries := update_where R
            (attempt_failed_set now random (Some LeaseExpired) (Some expired_detail)) (q_deliveries db)\<rparr>))"

definition reap_expired_leases_on ::
    "instant \<Rightarrow> uuid list \<Rightarrow> (uuid \<Rightarrow> rat) \<Rightarrow> queue_db \<Rightarrow> nat \<times> queue_db" where
  "reap_expired_leases_on now skipped random db =
     (let stranded = sort (map d_id (filter (\<lambda>r. lease_expired now r \<and> d_id r \<notin> set skipped) (q_deliveries db)))
      in if stranded = [] then (0, db)
         else
           let (unknown, db1) = strand_unknown_on now stranded (strand_parts_on now stranded db);
               (cancelled, db2) = settle_stranded_cancellations_on now stranded db1;
               (retried, db3) = strand_retry_on now stranded random db2
           in (unknown + cancelled + retried, db3))"

definition orphan_stuck_dependents_on :: "instant \<Rightarrow> queue_db \<Rightarrow> nat \<times> queue_db" where
  "orphan_stuck_dependents_on now db =
     (let stuck = (\<lambda>r. delivery_is_claimable (d_status r)
            \<and> list_ex (\<lambda>x. d_depends_on_delivery_id r = Some (d_id x) \<and> needs_attention (d_status x)) (q_deliveries db))
      in (rows_affected stuck (q_deliveries db),
          db\<lparr>q_deliveries := update_where stuck (\<lambda>r. r\<lparr>d_status := Delivery_DeadLetter,
            d_attempt_count := d_max_attempts r, d_last_error_class := Some DependencyFailed,
            d_last_error_detail := Some ''The delivery this one threads under can never be delivered'',
            d_updated_at := now\<rparr>) (q_deliveries db)\<rparr>))"

definition reap_expired_deliveries ::
    "instant \<Rightarrow> uuid list \<Rightarrow> (uuid \<Rightarrow> rat) \<Rightarrow> queue_db \<Rightarrow> delivery_reaping \<times> queue_db" where
  "reap_expired_deliveries now skipped random db =
     (let (expired, db1) = reap_expired_leases_on now skipped random db;
          (orphaned, db2) = orphan_stuck_dependents_on now db1
      in (\<lparr>leases_expired = expired, dependencies_orphaned = orphaned\<rparr>, db2))"

section \<open>Verified evidence\<close>

text \<open>
  What verified evidence settles an ambiguous delivery to: \<open>evidence.rs\<close>. The caller found the
  proof and holds the parent's lock; it rolls back when this fails.
\<close>

datatype unknown_settlement =
    Settled_Delivered uuid
  | Settled_Reopened uuid
  | Settled_Superseded uuid delivery_cancellation_reason
  | Settled_Exhausted uuid

definition verified_parent :: "unknown_settlement \<Rightarrow> uuid \<Rightarrow> delivery_db \<Rightarrow> bool" where
  "verified_parent settlement i r \<longleftrightarrow> d_id r = i \<and> d_status r = Delivery_OutcomeUnknown
     \<and> (case settlement of
          Settled_Reopened _ \<Rightarrow> d_cancellation_requested_at r = None \<and> d_attempt_count r < d_max_attempts r
        | _ \<Rightarrow> True)"

fun settle_verified_parent :: "instant \<Rightarrow> unknown_settlement \<Rightarrow> delivery_db \<Rightarrow> delivery_db" where
  "settle_verified_parent now (Settled_Delivered evidence) r = r\<lparr>d_status := Delivery_Delivered,
     d_delivered_at := Some now, d_last_error_class := None, d_last_error_detail := None,
     d_settled_evidence_id := Some evidence, d_updated_at := now\<rparr>"
| "settle_verified_parent now (Settled_Reopened reopen) r = r\<lparr>d_status := Delivery_Retryable,
     d_available_at := now, d_last_error_class := Some ReconciledNotApplied,
     d_last_error_detail := Some ''Verified not applied; queued again'', d_reopen_id := Some reopen,
     d_updated_at := now\<rparr>"
| "settle_verified_parent now (Settled_Superseded evidence reason) r = r\<lparr>d_status := Delivery_DeadLetter,
     d_last_error_class := Some Superseded, d_last_error_detail := Some (cancellation_detail reason),
     d_settled_evidence_id := Some evidence,
     d_cancellation_reason := (case d_cancellation_reason r of Some c \<Rightarrow> Some c | None \<Rightarrow> Some reason),
     d_cancellation_requested_at := (case d_cancellation_requested_at r of Some t \<Rightarrow> Some t | None \<Rightarrow> Some now),
     d_updated_at := now\<rparr>"
| "settle_verified_parent now (Settled_Exhausted evidence) r = r\<lparr>d_status := Delivery_DeadLetter,
     d_last_error_class := Some NotAppliedExhausted,
     d_last_error_detail := Some ''Verified not applied; no attempt left'',
     d_settled_evidence_id := Some evidence, d_updated_at := now\<rparr>"

definition verified_part :: "uuid \<Rightarrow> uuid \<Rightarrow> part_db \<Rightarrow> bool" where
  "verified_part i part p \<longleftrightarrow> p_id p = part \<and> p_delivery_id p = i \<and> p_status p = Part_OutcomeUnknown"

fun settle_verified_part :: "instant \<Rightarrow> unknown_settlement \<Rightarrow> part_db \<Rightarrow> part_db" where
  "settle_verified_part now (Settled_Delivered _) p = p\<lparr>p_status := Part_Delivered,
     p_delivered_at := Some now, p_last_error_class := None, p_last_error_detail := None, p_updated_at := now\<rparr>"
| "settle_verified_part now (Settled_Reopened _) p = p\<lparr>p_status := Part_Retryable,
     p_last_error_class := Some ReconciledNotApplied,
     p_last_error_detail := Some ''Verified not applied; queued again'', p_updated_at := now\<rparr>"
| "settle_verified_part now (Settled_Superseded _ _) p = p\<lparr>p_status := Part_Dead,
     p_last_error_class := Some Superseded,
     p_last_error_detail := Some ''Verified not applied; the workflow no longer wants it'', p_updated_at := now\<rparr>"
| "settle_verified_part now (Settled_Exhausted _) p = p\<lparr>p_status := Part_Dead,
     p_last_error_class := Some NotAppliedExhausted,
     p_last_error_detail := Some ''Verified not applied; no attempt left'', p_updated_at := now\<rparr>"

definition settle_unknown_delivery_on ::
    "instant \<Rightarrow> uuid \<Rightarrow> uuid \<Rightarrow> unknown_settlement \<Rightarrow> queue_db \<Rightarrow> (unit, queue_error) outcome \<times> queue_db" where
  "settle_unknown_delivery_on now delivery part settlement db =
     (let P = verified_parent settlement delivery;
          Q = verified_part delivery part;
          db1 = db\<lparr>q_deliveries := update_where P (settle_verified_parent now settlement) (q_deliveries db)\<rparr>;
          db2 = db1\<lparr>q_parts := update_where Q (settle_verified_part now settlement) (q_parts db1)\<rparr>
      in if rows_affected P (q_deliveries db) \<noteq> 1 \<or> rows_affected Q (q_parts db1) \<noteq> 1
         then (Err (Queue_Conflict ''Workflow message delivery is no longer outcome unknown''), db)
         else (Ok (), db2))"

end
