(* ===== verification/Delivery_Facts.thy ===== *)
theory Delivery_Facts
  imports Delivery_Queue
begin

text \<open>
  Correctness of the delivery queue: the constraints of the two tables hold after every
  operation, a superseded execution changes nothing, a part is sent again only after a provider or
  verified evidence said that it was not accepted, and a cancellation is never undone.
\<close>

section \<open>Updates of tables\<close>

lemma update_where_all2:
  assumes "\<And>r. r \<in> set rows \<Longrightarrow> P r \<Longrightarrow> R r (f r)" and "\<And>r. r \<in> set rows \<Longrightarrow> R r r"
  shows "list_all2 R rows (update_where P f rows)"
  using assms by (induction rows) (auto simp: update_where_def)

lemma all2_map: "(\<And>r. r \<in> set rows \<Longrightarrow> R r (f r)) \<Longrightarrow> list_all2 R rows (map f rows)"
  by (induction rows) auto

lemma all2_refl: "(\<And>r. r \<in> set rows \<Longrightarrow> R r r) \<Longrightarrow> list_all2 R rows rows"
  by (induction rows) auto

lemma all2_compose:
  "list_all2 R xs ys \<Longrightarrow> list_all2 S ys zs \<Longrightarrow> (\<And>x y z. R x y \<Longrightarrow> S y z \<Longrightarrow> T x z) \<Longrightarrow> list_all2 T xs zs"
  by (rule list_all2_trans)

lemma all2_in:
  assumes "list_all2 R xs ys" and "x \<in> set xs"
  shows "\<exists>y \<in> set ys. R x y"
  using assms by (metis in_set_conv_nth list_all2_conv_all_nth)

lemma all2_in2:
  assumes "list_all2 R xs ys" and "y \<in> set ys"
  shows "\<exists>x \<in> set xs. R x y"
  using assms by (metis in_set_conv_nth list_all2_conv_all_nth)

lemma all2_keys: "list_all2 R xs ys \<Longrightarrow> (\<And>x y. R x y \<Longrightarrow> k y = k x) \<Longrightarrow> map k ys = map k xs"
  by (induction rule: list_all2_induct) auto

lemma distinct_key: "distinct (map k rows) \<Longrightarrow> r \<in> set rows \<Longrightarrow> s \<in> set rows \<Longrightarrow> k r = k s \<Longrightarrow> r = s"
  by (metis distinct_map inj_on_def)

section \<open>Invariants\<close>

text \<open>The CHECK constraints of \<open>message_deliveries\<close>, at a time the row is not younger than.\<close>

definition lease_check :: "instant \<Rightarrow> delivery_db \<Rightarrow> bool" where
  "lease_check t r \<longleftrightarrow>
     (if d_status r = Delivery_Sending
      then d_execution_id r \<noteq> None \<and> d_owner_worker_id r \<noteq> None
        \<and> (\<exists>locked expires. d_locked_at r = Some locked \<and> d_lock_expires_at r = Some expires
             \<and> locked < expires \<and> locked \<le> t)
      else d_execution_id r = None \<and> d_owner_worker_id r = None \<and> d_locked_at r = None
        \<and> d_lock_expires_at r = None)"

definition attempt_check :: "delivery_db \<Rightarrow> bool" where
  "attempt_check r \<longleftrightarrow> 0 \<le> d_attempt_count r \<and> d_attempt_count r \<le> d_max_attempts r \<and> 0 < d_max_attempts r
     \<and> (delivery_is_claimable (d_status r) \<or> d_status r = Delivery_Sending \<longrightarrow> d_attempt_count r < d_max_attempts r)"

definition cancellation_check :: "delivery_db \<Rightarrow> bool" where
  "cancellation_check r \<longleftrightarrow> (d_cancellation_requested_at r = None) = (d_cancellation_reason r = None)
     \<and> (d_cancellation_requested_at r \<noteq> None \<longrightarrow> \<not> delivery_is_claimable (d_status r))"

definition delivered_at_check :: "delivery_db \<Rightarrow> bool" where
  "delivered_at_check r \<longleftrightarrow> (d_status r = Delivery_Delivered) = (d_delivered_at r \<noteq> None)"

definition row_ok :: "instant \<Rightarrow> delivery_db \<Rightarrow> bool" where
  "row_ok t r \<longleftrightarrow> lease_check t r \<and> attempt_check r \<and> cancellation_check r \<and> delivered_at_check r"

lemmas row_checks = row_ok_def lease_check_def attempt_check_def cancellation_check_def delivered_at_check_def

text \<open>The constraints of \<open>message_delivery_parts\<close>; whatever was requested records when that started.\<close>

definition part_ok :: "part_db \<Rightarrow> bool" where
  "part_ok p \<longleftrightarrow> (p_status p = Part_Delivered) = (p_delivered_at p \<noteq> None)
     \<and> (p_status p \<notin> {Part_Prepared, Part_Dead} \<longrightarrow> p_request_started_at p \<noteq> None)"

definition executions :: "queue_db \<Rightarrow> uuid set" where
  "executions db = {e. \<exists>r \<in> set (q_deliveries db). d_execution_id r = Some e}"

definition queue_ok :: "instant \<Rightarrow> queue_db \<Rightarrow> bool" where
  "queue_ok t db \<longleftrightarrow> distinct (map d_id (q_deliveries db)) \<and> distinct (map p_id (q_parts db))
     \<and> (\<forall>r \<in> set (q_deliveries db). row_ok t r) \<and> (\<forall>p \<in> set (q_parts db). part_ok p)"

section \<open>How a row and a part may change\<close>

text \<open>
  One operation at \<open>now\<close> on a row: the identity and the dependency stay, the constraints
  survive, a cancellation stays as it is, and an execution appears only from \<open>issued\<close>.
\<close>

definition row_moves :: "instant \<Rightarrow> uuid set \<Rightarrow> delivery_db \<Rightarrow> delivery_db \<Rightarrow> bool" where
  "row_moves now issued r r' \<longleftrightarrow> d_id r' = d_id r \<and> d_depends_on_delivery_id r' = d_depends_on_delivery_id r
     \<and> d_max_attempts r' = d_max_attempts r
     \<and> (row_ok now r \<longrightarrow> row_ok now r' \<and> d_attempt_count r \<le> d_attempt_count r')
     \<and> (d_cancellation_requested_at r \<noteq> None \<longrightarrow>
          d_cancellation_requested_at r' = d_cancellation_requested_at r
          \<and> d_cancellation_reason r' = d_cancellation_reason r)
     \<and> (d_execution_id r' = d_execution_id r \<or> d_execution_id r' = None \<or> d_execution_id r' \<in> Some ` issued)"

lemma row_moves_refl: "row_moves now issued r r"
  by (simp add: row_moves_def)

lemma row_moves_trans: "row_moves now i r s \<Longrightarrow> row_moves now i s t \<Longrightarrow> row_moves now i r t"
  unfolding row_moves_def by (elim conjE, intro conjI) (auto dest: order_trans)

text \<open>
  What a part still owes: the requests made so far, and one more while it may be sent. One
  operation raises this by at most \<open>k\<close> of the part's id, forgets no request, and leaves a
  final part alone.
\<close>

definition part_final :: "part_db \<Rightarrow> bool" where
  "part_final p \<longleftrightarrow> p_status p \<in> {Part_Delivered, Part_OutcomeUnknown, Part_Dead}"

definition owed :: "part_db \<Rightarrow> int" where
  "owed p = p_attempt_count p + (if is_unfinished (p_status p) then 1 else 0)"

definition part_moves :: "(uuid \<Rightarrow> nat) \<Rightarrow> part_db \<Rightarrow> part_db \<Rightarrow> bool" where
  "part_moves k p p' \<longleftrightarrow> p_id p' = p_id p \<and> p_delivery_id p' = p_delivery_id p \<and> p_part_index p' = p_part_index p
     \<and> p_payload p' = p_payload p \<and> p_part_key p' = p_part_key p \<and> p_content_digest p' = p_content_digest p
     \<and> p_attempt_count p \<le> p_attempt_count p'
     \<and> (part_ok p \<longrightarrow> part_ok p' \<and> owed p' \<le> owed p + int (k (p_id p)))
     \<and> (part_final p \<longrightarrow> p' = p)"

lemma part_moves_refl: "part_moves k p p"
  by (simp add: part_moves_def)

lemma part_moves_trans:
  "part_moves k p q \<Longrightarrow> part_moves l q s \<Longrightarrow> part_moves (\<lambda>i. k i + l i) p s"
  unfolding part_moves_def by (elim conjE, intro conjI) auto

lemma part_moves_none: "part_moves k p q \<Longrightarrow> part_moves (\<lambda>_. 0) q s \<Longrightarrow> part_moves k p s"
  using part_moves_trans [of k p q "\<lambda>_. 0" s] by simp

section \<open>Statements on one row\<close>

text \<open>The statements that end a lease, on a row that is being sent.\<close>

lemma attempt_failed_moves:
  "d_status r = Delivery_Sending \<Longrightarrow> d_cancellation_requested_at r = None \<Longrightarrow>
    row_moves now i r (attempt_failed_set now random class detail r)"
  by (auto simp: row_moves_def row_checks attempt_failed_set_def clear_lease_def delivery_is_claimable_def)

lemma settle_moves:
  assumes "d_status r = Delivery_Sending" and "target \<in> {Delivery_Delivered, Delivery_OutcomeUnknown, Delivery_DeadLetter}"
    and "a \<in> {d_attempt_count r, min (d_attempt_count r + 1) (d_max_attempts r)}"
    and "delivered = (if target = Delivery_Delivered then Some now else None)"
  shows "row_moves now i r (clear_lease (r\<lparr>d_status := target, d_attempt_count := a, d_last_error_class := c,
    d_last_error_detail := e, d_delivered_at := delivered, d_updated_at := now\<rparr>))"
  using assms by (auto simp: row_moves_def row_checks clear_lease_def delivery_is_claimable_def)

lemma release_moves:
  assumes "d_status r = Delivery_Sending" and "d_cancellation_requested_at r = None"
    and "s \<in> {Delivery_Pending, Delivery_Retryable}"
  shows "row_moves now i r (clear_lease (r\<lparr>d_status := s, d_last_error_class := c, d_last_error_detail := e,
    d_available_at := v, d_updated_at := now\<rparr>))"
  using assms by (auto simp: row_moves_def row_checks clear_lease_def delivery_is_claimable_def)

text \<open>Statements that write fewer columns write back the others.\<close>

lemma settle_moves_plain:
  assumes "d_status r = Delivery_Sending" and "row_ok now r" and "target \<in> {Delivery_OutcomeUnknown, Delivery_DeadLetter}"
    and "a \<in> {d_attempt_count r, min (d_attempt_count r + 1) (d_max_attempts r)}"
  shows "row_moves now i r (clear_lease (r\<lparr>d_status := target, d_attempt_count := a, d_last_error_class := c,
    d_last_error_detail := e, d_updated_at := now\<rparr>))"
  using assms by (auto simp: row_moves_def row_checks clear_lease_def delivery_is_claimable_def)

section \<open>Moves of the tables\<close>

definition moves :: "instant \<Rightarrow> uuid set \<Rightarrow> (uuid \<Rightarrow> nat) \<Rightarrow> queue_db \<Rightarrow> queue_db \<Rightarrow> bool" where
  "moves now issued k db db' \<longleftrightarrow> list_all2 (row_moves now issued) (q_deliveries db) (q_deliveries db')
     \<and> list_all2 (part_moves k) (q_parts db) (q_parts db')"

lemma moves_refl: "moves now issued k db db"
  by (simp add: moves_def all2_refl row_moves_refl part_moves_refl)

lemma moves_trans:
  assumes "moves now i k a b" and "moves now i (\<lambda>_. 0) b c"
  shows "moves now i k a c"
proof -
  have "list_all2 (row_moves now i) (q_deliveries a) (q_deliveries c)"
    using assms unfolding moves_def by (elim conjE) (erule (1) all2_compose, rule row_moves_trans)
  moreover have "list_all2 (part_moves k) (q_parts a) (q_parts c)"
    using assms unfolding moves_def by (elim conjE) (erule (1) all2_compose, rule part_moves_none)
  ultimately show ?thesis by (simp add: moves_def)
qed

lemma row_ok_later: "row_ok t r \<Longrightarrow> t \<le> now \<Longrightarrow> row_ok now r"
  by (auto simp: row_ok_def lease_check_def split: if_splits)

lemma queue_ok_later: "queue_ok t db \<Longrightarrow> t \<le> now \<Longrightarrow> queue_ok now db"
  by (auto simp: queue_ok_def intro: row_ok_later)

lemma moves_ok:
  assumes "queue_ok now db" and "moves now issued k db db'"
  shows "queue_ok now db'"
proof -
  have rows: "list_all2 (row_moves now issued) (q_deliveries db) (q_deliveries db')"
    and parts: "list_all2 (part_moves k) (q_parts db) (q_parts db')"
    using assms(2) by (simp_all add: moves_def)
  have "map d_id (q_deliveries db') = map d_id (q_deliveries db)" "map p_id (q_parts db') = map p_id (q_parts db)"
    using rows parts by (auto intro!: all2_keys simp: row_moves_def part_moves_def)
  moreover have "row_ok now r" if "r \<in> set (q_deliveries db')" for r
    using all2_in2 [OF rows that] assms(1) by (auto simp: queue_ok_def row_moves_def)
  moreover have "part_ok p" if "p \<in> set (q_parts db')" for p
    using all2_in2 [OF parts that] assms(1) by (auto simp: queue_ok_def part_moves_def)
  ultimately show ?thesis using assms(1) by (simp add: queue_ok_def)
qed

lemma moves_rows:
  "(\<And>r. r \<in> set (q_deliveries db) \<Longrightarrow> P r \<Longrightarrow> row_moves now i r (f r)) \<Longrightarrow>
    moves now i k db (db\<lparr>q_deliveries := update_where P f (q_deliveries db)\<rparr>)"
  by (simp add: moves_def update_where_all2 row_moves_refl all2_refl part_moves_refl)

lemma moves_parts:
  "(\<And>p. p \<in> set (q_parts db) \<Longrightarrow> P p \<Longrightarrow> part_moves k p (f p)) \<Longrightarrow>
    moves now i k db (db\<lparr>q_parts := update_where P f (q_parts db)\<rparr>)"
  by (simp add: moves_def update_where_all2 part_moves_refl all2_refl row_moves_refl)

section \<open>Operations\<close>

lemma bury_moves: "moves now i k db (bury_unsent_parts_on now ids db)"
proof -
  have "part_moves k p (p\<lparr>p_status := Part_Dead, p_last_error_class := c, p_last_error_detail := e, p_updated_at := now\<rparr>)"
    if "p_status p \<in> {Part_Prepared, Part_Retryable}" for p c e
    using that by (auto simp: part_moves_def part_ok_def owed_def part_final_def is_unfinished_def)
  then show ?thesis
    unfolding moves_def bury_unsent_parts_on_def
    by (auto intro!: all2_map all2_refl row_moves_refl simp: part_moves_refl split: option.split)
qed

lemma bury_rows [simp]: "q_deliveries (bury_unsent_parts_on now ids db) = q_deliveries db"
  by (simp add: bury_unsent_parts_on_def)

lemma fence_unique:
  assumes "queue_ok now db" and "r \<in> set (q_deliveries db)" and "own_row_fence fence r"
  shows "find (own_row_fence fence) (q_deliveries db) = Some r"
    and "rows_affected (own_row_fence fence) (q_deliveries db) = 1"
proof -
  have same: "r' = r" if "r' \<in> set (q_deliveries db)" "own_row_fence fence r'" for r'
    using assms that distinct_key [of d_id "q_deliveries db" r' r] by (auto simp: queue_ok_def own_row_fence_def)
  show "find (own_row_fence fence) (q_deliveries db) = Some r"
  proof (cases "find (own_row_fence fence) (q_deliveries db)")
    case None
    from find_NoneD [OF this assms(2)] assms(3) show ?thesis by simp
  next
    case (Some r')
    from find_SomeD [OF this] have "r' = r" by (intro same) simp_all
    with Some show ?thesis by simp
  qed
  have "distinct (q_deliveries db)" using assms(1) by (simp add: queue_ok_def distinct_map)
  then have "length (filter (own_row_fence fence) (q_deliveries db)) = card (set (filter (own_row_fence fence) (q_deliveries db)))"
    by (simp only: distinct_card distinct_filter)
  moreover have "set (filter (own_row_fence fence) (q_deliveries db)) = {r}"
  proof (intro set_eqI iffI)
    fix x assume "x \<in> set (filter (own_row_fence fence) (q_deliveries db))"
    then have "x = r" by (intro same) simp_all
    then show "x \<in> {r}" by simp
  next
    fix x assume "x \<in> {r}"
    then have "x = r" by (rule singletonD)
    then show "x \<in> set (filter (own_row_fence fence) (q_deliveries db))" using assms(2,3) by simp
  qed
  ultimately have "length (filter (own_row_fence fence) (q_deliveries db)) = 1" by simp
  then show "rows_affected (own_row_fence fence) (q_deliveries db) = 1" by (simp add: rows_affected_def)
qed

lemma held_cases:
  assumes "queue_ok now db"
  shows "lock_held_delivery_on fence db = Held_Lost \<longleftrightarrow> (\<forall>r \<in> set (q_deliveries db). \<not> own_row_fence fence r)"
    and "lock_held_delivery_on fence db = Held_Live \<Longrightarrow> r \<in> set (q_deliveries db) \<Longrightarrow> own_row_fence fence r
      \<Longrightarrow> d_cancellation_requested_at r = None"
    and "lock_held_delivery_on fence db = Held_Cancelled c \<Longrightarrow> r \<in> set (q_deliveries db) \<Longrightarrow> own_row_fence fence r
      \<Longrightarrow> d_cancellation_reason r = Some c"
proof -
  show "lock_held_delivery_on fence db = Held_Lost \<longleftrightarrow> (\<forall>r \<in> set (q_deliveries db). \<not> own_row_fence fence r)"
    unfolding lock_held_delivery_on_def
    by (cases "find (own_row_fence fence) (q_deliveries db)") (auto dest: find_NoneD find_SomeD split: option.split)
  show "d_cancellation_requested_at r = None"
    if "lock_held_delivery_on fence db = Held_Live" "r \<in> set (q_deliveries db)" "own_row_fence fence r"
    using that fence_unique(1) [OF assms that(2,3)] assms
    by (auto simp: lock_held_delivery_on_def queue_ok_def row_ok_def cancellation_check_def split: option.splits)
  show "d_cancellation_reason r = Some c"
    if "lock_held_delivery_on fence db = Held_Cancelled c" "r \<in> set (q_deliveries db)" "own_row_fence fence r"
    using that fence_unique(1) [OF assms that(2,3)]
    by (auto simp: lock_held_delivery_on_def split: option.splits)
qed

lemma cancelled_parent_status_range:
  "cancelled_parent_status ps \<in> {Delivery_Delivered, Delivery_OutcomeUnknown, Delivery_DeadLetter}"
  by (simp add: cancelled_parent_status_def)

lemma aggregate_parent_status_range:
  "aggregate_parent_status ps \<in> {Delivery_Delivered, Delivery_OutcomeUnknown, Delivery_DeadLetter, Delivery_Retryable}"
  by (simp add: aggregate_parent_status_def)

lemma settle_cancelled_moves: "moves now i k db (snd (settle_cancelled_on now fence reason last_part db))"
proof -
  let ?db = "bury_unsent_parts_on now [lease_row fence] db"
  let ?target = "cancelled_parent_status (part_statuses (lease_row fence) ?db)"
  have "moves now i (\<lambda>_. 0) ?db (?db\<lparr>q_deliveries := update_where (own_row_fence fence) (\<lambda>r. clear_lease (r\<lparr>
      d_status := ?target, d_last_error_class := c r, d_last_error_detail := e r,
      d_delivered_at := (if ?target = Delivery_Delivered then Some now else None), d_updated_at := now\<rparr>))
      (q_deliveries ?db)\<rparr>)" for c e
  proof (rule moves_rows)
    fix r assume "own_row_fence fence r"
    then have "d_status r = Delivery_Sending" by (simp add: own_row_fence_def)
    from settle_moves [OF this cancelled_parent_status_range, where a = "d_attempt_count r" and now = now and i = i
        and c = "c r" and e = "e r", OF _ refl]
    show "row_moves now i r (clear_lease (r\<lparr>d_status := ?target, d_last_error_class := c r, d_last_error_detail := e r,
        d_delivered_at := (if ?target = Delivery_Delivered then Some now else None), d_updated_at := now\<rparr>))"
      by simp
  qed
  from moves_trans [OF bury_moves this] show ?thesis
    unfolding settle_cancelled_on_def Let_def by (simp add: case_prod_unfold)
qed

lemma cancel_locked_moves:
  assumes "\<And>r. r \<in> set (q_deliveries db) \<Longrightarrow> d_id r \<in> set locked \<Longrightarrow> d_cancellation_requested_at r = None"
  shows "moves now i k db (snd (cancel_locked_deliveries_on now locked reason db))"
proof -
  let ?unsent = "\<lambda>r. d_id r \<in> set locked \<and> delivery_is_claimable (d_status r)"
  let ?f = "\<lambda>r. r\<lparr>d_status := Delivery_DeadLetter, d_last_error_class := Some Superseded,
    d_last_error_detail := Some (cancellation_detail reason), d_cancellation_requested_at := Some now,
    d_cancellation_reason := Some reason, d_updated_at := now\<rparr>"
  let ?db1 = "db\<lparr>q_deliveries := update_where ?unsent ?f (q_deliveries db)\<rparr>"
  let ?db2 = "bury_unsent_parts_on now (map d_id (filter ?unsent (q_deliveries db))) ?db1"
  let ?held = "\<lambda>r. d_id r \<in> set locked \<and> in_flight (d_status r)"
  let ?g = "\<lambda>r. r\<lparr>d_cancellation_requested_at := Some now, d_cancellation_reason := Some reason, d_updated_at := now\<rparr>"
  have one: "moves now i k db ?db1"
    using assms by (intro moves_rows) (auto simp: row_moves_def row_checks delivery_is_claimable_def)
  have free: "d_cancellation_requested_at r = None" if "r \<in> set (q_deliveries ?db2)" "?held r" for r
    using that assms by (auto simp: update_where_def in_flight_def split: if_splits)
  have "moves now i (\<lambda>_. 0) ?db2 (?db2\<lparr>q_deliveries := update_where ?held ?g (q_deliveries ?db2)\<rparr>)"
  proof (rule moves_rows)
    fix r assume r: "r \<in> set (q_deliveries ?db2)" "?held r"
    show "row_moves now i r (?g r)"
      using free [OF r] r(2) by (auto simp: row_moves_def row_checks delivery_is_claimable_def in_flight_def)
  qed
  then have "moves now i k db (?db2\<lparr>q_deliveries := update_where ?held ?g (q_deliveries ?db2)\<rparr>)"
    by (rule moves_trans [OF moves_trans [OF one bury_moves]])
  then show ?thesis
    by (simp add: cancel_locked_deliveries_on_def Let_def moves_refl)
qed

lemma cancel_linked_moves:
  assumes "queue_ok now db"
  shows "moves now i k db (snd (cancel_linked_deliveries_on now linked reason db))"
  unfolding cancel_linked_deliveries_on_def
proof (rule cancel_locked_moves)
  let ?sel = "\<lambda>r. d_id r \<in> set linked \<and> (delivery_is_claimable (d_status r) \<or> in_flight (d_status r))
    \<and> d_cancellation_requested_at r = None"
  fix r assume r: "r \<in> set (q_deliveries db)" "d_id r \<in> set (sort (map d_id (filter ?sel (q_deliveries db))))"
  then obtain s where s: "s \<in> set (q_deliveries db)" "?sel s" "d_id r = d_id s" by auto
  have "distinct (map d_id (q_deliveries db))" using assms by (simp add: queue_ok_def)
  from distinct_key [OF this r(1) s(1,3)] s(2) show "d_cancellation_requested_at r = None" by simp
qed

lemma expire_reopened_moves:
  assumes "queue_ok now db"
  shows "moves now i k db (snd (expire_reopened_part_on now fence part_id db))"
proof -
  let ?P = "\<lambda>p. p_id p = part_id \<and> p_delivery_id p = lease_row fence \<and> p_status p = Part_Retryable"
  let ?f = "\<lambda>p. p\<lparr>p_status := Part_OutcomeUnknown, p_last_error_class := Some ReconciliationProofExpired,
    p_last_error_detail := Some ''The reconciliation proof expired before the provider request started'', p_updated_at := now\<rparr>"
  let ?db1 = "db\<lparr>q_parts := update_where ?P ?f (q_parts db)\<rparr>"
  have one: "moves now i k db ?db1"
    by (rule moves_parts) (auto simp: part_moves_def part_ok_def owed_def part_final_def is_unfinished_def)
  have "moves now i (\<lambda>_. 0) ?db1 (?db1\<lparr>q_deliveries := update_where (own_row_fence fence) (\<lambda>r. clear_lease (r\<lparr>
      d_status := Delivery_OutcomeUnknown, d_last_error_class := c, d_last_error_detail := e, d_updated_at := now\<rparr>))
      (q_deliveries ?db1)\<rparr>)" for c e
  proof (rule moves_rows)
    fix r assume r: "r \<in> set (q_deliveries ?db1)" "own_row_fence fence r"
    then have "d_status r = Delivery_Sending" "row_ok now r" using assms by (auto simp: own_row_fence_def queue_ok_def)
    from settle_moves_plain [OF this, where target = Delivery_OutcomeUnknown and a = "d_attempt_count r" and i = i]
    show "row_moves now i r (clear_lease (r\<lparr>d_status := Delivery_OutcomeUnknown, d_last_error_class := c,
        d_last_error_detail := e, d_updated_at := now\<rparr>))" by simp
  qed
  from moves_trans [OF one this] one show ?thesis
    unfolding expire_reopened_part_on_def Let_def by simp
qed

lemma begin_part_moves:
  assumes "queue_ok now db"
  shows "moves now i k db (snd (begin_part admission proof_expired now fence part_id db))"
proof (cases "lock_held_delivery_on fence db")
  case Held_Live
  show ?thesis
  proof (cases "\<exists>reason. admission = Refuse reason")
    case True
    then obtain reason where reason: "admission = Refuse reason" by blast
    obtain r where r: "r \<in> set (q_deliveries db)" "own_row_fence fence r"
      using Held_Live held_cases(1) [OF assms, of fence] by auto
    have "moves now i k db (snd (cancel_held_delivery_on now (lease_row fence) reason db))"
      unfolding cancel_held_delivery_on_def
    proof (rule cancel_locked_moves)
      fix r' assume r': "r' \<in> set (q_deliveries db)" "d_id r' \<in> set [lease_row fence]"
      then have "r' = r"
        using assms r distinct_key [of d_id "q_deliveries db" r' r] by (auto simp: queue_ok_def own_row_fence_def)
      then show "d_cancellation_requested_at r' = None"
        using held_cases(2) [OF assms Held_Live r] by simp
    qed
    from moves_trans [OF this settle_cancelled_moves] show ?thesis
      by (simp add: begin_part_def Held_Live reason)
  next
    case False
    have "part_moves k p (p\<lparr>p_status := Part_Sending, p_attempt_count := p_attempt_count p + 1,
        p_request_started_at := Some now, p_updated_at := now\<rparr>)" if "p_status p \<in> {Part_Prepared, Part_Retryable}" for p
      using that by (auto simp: part_moves_def part_ok_def owed_def part_final_def is_unfinished_def)
    then have "moves now i k db (db\<lparr>q_parts := update_where (\<lambda>p. p_id p = part_id \<and>
        p_status p \<in> {Part_Prepared, Part_Retryable} \<and> Q p) (\<lambda>p. p\<lparr>p_status := Part_Sending,
        p_attempt_count := p_attempt_count p + 1, p_request_started_at := Some now, p_updated_at := now\<rparr>) (q_parts db)\<rparr>)" for Q
      by (intro moves_parts) simp
    then show ?thesis
      using False expire_reopened_moves [OF assms] moves_refl
      by (auto simp: begin_part_def Held_Live Let_def case_prod_unfold split: workflow_delivery_admission.split)
  qed
qed (simp_all add: begin_part_def moves_refl settle_cancelled_moves)

lemma fence_sending: "own_row_fence fence r \<Longrightarrow> d_status r = Delivery_Sending"
  by (simp add: own_row_fence_def)

lemma aggregate_moves:
  assumes free: "\<And>r. r \<in> set (q_deliveries db) \<Longrightarrow> own_row_fence fence r \<Longrightarrow> d_cancellation_requested_at r = None"
  shows "moves now i (\<lambda>_. 0) db (snd (aggregate_parent_on now random fence transition db))"
proof -
  let ?target = "aggregate_parent_status (part_statuses (lease_row fence) db)"
  have retry: "moves now i (\<lambda>_. 0) db (snd (retry_parent_on now random fence transition db))"
    unfolding retry_parent_on_def snd_conv
  proof (rule moves_rows)
    fix r assume r: "r \<in> set (q_deliveries db)" "own_row_fence fence r"
    note * = fence_sending [OF r(2)] free [OF r]
    show "row_moves now i r ((if t_consumes_attempt transition
         then attempt_failed_set now random (t_class transition) (t_detail transition)
         else (\<lambda>r. clear_lease (r\<lparr>d_status := Delivery_Retryable,
           d_last_error_class := t_class transition, d_last_error_detail := t_detail transition,
           d_available_at := now + (case t_retry_after transition of
               Some d \<Rightarrow> d | None \<Rightarrow> retry_delay (d_attempt_count r) (random (d_id r))),
           d_updated_at := now\<rparr>))) r)"
      using attempt_failed_moves [OF *] release_moves [OF *, where s = Delivery_Retryable] by simp
  qed
  have settle: "moves now i (\<lambda>_. 0) db (snd (settle_parent_on now fence ?target transition db))"
    if "?target \<noteq> Delivery_Retryable"
    unfolding settle_parent_on_def snd_conv
  proof (rule moves_rows)
    fix r assume "own_row_fence fence r"
    moreover have "?target \<in> {Delivery_Delivered, Delivery_OutcomeUnknown, Delivery_DeadLetter}"
      using that aggregate_parent_status_range [of "part_statuses (lease_row fence) db"] by simp
    ultimately show "row_moves now i r (clear_lease (r\<lparr>d_status := ?target,
        d_attempt_count := (if t_consumes_attempt transition
          then min (d_attempt_count r + 1) (d_max_attempts r) else d_attempt_count r),
        d_last_error_class := t_class transition, d_last_error_detail := t_detail transition,
        d_delivered_at := (if ?target = Delivery_Delivered then Some now else None), d_updated_at := now\<rparr>))"
      by (intro settle_moves [OF fence_sending]) simp_all
  qed
  show ?thesis
    using retry settle by (simp add: aggregate_parent_on_def Let_def case_prod_unfold moves_refl)
qed

definition safe_completion :: "uuid \<Rightarrow> provider_send_outcome \<Rightarrow> uuid \<Rightarrow> nat" where
  "safe_completion part_id outcome i = (if i = part_id \<and> is_safely_retryable outcome then 1 else 0)"

lemma transition_moves:
  assumes "p_id p = part_id" and "p_status p = Part_Sending"
  shows "part_moves (safe_completion part_id outcome) p (p\<lparr>p_status := t_status (PartTransition_of outcome),
    p_provider_message_key := key, p_last_error_class := c, p_last_error_detail := e,
    p_delivered_at := (if t_status (PartTransition_of outcome) = Part_Delivered then Some now else None),
    p_updated_at := now\<rparr>)"
  using assms by (cases outcome)
    (auto simp: part_moves_def part_ok_def owed_def part_final_def is_unfinished_def safe_completion_def)

lemma complete_part_moves:
  assumes ok: "queue_ok now db"
  shows "moves now i (safe_completion part_id outcome) db (snd (complete_part now random fence part_id outcome db))"
proof (cases "lock_held_delivery_on fence db = Held_Lost")
  case True
  then show ?thesis by (simp add: complete_part_def moves_refl)
next
  case held: False
  let ?t = "PartTransition_of outcome"
  let ?P = "\<lambda>p. p_id p = part_id \<and> p_status p = Part_Sending
    \<and> list_ex (\<lambda>r. p_delivery_id p = d_id r \<and> own_row_fence fence r) (q_deliveries db)"
  let ?f = "\<lambda>p. p\<lparr>p_status := t_status ?t,
    p_provider_message_key := (case t_provider_key ?t of Some k \<Rightarrow> Some k | None \<Rightarrow> p_provider_message_key p),
    p_last_error_class := t_class ?t, p_last_error_detail := t_detail ?t,
    p_delivered_at := (if t_status ?t = Part_Delivered then Some now else None), p_updated_at := now\<rparr>"
  let ?db = "db\<lparr>q_parts := update_where ?P ?f (q_parts db)\<rparr>"
  have one: "moves now i (safe_completion part_id outcome) db ?db"
    by (rule moves_parts) (simp add: transition_moves)
  show ?thesis
  proof (cases "rows_affected ?P (q_parts db) = 1")
    case False
    then show ?thesis using held by (simp add: complete_part_def Let_def moves_refl)
  next
    case True
    show ?thesis
    proof (cases "lock_held_delivery_on fence db")
      case Held_Live
      have "moves now i (\<lambda>_. 0) ?db (snd (aggregate_parent_on now random fence ?t ?db))"
        by (rule aggregate_moves) (use held_cases(2) [OF ok Held_Live] in simp)
      from moves_trans [OF one this] True Held_Live show ?thesis by (simp add: complete_part_def Let_def)
    next
      case (Held_Cancelled reason)
      from moves_trans [OF one settle_cancelled_moves] True Held_Cancelled show ?thesis
        by (simp add: complete_part_def Let_def)
    qed (use held in simp)
  qed
qed

lemma fail_delivery_moves:
  assumes ok: "queue_ok now db"
  shows "moves now i k db (snd (fail_delivery now random fence class detail disposition db))"
proof (cases "lock_held_delivery_on fence db")
  case Held_Live
  let ?f = "case disposition of Dispose_Terminal \<Rightarrow> (\<lambda>r. clear_lease (r\<lparr>d_status := Delivery_DeadLetter,
      d_attempt_count := min (d_attempt_count r + 1) (d_max_attempts r), d_last_error_class := Some class,
      d_last_error_detail := Some detail, d_updated_at := now\<rparr>))
    | Dispose_Retry \<Rightarrow> attempt_failed_set now random (Some class) (Some detail)"
  have "moves now i k db (db\<lparr>q_deliveries := update_where (own_row_fence fence) ?f (q_deliveries db)\<rparr>)"
  proof (rule moves_rows)
    fix r assume r: "r \<in> set (q_deliveries db)" "own_row_fence fence r"
    have "row_ok now r" using ok r(1) by (simp add: queue_ok_def)
    then show "row_moves now i r (?f r)"
      using attempt_failed_moves [OF fence_sending [OF r(2)] held_cases(2) [OF ok Held_Live r]]
        settle_moves_plain [OF fence_sending [OF r(2)], where target = Delivery_DeadLetter]
      by (cases disposition) simp_all
  qed
  then show ?thesis
    by (simp add: fail_delivery_def Held_Live Let_def split: option.split)
qed (simp_all add: fail_delivery_def moves_refl settle_cancelled_moves)

lemma release_delivery_moves:
  assumes ok: "queue_ok now db"
  shows "moves now i k db (snd (release_delivery now fence db))"
proof (cases "lock_held_delivery_on fence db")
  case Held_Live
  have "moves now i k db (db\<lparr>q_deliveries := update_where (own_row_fence fence)
      (\<lambda>r. clear_lease (r\<lparr>d_status := Delivery_Pending, d_updated_at := now\<rparr>)) (q_deliveries db)\<rparr>)"
  proof (rule moves_rows)
    fix r assume r: "r \<in> set (q_deliveries db)" "own_row_fence fence r"
    from release_moves [OF fence_sending [OF r(2)] held_cases(2) [OF ok Held_Live r],
        where s = Delivery_Pending and c = "d_last_error_class r" and e = "d_last_error_detail r" and v = "d_available_at r"]
    show "row_moves now i r (clear_lease (r\<lparr>d_status := Delivery_Pending, d_updated_at := now\<rparr>))" by simp
  qed
  then show ?thesis by (simp add: release_delivery_def Held_Live Let_def)
qed (simp_all add: release_delivery_def moves_refl settle_cancelled_moves)

lemma renew_moves:
  assumes "0 < lease_for"
  shows "moves now i k db (snd (renew_delivery_leases now fences lease_for db))"
proof -
  have "row_moves now i r (r\<lparr>d_lock_expires_at := Some (now + int lease_for), d_updated_at := now\<rparr>)"
    if "d_status r = Delivery_Sending" for r
    using that assms by (auto simp: row_moves_def row_checks)
  then show ?thesis
    unfolding renew_delivery_leases_def Let_def snd_conv
    by (intro moves_rows) (auto simp: list_ex_iff live_fence_def dest: fence_sending)
qed

lemma claim_batch_claimable:
  assumes "queue_ok now db" and "r \<in> set (q_deliveries db)" and "d_id r \<in> set (claim_batch db now skipped limit)"
  shows "claimable db now r"
proof -
  obtain s where s: "s \<in> set (q_deliveries db)" "claimable db now s" "d_id r = d_id s"
    using assms(3) by (auto simp: claim_batch_def dest!: in_set_takeD)
  have "distinct (map d_id (q_deliveries db))" using assms(1) by (simp add: queue_ok_def)
  from distinct_key [OF this assms(2) s(1,3)] s(2) show ?thesis by simp
qed

lemma claim_moves:
  assumes ok: "queue_ok now db" and lease: "1000000000 \<le> lease_for"
    and fresh: "\<And>r. r \<in> set (q_deliveries db) \<Longrightarrow> fresh (d_id r) \<in> issued"
  shows "moves now issued k db (snd (claim_deliveries readable fresh skipped now owner lease_for limit db))"
proof -
  let ?ids = "claim_batch db now skipped limit"
  have pos: "0 < int (lease_for div 1000000000) * 1000000000" using lease by (simp add: div_greater_zero_iff)
  have "moves now issued k db (db\<lparr>q_deliveries := update_where (\<lambda>r. d_id r \<in> set ?ids)
      (claimed_row fresh now owner lease_for) (q_deliveries db)\<rparr>)"
  proof (rule moves_rows)
    fix r assume r: "r \<in> set (q_deliveries db)" "d_id r \<in> set ?ids"
    note c = claim_batch_claimable [OF ok r] and f = fresh [OF r(1)]
    show "row_moves now issued r (claimed_row fresh now owner lease_for r)"
      using c f pos by (auto simp: row_moves_def row_checks claimable_def delivery_is_claimable_def claimed_row_def)
  qed
  then show ?thesis
    by (simp add: claim_deliveries_def Let_def moves_refl split: outcome.split)
qed

lemma settle_stranded_moves:
  assumes ok: "queue_ok now db"
  shows "moves now i (\<lambda>_. 0) db (snd (settle_stranded_cancellations_on now stranded db))"
proof -
  let ?c = "map d_id (filter (\<lambda>r. d_id r \<in> set stranded \<and> d_cancellation_requested_at r \<noteq> None) (q_deliveries db))"
  let ?db = "bury_unsent_parts_on now ?c db"
  have "moves now i (\<lambda>_. 0) ?db (?db\<lparr>q_deliveries := update_where (\<lambda>r. d_id r \<in> set ?c \<and> lease_expired now r)
      (\<lambda>r. clear_lease (r\<lparr>d_status := Delivery_DeadLetter,
        d_attempt_count := min (d_attempt_count r + 1) (d_max_attempts r), d_last_error_class := Some Superseded,
        d_last_error_detail := map_option cancellation_detail (d_cancellation_reason r), d_updated_at := now\<rparr>))
      (q_deliveries ?db)\<rparr>)"
  proof (rule moves_rows)
    fix r assume "r \<in> set (q_deliveries ?db)" "d_id r \<in> set ?c \<and> lease_expired now r"
    then have "d_status r = Delivery_Sending" "row_ok now r" using ok by (auto simp: lease_expired_def queue_ok_def)
    then show "row_moves now i r (clear_lease (r\<lparr>d_status := Delivery_DeadLetter,
        d_attempt_count := min (d_attempt_count r + 1) (d_max_attempts r), d_last_error_class := Some Superseded,
        d_last_error_detail := map_option cancellation_detail (d_cancellation_reason r), d_updated_at := now\<rparr>))"
      by (rule settle_moves_plain) simp_all
  qed
  from moves_trans [OF bury_moves this] show ?thesis
    unfolding settle_stranded_cancellations_on_def Let_def by (simp add: moves_refl)
qed

lemma strand_parts_moves: "moves now i k db (strand_parts_on now ids db)"
  unfolding strand_parts_on_def
  by (rule moves_parts) (auto simp: part_moves_def part_ok_def owed_def part_final_def is_unfinished_def)

lemma strand_parts_rows [simp]: "q_deliveries (strand_parts_on now ids db) = q_deliveries db"
  by (simp add: strand_parts_on_def)

lemma strand_unknown_moves:
  assumes "\<And>r. r \<in> set (q_deliveries db) \<Longrightarrow> d_id r \<in> set ids \<Longrightarrow> d_status r = Delivery_Sending \<and> row_ok now r"
  shows "moves now i (\<lambda>_. 0) db (snd (strand_unknown_on now ids db))"
  unfolding strand_unknown_on_def Let_def snd_conv
  by (rule moves_rows, rule settle_moves_plain) (use assms in auto)

lemma strand_retry_moves: "moves now i (\<lambda>_. 0) db (snd (strand_retry_on now ids random db))"
  unfolding strand_retry_on_def Let_def snd_conv
  by (rule moves_rows, rule attempt_failed_moves) (simp_all add: lease_expired_def)

text \<open>The rows a sweep selects, by id.\<close>

lemma stranded_expired:
  assumes "queue_ok now db" and "r \<in> set (q_deliveries db)"
    and "d_id r \<in> set (sort (map d_id (filter P (q_deliveries db))))"
  shows "P r"
proof -
  obtain s where s: "s \<in> set (q_deliveries db)" "P s" "d_id r = d_id s" using assms(3) by auto
  have "distinct (map d_id (q_deliveries db))" using assms(1) by (simp add: queue_ok_def)
  from distinct_key [OF this assms(2) s(1,3)] s(2) show ?thesis by simp
qed

lemma strand_classify_moves:
  assumes ok: "queue_ok now db"
    and ids: "ids = sort (map d_id (filter (\<lambda>r. lease_expired now r \<and> Q r) (q_deliveries db)))"
  shows "moves now i (\<lambda>_. 0) db (snd (strand_unknown_on now ids (strand_parts_on now ids db)))"
proof (rule moves_trans [OF strand_parts_moves strand_unknown_moves])
  fix r assume "r \<in> set (q_deliveries (strand_parts_on now ids db))" "d_id r \<in> set ids"
  then have r: "r \<in> set (q_deliveries db)" "d_id r \<in> set ids" by simp_all
  from stranded_expired [OF ok r(1) r(2) [unfolded ids]] ok r(1)
  show "d_status r = Delivery_Sending \<and> row_ok now r" by (simp add: lease_expired_def queue_ok_def)
qed

lemma reap_leases_moves:
  assumes ok: "queue_ok now db"
  shows "moves now i (\<lambda>_. 0) db (snd (reap_expired_leases_on now skipped random db))"
proof -
  note one = strand_classify_moves [OF ok refl]
  note two = settle_stranded_moves [OF moves_ok [OF ok one]]
  from moves_trans [OF moves_trans [OF one two] strand_retry_moves] show ?thesis
    unfolding reap_expired_leases_on_def Let_def by (simp add: case_prod_unfold moves_refl)
qed

lemma orphan_moves: "moves now i k db (snd (orphan_stuck_dependents_on now db))"
proof -
  have "row_moves now i r (r\<lparr>d_status := Delivery_DeadLetter, d_attempt_count := d_max_attempts r,
      d_last_error_class := c, d_last_error_detail := e, d_updated_at := now\<rparr>)"
    if "delivery_is_claimable (d_status r)" for r c e
    using that by (auto simp: row_moves_def row_checks delivery_is_claimable_def)
  then show ?thesis
    unfolding orphan_stuck_dependents_on_def Let_def snd_conv by (intro moves_rows) simp
qed

lemma reap_moves:
  assumes "queue_ok now db"
  shows "moves now i (\<lambda>_. 0) db (snd (reap_expired_deliveries now skipped random db))"
  using moves_trans [OF reap_leases_moves [OF assms] orphan_moves]
  by (simp add: reap_expired_deliveries_def case_prod_unfold Let_def)

section \<open>Settlements on evidence\<close>

text \<open>
  The moves of the tables when evidence may settle an ambiguous part as well: a delivered or dead
  part stays as it is, an ambiguous one unless evidence settles it.
\<close>

definition part_steps :: "(uuid \<Rightarrow> bool) \<Rightarrow> (uuid \<Rightarrow> nat) \<Rightarrow> part_db \<Rightarrow> part_db \<Rightarrow> bool" where
  "part_steps settled k p p' \<longleftrightarrow> p_id p' = p_id p \<and> p_delivery_id p' = p_delivery_id p \<and> p_part_index p' = p_part_index p
     \<and> p_payload p' = p_payload p \<and> p_part_key p' = p_part_key p \<and> p_content_digest p' = p_content_digest p
     \<and> p_attempt_count p \<le> p_attempt_count p'
     \<and> (part_ok p \<longrightarrow> part_ok p' \<and> owed p' \<le> owed p + int (k (p_id p)))
     \<and> (p_status p \<in> {Part_Delivered, Part_Dead} \<longrightarrow> p' = p)
     \<and> (p_status p = Part_OutcomeUnknown \<and> \<not> settled (p_id p) \<longrightarrow> p' = p)"

lemma part_steps_refl: "part_steps settled k p p"
  by (simp add: part_steps_def)

lemma part_steps_trans:
  "part_steps s k p q \<Longrightarrow> part_steps s' l q x \<Longrightarrow> part_steps (\<lambda>i. s i \<or> s' i) (\<lambda>i. k i + l i) p x"
  unfolding part_steps_def by (elim conjE, intro conjI) auto

lemma part_moves_steps: "part_moves k p p' \<Longrightarrow> part_steps settled k p p'"
  by (simp add: part_moves_def part_steps_def part_final_def)

definition steps :: "instant \<Rightarrow> uuid set \<Rightarrow> (uuid \<Rightarrow> bool) \<Rightarrow> (uuid \<Rightarrow> nat) \<Rightarrow> queue_db \<Rightarrow> queue_db \<Rightarrow> bool" where
  "steps now issued settled k db db' \<longleftrightarrow> list_all2 (row_moves now issued) (q_deliveries db) (q_deliveries db')
     \<and> list_all2 (part_steps settled k) (q_parts db) (q_parts db')"

lemma moves_steps: "moves now issued k db db' \<Longrightarrow> steps now issued settled k db db'"
  by (auto simp: moves_def steps_def elim!: list_all2_mono intro: part_moves_steps)

lemma steps_ok:
  assumes "queue_ok now db" and "steps now issued settled k db db'"
  shows "queue_ok now db'"
proof -
  have rows: "list_all2 (row_moves now issued) (q_deliveries db) (q_deliveries db')"
    and parts: "list_all2 (part_steps settled k) (q_parts db) (q_parts db')"
    using assms(2) by (simp_all add: steps_def)
  have "map d_id (q_deliveries db') = map d_id (q_deliveries db)" "map p_id (q_parts db') = map p_id (q_parts db)"
    using rows parts by (auto intro!: all2_keys simp: row_moves_def part_steps_def)
  moreover have "row_ok now r" if "r \<in> set (q_deliveries db')" for r
    using all2_in2 [OF rows that] assms(1) by (auto simp: queue_ok_def row_moves_def)
  moreover have "part_ok p" if "p \<in> set (q_parts db')" for p
    using all2_in2 [OF parts that] assms(1) by (auto simp: queue_ok_def part_steps_def)
  ultimately show ?thesis using assms(1) by (simp add: queue_ok_def)
qed

fun reopens :: "unknown_settlement \<Rightarrow> bool" where
  "reopens (Settled_Reopened _) = True"
| "reopens _ = False"

lemma settle_verified_parent_moves:
  assumes "verified_parent settlement i r" and "row_ok now r"
  shows "row_moves now issued r (settle_verified_parent now settlement r)"
  using assms by (cases settlement)
    (auto simp: verified_parent_def row_moves_def row_checks delivery_is_claimable_def split: option.splits)

lemma settle_verified_part_steps:
  assumes "verified_part i part p"
  shows "part_steps (\<lambda>j. j = part) (\<lambda>j. if j = part \<and> reopens settlement then 1 else 0) p
    (settle_verified_part now settlement p)"
  using assms by (cases settlement)
    (auto simp: verified_part_def part_steps_def part_ok_def owed_def is_unfinished_def)

lemma settle_unknown_steps:
  assumes "queue_ok now db"
  shows "steps now issued (\<lambda>j. j = part) (\<lambda>j. if j = part \<and> reopens settlement then 1 else 0) db
    (snd (settle_unknown_delivery_on now delivery part settlement db))"
proof -
  have "list_all2 (row_moves now issued) (q_deliveries db)
      (update_where (verified_parent settlement delivery) (settle_verified_parent now settlement) (q_deliveries db))"
    by (rule update_where_all2) (use assms settle_verified_parent_moves in \<open>auto simp: queue_ok_def row_moves_refl\<close>)
  moreover have "list_all2 (part_steps (\<lambda>j. j = part) (\<lambda>j. if j = part \<and> reopens settlement then 1 else 0)) (q_parts db)
      (update_where (verified_part delivery part) (settle_verified_part now settlement) (q_parts db))"
    by (rule update_where_all2) (rule settle_verified_part_steps, assumption, rule part_steps_refl)
  ultimately show ?thesis
    by (simp add: steps_def settle_unknown_delivery_on_def Let_def all2_refl row_moves_refl part_steps_refl)
qed

end
