(* ===== verification/Delivery_Protocol.thy ===== *)
theory Delivery_Protocol
  imports Delivery_Facts
begin

text \<open>
  Histories of the delivery queue: any sequence of claims, renewals, part transitions, failures,
  releases, cancellations, sweeps and settlements on evidence, by any workers, at times that do
  not run backwards. These are all the statements that update the two tables; enqueuing only
  inserts rows with new ids, so a history is about the rows that are there when it starts. The
  queue is an instance of the interface \<open>leased_queue\<close>, and the properties hold along every
  history.
\<close>

section \<open>Events\<close>

datatype queue_event =
    Claim "delivery_db \<Rightarrow> part_db list \<Rightarrow> bool" "uuid \<Rightarrow> uuid" "uuid list" uuid nat nat
  | Renew "execution_lease list" nat
  | Begin workflow_delivery_admission bool execution_lease uuid
  | Complete "uuid \<Rightarrow> rat" execution_lease uuid provider_send_outcome
  | Fail "uuid \<Rightarrow> rat" execution_lease delivery_failure_class string disposition
  | Release execution_lease
  | Cancel "uuid list" delivery_cancellation_reason
  | Reap "uuid list" "uuid \<Rightarrow> rat"
  | Settle uuid uuid unknown_settlement

fun perform_at :: "instant \<Rightarrow> queue_event \<Rightarrow> queue_db \<Rightarrow> queue_db" where
  "perform_at now (Claim readable fresh skipped owner lease_for limit) db =
     snd (claim_deliveries readable fresh skipped now owner lease_for limit db)"
| "perform_at now (Renew fences lease_for) db = snd (renew_delivery_leases now fences lease_for db)"
| "perform_at now (Begin admission expired fence part) db = snd (begin_part admission expired now fence part db)"
| "perform_at now (Complete random fence part outcome) db = snd (complete_part now random fence part outcome db)"
| "perform_at now (Fail random fence class detail disposition) db =
     snd (fail_delivery now random fence class detail disposition db)"
| "perform_at now (Release fence) db = snd (release_delivery now fence db)"
| "perform_at now (Cancel linked reason) db = snd (cancel_linked_deliveries_on now linked reason db)"
| "perform_at now (Reap skipped random) db = snd (reap_expired_deliveries now skipped random db)"
| "perform_at now (Settle delivery part settlement) db =
     snd (settle_unknown_delivery_on now delivery part settlement db)"

text \<open>
  A lease lasts at least the whole second the claim truncates it to, and \<open>gen_random_uuid()\<close>
  never returns an id that was used before.
\<close>

fun event_ok :: "uuid set \<Rightarrow> queue_event \<Rightarrow> bool" where
  "event_ok used (Claim readable fresh skipped owner lease_for limit) \<longleftrightarrow>
     1000000000 \<le> lease_for \<and> range fresh \<inter> used = {}"
| "event_ok used (Renew fences lease_for) \<longleftrightarrow> 0 < lease_for"
| "event_ok used _ \<longleftrightarrow> True"

fun event_issues :: "queue_event \<Rightarrow> uuid set" where
  "event_issues (Claim readable fresh skipped owner lease_for limit) = range fresh"
| "event_issues _ = {}"

fun refused :: "queue_event \<Rightarrow> uuid \<Rightarrow> nat" where
  "refused (Complete random fence part outcome) i = safe_completion part outcome i"
| "refused _ i = 0"

text \<open>Evidence names a part, and evidence that it was not accepted queues it again.\<close>

fun settles :: "queue_event \<Rightarrow> uuid \<Rightarrow> bool" where
  "settles (Settle delivery part settlement) i \<longleftrightarrow> i = part"
| "settles _ i \<longleftrightarrow> False"

fun reopened :: "queue_event \<Rightarrow> uuid \<Rightarrow> nat" where
  "reopened (Settle delivery part (Settled_Reopened _)) i = (if i = part then 1 else 0)"
| "reopened _ i = 0"

definition again :: "queue_event \<Rightarrow> uuid \<Rightarrow> nat" where
  "again ev i = refused ev i + reopened ev i"

type_synonym timed_event = "instant \<times> queue_event"
type_synonym timed_queue = "instant \<times> queue_db"

definition admitted :: "uuid set \<Rightarrow> timed_event \<Rightarrow> timed_queue \<Rightarrow> bool" where
  "admitted used e s \<longleftrightarrow> fst s \<le> fst e \<and> event_ok used (snd e)"

definition perform :: "timed_event \<Rightarrow> timed_queue \<Rightarrow> timed_queue" where
  "perform e s = (fst e, perform_at (fst e) (snd e) (snd s))"

definition issues :: "timed_event \<Rightarrow> timed_queue \<Rightarrow> uuid set" where
  "issues e s = event_issues (snd e)"

definition holds :: "uuid \<Rightarrow> timed_queue \<Rightarrow> bool" where
  "holds x s \<longleftrightarrow> x \<in> executions (snd s)"

definition timed_ok :: "timed_queue \<Rightarrow> bool" where
  "timed_ok s \<longleftrightarrow> queue_ok (fst s) (snd s)"

definition queue_history ::
    "uuid set \<Rightarrow> instant \<Rightarrow> queue_db \<Rightarrow> timed_event list \<Rightarrow> uuid set \<Rightarrow> instant \<Rightarrow> queue_db \<Rightarrow> bool" where
  "queue_history used t db es used' t' db' \<longleftrightarrow> history admitted perform issues used (t, db) es used' (t', db')"

lemma event_moves:
  assumes "queue_ok now db" and "event_ok used ev" and "\<nexists>delivery part settlement. ev = Settle delivery part settlement"
  shows "moves now (event_issues ev) (again ev) db (perform_at now ev db)"
proof (cases ev)
  case (Claim readable fresh skipped owner lease_for limit)
  then show ?thesis using assms by (auto intro!: claim_moves)
next
  case (Complete random fence part outcome)
  moreover have "again ev = safe_completion part outcome" using Complete by (simp add: again_def fun_eq_iff)
  ultimately show ?thesis using assms by (simp add: complete_part_moves)
next
  case (Reap skipped random)
  then have "again ev = (\<lambda>_. 0)" by (simp add: again_def fun_eq_iff)
  then show ?thesis using assms Reap by (simp add: reap_moves)
qed (use assms in \<open>simp_all add: renew_moves begin_part_moves fail_delivery_moves release_delivery_moves cancel_linked_moves\<close>)

lemma event_steps:
  assumes "queue_ok now db" and "event_ok used ev"
  shows "steps now (event_issues ev) (settles ev) (again ev) db (perform_at now ev db)"
proof (cases "\<exists>delivery part settlement. ev = Settle delivery part settlement")
  case True
  then obtain delivery part settlement where ev: "ev = Settle delivery part settlement" by blast
  have "settles ev = (\<lambda>j. j = part)" "again ev = (\<lambda>j. if j = part \<and> reopens settlement then 1 else 0)"
    by (cases settlement; simp add: ev again_def fun_eq_iff)+
  then show ?thesis using settle_unknown_steps [OF assms(1)] by (simp add: ev)
next
  case False
  then show ?thesis using moves_steps [OF event_moves [OF assms]] by simp
qed

lemma timed_steps:
  assumes "timed_ok s" and "admitted used e s"
  shows "timed_ok (perform e s)"
    and "steps (fst e) (issues e s) (settles (snd e)) (again (snd e)) (snd s) (snd (perform e s))"
proof -
  have "queue_ok (fst e) (snd s)" and ev: "event_ok used (snd e)"
    using assms queue_ok_later by (auto simp: timed_ok_def admitted_def)
  from event_steps [OF this] have
    m: "steps (fst e) (event_issues (snd e)) (settles (snd e)) (again (snd e)) (snd s) (snd (perform e s))"
    by (simp add: perform_def)
  then show "steps (fst e) (issues e s) (settles (snd e)) (again (snd e)) (snd s) (snd (perform e s))"
    by (simp add: issues_def)
  from steps_ok [OF \<open>queue_ok (fst e) (snd s)\<close> m] show "timed_ok (perform e s)"
    by (simp add: timed_ok_def perform_def)
qed

lemma steps_executions:
  assumes "steps now i settled k db db'" and "x \<in> executions db'"
  shows "x \<in> executions db \<or> x \<in> i"
proof -
  obtain r' where r': "r' \<in> set (q_deliveries db')" "d_execution_id r' = Some x"
    using assms(2) by (auto simp: executions_def)
  obtain r where "r \<in> set (q_deliveries db)" "row_moves now i r r'"
    using assms(1) all2_in2 [OF _ r'(1)] by (auto simp: steps_def)
  then show ?thesis using r'(2) by (auto simp: row_moves_def executions_def)
qed

interpretation deliveries: leased_queue timed_ok admitted perform issues holds
proof
  show "timed_ok (perform e s)" if "timed_ok s" "admitted used e s" for s used e
    using timed_steps(1) that .
  show "holds x s \<or> x \<in> issues e s" if "timed_ok s" "admitted used e s" "holds x (perform e s)" for s used e x
    using steps_executions [OF timed_steps(2) [OF that(1,2)]] that(3) by (simp add: holds_def)
  show "x \<notin> used" if "admitted used e s" "x \<in> issues e s" for used e s x
    using that by (cases "snd e") (auto simp: admitted_def issues_def)
qed

section \<open>Rows and parts along a history\<close>

text \<open>What a history may add to the requests of a part, and whether it settled the part.\<close>

definition times_again :: "timed_event list \<Rightarrow> uuid \<Rightarrow> nat" where
  "times_again es i = sum_list (map (\<lambda>e. again (snd e) i) es)"

definition evidenced :: "timed_event list \<Rightarrow> uuid \<Rightarrow> bool" where
  "evidenced es i \<longleftrightarrow> (\<exists>e \<in> set es. settles (snd e) i)"

lemma times_again_sum:
  "times_again es i = sum_list (map (\<lambda>e. refused (snd e) i) es) + sum_list (map (\<lambda>e. reopened (snd e) i) es)"
  by (induction es) (simp_all add: times_again_def again_def)

lemma part_steps_Cons:
  assumes "part_steps (settles (snd e)) (again (snd e)) p q" and "part_steps (evidenced es) (times_again es) q x"
  shows "part_steps (evidenced (e # es)) (times_again (e # es)) p x"
proof -
  have "evidenced (e # es) = (\<lambda>i. settles (snd e) i \<or> evidenced es i)"
    "times_again (e # es) = (\<lambda>i. again (snd e) i + times_again es i)"
    by (auto simp: evidenced_def times_again_def fun_eq_iff)
  then show ?thesis using part_steps_trans [OF assms] by simp
qed

lemma part_steps_snoc:
  assumes "part_steps (evidenced es) (times_again es) p q" and "part_steps (settles (snd e)) (again (snd e)) q x"
  shows "part_steps (evidenced (es @ [e])) (times_again (es @ [e])) p x"
proof -
  have "evidenced (es @ [e]) = (\<lambda>i. evidenced es i \<or> settles (snd e) i)"
    "times_again (es @ [e]) = (\<lambda>i. times_again es i + again (snd e) i)"
    by (auto simp: evidenced_def times_again_def fun_eq_iff)
  then show ?thesis using part_steps_trans [OF assms] by simp
qed

lemma history_parts:
  assumes "history admitted perform issues used s es used' s'" and "timed_ok s" and "p \<in> set (q_parts (snd s))"
  shows "\<exists>p' \<in> set (q_parts (snd s')). part_steps (evidenced es) (times_again es) p p'"
  using assms
proof (induction rule: history.induct)
  case history_nil
  then show ?case using part_steps_refl by auto
next
  case (history_snoc es used' s' e)
  then obtain q where q: "q \<in> set (q_parts (snd s'))" "part_steps (evidenced es) (times_again es) p q" by blast
  have "timed_ok s'" using deliveries.history_ok history_snoc by blast
  from timed_steps(2) [OF this history_snoc(2)] obtain p' where
    p': "p' \<in> set (q_parts (snd (perform e s')))" "part_steps (settles (snd e)) (again (snd e)) q p'"
    using all2_in [OF _ q(1)] by (auto simp: steps_def)
  from part_steps_snoc [OF q(2) p'(2)] p'(1) show ?case by auto
qed

definition same_cancellation :: "delivery_db \<Rightarrow> delivery_db \<Rightarrow> bool" where
  "same_cancellation r r' \<longleftrightarrow> d_id r' = d_id r \<and> d_attempt_count r \<le> d_attempt_count r' \<and> d_max_attempts r' = d_max_attempts r
     \<and> (d_cancellation_requested_at r \<noteq> None \<longrightarrow>
          d_cancellation_requested_at r' = d_cancellation_requested_at r
          \<and> d_cancellation_reason r' = d_cancellation_reason r)"

lemma history_rows:
  assumes "history admitted perform issues used s es used' s'" and "timed_ok s" and "r \<in> set (q_deliveries (snd s))"
  shows "\<exists>r' \<in> set (q_deliveries (snd s')). same_cancellation r r'"
  using assms
proof (induction rule: history.induct)
  case history_nil
  then show ?case by (auto simp: same_cancellation_def)
next
  case (history_snoc es used' s' e)
  then obtain q where q: "q \<in> set (q_deliveries (snd s'))" "same_cancellation r q" by blast
  have ok: "timed_ok s'" using deliveries.history_ok history_snoc by blast
  from timed_steps(2) [OF ok history_snoc(2)] obtain r' where
    r': "r' \<in> set (q_deliveries (snd (perform e s')))" "row_moves (fst e) (issues e s') q r'"
    using all2_in [OF _ q(1)] by (auto simp: steps_def)
  have "row_ok (fst e) q"
    using ok history_snoc(2) q(1) row_ok_later by (auto simp: timed_ok_def admitted_def queue_ok_def)
  with q(2) r' show ?case by (auto simp: same_cancellation_def row_moves_def)
qed

section \<open>Fenced operations\<close>

lemma fence_execution: "own_row_fence fence r \<Longrightarrow> d_execution_id r = Some (lease_execution fence)"
  by (simp add: own_row_fence_def)

lemma superseded_writes:
  assumes "queue_ok t db" and "lease_execution fence \<notin> executions db"
  shows "begin_part admission expired now fence part db = (LeaseLost, db)"
    and "complete_part now random fence part outcome db = (LeaseLost, db)"
    and "fail_delivery now random fence class detail disposition db = (LeaseLost, db)"
    and "release_delivery now fence db = (LeaseLost, db)"
proof -
  have "lock_held_delivery_on fence db = Held_Lost"
    using assms held_cases(1) [OF assms(1)] by (auto simp: executions_def dest: fence_execution)
  then show "begin_part admission expired now fence part db = (LeaseLost, db)"
    and "complete_part now random fence part outcome db = (LeaseLost, db)"
    and "fail_delivery now random fence class detail disposition db = (LeaseLost, db)"
    and "release_delivery now fence db = (LeaseLost, db)"
    by (simp_all add: begin_part_def complete_part_def fail_delivery_def release_delivery_def)
qed

lemma settle_cancelled_not_Applied: "fst (settle_cancelled_on now fence reason last_part db) \<noteq> Applied s"
  by (simp add: settle_cancelled_on_def Let_def case_prod_unfold)

lemma expire_reopened_not_Applied: "fst (expire_reopened_part_on now fence part db) \<noteq> Applied s"
  by (simp add: expire_reopened_part_on_def Let_def)

text \<open>Ids are distinct, so a condition on one id affects exactly one row where it affects any.\<close>

lemma one_row:
  assumes "distinct (map k rows)" and "\<And>r. P r \<Longrightarrow> k r = i"
  shows "rows_affected P rows = 1 \<longleftrightarrow> (\<exists>r \<in> set rows. P r)"
proof
  assume "rows_affected P rows = 1"
  then have "filter P rows \<noteq> []" by (auto simp: rows_affected_def)
  then show "\<exists>r \<in> set rows. P r" by (simp add: filter_empty_conv)
next
  assume "\<exists>r \<in> set rows. P r"
  then obtain r where r: "r \<in> set rows" "P r" by blast
  have "distinct rows" using assms(1) by (simp add: distinct_map)
  have "set (filter P rows) = {r}"
  proof (rule set_eqI)
    fix x
    have "x = r" if "x \<in> set rows" "P x"
      using distinct_key [OF assms(1) that(1) r(1)] assms(2) that(2) r(2) by simp
    then show "x \<in> set (filter P rows) \<longleftrightarrow> x \<in> {r}" using r by auto
  qed
  then show "rows_affected P rows = 1"
    using distinct_card [of "filter P rows"] \<open>distinct rows\<close> by (simp add: rows_affected_def)
qed

lemma begin_part_Applied:
  assumes ok: "queue_ok t db"
  shows "fst (begin_part admission expired now fence part db) = Applied s \<longleftrightarrow>
    s = Delivery_Sending \<and> (admission = NotWorkflow \<or> admission = Proceed \<and> \<not> expired)
    \<and> (\<exists>r \<in> set (q_deliveries db). live_fence fence now r \<and> d_cancellation_requested_at r = None
        \<and> (\<exists>p \<in> set (q_parts db). p_id p = part \<and> p_delivery_id p = d_id r \<and> is_unfinished (p_status p)))"
proof (cases "lock_held_delivery_on fence db")
  case Held_Lost
  have "\<not> live_fence fence now r" if "r \<in> set (q_deliveries db)" for r
    using Held_Lost held_cases(1) [OF ok, of fence] that by (simp add: live_fence_def)
  then show ?thesis by (auto simp: begin_part_def Held_Lost)
next
  case (Held_Cancelled reason)
  have "d_cancellation_requested_at r \<noteq> None" if "r \<in> set (q_deliveries db)" "live_fence fence now r" for r
    using held_cases(3) [OF ok Held_Cancelled that(1)] that ok
    by (auto simp: live_fence_def queue_ok_def row_ok_def cancellation_check_def)
  then show ?thesis
    using settle_cancelled_not_Applied by (auto simp: begin_part_def Held_Cancelled)
next
  case Held_Live
  let ?P = "\<lambda>p. p_id p = part \<and> p_status p \<in> {Part_Prepared, Part_Retryable}
    \<and> list_ex (\<lambda>r. p_delivery_id p = d_id r \<and> live_fence fence now r) (q_deliveries db)"
  have one: "rows_affected ?P (q_parts db) = 1 \<longleftrightarrow> (\<exists>p \<in> set (q_parts db). ?P p)"
    using ok by (intro one_row [where k = p_id and i = part]) (auto simp: queue_ok_def)
  have free: "d_cancellation_requested_at r = None" if "r \<in> set (q_deliveries db)" "live_fence fence now r" for r
    using held_cases(2) [OF ok Held_Live that(1)] that(2) by (simp add: live_fence_def)
  have "(\<exists>p \<in> set (q_parts db). ?P p) \<longleftrightarrow> (\<exists>r \<in> set (q_deliveries db). live_fence fence now r \<and> d_cancellation_requested_at r = None
      \<and> (\<exists>p \<in> set (q_parts db). p_id p = part \<and> p_delivery_id p = d_id r \<and> is_unfinished (p_status p)))"
    using free by (auto simp: list_ex_iff is_unfinished_def)
  then show ?thesis
    using one settle_cancelled_not_Applied expire_reopened_not_Applied
    by (cases admission) (auto simp: begin_part_def Held_Live Let_def case_prod_unfold)
qed

section \<open>The sweep of expired leases\<close>

text \<open>What the statements of the sweep leave of one stranded row, by what its parts show.\<close>

definition swept_status :: "queue_db \<Rightarrow> delivery_db \<Rightarrow> delivery_status" where
  "swept_status db r =
     (if \<exists>p \<in> set (q_parts db). p_delivery_id p = d_id r \<and> p_status p \<in> {Part_Sending, Part_OutcomeUnknown}
      then Delivery_OutcomeUnknown
      else if d_cancellation_requested_at r \<noteq> None \<or> d_attempt_count r + 1 \<ge> d_max_attempts r
      then Delivery_DeadLetter else Delivery_Retryable)"

lemma update_where_member: "r \<in> set rows \<Longrightarrow> (if P r then f r else r) \<in> set (update_where P f rows)"
  by (auto simp: update_where_def)

lemma update_where_none: "(\<And>r. r \<in> set rows \<Longrightarrow> \<not> P r) \<Longrightarrow> update_where P f rows = rows"
  by (simp add: update_where_def map_idI)

lemma settle_stranded_row:
  assumes ok: "queue_ok t db" and r: "r \<in> set (q_deliveries db)" "d_id r \<in> set ids"
  shows "(if d_cancellation_requested_at r \<noteq> None \<and> lease_expired now r
      then clear_lease (r\<lparr>d_status := Delivery_DeadLetter,
        d_attempt_count := min (d_attempt_count r + 1) (d_max_attempts r), d_last_error_class := Some Superseded,
        d_last_error_detail := map_option cancellation_detail (d_cancellation_reason r), d_updated_at := now\<rparr>)
      else r) \<in> set (q_deliveries (snd (settle_stranded_cancellations_on now ids db)))"
proof -
  let ?sel = "\<lambda>r. d_id r \<in> set ids \<and> d_cancellation_requested_at r \<noteq> None"
  let ?c = "map d_id (filter ?sel (q_deliveries db))"
  let ?f = "\<lambda>r. clear_lease (r\<lparr>d_status := Delivery_DeadLetter,
    d_attempt_count := min (d_attempt_count r + 1) (d_max_attempts r), d_last_error_class := Some Superseded,
    d_last_error_detail := map_option cancellation_detail (d_cancellation_reason r), d_updated_at := now\<rparr>)"
  let ?P = "\<lambda>r. d_id r \<in> set ?c \<and> lease_expired now r"
  have iff: "d_id r \<in> set ?c \<longleftrightarrow> d_cancellation_requested_at r \<noteq> None"
    using stranded_expired [OF queue_ok_later [OF ok, of t] r(1), of ?sel] r by auto
  have "(if ?P r then ?f r else r) \<in> set (q_deliveries (snd (settle_stranded_cancellations_on now ids db)))"
  proof (cases "?c = []")
    case True
    then have "\<not> ?P r" by simp
    then show ?thesis using True r(1) by (simp only: settle_stranded_cancellations_on_def Let_def simp_thms if_True if_False snd_conv)
  next
    case False
    then show ?thesis
      using update_where_member [OF r(1), where P = ?P and f = ?f]
      by (simp only: settle_stranded_cancellations_on_def Let_def if_False snd_conv) simp
  qed
  then show ?thesis by (simp only: iff)
qed

lemma strand_retry_row:
  assumes "r \<in> set (q_deliveries db)"
  shows "(if d_id r \<in> set ids \<and> lease_expired now r \<and> d_cancellation_requested_at r = None
      then attempt_failed_set now random (Some LeaseExpired) (Some expired_detail) r else r)
    \<in> set (q_deliveries (snd (strand_retry_on now ids random db)))"
  using update_where_member [OF assms, where f = "attempt_failed_set now random (Some LeaseExpired) (Some expired_detail)"
      and P = "\<lambda>r. d_id r \<in> set ids \<and> lease_expired now r \<and> d_cancellation_requested_at r = None"]
  unfolding strand_retry_on_def Let_def snd_conv by (simp del: if_split)

lemma sweep_unknown:
  assumes ok: "queue_ok t db" and i: "d_id r \<in> set ids"
  shows "holds_ambiguous_part (strand_parts_on now ids db) r \<longleftrightarrow>
    (\<exists>p \<in> set (q_parts db). p_delivery_id p = d_id r \<and> p_status p \<in> {Part_Sending, Part_OutcomeUnknown})"
proof -
  have "p_request_started_at p \<noteq> None" if "p \<in> set (q_parts db)" "p_status p = Part_Sending" for p
    using ok that by (auto simp: queue_ok_def part_ok_def)
  then show ?thesis
    using i unfolding holds_ambiguous_part_def strand_parts_on_def update_where_def list_ex_iff
    by (simp del: if_image_distrib) (intro bex_cong refl, force)
qed

lemma sweep_row:
  assumes ok: "queue_ok now db" and r: "r \<in> set (q_deliveries db)" "lease_expired now r"
  shows "\<exists>r' \<in> set (q_deliveries (snd (reap_expired_leases_on now [] random db))).
    d_id r' = d_id r \<and> d_status r' = swept_status db r \<and> d_attempt_count r' = d_attempt_count r + 1 \<and> d_execution_id r' = None"
proof -
  let ?ids = "sort (map d_id (filter (\<lambda>r. lease_expired now r \<and> d_id r \<notin> set []) (q_deliveries db)))"
  let ?db1 = "snd (strand_unknown_on now ?ids (strand_parts_on now ?ids db))"
  let ?db2 = "snd (settle_stranded_cancellations_on now ?ids ?db1)"
  have id: "d_id r \<in> set ?ids" using r by simp
  then have nonempty: "?ids \<noteq> []" by (metis empty_iff empty_set)
  have a: "d_attempt_count r < d_max_attempts r"
    using ok r by (auto simp: queue_ok_def row_ok_def attempt_check_def lease_expired_def)
  have ok1: "queue_ok now ?db1" by (rule moves_ok [OF ok strand_classify_moves [OF ok refl]])
  let ?unk = "holds_ambiguous_part (strand_parts_on now ?ids db) r"
  obtain r1 where r1: "r1 \<in> set (q_deliveries ?db1)" "d_id r1 = d_id r"
    "d_cancellation_requested_at r1 = d_cancellation_requested_at r" "d_max_attempts r1 = d_max_attempts r"
    "d_attempt_count r1 = (if ?unk then d_attempt_count r + 1 else d_attempt_count r)"
    "lease_expired now r1 \<longleftrightarrow> \<not> ?unk" "?unk \<Longrightarrow> d_status r1 = Delivery_OutcomeUnknown \<and> d_execution_id r1 = None"
    using update_where_member [OF r(1), where P = "\<lambda>r. d_id r \<in> set ?ids \<and> holds_ambiguous_part (strand_parts_on now ?ids db) r"]
      id r(2) a unfolding strand_unknown_on_def Let_def
    by (cases ?unk) (force simp: clear_lease_def lease_expired_def)+
  obtain r2 where r2: "r2 \<in> set (q_deliveries ?db2)" "d_id r2 = d_id r" "d_max_attempts r2 = d_max_attempts r"
    "d_cancellation_requested_at r2 = d_cancellation_requested_at r"
    "d_attempt_count r2 = (if ?unk \<or> d_cancellation_requested_at r \<noteq> None then d_attempt_count r + 1 else d_attempt_count r)"
    "lease_expired now r2 \<longleftrightarrow> \<not> ?unk \<and> d_cancellation_requested_at r = None"
    "?unk \<Longrightarrow> d_status r2 = Delivery_OutcomeUnknown \<and> d_execution_id r2 = None"
    "\<not> ?unk \<and> d_cancellation_requested_at r \<noteq> None \<Longrightarrow> d_status r2 = Delivery_DeadLetter \<and> d_execution_id r2 = None"
    using settle_stranded_row [OF ok1 r1(1), of ?ids now] r1 id a
    by (cases ?unk; cases "d_cancellation_requested_at r") (force simp: clear_lease_def lease_expired_def)+
  note strand_retry_row [OF r2(1), of ?ids now random]
  moreover have "snd (reap_expired_leases_on now [] random db) = snd (strand_retry_on now ?ids random ?db2)"
    using nonempty unfolding reap_expired_leases_on_def Let_def by (simp add: case_prod_unfold)
  ultimately show ?thesis
    using r2 id sweep_unknown [OF ok id, of now]
    by (intro bexI [where x = "if d_id r2 \<in> set ?ids \<and> lease_expired now r2 \<and> d_cancellation_requested_at r2 = None
      then attempt_failed_set now random (Some LeaseExpired) (Some expired_detail) r2 else r2"])
      (auto simp: swept_status_def attempt_failed_set_def clear_lease_def)
qed

section \<open>Claims\<close>

lemma map_rows_all2: "map_rows f xs = Ok ys \<Longrightarrow> list_all2 (\<lambda>x y. f x = Ok y) xs ys"
  by (induction xs arbitrary: ys) auto

lemma claimed_of_Ok:
  assumes "claimed_of readable db r = Ok c"
  shows "claimed_record c = r \<and> row_lease r = Some (claimed_lease c)"
  using assms by (auto simp: claimed_of_def Let_def)

lemma batch_oldest:
  assumes "r \<in> set (take n (sort_key key xs))" and "x \<in> set xs" and "x \<notin> set (take n (sort_key key xs))"
  shows "key r \<le> key x"
proof -
  have "x \<in> set (drop n (sort_key key xs))"
    using assms(2,3) set_append [of "take n (sort_key key xs)" "drop n (sort_key key xs)"] by simp
  moreover have "sorted (map key (take n (sort_key key xs) @ drop n (sort_key key xs)))" by simp
  ultimately show ?thesis using assms(1) by (auto simp only: map_append sorted_append set_map)
qed

lemma claim_batch_length: "length (claim_batch db now skipped limit) \<le> limit"
  by (simp add: claim_batch_def)

lemma claim_batch_oldest:
  assumes ok: "queue_ok now db" and r: "r \<in> set (q_deliveries db)" "d_id r \<in> set (claim_batch db now skipped limit)"
    and x: "x \<in> set (q_deliveries db)" "claimable db now x" "d_id x \<notin> set skipped"
      "d_id x \<notin> set (claim_batch db now skipped limit)"
  shows "(d_available_at r, d_id r) \<le> (d_available_at x, d_id x)"
proof -
  let ?key = "\<lambda>r. (d_available_at r, d_id r)"
  let ?xs = "filter (\<lambda>r. claimable db now r \<and> d_id r \<notin> set skipped) (q_deliveries db)"
  obtain r' where r': "r' \<in> set (take limit (sort_key ?key ?xs))" "d_id r = d_id r'"
    using r(2) by (auto simp: claim_batch_def)
  have "r' \<in> set (q_deliveries db)" using in_set_takeD [OF r'(1)] by simp
  moreover have "distinct (map d_id (q_deliveries db))" using ok by (simp add: queue_ok_def)
  ultimately have "r' = r" using distinct_key r(1) r'(2) by metis
  moreover have "x \<notin> set (take limit (sort_key ?key ?xs))" using x(4) by (auto simp: claim_batch_def)
  ultimately show ?thesis using batch_oldest [of r limit ?key ?xs x] r'(1) x by simp
qed

lemma filter_update_where:
  "(\<And>r. P r \<Longrightarrow> P (f r)) \<Longrightarrow> filter P (update_where P f rows) = map f (filter P rows)"
  by (induction rows) (auto simp: update_where_def)

lemma claim_Ok:
  assumes "claim_deliveries readable fresh skipped now owner lease_for limit db = (Ok claimed, db')"
  shows "q_deliveries db' = update_where (\<lambda>r. d_id r \<in> set (claim_batch db now skipped limit))
      (claimed_row fresh now owner lease_for) (q_deliveries db)"
    and "list_all2 (\<lambda>r c. claimed_record c = claimed_row fresh now owner lease_for r
        \<and> claimed_lease c = \<lparr>lease_row = d_id r, lease_execution = fresh (d_id r), lease_owner = owner,
            lease_expires_at = now + int (lease_for div 1000000000) * 1000000000\<rparr>)
      (filter (\<lambda>r. d_id r \<in> set (claim_batch db now skipped limit)) (q_deliveries db)) claimed"
proof -
  let ?ids = "claim_batch db now skipped limit" and ?f = "claimed_row fresh now owner lease_for"
  let ?rows = "update_where (\<lambda>r. d_id r \<in> set ?ids) ?f (q_deliveries db)"
  have "map_rows (claimed_of readable (db\<lparr>q_deliveries := ?rows\<rparr>)) (filter (\<lambda>r. d_id r \<in> set ?ids) ?rows) = Ok claimed"
    and db': "db' = db\<lparr>q_deliveries := ?rows\<rparr>"
    using assms by (auto simp: claim_deliveries_def Let_def split: outcome.splits)
  from this(1) have "list_all2 (\<lambda>r c. claimed_of readable (db\<lparr>q_deliveries := ?rows\<rparr>) r = Ok c)
      (filter (\<lambda>r. d_id r \<in> set ?ids) ?rows) claimed" by (rule map_rows_all2)
  moreover have "filter (\<lambda>r. d_id r \<in> set ?ids) ?rows = map ?f (filter (\<lambda>r. d_id r \<in> set ?ids) (q_deliveries db))"
    by (rule filter_update_where) (simp add: claimed_row_def)
  ultimately have "list_all2 (\<lambda>r c. claimed_of readable (db\<lparr>q_deliveries := ?rows\<rparr>) (?f r) = Ok c)
      (filter (\<lambda>r. d_id r \<in> set ?ids) (q_deliveries db)) claimed" by (simp add: list_all2_map1)
  then show "list_all2 (\<lambda>r c. claimed_record c = ?f r
        \<and> claimed_lease c = \<lparr>lease_row = d_id r, lease_execution = fresh (d_id r), lease_owner = owner,
            lease_expires_at = now + int (lease_for div 1000000000) * 1000000000\<rparr>)
      (filter (\<lambda>r. d_id r \<in> set ?ids) (q_deliveries db)) claimed"
    by (rule list_all2_mono) (auto dest!: claimed_of_Ok simp: row_lease_def claimed_row_def)
  show "q_deliveries db' = ?rows" by (simp add: db')
qed

section \<open>Completing a part\<close>

text \<open>What a part transition makes of the parent, before attempts run out.\<close>

definition next_status :: "provider_send_outcome \<Rightarrow> delivery_part_status list \<Rightarrow> delivery_status" where
  "next_status outcome ps =
     (if Part_Sending \<in> set ps \<or> (t_status (PartTransition_of outcome) = Part_Delivered \<and> list_ex is_unfinished ps)
      then Delivery_Sending else aggregate_parent_status ps)"

lemma next_status_cases:
  shows "delivery_is_claimable (next_status outcome ps) \<Longrightarrow>
      set ps \<subseteq> {Part_Delivered, Part_Prepared, Part_Retryable} \<and> (\<exists>p \<in> set ps. is_unfinished p)"
    and "next_status outcome ps = Delivery_Delivered \<longleftrightarrow> ps \<noteq> [] \<and> set ps \<subseteq> {Part_Delivered}"
proof -
  have parts: "p = Part_Delivered \<or> is_unfinished p \<or> p \<in> {Part_Sending, Part_OutcomeUnknown, Part_Dead}" for p
    by (cases p) (simp_all add: is_unfinished_def)
  have all: "list_all (\<lambda>p. p = Part_Delivered) ps \<longleftrightarrow> set ps \<subseteq> {Part_Delivered}"
    by (auto simp: list_all_iff)
  show "set ps \<subseteq> {Part_Delivered, Part_Prepared, Part_Retryable} \<and> (\<exists>p \<in> set ps. is_unfinished p)"
    if "delivery_is_claimable (next_status outcome ps)"
    using that parts unfolding next_status_def aggregate_parent_status_def all delivery_is_claimable_def
    by (auto simp: list_ex_iff is_unfinished_def split: if_splits)
  show "next_status outcome ps = Delivery_Delivered \<longleftrightarrow> ps \<noteq> [] \<and> set ps \<subseteq> {Part_Delivered}"
    unfolding next_status_def aggregate_parent_status_def all
    by (auto simp: list_ex_iff is_unfinished_def)
qed

lemma aggregate_Applied:
  assumes r: "r \<in> set (q_deliveries db)" "own_row_fence fence r"
    and a: "d_attempt_count r < d_max_attempts r"
    and res: "aggregate_parent_on now random fence (PartTransition_of outcome) db = (Applied s, db')"
  shows "s = next_status outcome (part_statuses (lease_row fence) db')
    \<and> (\<exists>r' \<in> set (q_deliveries db'). d_id r' = lease_row fence \<and> (d_status r' = s \<or>
        s = Delivery_Retryable \<and> d_status r' = Delivery_DeadLetter \<and> d_attempt_count r' = d_max_attempts r'))"
proof -
  let ?ps = "part_statuses (lease_row fence) db" and ?t = "PartTransition_of outcome"
  have same: "part_statuses (lease_row fence) db' = ?ps"
    using res by (auto simp: aggregate_parent_on_def Let_def retry_parent_on_def settle_parent_on_def
        part_statuses_def split: if_splits)
  have id: "d_id r = lease_row fence" "d_status r = Delivery_Sending" using r(2) by (auto simp: own_row_fence_def)
  show ?thesis
  proof (cases "next_status outcome ?ps = Delivery_Sending")
    case True
    moreover have "aggregate_parent_status ?ps \<noteq> Delivery_Sending" using aggregate_parent_status_range [of ?ps] by auto
    ultimately have "Part_Sending \<in> set ?ps \<or> t_status ?t = Part_Delivered \<and> list_ex is_unfinished ?ps"
      by (auto simp: next_status_def split: if_splits)
    then have "s = Delivery_Sending" "db' = db" using res by (auto simp: aggregate_parent_on_def Let_def)
    then show ?thesis using True r(1) id by auto
  next
    case False
    then have keep: "\<not> (Part_Sending \<in> set ?ps \<or> t_status ?t = Part_Delivered \<and> list_ex is_unfinished ?ps)"
      and nxt: "next_status outcome ?ps = aggregate_parent_status ?ps" by (auto simp: next_status_def)
    show ?thesis
    proof (cases "aggregate_parent_status ?ps = Delivery_Retryable")
      case True
      let ?f = "if t_consumes_attempt ?t
         then attempt_failed_set now random (t_class ?t) (t_detail ?t)
         else (\<lambda>r. clear_lease (r\<lparr>d_status := Delivery_Retryable,
           d_last_error_class := t_class ?t, d_last_error_detail := t_detail ?t,
           d_available_at := now + (case t_retry_after ?t of
               Some d \<Rightarrow> d | None \<Rightarrow> retry_delay (d_attempt_count r) (random (d_id r))),
           d_updated_at := now\<rparr>))"
      have "s = Delivery_Retryable" and "q_deliveries db' = update_where (own_row_fence fence) ?f (q_deliveries db)"
        using res keep True by (auto simp: aggregate_parent_on_def Let_def retry_parent_on_def split: if_splits)
      moreover have "d_id (?f r) = lease_row fence \<and> (d_status (?f r) = Delivery_Retryable \<or>
          d_status (?f r) = Delivery_DeadLetter \<and> d_attempt_count (?f r) = d_max_attempts (?f r))"
        using id a by (auto simp: attempt_failed_set_def clear_lease_def)
      ultimately show ?thesis
        using update_where_member [OF r(1), where P = "own_row_fence fence" and f = ?f] r(2) True nxt
        by (auto simp: same)
    next
      case settled: False
      let ?f = "\<lambda>r. clear_lease (r\<lparr>d_status := aggregate_parent_status ?ps,
        d_attempt_count := (if t_consumes_attempt ?t
          then min (d_attempt_count r + 1) (d_max_attempts r) else d_attempt_count r),
        d_last_error_class := t_class ?t, d_last_error_detail := t_detail ?t,
        d_delivered_at := (if aggregate_parent_status ?ps = Delivery_Delivered then Some now else None),
        d_updated_at := now\<rparr>)"
      have "s = aggregate_parent_status ?ps" and "q_deliveries db' = update_where (own_row_fence fence) ?f (q_deliveries db)"
        using res keep settled by (auto simp: aggregate_parent_on_def Let_def settle_parent_on_def split: if_splits)
      moreover have "d_id (?f r) = lease_row fence \<and> d_status (?f r) = aggregate_parent_status ?ps"
        using id by (simp add: clear_lease_def)
      ultimately show ?thesis
        using update_where_member [OF r(1), where P = "own_row_fence fence" and f = ?f] r(2) nxt
        unfolding same by (intro conjI bexI [where x = "?f r"]) simp_all
    qed
  qed
qed

lemma complete_part_Applied:
  assumes ok: "queue_ok t db" and res: "complete_part now random fence part outcome db = (Applied s, db')"
  shows "s = next_status outcome (part_statuses (lease_row fence) db')
    \<and> (\<exists>r' \<in> set (q_deliveries db'). d_id r' = lease_row fence \<and> (d_status r' = s \<or>
        s = Delivery_Retryable \<and> d_status r' = Delivery_DeadLetter \<and> d_attempt_count r' = d_max_attempts r'))"
proof (cases "lock_held_delivery_on fence db")
  case Held_Lost
  then show ?thesis using res by (simp add: complete_part_def)
next
  case (Held_Cancelled reason)
  then obtain db1 last where "settle_cancelled_on now fence reason last db1 = (Applied s, db')"
    using res by (simp add: complete_part_def Let_def split: if_splits)
  then have "fst (settle_cancelled_on now fence reason last db1) = Applied s" by simp
  then show ?thesis using settle_cancelled_not_Applied by blast
next
  case Held_Live
  obtain r where r: "r \<in> set (q_deliveries db)" "own_row_fence fence r"
    using Held_Live held_cases(1) [OF ok, of fence] by auto
  have a: "d_attempt_count r < d_max_attempts r"
    using ok r by (auto simp: queue_ok_def row_ok_def attempt_check_def own_row_fence_def)
  obtain ps where "aggregate_parent_on now random fence (PartTransition_of outcome) (db\<lparr>q_parts := ps\<rparr>) = (Applied s, db')"
    using res Held_Live unfolding complete_part_def Let_def by (simp split: if_split_asm del: if_split)
  then show ?thesis by (rule aggregate_Applied [rotated 3]) (use r a in simp_all)
qed

text \<open>The completion of a part in flight whose delivery the caller holds, uncancelled.\<close>

definition part_after :: "instant \<Rightarrow> provider_send_outcome \<Rightarrow> part_db \<Rightarrow> part_db" where
  "part_after now outcome q = (let t = PartTransition_of outcome in q\<lparr>p_status := t_status t,
     p_provider_message_key := (case t_provider_key t of Some k \<Rightarrow> Some k | None \<Rightarrow> p_provider_message_key q),
     p_last_error_class := t_class t, p_last_error_detail := t_detail t,
     p_delivered_at := (if t_status t = Part_Delivered then Some now else None), p_updated_at := now\<rparr>)"

lemma complete_held:
  assumes ok: "queue_ok now db" and r: "r \<in> set (q_deliveries db)" "own_row_fence lease r" "d_cancellation_requested_at r = None"
    and p: "p \<in> set (q_parts db)" "p_delivery_id p = lease_row lease" "p_status p = Part_Sending"
  shows "complete_part now random lease (p_id p) outcome db =
    aggregate_parent_on now random lease (PartTransition_of outcome)
      (db\<lparr>q_parts := update_where (\<lambda>q. p_id q = p_id p) (part_after now outcome) (q_parts db)\<rparr>)"
proof -
  have live: "lock_held_delivery_on lease db = Held_Live"
    using held_cases [OF ok, of lease] r ok
    by (cases "lock_held_delivery_on lease db") (auto simp: queue_ok_def row_ok_def cancellation_check_def)
  let ?P = "\<lambda>q. p_id q = p_id p \<and> p_status q = Part_Sending
    \<and> list_ex (\<lambda>r. p_delivery_id q = d_id r \<and> own_row_fence lease r) (q_deliveries db)"
  have row: "list_ex (\<lambda>r. p_delivery_id p = d_id r \<and> own_row_fence lease r) (q_deliveries db)"
    using r p(2) unfolding list_ex_iff by (intro bexI [OF _ r(1)]) (simp add: own_row_fence_def)
  have same: "?P q \<longleftrightarrow> p_id q = p_id p" if "q \<in> set (q_parts db)" for q
  proof -
    have "q = p" if "p_id q = p_id p"
      using ok p(1) that \<open>q \<in> set (q_parts db)\<close> by (intro distinct_key [of p_id "q_parts db"]) (auto simp: queue_ok_def)
    then show ?thesis using row p(3) by blast
  qed
  have one: "rows_affected ?P (q_parts db) = 1"
    using ok p(1) same by (subst one_row [where k = p_id and i = "p_id p"]) (auto simp: queue_ok_def)
  have "update_where ?P f (q_parts db) = update_where (\<lambda>q. p_id q = p_id p) f (q_parts db)" for f
    using same by (simp add: update_where_def)
  then show ?thesis using one by (simp add: complete_part_def live Let_def part_after_def [abs_def])
qed

text \<open>The parent after a refusal that leaves something to send.\<close>

lemma refused_parent:
  assumes ok: "queue_ok now db" and r: "r \<in> set (q_deliveries db)" "own_row_fence fence r" "d_cancellation_requested_at r = None"
    and p: "p \<in> set (q_parts db)" "p_delivery_id p = lease_row fence" "p_status p = Part_Sending"
    and rest: "\<And>q. q \<in> set (q_parts db) \<Longrightarrow> p_delivery_id q = lease_row fence \<Longrightarrow> q \<noteq> p \<Longrightarrow>
      p_status q \<in> {Part_Delivered, Part_Prepared, Part_Retryable}"
  shows "fst (complete_part now random fence (p_id p) (Sent_Retryable failure detail) db) = Applied Delivery_Retryable"
    and "attempt_failed_set now random (Some failure) (Some detail) r
      \<in> set (q_deliveries (snd (complete_part now random fence (p_id p) (Sent_Retryable failure detail) db)))"
proof -
  let ?o = "Sent_Retryable failure detail" and ?id = "\<lambda>q. p_id q = p_id p"
  let ?db = "db\<lparr>q_parts := update_where ?id (part_after now ?o) (q_parts db)\<rparr>"
  let ?ps = "part_statuses (lease_row fence) ?db"
  have same: "q = p" if "q \<in> set (q_parts db)" "?id q" for q
    using ok p(1) that by (intro distinct_key [of p_id "q_parts db"]) (auto simp: queue_ok_def)
  have "p_status q \<in> {Part_Delivered, Part_Prepared, Part_Retryable}"
    if q: "q \<in> set (q_parts ?db)" "p_delivery_id q = lease_row fence" for q
  proof -
    obtain x where x: "x \<in> set (q_parts db)" "q = (if ?id x then part_after now ?o x else x)"
      using q(1) by (auto simp: update_where_def)
    show ?thesis
    proof (cases "?id x")
      case True
      then show ?thesis using x(2) by (simp add: part_after_def Let_def)
    next
      case False
      then show ?thesis using rest [of x] x q(2) by auto
    qed
  qed
  then have range: "set ?ps \<subseteq> {Part_Delivered, Part_Prepared, Part_Retryable}" by (auto simp: part_statuses_def)
  have "part_after now ?o p \<in> set (q_parts ?db)"
    using update_where_member [OF p(1), where P = ?id and f = "part_after now ?o"] by simp
  then have "Part_Retryable \<in> set ?ps"
    using p(2) by (force simp: part_statuses_def part_after_def Let_def)
  then have target: "aggregate_parent_status ?ps = Delivery_Retryable" and "Part_Sending \<notin> set ?ps"
    using range by (auto simp: aggregate_parent_status_def list_all_iff)
  moreover have "rows_affected (own_row_fence fence) (q_deliveries ?db) = 1" using fence_unique(2) [OF ok r(1,2)] by simp
  moreover have "attempt_failed_set now random (Some failure) (Some detail) r
      \<in> set (update_where (own_row_fence fence) (attempt_failed_set now random (Some failure) (Some detail)) (q_deliveries db))"
    using update_where_member [OF r(1), where P = "own_row_fence fence"] r(2) by (metis (full_types))
  ultimately show "fst (complete_part now random fence (p_id p) ?o db) = Applied Delivery_Retryable"
    and "attempt_failed_set now random (Some failure) (Some detail) r
      \<in> set (q_deliveries (snd (complete_part now random fence (p_id p) ?o db)))"
    unfolding complete_held [OF ok r p] by (simp_all add: aggregate_parent_on_def retry_parent_on_def Let_def)
qed

section \<open>A small queue\<close>

definition sample_row :: "delivery_status \<Rightarrow> uuid option \<Rightarrow> int \<Rightarrow> delivery_db" where
  "sample_row s e m = \<lparr>d_id = 1, d_company_id = 9, d_channel_id = None, d_message_id = None, d_source_binding_id = None,
     d_destination_binding_id = None, d_external_destination = Some ''a@b'', d_depends_on_delivery_id = None,
     d_correlation_id = 0, d_transport = Email, d_purpose = Notification, d_idempotency_key = ''k'', d_status = s,
     d_attempt_count = 0, d_max_attempts = m, d_available_at = 5, d_last_error_class = None,
     d_last_error_detail = None, d_execution_id = e, d_owner_worker_id = map_option (\<lambda>_. 3) e,
     d_locked_at = map_option (\<lambda>_. 5) e, d_lock_expires_at = map_option (\<lambda>_. 100) e, d_delivered_at = None,
     d_created_at = 0, d_updated_at = 0, d_cancellation_requested_at = None, d_cancellation_reason = None,
     d_settled_evidence_id = None, d_reopen_id = None\<rparr>"

definition sample_part :: "delivery_part_status \<Rightarrow> part_db" where
  "sample_part s = \<lparr>p_id = 2, p_company_id = 9, p_delivery_id = 1, p_part_index = 0, p_part_key = ''0'',
     p_payload = ''x'', p_status = s, p_provider_message_key = None, p_content_digest = ''d'', p_attempt_count = 1,
     p_last_error_class = None, p_last_error_detail = None, p_request_started_at = Some 5, p_delivered_at = None,
     p_created_at = 0, p_updated_at = 0\<rparr>"

definition sample_queue :: "delivery_status \<Rightarrow> uuid option \<Rightarrow> int \<Rightarrow> delivery_part_status \<Rightarrow> queue_db" where
  "sample_queue s e m p = \<lparr>q_deliveries = [sample_row s e m], q_parts = [sample_part p]\<rparr>"

definition sample_lease :: execution_lease where
  "sample_lease = \<lparr>lease_row = 1, lease_execution = 7, lease_owner = 3, lease_expires_at = 100\<rparr>"

lemma sample_sending_ok: "0 < m \<Longrightarrow> p \<noteq> Part_Delivered \<Longrightarrow> queue_ok 5 (sample_queue Delivery_Sending (Some 7) m p)"
  by (simp add: queue_ok_def sample_queue_def sample_row_def sample_part_def row_checks part_ok_def)

lemma sample_fenced: "own_row_fence sample_lease (sample_row Delivery_Sending (Some 7) m)"
  by (simp add: own_row_fence_def sample_lease_def sample_row_def)

text \<open>A provider refuses the part for now; the sweep and the release come later.\<close>

lemma sample_history:
  assumes "event_ok used ev" and "5 \<le> now"
  shows "queue_history used 5 db [(now, ev)] (used \<union> event_issues ev) now (perform_at now ev db)"
proof -
  have "history admitted perform issues used (5, db) ([] @ [(now, ev)])
      (used \<union> issues (now, ev) (5, db)) (perform (now, ev) (5, db))"
    by (rule history_snoc [OF history_nil]) (use assms in \<open>simp add: admitted_def\<close>)
  then show ?thesis by (simp add: queue_history_def perform_def issues_def)
qed

text \<open>What the completion of a part unfolds to on the sample tables.\<close>

lemmas completion_steps = complete_part_def lock_held_delivery_on_def aggregate_parent_on_def retry_parent_on_def
  settle_parent_on_def attempt_failed_set_def clear_lease_def part_statuses_def own_row_fence_def is_unfinished_def
  update_where_def rows_affected_def sample_queue_def sample_row_def sample_part_def sample_lease_def Let_def

section \<open>Properties\<close>

text \<open>
  C3. At-most-once delivery. Along every history of the queue, with any workers, crashes,
  lease expiries, duplicate callbacks, cancellations and reconciliations, the provider requests
  made for a part are at most one more than the times that it was declared not accepted: by the
  provider, through \<open>complete_part\<close>, or by verified evidence, through
  \<open>settle_unknown_delivery_on\<close>. A part that is delivered or dead is never sent again and never
  changes, one whose outcome is unknown changes only if evidence settles that very part, and no
  operation alters what was frozen to be sent.
\<close>

theorem parts_are_sent_at_most_once_per_refusal:
  assumes "queue_history used t db es used' t' db'" and "queue_ok t db" and "p \<in> set (q_parts db)"
  shows "\<exists>p' \<in> set (q_parts db'). p_id p' = p_id p \<and> p_payload p' = p_payload p
    \<and> p_content_digest p' = p_content_digest p
    \<and> p_attempt_count p' \<le> p_attempt_count p + (if is_unfinished (p_status p) then 1 else 0)
        + int (sum_list (map (\<lambda>e. refused (snd e) (p_id p)) es))
        + int (sum_list (map (\<lambda>e. reopened (snd e) (p_id p)) es))
    \<and> (p_status p \<in> {Part_Delivered, Part_Dead} \<longrightarrow> p' = p)
    \<and> (p_status p = Part_OutcomeUnknown \<and> (\<forall>e \<in> set es. \<not> settles (snd e) (p_id p)) \<longrightarrow> p' = p)"
proof -
  have "part_ok p" using assms(2,3) by (simp add: queue_ok_def)
  moreover obtain p' where "p' \<in> set (q_parts db')" "part_steps (evidenced es) (times_again es) p p'"
    using history_parts [of used "(t, db)" es used' "(t', db')" p] assms by (auto simp: queue_history_def timed_ok_def)
  moreover have "p_attempt_count p' \<le> owed p'" by (simp add: owed_def)
  ultimately show ?thesis
    by (intro bexI [where x = p']) (auto simp: part_steps_def evidenced_def times_again_sum owed_def split: if_splits)
qed

theorem parts_are_sent_at_most_once_per_refusal_witness:
  "(\<exists>p' \<in> set (q_parts (perform_at 200 (Reap [] (\<lambda>_. 0)) (sample_queue Delivery_Sending (Some 7) 5 Part_OutcomeUnknown))).
     p' = sample_part Part_OutcomeUnknown)
   \<and> (\<exists>p' \<in> set (q_parts (perform_at 200 (Settle 1 2 (Settled_Reopened 6)) (sample_queue Delivery_OutcomeUnknown None 5 Part_OutcomeUnknown))).
     p_status p' = Part_Retryable \<and> p_attempt_count p' \<le> 2)"
proof
  have p: "sample_part Part_OutcomeUnknown \<in> set (q_parts (sample_queue s e 5 Part_OutcomeUnknown))" for s e
    by (simp add: sample_queue_def)
  have "queue_ok 5 (sample_queue Delivery_Sending (Some 7) 5 Part_OutcomeUnknown)" by (simp add: sample_sending_ok)
  from parts_are_sent_at_most_once_per_refusal [OF sample_history [of "{7}" "Reap [] (\<lambda>_. 0)" 200] this p]
  show "\<exists>p' \<in> set (q_parts (perform_at 200 (Reap [] (\<lambda>_. 0)) (sample_queue Delivery_Sending (Some 7) 5 Part_OutcomeUnknown))).
     p' = sample_part Part_OutcomeUnknown" by (auto simp: sample_part_def)
  let ?db = "sample_queue Delivery_OutcomeUnknown None 5 Part_OutcomeUnknown"
  have "queue_ok 5 ?db"
    by (simp add: queue_ok_def sample_queue_def sample_row_def sample_part_def row_checks part_ok_def delivery_is_claimable_def)
  from parts_are_sent_at_most_once_per_refusal [OF sample_history [of "{7}" "Settle 1 2 (Settled_Reopened 6)" 200] this p]
  obtain p' where p': "p' \<in> set (q_parts (perform_at 200 (Settle 1 2 (Settled_Reopened 6)) ?db))" "p_attempt_count p' \<le> 2"
    by (auto simp: sample_part_def is_unfinished_def)
  moreover have "p_status p' = Part_Retryable"
    using p'(1) by (simp add: settle_unknown_delivery_on_def Let_def verified_parent_def verified_part_def rows_affected_def
        update_where_def sample_queue_def sample_row_def sample_part_def)
  ultimately show "\<exists>p' \<in> set (q_parts (perform_at 200 (Settle 1 2 (Settled_Reopened 6)) ?db)).
     p_status p' = Part_Retryable \<and> p_attempt_count p' \<le> 2" by blast
qed

text \<open>
  C4. Fencing. Once an execution no longer holds its delivery, because it settled or released
  it or because a sweep ended its lease, then at every later time all its writes are refused with
  \<open>LeaseLost\<close> and change nothing, whoever holds the delivery then: it can start no request and
  report no result over its successor.
\<close>

theorem superseded_executions_change_nothing:
  assumes "queue_history used t db es used' t' db'" and "queue_ok t db"
    and "lease_execution fence \<in> used" and "lease_execution fence \<notin> executions db"
  shows "begin_part admission expired now fence part db' = (LeaseLost, db')
    \<and> complete_part now random fence part outcome db' = (LeaseLost, db')
    \<and> fail_delivery now random fence class detail disposition db' = (LeaseLost, db')
    \<and> release_delivery now fence db' = (LeaseLost, db')"
proof -
  have h: "history admitted perform issues used (t, db) es used' (t', db')" and "timed_ok (t, db)"
    using assms(1,2) by (simp_all add: queue_history_def timed_ok_def)
  then have "queue_ok t' db'" using deliveries.history_ok [OF h] by (simp add: timed_ok_def)
  moreover have "lease_execution fence \<notin> executions db'"
    using deliveries.superseded_forever [OF h \<open>timed_ok (t, db)\<close> assms(3)] assms(4) by (simp add: holds_def)
  ultimately show ?thesis by (simp add: superseded_writes)
qed

theorem superseded_executions_change_nothing_witness:
  "release_delivery 300 sample_lease (perform_at 200 (Reap [] (\<lambda>_. 0)) (sample_queue Delivery_Pending None 5 Part_Prepared))
     = (LeaseLost, perform_at 200 (Reap [] (\<lambda>_. 0)) (sample_queue Delivery_Pending None 5 Part_Prepared))"
proof -
  have "queue_ok 5 (sample_queue Delivery_Pending None 5 Part_Prepared)"
    by (simp add: queue_ok_def sample_queue_def sample_row_def sample_part_def row_checks part_ok_def)
  moreover have "lease_execution sample_lease \<in> {7}" "lease_execution sample_lease \<notin> executions (sample_queue Delivery_Pending None 5 Part_Prepared)"
    by (simp_all add: sample_lease_def executions_def sample_queue_def sample_row_def)
  ultimately show ?thesis
    using superseded_executions_change_nothing [OF sample_history [of "{7}" "Reap [] (\<lambda>_. 0)" 200]] by simp
qed

text \<open>
  C32. A cancellation is never undone. A delivery that carries a cancellation keeps it, with its
  reason, along every history; it is never claimable again, and no worker that still holds it can
  start a provider request, whatever the workflow side admits.
\<close>

theorem cancellations_are_final:
  assumes "queue_history used t db es used' t' db'" and "queue_ok t db" and "r \<in> set (q_deliveries db)"
    and "d_cancellation_requested_at r \<noteq> None"
  shows "\<exists>r' \<in> set (q_deliveries db'). d_id r' = d_id r \<and> d_cancellation_reason r' = d_cancellation_reason r
    \<and> \<not> delivery_is_claimable (d_status r')
    \<and> (lease_row fence = d_id r \<longrightarrow> \<not> lease_held (fst (begin_part admission expired now fence part db')))"
proof -
  have h: "history admitted perform issues used (t, db) es used' (t', db')" "timed_ok (t, db)"
    using assms(1,2) by (simp_all add: queue_history_def timed_ok_def)
  have ok: "queue_ok t' db'" using deliveries.history_ok [OF h] by (simp add: timed_ok_def)
  obtain r' where r': "r' \<in> set (q_deliveries db')" "same_cancellation r r'"
    using history_rows [OF h, of r] assms(3) by auto
  have c: "d_cancellation_requested_at r' \<noteq> None" "d_id r' = d_id r" "d_cancellation_reason r' = d_cancellation_reason r"
    using r'(2) assms(4) by (auto simp: same_cancellation_def)
  have "\<not> lease_held (fst (begin_part admission expired now fence part db'))" if "lease_row fence = d_id r"
  proof -
    have "fst (begin_part admission expired now fence part db') \<noteq> Applied s" for s
    proof
      assume "fst (begin_part admission expired now fence part db') = Applied s"
      then obtain x where x: "x \<in> set (q_deliveries db')" "live_fence fence now x" "d_cancellation_requested_at x = None"
        using begin_part_Applied [OF ok] by blast
      have "d_id x = d_id r'" using x(2) that c(2) by (simp add: live_fence_def own_row_fence_def)
      moreover have "distinct (map d_id (q_deliveries db'))" using ok by (simp add: queue_ok_def)
      ultimately have "x = r'" using distinct_key x(1) r'(1) by metis
      then show False using x(3) c(1) by simp
    qed
    then show ?thesis by (cases "fst (begin_part admission expired now fence part db')") auto
  qed
  moreover have "\<not> delivery_is_claimable (d_status r')"
    using ok r'(1) c(1) by (auto simp: queue_ok_def row_ok_def cancellation_check_def)
  ultimately show ?thesis using r'(1) c by blast
qed

theorem cancellations_are_final_witness:
  "\<exists>r' \<in> set (q_deliveries (perform_at 200 (Reap [] (\<lambda>_. 0)) (\<lparr>q_deliveries = [(sample_row Delivery_Sending (Some 7) 5)
      \<lparr>d_cancellation_requested_at := Some 6, d_cancellation_reason := Some QuestionClosed\<rparr>], q_parts = []\<rparr>))).
     d_cancellation_reason r' = Some QuestionClosed \<and> \<not> delivery_is_claimable (d_status r')"
proof -
  let ?r = "(sample_row Delivery_Sending (Some 7) 5)
    \<lparr>d_cancellation_requested_at := Some 6, d_cancellation_reason := Some QuestionClosed\<rparr>"
  have "queue_ok 5 \<lparr>q_deliveries = [?r], q_parts = []\<rparr>"
    by (simp add: queue_ok_def sample_row_def row_checks delivery_is_claimable_def)
  then show ?thesis
    using cancellations_are_final [OF sample_history [of "{7}" "Reap [] (\<lambda>_. 0)" 200], of _ ?r] by fastforce
qed

text \<open>
  C27. The operations keep the constraints of the tables: along every history each delivery has a
  full lease exactly while it is being sent, its attempts never exceed their maximum and leave one
  more while it may still be tried, a cancelled delivery is not claimable, delivery times exist
  exactly for delivered rows and parts, and every part in flight, refused, ambiguous or delivered
  records that its request started.
\<close>

theorem queue_constraints_hold:
  assumes "queue_history used t db es used' t' db'" and "queue_ok t db"
  shows "queue_ok t' db'"
  using deliveries.history_ok [of used "(t, db)" es used' "(t', db')"] assms
  by (simp add: queue_history_def timed_ok_def)

theorem queue_constraints_hold_witness:
  "queue_ok 200 (perform_at 200 (Reap [] (\<lambda>_. 0)) (sample_queue Delivery_Sending (Some 7) 5 Part_Sending))"
proof -
  have "queue_ok 5 (sample_queue Delivery_Sending (Some 7) 5 Part_Sending)" by (simp add: sample_sending_ok)
  from queue_constraints_hold [OF sample_history [of "{7}" "Reap [] (\<lambda>_. 0)" 200] this] show ?thesis by simp
qed

text \<open>
  A provider request starts only under a live lease. \<open>begin_part\<close> grants one exactly when
  the calling execution holds the delivery with a lease that has not lapsed, the delivery carries
  no cancellation, the workflow side admits it with an unexpired proof, and the part is one of
  this delivery that still may be sent.
\<close>

theorem provider_entry_is_guarded:
  assumes "queue_ok t db"
  shows "lease_held (fst (begin_part admission expired now fence part db)) \<longleftrightarrow>
    (admission = NotWorkflow \<or> admission = Proceed \<and> \<not> expired)
    \<and> (\<exists>r \<in> set (q_deliveries db). live_fence fence now r \<and> d_cancellation_requested_at r = None
        \<and> (\<exists>p \<in> set (q_parts db). p_id p = part \<and> p_delivery_id p = d_id r \<and> is_unfinished (p_status p)))"
proof -
  have "lease_held o' \<longleftrightarrow> (\<exists>s. o' = Applied s)" for o' by (cases o') simp_all
  then show ?thesis using begin_part_Applied [OF assms] by simp
qed

theorem provider_entry_is_guarded_witness:
  "lease_held (fst (begin_part NotWorkflow False 50 sample_lease 2 (sample_queue Delivery_Sending (Some 7) 5 Part_Prepared)))"
proof -
  have ok: "queue_ok 5 (sample_queue Delivery_Sending (Some 7) 5 Part_Prepared)" by (simp add: sample_sending_ok)
  show ?thesis
    by (rule provider_entry_is_guarded [OF ok, THEN iffD2])
      (simp add: sample_queue_def live_fence_def sample_fenced, simp add: sample_row_def sample_part_def is_unfinished_def)
qed

text \<open>
  A claim takes the oldest claimable deliveries and nothing else: at most \<open>limit\<close> of them,
  each due, uncancelled, pending or retryable, with its dependency delivered, each under the
  freshly minted execution and held by it in the committed table; a claimable delivery that was
  neither skipped nor claimed is not older than any claimed one, and every other row is unchanged.
\<close>

theorem claims_take_the_oldest_claimable:
  assumes "queue_ok now db"
    and "claim_deliveries readable fresh skipped now owner lease_for limit db = (Ok claimed, db')"
  shows "length claimed \<le> limit
    \<and> (\<forall>c \<in> set claimed. \<exists>r \<in> set (q_deliveries db). d_id r = lease_row (claimed_lease c) \<and> claimable db now r
        \<and> lease_execution (claimed_lease c) = fresh (d_id r)
        \<and> claimed_record c \<in> set (q_deliveries db') \<and> own_row_fence (claimed_lease c) (claimed_record c)
        \<and> (\<forall>x \<in> set (q_deliveries db). claimable db now x \<and> d_id x \<notin> set skipped
             \<and> (\<forall>k \<in> set claimed. lease_row (claimed_lease k) \<noteq> d_id x) \<longrightarrow>
             (d_available_at r, d_id r) \<le> (d_available_at x, d_id x)))
    \<and> (\<forall>x \<in> set (q_deliveries db). (\<forall>k \<in> set claimed. lease_row (claimed_lease k) \<noteq> d_id x) \<longrightarrow>
        x \<in> set (q_deliveries db'))"
proof -
  let ?ids = "claim_batch db now skipped limit" and ?f = "claimed_row fresh now owner lease_for"
  let ?rows = "filter (\<lambda>r. d_id r \<in> set ?ids) (q_deliveries db)"
  note rows = claim_Ok(1) [OF assms(2)] and all2 = claim_Ok(2) [OF assms(2)]
  have dist: "distinct (map d_id (q_deliveries db))" using assms(1) by (simp add: queue_ok_def)
  have "length claimed = card (d_id ` set ?rows)"
  proof -
    have "length claimed = length (map d_id ?rows)" using list_all2_lengthD [OF all2] by simp
    also have "\<dots> = card (set (map d_id ?rows))"
      by (rule distinct_card [symmetric], rule distinct_map_filter [OF dist])
    finally show ?thesis by simp
  qed
  also have "\<dots> \<le> card (set ?ids)" by (rule card_mono) auto
  also have "\<dots> \<le> limit" using card_length [of ?ids] claim_batch_length [of db now skipped limit] by linarith
  finally have len: "length claimed \<le> limit" .
  have unclaimed: "d_id x \<notin> set ?ids" if "x \<in> set (q_deliveries db)" "\<forall>k \<in> set claimed. lease_row (claimed_lease k) \<noteq> d_id x" for x
  proof
    assume "d_id x \<in> set ?ids"
    then have "x \<in> set ?rows" using that(1) by simp
    from all2_in [OF all2 this] obtain k where "k \<in> set claimed" "lease_row (claimed_lease k) = d_id x"
      by (metis (no_types, lifting) execution_lease.select_convs(1))
    then show False using that(2) by blast
  qed
  have each: "\<exists>r \<in> set (q_deliveries db). d_id r = lease_row (claimed_lease c) \<and> claimable db now r
        \<and> lease_execution (claimed_lease c) = fresh (d_id r)
        \<and> claimed_record c \<in> set (q_deliveries db') \<and> own_row_fence (claimed_lease c) (claimed_record c)
        \<and> (\<forall>x \<in> set (q_deliveries db). claimable db now x \<and> d_id x \<notin> set skipped
             \<and> (\<forall>k \<in> set claimed. lease_row (claimed_lease k) \<noteq> d_id x) \<longrightarrow>
             (d_available_at r, d_id r) \<le> (d_available_at x, d_id x))" if c: "c \<in> set claimed" for c
  proof -
    obtain r where r: "r \<in> set (q_deliveries db)" "d_id r \<in> set ?ids" "claimed_record c = ?f r"
      "claimed_lease c = \<lparr>lease_row = d_id r, lease_execution = fresh (d_id r), lease_owner = owner,
            lease_expires_at = now + int (lease_for div 1000000000) * 1000000000\<rparr>"
      using all2_in2 [OF all2 c] by auto
    have "?f r \<in> set (q_deliveries db')"
      using update_where_member [OF r(1), where P = "\<lambda>r. d_id r \<in> set ?ids" and f = ?f] r(2) rows by simp
    moreover have "own_row_fence (claimed_lease c) (?f r)" by (simp add: own_row_fence_def claimed_row_def r(4))
    moreover have "(d_available_at r, d_id r) \<le> (d_available_at x, d_id x)"
      if "x \<in> set (q_deliveries db)" "claimable db now x" "d_id x \<notin> set skipped"
        "\<forall>k \<in> set claimed. lease_row (claimed_lease k) \<noteq> d_id x" for x
      using claim_batch_oldest [OF assms(1) r(1,2) that(1-3) unclaimed [OF that(1,4)]] .
    ultimately show ?thesis
      using r claim_batch_claimable [OF assms(1) r(1,2)] by (intro bexI [OF _ r(1)]) simp
  qed
  have rest: "x \<in> set (q_deliveries db')" if "x \<in> set (q_deliveries db)"
    "\<forall>k \<in> set claimed. lease_row (claimed_lease k) \<noteq> d_id x" for x
    using update_where_member [OF that(1), where P = "\<lambda>r. d_id r \<in> set ?ids" and f = ?f] unclaimed [OF that] rows by simp
  show ?thesis using len each rest by blast
qed

theorem claims_take_the_oldest_claimable_witness:
  "\<exists>claimed db'. claim_deliveries (\<lambda>_ _. True) (\<lambda>_. 8) [] 10 3 120000000000 1 (sample_queue Delivery_Pending None 5 Part_Prepared)
     = (Ok claimed, db') \<and> length claimed \<le> 1 \<and> claimed \<noteq> []"
proof -
  let ?db = "sample_queue Delivery_Pending None 5 Part_Prepared"
  have ok: "queue_ok 10 ?db"
    by (simp add: queue_ok_def sample_queue_def sample_row_def sample_part_def row_checks part_ok_def)
  obtain claimed db' where c: "claim_deliveries (\<lambda>_ _. True) (\<lambda>_. 8) [] 10 3 120000000000 1 ?db = (Ok claimed, db')" "claimed \<noteq> []"
    by (simp add: claim_deliveries_def Let_def claim_batch_def claimable_def sample_queue_def sample_row_def
        delivery_is_claimable_def dependency_delivered_def update_where_def claimed_row_def claimed_of_def row_lease_def guard_def sample_part_def)
  from claims_take_the_oldest_claimable [OF ok c(1)] c show ?thesis by blast
qed

text \<open>
  The sweep ends every expired lease by what its parts prove. A stranded delivery loses its
  lease and is charged exactly one attempt; it becomes ambiguous when a request for one of its
  parts had started or was already ambiguous, a dead letter when it was cancelled or this was its
  last attempt, and retryable otherwise.
\<close>

theorem sweep_settles_every_expired_lease:
  assumes "queue_ok now db" and "r \<in> set (q_deliveries db)" and "lease_expired now r"
  shows "\<exists>r' \<in> set (q_deliveries (snd (reap_expired_leases_on now [] random db))).
    d_id r' = d_id r \<and> d_attempt_count r' = d_attempt_count r + 1 \<and> d_execution_id r' = None
    \<and> d_status r' =
       (if \<exists>p \<in> set (q_parts db). p_delivery_id p = d_id r \<and> p_status p \<in> {Part_Sending, Part_OutcomeUnknown}
        then Delivery_OutcomeUnknown
        else if d_cancellation_requested_at r \<noteq> None \<or> d_attempt_count r + 1 \<ge> d_max_attempts r
        then Delivery_DeadLetter else Delivery_Retryable)"
proof -
  obtain r' where "r' \<in> set (q_deliveries (snd (reap_expired_leases_on now [] random db)))" "d_id r' = d_id r"
    "d_status r' = swept_status db r" "d_attempt_count r' = d_attempt_count r + 1" "d_execution_id r' = None"
    using sweep_row [OF assms, of random] by blast
  then show ?thesis unfolding swept_status_def by (intro bexI [of _ r']) simp_all
qed

theorem sweep_settles_every_expired_lease_witness:
  "\<exists>r' \<in> set (q_deliveries (snd (reap_expired_leases_on 200 [] (\<lambda>_. 0)
     (sample_queue Delivery_Sending (Some 7) 5 Part_Sending)))). d_status r' = Delivery_OutcomeUnknown"
proof -
  let ?db = "sample_queue Delivery_Sending (Some 7) 5 Part_Sending"
  have ok: "queue_ok 200 ?db" by (rule queue_ok_later [OF sample_sending_ok, of 5]) simp_all
  have r: "sample_row Delivery_Sending (Some 7) 5 \<in> set (q_deliveries ?db)" by (simp add: sample_queue_def)
  have "lease_expired 200 (sample_row Delivery_Sending (Some 7) 5)" by (simp add: lease_expired_def sample_row_def)
  from sweep_settles_every_expired_lease [OF ok r this, of "\<lambda>_. 0"] show ?thesis
    by (auto simp: sample_queue_def sample_part_def sample_row_def)
qed

text \<open>
  Recording an outcome leaves the parent where its parts put it: the reported status is the
  one the parts have after the write, a report that the delivery is delivered means that every
  part is, a report that it may be claimed again means that nothing of it is in flight,
  ambiguous or dead and something is still unsent, and the stored row has the reported status
  unless the retry used up the last attempt, when it is a dead letter.
\<close>

theorem completed_parts_settle_the_parent:
  assumes "queue_ok now db" and "complete_part now random fence part outcome db = (Applied s, db')"
  shows "(s = Delivery_Delivered \<longrightarrow> set (part_statuses (lease_row fence) db') = {Part_Delivered})
    \<and> (delivery_is_claimable s \<longrightarrow>
        set (part_statuses (lease_row fence) db') \<subseteq> {Part_Delivered, Part_Prepared, Part_Retryable}
        \<and> (\<exists>p \<in> set (part_statuses (lease_row fence) db'). is_unfinished p))
    \<and> (\<exists>r' \<in> set (q_deliveries db'). d_id r' = lease_row fence \<and> (d_status r' = s \<or>
        s = Delivery_Retryable \<and> d_status r' = Delivery_DeadLetter \<and> d_attempt_count r' = d_max_attempts r'))"
proof -
  note settled = complete_part_Applied [OF assms]
  have "set (part_statuses (lease_row fence) db') = {Part_Delivered}" if "s = Delivery_Delivered"
    using that settled next_status_cases(2) [of outcome] by (cases "part_statuses (lease_row fence) db'") auto
  then show ?thesis using settled next_status_cases(1) [of outcome] by auto
qed

theorem completed_parts_settle_the_parent_witness:
  "\<exists>db'. complete_part 50 (\<lambda>_. 0) sample_lease 2 (Sent_Delivered None) (sample_queue Delivery_Sending (Some 7) 5 Part_Sending)
      = (Applied Delivery_Delivered, db') \<and> set (part_statuses 1 db') = {Part_Delivered}"
proof -
  let ?db = "sample_queue Delivery_Sending (Some 7) 5 Part_Sending"
  have ok: "queue_ok 50 ?db" by (rule queue_ok_later [OF sample_sending_ok, of 5]) simp_all
  obtain db' where "complete_part 50 (\<lambda>_. 0) sample_lease 2 (Sent_Delivered None) ?db = (Applied Delivery_Delivered, db')"
    by (simp add: completion_steps aggregate_parent_status_def)
  with completed_parts_settle_the_parent [OF ok this] show ?thesis by (simp add: sample_lease_def)
qed

text \<open>
  C36. The outcome of a recorded part is where the parts put the parent, not always where the row
  is. When a worker that holds an uncancelled delivery records a retryable refusal of a part in
  flight, the other parts being delivered or still unsent, and this was the last attempt, then it
  is told that the delivery is retryable although the committed row is a dead letter.
\<close>

theorem reported_retry_may_be_a_dead_letter:
  assumes "queue_ok now db" and "r \<in> set (q_deliveries db)" and "own_row_fence fence r"
    and "d_cancellation_requested_at r = None" and "d_attempt_count r + 1 = d_max_attempts r"
    and "p \<in> set (q_parts db)" and "p_delivery_id p = d_id r" and "p_status p = Part_Sending"
    and "\<forall>q \<in> set (q_parts db). p_delivery_id q = d_id r \<and> q \<noteq> p \<longrightarrow>
      p_status q \<in> {Part_Delivered, Part_Prepared, Part_Retryable}"
  shows "fst (complete_part now random fence (p_id p) (Sent_Retryable failure detail) db) = Applied Delivery_Retryable
    \<and> (\<exists>r' \<in> set (q_deliveries (snd (complete_part now random fence (p_id p) (Sent_Retryable failure detail) db))).
        d_id r' = d_id r \<and> d_status r' = Delivery_DeadLetter)"
proof -
  have id: "d_id r = lease_row fence" using assms(3) by (simp add: own_row_fence_def)
  let ?r = "attempt_failed_set now random (Some failure) (Some detail) r"
  have "d_id ?r = d_id r" "d_status ?r = Delivery_DeadLetter"
    using assms(5) by (simp_all add: attempt_failed_set_def clear_lease_def)
  then show ?thesis
    using refused_parent [OF assms(1-4,6) assms(7) [unfolded id] assms(8), where random = random and failure = failure and detail = detail]
      assms(9) id by (metis (no_types, lifting))
qed

theorem reported_retry_may_be_a_dead_letter_witness:
  "\<exists>r' \<in> set (q_deliveries (snd (complete_part 50 (\<lambda>_. 0) sample_lease 2 (Sent_Retryable ProviderFault ''busy'')
      (sample_queue Delivery_Sending (Some 7) 1 Part_Sending)))). d_status r' = Delivery_DeadLetter"
proof -
  let ?db = "sample_queue Delivery_Sending (Some 7) 1 Part_Sending"
  have ok: "queue_ok 50 ?db" by (rule queue_ok_later [OF sample_sending_ok, of 1]) simp_all
  have r: "sample_row Delivery_Sending (Some 7) 1 \<in> set (q_deliveries ?db)" by (simp add: sample_queue_def)
  from reported_retry_may_be_a_dead_letter [OF ok r sample_fenced, of "sample_part Part_Sending" "\<lambda>_. 0" ProviderFault "''busy''"]
  show ?thesis by (auto simp: sample_row_def sample_part_def sample_queue_def)
qed

text \<open>
  The delay the database computes for a retry stays within the jitter of the curve that the
  policy states, and so never falls below eight tenths of it nor exceeds the cap by more than a
  fifth.
\<close>

theorem stored_backoff_follows_the_policy:
  assumes "0 \<le> attempts" and "0 \<le> r" and "r \<le> 1"
  shows "800000000 * delay_after DeliveryBackoff_DEFAULT attempts \<le> retry_delay attempts r
    \<and> retry_delay attempts r \<le> 1200000000 * delay_after DeliveryBackoff_DEFAULT attempts
    \<and> retry_delay attempts r \<le> 720 * 1000000000"
proof -
  define d where "d = min 600 (2 * 2 ^ nat (min attempts 16) :: int)"
  have "(2::int) ^ nat (min attempts 16) \<le> 2 ^ 16" by (rule power_increasing) auto
  then have d: "delay_after DeliveryBackoff_DEFAULT attempts = d"
    using assms(1) by (simp add: delay_after_def DeliveryBackoff_DEFAULT_def d_def Let_def max_def min_def)
  have d0: "0 \<le> d" "d \<le> 600" by (simp_all add: d_def)
  define x where "x = of_int d * (8 / 10 + r * (4 / 10)) * (1000000::rat)"
  have delay: "retry_delay attempts r = round x * 1000"
    by (simp add: retry_delay_def DeliveryBackoff_DEFAULT_def x_def d_def Let_def)
  have "of_int (800000 * d) \<le> x" "x \<le> of_int (1200000 * d)"
    using mult_nonneg_nonneg [of "of_int d" r] mult_left_mono [OF assms(3), of "of_int d"] assms(2) d0
    by (simp_all add: x_def algebra_simps)
  then have "round (of_int (800000 * d) :: rat) \<le> round x" "round x \<le> round (of_int (1200000 * d) :: rat)"
    by (auto intro: round_mono)
  then have "800000 * d \<le> round x" "round x \<le> 1200000 * d" by (simp_all only: round_of_int)
  then show ?thesis using d0(2) by (simp add: delay d)
qed

theorem stored_backoff_follows_the_policy_witness:
  "retry_delay 1 0 \<le> 720 * 1000000000 \<and> 3200000000 \<le> retry_delay 1 0"
  using stored_backoff_follows_the_policy [of 1 0] by (simp add: delay_after_def DeliveryBackoff_DEFAULT_def)

end
