(* ===== verification/Fair_Order.thy ===== *)
theory Fair_Order
  imports Prelude "HOL-Library.Multiset"
begin

text \<open>
  Interleaving a claimed batch by tenant, as the workers of both durable queues do
  (\<open>fair_order\<close> in \<open>src/src/application/services/delivery_worker.rs\<close> and
  \<open>inbound_event_worker.rs\<close>): rows are grouped by a scope in order of first appearance, then
  passes take up to \<open>share\<close> rows of every group until a pass moves nothing. What a worker
  relies on is stated once, in the locale \<open>fair_batch\<close>.
\<close>

section \<open>Grouping\<close>

type_synonym ('k, 'a) groups = "('k \<times> 'a list) list"

text \<open>
  One iteration of the grouping loop: \<open>index\<close> is the hash map from a scope to the position of
  its group. A position out of range would panic.
\<close>

definition group_insert ::
    "('a \<Rightarrow> 'k) \<Rightarrow> 'a \<Rightarrow> ('k, 'a) groups \<times> ('k \<rightharpoonup> nat) \<Rightarrow> (('k, 'a) groups \<times> ('k \<rightharpoonup> nat), unit) outcome" where
  "group_insert scope x s =
     (case s of (groups, index) \<Rightarrow>
        (case index (scope x) of
           Some position \<Rightarrow>
             if position < length groups
             then Ok (groups[position := (fst (groups ! position), snd (groups ! position) @ [x])], index)
             else Panic
         | None \<Rightarrow> Ok (groups @ [(scope x, [x])], index(scope x \<mapsto> length groups))))"

definition group_by ::
    "('a \<Rightarrow> 'k) \<Rightarrow> 'a list \<Rightarrow> (('k, 'a) groups, unit) outcome" where
  "group_by scope xs = bindr (for_each (group_insert scope) xs ([], Map.empty)) (\<lambda>s. Ok (fst s))"

section \<open>Passes\<close>

text \<open>One pass over the groups: what it moves, and what is left.\<close>

definition drain_pass :: "nat \<Rightarrow> ('k, 'a) groups \<Rightarrow> 'a list" where
  "drain_pass share groups = concat (map (\<lambda>g. take (min (length (snd g)) share) (snd g)) groups)"

definition drain_left :: "nat \<Rightarrow> ('k, 'a) groups \<Rightarrow> ('k, 'a) groups" where
  "drain_left share groups = map (\<lambda>g. (fst g, drop (min (length (snd g)) share) (snd g))) groups"

definition group_total :: "('k, 'a) groups \<Rightarrow> nat" where
  "group_total groups = sum_list (map (\<lambda>g. length (snd g)) groups)"

lemma drain_split: "group_total groups = length (drain_pass share groups) + group_total (drain_left share groups)"
  by (induction groups) (auto simp: group_total_def drain_pass_def drain_left_def)

lemma drain_left_smaller: "drain_pass share groups \<noteq> [] \<Longrightarrow> group_total (drain_left share groups) < group_total groups"
  using drain_split [of groups share] by simp

function drain_rounds :: "nat \<Rightarrow> ('k, 'a) groups \<Rightarrow> 'a list \<Rightarrow> 'a list" where
  "drain_rounds share groups ordered =
     (let ordered' = ordered @ drain_pass share groups in
      if length ordered' = length ordered then ordered'
      else drain_rounds share (drain_left share groups) ordered')"
  by pat_completeness auto
termination
  by (relation "measure (\<lambda>(_, groups, _). group_total groups)") (auto intro: drain_left_smaller)

declare drain_rounds.simps [simp del]

definition interleave :: "('a \<Rightarrow> 'k) \<Rightarrow> nat \<Rightarrow> 'a list \<Rightarrow> ('a list, unit) outcome" where
  "interleave scope share xs = bindr (group_by scope xs) (\<lambda>groups. Ok (drain_rounds share groups []))"

section \<open>What grouping keeps\<close>

definition of_scope :: "('a \<Rightarrow> 'k) \<Rightarrow> 'k \<Rightarrow> 'a list \<Rightarrow> 'a list" where
  "of_scope scope k xs = filter (\<lambda>x. scope x = k) xs"

lemma of_scope_simps [simp]:
  "of_scope scope k [] = []"
  "of_scope scope k (xs @ ys) = of_scope scope k xs @ of_scope scope k ys"
  "of_scope scope k (x # xs) = (if scope x = k then x # of_scope scope k xs else of_scope scope k xs)"
  by (simp_all add: of_scope_def)

text \<open>
  The groups of the rows seen so far: distinct scopes, each with its rows in the order they
  came, every row in its group, and the index exact.
\<close>

definition grouped :: "('a \<Rightarrow> 'k) \<Rightarrow> 'a list \<Rightarrow> ('k, 'a) groups \<Rightarrow> bool" where
  "grouped scope xs groups \<longleftrightarrow> distinct (map fst groups) \<and> (\<forall>x \<in> set xs. scope x \<in> fst ` set groups)
     \<and> (\<forall>g \<in> set groups. snd g = of_scope scope (fst g) xs)"

definition index_exact :: "('k, 'a) groups \<Rightarrow> ('k \<rightharpoonup> nat) \<Rightarrow> bool" where
  "index_exact groups index \<longleftrightarrow> (\<forall>k i. index k = Some i \<longleftrightarrow> i < length groups \<and> fst (groups ! i) = k)"

lemma group_insert_keeps:
  assumes "grouped scope xs groups" and "index_exact groups index"
  shows "\<exists>groups' index'. group_insert scope x (groups, index) = Ok (groups', index')
    \<and> grouped scope (xs @ [x]) groups' \<and> index_exact groups' index'"
proof (cases "index (scope x)")
  case None
  then have none: "fst (groups ! i) \<noteq> scope x" if "i < length groups" for i
    using assms(2) that by (metis index_exact_def option.distinct(1))
  then have new: "scope x \<notin> fst ` set groups" by (metis (no_types, lifting) imageE in_set_conv_nth)
  then have "\<forall>y \<in> set xs. scope y \<noteq> scope x" using assms(1) unfolding grouped_def by metis
  then have "of_scope scope (scope x) xs = []" by (simp add: of_scope_def filter_empty_conv)
  moreover have "fst g \<noteq> scope x" if "g \<in> set groups" for g using new imageI [OF that, of fst] by metis
  ultimately have "grouped scope (xs @ [x]) (groups @ [(scope x, [x])])"
    using assms(1) new by (auto simp: grouped_def)
  moreover have "index_exact (groups @ [(scope x, [x])]) (index(scope x \<mapsto> length groups))"
    using assms(2) none by (auto simp: index_exact_def nth_append less_Suc_eq)
  ultimately show ?thesis using None by (simp add: group_insert_def)
next
  case (Some i)
  then have i: "i < length groups" "fst (groups ! i) = scope x" using assms(2) by (auto simp: index_exact_def)
  let ?gs = "groups[i := (fst (groups ! i), snd (groups ! i) @ [x])]"
  have keys: "map fst ?gs = map fst groups" using i(1) by (simp add: map_update list_update_same_conv)
  have other: "fst g \<noteq> scope x" if "j < length groups" "j \<noteq> i" "g = groups ! j" for g j
    using assms(1) i that nth_eq_iff_index_eq [of "map fst groups" j i] by (auto simp: grouped_def)
  have "snd g = of_scope scope (fst g) (xs @ [x])" if g: "g \<in> set ?gs" for g
  proof -
    obtain j where j: "j < length groups" "g = ?gs ! j" using g by (metis in_set_conv_nth length_list_update)
    have "snd (groups ! j) = of_scope scope (fst (groups ! j)) xs"
      using assms(1) j(1) by (simp add: grouped_def)
    then show ?thesis using j i other [OF j(1), of "groups ! j"] by (cases "j = i") auto
  qed
  moreover have "fst ` set ?gs = fst ` set groups" using keys by (metis list.set_map)
  ultimately have "grouped scope (xs @ [x]) ?gs"
    using assms(1) i keys by (auto simp: grouped_def image_iff) (metis i(1) i(2) nth_mem)
  moreover have "index_exact ?gs index"
    using assms(2) i by (auto simp: index_exact_def nth_list_update)
  ultimately show ?thesis using Some i by (simp add: group_insert_def)
qed

lemma group_loop:
  assumes "grouped scope xs groups" and "index_exact groups index"
  shows "\<exists>groups' index'. for_each (group_insert scope) ys (groups, index) = Ok (groups', index')
    \<and> grouped scope (xs @ ys) groups'"
  using assms
proof (induction ys arbitrary: xs groups index)
  case (Cons y ys)
  from group_insert_keeps [OF Cons.prems, of y] obtain gs ix where
    "group_insert scope y (groups, index) = Ok (gs, ix)" "grouped scope (xs @ [y]) gs" "index_exact gs ix"
    by blast
  with Cons.IH [of "xs @ [y]" gs ix] show ?case by simp
qed simp

lemma group_by_Ok: "\<exists>groups. group_by scope xs = Ok groups \<and> grouped scope xs groups"
  using group_loop [of scope "[]" "[]" Map.empty xs]
  by (auto simp: group_by_def grouped_def index_exact_def)

section \<open>What the passes keep\<close>

text \<open>Groups whose rows all have the scope of the group.\<close>

definition scoped :: "('a \<Rightarrow> 'k) \<Rightarrow> ('k, 'a) groups \<Rightarrow> bool" where
  "scoped scope groups \<longleftrightarrow> distinct (map fst groups) \<and> (\<forall>g \<in> set groups. \<forall>x \<in> set (snd g). scope x = fst g)"

lemma scoped_left: "scoped scope groups \<Longrightarrow> scoped scope (drain_left share groups)"
  by (auto simp: scoped_def drain_left_def comp_def dest: in_set_dropD)

lemma of_scope_all: "\<forall>x \<in> set xs. scope x = k \<Longrightarrow> of_scope scope k xs = xs"
  by (simp add: of_scope_def)

lemma of_scope_none: "\<forall>x \<in> set xs. scope x = k' \<Longrightarrow> k' \<noteq> k \<Longrightarrow> of_scope scope k xs = []"
  by (simp add: of_scope_def filter_empty_conv)

definition rows_of :: "'k \<Rightarrow> ('k, 'a) groups \<Rightarrow> 'a list" where
  "rows_of k groups = concat (map (\<lambda>g. if fst g = k then snd g else []) groups)"

lemma rows_of_Cons: "rows_of k (g # gs) = (if fst g = k then snd g else []) @ rows_of k gs"
  by (simp add: rows_of_def)

lemma drain_pass_Cons: "drain_pass share (g # gs) = take share (snd g) @ drain_pass share gs"
  by (simp add: drain_pass_def min_def)

lemma rows_of_key: "distinct (map fst groups) \<Longrightarrow> g \<in> set groups \<Longrightarrow> rows_of (fst g) groups = snd g"
proof (induction groups)
  case (Cons h hs)
  have "rows_of k hs = []" if "k \<notin> fst ` set hs" for k
    using that by (induction hs) (auto simp: rows_of_def)
  then show ?case using Cons by (cases "g = h") (auto simp: rows_of_def)
qed simp

lemma rows_of_none: "k \<notin> fst ` set groups \<Longrightarrow> rows_of k groups = []"
  by (induction groups) (auto simp: rows_of_def)

lemma rows_of_left:
  assumes "distinct (map fst groups)"
  shows "rows_of k (drain_left share groups) = drop share (rows_of k groups)"
proof (cases "k \<in> fst ` set groups")
  case True
  then obtain g where g: "g \<in> set groups" "k = fst g" by auto
  let ?h = "(fst g, drop (min (length (snd g)) share) (snd g))"
  have "?h \<in> set (drain_left share groups)" using g by (auto simp: drain_left_def)
  moreover have "distinct (map fst (drain_left share groups))" using assms by (simp add: drain_left_def comp_def)
  ultimately have "rows_of (fst ?h) (drain_left share groups) = snd ?h" by (rule rows_of_key [rotated])
  then show ?thesis using rows_of_key [OF assms g(1)] g(2) by (simp add: min_def)
next
  case False
  then have "k \<notin> fst ` set (drain_left share groups)" by (force simp: drain_left_def)
  then show ?thesis using False by (simp add: rows_of_none)
qed

lemma of_scope_pass:
  assumes "scoped scope groups"
  shows "of_scope scope k (drain_pass share groups) = take share (rows_of k groups)"
  using assms
proof (induction groups)
  case (Cons g gs)
  have same: "of_scope scope k (take n (snd g)) = (if fst g = k then take n (snd g) else [])" for n
    using Cons.prems by (auto simp: scoped_def intro!: of_scope_all of_scope_none dest: in_set_takeD)
  have rest: "rows_of k gs = []" if "fst g = k"
    using Cons.prems that by (intro rows_of_none) (auto simp: scoped_def)
  have "of_scope scope k (drain_pass share gs) = take share (rows_of k gs)"
    using Cons by (simp add: scoped_def)
  then show ?case using same rest by (simp add: drain_pass_Cons rows_of_Cons)
qed (simp add: drain_pass_def rows_of_def)

lemma drain_rounds_acc: "drain_rounds share groups ordered = ordered @ drain_rounds share groups []"
proof (induction "group_total groups" arbitrary: groups ordered rule: less_induct)
  case less
  let ?p = "drain_pass share groups" and ?left = "drain_left share groups"
  show ?case
  proof (cases "?p = []")
    case True
    then show ?thesis by (simp add: drain_rounds.simps [of share groups])
  next
    case False
    then have "drain_rounds share ?left zs = zs @ drain_rounds share ?left []" for zs
      using less drain_left_smaller by blast
    from this [of ?p] this [of "ordered @ ?p"] show ?thesis
      using False by (simp add: drain_rounds.simps [of share groups])
  qed
qed

lemma drain_rounds_unfold:
  "drain_rounds share groups [] =
     (if drain_pass share groups = [] then [] else drain_pass share groups @ drain_rounds share (drain_left share groups) [])"
  by (subst drain_rounds.simps) (simp add: Let_def drain_rounds_acc [of share _ "drain_pass share groups"])

lemma drain_rounds_induct:
  assumes "\<And>groups. (drain_pass share groups \<noteq> [] \<Longrightarrow> P (drain_left share groups)) \<Longrightarrow> P groups"
  shows "P groups"
proof (induction "group_total groups" arbitrary: groups rule: less_induct)
  case less
  then show ?case using assms drain_left_smaller by blast
qed

section \<open>The interface\<close>

text \<open>
  What a worker relies on: the batch is permuted, the rows of one scope keep their order, and
  before the row that has \<open>n\<close> of its own scope ahead of it, no other scope has had more than
  \<open>share\<close> rows in each of the \<open>n div share + 1\<close> passes so far.
\<close>

locale fair_batch =
  fixes scope :: "'a \<Rightarrow> 'k" and share :: nat
  assumes share_positive: "0 < share"
begin

lemma rounds_of_scope:
  assumes "scoped scope groups"
  shows "of_scope scope k (drain_rounds share groups []) = rows_of k groups"
  using assms
proof (induction groups rule: drain_rounds_induct [where share = share])
  case (1 groups)
  note pass = of_scope_pass [OF 1(2), of k share]
  show ?case
  proof (cases "drain_pass share groups = []")
    case True
    then show ?thesis using pass share_positive by (simp add: drain_rounds_unfold [of share groups])
  next
    case False
    then have "of_scope scope k (drain_rounds share (drain_left share groups) []) = drop share (rows_of k groups)"
      using 1 scoped_left rows_of_left by (metis scoped_def)
    then show ?thesis using False pass by (simp add: drain_rounds_unfold [of share groups])
  qed
qed

lemma pass_share: "scoped scope groups \<Longrightarrow> length (of_scope scope k (drain_pass share groups)) \<le> share"
  by (simp add: of_scope_pass)

lemma rounds_fair:
  assumes "scoped scope groups" and "drain_rounds share groups [] = before @ y # after"
  shows "length (of_scope scope k before) \<le> share * (length (of_scope scope (scope y) before) div share + 1)"
  using assms
proof (induction groups arbitrary: before rule: drain_rounds_induct [where share = share])
  case (1 groups)
  let ?p = "drain_pass share groups" and ?rest = "drain_rounds share (drain_left share groups) []"
  have p: "?p \<noteq> []" and out: "?p @ ?rest = before @ y # after"
    using 1(3) by (auto simp: drain_rounds_unfold [of share groups] split: if_splits)
  then consider us where "?p = before @ us" | us where "before = ?p @ us" "?rest = us @ y # after"
    by (auto simp: append_eq_append_conv2)
  then show ?case
  proof cases
    case (1 us)
    then have "length (of_scope scope k before) \<le> share" using pass_share [OF \<open>scoped scope groups\<close>, of k] by simp
    also have "\<dots> \<le> share * (length (of_scope scope (scope y) before) div share + 1)" by simp
    finally show ?thesis .
  next
    case (2 us)
    have s: "scoped scope (drain_left share groups)" using scoped_left \<open>scoped scope groups\<close> by blast
    have "y \<in> set (of_scope scope (scope y) ?rest)" using 2(2) by (simp add: of_scope_def)
    then have "y \<in> set (rows_of (scope y) (drain_left share groups))" using rounds_of_scope [OF s] by simp
    then have "share < length (rows_of (scope y) groups)"
      using \<open>scoped scope groups\<close> by (auto simp: rows_of_left scoped_def dest: in_set_dropD) (metis drop_all empty_iff empty_set not_le)
    then have own: "length (of_scope scope (scope y) ?p) = share"
      by (simp add: of_scope_pass [OF \<open>scoped scope groups\<close>])
    have "length (of_scope scope k us) \<le> share * (length (of_scope scope (scope y) us) div share + 1)"
      using 1(1) [OF p s 2(2)] .
    moreover have "length (of_scope scope k ?p) \<le> share" using pass_share [OF \<open>scoped scope groups\<close>] .
    moreover have "(share + n) div share = n div share + 1" for n
      using share_positive div_add_self1 [of share n] by simp
    ultimately show ?thesis using own by (simp add: 2(1) add_mult_distrib2)
  qed
qed

lemma interleave_Ok: "\<exists>ordered. interleave scope share xs = Ok ordered"
  using group_by_Ok [of scope xs] by (auto simp: interleave_def)

lemma interleave_groups:
  assumes "interleave scope share xs = Ok ordered"
  shows "\<exists>groups. grouped scope xs groups \<and> scoped scope groups \<and> ordered = drain_rounds share groups []"
proof -
  obtain groups where g: "group_by scope xs = Ok groups" "grouped scope xs groups" using group_by_Ok by blast
  then have "scoped scope groups" by (auto simp: grouped_def scoped_def of_scope_def)
  with g assms show ?thesis by (auto simp: interleave_def)
qed

lemma interleave_scope:
  assumes "interleave scope share xs = Ok ordered"
  shows "of_scope scope k ordered = of_scope scope k xs"
proof -
  obtain groups where g: "grouped scope xs groups" "scoped scope groups" "ordered = drain_rounds share groups []"
    using interleave_groups [OF assms] by blast
  have "rows_of k groups = of_scope scope k xs"
  proof (cases "k \<in> fst ` set groups")
    case True
    then obtain h where "h \<in> set groups" "k = fst h" by auto
    then show ?thesis using g(1) rows_of_key [of groups h] by (simp add: grouped_def)
  next
    case False
    then have "of_scope scope k xs = []" using g(1) by (auto simp: grouped_def of_scope_def filter_empty_conv)
    then show ?thesis using False by (simp add: rows_of_none)
  qed
  then show ?thesis using rounds_of_scope [OF g(2)] g(3) by simp
qed

lemma interleave_permutes:
  assumes "interleave scope share xs = Ok ordered"
  shows "mset ordered = mset xs"
proof (rule multiset_eqI)
  fix x
  have "count (mset ys) x = count (mset (of_scope scope (scope x) ys)) x" for ys :: "'a list"
    by (induction ys) auto
  then show "count (mset ordered) x = count (mset xs) x" using interleave_scope [OF assms] by metis
qed

lemma interleave_fair:
  assumes "interleave scope share xs = Ok (before @ y # after)"
  shows "length (of_scope scope k before) \<le> share * (length (of_scope scope (scope y) before) div share + 1)"
  using interleave_groups [OF assms] rounds_fair by metis

end

end
