(* ===== verification/Bounded_Text.thy ===== *)
theory Bounded_Text
  imports Prelude "HOL-Library.Sublist"
begin

text \<open>
  Bounded texts of the transport layer: \<open>validate_bounded\<close> and \<open>bounded_string!\<close> in
  \<open>src/src/domain/entities/transport/mod.rs\<close>, and the two loops that cut an error message
  down to a text the queues accept, \<open>bounded_detail\<close> in
  \<open>src/src/application/services/delivery_worker.rs\<close> and \<open>inbound_event_worker.rs\<close>.
  A \<open>str\<close> is the list of its UTF-8 bytes.
\<close>

section \<open>Characters\<close>

definition byte_of :: "char \<Rightarrow> nat" where
  "byte_of c = of_char c"

text \<open>The low six bits of the \<open>i\<close>-th continuation byte.\<close>

definition continuation :: "nat \<Rightarrow> nat list \<Rightarrow> nat" where
  "continuation i bs = (if i < length bs then bs ! i mod 64 else 0)"

fun code_points :: "nat list \<Rightarrow> nat list" where
  "code_points [] = []"
| "code_points (b # bs) =
     (if b < 0x80 then b # code_points bs
      else if b < 0xE0 then ((b mod 32) * 64 + continuation 0 bs) # code_points (drop 1 bs)
      else if b < 0xF0
      then ((b mod 16) * 4096 + continuation 0 bs * 64 + continuation 1 bs) # code_points (drop 2 bs)
      else ((b mod 8) * 262144 + continuation 0 bs * 4096 + continuation 1 bs * 64 + continuation 2 bs)
             # code_points (drop 3 bs))"

definition str_chars :: "string \<Rightarrow> nat list" where
  "str_chars s = code_points (map byte_of s)"

text \<open>\<open>char::is_control\<close> is the category Cc, and \<open>char::is_whitespace\<close> the property \<open>White_Space\<close>.\<close>

definition is_control :: "nat \<Rightarrow> bool" where
  "is_control c \<longleftrightarrow> c < 0x20 \<or> 0x7F \<le> c \<and> c < 0xA0"

definition is_whitespace :: "nat \<Rightarrow> bool" where
  "is_whitespace c \<longleftrightarrow> 0x09 \<le> c \<and> c \<le> 0x0D \<or> c = 0x20 \<or> c = 0x85 \<or> c = 0xA0 \<or> c = 0x1680
     \<or> 0x2000 \<le> c \<and> c \<le> 0x200A \<or> c = 0x2028 \<or> c = 0x2029 \<or> c = 0x202F \<or> c = 0x205F \<or> c = 0x3000"

definition is_char_boundary :: "string \<Rightarrow> nat \<Rightarrow> bool" where
  "is_char_boundary s i \<longleftrightarrow> i = 0 \<or> i = length s
     \<or> i < length s \<and> \<not> (0x80 \<le> byte_of (s ! i) \<and> byte_of (s ! i) < 0xC0)"

text \<open>\<open>String::truncate\<close>: nothing beyond the end, and a panic inside a character.\<close>

definition str_truncate :: "string \<Rightarrow> nat \<Rightarrow> (string, 'e) outcome" where
  "str_truncate s n =
     (if n \<le> length s then if is_char_boundary s n then Ok (take n s) else Panic else Ok s)"

section \<open>Bounded strings\<close>

datatype transport_value_error = Value_Empty | Value_TooLong nat | Value_ControlCharacter

definition validate_bounded :: "string \<Rightarrow> nat \<Rightarrow> (unit, transport_value_error) outcome" where
  "validate_bounded s max_bytes =
     (if list_all is_whitespace (str_chars s) then Err Value_Empty
      else if length s > max_bytes then Err (Value_TooLong max_bytes)
      else if list_ex is_control (str_chars s) then Err Value_ControlCharacter
      else Ok ())"

definition bounded_parse :: "nat \<Rightarrow> string \<Rightarrow> (string, transport_value_error) outcome" where
  "bounded_parse max_bytes s = bindr (validate_bounded s max_bytes) (\<lambda>_. Ok s)"

definition MAX_FAILURE_DETAIL_BYTES :: nat where
  "MAX_FAILURE_DETAIL_BYTES = 512"

definition MAX_INBOUND_ERROR_DETAIL_BYTES :: nat where
  "MAX_INBOUND_ERROR_DETAIL_BYTES = 512"

section \<open>Cutting a message\<close>

text \<open>The delivery worker drops a quarter at a time.\<close>

function shrink_detail :: "string \<Rightarrow> (string, unit) outcome" where
  "shrink_detail s =
     (if \<not> is_ok (bounded_parse MAX_FAILURE_DETAIL_BYTES s) \<and> s \<noteq> []
      then bindr (str_truncate s (length s - (length s div 4 + 1))) shrink_detail
      else Ok s)"
  by pat_completeness auto
termination
  by (relation "measure length") (auto simp: str_truncate_def split: if_splits)

declare shrink_detail.simps [simp del]

definition bounded_detail :: "string \<Rightarrow> (string option, unit) outcome" where
  "bounded_detail message =
     bindr (shrink_detail message) (\<lambda>s.
     Ok (case bounded_parse MAX_FAILURE_DETAIL_BYTES s of Ok d \<Rightarrow> Some d | _ \<Rightarrow> None))"

text \<open>
  The inbound worker cuts at the limit. \<open>boundary_before\<close> is its inner loop; the outer loop may
  run for ever, and then has the value \<open>None\<close>.
\<close>

function boundary_before :: "string \<Rightarrow> nat \<Rightarrow> nat" where
  "boundary_before s e = (if \<not> is_char_boundary s e then boundary_before s (e - 1) else e)"
  by pat_completeness auto
termination
  by (relation "measure snd") (auto simp: is_char_boundary_def)

declare boundary_before.simps [simp del]

partial_function (option) inbound_detail_loop :: "string \<Rightarrow> string option" where
  "inbound_detail_loop detail =
     (if is_ok (bounded_parse MAX_INBOUND_ERROR_DETAIL_BYTES detail) then Some detail
      else
        let e = boundary_before detail (min (length detail) MAX_INBOUND_ERROR_DETAIL_BYTES);
            cut = take e detail
        in inbound_detail_loop (if cut = [] then cut @ ''Unclassified inbound event failure'' else cut))"

definition inbound_bounded_detail :: "string \<Rightarrow> (string, transport_value_error) outcome option" where
  "inbound_bounded_detail message =
     map_option (\<lambda>detail.
       (case bounded_parse MAX_INBOUND_ERROR_DETAIL_BYTES detail of Ok d \<Rightarrow> Ok d | _ \<Rightarrow> Panic))
     (inbound_detail_loop message)"

section \<open>Accepted texts\<close>

definition accepted :: "nat \<Rightarrow> string \<Rightarrow> bool" where
  "accepted n s \<longleftrightarrow> length s \<le> n \<and> \<not> list_all is_whitespace (str_chars s) \<and> \<not> list_ex is_control (str_chars s)"

lemma bounded_parse_eq_Ok: "bounded_parse n s = Ok t \<longleftrightarrow> accepted n s \<and> t = s"
  by (auto simp: bounded_parse_def validate_bounded_def accepted_def)

lemma parse_ok [simp]: "(\<exists>x. bounded_parse n s = Ok x) \<longleftrightarrow> accepted n s" "(\<forall>x. bounded_parse n s \<noteq> Ok x) \<longleftrightarrow> \<not> accepted n s"
  by (auto simp: bounded_parse_eq_Ok)

lemma not_accepted_empty [simp]: "\<not> accepted n []"
  by (simp add: accepted_def str_chars_def)

text \<open>In an ASCII text every byte is a character.\<close>

definition is_ascii :: "string \<Rightarrow> bool" where
  "is_ascii s \<longleftrightarrow> (\<forall>c \<in> set s. byte_of c < 0x80)"

lemma ascii_chars: "is_ascii s \<Longrightarrow> str_chars s = map byte_of s"
  unfolding str_chars_def by (induction s) (auto simp: is_ascii_def)

lemma ascii_boundary: "is_ascii s \<Longrightarrow> n \<le> length s \<Longrightarrow> is_char_boundary s n"
  by (auto simp: is_ascii_def is_char_boundary_def) (metis linorder_not_less nat_less_le nth_mem)

lemma ascii_take: "is_ascii s \<Longrightarrow> is_ascii (take n s)"
  by (auto simp: is_ascii_def dest: in_set_takeD)

section \<open>The delivery worker's loop\<close>

lemma ascii_first_accepted:
  assumes "is_ascii s" and "s \<noteq> []" and "\<not> is_whitespace (byte_of (hd s))" and "\<not> is_control (byte_of (hd s))"
  shows "length s = 1 \<Longrightarrow> accepted MAX_FAILURE_DETAIL_BYTES s"
  using assms by (cases s) (auto simp: accepted_def ascii_chars MAX_FAILURE_DETAIL_BYTES_def)

lemma shrink_detail_prefix:
  assumes "is_ascii s" and "s \<noteq> []" and "\<not> is_whitespace (byte_of (hd s))" and "\<not> is_control (byte_of (hd s))"
  shows "\<exists>d. shrink_detail s = Ok d \<and> prefix d s \<and> accepted MAX_FAILURE_DETAIL_BYTES d"
  using assms
proof (induction s rule: shrink_detail.induct)
  case (1 s)
  show ?case
  proof (cases "accepted MAX_FAILURE_DETAIL_BYTES s")
    case True
    then show ?thesis by (simp add: shrink_detail.simps)
  next
    case False
    let ?n = "length s - (length s div 4 + 1)"
    have cut: "str_truncate s ?n = Ok (take ?n s)"
      using ascii_boundary [OF 1(2), of ?n] by (simp add: str_truncate_def)
    have "length s \<noteq> 1" using ascii_first_accepted [OF 1(2-)] False by blast
    then have "?n \<noteq> 0" using 1(3) by (cases "length s") auto
    then have "take ?n s \<noteq> []" "hd (take ?n s) = hd s" using 1(3) by (simp_all add: hd_take)
    with 1(1) [OF _ cut] False 1(2-) ascii_take obtain d where
      "shrink_detail (take ?n s) = Ok d" "prefix d (take ?n s)" "accepted MAX_FAILURE_DETAIL_BYTES d" by auto
    moreover have "shrink_detail s = shrink_detail (take ?n s)"
      using False 1(3) by (subst shrink_detail.simps) (simp only: cut bindr.simps is_ok_iff parse_ok simp_thms if_True)
    ultimately show ?thesis using take_is_prefix prefix_order.trans by metis
  qed
qed

section \<open>The inbound worker's loop\<close>

definition clip :: "string \<Rightarrow> string" where
  "clip s = take (boundary_before s (min (length s) MAX_INBOUND_ERROR_DETAIL_BYTES)) s"

lemma boundary_before_le: "boundary_before s e \<le> e"
  by (induction s e rule: boundary_before.induct) (subst boundary_before.simps, auto)

lemma boundary_before_end: "boundary_before s (length s) = length s"
  by (subst boundary_before.simps) (simp add: is_char_boundary_def)

lemma clip_length: "length (clip s) \<le> MAX_INBOUND_ERROR_DETAIL_BYTES"
  using boundary_before_le [of s "min (length s) MAX_INBOUND_ERROR_DETAIL_BYTES"] by (simp add: clip_def)

lemma clip_short: "length s \<le> MAX_INBOUND_ERROR_DETAIL_BYTES \<Longrightarrow> clip s = s"
  by (simp add: clip_def min_def boundary_before_end)

lemma clip_clip: "clip (clip s) = clip s"
  by (rule clip_short [OF clip_length])

lemma inbound_detail_loop_unfold:
  "inbound_detail_loop s =
     (if accepted MAX_INBOUND_ERROR_DETAIL_BYTES s then Some s
      else inbound_detail_loop (if clip s = [] then ''Unclassified inbound event failure'' else clip s))"
  by (subst inbound_detail_loop.simps) (simp add: clip_def Let_def)

text \<open>A cut text that is not accepted is cut to itself, for ever.\<close>

lemma inbound_detail_loop_stuck:
  assumes "inbound_detail_loop s = Some d"
  shows "clip s = s \<and> s \<noteq> [] \<longrightarrow> accepted MAX_INBOUND_ERROR_DETAIL_BYTES s"
proof (rule inbound_detail_loop.raw_induct
    [where P = "\<lambda>s d. clip s = s \<and> s \<noteq> [] \<longrightarrow> accepted MAX_INBOUND_ERROR_DETAIL_BYTES s", OF _ assms], intro impI, rule ccontr)
  fix loop s d
  assume IH: "\<And>s d. loop s = Some d \<Longrightarrow> clip s = s \<and> s \<noteq> [] \<longrightarrow> accepted MAX_INBOUND_ERROR_DETAIL_BYTES s"
    and step: "(if is_ok (bounded_parse MAX_INBOUND_ERROR_DETAIL_BYTES s) then Some s
      else let e = boundary_before s (min (length s) MAX_INBOUND_ERROR_DETAIL_BYTES); cut = take e s
        in loop (if cut = [] then cut @ ''Unclassified inbound event failure'' else cut)) = Some d"
    and s: "clip s = s \<and> s \<noteq> []" and refused: "\<not> accepted MAX_INBOUND_ERROR_DETAIL_BYTES s"
  have "loop (if clip s = [] then clip s @ ''Unclassified inbound event failure'' else clip s) = Some d"
    using step refused by (simp only: clip_def Let_def is_ok_iff parse_ok if_False)
  then have "loop s = Some d" using s by simp
  then show False using IH s refused by blast
qed

lemma unclassified_accepted: "accepted MAX_INBOUND_ERROR_DETAIL_BYTES ''Unclassified inbound event failure''"
  by (simp add: accepted_def str_chars_def byte_of_def MAX_INBOUND_ERROR_DETAIL_BYTES_def is_whitespace_def is_control_def)

lemma inbound_detail_loop_value:
  "inbound_detail_loop s =
     (if clip s = [] then Some ''Unclassified inbound event failure''
      else if accepted MAX_INBOUND_ERROR_DETAIL_BYTES (clip s) then Some (clip s) else None)"
proof (cases "accepted MAX_INBOUND_ERROR_DETAIL_BYTES s")
  case True
  then have "clip s = s" by (intro clip_short) (simp add: accepted_def)
  then show ?thesis using True not_accepted_empty inbound_detail_loop_unfold [of s] by metis
next
  case False
  have fixed: "inbound_detail_loop t = Some t" if "accepted MAX_INBOUND_ERROR_DETAIL_BYTES t" for t
    using that by (simp add: inbound_detail_loop_unfold [of t])
  have stuck: "inbound_detail_loop (clip s) = None"
    if "clip s \<noteq> []" "\<not> accepted MAX_INBOUND_ERROR_DETAIL_BYTES (clip s)"
    using inbound_detail_loop_stuck [of "clip s"] that clip_clip by (cases "inbound_detail_loop (clip s)") auto
  show ?thesis
    using inbound_detail_loop_unfold [of s] False fixed unclassified_accepted stuck by simp
qed

lemma inbound_detail_stuck:
  assumes "length s \<le> MAX_INBOUND_ERROR_DETAIL_BYTES" and "list_ex is_control (str_chars s)"
  shows "inbound_bounded_detail s = None"
proof -
  have "s \<noteq> []" using assms(2) by (auto simp: str_chars_def)
  then show ?thesis
    using assms by (simp add: inbound_bounded_detail_def inbound_detail_loop_value clip_short accepted_def)
qed

section \<open>Properties\<close>

text \<open>
  The detail the delivery worker records is a cut of the message and is never dropped: for
  an ASCII message that does not begin with a blank or a control character the loop ends without
  a panic, with a non-empty prefix of the message that the queue accepts, and with the whole
  message when that is acceptable.
\<close>

theorem delivery_details_are_cut_not_dropped:
  assumes "is_ascii s" and "s \<noteq> []" and "\<not> is_whitespace (byte_of (hd s))" and "\<not> is_control (byte_of (hd s))"
  shows "\<exists>d. bounded_detail s = Ok (Some d) \<and> prefix d s \<and> d \<noteq> [] \<and> length d \<le> MAX_FAILURE_DETAIL_BYTES
    \<and> (validate_bounded s MAX_FAILURE_DETAIL_BYTES = Ok () \<longrightarrow> d = s)"
proof -
  obtain d where d: "shrink_detail s = Ok d" "prefix d s" "accepted MAX_FAILURE_DETAIL_BYTES d"
    using shrink_detail_prefix [OF assms] by blast
  have "bounded_parse MAX_FAILURE_DETAIL_BYTES d = Ok d" using d(3) by (simp add: bounded_parse_eq_Ok)
  then have "bounded_detail s = Ok (Some d)" using d(1) by (simp add: bounded_detail_def)
  moreover have "d \<noteq> []" "length d \<le> MAX_FAILURE_DETAIL_BYTES" using d(3) by (auto simp: accepted_def str_chars_def)
  moreover have "d = s" if "validate_bounded s MAX_FAILURE_DETAIL_BYTES = Ok ()"
    using that d(1) by (subst (asm) shrink_detail.simps) (simp add: bounded_parse_def)
  ultimately show ?thesis using d(2) by blast
qed

theorem delivery_details_are_cut_not_dropped_witness:
  "\<exists>d. bounded_detail ''No email adapter is configured'' = Ok (Some d) \<and> prefix d ''No email adapter is configured''"
proof -
  have "is_ascii ''No email adapter is configured''" by (simp add: is_ascii_def byte_of_def)
  moreover have "\<not> is_whitespace (byte_of (hd ''No email adapter is configured''))"
    "\<not> is_control (byte_of (hd ''No email adapter is configured''))"
    by (simp_all add: byte_of_def is_whitespace_def is_control_def)
  ultimately show ?thesis using delivery_details_are_cut_not_dropped [of "''No email adapter is configured''"] by auto
qed

text \<open>
  The loop by which the inbound worker bounds an error detail ends exactly when the message,
  cut at the last character boundary within the limit, is empty or acceptable; then its value is
  that cut, or a fixed text in place of an empty one. In every other case (a control character
  or only blanks within the limit) it repeats the same cut for ever.
\<close>

theorem inbound_detail_returns_exactly:
  "inbound_bounded_detail s =
     (if clip s = [] then Some (Ok ''Unclassified inbound event failure'')
      else if validate_bounded (clip s) MAX_INBOUND_ERROR_DETAIL_BYTES = Ok () then Some (Ok (clip s))
      else None)"
proof -
  have "validate_bounded t MAX_INBOUND_ERROR_DETAIL_BYTES = Ok () \<longleftrightarrow> accepted MAX_INBOUND_ERROR_DETAIL_BYTES t" for t
    by (auto simp: validate_bounded_def accepted_def)
  moreover have "bounded_parse MAX_INBOUND_ERROR_DETAIL_BYTES t = Ok t" if "accepted MAX_INBOUND_ERROR_DETAIL_BYTES t" for t
    using that by (simp add: bounded_parse_eq_Ok)
  ultimately show ?thesis
    using unclassified_accepted by (simp add: inbound_bounded_detail_def inbound_detail_loop_value)
qed

end
