(* ===== verification/Delivery_Worker.thy ===== *)
theory Delivery_Worker
  imports Delivery_Protocol Fair_Order Bounded_Text
begin

text \<open>
  The worker that drains the delivery queue: \<open>src/src/application/services/delivery_worker.rs\<close>.

  The worker runs against the queue of \<open>Delivery_Queue\<close> while others use it too. Each await of
  the worker is one \<open>tick\<close> of its surroundings: the transactions of others that commit before its
  own, the database's clock and generated values, whether the reply arrives, whether a shutdown
  is pending, what the workflow side admits, and what the provider answers. The surroundings
  are a function of the tick's number, so nothing about them is fixed in advance. The world keeps
  the tables, every transaction so far, and every request handed to a provider. Log lines and
  metrics are left out.
\<close>

section \<open>The surroundings\<close>

text \<open>A storage call answers, or fails before or after its transaction committed.\<close>

datatype reply = Answered | Failed_Before | Failed_After

datatype provider_event =
    Provider_Answers provider_send_outcome
  | Provider_Shutdown
  | Provider_Timeout

record tick =
  tick_others :: "timed_event list"
  tick_now :: instant
  tick_reply :: reply
  tick_shutdown :: bool
  tick_admission :: workflow_delivery_admission
  tick_expired :: bool
  tick_random :: "uuid \<Rightarrow> rat"
  tick_fresh :: "uuid \<Rightarrow> uuid"
  tick_skipped :: "uuid list"
  tick_readable :: "delivery_db \<Rightarrow> part_db list \<Rightarrow> bool"
  tick_provider :: provider_event

type_synonym surroundings = "nat \<Rightarrow> tick"

record world =
  w_db :: queue_db
  w_step :: nat
  w_history :: "timed_event list"
  w_requests :: "(execution_lease \<times> uuid) list"

definition run_events :: "timed_event list \<Rightarrow> queue_db \<Rightarrow> queue_db" where
  "run_events es db = foldl (\<lambda>db e. perform_at (fst e) (snd e) db) db es"

text \<open>The transactions \<open>es\<close> commit, and the tick is over.\<close>

definition after_events :: "timed_event list \<Rightarrow> world \<Rightarrow> world" where
  "after_events es w = w\<lparr>w_db := run_events es (w_db w), w_step := Suc (w_step w),
     w_history := w_history w @ es\<rparr>"

definition storage_call ::
    "surroundings \<Rightarrow> (tick \<Rightarrow> queue_event) \<Rightarrow> (tick \<Rightarrow> queue_db \<Rightarrow> 'a) \<Rightarrow> world \<Rightarrow> 'a option \<times> world" where
  "storage_call env event result w =
     (let t = env (w_step w);
          committed = after_events (tick_others t @ [(tick_now t, event t)]) w
      in case tick_reply t of
           Answered \<Rightarrow> (Some (result t (run_events (tick_others t) (w_db w))), committed)
         | Failed_Before \<Rightarrow> (None, after_events (tick_others t) w)
         | Failed_After \<Rightarrow> (None, committed))"

definition shutdown_requested :: "surroundings \<Rightarrow> world \<Rightarrow> bool \<times> world" where
  "shutdown_requested env w = (tick_shutdown (env (w_step w)), after_events [] w)"

section \<open>Calls of the queue\<close>

definition call_claim ::
    "surroundings \<Rightarrow> uuid \<Rightarrow> nat \<Rightarrow> world \<Rightarrow> (claimed_delivery list, queue_error) outcome option \<times> world" where
  "call_claim env owner lease_for w = storage_call env
     (\<lambda>t. Claim (tick_readable t) (tick_fresh t) (tick_skipped t) owner lease_for (nat DELIVERY_CLAIM_BATCH))
     (\<lambda>t db. fst (claim_deliveries (tick_readable t) (tick_fresh t) (tick_skipped t) (tick_now t) owner lease_for
        (nat DELIVERY_CLAIM_BATCH) db)) w"

definition call_renew ::
    "surroundings \<Rightarrow> execution_lease list \<Rightarrow> nat \<Rightarrow> world \<Rightarrow> uuid list option \<times> world" where
  "call_renew env held lease_for w = storage_call env (\<lambda>t. Renew held lease_for)
     (\<lambda>t db. fst (renew_delivery_leases (tick_now t) held lease_for db)) w"

definition call_begin ::
    "surroundings \<Rightarrow> execution_lease \<Rightarrow> uuid \<Rightarrow> world \<Rightarrow> delivery_outcome option \<times> world" where
  "call_begin env lease part w = storage_call env (\<lambda>t. Begin (tick_admission t) (tick_expired t) lease part)
     (\<lambda>t db. fst (begin_part (tick_admission t) (tick_expired t) (tick_now t) lease part db)) w"

definition call_complete ::
    "surroundings \<Rightarrow> execution_lease \<Rightarrow> uuid \<Rightarrow> provider_send_outcome \<Rightarrow> world \<Rightarrow> delivery_outcome option \<times> world" where
  "call_complete env lease part outcome w = storage_call env (\<lambda>t. Complete (tick_random t) lease part outcome)
     (\<lambda>t db. fst (complete_part (tick_now t) (tick_random t) lease part outcome db)) w"

definition call_fail ::
    "surroundings \<Rightarrow> execution_lease \<Rightarrow> delivery_failure_class \<Rightarrow> string \<Rightarrow> disposition \<Rightarrow> world
      \<Rightarrow> delivery_outcome option \<times> world" where
  "call_fail env lease class detail disposition w = storage_call env
     (\<lambda>t. Fail (tick_random t) lease class detail disposition)
     (\<lambda>t db. fst (fail_delivery (tick_now t) (tick_random t) lease class detail disposition db)) w"

definition call_release ::
    "surroundings \<Rightarrow> execution_lease \<Rightarrow> world \<Rightarrow> delivery_outcome option \<times> world" where
  "call_release env lease w = storage_call env (\<lambda>t. Release lease)
     (\<lambda>t db. fst (release_delivery (tick_now t) lease db)) w"

section \<open>One part\<close>

definition PER_COMPANY_BATCH_SHARE :: nat where
  "PER_COMPANY_BATCH_SHARE = 4"

datatype part_progress =
    Progress_Continue delivery_part_status
  | Progress_Finished delivery_status
  | Progress_Cancelled delivery_status
  | Progress_LeaseLost
  | Progress_Shutdown

datatype drain_progress = Drain_Continue | Drain_Shutdown

record provider_result =
  provider_outcome :: provider_send_outcome
  interrupted :: bool

definition uncertain_provider :: "string \<Rightarrow> provider_send_outcome" where
  "uncertain_provider detail = Sent_OutcomeUnknown Timeout detail"

definition interrupted_provider :: provider_result where
  "interrupted_provider = \<lparr>provider_outcome = uncertain_provider ''Shutdown interrupted a provider call'',
     interrupted = True\<rparr>"

text \<open>The request is handed to the provider after the pending shutdown was checked.\<close>

definition call_provider :: "surroundings \<Rightarrow> execution_lease \<Rightarrow> uuid \<Rightarrow> world \<Rightarrow> provider_result \<times> world" where
  "call_provider env lease part w =
     (let (stop, w1) = shutdown_requested env w in
      if stop then (interrupted_provider, w1)
      else
        let w2 = after_events [] (w1\<lparr>w_requests := w_requests w1 @ [(lease, part)]\<rparr>)
        in ((case tick_provider (env (w_step w1)) of
               Provider_Answers outcome \<Rightarrow> \<lparr>provider_outcome = outcome, interrupted = False\<rparr>
             | Provider_Shutdown \<Rightarrow> interrupted_provider
             | Provider_Timeout \<Rightarrow>
                 \<lparr>provider_outcome = uncertain_provider ''Provider call exceeded its deadline'', interrupted = False\<rparr>),
            w2))"

definition part_status_after :: "provider_send_outcome \<Rightarrow> delivery_part_status" where
  "part_status_after outcome = t_status (PartTransition_of outcome)"

definition release_on_shutdown :: "surroundings \<Rightarrow> execution_lease \<Rightarrow> world \<Rightarrow> world" where
  "release_on_shutdown env lease w = snd (call_release env lease w)"

fun progress_of :: "provider_send_outcome \<Rightarrow> delivery_outcome option \<Rightarrow> part_progress" where
  "progress_of outcome (Some (Applied Delivery_Sending)) = Progress_Continue (part_status_after outcome)"
| "progress_of outcome (Some (Applied status)) = Progress_Finished status"
| "progress_of outcome (Some (Cancelled_As status)) = Progress_Cancelled status"
| "progress_of outcome (Some LeaseLost) = Progress_LeaseLost"
| "progress_of outcome None = Progress_LeaseLost"

definition send_part :: "surroundings \<Rightarrow> execution_lease \<Rightarrow> uuid \<Rightarrow> world \<Rightarrow> part_progress \<times> world" where
  "send_part env lease part w =
     (let (stop, w1) = shutdown_requested env w in
      if stop then (Progress_Shutdown, release_on_shutdown env lease w1)
      else
        (case call_begin env lease part w1 of
           (Some (Applied _), w2) \<Rightarrow>
             let (result, w3) = call_provider env lease part w2;
                 (settled, w4) = call_complete env lease part (provider_outcome result) w3
             in (if interrupted result then Progress_Shutdown else progress_of (provider_outcome result) settled, w4)
         | (Some (Cancelled_As status), w2) \<Rightarrow> (Progress_Cancelled status, w2)
         | (Some LeaseLost, w2) \<Rightarrow> (Progress_LeaseLost, w2)
         | (None, w2) \<Rightarrow> (Progress_LeaseLost, w2)))"

section \<open>The leases of a batch\<close>

definition BatchLeases_of :: "claimed_delivery list \<Rightarrow> execution_lease list" where
  "BatchLeases_of batch = map claimed_lease batch"

definition batch_renew ::
    "surroundings \<Rightarrow> nat \<Rightarrow> uuid \<Rightarrow> execution_lease list \<Rightarrow> world \<Rightarrow> bool \<times> execution_lease list \<times> world" where
  "batch_renew env lease_for current held w =
     (case call_renew env held lease_for w of
        (Some renewed, w1) \<Rightarrow>
          let held' = filter (\<lambda>l. lease_row l \<in> set renewed) held
          in (list_ex (\<lambda>l. lease_row l = current) held', held', w1)
      | (None, w1) \<Rightarrow> (True, held, w1))"

definition batch_finish :: "uuid \<Rightarrow> execution_lease list \<Rightarrow> execution_lease list" where
  "batch_finish row held = filter (\<lambda>l. lease_row l \<noteq> row) held"

section \<open>One delivery\<close>

text \<open>\<open>position\<close> of the iterator: the first index that satisfies the predicate.\<close>

fun first_index :: "('a \<Rightarrow> bool) \<Rightarrow> 'a list \<Rightarrow> nat option" where
  "first_index P [] = None"
| "first_index P (x # xs) = (if P x then Some 0 else map_option Suc (first_index P xs))"

text \<open>
  The loop over the parts. It ends by itself only when the queue's answers settle the parts, so
  it has fuel: the number of turns it may make. Without fuel the progress is \<open>None\<close>, and the
  world is the one the turns so far have reached.
\<close>

fun deliver_loop ::
    "nat \<Rightarrow> surroundings \<Rightarrow> nat \<Rightarrow> execution_lease \<Rightarrow> part_db list \<Rightarrow> execution_lease list \<Rightarrow> world
      \<Rightarrow> drain_progress option \<times> execution_lease list \<times> world" where
  "deliver_loop 0 env lease_for lease parts held w = (None, held, w)"
| "deliver_loop (Suc fuel) env lease_for lease parts held w =
     (case first_index (\<lambda>p. is_unfinished (p_status p)) parts of
        None \<Rightarrow> (Some Drain_Continue, held, w)
      | Some index \<Rightarrow>
          let (stop, w1) = shutdown_requested env w in
          if stop then (Some Drain_Shutdown, held, release_on_shutdown env lease w1)
          else
            let (still_held, held', w2) = batch_renew env lease_for (lease_row lease) held w1 in
            if \<not> still_held then (Some Drain_Continue, held', w2)
            else
              (case send_part env lease (p_id (parts ! index)) w2 of
                 (Progress_Continue status, w3) \<Rightarrow>
                   deliver_loop fuel env lease_for lease
                     (parts[index := (parts ! index)\<lparr>p_status := status\<rparr>]) held' w3
               | (Progress_Finished status, w3) \<Rightarrow> (Some Drain_Continue, held', w3)
               | (Progress_Cancelled status, w3) \<Rightarrow> (Some Drain_Continue, held', w3)
               | (Progress_Shutdown, w3) \<Rightarrow> (Some Drain_Shutdown, held', w3)
               | (Progress_LeaseLost, w3) \<Rightarrow> (Some Drain_Continue, held', w3)))"

text \<open>\<open>missing_adapter_detail\<close> shows that the message is always acceptable as it is.\<close>

definition settle_without_provider ::
    "surroundings \<Rightarrow> execution_lease \<Rightarrow> delivery_failure_class \<Rightarrow> string \<Rightarrow> disposition \<Rightarrow> world \<Rightarrow> world" where
  "settle_without_provider env lease class detail disposition w =
     (case bounded_detail detail of
        Ok (Some d) \<Rightarrow> snd (call_fail env lease class d disposition w)
      | _ \<Rightarrow> w)"

definition deliver ::
    "nat \<Rightarrow> surroundings \<Rightarrow> (transport_kind \<Rightarrow> bool) \<Rightarrow> nat \<Rightarrow> claimed_delivery \<Rightarrow> execution_lease list \<Rightarrow> world
      \<Rightarrow> drain_progress option \<times> execution_lease list \<times> world" where
  "deliver fuel env registered lease_for claimed held w =
     (let lease = claimed_lease claimed;
          transport = d_transport (claimed_record claimed);
          (stop, w1) = shutdown_requested env w
      in if stop then (Some Drain_Shutdown, held, release_on_shutdown env lease w1)
         else if \<not> registered transport
         then (Some Drain_Continue, held, settle_without_provider env lease Internal
           (''No '' @ transport_as_str transport @ '' adapter is configured'') Dispose_Terminal w1)
         else deliver_loop fuel env lease_for lease (claimed_parts claimed) held w1)"

section \<open>One batch\<close>

definition fair_order :: "claimed_delivery list \<Rightarrow> (claimed_delivery list, unit) outcome" where
  "fair_order claimed = interleave (\<lambda>c. d_company_id (claimed_record c)) PER_COMPANY_BATCH_SHARE claimed"

text \<open>The first component says whether the batch was drained to its end.\<close>

fun drain_batch ::
    "nat \<Rightarrow> surroundings \<Rightarrow> (transport_kind \<Rightarrow> bool) \<Rightarrow> nat \<Rightarrow> claimed_delivery list \<Rightarrow> bool \<Rightarrow> execution_lease list
      \<Rightarrow> world \<Rightarrow> bool \<times> world" where
  "drain_batch fuel env registered lease_for [] stopped held w = (True, w)"
| "drain_batch fuel env registered lease_for (c # cs) stopped held w =
     (let row = lease_row (claimed_lease c) in
      if stopped
      then drain_batch fuel env registered lease_for cs True (batch_finish row held)
             (release_on_shutdown env (claimed_lease c) w)
      else
        (case deliver fuel env registered lease_for c held w of
           (None, held', w1) \<Rightarrow> (False, w1)
         | (Some progress, held', w1) \<Rightarrow>
             drain_batch fuel env registered lease_for cs (progress = Drain_Shutdown) (batch_finish row held') w1))"

datatype drain_result = Drained nat | Drain_Failed

definition drain_once ::
    "nat \<Rightarrow> surroundings \<Rightarrow> (transport_kind \<Rightarrow> bool) \<Rightarrow> uuid \<Rightarrow> nat \<Rightarrow> world \<Rightarrow> drain_result option \<times> world" where
  "drain_once fuel env registered worker lease_for w =
     (case call_claim env worker lease_for w of
        (Some (Ok claimed), w1) \<Rightarrow>
          (case fair_order claimed of
             Ok ordered \<Rightarrow>
               let (ended, w2) = drain_batch fuel env registered lease_for ordered False (BatchLeases_of ordered) w1
               in (if ended then Some (Drained (length claimed)) else None, w2)
           | _ \<Rightarrow> (None, w1))
      | (_, w1) \<Rightarrow> (Some Drain_Failed, w1))"

interpretation delivery_batches: fair_batch "\<lambda>c. d_company_id (claimed_record c)" PER_COMPANY_BATCH_SHARE
  by unfold_locales (simp add: PER_COMPANY_BATCH_SHARE_def)

section \<open>Runs of the worker are histories of the queue\<close>

text \<open>How many provider entries for a part a sequence of transactions admits.\<close>

fun entered :: "queue_db \<Rightarrow> timed_event list \<Rightarrow> uuid \<Rightarrow> nat" where
  "entered db [] i = 0"
| "entered db ((now, ev) # es) i =
     (case ev of
        Begin admission expired fence part \<Rightarrow>
          (if part = i \<and> lease_held (fst (begin_part admission expired now fence part db)) then 1 else 0)
      | _ \<Rightarrow> 0) + entered (perform_at now ev db) es i"

lemma run_events_simps [simp]:
  "run_events [] db = db"
  "run_events (e # es) db = run_events es (perform_at (fst e) (snd e) db)"
  "run_events (es @ fs) db = run_events fs (run_events es db)"
  by (simp_all add: run_events_def)

lemma entered_append: "entered db (es @ fs) i = entered db es i + entered (run_events es db) fs i"
  by (induction es arbitrary: db) (auto simp: case_prod_unfold split: prod.splits)

text \<open>
  What one stretch of the worker does to the world: it appends transactions and requests, the
  tables are those the transactions leave, and no part was requested more often than it was
  entered.
\<close>

definition requests_of :: "uuid \<Rightarrow> (execution_lease \<times> uuid) list \<Rightarrow> nat" where
  "requests_of i rs = length (filter (\<lambda>r. snd r = i) rs)"

definition proceeds :: "world \<Rightarrow> world \<Rightarrow> bool" where
  "proceeds w w' \<longleftrightarrow> (\<exists>es rs. w_history w' = w_history w @ es \<and> w_requests w' = w_requests w @ rs
     \<and> w_db w' = run_events es (w_db w) \<and> (\<forall>i. requests_of i rs \<le> entered (w_db w) es i))"

lemma proceeds_refl: "proceeds w w"
  by (auto simp: proceeds_def requests_of_def)

lemma proceeds_trans:
  assumes "proceeds w w'" and "proceeds w' w''"
  shows "proceeds w w''"
proof -
  obtain es rs where 1: "w_history w' = w_history w @ es" "w_requests w' = w_requests w @ rs"
    "w_db w' = run_events es (w_db w)" "\<And>i. requests_of i rs \<le> entered (w_db w) es i"
    using assms(1) by (auto simp: proceeds_def)
  obtain fs ss where 2: "w_history w'' = w_history w' @ fs" "w_requests w'' = w_requests w' @ ss"
    "w_db w'' = run_events fs (w_db w')" "\<And>i. requests_of i ss \<le> entered (w_db w') fs i"
    using assms(2) by (auto simp: proceeds_def)
  have "requests_of i (rs @ ss) \<le> entered (w_db w) (es @ fs) i" for i
    using add_mono [OF 1(4) 2(4), of i i] by (simp add: requests_of_def entered_append 1(3))
  then show ?thesis using 1 2 by (auto simp: proceeds_def intro!: exI [of _ "es @ fs"] exI [of _ "rs @ ss"])
qed

lemma after_events_proceeds: "proceeds w (after_events es w)"
  by (auto simp: proceeds_def after_events_def requests_of_def)

lemma storage_call_proceeds: "proceeds w (snd (storage_call env event result w))"
  by (simp add: storage_call_def Let_def after_events_proceeds split: reply.split)

lemma shutdown_proceeds: "proceeds w (snd (shutdown_requested env w))"
  by (simp add: shutdown_requested_def after_events_proceeds)

lemma release_proceeds: "proceeds w (release_on_shutdown env lease w)"
  by (simp add: release_on_shutdown_def call_release_def storage_call_proceeds)

text \<open>A request is handed over only after its part was entered.\<close>

lemma entry_pays_for_the_request:
  assumes "call_begin env lease part w = (Some (Applied s), w')"
  shows "proceeds w (snd (call_provider env lease part w'))"
proof -
  let ?t = "env (w_step w)"
  let ?db = "run_events (tick_others ?t) (w_db w)"
  let ?e = "(tick_now ?t, Begin (tick_admission ?t) (tick_expired ?t) lease part)"
  have "tick_reply ?t = Answered" and w': "w' = after_events (tick_others ?t @ [?e]) w"
    and applied: "fst (begin_part (tick_admission ?t) (tick_expired ?t) (tick_now ?t) lease part ?db) = Applied s"
    using assms by (auto simp: call_begin_def storage_call_def Let_def split: reply.splits)
  let ?es = "tick_others ?t @ [?e]"
  have one: "1 \<le> entered (w_db w) ?es part" using applied by (simp add: entered_append)
  show ?thesis
  proof (cases "fst (shutdown_requested env w')")
    case True
    then have "snd (call_provider env lease part w') = after_events [] w'"
      by (simp add: call_provider_def shutdown_requested_def)
    then show ?thesis using proceeds_trans [OF _ after_events_proceeds] after_events_proceeds w' by metis
  next
    case False
    then have rs: "w_requests (snd (call_provider env lease part w')) = w_requests w @ [(lease, part)]"
      and db: "w_db (snd (call_provider env lease part w')) = run_events ?es (w_db w)"
      and history: "w_history (snd (call_provider env lease part w')) = w_history w @ ?es"
      by (simp_all add: call_provider_def shutdown_requested_def after_events_def w')
    have "requests_of i [(lease, part)] \<le> entered (w_db w) ?es i" for i
      using one by (cases "i = part") (auto simp: requests_of_def)
    then show ?thesis unfolding proceeds_def
      by (intro exI [of _ ?es] exI [of _ "[(lease, part)]"] conjI allI rs db history)
  qed
qed

lemma begin_proceeds: "proceeds w (snd (call_begin env lease part w))"
  and complete_proceeds: "proceeds w (snd (call_complete env lease part outcome w))"
  and fail_proceeds: "proceeds w (snd (call_fail env lease class detail disposition w))"
  and renew_proceeds: "proceeds w (snd (call_renew env held lease_for w))"
  and claim_proceeds: "proceeds w (snd (call_claim env owner lease_for w))"
  by (simp_all add: call_begin_def call_complete_def call_fail_def call_renew_def call_claim_def storage_call_proceeds)

lemma send_part_proceeds: "proceeds w (snd (send_part env lease part w))"
proof -
  obtain stop w1 where 1: "shutdown_requested env w = (stop, w1)" by (cases "shutdown_requested env w")
  have w1: "proceeds w w1" using shutdown_proceeds [of w env] 1 by simp
  obtain begun w2 where 2: "call_begin env lease part w1 = (begun, w2)" by (cases "call_begin env lease part w1")
  have w2: "proceeds w w2" using proceeds_trans [OF w1 begin_proceeds [of w1 env lease part]] 2 by simp
  have "proceeds w (snd (call_complete env lease part outcome (snd (call_provider env lease part w2))))"
    if "begun = Some (Applied s)" for s outcome
    using proceeds_trans [OF w1 proceeds_trans [OF entry_pays_for_the_request complete_proceeds]] 2 that by blast
  then show ?thesis
    using 1 2 w2 proceeds_trans [OF w1 release_proceeds]
    by (simp add: send_part_def case_prod_unfold Let_def split: option.split delivery_outcome.split)
qed

lemma batch_renew_proceeds: "proceeds w (snd (snd (batch_renew env lease_for current held w)))"
  using renew_proceeds [of w env held lease_for]
  by (auto simp: batch_renew_def Let_def split: prod.split option.split)

lemma deliver_loop_proceeds: "proceeds w (snd (snd (deliver_loop fuel env lease_for lease parts held w)))"
proof (induction fuel env lease_for lease parts held w rule: deliver_loop.induct)
  case (2 fuel env lease_for lease parts held w)
  show ?case
  proof (cases "first_index (\<lambda>p. is_unfinished (p_status p)) parts")
    case None
    then show ?thesis using proceeds_refl by simp
  next
    case (Some index)
    obtain stop w1 where 1: "shutdown_requested env w = (stop, w1)" by (cases "shutdown_requested env w")
    have w1: "proceeds w w1" using shutdown_proceeds [of w env] 1 by simp
    obtain still h w2 where r: "batch_renew env lease_for (lease_row lease) held w1 = (still, h, w2)"
      by (cases "batch_renew env lease_for (lease_row lease) held w1") auto
    have w2: "proceeds w w2"
      using proceeds_trans [OF w1 batch_renew_proceeds [of w1 env lease_for "lease_row lease" held]] r by simp
    obtain q w3 where s: "send_part env lease (p_id (parts ! index)) w2 = (q, w3)"
      by (cases "send_part env lease (p_id (parts ! index)) w2")
    have w3: "proceeds w w3" using proceeds_trans [OF w2 send_part_proceeds] s by (metis snd_conv)
    show ?thesis
    proof (cases "stop \<or> \<not> still")
      case True
      then show ?thesis using Some 1 r w2 proceeds_trans [OF w1 release_proceeds] by auto
    next
      case False
      then show ?thesis
        using 2 [OF Some refl 1 [symmetric] _ r [symmetric]] Some 1 r s w3 proceeds_trans
        by (auto split: part_progress.splits)
    qed
  qed
qed (simp add: proceeds_refl)

lemma deliver_proceeds: "proceeds w (snd (snd (deliver fuel env registered lease_for claimed held w)))"
proof -
  obtain stop w1 where 1: "shutdown_requested env w = (stop, w1)" by (cases "shutdown_requested env w")
  have w1: "proceeds w w1" using shutdown_proceeds [of w env] 1 by simp
  have "proceeds w (settle_without_provider env lease failure detail how w1)" for lease failure detail how
    using proceeds_trans [OF w1 fail_proceeds] w1
    by (auto simp: settle_without_provider_def split: outcome.split option.split)
  then show ?thesis
    using 1 proceeds_trans [OF w1 release_proceeds] proceeds_trans [OF w1 deliver_loop_proceeds]
    by (auto simp: deliver_def Let_def)
qed

lemma drain_batch_proceeds: "proceeds w (snd (drain_batch fuel env registered lease_for cs stopped held w))"
proof (induction fuel env registered lease_for cs stopped held w rule: drain_batch.induct)
  case (2 fuel env registered lease_for c cs stopped held w)
  show ?case
  proof (cases stopped)
    case True
    then show ?thesis using 2(1) [OF refl] proceeds_trans [OF release_proceeds] by simp
  next
    case False
    obtain progress held' w1 where d: "deliver fuel env registered lease_for c held w = (progress, held', w1)"
      by (cases "deliver fuel env registered lease_for c held w") auto
    have w1: "proceeds w w1" using deliver_proceeds [of w fuel env registered lease_for c held] d by simp
    show ?thesis
    proof (cases progress)
      case None
      then show ?thesis using False d w1 by simp
    next
      case (Some q)
      then show ?thesis using 2(2) [OF refl False d [symmetric] Some refl] False d proceeds_trans [OF w1] by simp
    qed
  qed
qed (simp add: proceeds_refl)

lemma drain_once_proceeds: "proceeds w (snd (drain_once fuel env registered worker lease_for w))"
proof -
  obtain r w1 where 1: "call_claim env worker lease_for w = (r, w1)" by (cases "call_claim env worker lease_for w")
  have "proceeds w w1" using claim_proceeds [of w env worker lease_for] 1 by simp
  then show ?thesis
    using 1 proceeds_trans [OF _ drain_batch_proceeds]
    by (auto simp: drain_once_def case_prod_unfold Let_def split: option.splits outcome.splits)
qed

section \<open>What the history bounds\<close>

text \<open>The clock does not run backwards, and ids are generated once.\<close>

fun admissible :: "uuid set \<Rightarrow> instant \<Rightarrow> timed_event list \<Rightarrow> bool" where
  "admissible used t [] \<longleftrightarrow> True"
| "admissible used t ((now, ev) # es) \<longleftrightarrow> t \<le> now \<and> event_ok used ev \<and> admissible (used \<union> event_issues ev) now es"

lemma begin_part_counts:
  assumes ok: "queue_ok now db" and p: "p \<in> set (q_parts db)" "p_id p = part"
    and held: "lease_held (fst (begin_part admission expired now fence part db))"
  shows "\<exists>p' \<in> set (q_parts (snd (begin_part admission expired now fence part db))).
    p_id p' = part \<and> p_attempt_count p' = p_attempt_count p + 1"
proof -
  obtain s where applied: "fst (begin_part admission expired now fence part db) = Applied s"
    using held by (cases "fst (begin_part admission expired now fence part db)") auto
  let ?P = "\<lambda>p. p_id p = part \<and> p_status p \<in> {Part_Prepared, Part_Retryable}
    \<and> list_ex (\<lambda>r. p_delivery_id p = d_id r \<and> live_fence fence now r) (q_deliveries db)"
  let ?f = "\<lambda>p. p\<lparr>p_status := Part_Sending, p_attempt_count := p_attempt_count p + 1,
    p_request_started_at := Some now, p_updated_at := now\<rparr>"
  obtain q where q: "q \<in> set (q_parts db)" "?P q"
    using applied begin_part_Applied [OF ok] by (auto simp: is_unfinished_def list_ex_iff)
  have "p = q" using ok p q by (intro distinct_key [of p_id "q_parts db"]) (auto simp: queue_ok_def)
  have "q_parts (snd (begin_part admission expired now fence part db)) = update_where ?P ?f (q_parts db)"
    using applied settle_cancelled_not_Applied expire_reopened_not_Applied
    by (auto simp: begin_part_def Let_def case_prod_unfold split: held_delivery.splits workflow_delivery_admission.splits if_splits)
  with update_where_member [OF q(1), where P = ?P and f = ?f] q(2) have
    "?f p \<in> set (q_parts (snd (begin_part admission expired now fence part db)))" by (simp add: \<open>p = q\<close>)
  then show ?thesis using p(2) by (intro bexI [of _ "?f p"]) simp_all
qed

lemma event_counts:
  assumes ok: "queue_ok now db" and ev: "event_ok used ev" and p: "p \<in> set (q_parts db)"
  shows "\<exists>p' \<in> set (q_parts (perform_at now ev db)). part_steps (settles ev) (again ev) p p'
    \<and> p_attempt_count p + int (entered db [(now, ev)] (p_id p)) \<le> p_attempt_count p'"
proof -
  have m: "steps now (event_issues ev) (settles ev) (again ev) db (perform_at now ev db)" using event_steps [OF ok ev] .
  obtain p' where p': "p' \<in> set (q_parts (perform_at now ev db))" "part_steps (settles ev) (again ev) p p'"
    using m all2_in [OF _ p] by (auto simp: steps_def)
  have "p_attempt_count p + int (entered db [(now, ev)] (p_id p)) \<le> p_attempt_count p'"
  proof (cases "entered db [(now, ev)] (p_id p) = 0")
    case True
    then show ?thesis using p'(2) by (simp add: part_steps_def)
  next
    case False
    then obtain admission expired fence where b: "ev = Begin admission expired fence (p_id p)"
      "lease_held (fst (begin_part admission expired now fence (p_id p) db))"
      by (auto split: queue_event.splits if_splits)
    obtain q where q: "q \<in> set (q_parts (perform_at now ev db))" "p_id q = p_id p" "p_attempt_count q = p_attempt_count p + 1"
      using begin_part_counts [OF ok p refl b(2)] b(1) by auto
    have "p_id p' = p_id p" using p'(2) by (simp add: part_steps_def)
    then have "q = p'" using steps_ok [OF ok m] q(1,2) p'(1) by (intro distinct_key [of p_id]) (auto simp: queue_ok_def)
    then show ?thesis using q(3) b by simp
  qed
  with p' show ?thesis by blast
qed

lemma history_counts:
  assumes "admissible used t es" and "queue_ok t db" and "p \<in> set (q_parts db)"
  shows "\<exists>p' \<in> set (q_parts (run_events es db)).
    part_steps (evidenced es) (times_again es) p p'
    \<and> p_attempt_count p + int (entered db es (p_id p)) \<le> p_attempt_count p'"
  using assms
proof (induction es arbitrary: used t db p)
  case Nil
  then show ?case using part_steps_refl by auto
next
  case (Cons e es)
  obtain now ev where e: "e = (now, ev)" by (cases e)
  have ok: "queue_ok now db" and ev: "event_ok used ev" and rest: "admissible (used \<union> event_issues ev) now es"
    using Cons.prems queue_ok_later by (auto simp: e)
  from event_counts [OF ok ev Cons.prems(3)] obtain q where
    q: "q \<in> set (q_parts (perform_at now ev db))" "part_steps (settles ev) (again ev) p q"
      "p_attempt_count p + int (entered db [(now, ev)] (p_id p)) \<le> p_attempt_count q" by blast
  have "queue_ok now (perform_at now ev db)" using steps_ok [OF ok event_steps [OF ok ev]] .
  from Cons.IH [OF rest this q(1)] obtain p' where
    p': "p' \<in> set (q_parts (run_events es (perform_at now ev db)))"
      "part_steps (evidenced es) (times_again es) q p'"
      "p_attempt_count q + int (entered (perform_at now ev db) es (p_id q)) \<le> p_attempt_count p'" by blast
  have "p_id q = p_id p" using q(2) by (simp add: part_steps_def)
  moreover have "entered db (e # es) i = entered db [(now, ev)] i + entered (perform_at now ev db) es i" for i
    by (simp add: e)
  ultimately show ?case
    using p'(1,3) q(3) part_steps_Cons [of e, OF _ p'(2)] q(2) by (intro bexI [of _ p']) (simp_all add: e)
qed

lemma missing_adapter_detail:
  "bounded_detail (''No '' @ transport_as_str k @ '' adapter is configured'')
     = Ok (Some (''No '' @ transport_as_str k @ '' adapter is configured''))"
  by (cases k)
    (simp_all add: bounded_detail_def shrink_detail.simps bounded_parse_def validate_bounded_def str_chars_def
      byte_of_def is_whitespace_def is_control_def MAX_FAILURE_DETAIL_BYTES_def)

section \<open>A worker left alone\<close>

text \<open>
  Surroundings in which nothing interferes: no other transaction, every call answers, no shutdown,
  the delivery is not a workflow's or is admitted with an unexpired proof, and the provider
  accepts. Time passes, but the seven awaits from one renewal to the next, in which a part is sent,
  take less than the lease that a renewal grants.
\<close>

definition admits :: "tick \<Rightarrow> bool" where
  "admits t \<longleftrightarrow> tick_admission t = NotWorkflow \<or> tick_admission t = Proceed \<and> \<not> tick_expired t"

definition calm :: "surroundings \<Rightarrow> nat \<Rightarrow> bool" where
  "calm env lease_for \<longleftrightarrow> (\<forall>n. tick_others (env n) = [] \<and> tick_reply (env n) = Answered
     \<and> \<not> tick_shutdown (env n) \<and> admits (env n)
     \<and> (\<exists>key. tick_provider (env n) = Provider_Answers (Sent_Delivered key))
     \<and> tick_now (env n) \<le> tick_now (env (Suc n))
     \<and> tick_now (env (n + 7)) < tick_now (env n) + int lease_for)"

lemma calm_call:
  "calm env lease_for \<Longrightarrow> storage_call env event result w =
     (Some (result (env (w_step w)) (w_db w)), after_events [(tick_now (env (w_step w)), event (env (w_step w)))] w)"
  by (simp add: calm_def storage_call_def Let_def)

lemma calm_shutdown: "calm env lease_for \<Longrightarrow> shutdown_requested env w = (False, after_events [] w)"
  by (simp add: calm_def shutdown_requested_def)

lemma calm_clock: "calm env lease_for \<Longrightarrow> m \<le> n \<Longrightarrow> tick_now (env m) \<le> tick_now (env n)"
  by (rule lift_Suc_mono_le [of "\<lambda>n. tick_now (env n)"]) (simp_all add: calm_def)

lemma calm_provider:
  assumes "calm env lease_for"
  shows "\<exists>key. call_provider env lease part w = (\<lparr>provider_outcome = Sent_Delivered key, interrupted = False\<rparr>,
    after_events [] ((after_events [] w)\<lparr>w_requests := w_requests w @ [(lease, part)]\<rparr>))"
proof -
  obtain key where "tick_provider (env (Suc (w_step w))) = Provider_Answers (Sent_Delivered key)"
    using assms by (auto simp: calm_def)
  then show ?thesis
    by (intro exI [of _ key]) (simp add: call_provider_def calm_shutdown [OF assms] after_events_def)
qed

lemma after_events_step [simp]: "w_step (after_events es w) = Suc (w_step w)"
  by (simp add: after_events_def)

lemma after_events_db [simp]: "w_db (after_events es w) = run_events es (w_db w)"
  by (simp add: after_events_def)

lemma w_db_requests [simp]: "w_db (w\<lparr>w_requests := rs\<rparr>) = w_db w"
  by simp

text \<open>The parts of one delivery, in their order.\<close>

definition parts_of :: "uuid \<Rightarrow> queue_db \<Rightarrow> part_db list" where
  "parts_of i db = sort_key p_part_index (filter (\<lambda>p. p_delivery_id p = i) (q_parts db))"

lemma map_insort_key: "(\<And>x. k (g x) = k x) \<Longrightarrow> map g (insort_key k x xs) = insort_key k (g x) (map g xs)"
  by (induction xs) auto

lemma sort_key_map: "(\<And>x. k (g x) = k x) \<Longrightarrow> sort_key k (map g xs) = map g (sort_key k xs)"
  by (induction xs) (simp_all add: map_insort_key)

lemma parts_of_update:
  assumes "\<And>p. p_delivery_id (f p) = p_delivery_id p" and "\<And>p. p_part_index (f p) = p_part_index p"
  shows "parts_of i (db\<lparr>q_parts := update_where P f (q_parts db)\<rparr>) = map (\<lambda>p. if P p then f p else p) (parts_of i db)"
proof -
  let ?g = "\<lambda>p. if P p then f p else p"
  have "filter (\<lambda>p. p_delivery_id p = i) (map ?g ps) = map ?g (filter (\<lambda>p. p_delivery_id p = i) ps)" for ps
    using assms(1) by (induction ps) auto
  then show ?thesis using assms(2) by (simp add: parts_of_def update_where_def sort_key_map del: if_image_distrib)
qed

lemma part_statuses_eq: "part_statuses i db = map p_status (parts_of i db)"
  by (simp add: part_statuses_def parts_of_def)

lemma set_parts_of: "set (parts_of i db) = {p \<in> set (q_parts db). p_delivery_id p = i}"
  by (simp add: parts_of_def)

text \<open>
  What a calm loop keeps: the row is held by a lease that is still live at \<open>end_at\<close>, and the
  worker's copy of the parts is exact.
\<close>

definition in_hand :: "instant \<Rightarrow> instant \<Rightarrow> execution_lease \<Rightarrow> part_db list \<Rightarrow> queue_db \<Rightarrow> bool" where
  "in_hand now end_at lease parts db \<longleftrightarrow> queue_ok now db
     \<and> (\<exists>r \<in> set (q_deliveries db). live_fence lease end_at r \<and> d_cancellation_requested_at r = None)
     \<and> map (\<lambda>p. (p_id p, p_status p)) parts = map (\<lambda>p. (p_id p, p_status p)) (parts_of (lease_row lease) db)
     \<and> set (map p_status parts) \<subseteq> {Part_Prepared, Part_Retryable, Part_Delivered}"

lemma live_fence_sooner: "live_fence lease end_at r \<Longrightarrow> now \<le> end_at \<Longrightarrow> live_fence lease now r"
  by (auto simp: live_fence_def split: option.splits)

lemma in_hand_shift:
  "in_hand now end_at lease parts db \<Longrightarrow> now \<le> now' \<Longrightarrow> end' \<le> end_at \<Longrightarrow> in_hand now' end' lease parts db"
  unfolding in_hand_def using queue_ok_later live_fence_sooner by blast

lemma renew_in_hand:
  assumes hand: "in_hand now now lease parts db" and "lease \<in> set held" and later: "end_at < now + int lease_for" "now \<le> end_at"
  shows "lease_row lease \<in> set (fst (renew_delivery_leases now held lease_for db))"
    and "in_hand now end_at lease parts (snd (renew_delivery_leases now held lease_for db))"
proof -
  let ?held = "\<lambda>r. list_ex (\<lambda>fence. live_fence fence now r) held"
  let ?f = "\<lambda>r. r\<lparr>d_lock_expires_at := Some (now + int lease_for), d_updated_at := now\<rparr>"
  obtain r where r: "r \<in> set (q_deliveries db)" "live_fence lease now r" "d_cancellation_requested_at r = None"
    using hand by (auto simp: in_hand_def)
  have held: "?held r" using r(2) assms(2) by (auto simp: list_ex_iff)
  have "d_id r = lease_row lease" using r(2) by (simp add: live_fence_def own_row_fence_def)
  then show "lease_row lease \<in> set (fst (renew_delivery_leases now held lease_for db))"
    using r(1) held by (force simp: renew_delivery_leases_def Let_def)
  have ok: "queue_ok now db" using hand by (simp add: in_hand_def)
  have "queue_ok now (snd (renew_delivery_leases now held lease_for db))"
    by (rule moves_ok [OF ok renew_moves [where i = "{}" and k = "\<lambda>_. 0"]]) (use later in simp)
  moreover have "?f r \<in> set (q_deliveries (snd (renew_delivery_leases now held lease_for db)))"
    using update_where_member [OF r(1), where P = ?held and f = ?f] held by (simp add: renew_delivery_leases_def Let_def)
  moreover have "live_fence lease end_at (?f r)" using r(2) later by (simp add: live_fence_def own_row_fence_def)
  moreover have "parts_of i (snd (renew_delivery_leases now held lease_for db)) = parts_of i db" for i
    by (simp add: renew_delivery_leases_def Let_def parts_of_def)
  ultimately show "in_hand now end_at lease parts (snd (renew_delivery_leases now held lease_for db))"
    using hand r(3) unfolding in_hand_def by auto
qed

text \<open>Setting the status of one part, seen in the list and by its id.\<close>

lemma update_by_id:
  assumes "distinct (map k xs)" and "i < length xs"
  shows "map (\<lambda>x. if k x = k (xs ! i) then g x else x) xs = xs[i := g (xs ! i)]"
proof (rule nth_equalityI)
  fix j
  assume "j < length (map (\<lambda>x. if k x = k (xs ! i) then g x else x) xs)"
  then have j: "j < length xs" by simp
  have "k (xs ! j) = k (xs ! i) \<longleftrightarrow> j = i" using assms j by (metis length_map nth_eq_iff_index_eq nth_map)
  then show "map (\<lambda>x. if k x = k (xs ! i) then g x else x) xs ! j = xs[i := g (xs ! i)] ! j"
    using j assms(2) by (simp add: nth_list_update)
qed simp

lemma first_index_Some: "first_index P xs = Some i \<Longrightarrow> i < length xs \<and> P (xs ! i)"
  by (induction xs arbitrary: i) (auto split: if_splits)

lemma first_index_None: "first_index P xs = None \<longleftrightarrow> (\<forall>x \<in> set xs. \<not> P x)"
  by (induction xs) auto

lemma begin_in_hand:
  assumes "in_hand now now lease parts db" and "p \<in> set (parts_of (lease_row lease) db)" and "is_unfinished (p_status p)"
    and admitted: "admission = NotWorkflow \<or> admission = Proceed \<and> \<not> expired"
  shows "begin_part admission expired now lease (p_id p) db = (Applied Delivery_Sending,
    db\<lparr>q_parts := update_where (\<lambda>q. p_id q = p_id p) (\<lambda>q. q\<lparr>p_status := Part_Sending,
      p_attempt_count := p_attempt_count q + 1, p_request_started_at := Some now, p_updated_at := now\<rparr>) (q_parts db)\<rparr>)"
proof -
  obtain r where r: "r \<in> set (q_deliveries db)" "live_fence lease now r" "d_cancellation_requested_at r = None"
    using assms(1) by (auto simp: in_hand_def)
  have ok: "queue_ok now db" using assms(1) by (simp add: in_hand_def)
  have p: "p \<in> set (q_parts db)" "p_delivery_id p = d_id r"
    using assms(2) r(2) by (auto simp: set_parts_of live_fence_def own_row_fence_def)
  have live: "lock_held_delivery_on lease db = Held_Live"
    using held_cases [OF ok, of lease] r ok
    by (cases "lock_held_delivery_on lease db") (auto simp: live_fence_def queue_ok_def row_ok_def cancellation_check_def)
  let ?P = "\<lambda>q. p_id q = p_id p \<and> p_status q \<in> {Part_Prepared, Part_Retryable}
    \<and> list_ex (\<lambda>r. p_delivery_id q = d_id r \<and> live_fence lease now r) (q_deliveries db)"
  have "fst (begin_part admission expired now lease (p_id p) db) = Applied Delivery_Sending"
    using begin_part_Applied [OF ok] r p assms(3) admitted by auto
  then have one: "rows_affected ?P (q_parts db) = 1"
    using admitted by (auto simp: begin_part_def live Let_def split: if_splits)
  have same: "?P q \<longleftrightarrow> p_id q = p_id p" if "q \<in> set (q_parts db)" for q
  proof -
    have "q = p" if "p_id q = p_id p"
      using ok p(1) that \<open>q \<in> set (q_parts db)\<close> by (intro distinct_key [of p_id "q_parts db"]) (auto simp: queue_ok_def)
    then show ?thesis using r p(2) assms(3) by (auto simp: list_ex_iff is_unfinished_def)
  qed
  have "update_where ?P f (q_parts db) = update_where (\<lambda>q. p_id q = p_id p) f (q_parts db)" for f
    using same by (simp add: update_where_def)
  then show ?thesis using one admitted by (auto simp: begin_part_def live Let_def)
qed

lemma aggregate_more:
  assumes "Part_Sending \<notin> set (part_statuses (lease_row lease) db)" and "list_ex is_unfinished (part_statuses (lease_row lease) db)"
  shows "aggregate_parent_on now random lease (PartTransition_of (Sent_Delivered key)) db = (Applied Delivery_Sending, db)"
  using assms by (simp add: aggregate_parent_on_def Let_def)

lemma aggregate_finished:
  assumes ok: "distinct (map d_id (q_deliveries db))" and r: "r \<in> set (q_deliveries db)" "own_row_fence lease r"
    and all: "set (part_statuses (lease_row lease) db) = {Part_Delivered}"
  shows "\<exists>db'. aggregate_parent_on now random lease (PartTransition_of (Sent_Delivered key)) db = (Applied Delivery_Delivered, db')
    \<and> q_parts db' = q_parts db \<and> (\<exists>r' \<in> set (q_deliveries db'). d_id r' = lease_row lease \<and> d_status r' = Delivery_Delivered)"
proof -
  let ?ps = "part_statuses (lease_row lease) db"
  have each: "s \<in> set ?ps \<longleftrightarrow> s = Part_Delivered" for s by (simp only: all singleton_iff)
  have nonempty: "?ps \<noteq> []" using all by (metis empty_not_insert empty_set)
  have agg: "aggregate_parent_status ?ps = Delivery_Delivered"
    using nonempty each by (simp add: aggregate_parent_status_def list_all_iff list_ex_iff)
  have quiet: "\<not> list_ex is_unfinished ?ps" "Part_Sending \<notin> set ?ps" using each by (auto simp: list_ex_iff is_unfinished_def)
  have one: "rows_affected (own_row_fence lease) (q_deliveries db) = 1"
    using ok r by (subst one_row [where k = d_id and i = "lease_row lease"]) (auto simp: own_row_fence_def)
  let ?f = "\<lambda>r. clear_lease (r\<lparr>d_status := Delivery_Delivered, d_attempt_count := d_attempt_count r,
    d_last_error_class := None, d_last_error_detail := None, d_delivered_at := Some now, d_updated_at := now\<rparr>)"
  have "?f r \<in> set (update_where (own_row_fence lease) ?f (q_deliveries db))"
    using update_where_member [OF r(1), where P = "own_row_fence lease" and f = ?f] r(2) by simp
  moreover have "d_id (?f r) = lease_row lease" "d_status (?f r) = Delivery_Delivered"
    using r(2) by (simp_all add: clear_lease_def own_row_fence_def)
  ultimately have row: "\<exists>r' \<in> set (update_where (own_row_fence lease) ?f (q_deliveries db)).
      d_id r' = lease_row lease \<and> d_status r' = Delivery_Delivered" by blast
  have "aggregate_parent_on now random lease (PartTransition_of (Sent_Delivered key)) db =
      (Applied Delivery_Delivered, db\<lparr>q_deliveries := update_where (own_row_fence lease) ?f (q_deliveries db)\<rparr>)"
    using agg quiet one by (simp add: aggregate_parent_on_def settle_parent_on_def Let_def)
  then show ?thesis using row by simp
qed

text \<open>Entering and completing the part at an index of the worker's copy.\<close>

lemma send_in_hand:
  assumes hand: "in_hand now end_at lease parts db" and i: "i < length parts" "is_unfinished (p_status (parts ! i))"
    and admitted: "admission = NotWorkflow \<or> admission = Proceed \<and> \<not> expired"
    and times: "now \<le> begun_at" "begun_at \<le> end_at" "begun_at \<le> done_at"
    and begun: "db1 = snd (begin_part admission expired begun_at lease (p_id (parts ! i)) db)"
    and res: "complete_part done_at random lease (p_id (parts ! i)) (Sent_Delivered key) db1 = (outcome, db2)"
  shows "fst (begin_part admission expired begun_at lease (p_id (parts ! i)) db) = Applied Delivery_Sending"
    and "(outcome = Applied Delivery_Sending
         \<and> in_hand done_at end_at lease (parts[i := (parts ! i)\<lparr>p_status := Part_Delivered\<rparr>]) db2
         \<and> list_ex is_unfinished (map p_status (parts[i := (parts ! i)\<lparr>p_status := Part_Delivered\<rparr>])))
       \<or> (outcome = Applied Delivery_Delivered
         \<and> (\<forall>p \<in> set (parts_of (lease_row lease) db2). p_status p = Part_Delivered)
         \<and> (\<exists>r \<in> set (q_deliveries db2). d_id r = lease_row lease \<and> d_status r = Delivery_Delivered))"
proof -
  let ?view = "map (\<lambda>p. (p_id p, p_status p))" and ?l = "lease_row lease"
  let ?ps = "parts_of ?l db"
  let ?p = "?ps ! i"
  have ok: "queue_ok begun_at db" and view: "?view parts = ?view ?ps"
    and known: "set (map p_status parts) \<subseteq> {Part_Prepared, Part_Retryable, Part_Delivered}"
    using in_hand_shift [OF hand times(1) order_refl] by (auto simp: in_hand_def)
  have len: "length ?ps = length parts" using arg_cong [OF view, of length] by simp
  have same: "p_id (parts ! i) = p_id ?p" "p_status (parts ! i) = p_status ?p"
    using arg_cong [OF view, of "\<lambda>xs. xs ! i"] i(1) len by (simp_all only: nth_map prod.inject)
  have "distinct (map p_id ?ps)" using ok by (simp add: queue_ok_def parts_of_def distinct_map inj_on_def)
  then have dist: "distinct (map fst (?view parts))" unfolding view by (simp add: comp_def)
  have p: "?p \<in> set ?ps" "is_unfinished (p_status ?p)" using i len same(2) by simp_all
  note entry = begin_in_hand [OF in_hand_shift [OF hand times(1,2)] p admitted]
  show "fst (begin_part admission expired begun_at lease (p_id (parts ! i)) db) = Applied Delivery_Sending"
    by (simp add: same(1) entry)
  let ?id = "\<lambda>q. p_id q = p_id ?p"
  let ?f = "\<lambda>q. q\<lparr>p_status := Part_Sending, p_attempt_count := p_attempt_count q + 1,
    p_request_started_at := Some begun_at, p_updated_at := begun_at\<rparr>"
  let ?g = "part_after done_at (Sent_Delivered key)"
  have db1: "db1 = db\<lparr>q_parts := update_where ?id ?f (q_parts db)\<rparr>" using begun same(1) entry by simp
  have "queue_ok begun_at db1"
    using moves_ok [OF ok begin_part_moves [OF ok, of "{}" "\<lambda>_. 0" admission expired lease "p_id ?p"]] begun same(1) by simp
  then have ok1: "queue_ok done_at db1" using queue_ok_later times(3) by blast
  obtain r where r: "r \<in> set (q_deliveries db)" "live_fence lease end_at r" "d_cancellation_requested_at r = None"
    using hand by (auto simp: in_hand_def)
  have fenced: "own_row_fence lease r" using r(2) by (simp add: live_fence_def)
  have "?p \<in> set (q_parts db)" "p_delivery_id ?p = ?l" using p(1) by (auto simp: set_parts_of)
  then have fp: "?f ?p \<in> set (q_parts db1)" "p_delivery_id (?f ?p) = ?l" "p_status (?f ?p) = Part_Sending"
    using update_where_member [where P = ?id and f = ?f, of ?p "q_parts db"] by (simp_all add: db1)
  let ?db' = "db1\<lparr>q_parts := update_where ?id ?g (q_parts db1)\<rparr>"
  have agg: "aggregate_parent_on done_at random lease (PartTransition_of (Sent_Delivered key)) ?db' = (outcome, db2)"
    using complete_held [OF ok1 _ fenced r(3) fp, of random "Sent_Delivered key"] res r(1) by (simp add: same(1) db1)
  let ?new = "parts[i := (parts ! i)\<lparr>p_status := Part_Delivered\<rparr>]"
  let ?h = "\<lambda>x. if fst x = p_id (parts ! i) then (fst x, Part_Delivered) else x"
  have parts': "parts_of ?l ?db' = map (\<lambda>q. if ?id q then ?g q else q) (map (\<lambda>q. if ?id q then ?f q else q) ?ps)"
    unfolding db1 by (subst parts_of_update, simp add: part_after_def, simp add: part_after_def,
      subst parts_of_update) simp_all
  have "?view (parts_of ?l ?db') = map ?h (?view ?ps)"
    unfolding parts' map_map by (rule map_cong [OF refl]) (simp add: part_after_def same(1))
  also have "\<dots> = map ?h (?view parts)" by (simp only: view)
  also have "\<dots> = (?view parts)[i := (p_id (parts ! i), Part_Delivered)]"
    using update_by_id [of fst "?view parts" i "\<lambda>x. (fst x, Part_Delivered)"] dist i(1) by simp
  also have "\<dots> = ?view ?new" using i(1) by (simp add: map_update)
  finally have view': "?view ?new = ?view (parts_of ?l ?db')" by simp
  have statuses: "part_statuses ?l ?db' = map p_status ?new"
    using arg_cong [OF view', of "map snd"] by (simp add: part_statuses_eq comp_def)
  have known': "set (map p_status ?new) \<subseteq> {Part_Prepared, Part_Retryable, Part_Delivered}"
    unfolding map_update by (rule subset_trans [OF set_update_subset_insert]) (use known in simp)
  show "(outcome = Applied Delivery_Sending
         \<and> in_hand done_at end_at lease (parts[i := (parts ! i)\<lparr>p_status := Part_Delivered\<rparr>]) db2
         \<and> list_ex is_unfinished (map p_status (parts[i := (parts ! i)\<lparr>p_status := Part_Delivered\<rparr>])))
       \<or> (outcome = Applied Delivery_Delivered
         \<and> (\<forall>p \<in> set (parts_of ?l db2). p_status p = Part_Delivered)
         \<and> (\<exists>r \<in> set (q_deliveries db2). d_id r = ?l \<and> d_status r = Delivery_Delivered))"
  proof (cases "list_ex is_unfinished (map p_status ?new)")
    case True
    have "Part_Sending \<notin> set (map p_status ?new)" using known' by auto
    then have "outcome = Applied Delivery_Sending" "db2 = ?db'"
      using agg aggregate_more [of lease ?db' done_at random key] True by (simp_all add: statuses)
    moreover have "queue_ok done_at db2"
      using moves_ok [OF ok1 complete_part_moves [OF ok1, where i = "{}" and random = random and fence = lease
        and part_id = "p_id (parts ! i)" and outcome = "Sent_Delivered key"]]
      by (simp add: res)
    ultimately show ?thesis
      using r known' view' True by (auto simp: in_hand_def db1)
  next
    case False
    have "set (part_statuses ?l ?db') = {Part_Delivered}"
    proof -
      have "set (map p_status ?new) \<subseteq> {Part_Delivered}" using known' False by (auto simp: list_ex_iff is_unfinished_def)
      moreover have "map p_status ?new \<noteq> []" using i(1) by auto
      ultimately show ?thesis unfolding statuses by (metis set_empty subset_singletonD)
    qed
    moreover have "distinct (map d_id (q_deliveries ?db'))" using ok1 by (simp add: queue_ok_def)
    moreover have "r \<in> set (q_deliveries ?db')" using r(1) by (simp add: db1)
    ultimately obtain db3 where db3: "(outcome, db2) = (Applied Delivery_Delivered, db3)" "q_parts db3 = q_parts ?db'"
      "\<exists>r' \<in> set (q_deliveries db3). d_id r' = ?l \<and> d_status r' = Delivery_Delivered"
      using aggregate_finished [of ?db' r lease done_at random key] fenced agg by metis
    have "parts_of ?l db2 = parts_of ?l ?db'" using db3 by (simp add: parts_of_def)
    then have "\<forall>p \<in> set (parts_of ?l db2). p_status p = Part_Delivered"
      using \<open>set (part_statuses ?l ?db') = {Part_Delivered}\<close> by (auto simp: part_statuses_eq)
    then show ?thesis using db3 by simp
  qed
qed

lemma calm_send_part:
  assumes calm: "calm env lease_for" and hand: "in_hand (tick_now (env (w_step w))) end_at lease parts (w_db w)"
    and i: "i < length parts" "is_unfinished (p_status (parts ! i))"
    and in_time: "tick_now (env (w_step w + 1)) \<le> end_at"
  shows "\<exists>w'. w_step w' = w_step w + 5 \<and>
      ((send_part env lease (p_id (parts ! i)) w = (Progress_Continue Part_Delivered, w')
         \<and> in_hand (tick_now (env (w_step w'))) end_at lease (parts[i := (parts ! i)\<lparr>p_status := Part_Delivered\<rparr>]) (w_db w')
         \<and> list_ex is_unfinished (map p_status (parts[i := (parts ! i)\<lparr>p_status := Part_Delivered\<rparr>])))
       \<or> (send_part env lease (p_id (parts ! i)) w = (Progress_Finished Delivery_Delivered, w')
         \<and> (\<forall>p \<in> set (parts_of (lease_row lease) (w_db w')). p_status p = Part_Delivered)
         \<and> (\<exists>r \<in> set (q_deliveries (w_db w')). d_id r = lease_row lease \<and> d_status r = Delivery_Delivered)))"
proof -
  let ?part = "p_id (parts ! i)" and ?w1 = "after_events [] w"
  let ?t = "env (Suc (w_step w))"
  let ?event = "(tick_now ?t, Begin (tick_admission ?t) (tick_expired ?t) lease ?part)"
  let ?entry = "begin_part (tick_admission ?t) (tick_expired ?t) (tick_now ?t) lease ?part (w_db w)"
  let ?w2 = "after_events [?event] ?w1"
  have admitted: "tick_admission ?t = NotWorkflow \<or> tick_admission ?t = Proceed \<and> \<not> tick_expired ?t"
    using calm by (simp add: calm_def admits_def)
  have begin_call: "call_begin env lease ?part ?w1 = (Some (fst ?entry), ?w2)"
    by (simp add: call_begin_def calm_call [OF calm])
  obtain key where provider: "call_provider env lease ?part ?w2 = (\<lparr>provider_outcome = Sent_Delivered key, interrupted = False\<rparr>,
      after_events [] ((after_events [] ?w2)\<lparr>w_requests := w_requests ?w2 @ [(lease, ?part)]\<rparr>))" (is "_ = (_, ?w3)")
    using calm_provider [OF calm] by blast
  let ?u = "env (w_step w + 4)"
  have db: "w_db ?w3 = snd ?entry" and at: "env (w_step ?w3) = ?u" by (simp_all add: eval_nat_numeral)
  obtain outcome db2 where res: "complete_part (tick_now ?u) (tick_random ?u) lease ?part (Sent_Delivered key) (snd ?entry)
      = (outcome, db2)" by fastforce
  let ?w4 = "after_events [(tick_now ?u, Complete (tick_random ?u) lease ?part (Sent_Delivered key))] ?w3"
  have complete_call: "call_complete env lease ?part (Sent_Delivered key) ?w3 = (Some outcome, ?w4)"
    unfolding call_complete_def calm_call [OF calm] at db by (simp only: res fst_conv)
  have db4: "w_db ?w4 = db2" using res by simp
  have step4: "w_step ?w4 = w_step w + 5" by (simp add: eval_nat_numeral)
  have clock: "tick_now (env (w_step w)) \<le> tick_now ?t" "tick_now ?t \<le> tick_now ?u" "tick_now ?u \<le> tick_now (env (w_step w + 5))"
    by (rule calm_clock [OF calm], simp)+
  note step = send_in_hand [OF hand i admitted clock(1) in_time [unfolded Suc_eq_plus1 [symmetric]] clock(2) refl res]
  have sent: "send_part env lease ?part w = (progress_of (Sent_Delivered key) (Some outcome), ?w4)"
    using step(1) by (simp add: send_part_def calm_shutdown [OF calm] begin_call provider complete_call Let_def)
  have "in_hand (tick_now (env (w_step ?w4))) end_at lease new (w_db ?w4)"
    if "in_hand (tick_now ?u) end_at lease new db2" for new
    unfolding step4 db4 by (rule in_hand_shift [OF that clock(3) order_refl])
  moreover obtain w4 where w4: "w4 = ?w4" by blast
  ultimately show ?thesis
    using step(2) sent db4 step4 unfolding w4 [symmetric]
    by (intro exI [of _ w4]) (auto simp: part_status_after_def)
qed

lemma filter_update_less:
  assumes "i < length xs" and "P (xs ! i)" and "\<not> P y"
  shows "length (filter P (xs[i := y])) < length (filter P xs)"
proof -
  have "filter P xs = filter P (take i xs) @ filter P [xs ! i] @ filter P (drop (Suc i) xs)"
    using id_take_nth_drop [OF assms(1)] by (metis append_Cons append_Nil filter_append)
  then show ?thesis using assms by (simp add: upd_conv_take_nth_drop)
qed

lemma calm_deliver_loop:
  assumes calm: "calm env lease_for"
    and "in_hand (tick_now (env (w_step w))) (tick_now (env (w_step w + 1))) lease parts (w_db w)" and "lease \<in> set held"
    and "length (filter (\<lambda>p. is_unfinished (p_status p)) parts) < fuel"
    and "list_ex is_unfinished (map p_status parts)"
  shows "\<exists>held' w'. deliver_loop fuel env lease_for lease parts held w = (Some Drain_Continue, held', w')
    \<and> (\<forall>p \<in> set (parts_of (lease_row lease) (w_db w')). p_status p = Part_Delivered)
    \<and> (\<exists>r \<in> set (q_deliveries (w_db w')). d_id r = lease_row lease \<and> d_status r = Delivery_Delivered)"
  using assms(2-)
proof (induction fuel arbitrary: parts held w)
  case (Suc fuel)
  let ?w1 = "after_events [] w" and ?P = "\<lambda>p. is_unfinished (p_status p)" and ?now = "\<lambda>k. tick_now (env (w_step w + k))"
  obtain i where index: "first_index ?P parts = Some i"
    using Suc.prems(4) first_index_None [of ?P parts] by (cases "first_index ?P parts") (auto simp: list_ex_iff)
  then have i: "i < length parts" "?P (parts ! i)" using first_index_Some by fastforce+
  let ?new = "parts[i := (parts ! i)\<lparr>p_status := Part_Delivered\<rparr>]"
  let ?renewed = "fst (renew_delivery_leases (?now 1) held lease_for (w_db w))"
  let ?held = "filter (\<lambda>l. lease_row l \<in> set ?renewed) held"
  let ?w2 = "after_events [(?now 1, Renew held lease_for)] ?w1"
  have clock: "?now j \<le> ?now k" if "j \<le> k" for j k by (rule calm_clock [OF calm]) (use that in simp)
  have "?now 8 < ?now 1 + int lease_for"
  proof -
    have "tick_now (env (w_step w + 1 + 7)) < ?now 1 + int lease_for" using calm unfolding calm_def by blast
    then show ?thesis by (simp add: add.commute)
  qed
  from renew_in_hand [OF in_hand_shift [OF Suc.prems(1) _ order_refl] Suc.prems(2) this]
  have renewed: "lease_row lease \<in> set ?renewed" and "in_hand (?now 1) (?now 8) lease parts (w_db ?w2)"
    using clock [of 0 1] clock [of 1 8] by simp_all
  from in_hand_shift [OF this(2) clock [of 1 2] order_refl] have
    hand: "in_hand (tick_now (env (w_step ?w2))) (?now 8) lease parts (w_db ?w2)" by (simp add: eval_nat_numeral)
  have renew: "batch_renew env lease_for (lease_row lease) held ?w1 = (True, ?held, ?w2)"
    using renewed Suc.prems(2) by (auto simp: batch_renew_def call_renew_def calm_call [OF calm] list_ex_iff Let_def)
  have held: "lease \<in> set ?held" using renewed Suc.prems(2) by simp
  have "tick_now (env (w_step ?w2 + 1)) \<le> ?now 8" using clock [of 3 8] by (simp add: eval_nat_numeral)
  from calm_send_part [OF calm hand i this] consider
      (more) w3 where "w_step w3 = w_step ?w2 + 5" "send_part env lease (p_id (parts ! i)) ?w2 = (Progress_Continue Part_Delivered, w3)"
        "in_hand (tick_now (env (w_step w3))) (?now 8) lease ?new (w_db w3)" "list_ex is_unfinished (map p_status ?new)"
    | (finished) w3 where "send_part env lease (p_id (parts ! i)) ?w2 = (Progress_Finished Delivery_Delivered, w3)"
        "\<forall>p \<in> set (parts_of (lease_row lease) (w_db w3)). p_status p = Part_Delivered"
        "\<exists>r \<in> set (q_deliveries (w_db w3)). d_id r = lease_row lease \<and> d_status r = Delivery_Delivered" by blast
  then show ?case
  proof cases
    case more
    have "w_step w3 + 1 = w_step w + 8" using more(1) by simp
    with more(3) have next_hand: "in_hand (tick_now (env (w_step w3))) (tick_now (env (w_step w3 + 1))) lease ?new (w_db w3)" by (simp only:)
    have "length (filter ?P ?new) < fuel"
      using filter_update_less [of i parts ?P "(parts ! i)\<lparr>p_status := Part_Delivered\<rparr>"] i Suc.prems(3)
      by (simp add: is_unfinished_def)
    from Suc.IH [OF next_hand held this more(4)] show ?thesis
      using more(2) index by (simp add: calm_shutdown [OF calm] renew Let_def)
  next
    case finished
    then show ?thesis using index by (simp add: calm_shutdown [OF calm] renew Let_def)
  qed
qed simp

section \<open>A concrete run\<close>

definition sample_tick :: tick where
  "sample_tick = \<lparr>tick_others = [], tick_now = 10, tick_reply = Answered, tick_shutdown = False,
     tick_admission = NotWorkflow, tick_expired = False, tick_random = (\<lambda>_. 0), tick_fresh = (\<lambda>_. 8),
     tick_skipped = [], tick_readable = (\<lambda>_ _. True), tick_provider = Provider_Answers (Sent_Delivered None)\<rparr>"

definition sample_world :: "queue_db \<Rightarrow> world" where
  "sample_world db = \<lparr>w_db = db, w_step = 0, w_history = [], w_requests = []\<rparr>"

lemmas worker_steps = call_renew_def call_begin_def call_complete_def storage_call_def shutdown_requested_def
  after_events_def send_part_def call_provider_def batch_renew_def deliver_def batch_finish_def BatchLeases_of_def
  renew_delivery_leases_def live_fence_def begin_part_def

definition sample_claim :: claimed_delivery where
  "sample_claim = \<lparr>claimed_lease = \<lparr>lease_row = 1, lease_execution = 8, lease_owner = 3, lease_expires_at = 120000000010\<rparr>,
     claimed_record = claimed_row (\<lambda>_. 8) 10 3 120000000000 (sample_row Delivery_Pending None 5),
     claimed_parts = [sample_part Part_Prepared]\<rparr>"

lemma sample_claimed:
  "call_claim (\<lambda>_. sample_tick) 3 120000000000 (sample_world (sample_queue Delivery_Pending None 5 Part_Prepared)) =
     (Some (Ok [sample_claim]), \<lparr>w_db = \<lparr>q_deliveries = [claimed_record sample_claim], q_parts = [sample_part Part_Prepared]\<rparr>,
       w_step = 1, w_history = [(10, Claim (\<lambda>_ _. True) (\<lambda>_. 8) [] 3 120000000000 20)], w_requests = []\<rparr>)"
  by (simp add: sample_claim_def call_claim_def storage_call_def sample_tick_def sample_world_def after_events_def
      claim_deliveries_def Let_def claim_batch_def claimable_def sample_queue_def sample_row_def delivery_is_claimable_def
      dependency_delivered_def update_where_def claimed_row_def claimed_of_def row_lease_def guard_def sample_part_def
      DELIVERY_CLAIM_BATCH_def)

lemma interleave_one: "interleave scope 4 [x] = Ok [x]"
  by (simp add: interleave_def group_by_def group_insert_def drain_rounds.simps drain_pass_def drain_left_def)

lemma sample_drained:
  "\<exists>result w'. drain_once 2 (\<lambda>_. sample_tick) (\<lambda>_. True) 3 120000000000
      (sample_world (sample_queue Delivery_Pending None 5 Part_Prepared)) = (result, w')
    \<and> admissible {7} 5 (w_history w') \<and> length (w_requests w') = 1"
  apply (simp add: drain_once_def sample_claimed fair_order_def PER_COMPANY_BATCH_SHARE_def interleave_one)
  apply (simp add: worker_steps completion_steps sample_tick_def sample_claim_def claimed_row_def numeral_2_eq_2
      aggregate_parent_status_def del: set_filter)
  done

section \<open>Properties\<close>

text \<open>
  C5. Nothing is sent twice by a worker. However many turns a drain has made, finished or not,
  and whatever other workers, cancellations, sweeps and reconciliations do in between, whichever
  replies are lost and whenever a shutdown comes, the requests handed to the provider for a part
  number at most one if the part was unsent (none if it was in flight, delivered, ambiguous or
  dead), and one more for each time the provider reported a safe refusal of it or verified
  evidence queued it again.
\<close>

theorem worker_sends_a_part_once_per_refusal:
  assumes "drain_once fuel env registered worker lease_for w = (result, w')"
    and "w_history w = []" and "w_requests w = []" and "queue_ok t (w_db w)"
    and "admissible used t (w_history w')" and "p \<in> set (q_parts (w_db w))"
  shows "requests_of (p_id p) (w_requests w') \<le>
    (if is_unfinished (p_status p) then 1 else 0) + sum_list (map (\<lambda>e. refused (snd e) (p_id p)) (w_history w'))
      + sum_list (map (\<lambda>e. reopened (snd e) (p_id p)) (w_history w'))"
proof -
  let ?es = "w_history w'"
  have sent: "requests_of (p_id p) (w_requests w') \<le> entered (w_db w) ?es (p_id p)"
    using drain_once_proceeds [of w fuel env registered worker lease_for] assms(1-3) by (auto simp: proceeds_def)
  obtain p' where p': "part_steps (evidenced ?es) (times_again ?es) p p'"
    "p_attempt_count p + int (entered (w_db w) ?es (p_id p)) \<le> p_attempt_count p'"
    using history_counts [OF assms(5,4,6)] by blast
  have "part_ok p" using assms(4,6) by (simp add: queue_ok_def)
  then have "owed p' \<le> owed p + int (times_again ?es (p_id p))" using p'(1) by (simp add: part_steps_def)
  then show ?thesis using sent p'(2) by (simp add: owed_def times_again_sum split: if_splits)
qed

theorem worker_sends_a_part_once_per_refusal_witness:
  "\<exists>w' :: world. requests_of 2 (w_requests w') \<le> 1 + sum_list (map (\<lambda>e. refused (snd e) 2) (w_history w'))
       + sum_list (map (\<lambda>e. reopened (snd e) 2) (w_history w'))
     \<and> length (w_requests w') = 1"
proof -
  let ?db = "sample_queue Delivery_Pending None 5 Part_Prepared"
  obtain result w' where run: "drain_once 2 (\<lambda>_. sample_tick) (\<lambda>_. True) 3 120000000000 (sample_world ?db) = (result, w')"
    "admissible {7} 5 (w_history w')" "length (w_requests w') = 1" using sample_drained by blast
  have "queue_ok 5 ?db"
    by (simp add: queue_ok_def sample_queue_def sample_row_def sample_part_def row_checks part_ok_def)
  moreover have "sample_part Part_Prepared \<in> set (q_parts ?db)" by (simp add: sample_queue_def)
  ultimately have "requests_of 2 (w_requests w') \<le> 1 + sum_list (map (\<lambda>e. refused (snd e) 2) (w_history w'))
       + sum_list (map (\<lambda>e. reopened (snd e) 2) (w_history w'))"
    using worker_sends_a_part_once_per_refusal [OF run(1), of 5 "{7}" "sample_part Part_Prepared"] run(2)
    by (simp add: sample_world_def sample_part_def is_unfinished_def)
  then show ?thesis using run(3) by blast
qed



text \<open>
  A batch is interleaved fairly: \<open>fair_order\<close> always returns, permutes the batch, keeps the
  order of the deliveries of one company, and before a delivery that has \<open>n\<close> of its own company
  ahead of it no other company has had more than four deliveries in each of the \<open>n div 4 + 1\<close>
  passes so far.
\<close>

theorem batches_are_interleaved_fairly:
  "\<exists>ordered. fair_order claimed = Ok ordered \<and> mset ordered = mset claimed
     \<and> (\<forall>company. of_scope (\<lambda>c. d_company_id (claimed_record c)) company ordered =
          of_scope (\<lambda>c. d_company_id (claimed_record c)) company claimed)
     \<and> (\<forall>before y after company. ordered = before @ y # after \<longrightarrow>
          length (of_scope (\<lambda>c. d_company_id (claimed_record c)) company before) \<le> 4 *
            (length (of_scope (\<lambda>c. d_company_id (claimed_record c)) (d_company_id (claimed_record y)) before) div 4 + 1))"
proof -
  obtain ordered where ordered: "interleave (\<lambda>c. d_company_id (claimed_record c)) PER_COMPANY_BATCH_SHARE claimed = Ok ordered"
    using delivery_batches.interleave_Ok by blast
  have "length (of_scope (\<lambda>c. d_company_id (claimed_record c)) company before) \<le> 4 *
      (length (of_scope (\<lambda>c. d_company_id (claimed_record c)) (d_company_id (claimed_record y)) before) div 4 + 1)"
    if "ordered = before @ y # after" for before y after company
    using delivery_batches.interleave_fair [OF ordered [unfolded that], of company]
    unfolding PER_COMPANY_BATCH_SHARE_def .
  then show ?thesis
    using ordered delivery_batches.interleave_permutes [OF ordered] delivery_batches.interleave_scope [OF ordered]
    by (auto simp: fair_order_def)
qed

theorem batches_are_interleaved_fairly_witness:
  "\<exists>ordered. fair_order (replicate 5 sample_claim @ [sample_claim\<lparr>claimed_record := (claimed_record sample_claim)\<lparr>d_company_id := 4\<rparr>\<rparr>])
      = Ok ordered \<and> length ordered = 6
     \<and> (\<forall>before y after. ordered = before @ y # after \<and> d_company_id (claimed_record y) = 4 \<and>
          of_scope (\<lambda>c. d_company_id (claimed_record c)) 4 before = [] \<longrightarrow>
          length (of_scope (\<lambda>c. d_company_id (claimed_record c)) 9 before) \<le> 4)"
proof -
  let ?batch = "replicate 5 sample_claim @ [sample_claim\<lparr>claimed_record := (claimed_record sample_claim)\<lparr>d_company_id := 4\<rparr>\<rparr>]"
  obtain ordered where o: "fair_order ?batch = Ok ordered" "mset ordered = mset ?batch"
    "\<And>before y after company. ordered = before @ y # after \<Longrightarrow>
       length (of_scope (\<lambda>c. d_company_id (claimed_record c)) company before) \<le> 4 *
         (length (of_scope (\<lambda>c. d_company_id (claimed_record c)) (d_company_id (claimed_record y)) before) div 4 + 1)"
    using batches_are_interleaved_fairly [of ?batch] by blast
  have "length ordered = length ?batch" by (rule mset_eq_length [OF o(2)])
  then have "length ordered = 6" by simp
  moreover have "length (of_scope (\<lambda>c. d_company_id (claimed_record c)) 9 before) \<le> 4"
    if "ordered = before @ y # after" "d_company_id (claimed_record y) = 4"
      "of_scope (\<lambda>c. d_company_id (claimed_record c)) 4 before = []" for before y after
    using o(3) [OF that(1), of 9] that(2,3) by simp
  ultimately show ?thesis using o(1) by blast
qed

end
