(* ===== verification/App_Error.thy ===== *)
theory App_Error
  imports Access_Level Engine
begin

text \<open>
  The errors of the application: \<open>src/src/application/app_error.rs\<close>, with the texts they
  display, the terminal categories of an execution, and the recognition of a refusal by a
  workflow guard of the database from the name of the constraint it reports.
\<close>

section \<open>Terminal executions and database guards\<close>

datatype execution_failure =
    InvalidOutput | Budget_Failure | RepeatedToolCall | Protocol_Failure | IndeterminateEffect
  | CheckpointDenied | OwnershipLost

fun execution_failure_text :: "execution_failure \<Rightarrow> string" where
  "execution_failure_text InvalidOutput = ''structured final response is invalid''"
| "execution_failure_text Budget_Failure = ''execution budget exhausted''"
| "execution_failure_text RepeatedToolCall = ''model repeated tool calls whose results no longer change''"
| "execution_failure_text Protocol_Failure = ''invalid provider or checkpoint protocol''"
| "execution_failure_text IndeterminateEffect = ''indeterminate effect requires reconciliation''"
| "execution_failure_text CheckpointDenied = ''human checkpoint rejected or expired''"
| "execution_failure_text OwnershipLost = ''execution ownership lost''"

definition WORKFLOW_GUARD_PREFIX :: string where
  "WORKFLOW_GUARD_PREFIX = ''workflow_guard:''"

definition strip_prefix :: "string \<Rightarrow> string \<Rightarrow> string option" where
  "strip_prefix p s = (if take (length p) s = p then Some (drop (length p) s) else None)"

record workflow_guard_violation =
  violation_guard :: string
  violation_message :: string

definition guard_byte :: "char \<Rightarrow> bool" where
  "guard_byte c \<longleftrightarrow> 97 \<le> (of_char c :: nat) \<and> (of_char c :: nat) \<le> 122 \<or> is_ascii_digit c \<or> c = CHR ''_''"

definition from_constraint :: "string \<Rightarrow> string \<Rightarrow> workflow_guard_violation option" where
  "from_constraint constraint message =
     (case strip_prefix WORKFLOW_GUARD_PREFIX constraint of
        None \<Rightarrow> None
      | Some name \<Rightarrow>
          if 1 \<le> length name \<and> length name \<le> 63 \<and> list_all guard_byte name
          then Some \<lparr>violation_guard = name, violation_message = message\<rparr> else None)"

definition violation_text :: "workflow_guard_violation \<Rightarrow> string" where
  "violation_text v = violation_guard v @ '': '' @ violation_message v"

section \<open>Errors\<close>

datatype app_error =
    KnowledgeTrigger access_level access_level
  | KnowledgeRelease access_level access_level
  | ExecutionError execution_failure
  | DatabaseError string
  | DatabaseTimeout string
  | WorkflowGuard workflow_guard_violation
  | InvalidCredentials
  | ServiceUnavailable string
  | BadRequest string
  | NotFound string
  | Forbidden string
  | ConflictError string
  | SupersededError string
  | TimeoutError string
  | InternalError string

fun app_error_text :: "app_error \<Rightarrow> string" where
  "app_error_text (KnowledgeTrigger content ceiling) = ''The triggering message exceeds this audience's access level''"
| "app_error_text (KnowledgeRelease content destination) = ''The destination cannot receive this run's content''"
| "app_error_text (ExecutionError e) = ''Execution stopped: '' @ execution_failure_text e"
| "app_error_text (DatabaseError s) = ''Database error: '' @ s"
| "app_error_text (DatabaseTimeout s) = ''Database timed out: '' @ s"
| "app_error_text (WorkflowGuard v) = ''Workflow guard '' @ violation_text v"
| "app_error_text InvalidCredentials = ''Invalid credentials''"
| "app_error_text (ServiceUnavailable s) = ''Service unavailable: '' @ s"
| "app_error_text (BadRequest s) = ''Bad request: '' @ s"
| "app_error_text (NotFound s) = ''Not found: '' @ s"
| "app_error_text (Forbidden s) = ''Forbidden: '' @ s"
| "app_error_text (ConflictError s) = ''Conflict: '' @ s"
| "app_error_text (SupersededError s) = ''Superseded: '' @ s"
| "app_error_text (TimeoutError s) = ''Execution timed out: '' @ s"
| "app_error_text (InternalError s) = ''Internal error: '' @ s"

definition KNOWLEDGE_TRIGGER_ABOVE_CEILING :: string where
  "KNOWLEDGE_TRIGGER_ABOVE_CEILING = ''knowledge.trigger_above_ceiling''"

fun knowledge_code :: "app_error \<Rightarrow> string option" where
  "knowledge_code (KnowledgeTrigger _ _) = Some KNOWLEDGE_TRIGGER_ABOVE_CEILING"
| "knowledge_code (KnowledgeRelease _ _) = Some KNOWLEDGE_AUDIENCE_BELOW_CONTENT"
| "knowledge_code _ = None"

section \<open>Guards are named by their constraints\<close>

text \<open>
  A violation is recognised exactly from the prefixed names of one to sixty-three lower-case
  letters, digits and underscores, and it keeps the name and the diagnostic apart.
\<close>

theorem guard_violations_are_recognised_exactly:
  "from_constraint constraint message = Some v
   \<longleftrightarrow> constraint = WORKFLOW_GUARD_PREFIX @ violation_guard v \<and> violation_message v = message
       \<and> violation_guard v \<noteq> [] \<and> length (violation_guard v) \<le> 63
       \<and> (\<forall>c \<in> set (violation_guard v). guard_byte c)"
proof -
  have prefix: "take (length p) s = p \<longleftrightarrow> s = p @ drop (length p) s" for p s :: string
    by (metis append_eq_conv_conj)
  show ?thesis
    by (cases v) (auto simp: from_constraint_def strip_prefix_def prefix list_all_iff Suc_le_eq split: if_splits)
qed

end
