(* ===== verification/Inbox.thy ===== *)
theory Inbox
  imports Delivery_Queue Bounded_Text
begin

text \<open>
  The durable inbox of authenticated provider events:
  \<open>src/src/adapters/persistence/inbound_event/mod.rs\<close> with the types of
  \<open>src/src/application/transport/inbox.rs\<close>.

  The table is a list of rows with distinct ids. Every statement of the adapter is its own
  transaction, so an error that follows a statement does not undo it. The digest of a payload
  is the parameter \<open>sha256\<close>; \<open>CURRENT_TIMESTAMP\<close>, generated ids, \<open>random()\<close> and the rows that
  \<open>SKIP LOCKED\<close> passes over are arguments. Instants are nanoseconds, durations are read in
  whole seconds. Byte strings are lists of bytes.
\<close>

section \<open>Bounded values\<close>

definition MAX_INBOUND_EVENT_PAYLOAD_BYTES :: nat where
  "MAX_INBOUND_EVENT_PAYLOAD_BYTES = 1024 * 1024"

definition MAX_INBOUND_CONTENT_TYPE_BYTES :: nat where
  "MAX_INBOUND_CONTENT_TYPE_BYTES = 255"

definition MAX_EXTERNAL_EVENT_KEY_BYTES :: nat where
  "MAX_EXTERNAL_EVENT_KEY_BYTES = 512"

definition MAX_SAFE_HEADER_FACTS :: nat where
  "MAX_SAFE_HEADER_FACTS = 16"

definition MAX_SAFE_HEADER_NAME_BYTES :: nat where
  "MAX_SAFE_HEADER_NAME_BYTES = 64"

definition MAX_SAFE_HEADER_VALUE_BYTES :: nat where
  "MAX_SAFE_HEADER_VALUE_BYTES = 256"

definition MAX_INBOUND_EVENT_ATTEMPTS :: int where
  "MAX_INBOUND_EVENT_ATTEMPTS = 5"

definition INBOUND_EVENT_CLAIM_BATCH :: int where
  "INBOUND_EVENT_CLAIM_BATCH = 8"

definition INBOUND_EVENT_LEASE_SECONDS :: int where
  "INBOUND_EVENT_LEASE_SECONDS = 120"

datatype inbound_payload_error = Payload_Empty | Payload_TooLarge nat nat

definition InboundEventPayload_parse :: "string \<Rightarrow> (string, inbound_payload_error) outcome" where
  "InboundEventPayload_parse bytes =
     (if bytes = [] then Err Payload_Empty
      else if length bytes > MAX_INBOUND_EVENT_PAYLOAD_BYTES
      then Err (Payload_TooLarge (length bytes) MAX_INBOUND_EVENT_PAYLOAD_BYTES)
      else Ok bytes)"

datatype inbound_digest_error = Digest_Length nat

definition InboundPayloadDigest_parse :: "string \<Rightarrow> (string, inbound_digest_error) outcome" where
  "InboundPayloadDigest_parse bytes =
     (if length bytes = 32 then Ok bytes else Err (Digest_Length (length bytes)))"

datatype safe_header_facts_error =
    Facts_TooMany nat nat
  | Facts_Empty
  | Facts_TooLong nat
  | Facts_ControlCharacter
  | Facts_InvalidName

definition validate_header_component ::
    "string \<Rightarrow> nat \<Rightarrow> bool \<Rightarrow> (unit, safe_header_facts_error) outcome" where
  "validate_header_component s max_bytes require_token =
     (if s = [] then Err Facts_Empty
      else if length s > max_bytes then Err (Facts_TooLong max_bytes)
      else if list_ex is_control (str_chars s) then Err Facts_ControlCharacter
      else if require_token \<and> \<not> list_all (\<lambda>c. 97 \<le> byte_of c \<and> byte_of c \<le> 122 \<or> is_ascii_digit c \<or> c = CHR ''_'') s
      then Err Facts_InvalidName
      else Ok ())"

definition check_fact :: "string \<times> string \<Rightarrow> unit \<Rightarrow> (unit, safe_header_facts_error) outcome" where
  "check_fact p u =
     bindr (validate_header_component (fst p) MAX_SAFE_HEADER_NAME_BYTES True) (\<lambda>_.
     validate_header_component (snd p) MAX_SAFE_HEADER_VALUE_BYTES False)"

definition SafeHeaderFacts_parse ::
    "(string, string) btree_map \<Rightarrow> ((string, string) btree_map, safe_header_facts_error) outcome" where
  "SafeHeaderFacts_parse facts =
     (if length facts > MAX_SAFE_HEADER_FACTS
      then Err (Facts_TooMany (length facts) MAX_SAFE_HEADER_FACTS)
      else bindr (for_each check_fact facts ()) (\<lambda>_. Ok facts))"

section \<open>The port\<close>

record authenticated_inbound_event =
  a_transport :: transport_kind
  a_company_id :: uuid
  a_installation_id :: "uuid option"
  a_external_event_key :: string
  a_correlation_id :: uuid
  a_payload :: string
  a_content_type :: "string option"
  a_safe_header_facts :: "(string, string) btree_map"
  a_received_at :: instant

datatype inbound_event_store_outcome = Stored uuid | Duplicate uuid

fun event_id :: "inbound_event_store_outcome \<Rightarrow> uuid" where
  "event_id (Stored i) = i"
| "event_id (Duplicate i) = i"

fun was_stored :: "inbound_event_store_outcome \<Rightarrow> bool" where
  "was_stored (Stored _) = True"
| "was_stored (Duplicate _) = False"

record inbound_event_record =
  r_id :: uuid
  r_company_id :: uuid
  r_installation_id :: "uuid option"
  r_transport :: transport_kind
  r_external_event_key :: string
  r_correlation_id :: uuid
  r_payload :: string
  r_payload_digest :: string
  r_content_type :: "string option"
  r_safe_header_facts :: "(string, string) btree_map"
  r_attempt_count :: int
  r_max_attempts :: int
  r_received_at :: instant

record claimed_inbound_event =
  event_lease :: execution_lease
  event_record :: inbound_event_record

datatype inbound_event_transition = Event_Applied inbound_event_status | Event_LeaseLost

record inbound_event_retention =
  completed_deleted :: nat
  ignored_deleted :: nat
  dead_letters_deleted :: nat

text \<open>Retention in seconds.\<close>

record inbound_retention_policy =
  completed_for :: int
  ignored_for :: int
  dead_letters_for :: int
  batch_size :: int

definition InboundRetentionPolicy_default :: inbound_retention_policy where
  "InboundRetentionPolicy_default = \<lparr>completed_for = 24 * 60 * 60, ignored_for = 24 * 60 * 60,
     dead_letters_for = 30 * 24 * 60 * 60, batch_size = 1000\<rparr>"

record event_census =
  census_pending :: nat
  census_processing :: nat
  census_retryable :: nat
  census_completed :: nat
  census_ignored :: nat
  census_dead_letter :: nat
  oldest_ready_age :: "int option"

section \<open>Rows\<close>

record inbound_event_db =
  e_id :: uuid
  e_company_id :: uuid
  e_installation_id :: "uuid option"
  e_transport :: transport_kind
  e_external_event_key :: string
  e_correlation_id :: uuid
  e_raw_payload :: string
  e_content_type :: "string option"
  e_content_hash :: string
  e_safe_header_facts :: "(string, string) btree_map"
  e_status :: inbound_event_status
  e_attempt_count :: int
  e_max_attempts :: int
  e_available_at :: instant
  e_last_error_class :: "inbound_event_error_class option"
  e_last_error_detail :: "string option"
  e_ignore_reason :: "inbound_event_ignore_reason option"
  e_execution_id :: "uuid option"
  e_owner_worker_id :: "uuid option"
  e_locked_at :: "instant option"
  e_lock_expires_at :: "instant option"
  e_received_at :: instant
  e_processed_at :: "instant option"
  e_created_at :: instant
  e_updated_at :: instant

type_synonym inbox = "inbound_event_db list"

datatype inbox_error =
    Inbox_Unreadable uuid string
  | Inbox_Internal string
  | Inbox_Conflict string
  | Inbox_Database

definition row_error :: "uuid \<Rightarrow> string \<Rightarrow> ('a, 'e) outcome \<Rightarrow> ('a, inbox_error) outcome" where
  "row_error i column r = map_err (\<lambda>_. Inbox_Unreadable i column) r"

definition InboundEventDb_record :: "inbound_event_db \<Rightarrow> (inbound_event_record, inbox_error) outcome" where
  "InboundEventDb_record e =
     bindr (row_error (e_id e) ''external_event_key''
       (bounded_parse MAX_EXTERNAL_EVENT_KEY_BYTES (e_external_event_key e))) (\<lambda>key.
     bindr (row_error (e_id e) ''raw_payload'' (InboundEventPayload_parse (e_raw_payload e))) (\<lambda>payload.
     bindr (row_error (e_id e) ''content_hash'' (InboundPayloadDigest_parse (e_content_hash e))) (\<lambda>digest.
     bindr (row_error (e_id e) ''content_type''
       (case e_content_type e of
          None \<Rightarrow> Ok None
        | Some t \<Rightarrow> bindr (bounded_parse MAX_INBOUND_CONTENT_TYPE_BYTES t) (\<lambda>t. Ok (Some t)))) (\<lambda>content_type.
     bindr (row_error (e_id e) ''safe_header_facts'' (SafeHeaderFacts_parse (e_safe_header_facts e))) (\<lambda>facts.
     Ok \<lparr>r_id = e_id e, r_company_id = e_company_id e, r_installation_id = e_installation_id e,
       r_transport = e_transport e, r_external_event_key = key, r_correlation_id = e_correlation_id e,
       r_payload = payload, r_payload_digest = digest, r_content_type = content_type,
       r_safe_header_facts = facts, r_attempt_count = e_attempt_count e, r_max_attempts = e_max_attempts e,
       r_received_at = e_received_at e\<rparr>)))))"

definition InboundEventDb_claimed :: "inbound_event_db \<Rightarrow> (claimed_inbound_event, inbox_error) outcome" where
  "InboundEventDb_claimed e =
     bindr (ok_or (e_execution_id e) (Inbox_Internal ''has no execution id'')) (\<lambda>execution.
     bindr (ok_or (e_owner_worker_id e) (Inbox_Internal ''has no owner'')) (\<lambda>owner.
     bindr (ok_or (e_lock_expires_at e) (Inbox_Internal ''has no expiry'')) (\<lambda>expires.
     bindr (InboundEventDb_record e) (\<lambda>record.
     Ok \<lparr>event_lease = \<lparr>lease_row = e_id e, lease_execution = execution, lease_owner = owner,
           lease_expires_at = expires\<rparr>,
         event_record = record\<rparr>))))"

section \<open>Storing\<close>

definition event_key :: "inbound_event_db \<Rightarrow> uuid \<times> transport_kind \<times> string" where
  "event_key e = (e_company_id e, e_transport e, e_external_event_key e)"

definition offered_key :: "authenticated_inbound_event \<Rightarrow> uuid \<times> transport_kind \<times> string" where
  "offered_key a = (a_company_id a, a_transport a, a_external_event_key a)"

text \<open>The inserted row, with the defaults of the table.\<close>

definition new_event_row :: "(string \<Rightarrow> string) \<Rightarrow> uuid \<Rightarrow> instant \<Rightarrow> authenticated_inbound_event \<Rightarrow> inbound_event_db" where
  "new_event_row sha256 i now a = \<lparr>e_id = i, e_company_id = a_company_id a, e_installation_id = a_installation_id a,
     e_transport = a_transport a, e_external_event_key = a_external_event_key a,
     e_correlation_id = a_correlation_id a, e_raw_payload = a_payload a, e_content_type = a_content_type a,
     e_content_hash = sha256 (a_payload a), e_safe_header_facts = a_safe_header_facts a,
     e_status = Inbound_Pending, e_attempt_count = 0, e_max_attempts = MAX_INBOUND_EVENT_ATTEMPTS,
     e_available_at = now, e_last_error_class = None, e_last_error_detail = None, e_ignore_reason = None,
     e_execution_id = None, e_owner_worker_id = None, e_locked_at = None, e_lock_expires_at = None,
     e_received_at = a_received_at a, e_processed_at = None, e_created_at = now, e_updated_at = now\<rparr>"

text \<open>
  \<open>INSERT .. ON CONFLICT (company_id, transport, external_event_key) DO NOTHING RETURNING id\<close>.
  A conflict on the primary key or on the installation check is a database error.
\<close>

definition insert_event ::
    "(string \<Rightarrow> string) \<Rightarrow> uuid \<Rightarrow> instant \<Rightarrow> authenticated_inbound_event \<Rightarrow> inbox
      \<Rightarrow> (uuid option, inbox_error) outcome \<times> inbox" where
  "insert_event sha256 i now a db =
     (if requires_installation (a_transport a) \<noteq> (a_installation_id a \<noteq> None) then (Err Inbox_Database, db)
      else if list_ex (\<lambda>e. event_key e = offered_key a) db then (Ok None, db)
      else if list_ex (\<lambda>e. e_id e = i) db then (Err Inbox_Database, db)
      else (Ok (Some i), db @ [new_event_row sha256 i now a]))"

definition existing_event ::
    "(string \<Rightarrow> string) \<Rightarrow> authenticated_inbound_event \<Rightarrow> inbox \<Rightarrow> (inbound_event_store_outcome, inbox_error) outcome" where
  "existing_event sha256 a db =
     (case find (\<lambda>e. event_key e = offered_key a) db of
        None \<Rightarrow> Err (Inbox_Internal ''Inbound event deduplication conflict vanished before it could be read'')
      | Some e \<Rightarrow>
          if e_installation_id e \<noteq> a_installation_id a \<or> e_content_hash e \<noteq> sha256 (a_payload a)
          then Err (Inbox_Conflict (a_external_event_key a))
          else Ok (Duplicate (e_id e)))"

text \<open>\<open>between\<close> is what others commit between the two statements.\<close>

definition store_authenticated ::
    "(string \<Rightarrow> string) \<Rightarrow> uuid \<Rightarrow> instant \<Rightarrow> (inbox \<Rightarrow> inbox) \<Rightarrow> authenticated_inbound_event \<Rightarrow> inbox
      \<Rightarrow> (inbound_event_store_outcome, inbox_error) outcome \<times> inbox" where
  "store_authenticated sha256 i now between a db =
     (case insert_event sha256 i now a db of
        (Ok (Some j), db') \<Rightarrow> (Ok (Stored j), db')
      | (Ok None, db') \<Rightarrow> (existing_event sha256 a (between db'), between db')
      | (Err e, db') \<Rightarrow> (Err e, db')
      | (Panic, db') \<Rightarrow> (Panic, db'))"

section \<open>Claiming and fencing\<close>

definition clear_event_lease :: "inbound_event_db \<Rightarrow> inbound_event_db" where
  "clear_event_lease e = e\<lparr>e_execution_id := None, e_owner_worker_id := None, e_locked_at := None,
     e_lock_expires_at := None\<rparr>"

definition event_claimable :: "instant \<Rightarrow> inbound_event_db \<Rightarrow> bool" where
  "event_claimable now e \<longleftrightarrow> inbound_is_claimable (e_status e) \<and> e_available_at e \<le> now"

definition event_batch :: "instant \<Rightarrow> uuid list \<Rightarrow> nat \<Rightarrow> inbox \<Rightarrow> uuid list" where
  "event_batch now skipped limit db =
     map e_id (take limit (sort_key (\<lambda>e. (e_available_at e, e_received_at e, e_id e))
       (filter (\<lambda>e. event_claimable now e \<and> e_id e \<notin> set skipped) db)))"

definition claimed_event_row :: "(uuid \<Rightarrow> uuid) \<Rightarrow> instant \<Rightarrow> uuid \<Rightarrow> int \<Rightarrow> inbound_event_db \<Rightarrow> inbound_event_db" where
  "claimed_event_row fresh now owner lease_seconds e = e\<lparr>e_status := Inbound_Processing,
     e_execution_id := Some (fresh (e_id e)), e_owner_worker_id := Some owner, e_locked_at := Some now,
     e_lock_expires_at := Some (now + lease_seconds * 1000000000), e_last_error_class := None,
     e_last_error_detail := None, e_processed_at := None, e_updated_at := now\<rparr>"

text \<open>The statement commits before its rows are read, so an unreadable row loses the whole batch.\<close>

definition claim_inbound_events ::
    "(uuid \<Rightarrow> uuid) \<Rightarrow> uuid list \<Rightarrow> instant \<Rightarrow> uuid \<Rightarrow> nat \<Rightarrow> int \<Rightarrow> inbox
      \<Rightarrow> (claimed_inbound_event list, inbox_error) outcome \<times> inbox" where
  "claim_inbound_events fresh skipped now owner lease_for limit db =
     (let bounded = nat (max 1 (min limit 100));
          lease_seconds = max 1 (min (int (lease_for div 1000000000)) 3600);
          ids = event_batch now skipped bounded db;
          db' = update_where (\<lambda>e. e_id e \<in> set ids) (claimed_event_row fresh now owner lease_seconds) db
      in (map_rows InboundEventDb_claimed (filter (\<lambda>e. e_id e \<in> set ids) db'), db'))"

definition event_fence :: "execution_lease \<Rightarrow> instant \<Rightarrow> inbound_event_db \<Rightarrow> bool" where
  "event_fence fence now e \<longleftrightarrow> e_id e = lease_row fence \<and> e_status e = Inbound_Processing
     \<and> e_execution_id e = Some (lease_execution fence) \<and> e_owner_worker_id e = Some (lease_owner fence)
     \<and> (case e_lock_expires_at e of Some t \<Rightarrow> t > now | None \<Rightarrow> False)"

definition renew_inbound_event_lease ::
    "instant \<Rightarrow> execution_lease \<Rightarrow> instant \<Rightarrow> inbox \<Rightarrow> bool \<times> inbox" where
  "renew_inbound_event_lease now fence until db =
     (let held = (\<lambda>e. event_fence fence now e \<and> until > now)
      in (rows_affected held db = 1,
          update_where held (\<lambda>e. e\<lparr>e_lock_expires_at := Some until, e_updated_at := now\<rparr>) db))"

fun transition :: "bool \<Rightarrow> inbound_event_status \<Rightarrow> inbound_event_transition" where
  "transition applied status = (if applied then Event_Applied status else Event_LeaseLost)"

definition complete_inbound_event_on :: "instant \<Rightarrow> execution_lease \<Rightarrow> inbox \<Rightarrow> bool \<times> inbox" where
  "complete_inbound_event_on now fence db =
     (rows_affected (event_fence fence now) db = 1,
      update_where (event_fence fence now) (\<lambda>e. clear_event_lease (e\<lparr>e_status := Inbound_Completed,
        e_processed_at := Some now, e_updated_at := now\<rparr>)) db)"

definition complete_inbound_event ::
    "instant \<Rightarrow> execution_lease \<Rightarrow> inbox \<Rightarrow> inbound_event_transition \<times> inbox" where
  "complete_inbound_event now fence db =
     (let (applied, db') = complete_inbound_event_on now fence db
      in (transition applied Inbound_Completed, db'))"

definition ignore_inbound_event ::
    "instant \<Rightarrow> execution_lease \<Rightarrow> inbound_event_ignore_reason \<Rightarrow> inbox \<Rightarrow> inbound_event_transition \<times> inbox" where
  "ignore_inbound_event now fence reason db =
     (transition (rows_affected (event_fence fence now) db = 1) Inbound_Ignored,
      update_where (event_fence fence now) (\<lambda>e. clear_event_lease (e\<lparr>e_status := Inbound_Ignored,
        e_ignore_reason := Some reason, e_processed_at := Some now, e_updated_at := now\<rparr>)) db)"

section \<open>Failures and the sweep\<close>

definition inbound_retry_delay :: "int \<Rightarrow> rat \<Rightarrow> int" where
  "inbound_retry_delay attempts r =
     round (of_int (min 600 (2 * 2 ^ nat (min attempts 16))) * (8 / 10 + r * (4 / 10)) * 1000000) * 1000"

definition event_attempt_failed ::
    "instant \<Rightarrow> (uuid \<Rightarrow> rat) \<Rightarrow> inbound_event_error_class \<Rightarrow> string \<Rightarrow> inbound_event_db \<Rightarrow> inbound_event_db" where
  "event_attempt_failed now random class detail e =
     (let exhausted = (e_attempt_count e + 1 \<ge> e_max_attempts e) in
      clear_event_lease (e\<lparr>e_status := (if exhausted then Inbound_DeadLetter else Inbound_Retryable),
        e_attempt_count := e_attempt_count e + 1,
        e_available_at := now + inbound_retry_delay (e_attempt_count e + 1) (random (e_id e)),
        e_last_error_class := Some class, e_last_error_detail := Some detail,
        e_processed_at := (if exhausted then Some now else None), e_updated_at := now\<rparr>))"

definition settle_failure ::
    "instant \<Rightarrow> (uuid \<Rightarrow> rat) \<Rightarrow> execution_lease \<Rightarrow> inbound_event_error_class \<Rightarrow> string \<Rightarrow> bool \<Rightarrow> inbox
      \<Rightarrow> inbound_event_transition \<times> inbox" where
  "settle_failure now random fence class detail terminal db =
     (let set_row = (if terminal
        then (\<lambda>e. clear_event_lease (e\<lparr>e_status := Inbound_DeadLetter,
          e_attempt_count := min (e_attempt_count e + 1) (e_max_attempts e), e_last_error_class := Some class,
          e_last_error_detail := Some detail, e_processed_at := Some now, e_updated_at := now\<rparr>))
        else event_attempt_failed now random class detail)
      in (case find (event_fence fence now) db of
            None \<Rightarrow> Event_LeaseLost
          | Some e \<Rightarrow> Event_Applied (e_status (set_row e)),
          update_where (event_fence fence now) set_row db))"

definition retry_inbound_event ::
    "instant \<Rightarrow> (uuid \<Rightarrow> rat) \<Rightarrow> execution_lease \<Rightarrow> inbound_event_error_class \<Rightarrow> string \<Rightarrow> inbox
      \<Rightarrow> inbound_event_transition \<times> inbox" where
  "retry_inbound_event now random fence class detail db = settle_failure now random fence class detail False db"

definition dead_letter_inbound_event ::
    "instant \<Rightarrow> (uuid \<Rightarrow> rat) \<Rightarrow> execution_lease \<Rightarrow> inbound_event_error_class \<Rightarrow> string \<Rightarrow> inbox
      \<Rightarrow> inbound_event_transition \<times> inbox" where
  "dead_letter_inbound_event now random fence class detail db = settle_failure now random fence class detail True db"

definition event_lease_expired :: "instant \<Rightarrow> inbound_event_db \<Rightarrow> bool" where
  "event_lease_expired now e \<longleftrightarrow> e_status e = Inbound_Processing
     \<and> (e_execution_id e = None \<or> e_owner_worker_id e = None \<or> e_locked_at e = None \<or> e_lock_expires_at e = None
        \<or> the (e_lock_expires_at e) \<le> the (e_locked_at e) \<or> the (e_lock_expires_at e) \<le> now)"

definition reap_expired_inbound_events :: "instant \<Rightarrow> (uuid \<Rightarrow> rat) \<Rightarrow> inbox \<Rightarrow> nat \<times> inbox" where
  "reap_expired_inbound_events now random db =
     (rows_affected (event_lease_expired now) db,
      update_where (event_lease_expired now)
        (event_attempt_failed now random Event_LeaseExpired ''The inbound event lease expired without a result'') db)"

section \<open>Census and retention\<close>

definition count_status :: "inbound_event_status \<Rightarrow> inbox \<Rightarrow> nat" where
  "count_status s db = length (filter (\<lambda>e. e_status e = s) db)"

definition inbound_event_census :: "instant \<Rightarrow> inbox \<Rightarrow> event_census" where
  "inbound_event_census now db = \<lparr>census_pending = count_status Inbound_Pending db,
     census_processing = count_status Inbound_Processing db, census_retryable = count_status Inbound_Retryable db,
     census_completed = count_status Inbound_Completed db, census_ignored = count_status Inbound_Ignored db,
     census_dead_letter = count_status Inbound_DeadLetter db,
     oldest_ready_age =
       (case map e_received_at (filter (event_claimable now) db) of
          [] \<Rightarrow> None
        | t # ts \<Rightarrow> Some (max 0 (now - foldl min t ts)))\<rparr>"

definition delete_retained :: "instant \<Rightarrow> inbound_event_status \<Rightarrow> int \<Rightarrow> nat \<Rightarrow> inbox \<Rightarrow> nat \<times> inbox" where
  "delete_retained now status retention limit db =
     (let expired = take limit (sort_key (\<lambda>e. (the (e_processed_at e), e_id e))
            (filter (\<lambda>e. e_status e = status
               \<and> (case e_processed_at e of Some t \<Rightarrow> t < now - retention * 1000000000 | None \<Rightarrow> False)) db));
          ids = map e_id expired
      in (length (filter (\<lambda>e. e_id e \<in> set ids) db), filter (\<lambda>e. e_id e \<notin> set ids) db))"

definition purge_inbound_events :: "instant \<Rightarrow> inbound_retention_policy \<Rightarrow> inbox \<Rightarrow> inbound_event_retention \<times> inbox" where
  "purge_inbound_events now policy db0 =
     (let limit = nat (max 1 (min (batch_size policy) 10000));
          (completed, db1) = delete_retained now Inbound_Completed (completed_for policy) limit db0;
          (ignored, db2) = delete_retained now Inbound_Ignored (ignored_for policy) limit db1;
          (dead, db3) = delete_retained now Inbound_DeadLetter (dead_letters_for policy) limit db2
      in (\<lparr>completed_deleted = completed, ignored_deleted = ignored, dead_letters_deleted = dead\<rparr>, db3))"

end
