(* ===== verification/Inbox_Protocol.thy ===== *)
theory Inbox_Protocol
  imports Inbox Delivery_Protocol
begin

text \<open>
  Histories of the inbox: any sequence of stored events, claims, renewals, settlements, sweeps
  and purges by any workers, at times that do not run backwards. The inbox is the second
  instance of the interface \<open>leased_queue\<close>.
\<close>

section \<open>Invariants\<close>

text \<open>The CHECK constraints of \<open>inbound_events\<close>, at a time the row is not younger than.\<close>

definition event_lease_check :: "instant \<Rightarrow> inbound_event_db \<Rightarrow> bool" where
  "event_lease_check t e \<longleftrightarrow>
     (if e_status e = Inbound_Processing
      then e_execution_id e \<noteq> None \<and> e_owner_worker_id e \<noteq> None
        \<and> (\<exists>locked expires. e_locked_at e = Some locked \<and> e_lock_expires_at e = Some expires
             \<and> locked < expires \<and> locked \<le> t)
      else e_execution_id e = None \<and> e_owner_worker_id e = None \<and> e_locked_at e = None
        \<and> e_lock_expires_at e = None)"

definition event_attempt_check :: "inbound_event_db \<Rightarrow> bool" where
  "event_attempt_check e \<longleftrightarrow> 0 \<le> e_attempt_count e \<and> e_attempt_count e \<le> e_max_attempts e \<and> 0 < e_max_attempts e
     \<and> (\<not> inbound_is_terminal (e_status e) \<longrightarrow> e_attempt_count e < e_max_attempts e)"

definition event_error_check :: "inbound_event_db \<Rightarrow> bool" where
  "event_error_check e \<longleftrightarrow>
     (e_status e \<in> {Inbound_Retryable, Inbound_DeadLetter}) = (e_last_error_class e \<noteq> None)
     \<and> (e_last_error_detail e \<noteq> None \<longrightarrow> e_last_error_class e \<noteq> None)"

definition event_ignore_check :: "inbound_event_db \<Rightarrow> bool" where
  "event_ignore_check e \<longleftrightarrow> (e_status e = Inbound_Ignored) = (e_ignore_reason e \<noteq> None)"

definition event_processed_check :: "inbound_event_db \<Rightarrow> bool" where
  "event_processed_check e \<longleftrightarrow> inbound_is_terminal (e_status e) = (e_processed_at e \<noteq> None)"

definition event_row_ok :: "instant \<Rightarrow> inbound_event_db \<Rightarrow> bool" where
  "event_row_ok t e \<longleftrightarrow> event_lease_check t e \<and> event_attempt_check e \<and> event_error_check e
     \<and> event_ignore_check e \<and> event_processed_check e"

lemmas event_checks = event_row_ok_def event_lease_check_def event_attempt_check_def event_error_check_def
  event_ignore_check_def event_processed_check_def inbound_is_terminal_def

definition event_executions :: "inbox \<Rightarrow> uuid set" where
  "event_executions db = {x. \<exists>e \<in> set db. e_execution_id e = Some x}"

definition inbox_ok :: "instant \<Rightarrow> inbox \<Rightarrow> bool" where
  "inbox_ok t db \<longleftrightarrow> distinct (map e_id db) \<and> distinct (map event_key db) \<and> (\<forall>e \<in> set db. event_row_ok t e)"

lemma inbox_ok_later: "inbox_ok t db \<Longrightarrow> t \<le> now \<Longrightarrow> inbox_ok now db"
  by (fastforce simp: inbox_ok_def event_row_ok_def event_lease_check_def split: if_splits)

section \<open>How a row may change\<close>

definition same_event :: "inbound_event_db \<Rightarrow> inbound_event_db \<Rightarrow> bool" where
  "same_event e e' \<longleftrightarrow> e_id e' = e_id e \<and> event_key e' = event_key e \<and> e_installation_id e' = e_installation_id e
     \<and> e_correlation_id e' = e_correlation_id e \<and> e_raw_payload e' = e_raw_payload e
     \<and> e_content_hash e' = e_content_hash e \<and> e_received_at e' = e_received_at e \<and> e_max_attempts e' = e_max_attempts e"

definition event_moves :: "instant \<Rightarrow> uuid set \<Rightarrow> inbound_event_db \<Rightarrow> inbound_event_db \<Rightarrow> bool" where
  "event_moves now issued e e' \<longleftrightarrow> same_event e e'
     \<and> (event_row_ok now e \<longrightarrow> event_row_ok now e' \<and> e_attempt_count e \<le> e_attempt_count e')
     \<and> (inbound_is_terminal (e_status e) \<longrightarrow> e' = e)
     \<and> (e_execution_id e' = e_execution_id e \<or> e_execution_id e' = None \<or> e_execution_id e' \<in> Some ` issued)"

lemma event_moves_refl: "event_moves now issued e e"
  by (simp add: event_moves_def same_event_def)

text \<open>
  One operation on the table: rows move, a \<open>purge\<close> may delete settled rows, and a row that was
  not there is new, pending and unleased.
\<close>

definition inbox_moves :: "instant \<Rightarrow> uuid set \<Rightarrow> bool \<Rightarrow> inbox \<Rightarrow> inbox \<Rightarrow> bool" where
  "inbox_moves now issued purge db db' \<longleftrightarrow>
     (inbox_ok now db \<longrightarrow> inbox_ok now db')
     \<and> (\<forall>e \<in> set db. (\<exists>e' \<in> set db'. event_moves now issued e e')
          \<or> purge \<and> inbound_is_terminal (e_status e) \<and> e \<notin> set db')
     \<and> (\<forall>e' \<in> set db'. (\<exists>e \<in> set db. event_moves now issued e e') \<or> e_execution_id e' = None)"

lemma inbox_moves_refl: "inbox_moves now issued purge db db"
  unfolding inbox_moves_def using event_moves_refl by blast

lemma update_moves:
  assumes "\<And>e. e \<in> set db \<Longrightarrow> P e \<Longrightarrow> event_moves now issued e (f e)"
  shows "inbox_moves now issued purge db (update_where P f db)"
proof -
  let ?g = "\<lambda>e. if P e then f e else e"
  have each: "event_moves now issued e (?g e)" if "e \<in> set db" for e using assms that event_moves_refl by simp
  have "e_id (?g e) = e_id e" "event_key (?g e) = event_key e" if "e \<in> set db" for e
    using each [OF that] by (simp_all add: event_moves_def same_event_def)
  then have "map e_id (map ?g db) = map e_id db" "map event_key (map ?g db) = map event_key db"
    by (simp_all del: if_image_distrib)
  then have "inbox_ok now (map ?g db)" if "inbox_ok now db"
    using that each by (simp add: inbox_ok_def event_moves_def del: map_map if_image_distrib)
  moreover have "\<exists>e' \<in> set (map ?g db). event_moves now issued e e'" if "e \<in> set db" for e
    using each [OF that] that by (intro bexI [of _ "?g e"]) (simp_all del: if_image_distrib add: image_eqI)
  moreover have "\<exists>e \<in> set db. event_moves now issued e e'" if "e' \<in> set (map ?g db)" for e'
    using that each unfolding set_map by blast
  ultimately show ?thesis unfolding inbox_moves_def update_where_def by blast
qed

lemma delete_moves:
  assumes "\<And>e. e \<in> set db \<Longrightarrow> \<not> P e \<Longrightarrow> inbound_is_terminal (e_status e)"
  shows "inbox_moves now issued True db (filter P db)"
proof -
  have "inbox_ok now (filter P db)" if "inbox_ok now db"
    using that by (simp add: inbox_ok_def distinct_map_filter)
  then show ?thesis
    unfolding inbox_moves_def set_filter using assms event_moves_refl by blast
qed

section \<open>Every operation moves the table\<close>

lemma event_attempt_failed_moves:
  assumes "e_status e = Inbound_Processing"
  shows "event_moves now i e (event_attempt_failed now random c detail e)"
  using assms by (auto simp: event_moves_def same_event_def event_attempt_failed_def clear_event_lease_def event_key_def
      event_checks Let_def)

lemma event_settled_moves:
  assumes "e_status e = Inbound_Processing"
  shows "event_moves now i e (clear_event_lease (e\<lparr>e_status := Inbound_Completed, e_processed_at := Some now, e_updated_at := now\<rparr>))"
    and "event_moves now i e (clear_event_lease (e\<lparr>e_status := Inbound_Ignored, e_ignore_reason := Some reason,
      e_processed_at := Some now, e_updated_at := now\<rparr>))"
    and "event_moves now i e (clear_event_lease (e\<lparr>e_status := Inbound_DeadLetter,
      e_attempt_count := min (e_attempt_count e + 1) (e_max_attempts e), e_last_error_class := Some c,
      e_last_error_detail := Some detail, e_processed_at := Some now, e_updated_at := now\<rparr>))"
  using assms by (auto simp: event_moves_def same_event_def clear_event_lease_def event_key_def event_checks)

lemma event_fence_processing: "event_fence fence now e \<Longrightarrow> e_status e = Inbound_Processing"
  by (simp add: event_fence_def)

lemma complete_event_moves: "inbox_moves now i purge db (snd (complete_inbound_event now fence db))"
  unfolding complete_inbound_event_def complete_inbound_event_on_def
  by (simp, rule update_moves) (auto dest: event_fence_processing intro: event_settled_moves)

lemma ignore_event_moves: "inbox_moves now i purge db (snd (ignore_inbound_event now fence reason db))"
  unfolding ignore_inbound_event_def
  by (simp, rule update_moves) (auto dest: event_fence_processing intro: event_settled_moves)

lemma settle_failure_moves: "inbox_moves now i purge db (snd (settle_failure now random fence c detail terminal db))"
  unfolding settle_failure_def Let_def snd_conv
  by (rule update_moves) (auto dest: event_fence_processing intro: event_settled_moves event_attempt_failed_moves)

lemma reap_events_moves: "inbox_moves now i purge db (snd (reap_expired_inbound_events now random db))"
  unfolding reap_expired_inbound_events_def snd_conv
  by (rule update_moves, rule event_attempt_failed_moves) (simp add: event_lease_expired_def)

lemma renew_event_moves: "inbox_moves now i purge db (snd (renew_inbound_event_lease now fence until db))"
proof -
  have "event_moves now i e (e\<lparr>e_lock_expires_at := Some until, e_updated_at := now\<rparr>)"
    if "event_fence fence now e" "now < until" for e
    using that by (auto simp: event_moves_def same_event_def event_key_def event_fence_def event_checks)
  then show ?thesis unfolding renew_inbound_event_lease_def Let_def snd_conv by (intro update_moves) auto
qed

lemma event_batch_claimable:
  assumes "inbox_ok t db" and "e \<in> set db" and "e_id e \<in> set (event_batch now skipped limit db)"
  shows "event_claimable now e" and "e_id e \<notin> set skipped"
proof -
  obtain x where x: "x \<in> set db" "event_claimable now x" "e_id x \<notin> set skipped" "e_id x = e_id e"
    using assms(3) by (fastforce simp: event_batch_def dest!: in_set_takeD)
  then have "x = e" using assms by (intro distinct_key [of e_id db]) (auto simp: inbox_ok_def)
  then show "event_claimable now e" "e_id e \<notin> set skipped" using x by simp_all
qed

lemma claimed_event_moves:
  assumes "event_claimable now e" and "0 < lease_seconds"
  shows "event_moves now (range fresh) e (claimed_event_row fresh now owner lease_seconds e)"
proof -
  have status: "e_status e = Inbound_Pending \<or> e_status e = Inbound_Retryable"
    using assms(1) by (simp add: event_claimable_def inbound_is_claimable_def)
  then have "event_row_ok now (claimed_event_row fresh now owner lease_seconds e)" if "event_row_ok now e"
    using that assms(2) by (auto simp: claimed_event_row_def event_checks)
  then show ?thesis
    using status by (auto simp: event_moves_def same_event_def event_key_def claimed_event_row_def inbound_is_terminal_def)
qed

lemma claim_events_moves:
  assumes "inbox_ok now db"
  shows "inbox_moves now (range fresh) purge db (snd (claim_inbound_events fresh skipped now owner lease_for limit db))"
proof -
  have "event_moves now (range fresh) e (claimed_event_row fresh now owner lease_seconds e)"
    if "e \<in> set db" "e_id e \<in> set (event_batch now skipped n db)" "0 < lease_seconds" for e n lease_seconds
    using claimed_event_moves [OF event_batch_claimable(1) [OF assms that(1,2)] that(3)] .
  then show ?thesis unfolding claim_inbound_events_def Let_def snd_conv by (intro update_moves) simp_all
qed

lemma append_row_ok:
  assumes "inbox_ok t db" and "event_row_ok t e" and "\<forall>x \<in> set db. event_key x \<noteq> event_key e" and "\<forall>x \<in> set db. e_id x \<noteq> e_id e"
  shows "inbox_ok t (db @ [e])"
proof -
  have "e_id e \<notin> e_id ` set db" "event_key e \<notin> event_key ` set db" using assms(3,4) by (metis imageE)+
  then show ?thesis using assms(1,2) by (simp add: inbox_ok_def)
qed

lemma insert_event_moves: "inbox_moves now i purge db (snd (insert_event sha256 new_id now a db))"
proof (cases "snd (insert_event sha256 new_id now a db) = db")
  case True
  then show ?thesis by (simp only: inbox_moves_refl)
next
  case False
  then have new: "snd (insert_event sha256 new_id now a db) = db @ [new_event_row sha256 new_id now a]"
    "\<forall>e \<in> set db. event_key e \<noteq> offered_key a" "\<forall>e \<in> set db. e_id e \<noteq> new_id"
    by (auto simp: insert_event_def list_ex_iff split: if_splits)
  have "event_row_ok now (new_event_row sha256 new_id now a)"
    by (simp add: new_event_row_def event_checks MAX_INBOUND_EVENT_ATTEMPTS_def)
  moreover have "event_key (new_event_row sha256 new_id now a) = offered_key a" "e_id (new_event_row sha256 new_id now a) = new_id"
    "e_execution_id (new_event_row sha256 new_id now a) = None"
    by (simp_all add: new_event_row_def event_key_def offered_key_def)
  ultimately have "inbox_ok now (db @ [new_event_row sha256 new_id now a])" if "inbox_ok now db"
    using append_row_ok [OF that] new(2,3) by simp
  with \<open>e_execution_id (new_event_row sha256 new_id now a) = None\<close> event_moves_refl show ?thesis
    unfolding new(1) inbox_moves_def by auto
qed

text \<open>A purge deletes rows of the three settled statuses only.\<close>

lemma delete_retained_deletes:
  assumes "inbox_ok t db" and "e \<in> set db" and "e \<notin> set (snd (delete_retained now s retention n db))"
  shows "e_status e = s \<and> (\<exists>t. e_processed_at e = Some t \<and> t < now - retention * 1000000000)"
proof -
  let ?old = "\<lambda>e. e_status e = s \<and> (case e_processed_at e of Some t \<Rightarrow> t < now - retention * 1000000000 | None \<Rightarrow> False)"
  obtain x where x: "x \<in> set db" "?old x" "e_id x = e_id e"
    using assms(2,3) by (fastforce simp: delete_retained_def Let_def dest!: in_set_takeD)
  then have "x = e" using assms(1,2) by (intro distinct_key [of e_id db]) (auto simp: inbox_ok_def)
  then show ?thesis using x(2) by (auto split: option.splits)
qed

lemma delete_retained_filters: "\<exists>P. snd (delete_retained now s retention n db) = filter P db"
  by (auto simp: delete_retained_def Let_def)

lemma purge_moves:
  assumes "inbox_ok now db"
  shows "inbox_moves now i True db (snd (purge_inbound_events now policy db))"
proof -
  let ?n = "nat (max 1 (min (batch_size policy) 10000))"
  let ?d1 = "snd (delete_retained now Inbound_Completed (completed_for policy) ?n db)"
  let ?d2 = "snd (delete_retained now Inbound_Ignored (ignored_for policy) ?n ?d1)"
  let ?d3 = "snd (delete_retained now Inbound_DeadLetter (dead_letters_for policy) ?n ?d2)"
  obtain P Q R where f: "?d1 = filter P db" "?d2 = filter Q ?d1" "?d3 = filter R ?d2"
    using delete_retained_filters by metis
  have ok: "inbox_ok now ?d1" "inbox_ok now ?d2"
    using assms f by (auto simp: inbox_ok_def distinct_map_filter)
  have "inbound_is_terminal (e_status e)" if "e \<in> set db" "e \<notin> set ?d3" for e
    using delete_retained_deletes [OF assms] delete_retained_deletes [OF ok(1)] delete_retained_deletes [OF ok(2)] that
    by (metis inbound_is_terminal_def insertCI)
  moreover have "?d3 = filter (\<lambda>e. P e \<and> Q e \<and> R e) db" using f by (simp add: conj_commute conj_left_commute)
  ultimately have "inbox_moves now i True db (filter (\<lambda>e. P e \<and> Q e \<and> R e) db)"
    by (intro delete_moves) auto
  then show ?thesis
    using \<open>?d3 = filter (\<lambda>e. P e \<and> Q e \<and> R e) db\<close> by (simp add: purge_inbound_events_def Let_def case_prod_unfold)
qed

section \<open>Events\<close>

datatype inbox_event =
    Store "string \<Rightarrow> string" uuid authenticated_inbound_event
  | Claim_Events "uuid \<Rightarrow> uuid" "uuid list" uuid nat int
  | Renew_Event execution_lease instant
  | Complete_Event execution_lease
  | Ignore_Event execution_lease inbound_event_ignore_reason
  | Fail_Event "uuid \<Rightarrow> rat" execution_lease inbound_event_error_class string bool
  | Reap_Events "uuid \<Rightarrow> rat"
  | Purge_Events inbound_retention_policy

text \<open>The second statement of \<open>store_authenticated\<close> only reads.\<close>

fun inbox_perform_at :: "instant \<Rightarrow> inbox_event \<Rightarrow> inbox \<Rightarrow> inbox" where
  "inbox_perform_at now (Store sha256 i a) db = snd (insert_event sha256 i now a db)"
| "inbox_perform_at now (Claim_Events fresh skipped owner lease_for limit) db =
     snd (claim_inbound_events fresh skipped now owner lease_for limit db)"
| "inbox_perform_at now (Renew_Event fence until) db = snd (renew_inbound_event_lease now fence until db)"
| "inbox_perform_at now (Complete_Event fence) db = snd (complete_inbound_event now fence db)"
| "inbox_perform_at now (Ignore_Event fence reason) db = snd (ignore_inbound_event now fence reason db)"
| "inbox_perform_at now (Fail_Event random fence c detail terminal) db =
     snd (settle_failure now random fence c detail terminal db)"
| "inbox_perform_at now (Reap_Events random) db = snd (reap_expired_inbound_events now random db)"
| "inbox_perform_at now (Purge_Events policy) db = snd (purge_inbound_events now policy db)"

fun inbox_event_issues :: "inbox_event \<Rightarrow> uuid set" where
  "inbox_event_issues (Claim_Events fresh skipped owner lease_for limit) = range fresh"
| "inbox_event_issues _ = {}"

fun is_purge :: "inbox_event \<Rightarrow> bool" where
  "is_purge (Purge_Events policy) \<longleftrightarrow> True"
| "is_purge _ \<longleftrightarrow> False"

type_synonym timed_inbox = "instant \<times> inbox"

text \<open>The clock does not run backwards, and \<open>gen_random_uuid()\<close> does not repeat itself.\<close>

definition inbox_admitted :: "uuid set \<Rightarrow> instant \<times> inbox_event \<Rightarrow> timed_inbox \<Rightarrow> bool" where
  "inbox_admitted used e s \<longleftrightarrow> fst s \<le> fst e \<and> inbox_event_issues (snd e) \<inter> used = {}"

definition inbox_perform :: "instant \<times> inbox_event \<Rightarrow> timed_inbox \<Rightarrow> timed_inbox" where
  "inbox_perform e s = (fst e, inbox_perform_at (fst e) (snd e) (snd s))"

definition inbox_issues :: "instant \<times> inbox_event \<Rightarrow> timed_inbox \<Rightarrow> uuid set" where
  "inbox_issues e s = inbox_event_issues (snd e)"

definition inbox_holds :: "uuid \<Rightarrow> timed_inbox \<Rightarrow> bool" where
  "inbox_holds x s \<longleftrightarrow> x \<in> event_executions (snd s)"

definition timed_inbox_ok :: "timed_inbox \<Rightarrow> bool" where
  "timed_inbox_ok s \<longleftrightarrow> inbox_ok (fst s) (snd s)"

definition inbox_history ::
    "uuid set \<Rightarrow> instant \<Rightarrow> inbox \<Rightarrow> (instant \<times> inbox_event) list \<Rightarrow> uuid set \<Rightarrow> instant \<Rightarrow> inbox \<Rightarrow> bool" where
  "inbox_history used t db es used' t' db' \<longleftrightarrow>
     history inbox_admitted inbox_perform inbox_issues used (t, db) es used' (t', db')"

lemma inbox_event_moves:
  assumes "inbox_ok now db"
  shows "inbox_moves now (inbox_event_issues ev) (is_purge ev) db (inbox_perform_at now ev db)"
  using assms by (cases ev) (simp_all add: insert_event_moves claim_events_moves renew_event_moves complete_event_moves
      ignore_event_moves settle_failure_moves reap_events_moves purge_moves)

lemma timed_inbox_moves:
  assumes "timed_inbox_ok s" and "inbox_admitted used e s"
  shows "inbox_ok (fst e) (snd s)"
    and "inbox_moves (fst e) (inbox_issues e s) (is_purge (snd e)) (snd s) (snd (inbox_perform e s))"
    and "timed_inbox_ok (inbox_perform e s)"
proof -
  show ok: "inbox_ok (fst e) (snd s)"
    using assms inbox_ok_later by (auto simp: timed_inbox_ok_def inbox_admitted_def)
  show m: "inbox_moves (fst e) (inbox_issues e s) (is_purge (snd e)) (snd s) (snd (inbox_perform e s))"
    using inbox_event_moves [OF ok] by (simp add: inbox_perform_def inbox_issues_def)
  show "timed_inbox_ok (inbox_perform e s)"
    using m ok by (simp add: inbox_moves_def timed_inbox_ok_def inbox_perform_def)
qed

interpretation inbox: leased_queue timed_inbox_ok inbox_admitted inbox_perform inbox_issues inbox_holds
proof
  show "timed_inbox_ok (inbox_perform e s)" if "timed_inbox_ok s" "inbox_admitted used e s" for s used e
    using timed_inbox_moves(3) that .
  show "inbox_holds x s \<or> x \<in> inbox_issues e s"
    if s: "timed_inbox_ok s" "inbox_admitted used e s" "inbox_holds x (inbox_perform e s)" for s used e x
  proof -
    obtain r' where r': "r' \<in> set (snd (inbox_perform e s))" "e_execution_id r' = Some x"
      using s(3) by (auto simp: inbox_holds_def event_executions_def)
    then obtain r where "r \<in> set (snd s)" "event_moves (fst e) (inbox_issues e s) r r'"
      using timed_inbox_moves(2) [OF s(1,2)] by (auto simp: inbox_moves_def)
    then show ?thesis using r'(2) by (auto simp: event_moves_def inbox_holds_def event_executions_def)
  qed
  show "x \<notin> used" if "inbox_admitted used e s" "x \<in> inbox_issues e s" for used e s x
    using that by (auto simp: inbox_admitted_def inbox_issues_def)
qed

section \<open>Rows along a history\<close>

definition kept :: "inbound_event_db \<Rightarrow> inbound_event_db \<Rightarrow> bool" where
  "kept e e' \<longleftrightarrow> same_event e e' \<and> e_attempt_count e \<le> e_attempt_count e'
     \<and> (inbound_is_terminal (e_status e) \<longrightarrow> e' = e)"

lemma kept_trans: "kept e x \<Longrightarrow> kept x y \<Longrightarrow> kept e y"
  by (auto simp: kept_def same_event_def)

lemma step_keeps:
  assumes "timed_inbox_ok s" and "inbox_admitted used ev s" and "e \<in> set (snd s)"
  shows "(\<exists>e' \<in> set (snd (inbox_perform ev s)). kept e e')
    \<or> is_purge (snd ev) \<and> inbound_is_terminal (e_status e) \<and> e \<notin> set (snd (inbox_perform ev s))"
proof -
  have "event_row_ok (fst ev) e" using timed_inbox_moves(1) [OF assms(1,2)] assms(3) by (simp add: inbox_ok_def)
  then have "kept e e'" if "event_moves (fst ev) i e e'" for e' i using that by (simp add: kept_def event_moves_def)
  then show ?thesis using timed_inbox_moves(2) [OF assms(1,2)] assms(3) unfolding inbox_moves_def by blast
qed

text \<open>The history purged the event after it had settled it.\<close>

definition purged ::
    "uuid set \<Rightarrow> timed_inbox \<Rightarrow> (instant \<times> inbox_event) list \<Rightarrow> inbound_event_db \<Rightarrow> bool" where
  "purged used s es e \<longleftrightarrow> (\<exists>before ev after used1 s1 x. es = before @ ev # after
     \<and> history inbox_admitted inbox_perform inbox_issues used s before used1 s1 \<and> x \<in> set (snd s1) \<and> kept e x
     \<and> is_purge (snd ev) \<and> inbound_is_terminal (e_status x) \<and> x \<notin> set (snd (inbox_perform ev s1)))"

lemma purged_snoc: "purged used s es e \<Longrightarrow> purged used s (es @ [ev]) e"
  unfolding purged_def by (metis append.assoc append_Cons)

lemma history_keeps:
  assumes "history inbox_admitted inbox_perform inbox_issues used s es used' s'" and "timed_inbox_ok s" and "e \<in> set (snd s)"
  shows "(\<exists>e' \<in> set (snd s'). kept e e') \<or> purged used s es e"
  using assms
proof (induction rule: history.induct)
  case history_nil
  then show ?case by (auto simp: kept_def same_event_def)
next
  case (history_snoc es used' s' ev)
  have ok: "timed_inbox_ok s'" using inbox.history_ok history_snoc by blast
  from history_snoc.IH [OF history_snoc.prems] show ?case
  proof
    assume "\<exists>x \<in> set (snd s'). kept e x"
    then obtain x where x: "x \<in> set (snd s')" "kept e x" by blast
    from step_keeps [OF ok history_snoc.hyps(2) x(1)] show ?thesis
    proof
      assume "\<exists>e' \<in> set (snd (inbox_perform ev s')). kept x e'"
      then show ?thesis using x(2) kept_trans by blast
    next
      assume "is_purge (snd ev) \<and> inbound_is_terminal (e_status x) \<and> x \<notin> set (snd (inbox_perform ev s'))"
      then have "purged used s (es @ [ev]) e" using x history_snoc.hyps(1) unfolding purged_def by blast
      then show ?thesis by blast
    qed
  next
    assume "purged used s es e"
    then show ?thesis using purged_snoc by blast
  qed
qed

lemma find_key_filter:
  assumes "distinct (map k rows)" and "find (\<lambda>x. k x = v) rows = Some r"
  shows "filter (\<lambda>x. k x = v) rows = [r]"
  using assms
proof (induction rows)
  case (Cons x rows)
  show ?case
  proof (cases "k x = v")
    case True
    then have "\<forall>y \<in> set rows. k y \<noteq> v" using Cons.prems(1) by (auto simp: image_iff)
    then show ?thesis using True Cons.prems(2) by (simp add: filter_empty_conv)
  qed (use Cons in simp)
qed simp

section \<open>Samples\<close>

definition sample_offer :: authenticated_inbound_event where
  "sample_offer = \<lparr>a_transport = Email, a_company_id = 9, a_installation_id = None, a_external_event_key = ''k'',
     a_correlation_id = 0, a_payload = ''x'', a_content_type = None, a_safe_header_facts = [], a_received_at = 1\<rparr>"

definition sample_event :: inbound_event_db where
  "sample_event = new_event_row (\<lambda>s. s) 1 2 sample_offer"

lemma sample_inbox_ok: "inbox_ok 5 [sample_event]"
  by (simp add: inbox_ok_def sample_event_def new_event_row_def event_checks MAX_INBOUND_EVENT_ATTEMPTS_def)

lemma sample_inbox_history:
  assumes "inbox_event_issues ev \<inter> used = {}" and "5 \<le> now"
  shows "inbox_history used 5 db [(now, ev)] (used \<union> inbox_event_issues ev) now (inbox_perform_at now ev db)"
proof -
  have "history inbox_admitted inbox_perform inbox_issues used (5, db) ([] @ [(now, ev)])
      (used \<union> inbox_issues (now, ev) (5, db)) (inbox_perform (now, ev) (5, db))"
    by (rule history_snoc [OF history_nil]) (use assms in \<open>simp add: inbox_admitted_def\<close>)
  then show ?thesis by (simp add: inbox_history_def inbox_perform_def inbox_issues_def)
qed

section \<open>Properties\<close>

text \<open>
  C28. The constraints of the inbox hold along every history: unique ids, one row per company,
  transport and provider key, a lease exactly while an event is processed, an error exactly when
  it failed, attempts within the limit.
\<close>

theorem inbox_constraints_hold:
  assumes "inbox_history used t db es used' t' db'" and "inbox_ok t db"
  shows "inbox_ok t' db'"
  using inbox.history_ok [of used "(t, db)" es used' "(t', db')"] assms by (simp add: inbox_history_def timed_inbox_ok_def)

theorem inbox_constraints_hold_witness:
  "inbox_ok 10 (inbox_perform_at 10 (Claim_Events (\<lambda>_. 8) [] 3 120000000000 8) [sample_event])"
  using inbox_constraints_hold [OF sample_inbox_history [of "Claim_Events (\<lambda>_. 8) [] 3 120000000000 8" "{7}" 10] sample_inbox_ok]
  by simp

text \<open>
  C6. An accepted event is not lost. Along every history of the inbox a stored event is still
  there, with its payload, digest and origin, with no attempt forgotten, and exactly as it was if
  it had been settled; or else a purge of the history deleted it, and the event that the purge
  found was settled as completed, ignored or dead. So an event leaves the table only by being
  settled and then purged, and a settled event is never changed: it stays as it is until then.
\<close>

theorem accepted_events_are_not_lost:
  assumes "inbox_history used t db es used' t' db'" and "inbox_ok t db" and "e \<in> set db"
  shows "(\<exists>e' \<in> set db'. same_event e e' \<and> e_attempt_count e \<le> e_attempt_count e'
        \<and> (inbound_is_terminal (e_status e) \<longrightarrow> e' = e))
    \<or> (\<exists>before now policy after used1 t1 db1. es = before @ (now, Purge_Events policy) # after
        \<and> inbox_history used t db before used1 t1 db1
        \<and> (\<exists>x \<in> set db1. same_event e x \<and> inbound_is_terminal (e_status x)
            \<and> (inbound_is_terminal (e_status e) \<longrightarrow> x = e)
            \<and> x \<notin> set (inbox_perform_at now (Purge_Events policy) db1)))"
proof -
  have "(\<exists>e' \<in> set db'. kept e e') \<or> purged used (t, db) es e"
    using history_keeps [of used "(t, db)" es used' "(t', db')" e] assms
    by (simp add: inbox_history_def timed_inbox_ok_def)
  then show ?thesis
  proof
    assume "purged used (t, db) es e"
    then obtain before ev after used1 s1 x where split: "es = before @ ev # after"
      "history inbox_admitted inbox_perform inbox_issues used (t, db) before used1 s1" "x \<in> set (snd s1)" "kept e x"
      "is_purge (snd ev)" "inbound_is_terminal (e_status x)" "x \<notin> set (snd (inbox_perform ev s1))"
      unfolding purged_def by blast
    obtain policy where "snd ev = Purge_Events policy" using split(5) by (cases "snd ev") auto
    then have ev: "ev = (fst ev, Purge_Events policy)" by (simp add: prod_eq_iff)
    have "inbox_history used t db before used1 (fst s1) (snd s1)" using split(2) by (simp add: inbox_history_def)
    moreover have "x \<notin> set (inbox_perform_at (fst ev) (Purge_Events policy) (snd s1))"
      using split(7) ev by (metis inbox_perform_def snd_conv)
    moreover have "same_event e x" "inbound_is_terminal (e_status e) \<longrightarrow> x = e" using split(4) by (simp_all add: kept_def)
    moreover have "es = before @ (fst ev, Purge_Events policy) # after" using split(1) ev by simp
    ultimately show ?thesis using split(3,6) by blast
  qed (auto simp: kept_def)
qed

theorem accepted_events_are_not_lost_witness:
  "\<exists>e' \<in> set (inbox_perform_at 10 (Claim_Events (\<lambda>_. 8) [] 3 120000000000 8) [sample_event]). same_event sample_event e'"
  using accepted_events_are_not_lost [OF sample_inbox_history [of "Claim_Events (\<lambda>_. 8) [] 3 120000000000 8" "{7}" 10]
      sample_inbox_ok, of sample_event] by (auto simp: Cons_eq_append_conv)

text \<open>
  An execution that no longer holds an event changes nothing: along every history, once an
  issued execution is not on any row, every renewal, completion, ignore, retry and dead letter
  under its lease is refused and leaves the table as it is.
\<close>

theorem superseded_inbound_executions_change_nothing:
  assumes "inbox_history used t db es used' t' db'" and "inbox_ok t db"
    and "lease_execution fence \<in> used" and "lease_execution fence \<notin> event_executions db"
  shows "renew_inbound_event_lease now fence until db' = (False, db')
    \<and> complete_inbound_event now fence db' = (Event_LeaseLost, db')
    \<and> ignore_inbound_event now fence reason db' = (Event_LeaseLost, db')
    \<and> retry_inbound_event now random fence c detail db' = (Event_LeaseLost, db')
    \<and> dead_letter_inbound_event now random fence c detail db' = (Event_LeaseLost, db')"
proof -
  have "lease_execution fence \<notin> event_executions db'"
    using inbox.superseded_forever [of used "(t, db)" es used' "(t', db')" "lease_execution fence"] assms
    by (simp add: inbox_history_def timed_inbox_ok_def inbox_holds_def)
  then have none: "\<not> event_fence fence now e" if "e \<in> set db'" for e
    using that by (auto simp: event_fence_def event_executions_def)
  have "find (event_fence fence now) db' = None" using none by (simp add: find_None_iff)
  moreover have "filter (event_fence fence now) db' = []" "filter (\<lambda>e. event_fence fence now e \<and> until > now) db' = []"
    using none by (simp_all add: filter_empty_conv)
  ultimately show ?thesis
    using none update_where_none [of db' "event_fence fence now"] update_where_none [of db' "\<lambda>e. event_fence fence now e \<and> until > now"]
    by (simp add: renew_inbound_event_lease_def complete_inbound_event_def complete_inbound_event_on_def
        ignore_inbound_event_def retry_inbound_event_def dead_letter_inbound_event_def settle_failure_def
        rows_affected_def Let_def)
qed

theorem superseded_inbound_executions_change_nothing_witness:
  "complete_inbound_event 20 sample_lease (inbox_perform_at 10 (Claim_Events (\<lambda>_. 8) [] 3 120000000000 8) [sample_event])
     = (Event_LeaseLost, inbox_perform_at 10 (Claim_Events (\<lambda>_. 8) [] 3 120000000000 8) [sample_event])"
proof -
  have "lease_execution sample_lease \<in> {7}" "lease_execution sample_lease \<notin> event_executions [sample_event]"
    by (simp_all add: sample_lease_def event_executions_def sample_event_def new_event_row_def)
  with superseded_inbound_executions_change_nothing [OF sample_inbox_history [of "Claim_Events (\<lambda>_. 8) [] 3 120000000000 8" "{7}" 10]
      sample_inbox_ok this] show ?thesis by simp
qed

text \<open>
  A provider event is stored once: storing an event that succeeds leaves exactly one row for
  its company, transport and provider key; that row carries the digest and the installation of
  the event, the answer names it, and a replay changes nothing. A key reused for another payload
  or installation is refused.
\<close>

theorem provider_events_are_stored_once:
  assumes "inbox_ok t db" and "store_authenticated sha256 i now (\<lambda>db. db) a db = (r, db')"
  shows "(\<forall>outcome. r = Ok outcome \<longrightarrow>
       (\<exists>e. filter (\<lambda>e. event_key e = offered_key a) db' = [e] \<and> e_id e = event_id outcome
          \<and> e_content_hash e = sha256 (a_payload a) \<and> e_installation_id e = a_installation_id a)
       \<and> db' = (if was_stored outcome then db @ [new_event_row sha256 i now a] else db))
    \<and> (\<forall>e. r = Err e \<longrightarrow> db' = db)"
proof (cases "list_ex (\<lambda>e. event_key e = offered_key a) db")
  case False
  then have "filter (\<lambda>e. event_key e = offered_key a) db = []" by (auto simp: list_ex_iff filter_empty_conv)
  moreover have "event_key (new_event_row sha256 i now a) = offered_key a"
    by (simp add: new_event_row_def event_key_def offered_key_def)
  ultimately show ?thesis
    using assms(2) False by (auto simp: store_authenticated_def insert_event_def split: if_splits) (auto simp: new_event_row_def)
next
  case True
  have dist: "distinct (map event_key db)" using assms(1) by (simp add: inbox_ok_def)
  have "filter (\<lambda>x. event_key x = offered_key a) db = [e]"
    if "find (\<lambda>x. event_key x = offered_key a) db = Some e" for e
    using find_key_filter [OF dist that] .
  then show ?thesis
    using assms(2) True
    by (auto simp: store_authenticated_def insert_event_def existing_event_def split: if_splits option.splits)
qed

theorem provider_events_are_stored_once_witness:
  "\<exists>e. filter (\<lambda>e. event_key e = offered_key sample_offer) (snd (store_authenticated (\<lambda>s. s) 2 3 (\<lambda>db. db) sample_offer [sample_event])) = [e]
     \<and> e_id e = 1"
proof -
  have r: "store_authenticated (\<lambda>s. s) 2 3 (\<lambda>db. db) sample_offer [sample_event] = (Ok (Duplicate 1), [sample_event])"
    by (simp add: store_authenticated_def insert_event_def existing_event_def sample_event_def new_event_row_def
        sample_offer_def event_key_def offered_key_def)
  from provider_events_are_stored_once [OF sample_inbox_ok r]
  have "\<exists>e. filter (\<lambda>e. event_key e = offered_key sample_offer) [sample_event] = [e] \<and> e_id e = event_id (Duplicate 1)"
    by blast
  then show ?thesis by (simp only: r snd_conv event_id.simps)
qed

text \<open>
  Both queues age alike: the delay the inbox computes for a retry is the one the delivery
  queue computes for the same attempt and the same random value.
\<close>

theorem both_queues_back_off_alike: "inbound_retry_delay attempts r = retry_delay attempts r"
  by (simp add: inbound_retry_delay_def retry_delay_def DeliveryBackoff_DEFAULT_def Let_def)

end
