(* ===== verification/Inbox_Worker.thy ===== *)
theory Inbox_Worker
  imports Inbox_Protocol Fair_Order App_Error
begin

text \<open>
  The worker of the inbox: \<open>src/src/application/services/inbound_event_worker.rs\<close>. A batch is scheduled as a state machine:
  tasks are spawned while the limits allow it, and the surroundings decide which task is joined
  next and whether it panicked. What a task does is \<open>decode_and_commit\<close> followed by \<open>settle\<close>;
  decoders and the committer are arguments. Timers, log lines and metrics are left out.
\<close>

section \<open>One event\<close>

fun classify_commit_error :: "app_error \<Rightarrow> inbound_event_error_class \<times> bool" where
  "classify_commit_error (KnowledgeTrigger _ _) = (Event_Routing, True)"
| "classify_commit_error (KnowledgeRelease _ _) = (Event_Routing, True)"
| "classify_commit_error (ExecutionError _) = (Event_Routing, True)"
| "classify_commit_error (BadRequest _) = (Event_Routing, True)"
| "classify_commit_error (NotFound _) = (Event_Routing, True)"
| "classify_commit_error (Forbidden _) = (Event_Routing, True)"
| "classify_commit_error (ConflictError _) = (Event_Routing, True)"
| "classify_commit_error (TimeoutError _) = (Event_Deadline, False)"
| "classify_commit_error (SupersededError _) = (Event_Superseded, False)"
| "classify_commit_error (DatabaseError _) = (Event_Internal, False)"
| "classify_commit_error (WorkflowGuard _) = (Event_Internal, False)"
| "classify_commit_error (DatabaseTimeout _) = (Event_Internal, False)"
| "classify_commit_error (ServiceUnavailable _) = (Event_Internal, False)"
| "classify_commit_error (InternalError _) = (Event_Internal, False)"
| "classify_commit_error InvalidCredentials = (Event_Internal, False)"

text \<open>The fields of the commit request that the worker checks and sets; the rest is \<open>'m\<close>.\<close>

record 'm commit_request =
  commit_company_id :: uuid
  commit_correlation_id :: uuid
  commit_event_key :: "string option"
  commit_claimed_event :: "execution_lease option"
  commit_message :: 'm

datatype 'm decode_outcome =
    Decoded_Message "'m commit_request"
  | Decoded_Ignore inbound_event_ignore_reason
  | Decoded_Retry inbound_event_error_class string
  | Decoded_Terminal inbound_event_error_class string

datatype work_result =
    Work_Committed
  | Work_Ignore inbound_event_ignore_reason
  | Work_Retry inbound_event_error_class string
  | Work_Terminal inbound_event_error_class string

definition validate_commit_request :: "inbound_event_record \<Rightarrow> 'm commit_request \<Rightarrow> (unit, string) outcome" where
  "validate_commit_request event request =
     (if commit_claimed_event request \<noteq> None
      then Err ''A decoder attempted to choose its own inbound event fence''
      else if commit_company_id request \<noteq> r_company_id event
      then Err ''The decoded message belongs to a different company than its event''
      else if commit_correlation_id request \<noteq> r_correlation_id event
      then Err ''The decoded message replaced its event correlation id''
      else if commit_event_key request \<noteq> Some (r_external_event_key event)
      then Err ''The decoded message does not carry its event delivery key''
      else Ok ())"

definition decode_and_commit ::
    "(transport_kind \<Rightarrow> (inbound_event_record \<Rightarrow> 'm decode_outcome) option)
      \<Rightarrow> ('m commit_request \<Rightarrow> app_error option) \<Rightarrow> inbound_event_record \<Rightarrow> execution_lease \<Rightarrow> work_result" where
  "decode_and_commit decoders commit event lease =
     (case decoders (r_transport event) of
        None \<Rightarrow> Work_Terminal Event_UnsupportedTransport ''No decoder is registered for this transport''
      | Some decode \<Rightarrow>
          (case decode event of
             Decoded_Ignore reason \<Rightarrow> Work_Ignore reason
           | Decoded_Retry c detail \<Rightarrow> Work_Retry c detail
           | Decoded_Terminal c detail \<Rightarrow> Work_Terminal c detail
           | Decoded_Message request \<Rightarrow>
               (case validate_commit_request event request of
                  Err detail \<Rightarrow> Work_Terminal Event_InvalidPayload detail
                | _ \<Rightarrow>
                    (case commit (request\<lparr>commit_claimed_event := Some lease\<rparr>) of
                       None \<Rightarrow> Work_Committed
                     | Some error \<Rightarrow>
                         let (c, terminal) = classify_commit_error error in
                         if terminal then Work_Terminal c (app_error_text error)
                         else Work_Retry c (app_error_text error)))))"

text \<open>
  \<open>None\<close> when the detail is never bounded; otherwise the answer of the queue, if it was asked, and
  the table.
\<close>

definition failure_transition ::
    "instant \<Rightarrow> (uuid \<Rightarrow> rat) \<Rightarrow> execution_lease \<Rightarrow> inbound_event_error_class \<Rightarrow> string \<Rightarrow> bool \<Rightarrow> inbox
      \<Rightarrow> (inbound_event_transition option \<times> inbox) option" where
  "failure_transition now random lease c detail terminal db =
     (case inbound_bounded_detail detail of
        Some (Ok bounded) \<Rightarrow>
          (let (t, db') = (if terminal then dead_letter_inbound_event now random lease c bounded db
                           else retry_inbound_event now random lease c bounded db)
           in Some (Some t, db'))
      | _ \<Rightarrow> None)"

fun settle ::
    "instant \<Rightarrow> (uuid \<Rightarrow> rat) \<Rightarrow> execution_lease \<Rightarrow> work_result \<Rightarrow> inbox
      \<Rightarrow> (inbound_event_transition option \<times> inbox) option" where
  "settle now random lease Work_Committed db = Some (None, db)"
| "settle now random lease (Work_Ignore reason) db =
     (let (t, db') = ignore_inbound_event now lease reason db in Some (Some t, db'))"
| "settle now random lease (Work_Retry c detail) db = failure_transition now random lease c detail False db"
| "settle now random lease (Work_Terminal c detail) db = failure_transition now random lease c detail True db"

section \<open>Scheduling a batch\<close>

definition WORKER_CONCURRENCY :: nat where
  "WORKER_CONCURRENCY = 4"

definition PER_COMPANY_CONCURRENCY :: nat where
  "PER_COMPANY_CONCURRENCY = 2"

type_synonym event_scope_t = "uuid \<times> uuid option"

definition event_scope :: "claimed_inbound_event \<Rightarrow> event_scope_t" where
  "event_scope c = (r_company_id (event_record c), r_installation_id (event_record c))"

text \<open>One row of every group in a pass: \<open>pop_front\<close> takes a share of one.\<close>

definition inbound_fair_order :: "claimed_inbound_event list \<Rightarrow> (claimed_inbound_event list, unit) outcome" where
  "inbound_fair_order claimed = interleave event_scope 1 claimed"

interpretation inbound_batches: fair_batch event_scope 1
  by unfold_locales simp

definition schedulable :: "event_scope_t set \<Rightarrow> (uuid \<rightharpoonup> nat) \<Rightarrow> claimed_inbound_event \<Rightarrow> bool" where
  "schedulable active_scopes active_companies event \<longleftrightarrow> event_scope event \<notin> active_scopes
     \<and> (case active_companies (fst (event_scope event)) of Some n \<Rightarrow> n | None \<Rightarrow> 0) < PER_COMPANY_CONCURRENCY"

fun next_schedulable ::
    "claimed_inbound_event list \<Rightarrow> event_scope_t set \<Rightarrow> (uuid \<rightharpoonup> nat)
      \<Rightarrow> (claimed_inbound_event \<times> claimed_inbound_event list) option" where
  "next_schedulable [] scopes companies = None"
| "next_schedulable (event # waiting) scopes companies =
     (if schedulable scopes companies event then Some (event, waiting)
      else map_option (\<lambda>(found, rest). (found, event # rest)) (next_schedulable waiting scopes companies))"

text \<open>\<open>b_running\<close> are the spawned tasks that were not joined, \<open>b_started\<close> all that were spawned.\<close>

record batch_state =
  b_waiting :: "claimed_inbound_event list"
  b_running :: "event_scope_t list"
  b_scopes :: "event_scope_t set"
  b_companies :: "uuid \<rightharpoonup> nat"
  b_started :: "claimed_inbound_event list"

definition spawn :: "claimed_inbound_event \<Rightarrow> claimed_inbound_event list \<Rightarrow> batch_state \<Rightarrow> batch_state" where
  "spawn event rest s =
     (let scope = event_scope event in
      s\<lparr>b_waiting := rest, b_running := b_running s @ [scope], b_scopes := insert scope (b_scopes s),
        b_companies := (b_companies s)(fst scope \<mapsto>
          (case b_companies s (fst scope) of Some n \<Rightarrow> n | None \<Rightarrow> 0) + 1),
        b_started := b_started s @ [event]\<rparr>)"

lemma next_schedulable_shorter: "next_schedulable ws scopes companies = Some (event, rest) \<Longrightarrow> length rest < length ws"
  by (induction ws arbitrary: event rest) (auto split: if_splits)

function fill :: "batch_state \<Rightarrow> batch_state" where
  "fill s =
     (if length (b_running s) < WORKER_CONCURRENCY
      then (case next_schedulable (b_waiting s) (b_scopes s) (b_companies s) of
              None \<Rightarrow> s
            | Some (event, rest) \<Rightarrow> fill (spawn event rest s))
      else s)"
  by pat_completeness auto
termination
  by (relation "measure (\<lambda>s. length (b_waiting s))") (auto simp: spawn_def Let_def next_schedulable_shorter)

declare fill.simps [simp del]

text \<open>A joined task by its index among the running ones; a panic reports no scope.\<close>

datatype joined = Join_Ok nat | Join_Panic nat

definition remove_at :: "nat \<Rightarrow> 'a list \<Rightarrow> 'a list" where
  "remove_at i xs = take i xs @ drop (Suc i) xs"

fun join_next :: "joined \<Rightarrow> batch_state \<Rightarrow> batch_state" where
  "join_next (Join_Ok i) s =
     (let scope = b_running s ! i;
          s1 = s\<lparr>b_running := remove_at i (b_running s), b_scopes := b_scopes s - {scope}\<rparr>
      in case b_companies s (fst scope) of
           None \<Rightarrow> s1
         | Some n \<Rightarrow>
             s1\<lparr>b_companies := (if n - 1 = 0 then (b_companies s)(fst scope := None)
                                 else (b_companies s)(fst scope \<mapsto> n - 1))\<rparr>)"
| "join_next (Join_Panic i) s = s\<lparr>b_running := remove_at i (b_running s)\<rparr>"

definition batch_start :: "claimed_inbound_event list \<Rightarrow> batch_state" where
  "batch_start claimed = fill \<lparr>b_waiting = claimed, b_running = [], b_scopes = {}, b_companies = Map.empty, b_started = []\<rparr>"

text \<open>
  The states of \<open>process_batch\<close> after its inner loop; joining needs a running task, and the
  batch returns when none is left.
\<close>

inductive batch_reaches :: "claimed_inbound_event list \<Rightarrow> joined list \<Rightarrow> batch_state \<Rightarrow> bool"
  for claimed where
  batch_init: "batch_reaches claimed [] (batch_start claimed)"
| batch_ok: "batch_reaches claimed js s \<Longrightarrow> i < length (b_running s)
    \<Longrightarrow> batch_reaches claimed (js @ [Join_Ok i]) (fill (join_next (Join_Ok i) s))"
| batch_panic: "batch_reaches claimed js s \<Longrightarrow> i < length (b_running s)
    \<Longrightarrow> batch_reaches claimed (js @ [Join_Panic i]) (fill (join_next (Join_Panic i) s))"

section \<open>What scheduling keeps\<close>

definition in_company :: "uuid \<Rightarrow> event_scope_t list \<Rightarrow> nat" where
  "in_company c scopes = length (filter (\<lambda>x. fst x = c) scopes)"

lemma in_company_simps [simp]:
  "in_company c [] = 0"
  "in_company c (x # xs) = (if fst x = c then Suc (in_company c xs) else in_company c xs)"
  "in_company c (xs @ ys) = in_company c xs + in_company c ys"
  by (simp_all add: in_company_def)

text \<open>\<open>lost\<close> are the scopes of panicked tasks, which stay blocked for the rest of the batch.\<close>

definition batch_inv :: "claimed_inbound_event list \<Rightarrow> nat \<Rightarrow> event_scope_t list \<Rightarrow> batch_state \<Rightarrow> bool" where
  "batch_inv claimed joins lost s \<longleftrightarrow> distinct (b_running s @ lost) \<and> b_scopes s = set (b_running s @ lost)
     \<and> (\<forall>c. b_companies s c = (if in_company c (b_running s @ lost) = 0 then None
             else Some (in_company c (b_running s @ lost))))
     \<and> (\<forall>c. in_company c (b_running s @ lost) \<le> PER_COMPANY_CONCURRENCY)
     \<and> length (b_running s) \<le> WORKER_CONCURRENCY
     \<and> mset (b_started s) + mset (b_waiting s) = mset claimed
     \<and> length (b_started s) = length (b_running s) + joins"

lemma next_schedulable_Some:
  "next_schedulable ws scopes companies = Some (event, rest) \<Longrightarrow>
     schedulable scopes companies event \<and> mset ws = add_mset event (mset rest)"
  by (induction ws arbitrary: event rest) (auto split: if_splits)

lemma next_schedulable_None:
  "next_schedulable ws scopes companies = None \<longleftrightarrow> (\<forall>w \<in> set ws. \<not> schedulable scopes companies w)"
  by (induction ws) auto

lemma spawn_inv:
  assumes inv: "batch_inv claimed joins lost s" and room: "length (b_running s) < WORKER_CONCURRENCY"
    and found: "next_schedulable (b_waiting s) (b_scopes s) (b_companies s) = Some (event, rest)"
  shows "batch_inv claimed joins lost (spawn event rest s)"
proof -
  let ?x = "event_scope event" and ?old = "b_running s @ lost"
  have new: "?x \<notin> set ?old" and free: "in_company (fst ?x) ?old < PER_COMPANY_CONCURRENCY"
    using next_schedulable_Some [OF found] inv by (auto simp: schedulable_def batch_inv_def split: if_splits)
  have count: "(case b_companies s (fst ?x) of Some n \<Rightarrow> n | None \<Rightarrow> 0) = in_company (fst ?x) ?old"
    using inv by (simp add: batch_inv_def)
  have "mset (b_started s @ [event]) + mset rest = mset claimed"
    using next_schedulable_Some [OF found] inv by (simp add: batch_inv_def)
  moreover have "in_company c ((b_running s @ [?x]) @ lost) = in_company c ?old + (if fst ?x = c then 1 else 0)" for c
    by simp
  ultimately show ?thesis
    using inv new free room count by (simp add: batch_inv_def spawn_def Let_def)
qed

lemma fill_inv: "batch_inv claimed joins lost s \<Longrightarrow> batch_inv claimed joins lost (fill s)"
proof (induction s rule: fill.induct)
  case (1 s)
  then show ?case
    using spawn_inv by (subst fill.simps) (auto split: option.split)
qed

lemma fill_full:
  "length (b_running (fill s)) \<ge> WORKER_CONCURRENCY
     \<or> (\<forall>w \<in> set (b_waiting (fill s)). \<not> schedulable (b_scopes (fill s)) (b_companies (fill s)) w)"
proof (induction s rule: fill.induct)
  case (1 s)
  show ?case
  proof (cases "length (b_running s) < WORKER_CONCURRENCY")
    case True
    then show ?thesis
      using 1 next_schedulable_None [of "b_waiting s" "b_scopes s" "b_companies s"]
      by (subst (1 2 3 4) fill.simps) (auto split: option.split)
  qed (simp add: fill.simps)
qed

lemma nth_remove: "i < length xs \<Longrightarrow> xs = take i xs @ xs ! i # drop (Suc i) xs"
  by (rule id_take_nth_drop)

lemma join_inv:
  assumes inv: "batch_inv claimed joins lost s" and i: "i < length (b_running s)"
  shows "batch_inv claimed (Suc joins) lost (join_next (Join_Ok i) s)"
    and "batch_inv claimed (Suc joins) (b_running s ! i # lost) (join_next (Join_Panic i) s)"
proof -
  define as bs x where parts: "as = take i (b_running s)" "bs = drop (Suc i) (b_running s)" "x = b_running s ! i"
  have run: "b_running s = as @ x # bs" and rest: "remove_at i (b_running s) = as @ bs"
    using nth_remove [OF i] by (simp_all add: parts remove_at_def)
  have dist: "distinct (as @ x # bs @ lost)" and scopes: "b_scopes s = set (as @ x # bs @ lost)"
    and comp: "b_companies s c = (if in_company c (as @ x # bs @ lost) = 0 then None else Some (in_company c (as @ x # bs @ lost)))"
    and le: "in_company c (as @ x # bs @ lost) \<le> PER_COMPANY_CONCURRENCY" for c
    using inv by (simp_all add: batch_inv_def run)
  have le': "in_company c (as @ bs @ lost) \<le> PER_COMPANY_CONCURRENCY" for c
    using le [of c] by (auto split: if_splits)
  have len: "length as + length bs < WORKER_CONCURRENCY" "length (b_started s) = Suc (length as + length bs) + joins"
    "mset (b_started s) + mset (b_waiting s) = mset claimed"
    using inv by (auto simp: batch_inv_def run)
  let ?s = "join_next (Join_Ok i) s"
  have x: "b_running s ! i = x" by (simp add: parts)
  have run': "b_running ?s = as @ bs" "b_scopes ?s = set (as @ bs @ lost)"
    "b_started ?s = b_started s" "b_waiting ?s = b_waiting s"
    using dist scopes by (auto simp: Let_def x rest split: option.split)
  have "b_companies ?s c = (if in_company c (as @ bs @ lost) = 0 then None else Some (in_company c (as @ bs @ lost)))" for c
    using comp by (auto simp: Let_def x)
  then show "batch_inv claimed (Suc joins) lost ?s"
    using dist le' len by (simp add: batch_inv_def run' del: join_next.simps)
  let ?p = "join_next (Join_Panic i) s"
  have runp: "b_running ?p = as @ bs" "b_scopes ?p = b_scopes s" "b_companies ?p = b_companies s"
    "b_started ?p = b_started s" "b_waiting ?p = b_waiting s" by (simp_all add: rest)
  have count: "in_company c ((as @ bs) @ x # lost) = in_company c (as @ x # bs @ lost)" for c by simp
  have "distinct ((as @ bs) @ x # lost)" "b_scopes s = set ((as @ bs) @ x # lost)" using dist scopes by auto
  then show "batch_inv claimed (Suc joins) (b_running s ! i # lost) ?p"
    using comp le len unfolding batch_inv_def runp x count by simp
qed

lemma batch_reaches_inv:
  "batch_reaches claimed js s \<Longrightarrow>
     \<exists>lost. batch_inv claimed (length js) lost s \<and> ((\<forall>i. Join_Panic i \<notin> set js) \<longrightarrow> lost = []) \<and> (\<exists>s'. s = fill s')"
proof (induction rule: batch_reaches.induct)
  case batch_init
  have "batch_inv claimed 0 [] \<lparr>b_waiting = claimed, b_running = [], b_scopes = {}, b_companies = Map.empty, b_started = []\<rparr>"
    by (simp add: batch_inv_def)
  from fill_inv [OF this] show ?case by (auto simp: batch_start_def)
next
  case (batch_ok js s i)
  then obtain lost where "batch_inv claimed (length js) lost s" "(\<forall>i. Join_Panic i \<notin> set js) \<longrightarrow> lost = []" by blast
  with fill_inv [OF join_inv(1)] batch_ok.hyps(2) show ?case by fastforce
next
  case (batch_panic js s i)
  then obtain lost where "batch_inv claimed (length js) lost s" by blast
  with fill_inv [OF join_inv(2)] batch_panic.hyps(2) show ?case by fastforce
qed

lemma fenced_event:
  assumes "inbox_ok t db" and "e \<in> set db" and "event_fence lease now e"
  shows "find (event_fence lease now) db = Some e" and "rows_affected (event_fence lease now) db = 1"
proof -
  have only: "x = e" if "x \<in> set db" "event_fence lease now x" for x
    using assms that by (intro distinct_key [of e_id db]) (auto simp: inbox_ok_def event_fence_def)
  show "find (event_fence lease now) db = Some e"
  proof (cases "find (event_fence lease now) db")
    case None
    then show ?thesis using assms(2,3) find_NoneD by metis
  next
    case (Some x)
    then show ?thesis using only find_SomeD [OF Some] by blast
  qed
  show "rows_affected (event_fence lease now) db = 1"
    using assms by (subst one_row [where k = e_id and i = "lease_row lease"]) (auto simp: inbox_ok_def event_fence_def)
qed

section \<open>What settling leaves of a row\<close>

text \<open>
  The queue reports the status \<open>s\<close>, the event's row carries it with the error class \<open>c\<close> and the
  reason \<open>r\<close>, without a lease, and the other rows are as they were.
\<close>

definition ends_in ::
    "inbound_event_db \<Rightarrow> inbox \<Rightarrow> inbound_event_status \<Rightarrow> inbound_event_error_class option
      \<Rightarrow> inbound_event_ignore_reason option \<Rightarrow> (inbound_event_transition option \<times> inbox) option \<Rightarrow> bool" where
  "ends_in e db s c r result \<longleftrightarrow> (\<exists>db' e'. result = Some (Some (Event_Applied s), db') \<and> e' \<in> set db'
     \<and> same_event e e' \<and> e_status e' = s \<and> e_last_error_class e' = c \<and> e_ignore_reason e' = r
     \<and> e_execution_id e' = None \<and> (\<forall>x \<in> set db. x \<noteq> e \<longrightarrow> x \<in> set db'))"

lemma fenced_update:
  assumes "inbox_ok t db" and "e \<in> set db" and "event_fence lease now e"
  shows "f e \<in> set (update_where (event_fence lease now) f db)"
    and "x \<in> set db \<Longrightarrow> x \<noteq> e \<Longrightarrow> x \<in> set (update_where (event_fence lease now) f db)"
proof -
  have only: "x = e" if "x \<in> set db" "event_fence lease now x" for x
    using assms that by (intro distinct_key [of e_id db]) (auto simp: inbox_ok_def event_fence_def)
  show "f e \<in> set (update_where (event_fence lease now) f db)"
    using update_where_member [OF assms(2), where P = "event_fence lease now" and f = f] assms(3) by simp
  show "x \<in> set (update_where (event_fence lease now) f db)" if "x \<in> set db" "x \<noteq> e"
    using update_where_member [OF that(1), where P = "event_fence lease now" and f = f] only [OF that(1)] that(2) by (metis (full_types))
qed

lemma fenced_row_clean:
  assumes "inbox_ok t db" and "e \<in> set db" and "event_fence lease now e"
  shows "e_last_error_class e = None" and "e_ignore_reason e = None"
  using assms by (auto simp: inbox_ok_def event_fence_def event_checks)

lemma ignored_ends:
  assumes "inbox_ok t db" and "e \<in> set db" and "event_fence lease now e"
  shows "ends_in e db Inbound_Ignored None (Some reason) (settle now random lease (Work_Ignore reason) db)"
proof -
  let ?f = "\<lambda>e. clear_event_lease (e\<lparr>e_status := Inbound_Ignored, e_ignore_reason := Some reason,
    e_processed_at := Some now, e_updated_at := now\<rparr>)"
  let ?db = "update_where (event_fence lease now) ?f db"
  have "settle now random lease (Work_Ignore reason) db = Some (Some (Event_Applied Inbound_Ignored), ?db)"
    using fenced_event(2) [OF assms] by (simp add: ignore_inbound_event_def)
  moreover have "same_event e (?f e)" "e_status (?f e) = Inbound_Ignored" "e_last_error_class (?f e) = None"
    "e_ignore_reason (?f e) = Some reason" "e_execution_id (?f e) = None"
    using fenced_row_clean [OF assms] by (simp_all add: same_event_def event_key_def clear_event_lease_def)
  ultimately show ?thesis unfolding ends_in_def using fenced_update [OF assms] by blast
qed

lemma failure_ends:
  assumes "inbox_ok t db" and "e \<in> set db" and "event_fence lease now e" and "inbound_bounded_detail detail = Some (Ok bounded)"
  shows "ends_in e db (if terminal \<or> e_attempt_count e + 1 \<ge> e_max_attempts e then Inbound_DeadLetter else Inbound_Retryable)
    (Some c) None (failure_transition now random lease c detail terminal db)"
proof -
  note fenced = assms(1-3)
  let ?f = "if terminal
    then (\<lambda>e. clear_event_lease (e\<lparr>e_status := Inbound_DeadLetter,
      e_attempt_count := min (e_attempt_count e + 1) (e_max_attempts e), e_last_error_class := Some c,
      e_last_error_detail := Some bounded, e_processed_at := Some now, e_updated_at := now\<rparr>))
    else event_attempt_failed now random c bounded"
  let ?s = "if terminal \<or> e_attempt_count e + 1 \<ge> e_max_attempts e then Inbound_DeadLetter else Inbound_Retryable"
  let ?db = "update_where (event_fence lease now) ?f db"
  have row: "same_event e (?f e)" "e_status (?f e) = ?s" "e_last_error_class (?f e) = Some c" "e_ignore_reason (?f e) = None"
    "e_execution_id (?f e) = None"
    using fenced_row_clean [OF fenced]
    by (simp_all add: same_event_def event_key_def clear_event_lease_def event_attempt_failed_def Let_def)
  have "settle_failure now random lease c bounded terminal db = (Event_Applied (e_status (?f e)), ?db)"
    using fenced_event(1) [OF fenced] unfolding settle_failure_def Let_def by (simp only: option.case)
  then have "failure_transition now random lease c detail terminal db = Some (Some (Event_Applied ?s), ?db)"
    unfolding row(2) by (cases terminal)
      (simp_all add: failure_transition_def assms(4) retry_inbound_event_def dead_letter_inbound_event_def split del: if_split)
  then show ?thesis unfolding ends_in_def using row fenced_update [OF fenced, where f = ?f] by blast
qed

text \<open>The details that the worker writes itself are acceptable as they are.\<close>

lemma own_detail_bounded:
  assumes "accepted MAX_INBOUND_ERROR_DETAIL_BYTES detail"
  shows "inbound_bounded_detail detail = Some (Ok detail)"
proof -
  have "clip detail = detail" using assms by (intro clip_short) (simp add: accepted_def)
  moreover have "detail \<noteq> []" using assms not_accepted_empty by metis
  ultimately show ?thesis
    using assms by (simp add: inbound_bounded_detail_def inbound_detail_loop_value bounded_parse_def validate_bounded_def accepted_def)
qed

lemma refused_request_detail:
  assumes "validate_commit_request event request = Err detail"
  shows "inbound_bounded_detail detail = Some (Ok detail)"
  using assms by (intro own_detail_bounded)
    (auto simp: validate_commit_request_def accepted_def str_chars_def byte_of_def MAX_INBOUND_ERROR_DETAIL_BYTES_def
      is_whitespace_def is_control_def split: if_splits)

lemma no_decoder_detail:
  "inbound_bounded_detail ''No decoder is registered for this transport'' = Some (Ok ''No decoder is registered for this transport'')"
  by (rule own_detail_bounded) (simp add: accepted_def str_chars_def byte_of_def MAX_INBOUND_ERROR_DETAIL_BYTES_def
      is_whitespace_def is_control_def)

text \<open>A message is the event's own, and an error that decoding again would meet again.\<close>

definition belongs_to :: "inbound_event_record \<Rightarrow> 'm commit_request \<Rightarrow> bool" where
  "belongs_to event request \<longleftrightarrow> commit_claimed_event request = None \<and> commit_company_id request = r_company_id event
     \<and> commit_correlation_id request = r_correlation_id event \<and> commit_event_key request = Some (r_external_event_key event)"

lemma validate_commit_request_iff:
  "validate_commit_request event request = Ok () \<longleftrightarrow> belongs_to event request"
  "\<not> belongs_to event request \<Longrightarrow> \<exists>detail. validate_commit_request event request = Err detail"
  by (auto simp: validate_commit_request_def belongs_to_def)

fun refused_for_good :: "app_error \<Rightarrow> bool" where
  "refused_for_good (KnowledgeTrigger _ _) = True"
| "refused_for_good (KnowledgeRelease _ _) = True"
| "refused_for_good (ExecutionError _) = True"
| "refused_for_good (BadRequest _) = True"
| "refused_for_good (NotFound _) = True"
| "refused_for_good (Forbidden _) = True"
| "refused_for_good (ConflictError _) = True"
| "refused_for_good _ = False"

lemma classify_commit_error_final: "snd (classify_commit_error error) \<longleftrightarrow> refused_for_good error"
  by (cases error) simp_all

section \<open>Samples\<close>

definition sample_claimed_event :: claimed_inbound_event where
  "sample_claimed_event = \<lparr>event_lease = sample_lease, event_record = \<lparr>r_id = 1, r_company_id = 9, r_installation_id = None,
     r_transport = Email, r_external_event_key = ''k'', r_correlation_id = 0, r_payload = ''x'', r_payload_digest = ''x'',
     r_content_type = None, r_safe_header_facts = [], r_attempt_count = 0, r_max_attempts = 5, r_received_at = 1\<rparr>\<rparr>"

definition sample_processing :: inbound_event_db where
  "sample_processing = sample_event\<lparr>e_status := Inbound_Processing, e_execution_id := Some 7, e_owner_worker_id := Some 3,
     e_locked_at := Some 5, e_lock_expires_at := Some 100\<rparr>"

section \<open>Properties\<close>

text \<open>
  C31. A batch respects its limits in every state it can reach, panics included: at most four
  events run, no two of one installation's scope and at most two of one company, every event is
  started at most once, and each joined task uses up one claimed event, so that a batch ends
  after at most as many joins as it has events.
\<close>

theorem batches_respect_their_limits:
  assumes "batch_reaches claimed js s"
  shows "length (b_running s) \<le> 4 \<and> distinct (b_running s)
    \<and> (\<forall>c. length (filter (\<lambda>x. fst x = c) (b_running s)) \<le> 2)
    \<and> mset (b_started s) + mset (b_waiting s) = mset claimed
    \<and> length js + length (b_running s) \<le> length claimed"
proof -
  obtain lost where inv: "batch_inv claimed (length js) lost s" using batch_reaches_inv [OF assms] by blast
  have "in_company c (b_running s) \<le> 2" for c
  proof -
    have "in_company c (b_running s) + in_company c lost \<le> 2"
      using inv by (simp add: batch_inv_def PER_COMPANY_CONCURRENCY_def)
    then show ?thesis by simp
  qed
  moreover have "length (b_started s) \<le> length claimed"
    using inv arg_cong [of _ _ size] by (simp add: batch_inv_def) (metis le_add1 size_mset size_union)
  ultimately show ?thesis using inv by (auto simp: batch_inv_def in_company_def WORKER_CONCURRENCY_def)
qed

theorem batches_respect_their_limits_witness:
  "batch_reaches [sample_claimed_event, sample_claimed_event] [] (batch_start [sample_claimed_event, sample_claimed_event])
   \<and> length (b_running (batch_start [sample_claimed_event, sample_claimed_event])) \<le> 4"
  using batches_respect_their_limits [OF batch_init [of "[sample_claimed_event, sample_claimed_event]"]] batch_init by simp

text \<open>
  A batch without panics leaves nothing behind: when no task is left running, every claimed
  event was started and joined.
\<close>

theorem batches_leave_nothing_behind:
  assumes "batch_reaches claimed js s" and "\<forall>i. Join_Panic i \<notin> set js" and "b_running s = []"
  shows "b_waiting s = [] \<and> mset (b_started s) = mset claimed \<and> length js = length claimed"
proof -
  obtain s' where inv: "batch_inv claimed (length js) [] s" and s': "s = fill s'"
    using batch_reaches_inv [OF assms(1)] assms(2) by blast
  have empty: "b_scopes s = {}" "b_companies s c = None" for c using inv assms(3) by (simp_all add: batch_inv_def)
  have "\<not> schedulable (b_scopes s) (b_companies s) w" if "w \<in> set (b_waiting s)" for w
    using fill_full [of s'] assms(3) that by (simp add: s' WORKER_CONCURRENCY_def)
  moreover have "schedulable (b_scopes s) (b_companies s) w" for w
    by (simp add: schedulable_def empty PER_COMPANY_CONCURRENCY_def)
  ultimately have "b_waiting s = []" by (metis list.set_intros(1) neq_Nil_conv)
  moreover from this have "mset (b_started s) = mset claimed" using inv by (simp add: batch_inv_def)
  moreover have "length (b_started s) = length js" using inv assms(3) by (simp add: batch_inv_def)
  ultimately show ?thesis using mset_eq_length by metis
qed

theorem batches_leave_nothing_behind_witness:
  "b_waiting (fill (join_next (Join_Ok 0) (batch_start [sample_claimed_event]))) = []"
proof -
  have start: "b_running (batch_start [sample_claimed_event]) = [event_scope sample_claimed_event]"
    by (simp add: batch_start_def fill.simps spawn_def schedulable_def WORKER_CONCURRENCY_def PER_COMPANY_CONCURRENCY_def Let_def)
  have reached: "batch_reaches [sample_claimed_event] ([] @ [Join_Ok 0]) (fill (join_next (Join_Ok 0) (batch_start [sample_claimed_event])))"
    by (rule batch_ok [OF batch_init]) (simp add: start)
  have "b_running (fill (join_next (Join_Ok 0) (batch_start [sample_claimed_event]))) = []"
    by (simp add: batch_start_def fill.simps spawn_def schedulable_def WORKER_CONCURRENCY_def PER_COMPANY_CONCURRENCY_def
        remove_at_def Let_def)
  from batches_leave_nothing_behind [OF reached _ this] show ?thesis by simp
qed

text \<open>
  C30. What becomes of a claimed event. While its lease is live, decoding, committing and settling
  leave the event's row, and only that row, as follows. Without a decoder it is a dead letter. An
  event the decoder ignores is stored as ignored, with the decoder's reason; one it reports as
  failed is stored under the reported error, as a dead letter if the failure is terminal or this was
  the last attempt and as retryable otherwise. A decoded message of another company, correlation or
  provider key, or with a lease of its own, is a dead letter for an invalid payload. A message that commits is left to the commit; a commit error makes a dead letter if it
  refuses the message for good (a routing error) or this was the last attempt, and a retryable
  event otherwise. The details of failures are assumed to be ones that bounding returns from.
\<close>

theorem work_settles_its_event:
  assumes "inbox_ok now db" and "e \<in> set db" and "event_fence lease now e"
  shows "(decoders (r_transport event) = None \<longrightarrow>
        ends_in e db Inbound_DeadLetter (Some Event_UnsupportedTransport) None
          (settle now random lease (decode_and_commit decoders commit event lease) db))
    \<and> (\<forall>decode. decoders (r_transport event) = Some decode \<longrightarrow>
        (\<forall>reason. decode event = Decoded_Ignore reason \<longrightarrow>
          ends_in e db Inbound_Ignored None (Some reason)
            (settle now random lease (decode_and_commit decoders commit event lease) db))
      \<and> (\<forall>c detail bounded. inbound_bounded_detail detail = Some (Ok bounded) \<longrightarrow>
          (decode event = Decoded_Terminal c detail \<longrightarrow>
            ends_in e db Inbound_DeadLetter (Some c) None
              (settle now random lease (decode_and_commit decoders commit event lease) db))
        \<and> (decode event = Decoded_Retry c detail \<longrightarrow>
            ends_in e db (if e_attempt_count e + 1 \<ge> e_max_attempts e then Inbound_DeadLetter else Inbound_Retryable) (Some c) None
              (settle now random lease (decode_and_commit decoders commit event lease) db)))
      \<and> (\<forall>request. decode event = Decoded_Message request \<longrightarrow>
          (\<not> belongs_to event request \<longrightarrow>
            ends_in e db Inbound_DeadLetter (Some Event_InvalidPayload) None
              (settle now random lease (decode_and_commit decoders commit event lease) db))
        \<and> (belongs_to event request \<and> commit (request\<lparr>commit_claimed_event := Some lease\<rparr>) = None \<longrightarrow>
            settle now random lease (decode_and_commit decoders commit event lease) db = Some (None, db))
        \<and> (\<forall>error bounded. belongs_to event request \<and> commit (request\<lparr>commit_claimed_event := Some lease\<rparr>) = Some error
              \<and> inbound_bounded_detail (app_error_text error) = Some (Ok bounded) \<longrightarrow>
            (\<exists>c. (refused_for_good error \<longrightarrow> c = Event_Routing)
              \<and> ends_in e db (if refused_for_good error \<or> e_attempt_count e + 1 \<ge> e_max_attempts e
                  then Inbound_DeadLetter else Inbound_Retryable) (Some c) None
                (settle now random lease (decode_and_commit decoders commit event lease) db)))))"
    (is "(?none \<longrightarrow> _) \<and> (\<forall>decode. ?some decode \<longrightarrow> ?ignored decode \<and> ?failed decode \<and> ?message decode)")
proof (intro conjI allI impI)
  note terminal = failure_ends [OF assms, where terminal = True, simplified]
    and retry = failure_ends [OF assms, where terminal = False, simplified]
  show "ends_in e db Inbound_DeadLetter (Some Event_UnsupportedTransport) None
      (settle now random lease (decode_and_commit decoders commit event lease) db)" if ?none
    using that terminal [OF no_decoder_detail] by (simp add: decode_and_commit_def)
  fix decode assume some: "?some decode"
  show "ends_in e db Inbound_Ignored None (Some reason)
      (settle now random lease (decode_and_commit decoders commit event lease) db)" if "decode event = Decoded_Ignore reason" for reason
    using that ignored_ends [OF assms] by (simp add: decode_and_commit_def some)
  show "ends_in e db Inbound_DeadLetter (Some c) None
      (settle now random lease (decode_and_commit decoders commit event lease) db)"
    if "inbound_bounded_detail detail = Some (Ok bounded)" "decode event = Decoded_Terminal c detail" for c detail bounded
    using that terminal by (simp add: decode_and_commit_def some)
  show "ends_in e db (if e_attempt_count e + 1 \<ge> e_max_attempts e then Inbound_DeadLetter else Inbound_Retryable) (Some c) None
      (settle now random lease (decode_and_commit decoders commit event lease) db)"
    if "inbound_bounded_detail detail = Some (Ok bounded)" "decode event = Decoded_Retry c detail" for c detail bounded
    using that retry by (simp add: decode_and_commit_def some)
  fix request assume request: "decode event = Decoded_Message request"
  show "ends_in e db Inbound_DeadLetter (Some Event_InvalidPayload) None
      (settle now random lease (decode_and_commit decoders commit event lease) db)" if foreign: "\<not> belongs_to event request"
  proof -
    obtain detail where d: "validate_commit_request event request = Err detail" using validate_commit_request_iff(2) [OF foreign] by blast
    show ?thesis using terminal [OF refused_request_detail [OF d]] by (simp add: decode_and_commit_def some request d)
  qed
  show "settle now random lease (decode_and_commit decoders commit event lease) db = Some (None, db)"
    if "belongs_to event request \<and> commit (request\<lparr>commit_claimed_event := Some lease\<rparr>) = None"
    using that validate_commit_request_iff(1) [of event request] by (simp add: decode_and_commit_def some request)
  fix error bounded
  assume error: "belongs_to event request \<and> commit (request\<lparr>commit_claimed_event := Some lease\<rparr>) = Some error
    \<and> inbound_bounded_detail (app_error_text error) = Some (Ok bounded)"
  let ?c = "fst (classify_commit_error error)"
  have work: "settle now random lease (decode_and_commit decoders commit event lease) db =
      failure_transition now random lease ?c (app_error_text error) (refused_for_good error) db"
    using error validate_commit_request_iff(1) [of event request]
    by (simp add: decode_and_commit_def some request case_prod_unfold classify_commit_error_final Let_def)
  have "refused_for_good error \<longrightarrow> ?c = Event_Routing" by (cases error) simp_all
  moreover have "ends_in e db (if refused_for_good error \<or> e_attempt_count e + 1 \<ge> e_max_attempts e
      then Inbound_DeadLetter else Inbound_Retryable) (Some ?c) None
      (settle now random lease (decode_and_commit decoders commit event lease) db)"
    unfolding work by (rule failure_ends [OF assms]) (use error in simp)
  ultimately show "\<exists>c. (refused_for_good error \<longrightarrow> c = Event_Routing)
      \<and> ends_in e db (if refused_for_good error \<or> e_attempt_count e + 1 \<ge> e_max_attempts e
          then Inbound_DeadLetter else Inbound_Retryable) (Some c) None
        (settle now random lease (decode_and_commit decoders commit event lease) db)" by blast
qed

theorem work_settles_its_event_witness:
  "ends_in sample_processing [sample_processing] Inbound_Ignored None (Some Ignore_NotMessage)
     (settle 50 (\<lambda>_. 0) sample_lease (decode_and_commit (\<lambda>_. Some (\<lambda>_. Decoded_Ignore Ignore_NotMessage :: unit decode_outcome))
        (\<lambda>_. None) (event_record sample_claimed_event) sample_lease) [sample_processing])"
proof -
  have ok: "inbox_ok 50 [sample_processing]"
    by (simp add: inbox_ok_def sample_processing_def sample_event_def new_event_row_def event_checks MAX_INBOUND_EVENT_ATTEMPTS_def)
  have fenced: "event_fence sample_lease 50 sample_processing"
    by (simp add: event_fence_def sample_processing_def sample_event_def new_event_row_def sample_lease_def)
  show ?thesis
    using work_settles_its_event [OF ok _ fenced, of "\<lambda>_. Some (\<lambda>_. Decoded_Ignore Ignore_NotMessage :: unit decode_outcome)"
      "event_record sample_claimed_event" "\<lambda>_. 0" "\<lambda>_. None"] by simp
qed

text \<open>
  C37. An event whose message is its own and whose commit fails with an error text of at most 512
  bytes that holds a control character, such as a line break, is never settled by its worker: the
  loop that bounds the detail does not return, whatever the error, the table and the time.
\<close>

theorem multi_line_commit_errors_are_never_settled:
  assumes "decoders (r_transport event) = Some decode" and "decode event = Decoded_Message request"
    and "belongs_to event request" and "commit (request\<lparr>commit_claimed_event := Some lease\<rparr>) = Some error"
    and "length (app_error_text error) \<le> 512" and "list_ex is_control (str_chars (app_error_text error))"
  shows "settle now random lease (decode_and_commit decoders commit event lease) db = None"
proof -
  have "inbound_bounded_detail (app_error_text error) = None"
    by (rule inbound_detail_stuck) (use assms(5,6) in \<open>simp_all add: MAX_INBOUND_ERROR_DETAIL_BYTES_def\<close>)
  then show ?thesis
    using assms(1-4) validate_commit_request_iff(1) [of event request]
    by (simp add: decode_and_commit_def failure_transition_def case_prod_unfold Let_def)
qed

theorem multi_line_commit_errors_are_never_settled_witness:
  "settle 50 (\<lambda>_. 0) sample_lease (decode_and_commit (\<lambda>_. Some (\<lambda>_. Decoded_Message \<lparr>commit_company_id = 9, commit_correlation_id = 0,
        commit_event_key = Some ''k'', commit_claimed_event = None, commit_message = ()\<rparr>))
      (\<lambda>_. Some (DatabaseError (''a'' @ [CHR 0x0A] @ ''b''))) (event_record sample_claimed_event) sample_lease) [sample_processing] = None"
  by (rule multi_line_commit_errors_are_never_settled [OF refl refl _ refl])
    (simp_all add: belongs_to_def sample_claimed_event_def str_chars_def byte_of_def is_control_def)

end
