(* ===== verification/Source.thy ===== *)
theory Source
  imports Reference
begin

text \<open>
  Located source trees, diagnostics and the readers that the compiler builds on:
  \<open>src/src/application/workflow/compiler/source.rs\<close> and \<open>syntax.rs\<close>. A decoder outside
  this layer turns YAML text into a tree of scalars, sequences and mappings, each with its span;
  mappings keep the order and the duplicates of the text, and \<open>node_fields\<close> rejects what the
  language does not allow.
\<close>

section \<open>Trees and diagnostics\<close>

record source_span =
  span_start :: nat
  span_end :: nat
  span_line :: nat
  span_column :: nat

datatype 'n located_node = LocatedNode (node_value: "'n node_value") (node_span: source_span)
and 'n node_value =
    Scalar "'n json"
  | Sequence "'n located_node list"
  | Mapping "('n located_node \<times> 'n located_node) list"

record 'n decoded_source =
  source_text :: string
  source_root :: "'n located_node"

record diagnostic =
  diag_code :: string
  diag_message :: string
  diag_field_path :: string
  diag_span :: source_span
  diag_instance_path :: "string option"
  diag_schema_path :: "string option"

text \<open>
  \<open>chars().take(n)\<close> on a UTF-8 string: a character starts at every byte that is not a
  continuation byte.
\<close>

definition continuation_byte :: "char \<Rightarrow> bool" where
  "continuation_byte c \<longleftrightarrow> 128 \<le> (of_char c :: nat) \<and> (of_char c :: nat) < 192"

fun take_chars :: "nat \<Rightarrow> string \<Rightarrow> string" where
  "take_chars n [] = []"
| "take_chars n (c # cs) =
     (if continuation_byte c then c # take_chars n cs
      else (case n of 0 \<Rightarrow> [] | Suc m \<Rightarrow> c # take_chars m cs))"

definition Diagnostic_at :: "string \<Rightarrow> string \<Rightarrow> string \<Rightarrow> source_span \<Rightarrow> diagnostic" where
  "Diagnostic_at code message field_path span =
     \<lparr>diag_code = code, diag_message = take_chars 240 message,
      diag_field_path = take_chars 512 field_path, diag_span = span,
      diag_instance_path = None, diag_schema_path = None\<rparr>"

type_synonym locations = "(string, source_span) btree_map"

text \<open>\<open>str::split_once\<close> and \<open>rsplit_once\<close> on one character, and \<open>split_once\<close> on a string.\<close>

fun split_once_char :: "char \<Rightarrow> string \<Rightarrow> (string \<times> string) option" where
  "split_once_char c [] = None"
| "split_once_char c (x # xs) =
     (if x = c then Some ([], xs)
      else map_option (\<lambda>(a, b). (x # a, b)) (split_once_char c xs))"

definition rsplit_once_char :: "char \<Rightarrow> string \<Rightarrow> (string \<times> string) option" where
  "rsplit_once_char c s = map_option (\<lambda>(a, b). (rev b, rev a)) (split_once_char c (rev s))"

fun split_once_str :: "string \<Rightarrow> string \<Rightarrow> (string \<times> string) option" where
  "split_once_str sep [] = (if sep = [] then Some ([], []) else None)"
| "split_once_str sep (x # xs) =
     (if take (length sep) (x # xs) = sep then Some ([], drop (length sep) (x # xs))
      else map_option (\<lambda>(a, b). (x # a, b)) (split_once_str sep xs))"

lemma rsplit_once_char_shorter: "rsplit_once_char c s = Some (parent, tail) \<Longrightarrow> length parent < length s"
proof -
  have split: "split_once_char c t = Some (a, b) \<Longrightarrow> length a + length b < length t" for t a b
    by (induction t arbitrary: a b) (auto split: if_splits)
  assume "rsplit_once_char c s = Some (parent, tail)"
  then obtain a b where "split_once_char c (rev s) = Some (a, b)" "parent = rev b"
    by (auto simp: rsplit_once_char_def)
  then show ?thesis using split by fastforce
qed

function nearest_ancestor :: "locations \<Rightarrow> string \<Rightarrow> source_span option" where
  "nearest_ancestor spans ancestor =
     (case rsplit_once_char CHR ''/'' ancestor of
        None \<Rightarrow> None
      | Some (parent, _) \<Rightarrow>
          (case bt_get spans parent of
             Some span \<Rightarrow> Some span
           | None \<Rightarrow> nearest_ancestor spans parent))"
  by pat_completeness auto
termination
  by (relation "measure (\<lambda>(spans, ancestor). length ancestor)") (auto dest: rsplit_once_char_shorter)

declare nearest_ancestor.simps [simp del]

definition input_span :: "locations \<Rightarrow> string \<Rightarrow> (source_span, diagnostic) outcome" where
  "input_span spans at =
     (case bt_get spans at of
        Some span \<Rightarrow> Ok span
      | None \<Rightarrow>
          (case (case split_once_str ''/with/'' at of
                   None \<Rightarrow> None
                 | Some (prefix, tail) \<Rightarrow>
                     (case split_once_char CHR ''/'' tail of
                        None \<Rightarrow> None
                      | Some (field, nested) \<Rightarrow>
                          bt_get spans (prefix @ ''/with/'' @ field @ ''/literal/'' @ nested))) of
             Some span \<Rightarrow> Ok span
           | None \<Rightarrow>
               (case nearest_ancestor spans at of
                  Some span \<Rightarrow> Ok span
                | None \<Rightarrow> expect (bt_get spans []))))"

section \<open>Readers\<close>

definition replace_char :: "char \<Rightarrow> string \<Rightarrow> string \<Rightarrow> string" where
  "replace_char c r s = concat (map (\<lambda>x. if x = c then r else [x]) s)"

definition escape :: "string \<Rightarrow> string" where
  "escape segment = replace_char CHR ''/'' ''~1'' (replace_char CHR ''~'' ''~0'' segment)"

text \<open>The inverse, as the readers of JSON pointers apply it.\<close>

fun replace_pair :: "char \<Rightarrow> char \<Rightarrow> char \<Rightarrow> string \<Rightarrow> string" where
  "replace_pair a b r (x # y # s) =
     (if x = a \<and> y = b then r # replace_pair a b r s else x # replace_pair a b r (y # s))"
| "replace_pair a b r s = s"

definition unescape :: "string \<Rightarrow> string" where
  "unescape s = replace_pair CHR ''~'' CHR ''0'' CHR ''~'' (replace_pair CHR ''~'' CHR ''1'' CHR ''/'' s)"

definition child :: "string \<Rightarrow> string \<Rightarrow> string" where
  "child at segment = at @ ''/'' @ escape segment"

definition scalar_string :: "'n located_node \<Rightarrow> string \<Rightarrow> (string, diagnostic) outcome" where
  "scalar_string node at =
     (case node_value node of
        Scalar (VString value) \<Rightarrow> Ok value
      | _ \<Rightarrow> Err (Diagnostic_at ''syntax.string'' ''Expected a string'' at (node_span node)))"

text \<open>One round of the loop of \<open>node_fields\<close>.\<close>

definition add_field ::
    "string \<Rightarrow> string list \<Rightarrow> 'n located_node \<times> 'n located_node \<Rightarrow> (string, 'n located_node) btree_map
      \<Rightarrow> ((string, 'n located_node) btree_map, diagnostic) outcome" where
  "add_field at allowed entry result =
     bindr (scalar_string (fst entry) at) (\<lambda>name.
     let field = child at name; span = node_span (fst entry) in
     if allowed \<noteq> [] \<and> name \<notin> set allowed
     then Err (Diagnostic_at ''syntax.unknown_field'' ''Unknown field'' field span)
     else if bt_contains result name
     then Err (Diagnostic_at ''syntax.duplicate'' ''Duplicate mapping key'' field span)
     else Ok (bt_insert name (snd entry) result))"

definition node_fields ::
    "'n located_node \<Rightarrow> string \<Rightarrow> string list \<Rightarrow> ((string, 'n located_node) btree_map, diagnostic) outcome" where
  "node_fields node at allowed =
     (case node_value node of
        Mapping entries \<Rightarrow>
          for_each (add_field at allowed) entries []
      | _ \<Rightarrow> Err (Diagnostic_at ''syntax.mapping'' ''Expected a mapping'' at (node_span node)))"

definition required ::
    "(string, 'n located_node) btree_map \<Rightarrow> string \<Rightarrow> string \<Rightarrow> 'n located_node
      \<Rightarrow> ('n located_node, diagnostic) outcome" where
  "required fs key at enclosing =
     ok_or (bt_get fs key)
       (Diagnostic_at ''syntax.required'' (''Missing required field '' @ key) at (node_span enclosing))"

definition sequence :: "'n located_node \<Rightarrow> string \<Rightarrow> ('n located_node list, diagnostic) outcome" where
  "sequence node at =
     (case node_value node of
        Sequence items \<Rightarrow> Ok items
      | _ \<Rightarrow> Err (Diagnostic_at ''syntax.sequence'' ''Expected a sequence'' at (node_span node)))"

text \<open>
  \<open>iter().enumerate().map(f).collect::<Result<Vec<_>, _>>()\<close>, and the same over the entries of a
  map into a map.
\<close>

primrec collect_items :: "(nat \<Rightarrow> 'a \<Rightarrow> ('b, 'e) outcome) \<Rightarrow> nat \<Rightarrow> 'a list \<Rightarrow> ('b list, 'e) outcome" where
  "collect_items f i [] = Ok []"
| "collect_items f i (x # xs) = bindr (f i x) (\<lambda>y. bindr (collect_items f (Suc i) xs) (\<lambda>ys. Ok (y # ys)))"

definition collect_map ::
    "(string \<Rightarrow> 'a \<Rightarrow> ('b, 'e) outcome) \<Rightarrow> (string, 'a) btree_map \<Rightarrow> ((string, 'b) btree_map, 'e) outcome" where
  "collect_map f m = for_each (\<lambda>(k, v) result. bindr (f k v) (\<lambda>w. Ok (bt_insert k w result))) m []"

lemma collect_items_cong [fundef_cong]:
  "xs = ys \<Longrightarrow> i = j \<Longrightarrow> (\<And>k x. x \<in> set ys \<Longrightarrow> f k x = g k x) \<Longrightarrow> collect_items f i xs = collect_items g j ys"
  by (induction ys arbitrary: xs i j) (auto intro!: bindr_cong)

lemma collect_map_cong [fundef_cong]:
  "m = m' \<Longrightarrow> (\<And>k x. (k, x) \<in> set m' \<Longrightarrow> f k x = g k x) \<Longrightarrow> collect_map f m = collect_map g m'"
  unfolding collect_map_def by (rule for_each_cong) (auto intro!: bindr_cong)

section \<open>What the readers return\<close>

lemma size_node_value [termination_simp]:
  "size node = Suc (size (node_value node))"
  by (cases node) simp

lemma sequence_eq_Ok: "sequence node at = Ok items \<longleftrightarrow> node_value node = Sequence items"
  by (auto simp: sequence_def split: node_value.splits)

lemma scalar_string_eq_Ok: "scalar_string node at = Ok s \<longleftrightarrow> node_value node = Scalar (VString s)"
  by (auto simp: scalar_string_def split: node_value.splits json.splits)

lemma sequence_size [termination_simp]:
  "sequence node at = Ok items \<Longrightarrow> item \<in> set items \<Longrightarrow> size item < size node"
  by (cases node) (auto simp: sequence_eq_Ok less_Suc_eq_le intro!: le_SucI size_list_estimation')

text \<open>
  The fields of a mapping: the keys are strings, each occurs once and is allowed, and the result
  holds exactly the entries of the mapping, in the order of their names.
\<close>

definition bt_of :: "('k::linorder \<times> 'v) list \<Rightarrow> ('k, 'v) btree_map" where
  "bt_of kvs = foldl (\<lambda>m (k, v). bt_insert k v m) [] kvs"

definition field_names :: "('n located_node \<times> 'n located_node) list \<Rightarrow> string list \<Rightarrow> bool" where
  "field_names entries names \<longleftrightarrow> map (node_value \<circ> fst) entries = map (\<lambda>s. Scalar (VString s)) names"

lemma bt_of_snoc: "bt_of (kvs @ [(k, v)]) = bt_insert k v (bt_of kvs)"
  by (simp add: bt_of_def)

lemma set_bt_insert_new: "\<not> bt_contains m k \<Longrightarrow> set (bt_insert k v m) = insert (k, v) (set m)"
  by (induction k v m rule: bt_insert.induct) (auto simp: bt_contains_def bt_get_def)

lemma bt_of_distinct:
  "distinct (map fst kvs) \<Longrightarrow> bt_ok (bt_of kvs) \<and> set (bt_of kvs) = set kvs"
proof (induction kvs rule: rev_induct)
  case (snoc kv kvs)
  obtain k v where kv: "kv = (k, v)" by force
  have "\<not> bt_contains (bt_of kvs) k"
    using snoc kv by (auto simp: bt_contains_iff bt_keys_def)
  then show ?case
    using snoc kv by (auto simp: bt_of_snoc bt_ok_insert set_bt_insert_new)
qed (simp add: bt_of_def bt_ok_def)

lemma field_names_length: "field_names entries names \<Longrightarrow> length entries = length names"
  unfolding field_names_def by (metis length_map)

lemma add_field_eq_Ok:
  "add_field at allowed entry result = Ok m \<longleftrightarrow>
     (\<exists>name. node_value (fst entry) = Scalar (VString name) \<and> (allowed = [] \<or> name \<in> set allowed)
        \<and> \<not> bt_contains result name \<and> m = bt_insert name (snd entry) result)"
  by (auto simp: add_field_def Let_def scalar_string_eq_Ok)

lemma field_names_Cons:
  "field_names (e # entries) names \<longleftrightarrow>
     (\<exists>name ns. names = name # ns \<and> node_value (fst e) = Scalar (VString name) \<and> field_names entries ns)"
  by (cases names) (auto simp: field_names_def)

lemma fields_loop:
  "distinct (map fst seen) \<Longrightarrow>
   for_each (add_field at allowed) entries (bt_of seen) = Ok m
   \<longleftrightarrow> (\<exists>names. field_names entries names \<and> distinct (map fst seen @ names)
        \<and> (allowed = [] \<or> set names \<subseteq> set allowed)
        \<and> m = bt_of (seen @ zip names (map snd entries)))"
proof (induction entries arbitrary: seen)
  case Nil
  then show ?case by (auto simp: field_names_def)
next
  case (Cons e entries)
  have new: "bt_contains (bt_of seen) name \<longleftrightarrow> name \<in> fst ` set seen" for name
    using bt_of_distinct [OF Cons.prems] by (simp add: bt_contains_iff bt_keys_def)
  have step: "for_each (add_field at allowed) entries (bt_insert name (snd e) (bt_of seen)) = Ok m
      \<longleftrightarrow> (\<exists>names. field_names entries names \<and> distinct (map fst seen @ name # names)
        \<and> (allowed = [] \<or> set names \<subseteq> set allowed) \<and> m = bt_of (seen @ (name, snd e) # zip names (map snd entries)))"
    if "name \<notin> fst ` set seen" for name
  proof -
    have "distinct (map fst (seen @ [(name, snd e)]))" using Cons.prems that by auto
    from Cons.IH [OF this] show ?thesis by (simp add: bt_of_snoc)
  qed
  show ?case
  proof
    assume "for_each (add_field at allowed) (e # entries) (bt_of seen) = Ok m"
    then obtain name where name: "node_value (fst e) = Scalar (VString name)" "allowed = [] \<or> name \<in> set allowed"
        "name \<notin> fst ` set seen" and rest: "for_each (add_field at allowed) entries (bt_insert name (snd e) (bt_of seen)) = Ok m"
      by (auto simp: add_field_eq_Ok new)
    from rest obtain names where "field_names entries names" "distinct (map fst seen @ name # names)"
        "allowed = [] \<or> set names \<subseteq> set allowed" "m = bt_of (seen @ (name, snd e) # zip names (map snd entries))"
      unfolding step [OF name(3)] by blast
    then show "\<exists>names. field_names (e # entries) names \<and> distinct (map fst seen @ names)
        \<and> (allowed = [] \<or> set names \<subseteq> set allowed) \<and> m = bt_of (seen @ zip names (map snd (e # entries)))"
      using name by (intro exI [of _ "name # names"]) (auto simp: field_names_Cons)
  next
    assume "\<exists>names. field_names (e # entries) names \<and> distinct (map fst seen @ names)
        \<and> (allowed = [] \<or> set names \<subseteq> set allowed) \<and> m = bt_of (seen @ zip names (map snd (e # entries)))"
    then obtain name ns where n: "node_value (fst e) = Scalar (VString name)" "field_names entries ns"
        "distinct (map fst seen @ name # ns)" "allowed = [] \<or> set (name # ns) \<subseteq> set allowed"
        "m = bt_of (seen @ (name, snd e) # zip ns (map snd entries))"
      by (auto simp: field_names_Cons)
    then have "name \<notin> fst ` set seen" by auto
    moreover from this have "for_each (add_field at allowed) entries (bt_insert name (snd e) (bt_of seen)) = Ok m"
      using n unfolding step [OF \<open>name \<notin> fst ` set seen\<close>] by auto
    ultimately show "for_each (add_field at allowed) (e # entries) (bt_of seen) = Ok m"
      using n by (auto simp: add_field_eq_Ok new)
  qed
qed

lemma fields_eq_Ok:
  "node_fields node at allowed = Ok m \<longleftrightarrow>
     (\<exists>entries names. node_value node = Mapping entries \<and> field_names entries names \<and> distinct names
        \<and> (allowed = [] \<or> set names \<subseteq> set allowed) \<and> m = bt_of (zip names (map snd entries)))"
  using fields_loop [of "[]" at allowed _ m] by (auto simp: node_fields_def bt_of_def split: node_value.splits)

lemma fields_facts:
  assumes "node_fields node at allowed = Ok m"
  shows "bt_ok m" and "(k, v) \<in> set m \<Longrightarrow> size v < size node"
    and "(k, v) \<in> set m \<Longrightarrow> allowed = [] \<or> k \<in> set allowed"
proof -
  obtain entries names where f: "node_value node = Mapping entries" "field_names entries names" "distinct names"
      "allowed = [] \<or> set names \<subseteq> set allowed" "m = bt_of (zip names (map snd entries))"
    using assms by (auto simp: fields_eq_Ok)
  have keys: "map fst (zip names (map snd entries)) = names"
    using field_names_length [OF f(2)] by simp
  then have m: "bt_ok m" "set m = set (zip names (map snd entries))"
    using bt_of_distinct [of "zip names (map snd entries)"] f by auto
  show "bt_ok m" by (fact m)
  show "size v < size node" if kv: "(k, v) \<in> set m"
  proof -
    obtain key where "(key, v) \<in> set entries"
      using set_zip_rightD [of k v names "map snd entries"] kv m by auto
    then have "size v \<le> size_list (size_prod size size) entries"
      by (rule size_list_estimation') simp
    then show ?thesis
      using f(1) by (cases node) simp
  qed
  show "allowed = [] \<or> k \<in> set allowed" if "(k, v) \<in> set m"
    using that m f(4) by (auto dest: set_zip_leftD)
qed

lemma fields_size [termination_simp]:
  "node_fields node at allowed = Ok m \<Longrightarrow> (k, v) \<in> set m \<Longrightarrow> size v < size node"
  by (rule fields_facts)

section \<open>Plain values\<close>

function json_value :: "'n located_node \<Rightarrow> string \<Rightarrow> ('n json, diagnostic) outcome" where
  "json_value node at =
     (case node_value node of
        Scalar v \<Rightarrow> Ok v
      | Sequence items \<Rightarrow>
          bindr (collect_items (\<lambda>i item. json_value item (child at (show_nat i))) 0 items) (\<lambda>vs. Ok (VArray vs))
      | Mapping _ \<Rightarrow>
          bindr (node_fields node at []) (\<lambda>m.
          bindr (collect_map (\<lambda>key value. json_value value (child at key)) m) (\<lambda>kvs. Ok (VObject kvs))))"
  by pat_completeness auto
termination
  by (relation "measure (size \<circ> fst)") (auto simp: sequence_eq_Ok fields_size intro: sequence_size)

declare json_value.simps [simp del]

lemma replace_char_Cons [simp]:
  "replace_char c r [] = []" "replace_char c r (x # s) = (if x = c then r else [x]) @ replace_char c r s"
  by (simp_all add: replace_char_def)

lemma replace_char_append [simp]: "replace_char c r (s @ t) = replace_char c r s @ replace_char c r t"
  by (simp add: replace_char_def)

lemma escape_escape_segment: "escape s = escape_segment s"
  unfolding escape_def by (induction s) auto

lemma replace_pair_other: "x \<noteq> a \<Longrightarrow> replace_pair a b r (x # s) = x # replace_pair a b r s"
  by (cases s) auto

lemma unescape_escape: "unescape (escape s) = s"
proof -
  have slash: "replace_pair CHR ''~'' CHR ''1'' CHR ''/'' (escape_segment t) = replace_char CHR ''~'' ''~0'' t" for t
    by (induction t) (auto simp: replace_pair_other)
  have tilde: "replace_pair CHR ''~'' CHR ''0'' CHR ''~'' (replace_char CHR ''~'' ''~0'' t) = t" for t
    by (induction t) (auto simp: replace_pair_other)
  show ?thesis
    by (simp add: unescape_def escape_escape_segment slash tilde)
qed

definition sample_span :: source_span where
  "sample_span = \<lparr>span_start = 0, span_end = 1, span_line = 1, span_column = 1\<rparr>"

text \<open>A JSON value as an author writes it, at any span.\<close>

fun node_of :: "source_span \<Rightarrow> 'n json \<Rightarrow> 'n located_node" where
  "node_of s (VArray vs) = LocatedNode (Sequence (map (node_of s) vs)) s"
| "node_of s (VObject kvs) =
     LocatedNode (Mapping (map (\<lambda>kv. (LocatedNode (Scalar (VString (fst kv))) s, node_of s (snd kv))) kvs)) s"
| "node_of s v = LocatedNode (Scalar v) s"

lemma bt_insert_last:
  "bt_ok (kvs @ [(k, v)]) \<Longrightarrow> bt_insert k v kvs = kvs @ [(k, v)]"
  by (induction kvs) (auto simp: bt_ok_def)

lemma bt_ok_butlast: "bt_ok (kvs @ [kv]) \<Longrightarrow> bt_ok kvs"
  by (simp add: bt_ok_def sorted_wrt_append)

lemma bt_of_sorted: "bt_ok kvs \<Longrightarrow> bt_of kvs = kvs"
proof (induction kvs rule: rev_induct)
  case (snoc kv kvs)
  then have "bt_of kvs = kvs" using bt_ok_butlast by blast
  then show ?case
    using snoc.prems by (cases kv) (simp add: bt_of_snoc bt_insert_last)
qed (simp add: bt_of_def)

lemma collect_map_eq_Ok:
  "bt_ok m \<Longrightarrow> collect_map f m = Ok r \<longleftrightarrow> map fst r = map fst m \<and> list_all2 (\<lambda>kv kw. f (fst kv) (snd kv) = Ok (snd kw)) m r"
proof (induction m arbitrary: r rule: rev_induct)
  case (snoc kv m)
  have ok: "bt_ok m" using snoc.prems by (rule bt_ok_butlast)
  show ?case
  proof
    assume "collect_map f (m @ [kv]) = Ok r"
    then obtain r' w where r: "collect_map f m = Ok r'" "f (fst kv) (snd kv) = Ok w" "r = bt_insert (fst kv) w r'"
      by (auto simp: collect_map_def for_each_append split: prod.splits)
    then have keys: "map fst r' = map fst m" and all: "list_all2 (\<lambda>kv kw. f (fst kv) (snd kv) = Ok (snd kw)) m r'"
      using snoc.IH [OF ok] by auto
    have "bt_ok (r' @ [(fst kv, w)])" using snoc.prems keys by (simp add: bt_ok_def)
    then have "r = r' @ [(fst kv, w)]" using r bt_insert_last by auto
    then show "map fst r = map fst (m @ [kv]) \<and> list_all2 (\<lambda>kv kw. f (fst kv) (snd kv) = Ok (snd kw)) (m @ [kv]) r"
      using keys all r by (simp add: list_all2_appendI)
  next
    assume r: "map fst r = map fst (m @ [kv]) \<and> list_all2 (\<lambda>kv kw. f (fst kv) (snd kv) = Ok (snd kw)) (m @ [kv]) r"
    then obtain r' kw where r': "r = r' @ [kw]" "list_all2 (\<lambda>kv kw. f (fst kv) (snd kv) = Ok (snd kw)) m r'"
        "f (fst kv) (snd kv) = Ok (snd kw)"
      by (auto simp: list_all2_append1 list_all2_Cons1)
    moreover from this r have keys: "map fst r' = map fst m" "fst kw = fst kv" by auto
    ultimately have "collect_map f m = Ok r'" using snoc.IH [OF ok] by auto
    moreover have "bt_insert (fst kv) (snd kw) r' = r"
      using snoc.prems keys r'(1) bt_insert_last [of r' "fst kv" "snd kw"] by (cases kw) (auto simp: bt_ok_def)
    ultimately show "collect_map f (m @ [kv]) = Ok r"
      using r' by (auto simp: collect_map_def for_each_append split: prod.splits)
  qed
qed (auto simp: collect_map_def)

lemma collect_items_eq_Ok:
  "collect_items f i xs = Ok ys \<longleftrightarrow> length ys = length xs \<and> (\<forall>j < length xs. f (i + j) (xs ! j) = Ok (ys ! j))"
proof (induction xs arbitrary: i ys)
  case (Cons x xs)
  show ?case
    using Cons.IH [of "Suc i"]
    by (cases ys) (auto simp: less_Suc_eq_0_disj)
qed auto

lemma fields_node_of:
  assumes "bt_ok kvs" "allowed = [] \<or> list_all (\<lambda>kv. fst kv \<in> set allowed) kvs"
  shows "node_fields (node_of s (VObject kvs)) at allowed = Ok (map (\<lambda>kv. (fst kv, node_of s (snd kv))) kvs)"
proof -
  let ?m = "map (\<lambda>kv. (fst kv, node_of s (snd kv))) kvs"
  have "bt_of ?m = ?m" by (rule bt_of_sorted) (use assms(1) in \<open>simp add: bt_ok_def comp_def\<close>)
  moreover have "distinct (map fst kvs)"
    using assms(1) by (simp add: bt_ok_def strict_sorted_iff)
  ultimately show ?thesis
    unfolding fields_eq_Ok
    using assms(2) by (intro exI [of _ "map (\<lambda>kv. (LocatedNode (Scalar (VString (fst kv))) s, node_of s (snd kv))) kvs"]
        exI [of _ "map fst kvs"])
      (auto simp add: field_names_def comp_def zip_map_map map_zip_map2 zip_same_conv_map list_all_iff)
qed

text \<open>
  A value written out as a source tree is read back as itself, wherever it stands.
\<close>

theorem json_source_round_trip:
  "json_ok v \<Longrightarrow> json_value (node_of s v) at = Ok v"
proof (induction s v arbitrary: at rule: node_of.induct)
  case (1 s vs)
  then show ?case
    by (subst json_value.simps) (auto simp: collect_items_eq_Ok list_all_length)
next
  case (2 s kvs)
  let ?m = "map (\<lambda>kv. (fst kv, node_of s (snd kv))) kvs"
  have "node_fields (node_of s (VObject kvs)) at [] = Ok ?m"
    using 2 by (simp add: fields_node_of del: node_of.simps)
  moreover have "collect_map (\<lambda>key value. json_value value (child at key)) ?m = Ok kvs"
  proof (subst collect_map_eq_Ok)
    show "bt_ok ?m" using 2 by (simp add: bt_ok_def comp_def)
    have "json_value (node_of s (snd kv)) (child at (fst kv)) = Ok (snd kv)" if "kv \<in> set kvs" for kv
      using 2 that by (cases kv) (auto simp: list_all_iff)
    then show "map fst kvs = map fst ?m
        \<and> list_all2 (\<lambda>kv kw. json_value (snd kv) (child at (fst kv)) = Ok (snd kw)) ?m kvs"
      by (auto simp: list_all2_conv_all_nth)
  qed
  ultimately show ?case
    by (subst json_value.simps) simp
qed (simp_all add: json_value.simps)

end
