(* ===== verification/Binding_Syntax.thy ===== *)
theory Binding_Syntax
  imports Source Binding_Facts
begin

text \<open>
  The source form of bindings, \<open>src/src/application/workflow/compiler/binding.rs\<close>, and the walk
  that collects the references of a binding from its source,
  \<open>src/src/application/workflow/compiler/analysis.rs\<close>. The compiler checks references on the
  source tree, while the engine evaluates the parsed binding: the walk is shown to find exactly
  the references of the binding, with the same notion of which of them are optional.
\<close>

section \<open>Parsing\<close>

definition OPERATORS :: "string list" where
  "OPERATORS = [''literal'', ''ref'', ''object'', ''array'', ''concat'', ''default'', ''eq'', ''ne'', ''lt'', ''le'',
     ''gt'', ''ge'', ''in'', ''exists'', ''and'', ''or'', ''not'']"

definition parse_pointer :: "'n located_node \<Rightarrow> string \<Rightarrow> (context_reference, diagnostic) outcome" where
  "parse_pointer node at =
     bindr (scalar_string node at) (\<lambda>value.
     map_err (\<lambda>_. Diagnostic_at ''binding.reference'' ''Invalid context pointer'' at (node_span node))
       (ContextReference_parse value))"

text \<open>The helpers of \<open>parse_binding\<close>, as functions of the parser they call on the parts.\<close>

type_synonym 'n binding_parser = "'n located_node \<Rightarrow> string \<Rightarrow> ('n binding, diagnostic) outcome"

definition parse_bindings ::
    "'n binding_parser \<Rightarrow> 'n located_node \<Rightarrow> string \<Rightarrow> ('n binding list, diagnostic) outcome" where
  "parse_bindings parse node at =
     bindr (sequence node at) (collect_items (\<lambda>i item. parse item (child at (show_nat i))) 0)"

definition parse_pair ::
    "'n binding_parser \<Rightarrow> 'n located_node \<Rightarrow> string \<Rightarrow> ('n binding \<times> 'n binding, diagnostic) outcome" where
  "parse_pair parse node at =
     bindr (sequence node at) (\<lambda>items.
     case items of
       [first, second] \<Rightarrow>
         bindr (parse first (child at ''0'')) (\<lambda>l.
         bindr (parse second (child at ''1'')) (\<lambda>r. Ok (l, r)))
     | _ \<Rightarrow> Err (Diagnostic_at ''binding.arity'' ''Expected exactly two bindings'' at (node_span node)))"

definition parse_object ::
    "'n binding_parser \<Rightarrow> 'n located_node \<Rightarrow> string \<Rightarrow> ((string, 'n binding) btree_map, diagnostic) outcome" where
  "parse_object parse node at =
     bindr (node_fields node at []) (collect_map (\<lambda>key value. parse value (child at key)))"

definition parse_fallback ::
    "'n binding_parser \<Rightarrow> 'n located_node \<Rightarrow> string \<Rightarrow> ('n binding, diagnostic) outcome" where
  "parse_fallback parse node at =
     bindr (node_fields node at [''ref'', ''value'']) (\<lambda>m.
     bindr (required m ''ref'' at node) (\<lambda>r.
     bindr (parse_pointer r (child at ''ref'')) (\<lambda>pointer.
     bindr (required m ''value'' at node) (\<lambda>v.
     bindr (parse v (child at ''value'')) (\<lambda>fallback. Ok (Default pointer fallback))))))"

definition comparison_of :: "string \<Rightarrow> (comparison, 'e) outcome" where
  "comparison_of name =
     (if name = ''eq'' then Ok Eq else if name = ''ne'' then Ok Ne else if name = ''lt'' then Ok Lt
      else if name = ''le'' then Ok Le else if name = ''gt'' then Ok Gt else if name = ''ge'' then Ok Ge
      else Panic)"

lemma parse_bindings_cong [fundef_cong]:
  "node = node' \<Longrightarrow> at = at' \<Longrightarrow> (\<And>item a. size item < size node' \<Longrightarrow> parse item a = parse' item a)
    \<Longrightarrow> parse_bindings parse node at = parse_bindings parse' node' at'"
  unfolding parse_bindings_def by (intro bindr_cong collect_items_cong) (auto intro: sequence_size)

lemma parse_pair_cong [fundef_cong]:
  assumes "node = node'" "at = at'" "\<And>item a. size item < size node' \<Longrightarrow> parse item a = parse' item a"
  shows "parse_pair parse node at = parse_pair parse' node' at'"
proof -
  have "parse first a = parse' first a" "parse second b = parse' second b"
    if "sequence node' at' = Ok [first, second]" for first second a b
    using assms(3) sequence_size [OF that] by simp_all
  then show ?thesis
    unfolding parse_pair_def using assms by (intro bindr_cong) (auto split: list.splits)
qed

lemma parse_object_cong [fundef_cong]:
  "node = node' \<Longrightarrow> at = at' \<Longrightarrow> (\<And>item a. size item < size node' \<Longrightarrow> parse item a = parse' item a)
    \<Longrightarrow> parse_object parse node at = parse_object parse' node' at'"
  unfolding parse_object_def by (intro bindr_cong collect_map_cong) (auto intro: fields_size)

lemma parse_fallback_cong [fundef_cong]:
  "node = node' \<Longrightarrow> at = at' \<Longrightarrow> (\<And>item a. size item < size node' \<Longrightarrow> parse item a = parse' item a)
    \<Longrightarrow> parse_fallback parse node at = parse_fallback parse' node' at'"
  unfolding parse_fallback_def
  by (intro bindr_cong refl) (auto simp: required_def intro: fields_size dest!: bt_get_in_set)

text \<open>The binding of one operator with its operand: the last \<open>match\<close> of \<open>parse_binding\<close>.\<close>

definition parse_operator ::
    "'n binding_parser \<Rightarrow> string \<Rightarrow> 'n located_node \<Rightarrow> string \<Rightarrow> ('n binding, diagnostic) outcome" where
  "parse_operator parse name operand p =
     (if name = ''literal'' then bindr (json_value operand p) (\<lambda>v. Ok (Literal v))
      else if name = ''ref'' then bindr (parse_pointer operand p) (\<lambda>r. Ok (Reference r))
      else if name = ''object'' then bindr (parse_object parse operand p) (\<lambda>fs. Ok (Object fs))
      else if name = ''array'' then bindr (parse_bindings parse operand p) (\<lambda>bs. Ok (Array bs))
      else if name = ''concat'' then bindr (parse_bindings parse operand p) (\<lambda>bs. Ok (Concat bs))
      else if name = ''default'' then parse_fallback parse operand p
      else if name = ''exists'' then bindr (parse_pointer operand p) (\<lambda>r. Ok (Exists r))
      else if name = ''and'' then bindr (parse_bindings parse operand p) (\<lambda>bs. Ok (And bs))
      else if name = ''or'' then bindr (parse_bindings parse operand p) (\<lambda>bs. Ok (Or bs))
      else if name = ''not'' then bindr (parse operand p) (\<lambda>b. Ok (Not b))
      else if name = ''in'' then bindr (parse_pair parse operand p) (\<lambda>(v, items). Ok (In v items))
      else
        bindr (parse_pair parse operand p) (\<lambda>(l, r).
        bindr (comparison_of name) (\<lambda>op. Ok (Compare op l r))))"

lemma parse_operator_cong [fundef_cong]:
  assumes "name = name'" "operand = operand'" "p = p'"
    and "\<And>item a. size item \<le> size operand' \<Longrightarrow> parse item a = parse' item a"
  shows "parse_operator parse name operand p = parse_operator parse' name' operand' p'"
proof -
  have "parse item a = parse' item a" if "size item < size operand'" for item a
    using assms(4) that by simp
  then show ?thesis
    unfolding parse_operator_def assms(1-3) assms(4) [OF order_refl]
    by (simp cong: parse_bindings_cong parse_pair_cong parse_object_cong parse_fallback_cong)
qed

function parse_binding :: "'n located_node \<Rightarrow> string \<Rightarrow> ('n binding, diagnostic) outcome" where
  "parse_binding node at =
     (case node_value node of
        Mapping _ \<Rightarrow>
          bindr (node_fields node at OPERATORS) (\<lambda>m.
          case m of
            [(name, operand)] \<Rightarrow> parse_operator parse_binding name operand (child at name)
          | _ \<Rightarrow> Err (Diagnostic_at ''binding.operator'' ''Binding must have exactly one operator'' at (node_span node)))
      | _ \<Rightarrow> Err (Diagnostic_at ''binding.operator'' ''Expected a one-operator binding mapping'' at (node_span node)))"
  by pat_completeness auto
termination
proof (relation "measure (size \<circ> fst)")
qed (auto dest!: fields_size)

declare parse_binding.simps [simp del]

section \<open>Collecting references from the source\<close>

record reference_use =
  use_reference :: context_reference
  use_optional :: bool
  use_path :: string
  use_span :: source_span

definition add_reference ::
    "'n located_node \<Rightarrow> string \<Rightarrow> bool \<Rightarrow> reference_use list \<Rightarrow> reference_use list" where
  "add_reference node at optional output =
     (case node_value node of
        Scalar (VString text) \<Rightarrow>
          (case ContextReference_parse text of
             Ok r \<Rightarrow> output @ [\<lparr>use_reference = r, use_optional = optional, use_path = at, use_span = node_span node\<rparr>]
           | _ \<Rightarrow> output)
      | _ \<Rightarrow> output)"

primrec walk_items :: "(nat \<Rightarrow> 'a \<Rightarrow> 's \<Rightarrow> 's) \<Rightarrow> nat \<Rightarrow> 'a list \<Rightarrow> 's \<Rightarrow> 's" where
  "walk_items f i [] s = s"
| "walk_items f i (x # xs) s = walk_items f (Suc i) xs (f i x s)"

lemma walk_items_cong [fundef_cong]:
  "xs = ys \<Longrightarrow> i = j \<Longrightarrow> s = t \<Longrightarrow> (\<And>k x u. x \<in> set ys \<Longrightarrow> f k x u = g k x u)
    \<Longrightarrow> walk_items f i xs s = walk_items g j ys t"
  by (induction ys arbitrary: xs i j s t) auto

definition SEQUENCE_OPERATORS :: "string list" where
  "SEQUENCE_OPERATORS = [''array'', ''concat'', ''and'', ''or'', ''eq'', ''ne'', ''lt'', ''le'', ''gt'', ''ge'', ''in'']"

function walk_binding :: "'n located_node \<Rightarrow> string \<Rightarrow> reference_use list \<Rightarrow> reference_use list" where
  "walk_binding node at output =
     (case node_fields node at [] of
        Ok ((operator, operand) # _) \<Rightarrow>
          (let p = child at operator in
           if operator = ''ref'' then add_reference operand p False output
           else if operator = ''exists'' then add_reference operand p True output
           else if operator = ''default'' then
             (case node_fields operand p [] of
                Ok parts \<Rightarrow>
                  (let output' = (case bt_get parts ''ref'' of
                       Some r \<Rightarrow> add_reference r (child p ''ref'') True output | None \<Rightarrow> output)
                   in (case bt_get parts ''value'' of
                       Some v \<Rightarrow> walk_binding v (child p ''value'') output' | None \<Rightarrow> output'))
              | _ \<Rightarrow> output)
           else if operator = ''object'' then
             (case node_fields operand p [] of
                Ok fs \<Rightarrow> fold (\<lambda>kv. walk_binding (snd kv) (child p (fst kv))) fs output
              | _ \<Rightarrow> output)
           else if operator \<in> set SEQUENCE_OPERATORS then
             (case sequence operand p of
                Ok items \<Rightarrow> walk_items (\<lambda>i item. walk_binding item (child p (show_nat i))) 0 items output
              | _ \<Rightarrow> output)
           else if operator = ''not'' then walk_binding operand p output
           else output)
      | _ \<Rightarrow> output)"
  by pat_completeness auto
termination
proof (relation "measure (size \<circ> fst)", goal_cases)
qed (auto dest!: fields_size sequence_size bt_get_in_set)

declare walk_binding.simps [simp del]

section \<open>The walk finds the references of the binding\<close>

text \<open>
  What the evaluation of a binding may read, in the order of the text, and whether a missing value
  is tolerated: it is in the reference of a default and in an existence test.
\<close>

fun reads :: "'n binding \<Rightarrow> (context_reference \<times> bool) list" where
  "reads (Literal _) = []"
| "reads (Reference r) = [(r, False)]"
| "reads (Exists r) = [(r, True)]"
| "reads (Default r fallback) = (r, True) # reads fallback"
| "reads (Object fs) = concat (map (\<lambda>p. reads (snd p)) fs)"
| "reads (Array items) = concat (map reads items)"
| "reads (Concat items) = concat (map reads items)"
| "reads (And items) = concat (map reads items)"
| "reads (Or items) = concat (map reads items)"
| "reads (Compare _ l r) = reads l @ reads r"
| "reads (In v items) = reads v @ reads items"
| "reads (Not inner) = reads inner"

definition used :: "reference_use list \<Rightarrow> (context_reference \<times> bool) list" where
  "used = map (\<lambda>u. (use_reference u, use_optional u))"

lemma used_simps [simp]: "used [] = []" "used (xs @ ys) = used xs @ used ys"
  by (simp_all add: used_def)

lemma parse_pointer_eq_Ok:
  "parse_pointer node at = Ok r \<longleftrightarrow> (\<exists>text. node_value node = Scalar (VString text) \<and> ContextReference_parse text = Ok r)"
  by (auto simp: parse_pointer_def scalar_string_eq_Ok)

lemma used_add_reference:
  "parse_pointer node at = Ok r \<Longrightarrow> used (add_reference node at' optional out) = used out @ [(r, optional)]"
  by (auto simp: parse_pointer_eq_Ok add_reference_def used_def)

lemma fields_any:
  "node_fields node at allowed = Ok m \<Longrightarrow> node_fields node at' [] = Ok m"
  by (auto simp: fields_eq_Ok)

lemma parse_binding_operator:
  assumes "parse_binding node at = Ok b"
  obtains name operand where "\<forall>a. node_fields node a [] = Ok [(name, operand)]" "name \<in> set OPERATORS"
    "size operand < size node" "parse_operator parse_binding name operand (child at name) = Ok b"
proof -
  obtain m where m: "node_fields node at OPERATORS = Ok m"
      "(case m of [(name, operand)] \<Rightarrow> parse_operator parse_binding name operand (child at name)
          | _ \<Rightarrow> Err (Diagnostic_at ''binding.operator'' ''Binding must have exactly one operator'' at (node_span node))) = Ok b"
    using assms by (subst (asm) parse_binding.simps) (auto split: node_value.splits)
  then obtain name operand where one: "m = [(name, operand)]"
      "parse_operator parse_binding name operand (child at name) = Ok b"
    by (auto split: list.splits)
  moreover have "name \<in> set OPERATORS" "size operand < size node"
    using fields_facts(2,3) [OF m(1), of name operand] one by (auto simp: OPERATORS_def)
  ultimately show ?thesis
    using fields_any [OF m(1)] by (intro that) auto
qed

lemma collect_items_all2: "collect_items f i xs = Ok ys \<Longrightarrow> list_all2 (\<lambda>x y. \<exists>k. f k x = Ok y) xs ys"
  by (auto simp: collect_items_eq_Ok list_all2_conv_all_nth)

lemma used_walk_items:
  "list_all2 (\<lambda>item b. \<forall>i out. used (f i item out) = used out @ reads b) items bs
    \<Longrightarrow> used (walk_items f i items out) = used out @ concat (map reads bs)"
  by (induction items bs arbitrary: i out rule: list_all2_induct) auto

lemma used_walk_fields:
  "list_all2 (\<lambda>kv kb. \<forall>out. used (f kv out) = used out @ reads (snd kb)) fs bs
    \<Longrightarrow> used (fold f fs out) = used out @ concat (map (\<lambda>kb. reads (snd kb)) bs)"
  by (induction fs bs arbitrary: out rule: list_all2_induct) auto

text \<open>The parts of an operand, each parsed by \<open>parse_binding\<close> and smaller than the operand.\<close>

definition part_of :: "'n located_node \<Rightarrow> 'n located_node \<Rightarrow> 'n binding \<Rightarrow> bool" where
  "part_of operand item b \<longleftrightarrow> size item < size operand \<and> (\<exists>at. parse_binding item at = Ok b)"

lemma parse_bindings_parts:
  assumes "parse_bindings parse_binding operand p = Ok bs"
  obtains items where "\<forall>q. sequence operand q = Ok items" "list_all2 (part_of operand) items bs"
proof -
  obtain items where items: "node_value operand = Sequence items"
      "collect_items (\<lambda>i item. parse_binding item (child p (show_nat i))) 0 items = Ok bs"
    using assms by (auto simp: parse_bindings_def sequence_eq_Ok)
  have "list_all2 (part_of operand) items bs"
    using collect_items_all2 [OF items(2)] sequence_size [of operand p items] items(1)
    by (auto simp: list_all2_conv_all_nth part_of_def sequence_eq_Ok)
  then show ?thesis using that items(1) by (simp add: sequence_eq_Ok)
qed

lemma parse_pair_parts:
  assumes "parse_pair parse_binding operand p = Ok (l, r)"
  obtains first second where "\<forall>q. sequence operand q = Ok [first, second]" "part_of operand first l" "part_of operand second r"
proof -
  obtain items where items: "sequence operand p = Ok items"
    "(case items of [first, second] \<Rightarrow>
       bindr (parse_binding first (child p ''0'')) (\<lambda>l. bindr (parse_binding second (child p ''1'')) (\<lambda>r. Ok (l, r)))
     | _ \<Rightarrow> Err (Diagnostic_at ''binding.arity'' ''Expected exactly two bindings'' p (node_span operand))) = Ok (l, r)"
    using assms unfolding parse_pair_def bindr_eq_Ok by blast
  then show ?thesis
    using sequence_size [OF items(1)]
    by (intro that [of "items ! 0" "items ! 1"]) (auto simp: part_of_def sequence_eq_Ok split: list.splits)
qed

lemma parse_object_parts:
  assumes "parse_object parse_binding operand p = Ok bs"
  obtains m where "\<forall>q. node_fields operand q [] = Ok m" "bt_ok m" "map fst bs = map fst m"
    "list_all2 (\<lambda>kv kb. part_of operand (snd kv) (snd kb)) m bs"
proof -
  obtain m where m: "node_fields operand p [] = Ok m"
      "collect_map (\<lambda>key value. parse_binding value (child p key)) m = Ok bs"
    using assms by (auto simp: parse_object_def)
  have ok: "bt_ok m" by (rule fields_facts [OF m(1)])
  then have "map fst bs = map fst m" "list_all2 (\<lambda>kv kb. parse_binding (snd kv) (child p (fst kv)) = Ok (snd kb)) m bs"
    using m(2) by (auto simp: collect_map_eq_Ok)
  moreover from this have "list_all2 (\<lambda>kv kb. part_of operand (snd kv) (snd kb)) m bs"
    using fields_size [OF m(1)]
    by (auto simp: list_all2_conv_all_nth part_of_def) (metis nth_mem prod.collapse)
  ultimately show ?thesis using that fields_any [OF m(1)] ok by auto
qed

lemma parse_fallback_parts:
  assumes "parse_fallback parse_binding operand p = Ok b"
  obtains m pointer v fallback r where "\<forall>q. node_fields operand q [] = Ok m" "bt_get m ''ref'' = Some pointer"
    "bt_get m ''value'' = Some v" "parse_pointer pointer (child p ''ref'') = Ok r" "part_of operand v fallback"
    "b = Default r fallback"
proof -
  obtain m pointer v fallback r where m: "node_fields operand p [''ref'', ''value''] = Ok m" "bt_get m ''ref'' = Some pointer"
      "bt_get m ''value'' = Some v" "parse_pointer pointer (child p ''ref'') = Ok r"
      "parse_binding v (child p ''value'') = Ok fallback" "b = Default r fallback"
    using assms by (auto simp: parse_fallback_def required_def)
  moreover have "part_of operand v fallback"
    using fields_size [OF m(1) bt_get_in_set [OF m(3)]] m(5) by (auto simp: part_of_def)
  ultimately show ?thesis
    using fields_any [OF m(1)] by (intro that [of m pointer v r fallback]) auto
qed

lemma walk_sequence:
  assumes "name \<in> set SEQUENCE_OPERATORS" "node_fields node at [] = Ok [(name, operand)]"
    "sequence operand (child at name) = Ok items"
  shows "walk_binding node at out = walk_items (\<lambda>i item. walk_binding item (child (child at name) (show_nat i))) 0 items out"
proof -
  have "name \<noteq> ''ref''" "name \<noteq> ''exists''" "name \<noteq> ''default''" "name \<noteq> ''object''"
    using assms(1) by (auto simp: SEQUENCE_OPERATORS_def)
  then show ?thesis
    using assms by (subst walk_binding.simps) (simp add: Let_def)
qed

lemma walk_finds_reads:
  "parse_binding node at = Ok b \<Longrightarrow> used (walk_binding node at' out) = used out @ reads b"
proof (induction node arbitrary: at at' b out rule: measure_induct_rule [where f = size])
  case (less node)
  obtain name operand where op: "\<forall>a. node_fields node a [] = Ok [(name, operand)]" "name \<in> set OPERATORS"
      "size operand < size node" and parsed: "parse_operator parse_binding name operand (child at name) = Ok b"
    using less.prems by (rule parse_binding_operator)
  have part: "used (walk_binding item a out') = used out' @ reads b'" if "part_of operand item b'" for item a out' b'
    using less.IH [of item] that op(3) by (auto simp: part_of_def)
  let ?p = "child at name"
  let ?q = "child at' name"
  have items: "used (walk_binding node at' out) = used out @ concat (map reads bs)"
    if seq: "name \<in> set SEQUENCE_OPERATORS" and bs: "parse_bindings parse_binding operand ?p = Ok bs" for bs
  proof -
    obtain items where i: "\<forall>q. sequence operand q = Ok items" "list_all2 (part_of operand) items bs"
      using bs by (rule parse_bindings_parts)
    have "used (walk_items (\<lambda>i item. walk_binding item (child ?q (show_nat i))) 0 items out) = used out @ concat (map reads bs)"
      by (rule used_walk_items) (use i(2) part in \<open>auto elim!: list_all2_mono\<close>)
    then show ?thesis
      using walk_sequence [OF seq, of node at' operand items] op(1) i(1) by simp
  qed
  have pair: "used (walk_binding node at' out) = used out @ reads l @ reads r"
    if seq: "name \<in> set SEQUENCE_OPERATORS" and pr: "parse_pair parse_binding operand ?p = Ok (l, r)" for l r
  proof -
    obtain first second where i: "\<forall>q. sequence operand q = Ok [first, second]" "part_of operand first l" "part_of operand second r"
      using pr by (rule parse_pair_parts)
    show ?thesis
      using walk_sequence [OF seq, of node at' operand "[first, second]"] op(1) i(1)
      by (simp add: part [OF i(2)] part [OF i(3)])
  qed
  consider "name = ''literal''" | "name = ''ref''" | "name = ''exists''" | "name = ''object''" | "name = ''default''"
    | "name = ''not''" | "name \<in> {''array'', ''concat'', ''and'', ''or''}" | "name \<in> {''in'', ''eq'', ''ne'', ''lt'', ''le'', ''gt'', ''ge''}"
    using op(2) unfolding OPERATORS_def list.set by (elim insertE emptyE) (rule that; simp; fail)+
  then show ?case
  proof cases
    case 1
    then show ?thesis
      using parsed by (subst walk_binding.simps) (auto simp: op(1) parse_operator_def SEQUENCE_OPERATORS_def)
  next
    case 2
    then show ?thesis
      using parsed by (subst walk_binding.simps) (auto simp: op(1) parse_operator_def used_add_reference)
  next
    case 3
    then show ?thesis
      using parsed by (subst walk_binding.simps) (auto simp: op(1) parse_operator_def used_add_reference)
  next
    case 4
    then obtain bs where bs: "parse_object parse_binding operand ?p = Ok bs" "b = Object bs"
      using parsed by (auto simp: parse_operator_def)
    obtain m where m: "\<forall>q. node_fields operand q [] = Ok m" "list_all2 (\<lambda>kv kb. part_of operand (snd kv) (snd kb)) m bs"
      using bs(1) by (rule parse_object_parts)
    have "used (fold (\<lambda>kv. walk_binding (snd kv) (child ?q (fst kv))) m out) = used out @ concat (map (\<lambda>kb. reads (snd kb)) bs)"
      by (rule used_walk_fields) (use m(2) part in \<open>auto elim!: list_all2_mono\<close>)
    then show ?thesis
      using 4 bs(2) m(1) by (subst walk_binding.simps) (auto simp: op(1))
  next
    case 5
    then have "parse_fallback parse_binding operand ?p = Ok b"
      using parsed by (auto simp: parse_operator_def)
    then obtain m pointer v fallback r where m: "\<forall>q. node_fields operand q [] = Ok m" "bt_get m ''ref'' = Some pointer"
        "bt_get m ''value'' = Some v" "parse_pointer pointer (child ?p ''ref'') = Ok r" "part_of operand v fallback"
        "b = Default r fallback"
      by (rule parse_fallback_parts)
    then show ?thesis
      using 5 by (subst walk_binding.simps) (auto simp: op(1) part used_add_reference Let_def)
  next
    case 6
    then obtain b' where "parse_binding operand ?p = Ok b'" "b = Not b'"
      using parsed by (auto simp: parse_operator_def)
    then show ?thesis
      using 6 less.IH [OF op(3)] by (subst walk_binding.simps) (auto simp: op(1) SEQUENCE_OPERATORS_def)
  next
    case 7
    then obtain bs where bs: "parse_bindings parse_binding operand ?p = Ok bs" "b \<in> {Array bs, Concat bs, And bs, Or bs}"
      using parsed by (auto simp: parse_operator_def)
    moreover have "name \<in> set SEQUENCE_OPERATORS"
      using 7 by (auto simp: SEQUENCE_OPERATORS_def)
    ultimately show ?thesis
      using items [of bs] by auto
  next
    case 8
    then have "name \<in> set SEQUENCE_OPERATORS"
      by (elim insertE emptyE) (simp_all add: SEQUENCE_OPERATORS_def)
    moreover obtain l r where "parse_pair parse_binding operand ?p = Ok (l, r)" "b = In l r \<or> (\<exists>c. b = Compare c l r)"
      using 8 parsed by (elim insertE emptyE) (auto simp: parse_operator_def)
    ultimately show ?thesis
      using pair [of l r] by auto
  qed
qed

lemma reads_references: "map fst (reads b) = references b"
  by (induction b rule: reads.induct) (auto simp: map_concat comp_def intro!: arg_cong [where f = concat])

section \<open>Writing bindings\<close>

text \<open>A binding as an author writes it: a mapping of one operator.\<close>

definition operator_node :: "source_span \<Rightarrow> string \<Rightarrow> 'n located_node \<Rightarrow> 'n located_node" where
  "operator_node s name operand = LocatedNode (Mapping [(LocatedNode (Scalar (VString name)) s, operand)]) s"

definition pointer_node :: "source_span \<Rightarrow> context_reference \<Rightarrow> 'n located_node" where
  "pointer_node s r = LocatedNode (Scalar (VString (raw r))) s"

definition sequence_node :: "source_span \<Rightarrow> 'n located_node list \<Rightarrow> 'n located_node" where
  "sequence_node s items = LocatedNode (Sequence items) s"

definition mapping_node :: "source_span \<Rightarrow> (string \<times> 'n located_node) list \<Rightarrow> 'n located_node" where
  "mapping_node s kvs = LocatedNode (Mapping (map (\<lambda>kv. (LocatedNode (Scalar (VString (fst kv))) s, snd kv)) kvs)) s"

fun comparison_name :: "comparison \<Rightarrow> string" where
  "comparison_name Eq = ''eq''"
| "comparison_name Ne = ''ne''"
| "comparison_name Lt = ''lt''"
| "comparison_name Le = ''le''"
| "comparison_name Gt = ''gt''"
| "comparison_name Ge = ''ge''"

fun write_binding :: "source_span \<Rightarrow> 'n binding \<Rightarrow> 'n located_node" where
  "write_binding s (Literal v) = operator_node s ''literal'' (node_of s v)"
| "write_binding s (Reference r) = operator_node s ''ref'' (pointer_node s r)"
| "write_binding s (Exists r) = operator_node s ''exists'' (pointer_node s r)"
| "write_binding s (Default r fallback) = operator_node s ''default''
     (mapping_node s [(''ref'', pointer_node s r), (''value'', write_binding s fallback)])"
| "write_binding s (Object fs) = operator_node s ''object'' (mapping_node s (map (\<lambda>p. (fst p, write_binding s (snd p))) fs))"
| "write_binding s (Array items) = operator_node s ''array'' (sequence_node s (map (write_binding s) items))"
| "write_binding s (Concat items) = operator_node s ''concat'' (sequence_node s (map (write_binding s) items))"
| "write_binding s (And items) = operator_node s ''and'' (sequence_node s (map (write_binding s) items))"
| "write_binding s (Or items) = operator_node s ''or'' (sequence_node s (map (write_binding s) items))"
| "write_binding s (Compare c l r) = operator_node s (comparison_name c) (sequence_node s [write_binding s l, write_binding s r])"
| "write_binding s (In v items) = operator_node s ''in'' (sequence_node s [write_binding s v, write_binding s items])"
| "write_binding s (Not inner) = operator_node s ''not'' (write_binding s inner)"

text \<open>The bindings that exist: parsed references, ordered fields, JSON values in literals.\<close>

fun binding_ok :: "'n binding \<Rightarrow> bool" where
  "binding_ok (Literal v) = json_ok v"
| "binding_ok (Reference r) = parsed r"
| "binding_ok (Exists r) = parsed r"
| "binding_ok (Default r fallback) = (parsed r \<and> binding_ok fallback)"
| "binding_ok (Object fs) = (bt_ok fs \<and> list_all (\<lambda>p. binding_ok (snd p)) fs)"
| "binding_ok (Array items) = list_all binding_ok items"
| "binding_ok (Concat items) = list_all binding_ok items"
| "binding_ok (And items) = list_all binding_ok items"
| "binding_ok (Or items) = list_all binding_ok items"
| "binding_ok (Compare _ l r) = (binding_ok l \<and> binding_ok r)"
| "binding_ok (In v items) = (binding_ok v \<and> binding_ok items)"
| "binding_ok (Not inner) = binding_ok inner"

lemma mapping_node_fields:
  assumes "bt_ok kvs" and "allowed = [] \<or> fst ` set kvs \<subseteq> set allowed"
  shows "node_fields (mapping_node s kvs) at allowed = Ok kvs"
proof -
  have "distinct (map fst kvs)" using assms(1) by (simp add: bt_ok_def strict_sorted_iff)
  moreover have "zip (map fst kvs) (map snd kvs) = kvs" by (rule zip_map_fst_snd)
  ultimately show ?thesis
    using assms bt_of_sorted [OF assms(1)]
    by (auto simp: fields_eq_Ok mapping_node_def field_names_def comp_def intro!: exI [of _ "map fst kvs"])
qed

lemma operator_node_mapping: "operator_node s name operand = mapping_node s [(name, operand)]"
  by (simp add: operator_node_def mapping_node_def)

lemma parse_operator_node:
  "name \<in> set OPERATORS \<Longrightarrow>
   parse_binding (operator_node s name operand) at = parse_operator parse_binding name operand (child at name)"
  using mapping_node_fields [of "[(name, operand)]" OPERATORS s at]
  by (subst parse_binding.simps) (simp add: operator_node_mapping [symmetric] bt_ok_def, simp add: operator_node_def)

lemma parse_pointer_node: "parsed r \<Longrightarrow> parse_pointer (pointer_node s r) at = Ok r"
  by (simp add: parse_pointer_eq_Ok pointer_node_def parsed_def)

lemma parse_bindings_node:
  assumes "\<And>b at. b \<in> set bs \<Longrightarrow> parse_binding (write_binding s b) at = Ok b"
  shows "parse_bindings parse_binding (sequence_node s (map (write_binding s) bs)) at = Ok bs"
  using assms by (simp add: parse_bindings_def sequence_def sequence_node_def collect_items_eq_Ok)

lemma parse_pair_node:
  "parse_binding l (child at ''0'') = Ok l' \<Longrightarrow> parse_binding r (child at ''1'') = Ok r'
    \<Longrightarrow> parse_pair parse_binding (sequence_node s [l, r]) at = Ok (l', r')"
  by (simp add: parse_pair_def sequence_def sequence_node_def)

lemma parse_object_node:
  assumes "bt_ok fs" "\<And>p at. p \<in> set fs \<Longrightarrow> parse_binding (write_binding s (snd p)) at = Ok (snd p)"
  shows "parse_object parse_binding (mapping_node s (map (\<lambda>p. (fst p, write_binding s (snd p))) fs)) at = Ok fs"
proof -
  have ok: "bt_ok (map (\<lambda>p. (fst p, write_binding s (snd p))) fs)"
    using assms(1) by (simp add: bt_ok_def comp_def)
  show ?thesis
    using assms(2)
    by (simp add: parse_object_def mapping_node_fields [OF ok] collect_map_eq_Ok [OF ok] comp_def list_all2_conv_all_nth)
qed

lemma comparison_of_name: "comparison_of (comparison_name c) = Ok c"
  by (cases c) (simp_all add: comparison_of_def)

lemma parse_write_binding: "binding_ok b \<Longrightarrow> parse_binding (write_binding s b) at = Ok b"
proof (induction s b arbitrary: at rule: write_binding.induct)
  case (1 s v)
  then show ?case by (simp add: parse_operator_node OPERATORS_def parse_operator_def json_source_round_trip)
next
  case (2 s r)
  then show ?case by (simp add: parse_operator_node OPERATORS_def parse_operator_def parse_pointer_node)
next
  case (3 s r)
  then show ?case by (simp add: parse_operator_node OPERATORS_def parse_operator_def parse_pointer_node)
next
  case (4 s r fallback)
  have fs: "node_fields (mapping_node s [(''ref'', pointer_node s r), (''value'', write_binding s fallback)]) at' [''ref'', ''value'']
      = Ok [(''ref'', pointer_node s r), (''value'', write_binding s fallback)]" for at'
    by (rule mapping_node_fields) (auto simp: bt_ok_def less_list_code)
  show ?case
    using 4 by (simp add: parse_operator_node OPERATORS_def parse_operator_def parse_fallback_def fs required_def
        bt_get_def parse_pointer_node)
next
  case (5 s fs)
  then have "parse_object parse_binding (mapping_node s (map (\<lambda>p. (fst p, write_binding s (snd p))) fs)) at' = Ok fs" for at'
    by (intro parse_object_node) (auto simp: list_all_iff)
  then show ?case by (simp add: parse_operator_node OPERATORS_def parse_operator_def)
next
  case (10 s c l r)
  have name: "comparison_name c \<in> set OPERATORS"
    "comparison_name c \<notin> {''literal'', ''ref'', ''object'', ''array'', ''concat'', ''default'', ''exists'', ''and'', ''or'', ''not'', ''in''}"
    by (cases c; simp add: OPERATORS_def)+
  then show ?case
    using 10 by (simp add: parse_operator_node parse_operator_def parse_pair_node comparison_of_name)
qed (simp_all add: parse_operator_node OPERATORS_def parse_operator_def parse_bindings_node parse_pair_node list_all_iff)

section \<open>Properties\<close>

text \<open>
  C25. Bindings round trip through their source form: what an author writes for a binding is parsed
  as that binding, whatever the binding and wherever it stands.
\<close>

theorem binding_source_round_trip:
  assumes "binding_ok b"
  shows "parse_binding (write_binding s b) at = Ok b"
  using assms by (rule parse_write_binding)

theorem binding_source_round_trip_witness:
  "parse_binding (write_binding sample_span (Default sample_reference (Not (Literal (VBool True :: nat json))))) ''/b''
     = Ok (Default sample_reference (Not (Literal (VBool True))))"
proof (rule binding_source_round_trip)
  show "binding_ok (Default sample_reference (Not (Literal (VBool True :: nat json))))"
    using sample_parsed by simp
qed

text \<open>
  C20. The reference analysis of the compiler runs over the source of a binding, not over the parsed
  binding. Whatever source the parser accepts, the walk reports exactly the references of the
  parsed binding, in order, and marks as optional exactly those whose absence the evaluator
  tolerates.
\<close>

theorem walk_reports_what_the_binding_reads:
  assumes "parse_binding node at = Ok b"
  shows "used (walk_binding node at []) = reads b \<and> map use_reference (walk_binding node at []) = references b"
proof -
  have "used (walk_binding node at []) = reads b"
    using walk_finds_reads [OF assms, of at "[]"] by simp
  moreover from this have "map use_reference (walk_binding node at []) = map fst (reads b)"
    by (simp add: used_def comp_def flip: \<open>used (walk_binding node at []) = reads b\<close>)
  ultimately show ?thesis by (simp add: reads_references)
qed

theorem walk_reports_what_the_binding_reads_witness:
  "used (walk_binding (write_binding sample_span (Default sample_reference (Literal (VBool True :: nat json)))) ''/b'' [])
     = [(sample_reference, True)]"
proof -
  have "binding_ok (Default sample_reference (Literal (VBool True :: nat json)))"
    using sample_parsed by simp
  from walk_reports_what_the_binding_reads [OF parse_write_binding [OF this, of sample_span "''/b''"]]
  show ?thesis by simp
qed

end
