(* ===== verification/Dependencies.thy ===== *)
theory Dependencies
  imports Source
begin

text \<open>
  The closure of child workflows: \<open>check_dependencies\<close> of
  \<open>src/src/application/workflow/compiler/analysis.rs\<close>. A workflow may call other workflows; the
  compiler walks the declared dependency facts depth first with an explicit stack of entries and
  exit markers, and refuses a workflow that reaches itself. The walk is shown to accept exactly
  the workflows whose reachable dependencies are all known and acyclic, and to return exactly them.
\<close>

section \<open>Model\<close>

type_synonym dependency_graph = "(uuid, uuid btree_set) btree_map"

definition MAX_DEPENDENCY_NODES :: nat where
  "MAX_DEPENDENCY_NODES = 4096"

definition MAX_DEPENDENCY_EDGES :: nat where
  "MAX_DEPENDENCY_EDGES = 8192"

definition count_dependency_edges ::
    "nat \<Rightarrow> source_span \<Rightarrow> uuid \<times> uuid btree_set \<Rightarrow> nat \<Rightarrow> (nat, diagnostic) outcome" where
  "count_dependency_edges count span entry edges =
     (let edges' = saturating_add edges (length (snd entry)) in
      if count > MAX_DEPENDENCY_NODES \<or> edges' > MAX_DEPENDENCY_EDGES
      then Err (Diagnostic_at ''dependency.limit'' ''Dependency facts exceed the node or edge limit'' ''/steps'' span)
      else Ok edges')"

text \<open>The head of the stack is the top: the children are pushed in reverse and popped in order.\<close>

function dependency_loop ::
    "dependency_graph \<Rightarrow> source_span \<Rightarrow> (uuid \<times> bool) list \<Rightarrow> uuid btree_set \<Rightarrow> uuid btree_set
      \<Rightarrow> dependency_graph \<Rightarrow> (dependency_graph, diagnostic) outcome" where
  "dependency_loop graph span [] visited active closure = Ok closure"
| "dependency_loop graph span ((i, exiting) # stack) visited active closure =
     (if exiting then dependency_loop graph span stack visited (filter (\<lambda>a. a \<noteq> i) active) closure
      else if i \<in> set active
      then Err (Diagnostic_at ''dependency.cycle'' ''Recursive child workflow dependency'' ''/steps'' span)
      else if i \<in> set visited then dependency_loop graph span stack visited active closure
      else
        (case bt_get graph i of
           None \<Rightarrow>
             Err (Diagnostic_at ''dependency.missing'' ''Child workflow dependency facts are missing'' ''/steps'' span)
         | Some children \<Rightarrow>
             dependency_loop graph span (map (\<lambda>c. (c, False)) children @ (i, True) # stack)
               (bs_insert i visited) (bs_insert i active) (bt_insert i children closure)))"
  by pat_completeness auto
termination
proof (relation "measures [\<lambda>(graph, span, stack, visited, active, closure). card (set (bt_keys graph) - set visited),
      \<lambda>(graph, span, stack, visited, active, closure). length stack]", goal_cases)
  case (4 graph span i exiting stack visited active closure children)
  then have "i \<in> set (bt_keys graph)" by (auto simp: bt_keys_dom)
  then have "set (bt_keys graph) - set (bs_insert i visited) \<subset> set (bt_keys graph) - set visited"
    using 4 by auto
  then show ?case by (auto intro: psubset_card_mono)
qed auto

definition check_dependencies ::
    "uuid \<Rightarrow> uuid btree_set \<Rightarrow> dependency_graph \<Rightarrow> source_span \<Rightarrow> (dependency_graph, diagnostic) outcome" where
  "check_dependencies current children graph span =
     bindr (for_each (count_dependency_edges (length graph) span) graph 0) (\<lambda>_.
     case bt_get graph current of
       None \<Rightarrow> Err (Diagnostic_at ''dependency.missing'' ''Dependency facts omit this workflow'' ''/workflow_id'' span)
     | Some declared \<Rightarrow>
         if declared \<noteq> children
         then Err (Diagnostic_at ''dependency.mismatch''
           ''Dependency facts do not match declared child workflows'' ''/steps'' span)
         else dependency_loop graph span [(current, False)] [] [] [])"

section \<open>Specification\<close>

definition calls :: "dependency_graph \<Rightarrow> (uuid \<times> uuid) set" where
  "calls graph = {(a, b). \<exists>cs. bt_get graph a = Some cs \<and> b \<in> set cs}"

definition depends_on :: "dependency_graph \<Rightarrow> uuid \<Rightarrow> uuid set" where
  "depends_on graph current = (calls graph)\<^sup>* `` {current}"

definition within_limits :: "dependency_graph \<Rightarrow> bool" where
  "within_limits graph \<longleftrightarrow>
     length graph \<le> MAX_DEPENDENCY_NODES \<and> (\<Sum>e \<leftarrow> graph. length (snd e)) \<le> MAX_DEPENDENCY_EDGES"

section \<open>The limits\<close>

lemma count_loop:
  "s \<le> MAX_DEPENDENCY_EDGES \<Longrightarrow> n \<le> MAX_DEPENDENCY_NODES \<Longrightarrow>
   (case for_each (count_dependency_edges n span) es s of
      Ok t \<Rightarrow> t = s + (\<Sum>e \<leftarrow> es. length (snd e)) \<and> t \<le> MAX_DEPENDENCY_EDGES
    | Err _ \<Rightarrow> s + (\<Sum>e \<leftarrow> es. length (snd e)) > MAX_DEPENDENCY_EDGES
    | Panic \<Rightarrow> False)"
proof (induction es arbitrary: s)
  case (Cons e es)
  have sat: "saturating_add s (length (snd e)) > MAX_DEPENDENCY_EDGES \<longleftrightarrow> s + length (snd e) > MAX_DEPENDENCY_EDGES"
    by (auto simp: saturating_add_def MAX_DEPENDENCY_EDGES_def usize_max_def min_def)
  show ?case
  proof (cases "s + length (snd e) > MAX_DEPENDENCY_EDGES")
    case True
    then show ?thesis using sat by (simp add: count_dependency_edges_def Let_def)
  next
    case False
    then have "saturating_add s (length (snd e)) = s + length (snd e)"
      by (intro saturating_add_exact) (simp add: MAX_DEPENDENCY_EDGES_def usize_max_def)
    then have "count_dependency_edges n span e s = Ok (s + length (snd e))"
      using Cons.prems False by (simp add: count_dependency_edges_def Let_def)
    then show ?thesis
      using Cons.IH [of "s + length (snd e)"] Cons.prems False
      by (cases "for_each (count_dependency_edges n span) es (s + length (snd e))") auto
  qed
qed simp

lemma count_limits:
  assumes "graph \<noteq> []"
  shows "(case for_each (count_dependency_edges (length graph) span) graph 0 of
      Ok _ \<Rightarrow> within_limits graph
    | Err _ \<Rightarrow> \<not> within_limits graph
    | Panic \<Rightarrow> False)"
proof (cases "length graph \<le> MAX_DEPENDENCY_NODES")
  case True
  then show ?thesis
    using count_loop [where s = 0 and n = "length graph" and span = span and es = graph] by (auto simp: within_limits_def split: outcome.splits)
next
  case False
  then obtain e es where "graph = e # es" using assms by (cases graph) auto
  then show ?thesis
    using False by (simp add: within_limits_def count_dependency_edges_def Let_def)
qed

section \<open>The walk\<close>

definition markers :: "(uuid \<times> bool) list \<Rightarrow> uuid list" where
  "markers stack = map fst (filter snd stack)"

lemma markers_simps [simp]:
  "markers [] = []" "markers ((i, True) # s) = i # markers s" "markers ((i, False) # s) = markers s"
  "markers (xs @ ys) = markers xs @ markers ys" "markers (map (\<lambda>c. (c, False)) cs) = []"
  by (auto simp: markers_def)

text \<open>
  What a stack means while \<open>finished\<close> nodes are done: the children of a marked node are finished,
  or wait directly above its marker (\<open>waiting\<close>), or are the marked node above it (\<open>over\<close>). Below
  all markers there is only the workflow that is compiled.
\<close>

fun stack_ok :: "dependency_graph \<Rightarrow> uuid \<Rightarrow> uuid set \<Rightarrow> uuid set \<Rightarrow> uuid option \<Rightarrow> (uuid \<times> bool) list \<Rightarrow> bool" where
  "stack_ok graph current finished waiting over [] \<longleftrightarrow>
     current \<in> finished \<union> waiting \<union> set_option over \<and> waiting \<union> set_option over \<subseteq> {current}"
| "stack_ok graph current finished waiting over ((c, False) # stack) \<longleftrightarrow>
     stack_ok graph current finished (insert c waiting) over stack"
| "stack_ok graph current finished waiting over ((a, True) # stack) \<longleftrightarrow>
     (\<exists>cs. bt_get graph a = Some cs \<and> set cs \<subseteq> finished \<union> waiting \<union> set_option over
        \<and> waiting \<union> set_option over \<subseteq> set cs)
     \<and> stack_ok graph current finished {} (Some a) stack"

lemma stack_ok_more:
  "stack_ok graph current finished waiting over stack \<Longrightarrow> finished \<subseteq> finished' \<Longrightarrow>
   stack_ok graph current finished' waiting over stack"
  by (induction graph current finished waiting over stack rule: stack_ok.induct) auto

lemma stack_ok_done:
  "stack_ok graph current finished (insert c waiting) over stack \<Longrightarrow> c \<in> finished \<Longrightarrow>
   stack_ok graph current finished waiting over stack"
proof (induction stack arbitrary: waiting)
  case (Cons e stack)
  obtain i exiting where "e = (i, exiting)" by force
  then show ?case
    using Cons by (cases exiting) (auto simp: insert_commute)
qed auto

lemma stack_ok_descend:
  "stack_ok graph current finished (insert i waiting) None stack \<Longrightarrow> stack_ok graph current finished waiting (Some i) stack"
proof (induction stack arbitrary: waiting)
  case (Cons e stack)
  obtain j exiting where "e = (j, exiting)" by force
  then show ?case
    using Cons by (cases exiting) (auto simp: insert_commute)
qed auto

lemma stack_ok_return:
  "stack_ok graph current finished waiting (Some i) stack \<Longrightarrow> i \<in> finished
    \<Longrightarrow> stack_ok graph current finished waiting None stack"
proof (induction stack arbitrary: waiting)
  case (Cons e stack)
  obtain j exiting where "e = (j, exiting)" by force
  then show ?case
    using Cons by (cases exiting) auto
qed auto

lemma marker_calls:
  "stack_ok graph current finished waiting over stack \<Longrightarrow> c \<in> waiting \<union> set_option over
    \<Longrightarrow> m \<in> set (markers stack) \<Longrightarrow> (m, c) \<in> (calls graph)\<^sup>+"
proof (induction graph current finished waiting over stack arbitrary: c rule: stack_ok.induct)
  case (3 graph current finished waiting over a stack)
  then have ac: "(a, c) \<in> calls graph" by (auto simp: calls_def)
  show ?case
  proof (cases "m = a")
    case False
    then have "(m, a) \<in> (calls graph)\<^sup>+" using 3 by auto
    then show ?thesis using ac by (rule trancl_into_trancl)
  qed (use ac in auto)
qed auto

lemma stack_ok_push:
  "stack_ok graph current finished waiting over (map (\<lambda>c. (c, False)) cs @ stack)
   \<longleftrightarrow> stack_ok graph current finished (waiting \<union> set cs) over stack"
  by (induction cs arbitrary: waiting) (auto simp: Un_commute)

lemma bt_insert_restrict:
  assumes "bt_ok graph" "bt_get graph i = Some v" "i \<notin> V"
  shows "bt_insert i v (filter (\<lambda>e. fst e \<in> V) graph) = filter (\<lambda>e. fst e \<in> insert i V) graph"
  using assms
proof (induction graph)
  case (Cons e graph)
  obtain k w where e: "e = (k, w)" by force
  have later: "k < fst f" if "f \<in> set graph" for f
    using Cons.prems(1) e that by (auto simp: bt_ok_def)
  show ?case
  proof (cases "k = i")
    case True
    then have "w = v" using Cons.prems e by (simp add: bt_get_def)
    have rest: "filter (\<lambda>e. fst e \<in> insert i V) graph = filter (\<lambda>e. fst e \<in> V) graph"
      using later True by (intro filter_cong) auto
    have "bt_insert i v m = (i, v) # m" if "\<forall>f \<in> set m. i < fst f" for m
      using that by (cases m) auto
    then show ?thesis
      using e True \<open>w = v\<close> rest Cons.prems(3) later by auto
  next
    case False
    then have get: "bt_get graph i = Some v" using Cons.prems e by (auto simp: bt_get_def)
    then have "k < i" using later bt_get_in_set by fastforce
    moreover have "bt_ok graph" using Cons.prems by (simp add: bt_ok_def)
    ultimately show ?thesis
      using Cons.IH get Cons.prems(3) e False by auto
  qed
qed (simp add: bt_get_def)

definition acyclic_on :: "dependency_graph \<Rightarrow> uuid set \<Rightarrow> bool" where
  "acyclic_on graph V \<longleftrightarrow> (\<forall>i \<in> V. (i, i) \<notin> (calls graph)\<^sup>+)"

definition walk_inv ::
    "dependency_graph \<Rightarrow> uuid \<Rightarrow> (uuid \<times> bool) list \<Rightarrow> uuid set \<Rightarrow> uuid set \<Rightarrow> dependency_graph \<Rightarrow> bool" where
  "walk_inv graph current stack visited active closure \<longleftrightarrow>
     stack_ok graph current (visited - active) {} None stack
     \<and> active = set (markers stack) \<and> distinct (markers stack) \<and> active \<subseteq> visited
     \<and> fst ` set stack \<subseteq> depends_on graph current
     \<and> visited \<subseteq> depends_on graph current \<inter> set (bt_keys graph)
     \<and> calls graph `` (visited - active) \<subseteq> visited - active
     \<and> acyclic_on graph (visited - active)
     \<and> closure = filter (\<lambda>e. fst e \<in> visited) graph"

lemma walk_inv_exit:
  assumes "walk_inv graph current ((a, True) # stack) visited active closure"
  shows "walk_inv graph current stack visited (active - {a}) closure"
proof -
  let ?F = "visited - active"
  let ?F' = "visited - (active - {a})"
  have a: "a \<in> active" "a \<in> visited" "active - {a} = set (markers stack)"
    using assms by (auto simp: walk_inv_def)
  have F': "?F' = insert a ?F" using a by auto
  obtain cs where cs: "bt_get graph a = Some cs" "set cs \<subseteq> ?F"
    and ok: "stack_ok graph current ?F {} (Some a) stack"
    using assms by (auto simp: walk_inv_def)
  have step: "calls graph `` {a} \<subseteq> ?F" using cs by (auto simp: calls_def)
  have closed: "calls graph `` ?F \<subseteq> ?F" using assms unfolding walk_inv_def by blast
  have "(a, a) \<notin> (calls graph)\<^sup>+"
  proof
    assume "(a, a) \<in> (calls graph)\<^sup>+"
    then obtain c where "c \<in> ?F" "(c, a) \<in> (calls graph)\<^sup>*"
      using step by (auto dest: tranclD)
    then have "a \<in> ?F" using closed by (metis Image_closed_trancl ImageI singletonD)
    then show False using a by simp
  qed
  moreover have "stack_ok graph current ?F' {} None stack"
    using stack_ok_return [OF stack_ok_more [OF ok, of ?F']] F' by auto
  ultimately show ?thesis
    using assms a step closed F' by (auto simp: walk_inv_def acyclic_on_def)
qed

lemma walk_inv_skip:
  assumes "walk_inv graph current ((i, False) # stack) visited active closure" "i \<notin> active" "i \<in> visited"
  shows "walk_inv graph current stack visited active closure"
proof -
  have "stack_ok graph current (visited - active) {} None stack"
    using assms stack_ok_done [of graph current "visited - active" i "{}" None stack] by (auto simp: walk_inv_def)
  then show ?thesis using assms by (auto simp: walk_inv_def)
qed

lemma depends_on_step: "i \<in> depends_on graph current \<Longrightarrow> (i, c) \<in> calls graph \<Longrightarrow> c \<in> depends_on graph current"
  by (auto simp: depends_on_def intro: rtrancl_into_rtrancl)

lemma walk_inv_visit:
  assumes inv: "walk_inv graph current ((i, False) # stack) visited active closure"
    and new: "i \<notin> visited" "bt_get graph i = Some children" and "bt_ok graph"
  shows "walk_inv graph current (map (\<lambda>c. (c, False)) children @ (i, True) # stack) (insert i visited) (insert i active)
    (bt_insert i children closure)"
proof -
  have F: "insert i visited - insert i active = visited - active"
    using inv new(1) by (auto simp: walk_inv_def)
  have "stack_ok graph current (visited - active) {} (Some i) stack"
    using inv by (auto simp: walk_inv_def intro: stack_ok_descend)
  then have stack: "stack_ok graph current (visited - active) {} None (map (\<lambda>c. (c, False)) children @ (i, True) # stack)"
    using new(2) by (auto simp: stack_ok_push)
  have i: "i \<in> depends_on graph current" "i \<in> set (bt_keys graph)"
    using inv new(2) by (auto simp: walk_inv_def bt_keys_dom)
  moreover have "set children \<subseteq> depends_on graph current"
    using depends_on_step [OF i(1)] new(2) by (auto simp: calls_def)
  moreover have "bt_insert i children closure = filter (\<lambda>e. fst e \<in> insert i visited) graph"
    using inv new assms(4) bt_insert_restrict [of graph i children visited] by (simp add: walk_inv_def)
  moreover have "i \<notin> active" using inv new(1) by (auto simp: walk_inv_def)
  ultimately show ?thesis
    unfolding walk_inv_def F using inv stack by (auto simp: walk_inv_def)
qed

lemma walk_inv_cycle:
  assumes "walk_inv graph current ((i, False) # stack) visited active closure" "i \<in> active"
  shows "i \<in> depends_on graph current \<and> (i, i) \<in> (calls graph)\<^sup>+"
proof -
  have "stack_ok graph current (visited - active) {i} None stack" "i \<in> set (markers stack)"
    using assms by (auto simp: walk_inv_def)
  then have "(i, i) \<in> (calls graph)\<^sup>+"
    using marker_calls [of graph current "visited - active" "{i}" None stack i i] by simp
  then show ?thesis using assms by (auto simp: walk_inv_def)
qed

lemma walk_inv_end:
  assumes "walk_inv graph current [] visited active closure"
  shows "depends_on graph current = visited \<and> acyclic_on graph visited \<and> visited \<subseteq> set (bt_keys graph)
    \<and> closure = filter (\<lambda>e. fst e \<in> visited) graph"
proof -
  have "active = {}" "current \<in> visited" "calls graph `` visited \<subseteq> visited" "visited \<subseteq> depends_on graph current"
    using assms by (auto simp: walk_inv_def)
  then have "depends_on graph current = visited"
    using Image_closed_trancl [of "calls graph" visited] by (auto simp: depends_on_def)
  then show ?thesis using assms \<open>active = {}\<close> by (auto simp: walk_inv_def)
qed

lemma dependency_loop_spec:
  assumes "bt_ok graph" "walk_inv graph current stack (set visited) (set active) closure"
  shows "case dependency_loop graph span stack visited active closure of
      Ok c \<Rightarrow> depends_on graph current \<subseteq> set (bt_keys graph) \<and> acyclic_on graph (depends_on graph current)
        \<and> c = filter (\<lambda>e. fst e \<in> depends_on graph current) graph
    | Err _ \<Rightarrow> \<not> depends_on graph current \<subseteq> set (bt_keys graph) \<or> \<not> acyclic_on graph (depends_on graph current)
    | Panic \<Rightarrow> False"
  using assms
proof (induction graph span stack visited active closure rule: dependency_loop.induct)
  case (1 graph span visited active closure)
  then show ?case using walk_inv_end [OF 1(2)] by simp
next
  case (2 graph span i exiting stack visited active closure)
  note prems = "2.prems"
  show ?case
  proof (cases exiting)
    case True
    have "set (filter (\<lambda>a. a \<noteq> i) active) = set active - {i}" by auto
    then show ?thesis
      using "2.IH"(1) [OF True prems(1)] walk_inv_exit [of graph current i stack] prems(2) True by simp
  next
    case entering: False
    show ?thesis
    proof (cases "i \<in> set active")
      case True
      have "\<not> acyclic_on graph (depends_on graph current)"
        using walk_inv_cycle [of graph current i stack] prems(2) entering True by (auto simp: acyclic_on_def)
      then show ?thesis using entering True by simp
    next
      case inactive: False
      show ?thesis
      proof (cases "i \<in> set visited")
        case True
        then show ?thesis
          using "2.IH"(2) [OF entering inactive True prems(1)] walk_inv_skip [of graph current i stack] prems(2) entering inactive
          by simp
      next
        case new: False
        show ?thesis
        proof (cases "bt_get graph i")
          case None
          then have "\<not> depends_on graph current \<subseteq> set (bt_keys graph)"
            using prems(2) by (auto simp: walk_inv_def bt_keys_dom)
          then show ?thesis using entering inactive new None by simp
        next
          case (Some children)
          then show ?thesis
            using "2.IH"(3) [OF entering inactive new Some prems(1)] prems walk_inv_visit [of graph current i stack]
              entering inactive new by simp
        qed
      qed
    qed
  qed
qed

lemma check_dependencies_exact:
  assumes "bt_ok graph"
  shows "check_dependencies current children graph span = Ok closure \<longleftrightarrow>
    within_limits graph \<and> bt_get graph current = Some children
    \<and> depends_on graph current \<subseteq> set (bt_keys graph)
    \<and> (\<forall>w \<in> depends_on graph current. (w, w) \<notin> (calls graph)\<^sup>+)
    \<and> closure = filter (\<lambda>e. fst e \<in> depends_on graph current) graph"
proof (cases "graph = []")
  case True
  then show ?thesis by (simp add: check_dependencies_def bt_get_def)
next
  case False
  have start: "walk_inv graph current [(current, False)] (set []) (set []) []"
    by (simp add: walk_inv_def acyclic_on_def depends_on_def)
  have loop: "dependency_loop graph span [(current, False)] [] [] [] = Ok closure \<longleftrightarrow>
      depends_on graph current \<subseteq> set (bt_keys graph) \<and> acyclic_on graph (depends_on graph current)
      \<and> closure = filter (\<lambda>e. fst e \<in> depends_on graph current) graph"
    using dependency_loop_spec [OF assms start, of span]
    by (cases "dependency_loop graph span [(current, False)] [] [] []") auto
  show ?thesis
    using count_limits [OF False, of span]
    by (cases "for_each (count_dependency_edges (length graph) span) graph 0")
      (auto simp: check_dependencies_def loop acyclic_on_def simp del: dependency_loop.simps split: option.splits)
qed

section \<open>Properties\<close>

text \<open>
  C23. The dependency check accepts a workflow exactly when the facts are within their limits, declare
  the children the workflow has, know every workflow it reaches, and contain no cycle that it
  reaches; it then returns exactly the facts of the reachable workflows. In particular the explicit
  stack visits every reachable workflow and finds every recursion.
\<close>

theorem dependency_check_is_exact:
  assumes "bt_ok graph"
  shows "check_dependencies current children graph span = Ok closure \<longleftrightarrow>
    within_limits graph \<and> bt_get graph current = Some children
    \<and> depends_on graph current \<subseteq> set (bt_keys graph)
    \<and> (\<forall>w \<in> depends_on graph current. (w, w) \<notin> (calls graph)\<^sup>+)
    \<and> closure = filter (\<lambda>e. fst e \<in> depends_on graph current) graph"
  using assms by (rule check_dependencies_exact)

theorem dependency_check_is_exact_witness:
  "check_dependencies 1 [2] [(1, [2]), (2, [])] sample_span = Ok [(1, [2]), (2, [])]"
proof -
  let ?g = "[(1, [2]), (2, [])] :: dependency_graph"
  have ok: "bt_ok ?g" by (simp add: bt_ok_def)
  have calls: "calls ?g = {(1, 2)}"
    by (auto simp: calls_def bt_get_def split: if_splits)
  have "(calls ?g)\<^sup>* `` {1} = {1, 2}"
    using Image_closed_trancl [of "calls ?g" "{1, 2}"] by (auto simp: calls)
  then have reach: "depends_on ?g 1 = {1, 2}"
    by (simp add: depends_on_def)
  have "(w, w) \<notin> (calls ?g)\<^sup>+" for w
    by (simp add: calls trancl_id trans_def)
  then show ?thesis
    using dependency_check_is_exact [OF ok, of 1 "[2]" sample_span ?g]
    by (simp add: reach within_limits_def MAX_DEPENDENCY_NODES_def MAX_DEPENDENCY_EDGES_def bt_keys_def)
      (simp add: bt_get_def)
qed

end
