(* ===== verification/Wire.thy ===== *)
theory Wire
  imports Binding_Syntax Graph
begin

text \<open>
  From a located source tree to a workflow definition:
  \<open>src/src/application/workflow/compiler/wire.rs\<close>. The readers check the fields, names, routes,
  rules, child controls and limits of the text; the graph itself is validated later. The parsing
  of a UUID and the reading of a number as \<open>u64\<close> are the libraries' part.
\<close>

section \<open>Model\<close>

record 'n wire_externals =
  uuid_parse_str :: "string \<Rightarrow> uuid option" \<comment> \<open>\<open>Uuid::parse_str\<close>\<close>
  as_u64 :: "'n \<Rightarrow> nat option" \<comment> \<open>\<open>serde_json::Number::as_u64\<close>\<close>

record 'n repeat_control =
  next_input :: "'n binding"
  exit_when :: "'n binding"

record 'n step_control =
  child_workflow_id :: uuid
  child_version_id :: uuid
  max_iterations :: "32 word option"
  control_repeat :: "'n repeat_control option"

record 'n parsed_steps =
  ps_steps :: "(step_id, 'n step_definition) btree_map"
  ps_controls :: "(step_id, 'n step_control) btree_map"
  ps_rules :: "(step_id, 'n ordered_rule) btree_map"

record 'n parsed_workflow =
  pw_definition :: "'n workflow_definition"
  pw_controls :: "(step_id, 'n step_control) btree_map"
  pw_rules :: "(step_id, 'n ordered_rule) btree_map"
  pw_locations :: locations

definition ResourceName_parse :: "string \<Rightarrow> (resource_name, name_error) outcome" where
  "ResourceName_parse = parse_name False"

text \<open>\<open>Result::ok\<close>, and \<open>Option::map(f).transpose()\<close>.\<close>

definition ok_option :: "('a, 'e) outcome \<Rightarrow> 'a option" where
  "ok_option r = (case r of Ok x \<Rightarrow> Some x | _ \<Rightarrow> None)"

definition map_transpose :: "('a \<Rightarrow> ('b, 'e) outcome) \<Rightarrow> 'a option \<Rightarrow> ('b option, 'e) outcome" where
  "map_transpose f v = (case v of None \<Rightarrow> Ok None | Some x \<Rightarrow> bindr (f x) (\<lambda>y. Ok (Some y)))"

definition checked_name ::
    "'n located_node \<Rightarrow> string \<Rightarrow> (string \<Rightarrow> 'a option) \<Rightarrow> ('a, diagnostic) outcome" where
  "checked_name node at parse =
     bindr (scalar_string node at) (\<lambda>text.
     ok_or (parse text) (Diagnostic_at ''syntax.name'' ''Invalid checked name'' at (node_span node)))"

definition uuid_at :: "'n wire_externals \<Rightarrow> 'n located_node \<Rightarrow> string \<Rightarrow> (uuid, diagnostic) outcome" where
  "uuid_at w node at = checked_name node at (uuid_parse_str w)"

definition positive_u32 ::
    "'n wire_externals \<Rightarrow> 'n located_node \<Rightarrow> string \<Rightarrow> 32 word \<Rightarrow> (32 word, diagnostic) outcome" where
  "positive_u32 w node at upper =
     (case node_value node of
        Scalar (VNumber v) \<Rightarrow>
          (case as_u64 w v of
             Some n \<Rightarrow>
               if n < 2 ^ 32 \<and> 0 < n \<and> n \<le> unat upper then Ok (word_of_nat n)
               else Err (Diagnostic_at ''syntax.integer'' ''Positive integer is outside the permitted range'' at (node_span node))
           | None \<Rightarrow> Err (Diagnostic_at ''syntax.integer'' ''Positive integer is outside the permitted range'' at (node_span node)))
      | _ \<Rightarrow> Err (Diagnostic_at ''syntax.integer'' ''Expected a positive integer'' at (node_span node)))"

definition target_at :: "'n located_node \<Rightarrow> string \<Rightarrow> (transition_target, diagnostic) outcome" where
  "target_at node at =
     bindr (scalar_string node at) (\<lambda>text.
     if text = ''$end'' then Ok End
     else bindr (map_err (\<lambda>_. Diagnostic_at ''route.target'' ''Invalid route target'' at (node_span node)) (StepId_parse text))
       (\<lambda>i. Ok (Step i)))"

definition choice_at ::
    "string \<Rightarrow> string \<times> 'n located_node \<Rightarrow> (choice_name \<times> transition_target, diagnostic) outcome" where
  "choice_at choice_path entry =
     (let at = child choice_path (fst entry) in
      bindr (map_err (\<lambda>_. Diagnostic_at ''route.choice'' ''Invalid choice name'' at (node_span (snd entry)))
        (ChoiceName_parse (fst entry))) (\<lambda>name.
      bindr (target_at (snd entry) at) (\<lambda>to. Ok (name, to))))"

definition routes_at ::
    "'n located_node \<Rightarrow> string \<Rightarrow> (routes \<times> transition_target option, diagnostic) outcome" where
  "routes_at node at =
     bindr (node_fields node at [''success'', ''choices'', ''error'']) (\<lambda>m.
     bindr (case (bt_get m ''success'', bt_get m ''choices'') of
         (Some to, None) \<Rightarrow> bindr (target_at to (child at ''success'')) (\<lambda>t. Ok (Routes_Success t))
       | (None, Some choices) \<Rightarrow>
           (let choice_path = child at ''choices'' in
            bindr (node_fields choices choice_path []) (\<lambda>entries.
            if entries = []
            then Err (Diagnostic_at ''route.choices'' ''At least one choice is required'' choice_path (node_span choices))
            else bindr (collect_items (\<lambda>_. choice_at choice_path) 0 entries) (\<lambda>cs. Ok (Routes_Choices cs))))
       | _ \<Rightarrow> Err (Diagnostic_at ''route.shape'' ''Declare exactly one of success or choices'' at (node_span node))) (\<lambda>route.
     bindr (map_transpose (\<lambda>n. target_at n (child at ''error'')) (bt_get m ''error'')) (\<lambda>error.
     Ok (route, error))))"

definition inputs_at ::
    "'n located_node \<Rightarrow> string \<Rightarrow> ((string, 'n binding) btree_map, diagnostic) outcome" where
  "inputs_at node at =
     bindr (node_fields node at []) (collect_map (\<lambda>key value. parse_binding value (child at key)))"

definition rule_case_at :: "string \<Rightarrow> nat \<Rightarrow> 'n located_node \<Rightarrow> ('n rule_case, diagnostic) outcome" where
  "rule_case_at cases_path i item =
     (let at = child cases_path (show_nat i) in
      bindr (node_fields item at [''when'', ''choice'']) (\<lambda>m.
      bindr (required m ''when'' at item) (\<lambda>w.
      bindr (parse_binding w (child at ''when'')) (\<lambda>binding.
      bindr (required m ''choice'' at item) (\<lambda>c.
      bindr (checked_name c (child at ''choice'') (\<lambda>s. ok_option (ChoiceName_parse s))) (\<lambda>choice.
      Ok \<lparr>case_when = binding, case_choice = choice\<rparr>))))))"

definition rule_at :: "'n located_node \<Rightarrow> string \<Rightarrow> ('n ordered_rule, diagnostic) outcome" where
  "rule_at node at =
     bindr (node_fields node at [''cases'', ''default'']) (\<lambda>m.
     bindr (required m ''cases'' at node) (\<lambda>cases_node.
     bindr (sequence cases_node (child at ''cases'')) (\<lambda>items.
     bindr (collect_items (rule_case_at (child at ''cases'')) 0 items) (\<lambda>cs.
     bindr (required m ''default'' at node) (\<lambda>default_node.
     bindr (checked_name default_node (child at ''default'') (\<lambda>s. ok_option (ChoiceName_parse s))) (\<lambda>dflt.
     Ok \<lparr>cases = cs, default_choice = dflt\<rparr>))))))"

definition repeat_at :: "'n located_node \<Rightarrow> string \<Rightarrow> ('n repeat_control, diagnostic) outcome" where
  "repeat_at node at =
     bindr (node_fields node at [''next_input'', ''exit_when'']) (\<lambda>m.
     bindr (required m ''next_input'' at node) (\<lambda>n.
     bindr (parse_binding n (child at ''next_input'')) (\<lambda>next.
     bindr (required m ''exit_when'' at node) (\<lambda>e.
     bindr (parse_binding e (child at ''exit_when'')) (\<lambda>exit.
     Ok \<lparr>next_input = next, exit_when = exit\<rparr>)))))"

definition control_at ::
    "'n wire_externals \<Rightarrow> (string, 'n located_node) btree_map \<Rightarrow> 'n located_node \<Rightarrow> string
      \<Rightarrow> ('n step_control option, diagnostic) outcome" where
  "control_at w m step at =
     (case (bt_get m ''child_workflow_id'', bt_get m ''child_version_id'') of
        (Some workflow, Some version) \<Rightarrow>
          bindr (uuid_at w workflow (child at ''child_workflow_id'')) (\<lambda>wid.
          bindr (uuid_at w version (child at ''child_version_id'')) (\<lambda>vid.
          bindr (map_transpose (\<lambda>n. positive_u32 w n (child at ''max_iterations'') MAX_ROOT_REPETITIONS)
            (bt_get m ''max_iterations'')) (\<lambda>iterations.
          bindr (map_transpose (\<lambda>n. repeat_at n (child at ''repeat'')) (bt_get m ''repeat'')) (\<lambda>r.
          Ok (Some \<lparr>child_workflow_id = wid, child_version_id = vid, max_iterations = iterations, control_repeat = r\<rparr>)))))
      | (None, None) \<Rightarrow>
          if bt_get m ''max_iterations'' = None \<and> bt_get m ''repeat'' = None then Ok None
          else Err (Diagnostic_at ''step.child'' ''Child workflow and pinned version must both be declared'' at (node_span step))
      | _ \<Rightarrow> Err (Diagnostic_at ''step.child'' ''Child workflow and pinned version must both be declared'' at (node_span step)))"

definition STEP_FIELDS :: "string list" where
  "STEP_FIELDS = [''type'', ''with'', ''routes'', ''rule'', ''child_workflow_id'', ''child_version_id'', ''max_iterations'', ''repeat'']"

definition step_at ::
    "'n wire_externals \<Rightarrow> string \<Rightarrow> string \<times> 'n located_node \<Rightarrow> 'n parsed_steps \<Rightarrow> ('n parsed_steps, diagnostic) outcome" where
  "step_at w base entry acc =
     (let at = child base (fst entry); item = snd entry in
      bindr (map_err (\<lambda>_. Diagnostic_at ''step.id'' ''Invalid step ID'' at (node_span item)) (StepId_parse (fst entry))) (\<lambda>sid.
      bindr (node_fields item at STEP_FIELDS) (\<lambda>m.
      bindr (required m ''type'' at item) (\<lambda>type_node.
      bindr (checked_name type_node (child at ''type'') (\<lambda>s. ok_option (TypeName_parse s))) (\<lambda>kind.
      bindr (required m ''routes'' at item) (\<lambda>routes_node.
      bindr (routes_at routes_node (child at ''routes'')) (\<lambda>(route, error).
      bindr (required m ''with'' at item) (\<lambda>with_node.
      bindr (inputs_at with_node (child at ''with'')) (\<lambda>inputs.
      bindr (control_at w m item at) (\<lambda>control.
      bindr (map_transpose (\<lambda>n. rule_at n (child at ''rule'')) (bt_get m ''rule'')) (\<lambda>rule.
      Ok \<lparr>ps_steps = bt_insert sid \<lparr>step_type = kind, step_inputs = inputs, step_routes = route, final_error = error\<rparr> (ps_steps acc),
        ps_controls = (case control of None \<Rightarrow> ps_controls acc | Some c \<Rightarrow> bt_insert sid c (ps_controls acc)),
        ps_rules = (case rule of None \<Rightarrow> ps_rules acc | Some r \<Rightarrow> bt_insert sid r (ps_rules acc))\<rparr>)))))))))))"

definition steps_at ::
    "'n wire_externals \<Rightarrow> 'n located_node \<Rightarrow> string \<Rightarrow> ('n parsed_steps, diagnostic) outcome" where
  "steps_at w node at =
     bindr (node_fields node at []) (\<lambda>m.
     for_each (step_at w at) m \<lparr>ps_steps = [], ps_controls = [], ps_rules = []\<rparr>)"

definition resource_at :: "string \<Rightarrow> nat \<Rightarrow> 'n located_node \<Rightarrow> (resource_requirement, diagnostic) outcome" where
  "resource_at base i item =
     (let at = child base (show_nat i) in
      bindr (node_fields item at [''slot'', ''kind'', ''contract'']) (\<lambda>m.
      bindr (required m ''slot'' at item) (\<lambda>s.
      bindr (checked_name s (child at ''slot'') (\<lambda>t. ok_option (ResourceName_parse t))) (\<lambda>sl.
      bindr (required m ''kind'' at item) (\<lambda>k.
      bindr (checked_name k (child at ''kind'') (\<lambda>t. ok_option (TypeName_parse t))) (\<lambda>kind.
      bindr (map_transpose (\<lambda>c. checked_name c (child at ''contract'') (\<lambda>t. ok_option (TypeName_parse t)))
        (bt_get m ''contract'')) (\<lambda>contract.
      Ok \<lparr>slot = sl, slot_kind = kind, slot_contract = contract\<rparr>)))))))"

definition resources_at :: "'n located_node \<Rightarrow> string \<Rightarrow> (resource_requirement list, diagnostic) outcome" where
  "resources_at node at = bindr (sequence node at) (collect_items (resource_at at) 0)"

function locations :: "'n located_node \<Rightarrow> string \<Rightarrow> locations \<Rightarrow> locations" where
  "locations node at output =
     (let output' = bt_insert at (node_span node) output in
      (case node_value node of
         Sequence items \<Rightarrow> walk_items (\<lambda>i item. locations item (child at (show_nat i))) 0 items output'
       | Mapping entries \<Rightarrow>
           fold (\<lambda>entry out. case node_value (fst entry) of
               Scalar (VString name) \<Rightarrow> locations (snd entry) (child at name) out
             | _ \<Rightarrow> out) entries output'
       | Scalar _ \<Rightarrow> output'))"
  by pat_completeness auto
termination
proof (relation "measure (size \<circ> fst)", goal_cases)
  case (2 node at out0 out1 items i item out)
  then have "sequence node at = Ok items" by (simp add: sequence_eq_Ok)
  then show ?case using 2 by (simp add: sequence_size)
next
  case (3 node at out0 out1 entries entry out name)
  have "size (snd entry) \<le> size_list (size_prod size size) entries"
    using 3 by (intro size_list_estimation' [of entry]) (auto, cases entry, simp)
  then show ?case using 3 by (cases node) auto
qed auto

declare locations.simps [simp del]

definition token_reviewer_at ::
    "'n wire_externals \<Rightarrow> string \<Rightarrow> nat \<Rightarrow> 'n located_node \<Rightarrow> (uuid, diagnostic) outcome" where
  "token_reviewer_at w reviewer_path i item =
     (let at = child reviewer_path (show_nat i) in
      bindr (node_fields item at [''kind'', ''id'']) (\<lambda>m.
      bindr (required m ''kind'' at item) (\<lambda>k.
      bindr (scalar_string k (child at ''kind'')) (\<lambda>kind.
      if kind \<noteq> ''user''
      then Err (Diagnostic_at ''budget.reviewers'' ''Token reviewers must be explicit users'' at (node_span item))
      else bindr (required m ''id'' at item) (\<lambda>n. uuid_at w n (child at ''id''))))))"

definition token_allowance_at :: "'n wire_externals \<Rightarrow> 'n located_node \<Rightarrow> (token_allowance, diagnostic) outcome" where
  "token_allowance_at w node =
     (let at = ''/limits/root_budget/tokens''; reviewer_path = child at ''reviewers'' in
      bindr (node_fields node at [''max_tokens'', ''reviewers'']) (\<lambda>m.
      bindr (required m ''max_tokens'' at node) (\<lambda>t.
      bindr (positive_u32 w t (child at ''max_tokens'') MAX_TOKENS) (\<lambda>tokens.
      bindr (required m ''reviewers'' at node) (\<lambda>reviewer_node.
      let invalid = Diagnostic_at ''budget.reviewers'' ''Token allowance requires 1..16 distinct user reviewers''
        reviewer_path (node_span reviewer_node) in
      bindr (sequence reviewer_node reviewer_path) (\<lambda>items.
      if items = [] \<or> length items > MAX_REVIEWERS then Err invalid
      else bindr (collect_items (token_reviewer_at w reviewer_path) 0 items) (\<lambda>rs.
        map_err (\<lambda>_. invalid) (TokenAllowance_new tokens rs))))))))"

definition root_budget_at :: "'n wire_externals \<Rightarrow> 'n located_node \<Rightarrow> (root_budget_limits, diagnostic) outcome" where
  "root_budget_at w node =
     (let at = ''/limits/root_budget'' in
      bindr (node_fields node at [''activations'', ''model_calls'', ''repetitions'', ''tokens'']) (\<lambda>m.
      let read = (\<lambda>field res. bindr (required m field at node) (\<lambda>n. positive_u32 w n (at @ ''/'' @ field) (maximum res))) in
      bindr (read ''activations'' Activation) (\<lambda>a.
      bindr (read ''model_calls'' ModelCall) (\<lambda>c.
      bindr (read ''repetitions'' Repetition) (\<lambda>r.
      bindr (map_err (\<lambda>_. Diagnostic_at ''syntax.integer'' ''Invalid root budget'' at (node_span node))
        (RootBudgetLimits_new a c r)) (\<lambda>limits.
      (case bt_get m ''tokens'' of
         None \<Rightarrow> Ok limits
       | Some n \<Rightarrow> bindr (token_allowance_at w n) (\<lambda>t. Ok (with_tokens limits t)))))))))"

definition execution_limits_at :: "'n wire_externals \<Rightarrow> 'n located_node \<Rightarrow> (execution_limits, diagnostic) outcome" where
  "execution_limits_at w node =
     bindr (node_fields node ''/limits'' [''max_steps'', ''max_context_bytes'', ''root_budget'']) (\<lambda>m.
     bindr (required m ''max_steps'' ''/limits'' node) (\<lambda>s.
     bindr (positive_u32 w s ''/limits/max_steps'' 100000) (\<lambda>steps.
     bindr (required m ''max_context_bytes'' ''/limits'' node) (\<lambda>b.
     bindr (positive_u32 w b ''/limits/max_context_bytes'' 1048576) (\<lambda>bytes.
     bindr (map_transpose (root_budget_at w) (bt_get m ''root_budget'')) (\<lambda>budget.
     Ok \<lparr>root_budget = (case budget of None \<Rightarrow> RootBudgetLimits_default | Some l \<Rightarrow> l), max_steps = steps,
       max_context_bytes = unat bytes\<rparr>))))))"

definition ROOT_FIELDS :: "string list" where
  "ROOT_FIELDS = [''format_version'', ''workflow_id'', ''input_schema'', ''parameter_schema'', ''output_schema'',
     ''resources'', ''entry'', ''steps'', ''limits'']"

definition value_as_u64 :: "'n wire_externals \<Rightarrow> 'n located_node \<Rightarrow> nat option" where
  "value_as_u64 w node = (case node_value node of Scalar (VNumber v) \<Rightarrow> as_u64 w v | _ \<Rightarrow> None)"

definition parse_workflow ::
    "'n wire_externals \<Rightarrow> 'n decoded_source \<Rightarrow> uuid \<Rightarrow> ('n parsed_workflow, diagnostic) outcome" where
  "parse_workflow w decoded version =
     (let node = source_root decoded in
      bindr (node_fields node [] ROOT_FIELDS) (\<lambda>m.
      bindr (required m ''format_version'' [] node) (\<lambda>format.
      if value_as_u64 w format \<noteq> Some 1
      then Err (Diagnostic_at ''format.version'' ''Only format_version 1 is supported'' ''/format_version'' (node_span format))
      else
      bindr (required m ''workflow_id'' [] node) (\<lambda>n1.
      bindr (uuid_at w n1 ''/workflow_id'') (\<lambda>wid.
      bindr (required m ''input_schema'' [] node) (\<lambda>n2.
      bindr (json_value n2 ''/input_schema'') (\<lambda>input_s.
      bindr (required m ''parameter_schema'' [] node) (\<lambda>n3.
      bindr (json_value n3 ''/parameter_schema'') (\<lambda>parameter_s.
      bindr (required m ''output_schema'' [] node) (\<lambda>n4.
      bindr (json_value n4 ''/output_schema'') (\<lambda>output_s.
      bindr (required m ''resources'' [] node) (\<lambda>n5.
      bindr (resources_at n5 ''/resources'') (\<lambda>rs.
      bindr (required m ''entry'' [] node) (\<lambda>n6.
      bindr (checked_name n6 ''/entry'' (\<lambda>s. ok_option (StepId_parse s))) (\<lambda>entry.
      bindr (required m ''steps'' [] node) (\<lambda>n7.
      bindr (steps_at w n7 ''/steps'') (\<lambda>parsed.
      bindr (required m ''limits'' [] node) (\<lambda>n8.
      bindr (execution_limits_at w n8) (\<lambda>limits.
      Ok \<lparr>pw_definition = \<lparr>format_version = 1, workflow_id = wid, version_id = version,
            input_schema = Some input_s, parameter_schema = Some parameter_s, output_schema = Some output_s,
            resources = rs, wf_entry = entry, wf_steps = ps_steps parsed, wf_limits = limits\<rparr>,
          pw_controls = ps_controls parsed, pw_rules = ps_rules parsed,
          pw_locations = locations node [] []\<rparr>)))))))))))))))))))"

section \<open>What a parsed workflow satisfies\<close>

lemma map_transpose_eq_Ok:
  "map_transpose f v = Ok r \<longleftrightarrow> (case v of None \<Rightarrow> r = None | Some x \<Rightarrow> \<exists>y. f x = Ok y \<and> r = Some y)"
  by (auto simp: map_transpose_def split: option.splits)

lemma parse_name_same: "parse_name dotted v = Ok u \<Longrightarrow> u = v"
  by (auto simp: parse_name_def Let_def split: if_splits)

lemma parse_name_self: "parse_name dotted v = Ok u \<Longrightarrow> parse_name dotted u = Ok u"
  using parse_name_same by metis

lemma ok_option_eq_Some: "ok_option r = Some x \<longleftrightarrow> r = Ok x"
  by (cases r) (auto simp: ok_option_def)

lemma checked_name_eq_Ok:
  "checked_name node at parse = Ok y \<longleftrightarrow> (\<exists>text. node_value node = Scalar (VString text) \<and> parse text = Some y)"
  by (auto simp: checked_name_def scalar_string_eq_Ok)

lemma positive_u32_bounds:
  assumes "positive_u32 w node at upper = Ok n"
  shows "0 < n \<and> n \<le> upper"
proof -
  obtain k where k: "k < 2 ^ 32" "0 < k" "k \<le> unat upper" "n = word_of_nat k"
    using assms by (auto simp: positive_u32_def split: node_value.splits json.splits option.splits if_splits)
  then have "unat n = k" by (simp add: unsigned_of_nat take_bit_nat_eq_self)
  then show ?thesis using k by (simp add: word_le_nat_alt word_less_nat_alt)
qed

lemma parsed_reference: "ContextReference_parse text = Ok r \<Longrightarrow> parsed r"
proof -
  assume ok: "ContextReference_parse text = Ok r"
  then obtain rt p where "Ok \<lparr>raw = text, root = rt, path = p\<rparr> = (Ok r :: (_, context_error) outcome)"
    unfolding ContextReference_parse_def bindr_eq_Ok by blast
  then show ?thesis using ok by (auto simp: parsed_def)
qed

lemma walk_items_invariant:
  "I s \<Longrightarrow> (\<And>i x t. x \<in> set xs \<Longrightarrow> I t \<Longrightarrow> I (f i x t)) \<Longrightarrow> I (walk_items f i xs s)"
  by (induction xs arbitrary: i s) auto

lemma fold_invariant_all: "I s \<Longrightarrow> (\<And>x t. x \<in> set xs \<Longrightarrow> I t \<Longrightarrow> I (f x t)) \<Longrightarrow> I (fold f xs s)"
  by (induction xs arbitrary: s) auto

definition uses_parsed :: "reference_use list \<Rightarrow> bool" where
  "uses_parsed out \<longleftrightarrow> (\<forall>u \<in> set out. parsed (use_reference u))"

lemma add_reference_parsed: "uses_parsed out \<Longrightarrow> uses_parsed (add_reference node at optional out)"
  by (auto simp: uses_parsed_def add_reference_def parsed_reference split: node_value.splits json.splits outcome.splits)

text \<open>What adding a reference keeps, the walk keeps.\<close>

lemma walk_invariant:
  fixes node :: "'n located_node"
  assumes add: "\<And>(n :: 'n located_node) at optional out. I out \<Longrightarrow> I (add_reference n at optional out)"
  shows "I out \<Longrightarrow> I (walk_binding node at out)"
proof (induction node arbitrary: at out rule: measure_induct_rule [where f = size])
  case (less node)
  show ?case
  proof (cases "node_fields node at []")
    case (Ok m)
    show ?thesis
    proof (cases m)
      case (Cons entry rest)
      obtain name operand where entry: "entry = (name, operand)" by force
      have size: "size operand < size node"
        using fields_size [OF Ok, of name operand] Cons entry by simp
      have field: "I (walk_binding v a t)"
        if "node_fields operand p [] = Ok fs" "(k, v) \<in> set fs" "I t" for fs p k v a t
        using less.IH [of v t a] fields_size [OF that(1,2)] size that(3) by simp
      have item: "I (walk_binding v a t)"
        if "sequence operand p = Ok items" "v \<in> set items" "I t" for items p v a t
        using less.IH [of v t a] sequence_size [OF that(1,2)] size that(3) by simp
      let ?p = "child at name"
      have default: "I (case node_fields operand ?p [] of
          Ok parts \<Rightarrow>
            (let out' = (case bt_get parts ''ref'' of
                 Some r \<Rightarrow> add_reference r (child ?p ''ref'') True out | None \<Rightarrow> out)
             in (case bt_get parts ''value'' of
                 Some v \<Rightarrow> walk_binding v (child ?p ''value'') out' | None \<Rightarrow> out'))
        | _ \<Rightarrow> out)"
      proof (cases "node_fields operand ?p []")
        case (Ok parts)
        have "I (case bt_get parts ''ref'' of
            Some r \<Rightarrow> add_reference r (child ?p ''ref'') True out | None \<Rightarrow> out)" (is "I ?out'")
          using less.prems add [OF less.prems] by (cases "bt_get parts ''ref''") simp_all
        then show ?thesis
          using field [OF Ok bt_get_in_set, of "''value''" _ ?out'] Ok
          by (cases "bt_get parts ''value''") (simp_all add: Let_def)
      qed (use less.prems in auto)
      have object: "I (case node_fields operand ?p [] of
          Ok fs \<Rightarrow> fold (\<lambda>kv. walk_binding (snd kv) (child ?p (fst kv))) fs out | _ \<Rightarrow> out)"
      proof (cases "node_fields operand ?p []")
        case (Ok fs)
        have "I (fold (\<lambda>kv. walk_binding (snd kv) (child ?p (fst kv))) fs out)"
          using less.prems by (rule fold_invariant_all) (use field [OF Ok] in auto)
        then show ?thesis by (simp add: Ok)
      qed (use less.prems in auto)
      have items: "I (case sequence operand ?p of
          Ok is \<Rightarrow> walk_items (\<lambda>i x. walk_binding x (child ?p (show_nat i))) 0 is out | _ \<Rightarrow> out)"
      proof (cases "sequence operand ?p")
        case (Ok xs)
        have "I (walk_items (\<lambda>i x. walk_binding x (child ?p (show_nat i))) 0 xs out)"
          using less.prems by (rule walk_items_invariant) (use item [OF Ok] in auto)
        then show ?thesis by (simp add: Ok)
      qed (use less.prems in auto)
      have either: "I (if c then x else y)" if "I x" "I y" for c x y
        using that by simp
      show ?thesis
        unfolding walk_binding.simps [of node at out] Ok Cons entry outcome.case list.case prod.case Let_def
        by (intro either default [unfolded Let_def] object items less.prems less.IH [OF size less.prems]
            add [OF less.prems])
    qed (use less.prems Ok in \<open>simp add: walk_binding.simps\<close>)
  qed (use less.prems in \<open>simp_all add: walk_binding.simps\<close>)
qed

lemma walk_parsed: "uses_parsed out \<Longrightarrow> uses_parsed (walk_binding node at out)"
  by (rule walk_invariant) (rule add_reference_parsed)

lemma walk_keeps: "set out \<subseteq> set (walk_binding node at out)"
  by (rule walk_invariant [where I = "\<lambda>more. set out \<subseteq> set more"])
    (auto simp: add_reference_def split: node_value.splits json.splits outcome.splits)

section \<open>Finding nodes by their path\<close>

text \<open>
  \<open>node_at\<close> of \<open>analysis.rs\<close>: the path is split at its slashes, each segment unescaped, and the
  tree descended. \<open>str::parse::<usize>\<close> takes an optional plus sign and decimal digits.
\<close>

definition parse_index :: "string \<Rightarrow> nat option" where
  "parse_index s =
     (let d = (if length s > 1 \<and> hd s = CHR ''+'' then tl s else s) in
      if d = [] \<or> \<not> list_all is_ascii_digit d then None else parse_usize d)"

definition descend :: "'n located_node \<Rightarrow> string \<Rightarrow> 'n located_node option" where
  "descend node segment =
     (case node_value node of
        Mapping entries \<Rightarrow> map_option snd (find (\<lambda>e. node_value (fst e) = Scalar (VString segment)) entries)
      | Sequence items \<Rightarrow> Option.bind (parse_index segment) (nth_opt items)
      | Scalar _ \<Rightarrow> None)"

primrec descend_all :: "'n located_node \<Rightarrow> string list \<Rightarrow> 'n located_node option" where
  "descend_all node [] = Some node"
| "descend_all node (s # ss) = Option.bind (descend node (unescape s)) (\<lambda>n. descend_all n ss)"

definition node_at :: "'n located_node \<Rightarrow> string \<Rightarrow> 'n located_node option" where
  "node_at node at = descend_all node (drop 1 (split_on CHR ''/'' at))"

lemma descend_all_snoc: "descend_all node (ss @ [s]) = Option.bind (descend_all node ss) (\<lambda>n. descend n (unescape s))"
  by (induction ss arbitrary: node) (auto split: bind_splits)

lemma split_on_snoc: "c \<notin> set t \<Longrightarrow> split_on c (s @ c # t) = split_on c s @ [t]"
proof (induction s)
  case (Cons x s)
  obtain p ps where "split_on c s = p # ps" by (cases "split_on c s") auto
  then show ?case using Cons by auto
qed (simp add: split_on_no_sep)

lemma node_at_child: "node_at node (child at s) = Option.bind (node_at node at) (\<lambda>n. descend n s)"
proof -
  have "split_on CHR ''/'' (child at s) = split_on CHR ''/'' at @ [escape s]"
    by (simp add: child_def escape_escape_segment escape_no_slash split_on_snoc)
  moreover obtain p ps where "split_on CHR ''/'' at = p # ps"
    by (cases "split_on CHR ''/'' at") auto
  ultimately show ?thesis
    by (simp add: node_at_def descend_all_snoc unescape_escape)
qed

lemma node_at_root [simp]: "node_at node [] = Some node"
  by (simp add: node_at_def)

lemma descend_field:
  assumes "node_fields node at allowed = Ok m" "bt_get m k = Some v"
  shows "descend node k = Some v"
proof -
  obtain entries names where f: "node_value node = Mapping entries" "field_names entries names" "distinct names"
      "m = bt_of (zip names (map snd entries))"
    using assms(1) by (auto simp: fields_eq_Ok)
  have len: "length entries = length names" by (rule field_names_length [OF f(2)])
  then have "(k, v) \<in> set (zip names (map snd entries))"
    using bt_of_distinct [of "zip names (map snd entries)"] f bt_get_in_set [OF assms(2)] by simp
  then obtain j where j: "j < length names" "names ! j = k" "snd (entries ! j) = v"
    using len by (auto simp: in_set_zip)
  have key: "node_value (fst (entries ! i)) = Scalar (VString (names ! i))" if "i < length names" for i
    using f(2) that len unfolding field_names_def by (metis comp_apply nth_map)
  have "find (\<lambda>e. node_value (fst e) = Scalar (VString k)) entries = Some (entries ! j)"
    unfolding find_Some_iff
    using j key len f(3) by (intro exI [of _ j]) (auto simp: nth_eq_iff_index_eq)
  then show ?thesis using j f(1) by (simp add: descend_def)
qed

lemma descend_item:
  assumes "sequence node at = Ok items" "i < length items" "i \<le> usize_max"
  shows "descend node (show_nat i) = Some (items ! i)"
proof -
  have "hd (show_nat i) \<noteq> CHR ''+''"
    using show_nat_digits [of i] by (cases "show_nat i") (auto simp: is_ascii_digit_def)
  then have "parse_index (show_nat i) = Some i"
    using show_nat_digits [of i] assms(3) by (simp add: parse_index_def Let_def parse_usize_def)
  then show ?thesis
    using assms by (simp add: descend_def sequence_eq_Ok nth_opt_def)
qed

text \<open>The binding that stands at a path of the source.\<close>

definition binding_at :: "'n located_node \<Rightarrow> string \<Rightarrow> 'n binding \<Rightarrow> bool" where
  "binding_at node at b \<longleftrightarrow> (\<exists>n. node_at node at = Some n \<and> parse_binding n at = Ok b)"

section \<open>Steps\<close>

definition target_valid :: "transition_target \<Rightarrow> bool" where
  "target_valid t \<longleftrightarrow> (case t of End \<Rightarrow> True | Step i \<Rightarrow> StepId_parse i = Ok i)"

definition routes_valid :: "routes \<Rightarrow> bool" where
  "routes_valid r \<longleftrightarrow>
     (case r of
        Routes_Success t \<Rightarrow> target_valid t
      | Routes_Choices cs \<Rightarrow> cs \<noteq> [] \<and> bt_ok cs
          \<and> (\<forall>(name, t) \<in> set cs. ChoiceName_parse name = Ok name \<and> target_valid t))"

definition step_valid :: "'n step_definition \<Rightarrow> bool" where
  "step_valid step \<longleftrightarrow>
     TypeName_parse (step_type step) = Ok (step_type step) \<and> bt_ok (step_inputs step)
     \<and> (\<forall>(name, b) \<in> set (step_inputs step). \<forall>r \<in> set (references b). parsed r)
     \<and> routes_valid (step_routes step)
     \<and> (\<forall>t. final_error step = Some t \<longrightarrow> target_valid t)"

lemma parse_binding_parsed:
  assumes "parse_binding node at = Ok b" "r \<in> set (references b)"
  shows "parsed r"
proof -
  have "used (walk_binding node at []) = reads b"
    using walk_finds_reads [OF assms(1), of at "[]"] by simp
  then have "set (references b) = use_reference ` set (walk_binding node at [])"
    unfolding reads_references [symmetric] by (auto simp: used_def simp flip: \<open>used _ = _\<close>)
  then show ?thesis
    using walk_parsed [of "[]" node at] assms(2) by (auto simp: uses_parsed_def)
qed

lemma target_at_valid: "target_at node at = Ok t \<Longrightarrow> target_valid t"
  by (auto simp: target_at_def target_valid_def StepId_parse_def intro: parse_name_self split: if_splits)

lemma choice_at_valid:
  "choice_at p entry = Ok c \<Longrightarrow> fst c = fst entry \<and> ChoiceName_parse (fst c) = Ok (fst c) \<and> target_valid (snd c)"
  by (auto simp: choice_at_def Let_def ChoiceName_parse_def target_at_valid intro: parse_name_self dest: parse_name_same)

lemma routes_at_valid:
  assumes "routes_at node at = Ok (r, e)"
  shows "routes_valid r \<and> (\<forall>t. e = Some t \<longrightarrow> target_valid t)"
proof -
  obtain m where m: "node_fields node at [''success'', ''choices'', ''error''] = Ok m"
    and r: "(case (bt_get m ''success'', bt_get m ''choices'') of
         (Some to, None) \<Rightarrow> bindr (target_at to (child at ''success'')) (\<lambda>t. Ok (Routes_Success t))
       | (None, Some choices) \<Rightarrow>
           (let choice_path = child at ''choices'' in
            bindr (node_fields choices choice_path []) (\<lambda>entries.
            if entries = []
            then Err (Diagnostic_at ''route.choices'' ''At least one choice is required'' choice_path (node_span choices))
            else bindr (collect_items (\<lambda>_. choice_at choice_path) 0 entries) (\<lambda>cs. Ok (Routes_Choices cs))))
       | _ \<Rightarrow> Err (Diagnostic_at ''route.shape'' ''Declare exactly one of success or choices'' at (node_span node))) = Ok r"
    and e: "map_transpose (\<lambda>n. target_at n (child at ''error'')) (bt_get m ''error'') = Ok e"
    using assms unfolding routes_at_def bindr_eq_Ok by blast
  have "\<forall>t. e = Some t \<longrightarrow> target_valid t"
    using e by (auto simp: map_transpose_eq_Ok target_at_valid split: option.splits)
  moreover have "routes_valid r"
  proof (cases "bt_get m ''success''")
    case (Some to)
    then show ?thesis
      using r by (cases "bt_get m ''choices''") (auto simp: routes_valid_def target_at_valid)
  next
    case None
    then obtain choices where "bt_get m ''choices'' = Some choices"
      using r by (cases "bt_get m ''choices''") auto
    then obtain entries cs where c: "node_fields choices (child at ''choices'') [] = Ok entries" "entries \<noteq> []"
        "collect_items (\<lambda>_. choice_at (child at ''choices'')) 0 entries = Ok cs" "r = Routes_Choices cs"
      using r None by (auto simp: Let_def split: if_splits)
    then have all: "list_all2 (\<lambda>entry c. fst c = fst entry \<and> ChoiceName_parse (fst c) = Ok (fst c) \<and> target_valid (snd c)) entries cs"
      by (intro list_all2_mono [OF collect_items_all2 [OF c(3)]]) (elim exE, rule choice_at_valid)
    then have "map fst cs = map fst entries" by (induction rule: list_all2_induct) auto
    then have "bt_ok cs" using fields_facts(1) [OF c(1)] by (simp add: bt_ok_def)
    moreover have "\<forall>c \<in> set cs. ChoiceName_parse (fst c) = Ok (fst c) \<and> target_valid (snd c)"
      using all by (auto simp: list_all2_conv_all_nth all_set_conv_all_nth)
    moreover have "cs \<noteq> []" using all c(2) by auto
    ultimately show ?thesis using c(4) by (auto simp: routes_valid_def)
  qed
  ultimately show ?thesis by simp
qed

lemma inputs_at_spec:
  assumes "inputs_at node at = Ok bs"
  shows "bt_ok bs" and "(k, b) \<in> set bs \<Longrightarrow> \<exists>n. descend node k = Some n \<and> parse_binding n (child at k) = Ok b"
proof -
  obtain m where m: "node_fields node at [] = Ok m" "collect_map (\<lambda>key value. parse_binding value (child at key)) m = Ok bs"
    using assms by (auto simp: inputs_at_def)
  have ok: "bt_ok m" by (rule fields_facts [OF m(1)])
  then have bs: "map fst bs = map fst m" "list_all2 (\<lambda>kv kb. parse_binding (snd kv) (child at (fst kv)) = Ok (snd kb)) m bs"
    using m(2) by (auto simp: collect_map_eq_Ok)
  show "bt_ok bs" using ok bs(1) by (simp add: bt_ok_def)
  assume "(k, b) \<in> set bs"
  then obtain j where j: "j < length bs" "bs ! j = (k, b)" by (auto simp: in_set_conv_nth)
  then have len: "j < length m" using bs(1) by (metis length_map)
  then have "fst (m ! j) = k" using bs(1) j by (metis fst_conv nth_map)
  moreover have "parse_binding (snd (m ! j)) (child at (fst (m ! j))) = Ok b"
    using bs(2) j len by (auto simp: list_all2_conv_all_nth)
  moreover have "bt_get m (fst (m ! j)) = Some (snd (m ! j))"
    using ok len by (simp add: bt_get_iff)
  ultimately show "\<exists>n. descend node k = Some n \<and> parse_binding n (child at k) = Ok b"
    using descend_field [OF m(1)] by metis
qed

lemma rule_at_spec:
  assumes "rule_at node at = Ok r" "i < length (cases r)" "i \<le> usize_max"
  shows "\<exists>c item w. descend node ''cases'' = Some c \<and> descend c (show_nat i) = Some item \<and> descend item ''when'' = Some w
    \<and> parse_binding w (child (child (child at ''cases'') (show_nat i)) ''when'') = Ok (case_when (cases r ! i))"
proof -
  obtain m c items where m: "node_fields node at [''cases'', ''default''] = Ok m" "bt_get m ''cases'' = Some c"
      "sequence c (child at ''cases'') = Ok items" "collect_items (rule_case_at (child at ''cases'')) 0 items = Ok (cases r)"
    using assms(1) by (auto simp: rule_at_def required_def)
  then have i: "i < length items" "rule_case_at (child at ''cases'') i (items ! i) = Ok (cases r ! i)"
    using assms(2) by (auto simp: collect_items_eq_Ok)
  then obtain mc w b choice where "\<lparr>case_when = b, case_choice = choice\<rparr> = cases r ! i"
    and w: "node_fields (items ! i) (child (child at ''cases'') (show_nat i)) [''when'', ''choice''] = Ok mc"
      "bt_get mc ''when'' = Some w" "parse_binding w (child (child (child at ''cases'') (show_nat i)) ''when'') = Ok b"
    by (auto simp: rule_case_at_def required_def Let_def)
  then have b: "case_when (cases r ! i) = b" by (metis rule_case.select_convs(1))
  show ?thesis
    using descend_field [OF m(1,2)] descend_item [OF m(3) i(1) assms(3)] descend_field [OF w(1,2)] w(3) b by auto
qed

lemma repeat_at_spec:
  assumes "repeat_at node at = Ok r"
  shows "\<exists>n. descend node ''next_input'' = Some n \<and> parse_binding n (child at ''next_input'') = Ok (next_input r)"
    and "\<exists>n. descend node ''exit_when'' = Some n \<and> parse_binding n (child at ''exit_when'') = Ok (exit_when r)"
proof -
  obtain m n e where m: "node_fields node at [''next_input'', ''exit_when''] = Ok m"
      "bt_get m ''next_input'' = Some n" "parse_binding n (child at ''next_input'') = Ok (next_input r)"
      "bt_get m ''exit_when'' = Some e" "parse_binding e (child at ''exit_when'') = Ok (exit_when r)"
    using assms by (auto simp: repeat_at_def required_def)
  show "\<exists>n. descend node ''next_input'' = Some n \<and> parse_binding n (child at ''next_input'') = Ok (next_input r)"
    using descend_field [OF m(1,2)] m(3) by auto
  show "\<exists>n. descend node ''exit_when'' = Some n \<and> parse_binding n (child at ''exit_when'') = Ok (exit_when r)"
    using descend_field [OF m(1,4)] m(5) by auto
qed

section \<open>Workflows\<close>

text \<open>Every binding of a step stands in the source at the path that the analysis reads.\<close>

definition inputs_located :: "'n located_node \<Rightarrow> string \<Rightarrow> 'n step_definition \<Rightarrow> bool" where
  "inputs_located node at step \<longleftrightarrow>
     (\<forall>(k, b) \<in> set (step_inputs step). binding_at node (child (child at ''with'') k) b)"

definition rule_located :: "'n located_node \<Rightarrow> string \<Rightarrow> 'n ordered_rule \<Rightarrow> bool" where
  "rule_located node at r \<longleftrightarrow>
     (\<forall>i < length (cases r). i \<le> usize_max \<longrightarrow>
        binding_at node (child (child (child (child at ''rule'') ''cases'') (show_nat i)) ''when'') (case_when (cases r ! i)))"

definition repeat_located :: "'n located_node \<Rightarrow> string \<Rightarrow> 'n step_control \<Rightarrow> bool" where
  "repeat_located node at c \<longleftrightarrow>
     (\<forall>r. control_repeat c = Some r \<longrightarrow>
        binding_at node (child (child at ''repeat'') ''next_input'') (next_input r)
        \<and> binding_at node (child (child at ''repeat'') ''exit_when'') (exit_when r))"

definition steps_parsed :: "'n located_node \<Rightarrow> string \<Rightarrow> 'n parsed_steps \<Rightarrow> bool" where
  "steps_parsed node base acc \<longleftrightarrow>
     bt_ok (ps_steps acc) \<and> bt_ok (ps_controls acc) \<and> bt_ok (ps_rules acc)
     \<and> (\<forall>(i, step) \<in> set (ps_steps acc). StepId_parse i = Ok i \<and> step_valid step \<and> inputs_located node (child base i) step)
     \<and> (\<forall>(i, c) \<in> set (ps_controls acc). i \<in> fst ` set (ps_steps acc) \<and> repeat_located node (child base i) c)
     \<and> (\<forall>(i, r) \<in> set (ps_rules acc). i \<in> fst ` set (ps_steps acc) \<and> rule_located node (child base i) r)"

lemma set_bt_insert: "set (bt_insert k v m) \<subseteq> insert (k, v) (set m)"
  by (induction k v m rule: bt_insert.induct) auto

lemma keys_bt_insert: "fst ` set (bt_insert k v m) = insert k (fst ` set m)"
  using bt_keys_insert [of k v m] by simp

lemma control_at_located:
  assumes "control_at w m item at = Ok (Some c)" "node_fields item at allowed = Ok m" "node_at node at = Some item"
  shows "repeat_located node at c"
proof (unfold repeat_located_def, intro allI impI)
  fix r assume r: "control_repeat c = Some r"
  obtain n where n: "bt_get m ''repeat'' = Some n" "repeat_at n (child at ''repeat'') = Ok r"
    using assms(1) r by (auto simp: control_at_def map_transpose_eq_Ok split: option.splits if_splits)
  have "node_at node (child at ''repeat'') = Some n"
    using descend_field [OF assms(2) n(1)] assms(3) by (simp add: node_at_child)
  then show "binding_at node (child (child at ''repeat'') ''next_input'') (next_input r)
      \<and> binding_at node (child (child at ''repeat'') ''exit_when'') (exit_when r)"
    using repeat_at_spec [OF n(2)] by (auto simp: binding_at_def node_at_child [of node "child at ''repeat''"])
qed

lemma rule_at_located:
  assumes "rule_at n (child at ''rule'') = Ok r" "node_at node (child at ''rule'') = Some n"
  shows "rule_located node at r"
  unfolding rule_located_def
  using rule_at_spec [OF assms(1)] assms(2)
  by (fastforce simp: binding_at_def node_at_child [of _ "child _ _"])

lemma step_at_parsed:
  assumes "step_at w base entry acc = Ok acc'" "node_at node (child base (fst entry)) = Some (snd entry)"
    "steps_parsed node base acc" "fst entry \<notin> fst ` set (ps_steps acc)"
  shows "steps_parsed node base acc' \<and> fst ` set (ps_steps acc') = insert (fst entry) (fst ` set (ps_steps acc))"
proof -
  define at where "at = child base (fst entry)"
  obtain sid m type_node kind routes_node route error with_node inputs control rule where
    sid: "StepId_parse (fst entry) = Ok sid"
    and m: "node_fields (snd entry) at STEP_FIELDS = Ok m"
    and type_node: "bt_get m ''type'' = Some type_node" and routes_node: "bt_get m ''routes'' = Some routes_node"
    and kind: "checked_name type_node (child at ''type'') (\<lambda>s. ok_option (TypeName_parse s)) = Ok kind"
    and routes: "routes_at routes_node (child at ''routes'') = Ok (route, error)"
    and with_node: "bt_get m ''with'' = Some with_node"
    and inputs: "inputs_at with_node (child at ''with'') = Ok inputs"
    and control: "control_at w m (snd entry) at = Ok control"
    and rule: "map_transpose (\<lambda>n. rule_at n (child at ''rule'')) (bt_get m ''rule'') = Ok rule"
    and acc': "\<lparr>ps_steps = bt_insert sid \<lparr>step_type = kind, step_inputs = inputs, step_routes = route, final_error = error\<rparr> (ps_steps acc),
        ps_controls = (case control of None \<Rightarrow> ps_controls acc | Some c \<Rightarrow> bt_insert sid c (ps_controls acc)),
        ps_rules = (case rule of None \<Rightarrow> ps_rules acc | Some r \<Rightarrow> bt_insert sid r (ps_rules acc))\<rparr> = acc'"
    using assms(1)
    unfolding step_at_def Let_def at_def [symmetric] required_def bindr_eq_Ok map_err_eq_Ok ok_or_eq_Ok split_paired_Ex
      prod.case outcome.inject
    by (elim exE conjE) (rule that; assumption)
  have id: "sid = fst entry" "StepId_parse sid = Ok sid"
    using sid parse_name_same parse_name_self unfolding StepId_parse_def by blast+
  define step where "step = \<lparr>step_type = kind, step_inputs = inputs, step_routes = route, final_error = error\<rparr>"
  have item: "node_at node at = Some (snd entry)" using assms(2) by (simp add: at_def)
  have with_at: "node_at node (child at ''with'') = Some with_node"
    using descend_field [OF m with_node] item by (simp add: node_at_child)
  have located: "binding_at node (child (child at ''with'') k) b" if "(k, b) \<in> set inputs" for k b
    using inputs_at_spec(2) [OF inputs that] with_at by (auto simp: binding_at_def node_at_child [of _ "child _ _"])
  have "TypeName_parse kind = Ok kind"
    using kind parse_name_self by (auto simp: checked_name_eq_Ok ok_option_eq_Some TypeName_parse_def)
  moreover have "\<forall>(k, b) \<in> set inputs. \<forall>r \<in> set (references b). parsed r"
    using located parse_binding_parsed by (fastforce simp: binding_at_def)
  ultimately have valid: "step_valid step"
    using routes_at_valid [OF routes] inputs_at_spec(1) [OF inputs] by (simp add: step_valid_def step_def)
  have "inputs_located node at step"
    using located by (auto simp: inputs_located_def step_def)
  moreover have "repeat_located node at c" if "control = Some c" for c
    using control_at_located [OF _ m item] control that by simp
  moreover have "rule_located node at r" if r: "rule = Some r" for r
  proof -
    obtain n where n: "bt_get m ''rule'' = Some n" "rule_at n (child at ''rule'') = Ok r"
      using rule r by (auto simp: map_transpose_eq_Ok split: option.splits)
    then show ?thesis
      using rule_at_located [OF n(2)] descend_field [OF m n(1)] item by (simp add: node_at_child)
  qed
  ultimately show ?thesis
    using assms(3) valid id
    unfolding steps_parsed_def acc' [symmetric] at_def step_def [symmetric] id(1)
    by (auto simp: keys_bt_insert bt_ok_insert split: option.splits dest!: subsetD [OF set_bt_insert])
qed

lemma steps_at_parsed:
  assumes "steps_at w steps_node base = Ok acc" "node_at node base = Some steps_node"
  shows "steps_parsed node base acc"
proof -
  obtain m where m: "node_fields steps_node base [] = Ok m"
      "for_each (step_at w base) m \<lparr>ps_steps = [], ps_controls = [], ps_rules = []\<rparr> = Ok acc"
    using assms(1) by (auto simp: steps_at_def)
  have entry: "node_at node (child base (fst e)) = Some (snd e)" if "e \<in> set m" for e
    using descend_field [OF m(1), of "fst e" "snd e"] that fields_facts(1) [OF m(1)] assms(2)
    by (simp add: node_at_child bt_get_iff)
  have loop: "steps_parsed node base acc'"
    if "for_each (step_at w base) es s = Ok acc'" "set es \<subseteq> set m" "distinct (map fst es)"
      "steps_parsed node base s" "fst ` set (ps_steps s) \<inter> fst ` set es = {}" for es s acc'
    using that
  proof (induction es arbitrary: s)
    case (Cons e es)
    obtain s' where s': "step_at w base e s = Ok s'" "for_each (step_at w base) es s' = Ok acc'"
      using Cons.prems(1) by auto
    have "steps_parsed node base s' \<and> fst ` set (ps_steps s') = insert (fst e) (fst ` set (ps_steps s))"
      by (rule step_at_parsed [OF s'(1)]) (use Cons.prems entry in auto)
    then show ?case
      using Cons.IH [OF s'(2)] Cons.prems by auto
  qed auto
  show ?thesis
    using loop [OF m(2)] bt_ok_distinct [OF fields_facts(1) [OF m(1)]]
    by (simp add: steps_parsed_def bt_ok_def)
qed

lemma execution_limits_valid:
  assumes "execution_limits_at w node = Ok l"
  shows "0 < max_steps l \<and> max_steps l \<le> 100000 \<and> 0 < max_context_bytes l \<and> max_context_bytes l \<le> 1048576"
proof -
  obtain s b steps bytes budget where
    "positive_u32 w s ''/limits/max_steps'' 100000 = Ok steps"
    "positive_u32 w b ''/limits/max_context_bytes'' 1048576 = Ok bytes"
    "l = \<lparr>root_budget = budget, max_steps = steps, max_context_bytes = unat bytes\<rparr>"
    using assms by (auto simp: execution_limits_at_def)
  moreover from this have "0 < bytes" "bytes \<le> 1048576" "0 < steps" "steps \<le> 100000"
    using positive_u32_bounds by blast+
  ultimately show ?thesis
    by (auto simp: word_le_nat_alt word_less_nat_alt)
qed

lemma if_Err_eq_Ok: "(if c then Err e else x) = Ok r \<longleftrightarrow> \<not> c \<and> x = Ok r"
  by simp

lemma parse_workflow_parts:
  assumes "parse_workflow w decoded version = Ok p"
  obtains steps_node limits_node acc where
    "node_at (source_root decoded) ''/steps'' = Some steps_node"
    "steps_at w steps_node ''/steps'' = Ok acc" "execution_limits_at w limits_node = Ok (wf_limits (pw_definition p))"
    "wf_steps (pw_definition p) = ps_steps acc" "pw_controls p = ps_controls acc" "pw_rules p = ps_rules acc"
    "input_schema (pw_definition p) \<noteq> None" "parameter_schema (pw_definition p) \<noteq> None"
    "output_schema (pw_definition p) \<noteq> None" "StepId_parse (wf_entry (pw_definition p)) = Ok (wf_entry (pw_definition p))"
    "pw_locations p = locations (source_root decoded) [] []"
proof -
  let ?node = "source_root decoded"
  obtain m i1 i2 i3 entry_node entry steps_node limits_node acc limits wid rs where
    m: "node_fields ?node [] ROOT_FIELDS = Ok m" "bt_get m ''steps'' = Some steps_node"
    and entry_node: "bt_get m ''entry'' = Some entry_node"
    and entry: "checked_name entry_node ''/entry'' (\<lambda>s. ok_option (StepId_parse s)) = Ok entry"
    and steps: "steps_at w steps_node ''/steps'' = Ok acc" and limits: "execution_limits_at w limits_node = Ok limits"
    and p: "\<lparr>pw_definition = \<lparr>format_version = 1, workflow_id = wid, version_id = version,
            input_schema = Some i1, parameter_schema = Some i2, output_schema = Some i3,
            resources = rs, wf_entry = entry, wf_steps = ps_steps acc, wf_limits = limits\<rparr>,
          pw_controls = ps_controls acc, pw_rules = ps_rules acc,
          pw_locations = locations ?node [] []\<rparr> = p"
    using assms
    unfolding parse_workflow_def Let_def required_def bindr_eq_Ok ok_or_eq_Ok if_Err_eq_Ok outcome.inject
    by (elim exE conjE) (rule that; assumption)
  have "StepId_parse entry = Ok entry"
    using entry parse_name_self by (auto simp: checked_name_eq_Ok ok_option_eq_Some StepId_parse_def)
  moreover have "node_at ?node ''/steps'' = Some steps_node"
    using descend_field [OF m] node_at_child [of ?node "[]" "''steps''"] by (simp add: child_def escape_def)
  ultimately show ?thesis
    using that [OF _ steps] limits p by auto
qed

lemma parsed_steps_path: "StepId_parse i = Ok i \<Longrightarrow> child ''/steps'' i = ''/steps/'' @ i"
proof -
  assume "StepId_parse i = Ok i"
  then have "valid_part i" by (auto simp: StepId_parse_def parse_name_def Let_def split: if_splits)
  then have "CHR ''/'' \<notin> set i" "CHR ''~'' \<notin> set i" by (simp_all add: valid_part_no_special)
  then have "escape_segment i = i" by (induction i) auto
  then show ?thesis by (simp add: child_def escape_escape_segment)
qed

section \<open>Properties\<close>

text \<open>
  C24. A workflow that parses is well formed before any graph check: its steps are keyed by valid
  distinct names, every step has a valid type, ordered inputs whose references are all parsed, and
  a non-empty set of distinct choices where it branches; rules and child controls belong to steps;
  the schemas are present and the execution limits are within their ceilings, so that validation
  never refuses a parsed workflow for its limits, an empty choice or a repeated one.
\<close>

theorem parsed_workflows_are_well_formed:
  assumes "parse_workflow w decoded version = Ok p"
  shows "let d = pw_definition p in
      bt_ok (wf_steps d) \<and> StepId_parse (wf_entry d) = Ok (wf_entry d)
      \<and> (\<forall>(i, step) \<in> set (wf_steps d). StepId_parse i = Ok i \<and> step_valid step)
      \<and> fst ` set (pw_controls p) \<subseteq> fst ` set (wf_steps d) \<and> fst ` set (pw_rules p) \<subseteq> fst ` set (wf_steps d)
      \<and> input_schema d \<noteq> None \<and> parameter_schema d \<noteq> None \<and> output_schema d \<noteq> None
      \<and> validate_limits d = Ok ()"
proof -
  obtain steps_node limits_node acc where
    steps: "node_at (source_root decoded) ''/steps'' = Some steps_node" "steps_at w steps_node ''/steps'' = Ok acc"
    and limits: "execution_limits_at w limits_node = Ok (wf_limits (pw_definition p))"
    and p: "wf_steps (pw_definition p) = ps_steps acc" "pw_controls p = ps_controls acc" "pw_rules p = ps_rules acc"
      "input_schema (pw_definition p) \<noteq> None" "parameter_schema (pw_definition p) \<noteq> None"
      "output_schema (pw_definition p) \<noteq> None" "StepId_parse (wf_entry (pw_definition p)) = Ok (wf_entry (pw_definition p))"
    using assms by (rule parse_workflow_parts)
  have "steps_parsed (source_root decoded) ''/steps'' acc"
    using steps_at_parsed [OF steps(2,1)] .
  moreover have "validate_limits (pw_definition p) = Ok ()"
    using execution_limits_valid [OF limits]
    by (auto simp: validate_limits_def Let_def MAX_EXECUTION_STEPS_def MAX_OUTPUT_BYTES_def)
  ultimately show ?thesis
    using p by (auto simp: Let_def steps_parsed_def)
qed

text \<open>A small workflow as its author writes it, with a number type of natural numbers.\<close>

definition sample_wire_externals :: "nat wire_externals" where
  "sample_wire_externals = \<lparr>uuid_parse_str = (\<lambda>s. if s = ''w'' then Some 1 else None), as_u64 = Some\<rparr>"

definition sample_source :: "nat decoded_source" where
  "sample_source = \<lparr>source_text = [], source_root = node_of sample_span (VObject
     [(''entry'', VString ''a''), (''format_version'', VNumber 1), (''input_schema'', VObject []),
      (''limits'', VObject [(''max_context_bytes'', VNumber 1024), (''max_steps'', VNumber 3)]),
      (''output_schema'', VObject []), (''parameter_schema'', VObject []), (''resources'', VArray []),
      (''steps'', VObject [(''a'', VObject
         [(''routes'', VObject [(''success'', VString ''$end'')]), (''type'', VString ''t''),
          (''with'', VObject [(''i'', VObject [(''literal'', VNumber 7)])])])]),
      (''workflow_id'', VString ''w'')])\<rparr>"

theorem parsed_workflows_are_well_formed_witness:
  "\<exists>p. parse_workflow sample_wire_externals sample_source 2 = Ok p \<and> validate_limits (pw_definition p) = Ok ()
     \<and> map fst (wf_steps (pw_definition p)) = [''a'']"
proof -
  have parts: "valid_part ''a''" "valid_part ''t''" by code_simp+
  have input: "parse_binding (node_of s (VObject [(''literal'', VNumber (7 :: nat))])) at = Ok (Literal (VNumber 7))" for s at
    using parse_write_binding [of "Literal (VNumber 7)" s at] by (simp add: operator_node_def)
  have "\<exists>p. parse_workflow sample_wire_externals sample_source 2 = Ok p \<and> map fst (wf_steps (pw_definition p)) = [''a'']"
    by (simp add: parse_workflow_def sample_source_def fields_node_of ROOT_FIELDS_def STEP_FIELDS_def required_def Let_def
        bt_ok_def bt_get_def value_as_u64_def sample_wire_externals_def uuid_at_def checked_name_def scalar_string_def
        json_source_round_trip resources_at_def sequence_def ok_option_def parse_name_def StepId_parse_def TypeName_parse_def
        steps_at_def step_at_def routes_at_def target_at_def map_transpose_def inputs_at_def collect_map_def control_at_def
        execution_limits_at_def positive_u32_def MAX_NAME_BYTES_def parts input
        del: node_of.simps(2))
  then obtain p where p: "parse_workflow sample_wire_externals sample_source 2 = Ok p" "map fst (wf_steps (pw_definition p)) = [''a'']"
    by auto
  then show ?thesis
    using parsed_workflows_are_well_formed [OF p(1)] by (auto simp: Let_def)
qed

end
