(* ===== verification/Schema.thy ===== *)
theory Schema
  imports Source
begin

text \<open>
  JSON Schemas in the compiler: \<open>src/src/application/workflow/compiler/schema.rs\<close> and
  \<open>schema_budget.rs\<close>. Before a schema is compiled its tree, its serialized size and its
  references are bounded; afterwards the compiler reads from it which paths a valid value is sure to
  have. The validator is a library: building it, its verdicts, the meta schema, the matching of a
  pattern and the reading of a number are parameters.
\<close>

section \<open>Model\<close>

record 'n schema_externals =
  meta_is_valid :: "'n json \<Rightarrow> bool" \<comment> \<open>\<open>jsonschema::draft202012::meta::is_valid\<close>\<close>
  build_validator :: "'n json \<Rightarrow> ('n json \<Rightarrow> (string \<times> string) option) option"
    \<comment> \<open>\<open>jsonschema::options()...build\<close>: the instance and schema path of a violation, if any\<close>
  build_scoped :: "'n json \<Rightarrow> string \<Rightarrow> ('n json \<Rightarrow> bool) option"
    \<comment> \<open>the validator of the subschema at a location of a document\<close>
  schema_writer :: "'n json \<Rightarrow> string list" \<comment> \<open>\<open>serde_json::to_writer\<close>: the chunks written\<close>
  number_as_u64 :: "'n \<Rightarrow> nat option" \<comment> \<open>\<open>serde_json::Number::as_u64\<close>\<close>
  number_is_integral :: "'n \<Rightarrow> bool"
  pattern_matches :: "string \<Rightarrow> string \<Rightarrow> bool" \<comment> \<open>a regular expression and a text\<close>

subsection \<open>Values\<close>

text \<open>\<open>Value::get\<close> with a name, \<open>as_str\<close>, \<open>as_array\<close>, \<open>as_object\<close>, \<open>as_u64\<close> and \<open>pointer\<close>.\<close>

definition json_get :: "'n json \<Rightarrow> string \<Rightarrow> 'n json option" where
  "json_get v k = (case v of VObject m \<Rightarrow> bt_get m k | _ \<Rightarrow> None)"

definition as_str :: "'n json \<Rightarrow> string option" where
  "as_str v = (case v of VString s \<Rightarrow> Some s | _ \<Rightarrow> None)"

definition as_array :: "'n json \<Rightarrow> 'n json list option" where
  "as_array v = (case v of VArray vs \<Rightarrow> Some vs | _ \<Rightarrow> None)"

definition as_object :: "'n json \<Rightarrow> (string, 'n json) btree_map option" where
  "as_object v = (case v of VObject m \<Rightarrow> Some m | _ \<Rightarrow> None)"

definition json_as_u64 :: "'n schema_externals \<Rightarrow> 'n json \<Rightarrow> nat option" where
  "json_as_u64 x v = (case v of VNumber n \<Rightarrow> number_as_u64 x n | _ \<Rightarrow> None)"

definition step_into :: "'n json \<Rightarrow> string \<Rightarrow> 'n json option" where
  "step_into v token =
     (case v of
        VObject m \<Rightarrow> bt_get m token
      | VArray vs \<Rightarrow> Option.bind (canonical_array_index token) (nth_opt vs)
      | _ \<Rightarrow> None)"

primrec walk_tokens :: "'n json \<Rightarrow> string list \<Rightarrow> 'n json option" where
  "walk_tokens v [] = Some v"
| "walk_tokens v (t # ts) = Option.bind (step_into v t) (\<lambda>w. walk_tokens w ts)"

definition pointer_tokens :: "string \<Rightarrow> string list option" where
  "pointer_tokens p =
     (if p = [] then Some []
      else if hd p \<noteq> CHR ''/'' then None
      else Some (map unescape (drop 1 (split_on CHR ''/'' p))))"

text \<open>
  A reference into a document is the place it stands at and the value there: two equal values at
  different places are different references. \<open>resolve_ref\<close> is
  \<open>reference.strip_prefix('#').and_then(|path| root.pointer(path))\<close>.
\<close>

type_synonym 'n schema_ref = "string list \<times> 'n json"

definition resolve_ref :: "'n json \<Rightarrow> string \<Rightarrow> 'n schema_ref option" where
  "resolve_ref doc r =
     (case r of
        c # p \<Rightarrow>
          if c = CHR ''#''
          then Option.bind (pointer_tokens p) (\<lambda>ts. map_option (Pair ts) (walk_tokens doc ts))
          else None
      | [] \<Rightarrow> None)"

definition ref_of :: "'n json \<Rightarrow> string option" where
  "ref_of s = Option.bind (json_get s ''$ref'') as_str"

definition ref_target :: "'n json \<Rightarrow> string \<Rightarrow> 'n json option" where
  "ref_target doc r = map_option snd (resolve_ref doc r)"

subsection \<open>Bounds of a schema\<close>

definition schema_bytes_write :: "string \<Rightarrow> nat \<Rightarrow> nat option" where
  "schema_bytes_write bytes remaining = checked_sub remaining (length bytes)"

definition debit :: "nat \<Rightarrow> nat \<Rightarrow> (nat, unit) outcome" where
  "debit depth remaining = (if depth > 32 \<or> remaining = 0 then Err () else Ok (remaining - 1))"

function visit_data :: "nat \<Rightarrow> 'n json \<Rightarrow> nat \<Rightarrow> (nat, unit) outcome" where
  "visit_data depth v remaining =
     bindr (debit depth remaining) (\<lambda>left.
     (case v of
        VObject m \<Rightarrow> for_each (\<lambda>kv. visit_data (depth + 1) (snd kv)) m left
      | VArray vs \<Rightarrow> for_each (visit_data (depth + 1)) vs left
      | _ \<Rightarrow> Ok left))"
  by pat_completeness auto
termination
  by (relation "measure (\<lambda>(d, _). 33 - d)") (auto simp: debit_def split: if_splits)

definition keyword_children :: "string \<Rightarrow> 'n json \<Rightarrow> 'n json list" where
  "keyword_children keyword value =
     (if keyword \<in> {''$defs'', ''definitions'', ''properties'', ''patternProperties'', ''dependentSchemas''}
      then (case as_object value of Some sub \<Rightarrow> map snd sub | None \<Rightarrow> [])
      else if keyword \<in> {''allOf'', ''anyOf'', ''oneOf'', ''prefixItems''}
      then (case as_array value of Some vs \<Rightarrow> vs | None \<Rightarrow> [])
      else if keyword \<in> {''additionalProperties'', ''unevaluatedProperties'', ''items'', ''unevaluatedItems'',
        ''contains'', ''not'', ''if'', ''then'', ''else'', ''propertyNames''}
      then [value] else [])"

definition schema_children :: "'n json \<Rightarrow> 'n json list" where
  "schema_children s =
     (case as_object s of None \<Rightarrow> [] | Some m \<Rightarrow> concat (map (\<lambda>(keyword, value). keyword_children keyword value) m))"

definition REFERENCE_KEYWORDS :: "string list" where
  "REFERENCE_KEYWORDS = [''$ref'', ''$dynamicRef'', ''$recursiveRef'']"

function visit_schema ::
    "('n json \<Rightarrow> (unit, unit) outcome) \<Rightarrow> 'n json \<Rightarrow> nat \<Rightarrow> 'n json \<Rightarrow> nat \<Rightarrow> (nat, unit) outcome" where
  "visit_schema inspect doc depth s remaining =
     bindr (debit depth remaining) (\<lambda>left.
     bindr (inspect s) (\<lambda>_.
     (case as_object s of
        None \<Rightarrow> Ok left
      | Some m \<Rightarrow>
          (let doc' = (if bt_contains m ''$id'' then s else doc) in
           bindr (for_each (\<lambda>keyword left'.
               (case bt_get m keyword of
                  None \<Rightarrow> Ok left'
                | Some r \<Rightarrow>
                    bindr (ok_or (Option.bind (as_str r) (ref_target doc')) ()) (\<lambda>target.
                    visit_schema inspect doc' (depth + 1) target left'))) REFERENCE_KEYWORDS left) (\<lambda>left'.
           for_each (visit_schema inspect doc' (depth + 1)) (schema_children s) left')))))"
  by pat_completeness auto
termination
  by (relation "measure (\<lambda>(_, _, d, _). 33 - d)") (auto simp: debit_def split: if_splits)

declare visit_data.simps [simp del] visit_schema.simps [simp del]

definition check_resources :: "'n schema_externals \<Rightarrow> 'n json \<Rightarrow> (unit, unit) outcome" where
  "check_resources x s =
     bindr (visit_data 0 s 4096) (\<lambda>_.
     bindr (ok_or (charge_all schema_bytes_write (schema_writer x s) 65536) ()) (\<lambda>_.
     bindr (visit_schema (\<lambda>_. Ok ()) s 0 s 4096) (\<lambda>_. Ok ())))"

definition DIALECT :: string where
  "DIALECT = ''https://json-schema.org/draft/2020-12/schema''"

definition inspect_dialect :: "'n json \<Rightarrow> (unit, unit) outcome" where
  "inspect_dialect s =
     (case json_get s ''$schema'' of
        Some dialect \<Rightarrow> if as_str dialect \<noteq> Some DIALECT then Err () else Ok ()
      | None \<Rightarrow> Ok ())"

definition check_dialects :: "'n json \<Rightarrow> (unit, unit) outcome" where
  "check_dialects s = bindr (visit_schema inspect_dialect s 0 s 4096) (\<lambda>_. Ok ())"

subsection \<open>Compiled schemas\<close>

record 'n schema =
  schema_raw :: "'n json"
  schema_validator :: "'n json \<Rightarrow> (string \<times> string) option"

definition Schema_compile ::
    "'n schema_externals \<Rightarrow> 'n json \<Rightarrow> string \<Rightarrow> source_span \<Rightarrow> ('n schema, diagnostic) outcome" where
  "Schema_compile x s at span =
     bindr (map_err (\<lambda>_. Diagnostic_at ''schema.resource''
         ''Schema exceeds limits or has an external or recursive reference'' at span) (check_resources x s)) (\<lambda>_.
     bindr (map_err (\<lambda>_. Diagnostic_at ''schema.dialect'' ''Only Draft 2020-12 schemas are supported'' at span)
         (check_dialects s)) (\<lambda>_.
     if \<not> meta_is_valid x s
     then Err (Diagnostic_at ''schema.meta'' ''Schema is not valid Draft 2020-12'' at span)
     else bindr (ok_or (build_validator x s)
         (Diagnostic_at ''schema.compile'' ''Unable to compile schema'' at span)) (\<lambda>validator.
       Ok \<lparr>schema_raw = s, schema_validator = validator\<rparr>)))"

definition Schema_validate ::
    "'n schema \<Rightarrow> 'n json \<Rightarrow> string \<Rightarrow> source_span \<Rightarrow> (unit, diagnostic) outcome" where
  "Schema_validate sch v at span =
     (case schema_validator sch v of
        None \<Rightarrow> Ok ()
      | Some (instance_path, schema_path) \<Rightarrow>
          Err ((Diagnostic_at ''schema.value'' ''Value does not match schema'' at span)
            \<lparr>diag_instance_path := Some (take_chars 512 instance_path), diag_schema_path := Some (take_chars 512 schema_path)\<rparr>))"

subsection \<open>Conjunctive constraints and known emptiness\<close>

fun local_constraints_loop :: "nat \<Rightarrow> 'n json \<Rightarrow> 'n schema_ref \<Rightarrow> string btree_set \<Rightarrow> 'n schema_ref list" where
  "local_constraints_loop 0 doc current seen = []"
| "local_constraints_loop (Suc n) doc current seen =
     (case ref_of (snd current) of
        None \<Rightarrow> []
      | Some r \<Rightarrow>
          if r \<in> set seen then []
          else (case resolve_ref doc r of
              None \<Rightarrow> []
            | Some target \<Rightarrow> target # local_constraints_loop n doc target (bs_insert r seen)))"

definition local_constraints :: "'n schema_ref \<Rightarrow> 'n json \<Rightarrow> 'n schema_ref list" where
  "local_constraints s doc = s # local_constraints_loop 32 doc s []"

definition root_constraints :: "'n schema \<Rightarrow> 'n schema_ref list" where
  "root_constraints sch = local_constraints ([], schema_raw sch) (schema_raw sch)"

function known_empty :: "'n json \<Rightarrow> nat \<Rightarrow> string btree_set \<Rightarrow> 'n json \<Rightarrow> bool" where
  "known_empty doc depth seen s =
     (if s = VBool False then True
      else if depth > 32 then False
      else (case s of
          VObject m \<Rightarrow>
            (case Option.bind (bt_get m ''$ref'') as_str of
               None \<Rightarrow> False
             | Some r \<Rightarrow> r \<notin> set seen
                 \<and> (case ref_target doc r of
                      None \<Rightarrow> False | Some target \<Rightarrow> known_empty doc (depth + 1) (bs_insert r seen) target))
            \<or> (case Option.bind (bt_get m ''allOf'') as_array of
                 None \<Rightarrow> False | Some items \<Rightarrow> list_ex (known_empty doc (depth + 1) seen) items)
            \<or> list_ex (\<lambda>keyword. case Option.bind (bt_get m keyword) as_array of
                 None \<Rightarrow> False
               | Some items \<Rightarrow> items \<noteq> [] \<and> list_all (known_empty doc (depth + 1) seen) items) [''anyOf'', ''oneOf'']
        | _ \<Rightarrow> False))"
  by pat_completeness auto
termination
  by (relation "measure (\<lambda>(_, d, _). 33 - d)") auto

declare known_empty.simps [simp del]

definition is_known_empty :: "'n json \<Rightarrow> 'n json \<Rightarrow> bool" where
  "is_known_empty s doc = known_empty doc 0 [] s"

definition type_allows :: "'n json \<Rightarrow> string \<Rightarrow> bool" where
  "type_allows s kind =
     (case json_get s ''type'' of
        None \<Rightarrow> True
      | Some (VString t) \<Rightarrow> t = kind \<or> kind = ''integer'' \<and> t = ''number''
      | Some (VArray items) \<Rightarrow> list_ex (\<lambda>i. as_str i = Some kind \<or> kind = ''integer'' \<and> as_str i = Some ''number'') items
      | _ \<Rightarrow> True)"

definition type_only :: "'n json \<Rightarrow> string \<Rightarrow> bool" where
  "type_only s kind \<longleftrightarrow> Option.bind (json_get s ''type'') as_str = Some kind"

definition object_possible :: "'n schema \<Rightarrow> bool" where
  "object_possible sch =
     list_all (\<lambda>c. \<not> is_known_empty (snd c) (schema_raw sch) \<and> type_allows (snd c) ''object'') (root_constraints sch)"

definition property_schema :: "'n json \<Rightarrow> string \<Rightarrow> 'n json option" where
  "property_schema s k = Option.bind (json_get s ''properties'') (\<lambda>p. json_get p k)"

text \<open>The subschema that the compiler reads for a property.\<close>

definition child_schema :: "'n json \<Rightarrow> string \<Rightarrow> 'n json option" where
  "child_schema s k = (case property_schema s k of Some c \<Rightarrow> Some c | None \<Rightarrow> json_get s ''additionalProperties'')"

subsection \<open>Which paths a valid value has\<close>

text \<open>
  The mutual recursion of \<open>project\<close> with its helpers is over the depth: a helper receives the
  recursive call, \<open>project\<close> one level deeper, as an argument.
\<close>

datatype path_guarantee = Impossible | UnsafeTraversal | Optional | Guaranteed

type_synonym 'n projection = "'n json \<Rightarrow> string list \<Rightarrow> path_guarantee"

definition merge_alternatives :: "'n projection \<Rightarrow> 'n json list \<Rightarrow> string list \<Rightarrow> path_guarantee" where
  "merge_alternatives rec items at =
     (let results = map (\<lambda>branch. rec branch at) (filter (\<lambda>branch. branch \<noteq> VBool False) items) in
      if UnsafeTraversal \<in> set results then UnsafeTraversal
      else if \<not> (\<exists>r \<in> set results. r = Optional \<or> r = Guaranteed) then Impossible
      else if \<forall>r \<in> set results. r = Guaranteed then Guaranteed
      else Optional)"

fun merge_all :: "'n projection \<Rightarrow> 'n json list \<Rightarrow> string list \<Rightarrow> bool \<Rightarrow> path_guarantee" where
  "merge_all rec [] at guaranteed = (if guaranteed then Guaranteed else Optional)"
| "merge_all rec (branch # items) at guaranteed =
     (case rec branch at of
        Impossible \<Rightarrow> Impossible
      | UnsafeTraversal \<Rightarrow> UnsafeTraversal
      | Guaranteed \<Rightarrow> merge_all rec items at True
      | Optional \<Rightarrow> merge_all rec items at guaranteed)"

definition merge_siblings :: "'n projection \<Rightarrow> 'n json list \<Rightarrow> string list \<Rightarrow> path_guarantee \<Rightarrow> path_guarantee" where
  "merge_siblings rec items at siblings =
     (if siblings = Impossible \<or> siblings = UnsafeTraversal then siblings
      else merge_all rec items at (siblings = Guaranteed))"

definition requires :: "'n json \<Rightarrow> string \<Rightarrow> bool" where
  "requires s segment =
     (case Option.bind (json_get s ''required'') as_array of
        None \<Rightarrow> False | Some items \<Rightarrow> list_ex (\<lambda>i. as_str i = Some segment) items)"

definition project_object :: "'n projection \<Rightarrow> 'n json \<Rightarrow> string \<Rightarrow> string list \<Rightarrow> path_guarantee" where
  "project_object rec s segment rest =
     (let property = Option.bind (json_get s ''properties'') (\<lambda>p. json_get p segment);
          additional = json_get s ''additionalProperties'' in
      case (case property of Some c \<Rightarrow> Some c | None \<Rightarrow> additional) of
        None \<Rightarrow> Optional
      | Some c \<Rightarrow>
          if c = VBool False then Impossible
          else (let sub = rec c rest in
            if sub = Impossible \<or> sub = UnsafeTraversal then sub
            else if requires s segment \<and> type_only s ''object'' \<and> sub = Guaranteed then Guaranteed
            else Optional))"

definition item_schema :: "'n json \<Rightarrow> nat \<Rightarrow> 'n json option" where
  "item_schema s i =
     (case Option.bind (Option.bind (json_get s ''prefixItems'') as_array) (\<lambda>items. nth_opt items i) of
        Some c \<Rightarrow> Some c | None \<Rightarrow> json_get s ''items'')"

definition project_array :: "'n schema_externals \<Rightarrow> 'n projection \<Rightarrow> 'n json \<Rightarrow> string \<Rightarrow> string list \<Rightarrow> path_guarantee" where
  "project_array x rec s segment rest =
     (case canonical_array_index segment of
        None \<Rightarrow> Impossible
      | Some i \<Rightarrow>
          if (case Option.bind (json_get s ''maxItems'') (json_as_u64 x) of Some upper \<Rightarrow> i \<ge> upper | None \<Rightarrow> False)
          then Impossible
          else (case item_schema s i of
              None \<Rightarrow> Optional
            | Some c \<Rightarrow>
                if c = VBool False then Impossible
                else (let sub = rec c rest in
                  if sub = Impossible \<or> sub = UnsafeTraversal then sub
                  else (let lower = (case Option.bind (json_get s ''minItems'') (json_as_u64 x) of Some n \<Rightarrow> n | None \<Rightarrow> 0) in
                    if type_only s ''array'' \<and> lower > i \<and> sub = Guaranteed then Guaranteed else Optional))))"

definition scalar_possible :: "'n json \<Rightarrow> bool" where
  "scalar_possible s =
     (case json_get s ''type'' of
        Some (VString t) \<Rightarrow> t \<noteq> ''object'' \<and> t \<noteq> ''array''
      | Some (VArray items) \<Rightarrow> list_ex (\<lambda>i. as_str i \<noteq> Some ''object'' \<and> as_str i \<noteq> Some ''array'') items
      | _ \<Rightarrow> False)"

definition project_container :: "'n schema_externals \<Rightarrow> 'n projection \<Rightarrow> 'n json \<Rightarrow> string \<Rightarrow> string list \<Rightarrow> path_guarantee" where
  "project_container x rec s segment rest =
     (let possible = (if type_allows s ''object'' then project_object rec s segment rest else Impossible);
          indexed = (if type_allows s ''array'' then project_array x rec s segment rest else Impossible);
          combined = (if possible = Impossible then indexed
            else if indexed = Impossible then possible
            else if possible = Guaranteed \<and> indexed = Guaranteed then Guaranteed
            else Optional)
      in if scalar_possible s then UnsafeTraversal else combined)"

definition array_keyword :: "(string, 'n json) btree_map \<Rightarrow> string \<Rightarrow> 'n json list option" where
  "array_keyword m keyword = Option.bind (bt_get m keyword) as_array"

function project :: "'n schema_externals \<Rightarrow> 'n json \<Rightarrow> nat \<Rightarrow> string btree_set \<Rightarrow> 'n projection" where
  "project x doc depth seen s at =
     (if depth > 32 \<or> s = VBool False then Impossible
      else (case at of
          [] \<Rightarrow> Guaranteed
        | segment # rest \<Rightarrow>
            (case s of
               VObject m \<Rightarrow>
                 (case Option.bind (bt_get m ''$ref'') as_str of
                    Some r \<Rightarrow>
                      if r \<in> set seen then Optional
                      else (case ref_target doc r of
                          None \<Rightarrow> Optional
                        | Some target \<Rightarrow> project x doc (depth + 1) (bs_insert r seen) target at)
                  | None \<Rightarrow>
                      (case (array_keyword m ''anyOf'', array_keyword m ''oneOf'', array_keyword m ''allOf'') of
                         (Some items, _, _) \<Rightarrow> merge_alternatives (project x doc (depth + 1) seen) items at
                       | (None, Some items, _) \<Rightarrow> merge_alternatives (project x doc (depth + 1) seen) items at
                       | (None, None, Some items) \<Rightarrow>
                           merge_siblings (project x doc (depth + 1) seen) items at
                             (project_container x (project x doc (depth + 1) seen) s segment rest)
                       | (None, None, None) \<Rightarrow> project_container x (project x doc (depth + 1) seen) s segment rest))
             | _ \<Rightarrow> Optional)))"
  by pat_completeness auto
termination
  by (relation "measure (\<lambda>(_, _, d, _). 33 - d)") auto

declare project.simps [simp del]

definition guarantees :: "'n schema_externals \<Rightarrow> 'n schema \<Rightarrow> string list \<Rightarrow> path_guarantee" where
  "guarantees x sch at = project x (schema_raw sch) 0 [] (schema_raw sch) at"

subsection \<open>Literals against a subschema\<close>

text \<open>
  \<open>schema_location\<close> searches the document depth first for the place of a reference, and spells the
  way as a percent-encoded pointer; the search visits at most 4096 nodes.
\<close>

definition encode_pointer_byte :: "char \<Rightarrow> string" where
  "encode_pointer_byte c =
     (if c = CHR ''~'' then ''~0''
      else if c = CHR ''/'' then ''~1''
      else if is_ascii_alphanumeric c \<or> c \<in> {CHR ''-'', CHR ''.'', CHR ''_''} then [c]
      else (let b = (of_char c :: nat) in [CHR ''%'', ''0123456789ABCDEF'' ! (b div 16), ''0123456789ABCDEF'' ! (b mod 16)]))"

definition encode_pointer_token :: "string \<Rightarrow> string" where
  "encode_pointer_token token = concat (map encode_pointer_byte token)"

fun find_child ::
    "('c \<Rightarrow> nat \<Rightarrow> (string option \<times> nat)) \<Rightarrow> 'c list \<Rightarrow> nat \<Rightarrow> string option \<times> nat" where
  "find_child visit [] remaining = (None, remaining)"
| "find_child visit (c # cs) remaining =
     (case visit c remaining of (Some found, left) \<Rightarrow> (Some found, left) | (None, left) \<Rightarrow> find_child visit cs left)"

lemma find_child_cong [fundef_cong]:
  "cs = ds \<Longrightarrow> n = m \<Longrightarrow> (\<And>c k. c \<in> set ds \<Longrightarrow> f c k = g c k) \<Longrightarrow> find_child f cs n = find_child g ds m"
proof (induction ds arbitrary: cs n m)
  case (Cons d ds)
  then show ?case by (auto split: prod.splits option.splits)
qed simp

lemma size_enumerate [termination_simp]:
  "(i, w) \<in> set (enumerate n vs) \<Longrightarrow> size w < Suc (size_list size vs)"
  by (metis enumerate_eq_zip less_Suc_eq_le order_refl set_zip_rightD size_list_estimation')

fun find_location :: "'n json \<Rightarrow> string list \<Rightarrow> string list \<Rightarrow> string \<Rightarrow> nat \<Rightarrow> string option \<times> nat" where
  "find_location v here target at remaining =
     (if remaining = 0 then (None, 0)
      else if here = target then (Some at, remaining - 1)
      else (case v of
          VObject m \<Rightarrow>
            find_child (\<lambda>(name, w). find_location w (here @ [name]) target (at @ ''/'' @ encode_pointer_token name)) m (remaining - 1)
        | VArray vs \<Rightarrow>
            find_child (\<lambda>(i, w). find_location w (here @ [show_nat i]) target (at @ ''/'' @ show_nat i))
              (enumerate 0 vs) (remaining - 1)
        | _ \<Rightarrow> (None, remaining - 1)))"

declare find_location.simps [simp del]

definition schema_location :: "'n json \<Rightarrow> 'n schema_ref \<Rightarrow> string option" where
  "schema_location doc target = fst (find_location doc [] (fst target) [] 4096)"

definition validate_known_literal ::
    "'n schema_externals \<Rightarrow> 'n schema_ref \<Rightarrow> 'n json \<Rightarrow> 'n json \<Rightarrow> string \<Rightarrow> source_span \<Rightarrow> (unit, diagnostic) outcome" where
  "validate_known_literal x s doc v at span =
     bindr (ok_or (schema_location doc s)
       (Diagnostic_at ''schema.compile'' ''Unable to locate destination schema'' at span)) (\<lambda>location.
     bindr (ok_or (build_scoped x doc location)
       (Diagnostic_at ''schema.compile'' ''Unable to compile scoped schema'' at span)) (\<lambda>validator.
     if validator v then Ok ()
     else Err (Diagnostic_at ''binding.type'' ''Literal does not match destination schema'' at span)))"

section \<open>What a schema demands\<close>

text \<open>
  The assertions of Draft 2020-12 that the compiler reads, as conditions that every valid value
  satisfies. \<open>P\<close> judges a subschema against a part of the value. A property that
  \<open>properties\<close> names or a pattern of \<open>patternProperties\<close> matches is not an additional one.
\<close>

definition kind_matches :: "'n schema_externals \<Rightarrow> 'n json \<Rightarrow> string \<Rightarrow> bool" where
  "kind_matches x v t =
     (case v of
        VNull \<Rightarrow> t = ''null'' | VBool _ \<Rightarrow> t = ''boolean'' | VString _ \<Rightarrow> t = ''string''
      | VArray _ \<Rightarrow> t = ''array'' | VObject _ \<Rightarrow> t = ''object''
      | VNumber n \<Rightarrow> t = ''number'' \<or> t = ''integer'' \<and> number_is_integral x n)"

definition type_holds :: "'n schema_externals \<Rightarrow> 'n json \<Rightarrow> 'n json \<Rightarrow> bool" where
  "type_holds x types v =
     (case types of
        VString t \<Rightarrow> kind_matches x v t
      | VArray items \<Rightarrow> list_ex (\<lambda>i. case as_str i of None \<Rightarrow> False | Some t \<Rightarrow> kind_matches x v t) items
      | _ \<Rightarrow> True)"

definition matched_schemas :: "'n schema_externals \<Rightarrow> 'n json \<Rightarrow> string \<Rightarrow> 'n json list" where
  "matched_schemas x s k =
     (case Option.bind (json_get s ''patternProperties'') as_object of
        None \<Rightarrow> [] | Some ps \<Rightarrow> map snd (filter (\<lambda>p. pattern_matches x (fst p) k) ps))"

definition property_schemas :: "'n schema_externals \<Rightarrow> 'n json \<Rightarrow> string \<Rightarrow> 'n json list" where
  "property_schemas x s k =
     (let named = (case property_schema s k of None \<Rightarrow> [] | Some c \<Rightarrow> [c]) @ matched_schemas x s k in
      if named \<noteq> [] then named
      else (case json_get s ''additionalProperties'' of None \<Rightarrow> [] | Some c \<Rightarrow> [c]))"

definition object_holds ::
    "'n schema_externals \<Rightarrow> ('n json \<Rightarrow> 'n json \<Rightarrow> bool) \<Rightarrow> 'n json \<Rightarrow> (string, 'n json) btree_map \<Rightarrow> bool" where
  "object_holds x P s m \<longleftrightarrow>
     (case Option.bind (json_get s ''required'') as_array of
        None \<Rightarrow> True
      | Some items \<Rightarrow> list_all (\<lambda>i. case as_str i of None \<Rightarrow> True | Some k \<Rightarrow> bt_contains m k) items)
     \<and> list_all (\<lambda>(k, w). list_all (\<lambda>c. P c w) (property_schemas x s k)) m"

definition array_holds ::
    "'n schema_externals \<Rightarrow> ('n json \<Rightarrow> 'n json \<Rightarrow> bool) \<Rightarrow> 'n json \<Rightarrow> 'n json list \<Rightarrow> bool" where
  "array_holds x P s vs \<longleftrightarrow>
     (case Option.bind (json_get s ''minItems'') (json_as_u64 x) of None \<Rightarrow> True | Some n \<Rightarrow> n \<le> length vs)
     \<and> (case Option.bind (json_get s ''maxItems'') (json_as_u64 x) of None \<Rightarrow> True | Some n \<Rightarrow> length vs \<le> n)
     \<and> list_all (\<lambda>(i, w). case item_schema s i of None \<Rightarrow> True | Some c \<Rightarrow> P c w) (enumerate 0 vs)"

definition some_branch :: "('n json \<Rightarrow> 'n json \<Rightarrow> bool) \<Rightarrow> 'n json \<Rightarrow> 'n json option \<Rightarrow> bool" where
  "some_branch P v items = (case Option.bind items as_array of None \<Rightarrow> True | Some bs \<Rightarrow> list_ex (\<lambda>b. P b v) bs)"

definition keywords_hold ::
    "'n schema_externals \<Rightarrow> 'n json \<Rightarrow> ('n json \<Rightarrow> 'n json \<Rightarrow> bool) \<Rightarrow> 'n json \<Rightarrow> 'n json \<Rightarrow> bool" where
  "keywords_hold x doc P s v \<longleftrightarrow>
     (case json_get s ''type'' of None \<Rightarrow> True | Some t \<Rightarrow> type_holds x t v)
     \<and> (case Option.bind (ref_of s) (ref_target doc) of None \<Rightarrow> True | Some t \<Rightarrow> P t v)
     \<and> (case Option.bind (json_get s ''allOf'') as_array of None \<Rightarrow> True | Some bs \<Rightarrow> list_all (\<lambda>b. P b v) bs)
     \<and> some_branch P v (json_get s ''anyOf'') \<and> some_branch P v (json_get s ''oneOf'')
     \<and> (case v of VObject m \<Rightarrow> object_holds x P s m | VArray vs \<Rightarrow> array_holds x P s vs | _ \<Rightarrow> True)"

lemma keywords_hold_mono [mono]:
  assumes "\<And>s v. P s v \<longrightarrow> Q s v"
  shows "keywords_hold x doc P s v \<longrightarrow> keywords_hold x doc Q s v"
proof -
  have branch: "some_branch P v items \<Longrightarrow> some_branch Q v items" for items
    using assms by (auto simp: some_branch_def list_ex_iff split: option.splits)
  have object: "object_holds x P s m \<Longrightarrow> object_holds x Q s m" for m
    using assms by (fastforce simp: object_holds_def list_all_iff split: option.splits)
  have array: "array_holds x P s vs \<Longrightarrow> array_holds x Q s vs" for vs
    using assms by (fastforce simp: array_holds_def list_all_iff split: option.splits)
  show ?thesis
    using assms by (auto simp: keywords_hold_def list_all_iff branch split: option.splits json.splits dest: object array)
qed

text \<open>
  The values that satisfy a schema of the document \<open>doc\<close>: the largest relation in which a schema is
  \<open>true\<close> or an object whose keywords hold. The executable \<open>conforms_within\<close> unfolds it a number of times.
\<close>

coinductive conforms :: "'n schema_externals \<Rightarrow> 'n json \<Rightarrow> 'n json \<Rightarrow> 'n json \<Rightarrow> bool" for x doc where
  conforms_true: "conforms x doc (VBool True) v"
| conforms_object: "keywords_hold x doc (conforms x doc) (VObject m) v \<Longrightarrow> conforms x doc (VObject m) v"

inductive_simps conforms_simps [simp]:
  "conforms x doc (VBool b) v"
  "conforms x doc (VObject m) v"

inductive_cases conformsE: "conforms x doc s v"

fun conforms_within :: "nat \<Rightarrow> 'n schema_externals \<Rightarrow> 'n json \<Rightarrow> 'n json \<Rightarrow> 'n json \<Rightarrow> bool" where
  "conforms_within 0 x doc s v = False"
| "conforms_within (Suc n) x doc s v =
     (case s of
        VBool b \<Rightarrow> b
      | VObject m \<Rightarrow> keywords_hold x doc (conforms_within n x doc) s v
      | _ \<Rightarrow> False)"

lemma conforms_within_sound: "conforms_within n x doc s v \<Longrightarrow> conforms x doc s v"
proof (coinduction arbitrary: n s v)
  case conforms
  then obtain k where k: "n = Suc k" by (cases n) auto
  have "keywords_hold x doc (\<lambda>s v. (\<exists>n. conforms_within n x doc s v) \<or> conforms x doc s v) s v"
    if "keywords_hold x doc (conforms_within k x doc) s v"
    using keywords_hold_mono [of "conforms_within k x doc" "\<lambda>s v. (\<exists>n. conforms_within n x doc s v) \<or> conforms x doc s v"] that
    by blast
  then show ?case
    using conforms k by (auto split: json.splits)
qed

section \<open>Lemmas\<close>

lemma json_views:
  "as_array v = Some vs \<longleftrightarrow> v = VArray vs" "as_object v = Some m \<longleftrightarrow> v = VObject m" "as_str v = Some t \<longleftrightarrow> v = VString t"
  by (cases v; simp add: as_array_def as_object_def as_str_def)+

lemma json_get_True [simp]: "json_get (VBool b) k = None"
  by (simp add: json_get_def)

subsection \<open>Parts of a document\<close>

fun every_object :: "((string, 'n json) btree_map \<Rightarrow> bool) \<Rightarrow> 'n json \<Rightarrow> bool" where
  "every_object Q (VObject m) = (Q m \<and> list_all (\<lambda>kv. every_object Q (snd kv)) m)"
| "every_object Q (VArray vs) = list_all (every_object Q) vs"
| "every_object Q _ = True"

lemma every_object_get: "every_object Q s \<Longrightarrow> json_get s k = Some c \<Longrightarrow> every_object Q c"
  by (auto simp: json_get_def list_all_iff dest!: bt_get_in_set split: json.splits)

lemma every_object_array: "every_object Q s \<Longrightarrow> as_array s = Some vs \<Longrightarrow> c \<in> set vs \<Longrightarrow> every_object Q c"
  by (auto simp: as_array_def list_all_iff split: json.splits)

lemma every_object_step: "every_object Q s \<Longrightarrow> step_into s t = Some c \<Longrightarrow> every_object Q c"
  by (auto simp: step_into_def list_all_iff nth_opt_def dest!: bt_get_in_set split: json.splits bind_splits if_splits)

lemma every_object_walk: "every_object Q s \<Longrightarrow> walk_tokens s ts = Some c \<Longrightarrow> every_object Q c"
  by (induction ts arbitrary: s) (auto split: bind_splits dest: every_object_step)

lemma every_object_target: "every_object Q doc \<Longrightarrow> ref_target doc r = Some t \<Longrightarrow> every_object Q t"
  by (auto simp: ref_target_def resolve_ref_def dest: every_object_walk split: list.splits if_splits bind_splits)

text \<open>
  No schema of the document has both \<open>additionalProperties\<close> and \<open>patternProperties\<close>: there the
  compiler, which reads no patterns, and Draft 2020-12 agree on the schema of a property.
\<close>

definition patterns_apart :: "'n json \<Rightarrow> bool" where
  "patterns_apart = every_object (\<lambda>m. bt_contains m ''additionalProperties'' \<longrightarrow> \<not> bt_contains m ''patternProperties'')"

text \<open>
  No subschema but the document itself opens a resource of its own with \<open>$id\<close>: there the compiler,
  which resolves every reference at the root of the document, and Draft 2020-12, which resolves it at
  the nearest enclosing \<open>$id\<close>, agree on the target of a reference.
\<close>

definition ids_at_root :: "'n json \<Rightarrow> bool" where
  "ids_at_root doc \<longleftrightarrow>
     (case doc of
        VObject m \<Rightarrow> list_all (\<lambda>kv. every_object (\<lambda>m. \<not> bt_contains m ''$id'') (snd kv)) m
      | _ \<Rightarrow> every_object (\<lambda>m. \<not> bt_contains m ''$id'') doc)"

lemma apart_get: "patterns_apart s \<Longrightarrow> json_get s k = Some c \<Longrightarrow> patterns_apart c"
  unfolding patterns_apart_def by (rule every_object_get)

lemma apart_branch:
  "patterns_apart s \<Longrightarrow> Option.bind (json_get s k) as_array = Some bs \<Longrightarrow> b \<in> set bs \<Longrightarrow> patterns_apart b"
  unfolding patterns_apart_def by (auto split: bind_splits intro: every_object_array every_object_get)

lemma apart_target: "patterns_apart doc \<Longrightarrow> ref_target doc r = Some t \<Longrightarrow> patterns_apart t"
  unfolding patterns_apart_def by (rule every_object_target)

lemma apart_child_schema:
  assumes "patterns_apart s" "child_schema s k = Some c"
  shows "patterns_apart c" and "c \<in> set (property_schemas x s k)"
proof -
  show "patterns_apart c"
    using assms by (auto simp: child_schema_def property_schema_def split: option.splits bind_splits
        intro: apart_get [of s "''additionalProperties''"] apart_get [OF apart_get [of s "''properties''"]])
  have "matched_schemas x s k = []" if "json_get s ''additionalProperties'' = Some d" for d
    using that assms(1)
    by (cases s) (auto simp: matched_schemas_def json_get_def patterns_apart_def bt_contains_def split: option.splits bind_splits)
  then show "c \<in> set (property_schemas x s k)"
    using assms(2) by (auto simp: child_schema_def property_schemas_def split: option.splits)
qed

lemma apart_item_schema:
  assumes "patterns_apart s" "item_schema s i = Some c"
  shows "patterns_apart c"
proof (cases "Option.bind (Option.bind (json_get s ''prefixItems'') as_array) (\<lambda>items. nth_opt items i)")
  case None
  then show ?thesis using assms apart_get [OF assms(1)] by (simp add: item_schema_def)
next
  case (Some d)
  then obtain items where "Option.bind (json_get s ''prefixItems'') as_array = Some items" "i < length items" "d = items ! i"
    by (auto simp: nth_opt_def bind_eq_Some_conv split: if_splits)
  then have "patterns_apart d"
    using apart_branch [OF assms(1), of "''prefixItems''" items d] by simp
  then show ?thesis
    using assms(2) Some by (simp add: item_schema_def)
qed

subsection \<open>Guaranteed paths\<close>

lemma merge_all_Guaranteed:
  "merge_all rec items at g = Guaranteed \<Longrightarrow> g \<or> (\<exists>b \<in> set items. rec b at = Guaranteed)"
  by (induction rec items at g rule: merge_all.induct) (auto split: path_guarantee.splits if_splits)

lemma merge_alternatives_Guaranteed:
  assumes "merge_alternatives rec items at = Guaranteed" "b \<in> set items" "b \<noteq> VBool False"
  shows "rec b at = Guaranteed"
  using assms by (auto simp: merge_alternatives_def Let_def split: if_splits)

lemma project_object_Guaranteed:
  assumes "project_object rec s segment rest = Guaranteed"
  shows "\<exists>c. child_schema s segment = Some c \<and> rec c rest = Guaranteed \<and> requires s segment \<and> type_only s ''object''"
  using assms
  by (auto simp: project_object_def child_schema_def property_schema_def Let_def split: option.splits if_splits)

lemma project_array_Guaranteed:
  assumes "project_array x rec s segment rest = Guaranteed"
  shows "\<exists>i c n. canonical_array_index segment = Some i \<and> item_schema s i = Some c \<and> rec c rest = Guaranteed
    \<and> type_only s ''array'' \<and> Option.bind (json_get s ''minItems'') (json_as_u64 x) = Some n \<and> i < n"
  using assms by (auto simp: project_array_def Let_def split: option.splits if_splits)

lemma project_container_Guaranteed:
  assumes "project_container x rec s segment rest = Guaranteed"
  shows "project_object rec s segment rest = Guaranteed \<or> project_array x rec s segment rest = Guaranteed"
  using assms by (auto simp: project_container_def Let_def split: if_splits)

subsection \<open>Known emptiness\<close>

lemma known_empty_cases:
  assumes "known_empty doc depth seen (VObject m)"
  obtains (ref) r t where "ref_of (VObject m) = Some r" "ref_target doc r = Some t"
      "known_empty doc (depth + 1) (bs_insert r seen) t" "depth \<le> 32"
  | (all) items b where "Option.bind (json_get (VObject m) ''allOf'') as_array = Some items" "b \<in> set items"
      "known_empty doc (depth + 1) seen b" "depth \<le> 32"
  | (some) k items where "k = ''anyOf'' \<or> k = ''oneOf''" "Option.bind (json_get (VObject m) k) as_array = Some items"
      "list_all (known_empty doc (depth + 1) seen) items" "depth \<le> 32"
proof -
  have get: "json_get (VObject m) k = bt_get m k" for k by (simp add: json_get_def)
  have depth: "depth \<le> 32"
    and "(\<exists>r t. ref_of (VObject m) = Some r \<and> ref_target doc r = Some t \<and> known_empty doc (depth + 1) (bs_insert r seen) t)
      \<or> (\<exists>items b. Option.bind (bt_get m ''allOf'') as_array = Some items \<and> b \<in> set items \<and> known_empty doc (depth + 1) seen b)
      \<or> (\<exists>k items. (k = ''anyOf'' \<or> k = ''oneOf'') \<and> Option.bind (bt_get m k) as_array = Some items
          \<and> list_all (known_empty doc (depth + 1) seen) items)"
    using assms [unfolded known_empty.simps [of doc depth seen "VObject m"]]
    by (auto simp: get ref_of_def list_ex_iff split: if_splits option.splits)
  then show thesis
    unfolding get [symmetric] using ref all some by blast
qed

section \<open>Validators\<close>

text \<open>
  What the compiler relies on in a validator of the schemas of one document in which no subschema has
  a \<open>$id\<close> (\<open>ids_at_root\<close>): an accepted value satisfies the keywords of the schema, its parts those
  of the subschemas, and a local reference leads to its place in the document. The laws below are
  consequences, and \<open>conforms\<close> is the largest such judgement.
\<close>

locale schema_judgement =
  fixes x :: "'n schema_externals"
    and doc :: "'n json"
    and judge :: "'n json \<Rightarrow> 'n json \<Rightarrow> bool"
  assumes judgeE: "judge s v \<Longrightarrow> (s = VBool True \<Longrightarrow> thesis)
    \<Longrightarrow> (\<And>m. s = VObject m \<Longrightarrow> keywords_hold x doc judge (VObject m) v \<Longrightarrow> thesis) \<Longrightarrow> thesis"
begin

lemma judged_keywords: "judge s v \<Longrightarrow> s = VBool True \<or> keywords_hold x doc judge s v"
  by (erule judgeE) auto

lemma judged_not_false [simp]: "\<not> judge (VBool False) v"
  by (auto elim: judgeE)

lemma judged_ref:
  assumes "judge s v" "ref_of s = Some r" "ref_target doc r = Some t"
  shows "judge t v"
proof -
  have "s \<noteq> VBool True" using assms(2) by (auto simp: ref_of_def)
  then show ?thesis
    using judged_keywords [OF assms(1)] assms(2,3) by (simp add: keywords_hold_def)
qed

lemma judged_all:
  assumes "judge s v" "Option.bind (json_get s ''allOf'') as_array = Some bs" "b \<in> set bs"
  shows "judge b v"
  using judged_keywords [OF assms(1)] assms(2,3) by (auto simp: keywords_hold_def list_all_iff)

lemma judged_some:
  assumes "judge s v" "Option.bind (json_get s k) as_array = Some bs" "k = ''anyOf'' \<or> k = ''oneOf''"
  obtains b where "b \<in> set bs" "judge b v"
proof -
  have "some_branch judge v (json_get s k)"
    using judged_keywords [OF assms(1)] assms(2,3) by (auto simp: keywords_hold_def)
  then show ?thesis
    using assms(2) that by (auto simp: some_branch_def list_ex_iff split: option.splits)
qed

lemma judged_type:
  assumes "judge s v" "json_get s ''type'' = Some t"
  shows "type_holds x t v"
  using judged_keywords [OF assms(1)] assms(2) by (auto simp: keywords_hold_def)

lemma judged_type_only:
  assumes "judge s v" "type_only s kind"
  shows "kind_matches x v kind"
proof -
  have "json_get s ''type'' = Some (VString kind)"
    using assms(2) by (auto simp: type_only_def as_str_def split: json.splits option.splits bind_splits)
  then show ?thesis using judged_type [OF assms(1)] by (simp add: type_holds_def)
qed

lemma judged_object: "judge s (VObject m) \<Longrightarrow> s = VBool True \<or> object_holds x judge s m"
  using judged_keywords [of s "VObject m"] by (auto simp: keywords_hold_def)

lemma judged_array: "judge s (VArray vs) \<Longrightarrow> s = VBool True \<or> array_holds x judge s vs"
  using judged_keywords [of s "VArray vs"] by (auto simp: keywords_hold_def)

lemma judged_required:
  assumes "judge s (VObject m)" "requires s k"
  shows "bt_contains m k"
  using judged_object [OF assms(1)] assms(2)
  by (auto simp: object_holds_def requires_def list_all_iff list_ex_iff split: option.splits)

lemma judged_property:
  assumes "judge s (VObject m)" "bt_get m k = Some w" "c \<in> set (property_schemas x s k)"
  shows "judge c w"
  using judged_object [OF assms(1)] assms(3) bt_get_in_set [OF assms(2)]
  by (auto simp: object_holds_def list_all_iff property_schemas_def property_schema_def matched_schemas_def)

lemma judged_item:
  assumes "judge s (VArray vs)" "i < length vs" "item_schema s i = Some c"
  shows "judge c (vs ! i)"
proof -
  have "(i, vs ! i) \<in> set (enumerate 0 vs)"
    using assms(2) by (force simp: enumerate_eq_zip set_zip)
  then show ?thesis
    using judged_array [OF assms(1)] assms(3)
    by (auto simp: array_holds_def list_all_iff item_schema_def split: option.splits)
qed

lemma judged_min_items:
  assumes "judge s (VArray vs)" "Option.bind (json_get s ''minItems'') (json_as_u64 x) = Some n"
  shows "n \<le> length vs"
  using judged_array [OF assms(1)] assms(2) by (auto simp: array_holds_def)

lemma container_sound:
  assumes found: "project_container x rec s segment rest = Guaranteed"
    and ok: "judge s v" "patterns_apart s"
    and rec: "\<And>c w. rec c rest = Guaranteed \<Longrightarrow> judge c w \<Longrightarrow> patterns_apart c \<Longrightarrow> \<exists>u. lookup w rest ptr = Ok u"
  shows "\<exists>u. lookup v (segment # rest) ptr = Ok u"
  using project_container_Guaranteed [OF found]
proof
  assume "project_object rec s segment rest = Guaranteed"
  then obtain c where c: "child_schema s segment = Some c" "rec c rest = Guaranteed" "requires s segment" "type_only s ''object''"
    using project_object_Guaranteed by blast
  obtain m where v: "v = VObject m"
    using judged_type_only [OF ok(1) c(4)] by (auto simp: kind_matches_def split: json.splits)
  then obtain w where w: "bt_get m segment = Some w"
    using judged_required [OF ok(1) [unfolded v] c(3)] by (auto simp: bt_contains_def)
  have "judge c w"
    using judged_property [OF ok(1) [unfolded v] w apart_child_schema(2) [OF ok(2) c(1)]] .
  then show ?thesis
    using rec [OF c(2) _ apart_child_schema(1) [OF ok(2) c(1)]] w v by auto
next
  assume "project_array x rec s segment rest = Guaranteed"
  then obtain i c n where c: "canonical_array_index segment = Some i" "item_schema s i = Some c" "rec c rest = Guaranteed"
      "type_only s ''array''" "Option.bind (json_get s ''minItems'') (json_as_u64 x) = Some n" "i < n"
    using project_array_Guaranteed by blast
  obtain vs where v: "v = VArray vs"
    using judged_type_only [OF ok(1) c(4)] by (auto simp: kind_matches_def split: json.splits)
  have i: "i < length vs"
    using judged_min_items [OF ok(1) [unfolded v] c(5)] c(6) by simp
  show ?thesis
    using rec [OF c(3) judged_item [OF ok(1) [unfolded v] i c(2)] apart_item_schema [OF ok(2) c(2)]] i c(1) v
    by (auto simp: nth_opt_def)
qed

lemma project_sound:
  assumes "project x doc depth seen s at = Guaranteed" "judge s v" "patterns_apart s" "patterns_apart doc"
  shows "\<exists>u. lookup v at ptr = Ok u"
  using assms
proof (induction "33 - depth" arbitrary: depth seen s at v rule: less_induct)
  case less
  show ?case
  proof (cases at)
    case (Cons segment rest)
    have depth: "depth \<le> 32" "s \<noteq> VBool False"
      using less.prems(1) by (auto simp: project.simps split: if_splits)
    then have deeper: "33 - (depth + 1) < 33 - depth" by simp
    note IH = less.hyps [OF deeper]
    obtain m where s: "s = VObject m"
      using less.prems(1,2) depth Cons by (cases rule: judgeE) (auto simp: project.simps)
    let ?rec = "project x doc (depth + 1) seen"
    have alternatives: ?thesis
      if keyword: "array_keyword m k = Some items" "k = ''anyOf'' \<or> k = ''oneOf''"
        and merged: "merge_alternatives ?rec items at = Guaranteed" for k items
    proof -
      have items: "Option.bind (json_get s k) as_array = Some items"
        using keyword(1) s by (simp add: array_keyword_def json_get_def)
      then obtain b where b: "b \<in> set items" "judge b v"
        using judged_some [OF less.prems(2) _ keyword(2)] by blast
      then have "?rec b at = Guaranteed"
        using merge_alternatives_Guaranteed [OF merged b(1)] by (cases "b = VBool False") auto
      then show ?thesis
        using IH b apart_branch [OF less.prems(3) items] less.prems(4) by blast
    qed
    have container: ?thesis if "project_container x ?rec s segment rest = Guaranteed"
      unfolding Cons using that less.prems(2,3)
    proof (rule container_sound)
      show "\<exists>u. lookup w rest ptr = Ok u" if "?rec c rest = Guaranteed" "judge c w" "patterns_apart c" for c w
        using IH that less.prems(4) by blast
    qed
    have conjunction: ?thesis
      if keyword: "array_keyword m ''allOf'' = Some items" and merged: "merge_siblings ?rec items at (project_container x ?rec s segment rest) = Guaranteed" for items
    proof -
      have items: "Option.bind (json_get s ''allOf'') as_array = Some items"
        using keyword s by (simp add: array_keyword_def json_get_def)
      consider "project_container x ?rec s segment rest = Guaranteed" | b where "b \<in> set items" "?rec b at = Guaranteed"
        using merged by (auto simp: merge_siblings_def split: if_splits dest!: merge_all_Guaranteed)
      then show ?thesis
      proof cases
        case 2
        then show ?thesis
          using IH judged_all [OF less.prems(2) items] apart_branch [OF less.prems(3) items] less.prems(4) by blast
      qed (rule container)
    qed
    show ?thesis
    proof (cases "Option.bind (bt_get m ''$ref'') as_str")
      case (Some r)
      then obtain t where t: "ref_target doc r = Some t" "project x doc (depth + 1) (bs_insert r seen) t at = Guaranteed"
        using less.prems(1) depth s Cons
        by (auto simp: project.simps [of x doc depth] split: if_splits option.splits)
      have "ref_of s = Some r" using Some s by (simp add: ref_of_def json_get_def)
      then show ?thesis
        using IH [OF t(2) judged_ref [OF less.prems(2) _ t(1)] apart_target [OF less.prems(4) t(1)] less.prems(4)] by blast
    next
      case None
      then show ?thesis
        using less.prems(1) depth s Cons alternatives container conjunction
        by (auto simp: project.simps [of x doc depth] split: option.splits)
    qed
  qed simp
qed

lemma known_empty_refuses: "known_empty doc depth seen s \<Longrightarrow> \<not> judge s v"
proof (induction "33 - depth" arbitrary: depth seen s v rule: less_induct)
  case less
  show ?case
  proof
    assume ok: "judge s v"
    then obtain m where s: "s = VObject m"
      using less.prems by (cases rule: judgeE) (auto simp: known_empty.simps [of _ _ _ "VBool _"] split: if_splits)
    have IH: "\<not> judge t v" if "depth \<le> 32" "known_empty doc (depth + 1) seen' t" for seen' t
      by (rule less.hyps [OF _ that(2)]) (use that(1) in simp)
    show False
      using less.prems unfolding s
    proof (cases rule: known_empty_cases)
      case (ref r t)
      then show False using IH judged_ref ok s by blast
    next
      case (all items b)
      then show False using IH judged_all ok s by blast
    next
      case (some k items)
      obtain b where "b \<in> set items" "judge b v"
        using judged_some [OF ok [unfolded s] some(2,1)] by blast
      then show False using IH some(3,4) by (auto simp: list_all_iff)
    qed
  qed
qed

lemma judged_constraints_loop:
  "judge (snd s) v \<Longrightarrow> c \<in> set (local_constraints_loop n doc s seen) \<Longrightarrow> judge (snd c) v"
proof (induction n arbitrary: s seen)
  case (Suc n s seen)
  obtain r where r: "ref_of (snd s) = Some r" "r \<notin> set seen"
    using Suc.prems(2) by (cases "ref_of (snd s)") (auto split: if_splits)
  obtain target where t: "resolve_ref doc r = Some target"
      "c = target \<or> c \<in> set (local_constraints_loop n doc target (bs_insert r seen))"
    using Suc.prems(2) r by (cases "resolve_ref doc r") auto
  then have "ref_target doc r = Some (snd target)" by (simp add: ref_target_def)
  then have "judge (snd target) v"
    using judged_ref [OF Suc.prems(1) r(1)] by blast
  then show ?case using t(2) Suc.IH by blast
qed simp

lemma judged_constraints:
  "judge (snd s) v \<Longrightarrow> c \<in> set (local_constraints s doc) \<Longrightarrow> judge (snd c) v"
  by (auto simp: local_constraints_def judged_constraints_loop)

lemma judged_allows:
  assumes "judge s v" "kind_matches x v kind" "kind \<noteq> ''number''"
  shows "type_allows s kind"
proof (cases "json_get s ''type''")
  case (Some t)
  have kinds: "t' = kind \<or> kind = ''integer'' \<and> t' = ''number''" if "kind_matches x v t'" for t'
    using that assms(2,3) by (auto simp: kind_matches_def split: json.splits)
  have "type_holds x t v" using judged_type [OF assms(1) Some] .
  then show ?thesis
    using Some kinds by (cases t) (auto simp: type_allows_def type_holds_def list_ex_iff split: option.splits)
qed (simp add: type_allows_def)

end

interpretation conforms: schema_judgement x doc "conforms x doc" for x doc
  by unfold_locales (erule conformsE; blast)

lemma conforms_within_more: "conforms_within n x doc s v \<longrightarrow> conforms_within (Suc n) x doc s v"
proof (induction n arbitrary: s v)
  case (Suc n)
  have "keywords_hold x doc (conforms_within n x doc) s v \<longrightarrow> keywords_hold x doc (conforms_within (Suc n) x doc) s v"
    by (rule keywords_hold_mono) (rule Suc.IH)
  then show ?case
    by (subst (1 2) conforms_within.simps(2)) (cases s; simp del: conforms_within.simps)
qed simp

interpretation bounded: schema_judgement x doc "conforms_within n x doc" for n x doc
proof unfold_locales
  fix s v thesis
  assume within: "conforms_within n x doc s v"
    and object: "\<And>m. s = VObject m \<Longrightarrow> keywords_hold x doc (conforms_within n x doc) (VObject m) v \<Longrightarrow> thesis"
    and true: "s = VBool True \<Longrightarrow> thesis"
  obtain k where k: "n = Suc k" using within by (cases n) auto
  have "keywords_hold x doc (conforms_within k x doc) t v \<longrightarrow> keywords_hold x doc (conforms_within n x doc) t v" for t
    unfolding k by (rule keywords_hold_mono) (rule conforms_within_more)
  then show thesis
    using within object true k by (auto split: json.splits)
qed

end
