(* ===== verification/Schema_Facts.thy ===== *)
theory Schema_Facts
  imports Schema "HOL-Library.Sublist"
begin

text \<open>
  What the schema checks of the compiler give: the bounds of an accepted schema, the paths that a
  guarantee promises, and the places at which the literals of a binding are validated.
\<close>

section \<open>Bounds\<close>

text \<open>A loop that debits the cost of each item from what remains.\<close>

lemma for_each_debit:
  assumes "\<And>c n r. c \<in> set cs \<Longrightarrow> f c n = Ok r \<longleftrightarrow> fits c \<and> cost c \<le> n \<and> r = n - (cost c :: nat)"
  shows "for_each f cs n = Ok r \<longleftrightarrow> list_all fits cs \<and> sum_list (map cost cs) \<le> n \<and> r = n - sum_list (map cost cs)"
  using assms
proof (induction cs arbitrary: n)
  case (Cons c cs)
  have "for_each f (c # cs) n = Ok r \<longleftrightarrow> fits c \<and> cost c \<le> n \<and> for_each f cs (n - cost c) = Ok r"
    using Cons.prems [of c n] by auto
  also have "\<dots> \<longleftrightarrow> fits c \<and> cost c \<le> n \<and> list_all fits cs \<and> sum_list (map cost cs) \<le> n - cost c
      \<and> r = n - cost c - sum_list (map cost cs)"
    using Cons.IH [of "n - cost c"] Cons.prems by auto
  finally show ?case by auto
qed auto

lemma height_le:
  "d + height (VArray vs) \<le> k \<longleftrightarrow> d \<le> k \<and> list_all (\<lambda>v. Suc d + height v \<le> k) vs"
  "d + height (VObject kvs) \<le> k \<longleftrightarrow> d \<le> k \<and> list_all (\<lambda>kv. Suc d + height (snd kv) \<le> k) kvs"
proof -
  have "fold max hs 0 + d \<le> k \<longleftrightarrow> d \<le> k \<and> list_all (\<lambda>h. h + d \<le> k) hs" for hs
    using fold_max_le [of hs 0 "k - d"] by (auto simp: list_all_iff le_diff_conv2 elim: order_trans [rotated])
  from this [of "map (\<lambda>v. Suc (height v)) vs"] this [of "map (\<lambda>kv. Suc (height (snd kv))) kvs"]
  show "d + height (VArray vs) \<le> k \<longleftrightarrow> d \<le> k \<and> list_all (\<lambda>v. Suc d + height v \<le> k) vs"
    "d + height (VObject kvs) \<le> k \<longleftrightarrow> d \<le> k \<and> list_all (\<lambda>kv. Suc d + height (snd kv) \<le> k) kvs"
    by (simp_all add: list_all_iff add.commute)
qed

lemma visit_data_step:
  assumes "\<And>k. for_each f cs k = Ok r \<longleftrightarrow> list_all fits cs \<and> price \<le> k \<and> r = k - price"
  shows "bindr (debit depth n) (for_each f cs) = Ok r \<longleftrightarrow> (depth \<le> 32 \<and> list_all fits cs) \<and> Suc price \<le> n \<and> r = n - Suc price"
proof (cases "32 < depth \<or> n = 0")
  case False
  then have "bindr (debit depth n) (for_each f cs) = for_each f cs (n - 1)"
    by (simp add: debit_def)
  then show ?thesis
    using False assms [of "n - 1"] by auto
qed (auto simp: debit_def)

lemma visit_data_iff:
  "visit_data depth v n = Ok r \<longleftrightarrow> depth + height v \<le> 32 \<and> nodes v \<le> n \<and> r = n - nodes v"
proof (induction v arbitrary: depth n r)
  case (VArray vs)
  show ?case
    unfolding visit_data.simps [of depth "VArray vs"] height_le json.case nodes.simps Suc_eq_plus1 [symmetric]
    by (intro visit_data_step for_each_debit) (simp add: VArray)
next
  case (VObject kvs)
  show ?case
    unfolding visit_data.simps [of depth "VObject kvs"] height_le json.case nodes.simps Suc_eq_plus1 [symmetric]
    by (intro visit_data_step for_each_debit) (use VObject in auto)
qed (auto simp: visit_data.simps debit_def)

interpretation schema_bytes: allowance schema_bytes_write length "\<lambda>n. n" "\<lambda>_. True"
  by unfold_locales (auto simp: schema_bytes_write_def)

lemma check_resources_bounds:
  assumes "check_resources x s = Ok ()"
  shows "nodes s \<le> 4096 \<and> height s \<le> 32 \<and> sum_list (map length (schema_writer x s)) \<le> 65536"
  using assms schema_bytes.all_granted_iff [where cs = "schema_writer x s" and s = 65536]
  by (auto simp: check_resources_def visit_data_iff)

section \<open>Places in a document\<close>

lemma find_location_elsewhere:
  "\<not> Sublist.prefix here target \<Longrightarrow> find_location v here target at n = (None, n - nodes v)"
proof (induction v arbitrary: here at n)
  case (VArray vs)
  have "\<not> Sublist.prefix (here @ [t]) target" for t
    using VArray.prems by (meson append_prefixD)
  then have child: "find_location w (here @ [t]) target at' k = (None, k - nodes w)" if "w \<in> set vs" for w t at' k
    using VArray.IH [OF that] by simp
  have "find_child (\<lambda>(i, w). find_location w (here @ [show_nat i]) target (at @ ''/'' @ show_nat i)) (enumerate j ws) k
      = (None, k - sum_list (map nodes ws))" if "set ws \<subseteq> set vs" for ws j k
    using that by (induction ws arbitrary: j k) (auto simp: child)
  from this [of vs 0 "n - 1"] show ?case
    using VArray.prems by (auto simp: find_location.simps [of "VArray vs"])
next
  case (VObject kvs)
  have "\<not> Sublist.prefix (here @ [t]) target" for t
    using VObject.prems by (meson append_prefixD)
  then have child: "find_location w (here @ [t]) target at' k = (None, k - nodes w)" if "(t', w) \<in> set kvs" for w t t' at' k
    using VObject.IH [OF that] by simp
  have "find_child (\<lambda>(name, w). find_location w (here @ [name]) target (at @ ''/'' @ encode_pointer_token name)) ws k
      = (None, k - sum_list (map (\<lambda>p. nodes (snd p)) ws))" if "set ws \<subseteq> set kvs" for ws k
    using that by (induction ws arbitrary: k) (auto simp: child)
  from this [of kvs "n - 1"] show ?case
    using VObject.prems by (auto simp: find_location.simps [of "VObject kvs"])
qed (auto simp: find_location.simps [of VNull] find_location.simps [of "VBool _"] find_location.simps [of "VNumber _"] find_location.simps [of "VString _"])

definition location_of :: "string list \<Rightarrow> string" where
  "location_of ts = concat (map (\<lambda>t. CHR ''/'' # encode_pointer_token t) ts)"

lemma find_child_skips:
  assumes "\<And>c k. c \<in> set before \<Longrightarrow> visit c k = (None, k - cost c)"
    and "visit c (n - sum_list (map cost before)) = (Some found, left)"
  shows "\<exists>left'. find_child visit (before @ c # rest) n = (Some found, left')"
  using assms
proof (induction before arbitrary: n)
  case (Cons b bs)
  have "visit b n = (None, n - cost b)" using Cons.prems(1) by simp
  moreover have "\<exists>left'. find_child visit (bs @ c # rest) (n - cost b) = (Some found, left')"
    by (rule Cons.IH) (use Cons.prems in auto)
  ultimately show ?case by auto
qed simp

lemma map_of_first:
  assumes "map_of m k = Some v"
  obtains before rest where "m = before @ (k, v) # rest" "k \<notin> fst ` set before"
  using assms
proof (induction m arbitrary: thesis)
  case (Cons p m)
  show ?case
  proof (cases "fst p = k")
    case True
    then show ?thesis using Cons.prems(1) [of "[]" m] Cons.prems(2) by (cases p) auto
  next
    case False
    then obtain before rest where "m = before @ (k, v) # rest" "k \<notin> fst ` set before"
      using Cons.IH Cons.prems(2) by (cases p) auto
    then show ?thesis using Cons.prems(1) [of "p # before" rest] False by auto
  qed
qed simp

lemma show_nat_inject: "show_nat i = show_nat j \<Longrightarrow> i = j"
  by (metis show_nat_digits)

lemma encode_digits: "list_all is_ascii_digit s \<Longrightarrow> encode_pointer_token s = s"
proof (induction s)
  case (Cons c s)
  then have "encode_pointer_byte c = [c]"
    by (auto simp: encode_pointer_byte_def is_ascii_alphanumeric_def is_ascii_digit_def)
  then show ?case using Cons by (simp add: encode_pointer_token_def)
qed (simp add: encode_pointer_token_def)

lemma find_location_found:
  "walk_tokens v ts = Some w \<Longrightarrow> nodes v \<le> n \<Longrightarrow>
    \<exists>left. find_location v here (here @ ts) at n = (Some (at @ location_of ts), left)"
proof (induction ts arbitrary: v here at n)
  case Nil
  then show ?case
    using nodes_pos [of v] by (simp add: find_location.simps [of w] location_of_def)
next
  case (Cons t ts)
  obtain u where u: "step_into v t = Some u" "walk_tokens u ts = Some w"
    using Cons.prems(1) by (auto simp: bind_eq_Some_conv)
  have not_prefix: "\<not> Sublist.prefix (here @ [t']) (here @ t # ts)" if "t' \<noteq> t" for t'
    using that by simp
  have n: "n \<noteq> 0" "here \<noteq> here @ t # ts" using Cons.prems(2) nodes_pos [of v] by auto
  have below: "\<exists>left. find_location u (here @ [t]) (here @ t # ts) (at @ ''/'' @ encode_pointer_token t) k
      = (Some (at @ location_of (t # ts)), left)" if "nodes u \<le> k" for k
    using Cons.IH [OF u(2) that, of "here @ [t]" "at @ ''/'' @ encode_pointer_token t"] by (simp add: location_of_def)
  show ?case
  proof (cases v)
    case (VObject m)
    let ?visit = "\<lambda>(name, w). find_location w (here @ [name]) (here @ t # ts) (at @ ''/'' @ encode_pointer_token name)"
    have "map_of m t = Some u" using u(1) VObject by (simp add: step_into_def bt_get_def)
    then obtain before rest where m: "m = before @ (t, u) # rest" "t \<notin> fst ` set before"
      by (rule map_of_first)
    let ?left = "n - 1 - sum_list (map (\<lambda>p. nodes (snd p)) before)"
    have "nodes u \<le> ?left" using Cons.prems(2) VObject m(1) by simp
    then obtain left where "?visit (t, u) ?left = (Some (at @ location_of (t # ts)), left)"
      using below by auto
    then have "\<exists>left'. find_child ?visit (before @ (t, u) # rest) (n - 1) = (Some (at @ location_of (t # ts)), left')"
      by (intro find_child_skips [where cost = "\<lambda>p. nodes (snd p)"])
        (use m(2) not_prefix in \<open>force intro: find_location_elsewhere\<close>)+
    then show ?thesis using n unfolding VObject m(1) [symmetric] by (simp add: find_location.simps [of "VObject m"])
  next
    case (VArray vs)
    let ?visit = "\<lambda>(i, w). find_location w (here @ [show_nat i]) (here @ t # ts) (at @ ''/'' @ show_nat i)"
    obtain i where i: "t = show_nat i" "i < length vs" "u = vs ! i"
      using u(1) VArray
      by (auto simp: step_into_def bind_eq_Some_conv nth_opt_def canonical_array_index_eq_Some split: if_splits)
    define before rest where "before = enumerate 0 (take i vs)" and "rest = enumerate (Suc i) (drop (Suc i) vs)"
    have split: "enumerate 0 vs = before @ (i, u) # rest"
      using i enumerate_append_eq [of 0 "take i vs" "vs ! i # drop (Suc i) vs"]
      by (simp add: before_def rest_def flip: id_take_nth_drop)
    have cost: "sum_list (map (\<lambda>p. nodes (snd p)) before) = sum_list (map nodes (take i vs))"
      unfolding before_def by (subst map_map [symmetric, unfolded comp_def]) simp
    have "sum_list (map nodes vs) = sum_list (map nodes (take i vs)) + nodes u + sum_list (map nodes (drop (Suc i) vs))"
      using i by (metis id_take_nth_drop map_append sum_list.append list.simps(9) sum_list.Cons add.assoc)
    then have "nodes u \<le> n - 1 - sum_list (map (\<lambda>p. nodes (snd p)) before)"
      using Cons.prems(2) VArray cost by simp
    then obtain left where "?visit (i, u) (n - 1 - sum_list (map (\<lambda>p. nodes (snd p)) before)) = (Some (at @ location_of (t # ts)), left)"
      using below i(1) show_nat_digits [of i] by (auto simp: encode_digits)
    moreover have "j \<noteq> i" if "(j, w) \<in> set before" for j w
      using that unfolding before_def by (auto simp: enumerate_eq_zip dest!: set_zip_leftD)
    ultimately have "\<exists>left'. find_child ?visit (before @ (i, u) # rest) (n - 1) = (Some (at @ location_of (t # ts)), left')"
      by (intro find_child_skips [where cost = "\<lambda>p. nodes (snd p)"])
        (use not_prefix i(1) show_nat_inject in \<open>force intro: find_location_elsewhere\<close>)+
    then show ?thesis using n VArray split by (simp add: find_location.simps [of "VArray vs"])
  qed (use u in \<open>simp_all add: step_into_def\<close>)
qed

subsection \<open>Reading a location back\<close>

text \<open>
  The location is the fragment of a URI. Its reader decodes the percent signs (RFC 3986) and then
  takes the tokens of the pointer.
\<close>

definition hex_value :: "char \<Rightarrow> nat" where
  "hex_value c = (if is_ascii_digit c then of_char c - 48 else of_char c - 55)"

fun percent_decode :: "string \<Rightarrow> string" where
  "percent_decode (c # h # l # s) =
     (if c = CHR ''%'' then char_of (16 * hex_value h + hex_value l) # percent_decode s
      else c # percent_decode (h # l # s))"
| "percent_decode s = s"

lemma percent_decode_other: "c \<noteq> CHR ''%'' \<Longrightarrow> percent_decode (c # s) = c # percent_decode s"
  by (cases s rule: percent_decode.cases) auto

lemma hex_digit:
  assumes "k < 16"
  shows "hex_value (''0123456789ABCDEF'' ! k) = k"
proof -
  have "\<forall>k \<in> set [0 ..< 16]. hex_value (''0123456789ABCDEF'' ! k) = k" by code_simp
  then show ?thesis using assms by simp
qed

lemma percent_decode_byte:
  "percent_decode (encode_pointer_byte c @ s) = escape_segment [c] @ percent_decode s"
proof (cases "c = CHR ''~'' \<or> c = CHR ''/'' \<or> is_ascii_alphanumeric c \<or> c \<in> {CHR ''-'', CHR ''.'', CHR ''_''}")
  case True
  then have "c \<noteq> CHR ''%''"
    by (auto simp: is_ascii_alphanumeric_def is_ascii_alphabetic_def is_ascii_digit_def)
  then show ?thesis
    using True by (auto simp: encode_pointer_byte_def percent_decode_other is_ascii_alphanumeric_def is_ascii_alphabetic_def is_ascii_digit_def)
next
  case False
  have "(of_char c :: nat) div 16 < 16"
    by (rule less_mult_imp_div_less) simp
  then show ?thesis
    using False by (simp add: encode_pointer_byte_def Let_def hex_digit)
qed

lemma escape_segment_Cons: "escape_segment (c # s) = escape_segment [c] @ escape_segment s"
  by simp

lemma percent_decode_token:
  "percent_decode (encode_pointer_token t @ s) = escape_segment t @ percent_decode s"
proof (induction t)
  case (Cons c t)
  have "percent_decode (encode_pointer_token (c # t) @ s) = escape_segment [c] @ percent_decode (encode_pointer_token t @ s)"
    by (simp add: encode_pointer_token_def percent_decode_byte del: escape_segment.simps)
  then show ?case
    using Cons by (simp only: escape_segment_Cons [of c t] append_assoc)
qed (simp add: encode_pointer_token_def)

lemma percent_decode_location: "percent_decode (location_of ts) = render_pointer ts"
proof (induction ts)
  case (Cons t ts)
  have "percent_decode (location_of (t # ts)) = CHR ''/'' # percent_decode (encode_pointer_token t @ location_of ts)"
    by (simp add: location_of_def percent_decode_other)
  then show ?case
    using Cons by (simp add: percent_decode_token render_pointer_def)
qed (simp add: location_of_def render_pointer_def)

lemma pointer_tokens_render: "pointer_tokens (render_pointer ts) = Some ts"
proof (cases ts)
  case (Cons t us)
  have "split_on CHR ''/'' (render_pointer vs @ []) = [] # map escape_segment vs" if "vs \<noteq> []" for vs
    using that
  proof (induction vs)
    case (Cons v vs)
    show ?case
    proof (cases "vs = []")
      case True
      then show ?thesis using escape_no_slash [of v] by (simp add: render_pointer_def split_on_no_sep)
    next
      case False
      obtain w ws where "vs = w # ws" using False by (cases vs) auto
      then show ?thesis
        using Cons.IH False split_on_append_sep [OF escape_no_slash, of v] by (simp add: render_pointer_def)
    qed
  qed simp
  from this [of ts] show ?thesis
    using Cons by (simp add: pointer_tokens_def render_pointer_def unescape_escape comp_def flip: escape_escape_segment)
qed (simp add: pointer_tokens_def render_pointer_def)

lemma schema_location_exact:
  assumes "nodes doc \<le> 4096" "walk_tokens doc (fst s) = Some (snd s)"
  shows "schema_location doc s = Some (location_of (fst s))"
  using find_location_found [OF assms(2,1), of "[]" "[]"] by (auto simp: schema_location_def)

section \<open>Samples\<close>

text \<open>
  A validator for the samples: it accepts what unfolding the schema eight times accepts. Numbers are
  integers, and a pattern matches the text it spells between its anchors.
\<close>

definition sample_vocabulary :: "int schema_externals" where
  "sample_vocabulary =
     \<lparr>meta_is_valid = (\<lambda>_. True), build_validator = (\<lambda>_. None), build_scoped = (\<lambda>_ _. None), schema_writer = (\<lambda>_. []),
      number_as_u64 = (\<lambda>n. if 0 \<le> n then Some (nat n) else None), number_is_integral = (\<lambda>_. True), pattern_matches = (\<lambda>p k. p = ''^'' @ k @ ''$'')\<rparr>"

definition sample_validator :: "int json \<Rightarrow> int json \<Rightarrow> int json \<Rightarrow> bool" where
  "sample_validator doc s v = conforms_within 8 sample_vocabulary doc s v"

definition sample_schema_externals :: "int schema_externals" where
  "sample_schema_externals = sample_vocabulary
     \<lparr>build_validator := \<lambda>s. Some (\<lambda>v. if sample_validator s s v then None else Some ([], [])),
      build_scoped := \<lambda>doc location. map_option (sample_validator doc)
        (Option.bind (pointer_tokens (percent_decode location)) (walk_tokens doc))\<rparr>"

definition sample_object_schema :: "int json" where
  "sample_object_schema = VObject
     [(''properties'', VObject [(''name'', VObject [(''type'', VString ''string'')])]),
      (''required'', VArray [VString ''name'']), (''type'', VString ''object'')]"

lemma sample_validator_judges: "schema_judgement sample_vocabulary doc (sample_validator doc)"
  using bounded.schema_judgement_axioms [of sample_vocabulary doc 8] by (simp add: sample_validator_def [abs_def])

lemma sample_schema_compiles:
  "\<exists>sch. Schema_compile sample_schema_externals sample_object_schema at span = Ok sch \<and> schema_raw sch = sample_object_schema"
proof -
  have visits: "\<exists>r. visit_schema inspect sample_object_schema 0 sample_object_schema 4096 = Ok r"
    if "\<And>s. json_get s ''$schema'' = None \<Longrightarrow> inspect s = Ok ()" for inspect
    using that
    by (simp add: sample_object_schema_def visit_schema.simps debit_def as_object_def bt_contains_def bt_get_def
        REFERENCE_KEYWORDS_def schema_children_def keyword_children_def as_array_def json_get_def)
  have "\<exists>r. visit_data 0 sample_object_schema 4096 = Ok r"
    by (simp add: visit_data_iff sample_object_schema_def)
  then have "check_resources sample_schema_externals sample_object_schema = Ok ()"
    using visits [of "\<lambda>_. Ok ()"]
    by (auto simp: check_resources_def sample_schema_externals_def sample_vocabulary_def)
  moreover have "check_dialects sample_object_schema = Ok ()"
    using visits [of inspect_dialect] by (auto simp: check_dialects_def inspect_dialect_def)
  ultimately show ?thesis
    by (auto simp: Schema_compile_def sample_schema_externals_def sample_vocabulary_def)
qed

section \<open>Properties\<close>

text \<open>
  A schema that the compiler accepts is small: at most 4096 nodes, at most 32 levels and at most
  65536 bytes of text, whatever it contains.
\<close>

theorem accepted_schemas_are_bounded:
  assumes "Schema_compile x s at span = Ok sch"
  shows "schema_raw sch = s \<and> nodes s \<le> 4096 \<and> height s \<le> 32 \<and> sum_list (map length (schema_writer x s)) \<le> 65536"
proof -
  have "check_resources x s = Ok ()" "schema_raw sch = s"
    using assms by (auto simp: Schema_compile_def split: if_splits)
  then show ?thesis using check_resources_bounds by blast
qed

theorem accepted_schemas_are_bounded_witness: "nodes sample_object_schema \<le> 4096 \<and> height sample_object_schema \<le> 32"
proof -
  obtain sch where "Schema_compile sample_schema_externals sample_object_schema [] sample_span = Ok sch"
    using sample_schema_compiles by blast
  then show ?thesis using accepted_schemas_are_bounded by blast
qed

text \<open>
  A literal is validated against the subschema it is meant for. Inside an accepted document the
  search for the place of a subschema always succeeds, and the location it spells, decoded as the
  fragment of a URI and split into pointer tokens, leads back to that very place.
\<close>

theorem literal_locations_lead_back:
  assumes "Schema_compile x doc at span = Ok sch" "walk_tokens doc ts = Some s"
  shows "\<exists>location. schema_location doc (ts, s) = Some location \<and> pointer_tokens (percent_decode location) = Some ts"
proof -
  have "check_resources x doc = Ok ()"
    using assms(1) by (auto simp: Schema_compile_def split: if_splits)
  then have "nodes doc \<le> 4096" using check_resources_bounds by blast
  then have "schema_location doc (ts, s) = Some (location_of ts)"
    using schema_location_exact [of doc "(ts, s)"] assms(2) by simp
  then show ?thesis
    by (simp add: percent_decode_location pointer_tokens_render)
qed

theorem literal_locations_lead_back_witness:
  "\<exists>location. schema_location sample_object_schema ([''properties'', ''name''], VObject [(''type'', VString ''string'')]) = Some location
     \<and> pointer_tokens (percent_decode location) = Some [''properties'', ''name'']"
proof -
  obtain sch where "Schema_compile sample_schema_externals sample_object_schema [] sample_span = Ok sch"
    using sample_schema_compiles by blast
  moreover have "walk_tokens sample_object_schema [''properties'', ''name''] = Some (VObject [(''type'', VString ''string'')])"
    by (simp add: sample_object_schema_def step_into_def bt_get_def)
  ultimately show ?thesis by (rule literal_locations_lead_back)
qed



text \<open>A schema in which a pattern and \<open>additionalProperties\<close> compete for the same name.\<close>

definition overlapping_schema :: "string \<Rightarrow> 'n json" where
  "overlapping_schema pattern = VObject
     [(''additionalProperties'', VObject
         [(''properties'', VObject [(''y'', VBool True)]), (''required'', VArray [VString ''y'']), (''type'', VString ''object'')]),
      (''patternProperties'', VObject [(pattern, VBool True)]),
      (''required'', VArray [VString ''x'']), (''type'', VString ''object'')]"

text \<open>
  C38. Beside \<open>patternProperties\<close> the guarantee fails. The compiler takes the schema of a property
  that \<open>properties\<close> does not name from \<open>additionalProperties\<close> even where a pattern matches the
  name, so that it promises a path that a valid value lacks: reading it fails at run time.
\<close>

theorem guarantees_overlook_patterns:
  fixes x :: "'n schema_externals" and validator :: "'n json \<Rightarrow> (string \<times> string) option"
  assumes "pattern_matches x pattern ''x''"
  defines "sch \<equiv> \<lparr>schema_raw = overlapping_schema pattern, schema_validator = validator\<rparr>"
    and "v \<equiv> VObject [(''x'', VNull)]"
  shows "guarantees x sch [''x'', ''y''] = Guaranteed \<and> conforms x (schema_raw sch) (schema_raw sch) v
    \<and> lookup v [''x'', ''y''] pointer = Err (InvalidReference pointer)"
proof -
  have "guarantees x sch [''x'', ''y''] = Guaranteed"
    by (simp add: guarantees_def sch_def overlapping_schema_def project.simps bt_get_def array_keyword_def
        project_container_def type_allows_def json_get_def project_object_def requires_def as_array_def as_str_def
        type_only_def scalar_possible_def project_array_def Let_def)
  moreover have "conforms x (schema_raw sch) (schema_raw sch) v"
    using assms(1)
    by (simp add: sch_def v_def overlapping_schema_def keywords_hold_def json_get_def bt_get_def type_holds_def kind_matches_def
        ref_of_def some_branch_def object_holds_def as_array_def as_str_def bt_contains_def property_schemas_def property_schema_def
        matched_schemas_def as_object_def Let_def)
  moreover have "lookup v [''x'', ''y''] pointer = Err (InvalidReference pointer)"
    by (simp add: v_def bt_get_def)
  ultimately show ?thesis by simp
qed

theorem guarantees_overlook_patterns_witness:
  "guarantees sample_vocabulary \<lparr>schema_raw = overlapping_schema ''^x$'', schema_validator = \<lambda>_. None\<rparr> [''x'', ''y''] = Guaranteed
   \<and> conforms sample_vocabulary (overlapping_schema ''^x$'') (overlapping_schema ''^x$'') (VObject [(''x'', VNull)])
   \<and> lookup (VObject [(''x'', VNull)] :: int json) [''x'', ''y''] ''/input/x/y'' = Err (InvalidReference ''/input/x/y'')"
  using guarantees_overlook_patterns [of sample_vocabulary "''^x$''" "\<lambda>_. None" "''/input/x/y''"]
  by (simp add: sample_vocabulary_def)

text \<open>
  Draft 2020-12 with resources: a subschema with a \<open>$id\<close> opens a resource of its own, and the local
  references in it are resolved there.
\<close>

coinductive conforms_in :: "'n schema_externals \<Rightarrow> 'n json \<Rightarrow> 'n json \<Rightarrow> 'n json \<Rightarrow> bool" for x where
  in_true: "conforms_in x base (VBool True) v"
| in_object: "keywords_hold x base' (conforms_in x base') (VObject m) v
    \<Longrightarrow> base' = (if bt_contains m ''$id'' then VObject m else base) \<Longrightarrow> conforms_in x base (VObject m) v"

inductive_simps conforms_in_simps [simp]:
  "conforms_in x base (VBool b) v"
  "conforms_in x base (VObject m) v"

text \<open>A document whose property \<open>p\<close> is a resource with a definition \<open>t\<close> of its own.\<close>

definition own_definition :: "'n json" where
  "own_definition = VObject
     [(''$defs'', VObject [(''t'', VBool True)]), (''$id'', VString ''urn:p''), (''$ref'', VString ''#/$defs/t'')]"

definition outer_definition :: "'n json" where
  "outer_definition = VObject
     [(''properties'', VObject [(''y'', VBool True)]), (''required'', VArray [VString ''y'']), (''type'', VString ''object'')]"

definition scoped_document :: "'n json" where
  "scoped_document = VObject
     [(''$defs'', VObject [(''t'', outer_definition)]), (''properties'', VObject [(''p'', own_definition)]),
      (''required'', VArray [VString ''p'']), (''type'', VString ''object'')]"

lemma scoped_targets:
  "ref_target (scoped_document :: 'n json) ''#/$defs/t'' = Some outer_definition"
  "ref_target (own_definition :: 'n json) ''#/$defs/t'' = Some (VBool True)"
  by (simp_all add: ref_target_def resolve_ref_def pointer_tokens_def unescape_def scoped_document_def own_definition_def step_into_def bt_get_def)

text \<open>
  Below a nested \<open>$id\<close> the guarantee fails. The compiler resolves a reference at the root of the
  document even inside a subschema with a \<open>$id\<close>, where Draft 2020-12 resolves it in that
  subschema. The document here passes every bound and the dialect check; the compiler promises the
  path \<open>p/y\<close> by the definition of the root, and a value that is valid by the definition of the
  subschema lacks it: reading it fails at run time.
\<close>

theorem guarantees_overlook_nested_ids:
  fixes x :: "'n schema_externals" and validator :: "'n json \<Rightarrow> (string \<times> string) option"
  assumes "sum_list (map length (schema_writer x scoped_document)) \<le> 65536"
  defines "sch \<equiv> \<lparr>schema_raw = scoped_document, schema_validator = validator\<rparr>"
    and "v \<equiv> VObject [(''p'', VNull)]"
  shows "check_resources x (schema_raw sch) = Ok () \<and> check_dialects (schema_raw sch) = Ok ()
    \<and> guarantees x sch [''p'', ''y''] = Guaranteed \<and> conforms_in x (schema_raw sch) (schema_raw sch) v
    \<and> lookup v [''p'', ''y''] pointer = Err (InvalidReference pointer)"
proof -
  have "guarantees x sch [''p'', ''y''] = Guaranteed"
  proof -
    have outer: "project x scoped_document depth seen outer_definition [''y''] = Guaranteed" if "depth \<le> 31" for depth seen
      using that
      by (simp add: outer_definition_def project.simps bt_get_def array_keyword_def
        project_container_def type_allows_def json_get_def project_object_def requires_def as_array_def as_str_def
        type_only_def scalar_possible_def project_array_def Let_def)
    have own: "project x scoped_document 1 [] own_definition [''y''] = Guaranteed"
      using outer [of 2 "bs_insert ''#/$defs/t'' []"] scoped_targets(1) [where 'n = 'n]
      by (simp add: own_definition_def project.simps [of _ _ _ _ "VObject _"] bt_get_def as_str_def numeral_2_eq_2)
    have "own_definition \<noteq> (VBool False :: 'n json)" by (simp add: own_definition_def)
    then show ?thesis
      using own
      by (simp add: guarantees_def sch_def scoped_document_def project.simps [of _ _ 0] bt_get_def array_keyword_def
        project_container_def type_allows_def json_get_def project_object_def requires_def as_array_def as_str_def
        type_only_def scalar_possible_def project_array_def Let_def)
  qed
  moreover have "conforms_in x (schema_raw sch) (schema_raw sch) v"
  proof -
    have "conforms_in x base own_definition VNull" for base
      unfolding own_definition_def conforms_in_simps
      using scoped_targets(2) [where 'n = 'n]
      by (simp add: own_definition_def keywords_hold_def json_get_def bt_get_def bt_contains_def ref_of_def as_str_def some_branch_def)
    then show ?thesis
      by (simp add: sch_def v_def scoped_document_def keywords_hold_def json_get_def bt_get_def type_holds_def kind_matches_def
        ref_of_def some_branch_def object_holds_def as_array_def as_str_def bt_contains_def property_schemas_def property_schema_def
        matched_schemas_def as_object_def Let_def)
  qed
  moreover have "lookup v [''p'', ''y''] pointer = Err (InvalidReference pointer)"
    by (simp add: v_def bt_get_def)
  moreover have visits: "\<exists>r. visit_schema inspect scoped_document 0 (scoped_document :: 'n json) 4096 = Ok r"
    if "\<And>s. json_get s ''$schema'' = None \<Longrightarrow> inspect s = Ok ()" for inspect
    using that scoped_targets(2) [where 'n = 'n]
    by (simp add: scoped_document_def own_definition_def outer_definition_def visit_schema.simps debit_def as_object_def bt_contains_def bt_get_def
        REFERENCE_KEYWORDS_def schema_children_def keyword_children_def as_array_def json_get_def as_str_def)
  moreover have "check_dialects (scoped_document :: 'n json) = Ok ()"
    using visits [of inspect_dialect] by (auto simp: check_dialects_def inspect_dialect_def)
  moreover have "\<exists>r. visit_data 0 (scoped_document :: 'n json) 4096 = Ok r"
    by (simp add: visit_data_iff scoped_document_def own_definition_def outer_definition_def)
  moreover have "\<exists>r. charge_all schema_bytes_write (schema_writer x scoped_document) 65536 = Some r"
    using schema_bytes.all_granted_iff [where cs = "schema_writer x scoped_document" and s = 65536] assms(1) by simp
  ultimately show ?thesis
    using visits [of "\<lambda>_. Ok ()"] by (auto simp: check_resources_def sch_def)
qed

theorem guarantees_overlook_nested_ids_witness:
  "guarantees sample_vocabulary \<lparr>schema_raw = scoped_document, schema_validator = \<lambda>_. None\<rparr> [''p'', ''y''] = Guaranteed
   \<and> conforms_in sample_vocabulary scoped_document scoped_document (VObject [(''p'', VNull)])
   \<and> lookup (VObject [(''p'', VNull)] :: int json) [''p'', ''y''] ''/input/p/y'' = Err (InvalidReference ''/input/p/y'')"
  using guarantees_overlook_nested_ids [of sample_vocabulary "\<lambda>_. None" "''/input/p/y''"]
  by (simp add: sample_vocabulary_def)

end
