(* ===== verification/Shape.thy ===== *)
theory Shape
  imports Schema_Facts Bindings
begin

text \<open>
  The static check of a binding against the schema of its destination:
  \<open>src/src/application/workflow/compiler/shape.rs\<close>. The recursion of \<open>check_binding_shape\<close> follows
  the references of the schema, so it has fuel, and \<open>None\<close> is a check that has not returned. A
  reference to a subschema is its place in the document and its value.
\<close>

section \<open>Model\<close>

definition known_kind :: "'n schema_externals \<Rightarrow> 'n binding \<Rightarrow> string option" where
  "known_kind x b =
     (case b of
        Literal VNull \<Rightarrow> Some ''null''
      | Literal (VBool _) \<Rightarrow> Some ''boolean''
      | Literal (VString _) \<Rightarrow> Some ''string''
      | Concat _ \<Rightarrow> Some ''string''
      | Literal (VNumber n) \<Rightarrow> Some (if number_is_integral x n then ''integer'' else ''number'')
      | Literal (VArray _) \<Rightarrow> Some ''array''
      | Array _ \<Rightarrow> Some ''array''
      | Literal (VObject _) \<Rightarrow> Some ''object''
      | Object _ \<Rightarrow> Some ''object''
      | Compare _ _ _ \<Rightarrow> Some ''boolean''
      | In _ _ \<Rightarrow> Some ''boolean''
      | Exists _ \<Rightarrow> Some ''boolean''
      | And _ \<Rightarrow> Some ''boolean''
      | Or _ \<Rightarrow> Some ''boolean''
      | Not _ \<Rightarrow> Some ''boolean''
      | Reference _ \<Rightarrow> None
      | Default _ _ \<Rightarrow> None)"

definition child_schema_ref :: "'n schema_ref \<Rightarrow> string \<Rightarrow> 'n schema_ref option" where
  "child_schema_ref s key =
     (case Option.bind (json_get (snd s) ''properties'') (\<lambda>p. json_get p key) of
        Some c \<Rightarrow> Some (fst s @ [''properties'', key], c)
      | None \<Rightarrow> map_option (Pair (fst s @ [''additionalProperties''])) (json_get (snd s) ''additionalProperties''))"

definition array_schema_ref :: "'n schema_ref \<Rightarrow> nat \<Rightarrow> 'n schema_ref option" where
  "array_schema_ref s i =
     (case Option.bind (Option.bind (json_get (snd s) ''prefixItems'') as_array) (\<lambda>items. nth_opt items i) of
        Some c \<Rightarrow> Some (fst s @ [''prefixItems'', show_nat i], c)
      | None \<Rightarrow> map_option (Pair (fst s @ [''items''])) (json_get (snd s) ''items''))"

definition branch_refs :: "'n schema_ref \<Rightarrow> 'n schema_ref list" where
  "branch_refs s =
     (case Option.bind (json_get (snd s) ''allOf'') as_array of
        None \<Rightarrow> []
      | Some branches \<Rightarrow> map (\<lambda>(i, b). (fst s @ [''allOf'', show_nat i], b)) (enumerate 0 branches))"

definition require_kind ::
    "'n schema_externals \<Rightarrow> 'n binding \<Rightarrow> string \<Rightarrow> string \<Rightarrow> source_span \<Rightarrow> (unit, diagnostic) outcome" where
  "require_kind x b expected at span =
     (if (case known_kind x b of Some kind \<Rightarrow> kind \<noteq> expected | None \<Rightarrow> False)
      then Err (Diagnostic_at ''binding.operand'' ''Operator operand has an incompatible known type'' at span)
      else Ok ())"

definition ordering_kind :: "'n schema_externals \<Rightarrow> 'n binding \<Rightarrow> string option" where
  "ordering_kind x b =
     (case known_kind x b of
        None \<Rightarrow> None
      | Some kind \<Rightarrow> Some (if kind = ''integer'' \<or> kind = ''number'' then ''number''
          else if kind = ''string'' then ''string'' else ''invalid''))"

definition check_ordering ::
    "'n schema_externals \<Rightarrow> 'n binding \<Rightarrow> 'n binding \<Rightarrow> string \<Rightarrow> source_span \<Rightarrow> (unit, diagnostic) outcome" where
  "check_ordering x left right at span =
     (let l = ordering_kind x left; r = ordering_kind x right in
      if l = Some ''invalid'' \<or> r = Some ''invalid'' \<or> l \<noteq> None \<and> r \<noteq> None \<and> l \<noteq> r
      then Err (Diagnostic_at ''binding.operand'' ''Ordering needs two numbers or two strings'' at span)
      else Ok ())"

fun check_operator_operands ::
    "'n schema_externals \<Rightarrow> 'n binding \<Rightarrow> string \<Rightarrow> source_span \<Rightarrow> (unit, diagnostic) outcome" where
  "check_operator_operands x (Concat items) at span =
     for_each (\<lambda>item _. bindr (require_kind x item ''string'' at span) (\<lambda>_. check_operator_operands x item at span)) items ()"
| "check_operator_operands x (And items) at span =
     for_each (\<lambda>item _. bindr (require_kind x item ''boolean'' at span) (\<lambda>_. check_operator_operands x item at span)) items ()"
| "check_operator_operands x (Or items) at span =
     for_each (\<lambda>item _. bindr (require_kind x item ''boolean'' at span) (\<lambda>_. check_operator_operands x item at span)) items ()"
| "check_operator_operands x (Not item) at span =
     bindr (require_kind x item ''boolean'' at span) (\<lambda>_. check_operator_operands x item at span)"
| "check_operator_operands x (In value items) at span =
     bindr (require_kind x items ''array'' at span) (\<lambda>_.
     bindr (check_operator_operands x value at span) (\<lambda>_. check_operator_operands x items at span))"
| "check_operator_operands x (Compare op left right) at span =
     bindr (if op = Eq \<or> op = Ne then Ok () else check_ordering x left right at span) (\<lambda>_.
     bindr (check_operator_operands x left at span) (\<lambda>_. check_operator_operands x right at span))"
| "check_operator_operands x (Object fs) at span =
     for_each (\<lambda>kb _. check_operator_operands x (snd kb) at span) fs ()"
| "check_operator_operands x (Array items) at span =
     for_each (\<lambda>item _. check_operator_operands x item at span) items ()"
| "check_operator_operands x (Default _ fallback) at span = check_operator_operands x fallback at span"
| "check_operator_operands x (Literal _) at span = Ok ()"
| "check_operator_operands x (Reference _) at span = Ok ()"
| "check_operator_operands x (Exists _) at span = Ok ()"

text \<open>Sequencing and loops of checks that may not have returned.\<close>

type_synonym verdict = "(unit, diagnostic) outcome option"

definition and_then :: "verdict \<Rightarrow> verdict \<Rightarrow> verdict" where
  "and_then m k = (if m = Some (Ok ()) then k else m)"

primrec every :: "('c \<Rightarrow> verdict) \<Rightarrow> 'c list \<Rightarrow> verdict" where
  "every f [] = Some (Ok ())"
| "every f (c # cs) = and_then (f c) (every f cs)"

definition required_names :: "'n json \<Rightarrow> string list" where
  "required_names s =
     (case Option.bind (json_get s ''required'') as_array of
        None \<Rightarrow> [] | Some items \<Rightarrow> List.map_filter as_str items)"

definition check_object_shape ::
    "('n binding \<Rightarrow> 'n schema_ref \<Rightarrow> string \<Rightarrow> verdict) \<Rightarrow> (string \<times> 'n binding) list \<Rightarrow> 'n schema_ref
      \<Rightarrow> string \<Rightarrow> source_span \<Rightarrow> verdict" where
  "check_object_shape rec fs s at span =
     and_then (every (\<lambda>(name, b).
         let child_path = child at name in
         (case child_schema_ref s name of
            None \<Rightarrow> Some (Ok ())
          | Some c \<Rightarrow>
              if snd c = VBool False
              then Some (Err (Diagnostic_at ''binding.property'' ''Destination schema forbids this property'' child_path span))
              else rec b c child_path)) fs)
       (if list_all (bt_contains fs) (required_names (snd s)) then Some (Ok ())
        else Some (Err (Diagnostic_at ''binding.required'' ''Required constructed property is missing'' at span)))"

definition check_array_shape ::
    "'n schema_externals \<Rightarrow> ('n binding \<Rightarrow> 'n schema_ref \<Rightarrow> string \<Rightarrow> verdict) \<Rightarrow> 'n binding list \<Rightarrow> 'n schema_ref
      \<Rightarrow> string \<Rightarrow> source_span \<Rightarrow> verdict" where
  "check_array_shape x rec items s at span =
     and_then (every (\<lambda>(i, b).
         let child_path = child at (show_nat i) in
         (case array_schema_ref s i of
            None \<Rightarrow> Some (Ok ())
          | Some c \<Rightarrow>
              if snd c = VBool False
              then Some (Err (Diagnostic_at ''binding.item'' ''Destination schema forbids this array item'' child_path span))
              else rec b c child_path)) (enumerate 0 items))
       (if (case Option.bind (json_get (snd s) ''minItems'') (json_as_u64 x) of Some n \<Rightarrow> length items < n | None \<Rightarrow> False)
        then Some (Err (Diagnostic_at ''binding.items'' ''Constructed array is shorter than required'' at span))
        else Some (Ok ()))"

text \<open>
  The rest of \<open>check_binding_shape\<close>, past literals and defaults: the constraints on the binding,
  its conjunctive branches, and the parts of a constructed object or array.
\<close>

definition check_constructed ::
    "'n schema_externals \<Rightarrow> ('n binding \<Rightarrow> 'n schema_ref \<Rightarrow> string \<Rightarrow> verdict) \<Rightarrow> source_span \<Rightarrow> 'n binding
      \<Rightarrow> 'n schema_ref list \<Rightarrow> string \<Rightarrow> verdict" where
  "check_constructed x rec span b constraints at =
     (case b of
        Object fs \<Rightarrow> every (\<lambda>c. check_object_shape rec fs c at span) constraints
      | Array items \<Rightarrow> every (\<lambda>c. check_array_shape x rec items c at span) constraints
      | _ \<Rightarrow> Some (Ok ()))"

definition kind_refused :: "'n schema_externals \<Rightarrow> 'n binding \<Rightarrow> 'n schema_ref list \<Rightarrow> bool" where
  "kind_refused x b constraints \<longleftrightarrow>
     (case known_kind x b of
        Some kind \<Rightarrow> list_ex (\<lambda>c. \<not> type_allows (snd c) kind) constraints | None \<Rightarrow> False)"

definition check_constraints ::
    "'n schema_externals \<Rightarrow> 'n json \<Rightarrow> ('n binding \<Rightarrow> 'n schema_ref \<Rightarrow> string \<Rightarrow> verdict) \<Rightarrow> source_span \<Rightarrow> 'n binding
      \<Rightarrow> 'n schema_ref \<Rightarrow> string \<Rightarrow> verdict" where
  "check_constraints x doc rec span b s at =
     (if is_known_empty (snd s) doc
      then Some (Err (Diagnostic_at ''binding.type'' ''Destination schema rejects every value'' at span))
      else
        (let constraints = local_constraints s doc in
         if kind_refused x b constraints
         then Some (Err (Diagnostic_at ''binding.type'' ''Binding type cannot satisfy destination schema'' at span))
         else and_then (every (\<lambda>c. every (\<lambda>branch. rec b branch at) (branch_refs c)) constraints)
           (check_constructed x rec span b constraints at)))"

fun check_binding_shape ::
    "nat \<Rightarrow> 'n schema_externals \<Rightarrow> 'n json \<Rightarrow> source_span \<Rightarrow> 'n binding \<Rightarrow> 'n schema_ref \<Rightarrow> string \<Rightarrow> verdict" where
  "check_binding_shape 0 x doc span b s at = None"
| "check_binding_shape (Suc fuel) x doc span b s at =
     and_then (Some (check_operator_operands x b at span))
     (case b of
        Literal v \<Rightarrow> Some (validate_known_literal x s doc v at span)
      | Default _ fallback \<Rightarrow> check_binding_shape fuel x doc span fallback s at
      | _ \<Rightarrow> check_constraints x doc (check_binding_shape fuel x doc span) span b s at)"

section \<open>Lemmas\<close>

lemma and_then_simps [simp]:
  "and_then (Some (Ok ())) k = k" "and_then (Some (Err e)) k = Some (Err e)" "and_then None k = None"
  by (simp_all add: and_then_def)

lemma and_then_None: "and_then m k = None \<longleftrightarrow> m = None \<or> m = Some (Ok ()) \<and> k = None"
  by (simp add: and_then_def)

lemma and_then_Ok: "and_then m k = Some (Ok ()) \<longleftrightarrow> m = Some (Ok ()) \<and> k = Some (Ok ())"
  by (simp add: and_then_def)

lemma every_not_None: "(\<And>c. c \<in> set cs \<Longrightarrow> f c \<noteq> None) \<Longrightarrow> every f cs \<noteq> None"
  by (induction cs) (auto simp: and_then_None)

lemma every_Ok: "every f cs = Some (Ok ()) \<longleftrightarrow> (\<forall>c \<in> set cs. f c = Some (Ok ()))"
  by (induction cs) (auto simp: and_then_Ok)

subsection \<open>The check returns\<close>

text \<open>
  \<open>check_resources\<close> has followed every reference and every subschema to a depth of at most 32. A
  subschema that it visited at some depth leads only to subschemas visited at greater depths, as
  long as no subschema but the document itself opens a resource of its own with \<open>$id\<close>.
\<close>

definition visited :: "'n json \<Rightarrow> nat \<Rightarrow> 'n json \<Rightarrow> bool" where
  "visited doc d s \<longleftrightarrow> (\<exists>n r. visit_schema (\<lambda>_. Ok ()) doc d s n = Ok r)"

definition own_scope :: "'n json \<Rightarrow> 'n json \<Rightarrow> bool" where
  "own_scope doc s \<longleftrightarrow> s = doc \<or> every_object (\<lambda>m. \<not> bt_contains m ''$id'') s"

lemma own_scope_step:
  assumes "ids_at_root doc" "own_scope doc s" "step_into s t = Some c"
  shows "own_scope doc c"
proof -
  let ?Q = "every_object (\<lambda>m. \<not> bt_contains m ''$id'') :: 'a json \<Rightarrow> bool"
  have "?Q c" if "s = doc"
    using assms(1,3) that
    by (cases doc)
      (auto simp: ids_at_root_def step_into_def list_all_iff nth_opt_def dest!: bt_get_in_set split: bind_splits if_splits)
  then show ?thesis
    using assms(2,3) every_object_step [of _ s t c] by (auto simp: own_scope_def)
qed

lemma own_scope_get: "ids_at_root doc \<Longrightarrow> own_scope doc s \<Longrightarrow> json_get s k = Some c \<Longrightarrow> own_scope doc c"
  using own_scope_step [of doc s k c] by (auto simp: json_get_def step_into_def split: json.splits)

lemma own_scope_array:
  assumes "ids_at_root doc" "own_scope doc s" "Option.bind (json_get s k) as_array = Some vs" "c \<in> set vs"
  shows "own_scope doc c"
proof -
  obtain a where a: "json_get s k = Some a" "a = VArray vs"
    using assms(3) by (auto simp: bind_eq_Some_conv json_views)
  have "own_scope doc a" using own_scope_get [OF assms(1,2) a(1)] .
  moreover have "every_object Q c" if "every_object Q a" for Q using that a(2) assms(4) by (auto simp: list_all_iff)
  ultimately show ?thesis
    using assms(1,4) a(2) by (auto simp: own_scope_def ids_at_root_def list_all_iff)
qed

lemma own_scope_walk: "ids_at_root doc \<Longrightarrow> own_scope doc s \<Longrightarrow> walk_tokens s ts = Some c \<Longrightarrow> own_scope doc c"
  by (induction ts arbitrary: s) (auto simp: bind_eq_Some_conv dest: own_scope_step)

lemma own_scope_target: "ids_at_root doc \<Longrightarrow> resolve_ref doc r = Some t \<Longrightarrow> own_scope doc (snd t)"
  using own_scope_walk [of doc doc _ "snd t"]
  by (auto simp: resolve_ref_def own_scope_def bind_eq_Some_conv split: list.splits if_splits)

lemma visited_depth: "visited doc d s \<Longrightarrow> d \<le> 32"
  by (auto simp: visited_def visit_schema.simps debit_def split: if_splits)

lemma for_each_visits:
  assumes "for_each f cs n = Ok r" "c \<in> set cs"
  shows "\<exists>n' r'. f c n' = Ok r'"
  using assms by (induction cs arbitrary: n) auto

lemma visited_parts:
  assumes "visited doc d s" "own_scope doc s"
  shows "c \<in> set (schema_children s) \<Longrightarrow> visited doc (d + 1) c"
    and "ref_of s = Some r \<Longrightarrow> \<exists>t. resolve_ref doc r = Some t \<and> visited doc (d + 1) (snd t)"
proof -
  obtain n out where v: "visit_schema (\<lambda>_. Ok ()) doc d s n = Ok out"
    using assms(1) by (auto simp: visited_def)
  have object: "\<exists>m. s = VObject m" if "c \<in> set (schema_children s) \<or> ref_of s = Some r"
    using that by (cases s) (auto simp: schema_children_def as_object_def ref_of_def json_get_def)
  have parts: "\<exists>left left'. for_each (\<lambda>keyword left'. case bt_get m keyword of None \<Rightarrow> Ok left'
        | Some r \<Rightarrow> bindr (ok_or (Option.bind (as_str r) (ref_target doc)) ()) (\<lambda>target.
            visit_schema (\<lambda>_. Ok ()) doc (d + 1) target left')) REFERENCE_KEYWORDS left = Ok left'
      \<and> for_each (visit_schema (\<lambda>_. Ok ()) doc (d + 1)) (schema_children s) left' = Ok out" if "s = VObject m" for m
  proof -
    have "(if bt_contains m ''$id'' then s else doc) = doc"
      using assms(2) that by (auto simp: own_scope_def)
    then show ?thesis
      using v unfolding that
      by (auto simp: visit_schema.simps [of _ doc d "VObject m"] as_object_def Let_def simp del: One_nat_def)
  qed
  show "visited doc (d + 1) c" if c: "c \<in> set (schema_children s)"
  proof -
    obtain m where "s = VObject m" using object c by blast
    then obtain left' where "for_each (visit_schema (\<lambda>_. Ok ()) doc (d + 1)) (schema_children s) left' = Ok out"
      using parts by blast
    then show ?thesis unfolding visited_def using c by (rule for_each_visits)
  qed
  show "\<exists>t. resolve_ref doc r = Some t \<and> visited doc (d + 1) (snd t)" if r: "ref_of s = Some r"
  proof -
    obtain m where m: "s = VObject m" using object r by blast
    then have get: "bt_get m ''$ref'' = Some (VString r)"
      using r by (auto simp: ref_of_def json_get_def json_views bind_eq_Some_conv)
    have "''$ref'' \<in> set REFERENCE_KEYWORDS" by (simp add: REFERENCE_KEYWORDS_def)
    moreover obtain left left' where "for_each (\<lambda>keyword left'. case bt_get m keyword of None \<Rightarrow> Ok left'
        | Some r \<Rightarrow> bindr (ok_or (Option.bind (as_str r) (ref_target doc)) ()) (\<lambda>target.
            visit_schema (\<lambda>_. Ok ()) doc (d + 1) target left')) REFERENCE_KEYWORDS left = Ok left'"
      using parts [OF m] by blast
    ultimately obtain n' r' where "(case bt_get m ''$ref'' of None \<Rightarrow> Ok n'
        | Some r \<Rightarrow> bindr (ok_or (Option.bind (as_str r) (ref_target doc)) ()) (\<lambda>target.
            visit_schema (\<lambda>_. Ok ()) doc (d + 1) target n')) = Ok r'"
      using for_each_visits by fast
    then show ?thesis
      using get by (auto simp: as_str_def ref_target_def visited_def)
  qed
qed

lemma json_get_in: "json_get s k = Some c \<Longrightarrow> \<exists>m. s = VObject m \<and> (k, c) \<in> set m"
  by (cases s) (auto simp: json_get_def dest: bt_get_in_set)

lemma keyword_in_children:
  assumes "json_get s k = Some v" "c \<in> set (keyword_children k v)"
  shows "c \<in> set (schema_children s)"
proof -
  obtain m where m: "s = VObject m" "(k, v) \<in> set m" using json_get_in [OF assms(1)] by blast
  then show ?thesis using assms(2) by (auto simp: schema_children_def as_object_def)
qed

lemma keyword_children_simps [simp]:
  "keyword_children ''allOf'' (VArray bs) = bs" "keyword_children ''prefixItems'' (VArray bs) = bs"
  "keyword_children ''properties'' (VObject ps) = map snd ps"
  "keyword_children ''additionalProperties'' v = [v]" "keyword_children ''items'' v = [v]"
  by (simp_all add: keyword_children_def as_array_def as_object_def)

lemma schema_children_items:
  assumes "Option.bind (json_get s k) as_array = Some bs" "k = ''allOf'' \<or> k = ''prefixItems''" "b \<in> set bs"
  shows "b \<in> set (schema_children s)"
proof -
  have "json_get s k = Some (VArray bs)" using assms(1) by (auto simp: bind_eq_Some_conv json_views)
  then show ?thesis using assms(2,3) by (elim disjE) (auto intro: keyword_in_children)
qed

lemma schema_children_property:
  assumes "Option.bind (json_get s ''properties'') (\<lambda>p. json_get p k) = Some c"
  shows "c \<in> set (schema_children s)"
proof -
  obtain p where p: "json_get s ''properties'' = Some p" "json_get p k = Some c"
    using assms by (auto simp: bind_eq_Some_conv)
  obtain ps where ps: "p = VObject ps" "(k, c) \<in> set ps" using json_get_in [OF p(2)] by blast
  show ?thesis by (rule keyword_in_children [OF p(1)]) (use ps in force)
qed

lemma branch_refs_in:
  assumes "b \<in> set (branch_refs s)"
  obtains bs where "Option.bind (json_get (snd s) ''allOf'') as_array = Some bs" "snd b \<in> set bs"
proof (cases "Option.bind (json_get (snd s) ''allOf'') as_array")
  case None
  then show thesis using assms by (simp add: branch_refs_def)
next
  case (Some bs)
  then have "snd b \<in> set bs"
    using assms by (auto simp: branch_refs_def enumerate_eq_zip dest: set_zip_rightD)
  then show thesis using Some that by blast
qed

lemma child_schema_ref_cases:
  assumes "child_schema_ref s k = Some c"
  obtains "Option.bind (json_get (snd s) ''properties'') (\<lambda>p. json_get p k) = Some (snd c)"
  | "json_get (snd s) ''additionalProperties'' = Some (snd c)"
  using assms by (auto simp: child_schema_ref_def split: option.splits)

lemma array_schema_ref_cases:
  assumes "array_schema_ref s i = Some c"
  obtains bs where "Option.bind (json_get (snd s) ''prefixItems'') as_array = Some bs" "snd c \<in> set bs"
  | "json_get (snd s) ''items'' = Some (snd c)"
proof (cases "Option.bind (Option.bind (json_get (snd s) ''prefixItems'') as_array) (\<lambda>items. nth_opt items i)")
  case None
  then show thesis using assms that(2) by (auto simp: array_schema_ref_def)
next
  case (Some d)
  then obtain bs where "Option.bind (json_get (snd s) ''prefixItems'') as_array = Some bs" "nth_opt bs i = Some d"
    unfolding bind_eq_Some_conv [of "Option.bind _ _"] by blast
  moreover from this have "d \<in> set bs" by (auto simp: nth_opt_def split: if_splits)
  ultimately show thesis using assms Some that(1) by (auto simp: array_schema_ref_def)
qed

lemma child_refs_are_children:
  "b \<in> set (branch_refs s) \<Longrightarrow> snd b \<in> set (schema_children (snd s))"
  "child_schema_ref s k = Some c \<Longrightarrow> snd c \<in> set (schema_children (snd s))"
  "array_schema_ref s i = Some c \<Longrightarrow> snd c \<in> set (schema_children (snd s))"
proof -
  show "b \<in> set (branch_refs s) \<Longrightarrow> snd b \<in> set (schema_children (snd s))"
    by (elim branch_refs_in) (auto intro: schema_children_items)
  show "child_schema_ref s k = Some c \<Longrightarrow> snd c \<in> set (schema_children (snd s))"
    by (elim child_schema_ref_cases) (auto intro: schema_children_property keyword_in_children)
  show "array_schema_ref s i = Some c \<Longrightarrow> snd c \<in> set (schema_children (snd s))"
    by (elim array_schema_ref_cases) (auto intro: schema_children_items keyword_in_children)
qed

text \<open>A subschema visited at a depth, or at a greater one, within the document's own scope.\<close>

definition reached :: "'n json \<Rightarrow> nat \<Rightarrow> 'n json \<Rightarrow> bool" where
  "reached doc d s \<longleftrightarrow> ids_at_root doc \<and> own_scope doc s \<and> (\<exists>d' \<ge> d. visited doc d' s)"

lemma own_scope_child:
  assumes "ids_at_root doc" "own_scope doc (snd s)"
  shows "b \<in> set (branch_refs s) \<Longrightarrow> own_scope doc (snd b)"
    and "child_schema_ref s k = Some c \<Longrightarrow> own_scope doc (snd c)"
    and "array_schema_ref s i = Some c \<Longrightarrow> own_scope doc (snd c)"
proof -
  show "b \<in> set (branch_refs s) \<Longrightarrow> own_scope doc (snd b)"
    by (elim branch_refs_in) (rule own_scope_array [OF assms])
  show "child_schema_ref s k = Some c \<Longrightarrow> own_scope doc (snd c)"
    by (elim child_schema_ref_cases) (auto simp: bind_eq_Some_conv intro: own_scope_get [OF assms] own_scope_get [OF assms(1) own_scope_get [OF assms]])
  show "array_schema_ref s i = Some c \<Longrightarrow> own_scope doc (snd c)"
    by (elim array_schema_ref_cases) (rule own_scope_array [OF assms] own_scope_get [OF assms]; assumption)+
qed

lemma reached_child:
  assumes "reached doc d (snd s)"
  shows "b \<in> set (branch_refs s) \<Longrightarrow> reached doc (Suc d) (snd b)"
    and "child_schema_ref s k = Some c \<Longrightarrow> reached doc (Suc d) (snd c)"
    and "array_schema_ref s i = Some c \<Longrightarrow> reached doc (Suc d) (snd c)"
proof -
  obtain d' where d': "d \<le> d'" "visited doc d' (snd s)" and ids: "ids_at_root doc" "own_scope doc (snd s)"
    using assms by (auto simp: reached_def)
  have part: "reached doc (Suc d) p" if "p \<in> set (schema_children (snd s))" "own_scope doc p" for p
    using visited_parts(1) [OF d'(2) ids(2) that(1)] that(2) ids d'(1) by (auto simp: reached_def intro!: exI [of _ "Suc d'"])
  show "b \<in> set (branch_refs s) \<Longrightarrow> reached doc (Suc d) (snd b)"
    using part child_refs_are_children(1) own_scope_child(1) [OF ids] by blast
  show "child_schema_ref s k = Some c \<Longrightarrow> reached doc (Suc d) (snd c)"
    using part child_refs_are_children(2) own_scope_child(2) [OF ids] by blast
  show "array_schema_ref s i = Some c \<Longrightarrow> reached doc (Suc d) (snd c)"
    using part child_refs_are_children(3) own_scope_child(3) [OF ids] by blast
qed

lemma reached_mono: "reached doc d s \<Longrightarrow> d0 \<le> d \<Longrightarrow> reached doc d0 s"
  by (auto simp: reached_def intro: order_trans)

lemma reached_constraints:
  "reached doc d (snd s) \<Longrightarrow> c \<in> set (local_constraints s doc) \<Longrightarrow> reached doc d (snd c)"
proof -
  have loop: "reached doc d (snd c)" if "reached doc d (snd s)" "c \<in> set (local_constraints_loop n doc s seen)" for n seen s
    using that
  proof (induction n doc s seen rule: local_constraints_loop.induct)
    case (2 n doc current seen)
    obtain r where r: "ref_of (snd current) = Some r" "r \<notin> set seen"
      using "2.prems"(2) by (cases "ref_of (snd current)") (auto split: if_splits)
    obtain target where t: "resolve_ref doc r = Some target"
        "c = target \<or> c \<in> set (local_constraints_loop n doc target (bs_insert r seen))"
      using "2.prems"(2) r by (cases "resolve_ref doc r") auto
    obtain d' where d': "d \<le> d'" "visited doc d' (snd current)" "ids_at_root doc" "own_scope doc (snd current)"
      using "2.prems"(1) by (auto simp: reached_def)
    have "reached doc d (snd target)"
      using visited_parts(2) [OF d'(2,4) r(1)] own_scope_target [OF d'(3) t(1)] d' t(1)
      by (auto simp: reached_def intro!: exI [of _ "Suc d'"])
    then show ?case using t(2) "2.IH" [OF r t(1)] by blast
  qed simp
  show "reached doc d (snd s) \<Longrightarrow> c \<in> set (local_constraints s doc) \<Longrightarrow> reached doc d (snd c)"
    using loop [of s 32 "[]"] by (auto simp: local_constraints_def)
qed

lemma check_binding_shape_returns:
  "reached doc d (snd s) \<Longrightarrow> 33 - d + size b \<le> fuel \<Longrightarrow> check_binding_shape fuel x doc span b s at \<noteq> None"
proof (induction fuel arbitrary: d s b at)
  case 0
  then show ?case by (cases b) auto
next
  case (Suc fuel)
  have depth: "d \<le> 32"
    using Suc.prems(1) by (auto simp: reached_def dest!: visited_depth)
  let ?rec = "check_binding_shape fuel x doc span"
  have branch: "?rec b p at' \<noteq> None" if "c \<in> set (local_constraints s doc)" "p \<in> set (branch_refs c)" for c p at'
    using Suc.IH [of "Suc d" p b] reached_child(1) [OF reached_constraints [OF Suc.prems(1) that(1)] that(2)] Suc.prems(2) depth
    by auto
  have below: "?rec b' p at' \<noteq> None" if "reached doc (Suc d) (snd p)" "size b' < size b" for b' p at'
    using Suc.IH [of "Suc d" p b'] that Suc.prems(2) depth by simp
  have property: "?rec b' p at' \<noteq> None"
    if "c \<in> set (local_constraints s doc)" "size b' < size b" "child_schema_ref c k = Some p" for c b' p k at'
    using below reached_child(2) [OF reached_constraints [OF Suc.prems(1) that(1)] that(3)] that(2) by blast
  have item: "?rec b' p at' \<noteq> None"
    if "c \<in> set (local_constraints s doc)" "size b' < size b" "array_schema_ref c i = Some p" for c b' p i at'
    using below reached_child(3) [OF reached_constraints [OF Suc.prems(1) that(1)] that(3)] that(2) by blast
  have branches: "every (\<lambda>c. every (\<lambda>p. ?rec b p at) (branch_refs c)) (local_constraints s doc) \<noteq> None"
    by (intro every_not_None branch)
  have objects: "check_object_shape ?rec fs c at span \<noteq> None" if "b = Object fs" "c \<in> set (local_constraints s doc)" for fs c
  proof -
    have "size b' < size b" if "(k, b') \<in> set fs" for k b'
      using \<open>b = Object fs\<close> size_list_estimation' [OF that, of "size b'" "size_prod (\<lambda>_. 0) size"] by simp
    then have "every (\<lambda>(name, b'). let child_path = child at name in
        (case child_schema_ref c name of
           None \<Rightarrow> Some (Ok ())
         | Some p \<Rightarrow>
             if snd p = VBool False
             then Some (Err (Diagnostic_at ''binding.property'' ''Destination schema forbids this property'' child_path span))
             else ?rec b' p child_path)) fs \<noteq> None"
      using property [OF that(2)] by (intro every_not_None) (auto simp: Let_def split: option.splits)
    then show ?thesis unfolding check_object_shape_def and_then_None by auto
  qed
  have arrays: "check_array_shape x ?rec items c at span \<noteq> None" if "b = Array items" "c \<in> set (local_constraints s doc)" for items c
  proof -
    have "size b' < size b" if "(i, b') \<in> set (enumerate 0 items)" for i b'
      using \<open>b = Array items\<close> size_enumerate [OF that] by simp
    then have "every (\<lambda>(i, b'). let child_path = child at (show_nat i) in
        (case array_schema_ref c i of
           None \<Rightarrow> Some (Ok ())
         | Some p \<Rightarrow>
             if snd p = VBool False
             then Some (Err (Diagnostic_at ''binding.item'' ''Destination schema forbids this array item'' child_path span))
             else ?rec b' p child_path)) (enumerate 0 items) \<noteq> None"
      using item [OF that(2)] by (intro every_not_None) (auto simp: Let_def split: option.splits)
    then show ?thesis unfolding check_array_shape_def and_then_None by auto
  qed
  have "check_constructed x ?rec span b (local_constraints s doc) at \<noteq> None"
  proof (cases b)
    case (Object fs)
    then show ?thesis using every_not_None [OF objects [OF Object]] by (simp add: check_constructed_def)
  next
    case (Array items)
    then show ?thesis using every_not_None [OF arrays [OF Array]] by (simp add: check_constructed_def)
  qed (simp_all add: check_constructed_def)
  then have rest: "check_constraints x doc ?rec span b s at \<noteq> None"
    using branches unfolding check_constraints_def Let_def by (simp add: and_then_None del: not_None_eq)
  have "?rec fallback s at \<noteq> None" if "b = Default r fallback" for r fallback
    using Suc.IH [of d s fallback] Suc.prems that by simp
  then show ?case
    using rest by (cases b) (simp_all add: and_then_None del: not_None_eq)
qed

text \<open>More fuel changes nothing once the check has returned.\<close>

lemma every_agree:
  "every f cs \<noteq> None \<Longrightarrow> (\<And>c. c \<in> set cs \<Longrightarrow> f c \<noteq> None \<Longrightarrow> g c = f c) \<Longrightarrow> every g cs = every f cs"
  by (induction cs) (auto simp: and_then_def split: if_splits)

lemma check_binding_shape_more:
  "check_binding_shape fuel x doc span b s at \<noteq> None \<Longrightarrow>
   check_binding_shape (Suc fuel) x doc span b s at = check_binding_shape fuel x doc span b s at"
proof (induction fuel arbitrary: b s at)
  case (Suc fuel)
  let ?f = "check_binding_shape fuel x doc span" and ?g = "check_binding_shape (Suc fuel) x doc span"
  have object: "check_object_shape ?g fs c at span = check_object_shape ?f fs c at span"
    if "check_object_shape ?f fs c at span \<noteq> None" for fs c at
    using that unfolding check_object_shape_def and_then_None
    by (subst every_agree [where f = "\<lambda>(name, b). let child_path = child at name in
         (case child_schema_ref c name of
            None \<Rightarrow> Some (Ok ())
          | Some c \<Rightarrow>
              if snd c = VBool False
              then Some (Err (Diagnostic_at ''binding.property'' ''Destination schema forbids this property'' child_path span))
              else ?f b c child_path)"])
      (auto simp: Let_def Suc.IH simp del: check_binding_shape.simps split: option.splits if_splits)
  have array: "check_array_shape x ?g items c at span = check_array_shape x ?f items c at span"
    if "check_array_shape x ?f items c at span \<noteq> None" for items c at
    using that unfolding check_array_shape_def and_then_None
    by (subst every_agree [where f = "\<lambda>(i, b). let child_path = child at (show_nat i) in
         (case array_schema_ref c i of
            None \<Rightarrow> Some (Ok ())
          | Some c \<Rightarrow>
              if snd c = VBool False
              then Some (Err (Diagnostic_at ''binding.item'' ''Destination schema forbids this array item'' child_path span))
              else ?f b c child_path)"])
      (auto simp: Let_def Suc.IH simp del: check_binding_shape.simps split: option.splits if_splits)
  have constructed: "check_constructed x ?g span b cs at = check_constructed x ?f span b cs at"
    if "check_constructed x ?f span b cs at \<noteq> None" for cs
    using that object array by (cases b) (auto simp: check_constructed_def intro!: every_agree simp del: check_binding_shape.simps)
  have branches: "every (\<lambda>c. every (\<lambda>p. ?g b p at) (branch_refs c)) cs = every (\<lambda>c. every (\<lambda>p. ?f b p at) (branch_refs c)) cs"
    if "every (\<lambda>c. every (\<lambda>p. ?f b p at) (branch_refs c)) cs \<noteq> None" for cs
    using that by (intro every_agree Suc.IH) auto
  have "check_constraints x doc ?g span b s at = check_constraints x doc ?f span b s at"
    if "check_constraints x doc ?f span b s at \<noteq> None"
    using that branches constructed unfolding check_constraints_def Let_def and_then_def
    by (auto split: if_splits simp del: check_binding_shape.simps)
  then show ?case
    using Suc.prems Suc.IH
    unfolding check_binding_shape.simps(2) [of "Suc fuel"] check_binding_shape.simps(2) [of fuel x doc span b s at]
    by (cases b) (auto simp: and_then_def split: if_splits simp del: check_binding_shape.simps)
qed simp

lemma check_binding_shape_settled:
  "check_binding_shape fuel x doc span b s at \<noteq> None \<Longrightarrow>
   check_binding_shape (fuel + n) x doc span b s at = check_binding_shape fuel x doc span b s at"
  by (induction n) (simp_all add: check_binding_shape_more del: check_binding_shape.simps not_None_eq)

end
