(* ===== verification/Shape_Facts.thy ===== *)
theory Shape_Facts
  imports Shape Binding_Syntax Binding_Facts
begin

text \<open>
  What the static check of bindings decides: it returns for every accepted document whose
  subschemas keep to the document's scope, it refuses no binding whose value a validator would
  accept, and it does not return for some documents with nested resources.
\<close>

section \<open>Places\<close>

text \<open>A reference to a subschema stands where its place says.\<close>

definition placed :: "'n json \<Rightarrow> 'n schema_ref \<Rightarrow> bool" where
  "placed doc s \<longleftrightarrow> walk_tokens doc (fst s) = Some (snd s)"

lemma walk_tokens_append: "walk_tokens v (ts @ us) = Option.bind (walk_tokens v ts) (\<lambda>w. walk_tokens w us)"
  by (induction ts arbitrary: v) (auto split: bind_splits)

lemma placed_get:
  assumes "placed doc s" "json_get (snd s) k = Some c"
  shows "placed doc (fst s @ [k], c)"
  using assms json_get_in [OF assms(2)] by (auto simp: placed_def walk_tokens_append step_into_def json_get_def)

lemma length_le_nodes_doc:
  "walk_tokens v ts = Some (VArray vs) \<Longrightarrow> length vs \<le> nodes v"
proof (induction ts arbitrary: v)
  case Nil
  then show ?case using length_le_nodes [of vs] by simp
next
  case (Cons t ts)
  then obtain u where u: "step_into v t = Some u" "walk_tokens u ts = Some (VArray vs)"
    by (auto simp: bind_eq_Some_conv)
  have "nodes u \<le> nodes v"
  proof (cases v)
    case (VArray ws)
    then have "u \<in> set ws" using u(1) by (auto simp: step_into_def bind_eq_Some_conv nth_opt_def split: if_splits)
    then show ?thesis using VArray member_le_sum_list [of "nodes u" "map nodes ws"] by simp
  next
    case (VObject m)
    then have "(t, u) \<in> set m" using u(1) by (auto simp: step_into_def dest: bt_get_in_set)
    then have "nodes u \<in> set (map (\<lambda>p. nodes (snd p)) m)" by force
    then show ?thesis using VObject member_le_sum_list [of "nodes u" "map (\<lambda>p. nodes (snd p)) m"] by simp
  qed (use u in \<open>simp_all add: step_into_def\<close>)
  then show ?case using Cons.IH [OF u(2)] by simp
qed

lemma placed_item:
  assumes "placed doc s" "nodes doc \<le> 4096" "Option.bind (json_get (snd s) k) as_array = Some vs" "i < length vs"
  shows "placed doc (fst s @ [k, show_nat i], vs ! i)"
proof -
  have get: "json_get (snd s) k = Some (VArray vs)" using assms(3) by (auto simp: bind_eq_Some_conv json_views)
  have at: "walk_tokens doc (fst s @ [k]) = Some (VArray vs)"
    using placed_get [OF assms(1) get] by (simp add: placed_def)
  have "canonical_array_index (show_nat i) = Some i"
    using length_le_nodes_doc [OF at] assms(2,4) by (simp add: canonical_array_index_eq_Some usize_max_def)
  then show ?thesis
    using walk_tokens_append [of doc "fst s @ [k]" "[show_nat i]"] at assms(4) by (simp add: placed_def step_into_def nth_opt_def)
qed

lemma placed_child:
  assumes "placed doc s" "nodes doc \<le> 4096"
  shows "b \<in> set (branch_refs s) \<Longrightarrow> placed doc b"
    and "child_schema_ref s k = Some c \<Longrightarrow> placed doc c"
    and "array_schema_ref s i = Some c \<Longrightarrow> placed doc c"
proof -
  show "placed doc b" if member: "b \<in> set (branch_refs s)"
  proof (cases "Option.bind (json_get (snd s) ''allOf'') as_array")
    case (Some vs)
    then obtain i where "i < length vs" "b = (fst s @ [''allOf'', show_nat i], vs ! i)"
      using member by (auto simp: branch_refs_def enumerate_eq_zip set_zip)
    then show ?thesis using placed_item [OF assms Some] by simp
  qed (use that in \<open>simp add: branch_refs_def\<close>)
  show "placed doc c" if "child_schema_ref s k = Some c"
  proof (cases "Option.bind (json_get (snd s) ''properties'') (\<lambda>p. json_get p k)")
    case None
    then show ?thesis using that placed_get [OF assms(1)] by (auto simp: child_schema_ref_def)
  next
    case (Some d)
    then obtain p where p: "json_get (snd s) ''properties'' = Some p" "json_get p k = Some d"
      by (auto simp: bind_eq_Some_conv)
    then show ?thesis
      using that Some placed_get [OF placed_get [OF assms(1) p(1)], of k d] by (auto simp: child_schema_ref_def)
  qed
  show "placed doc c" if "array_schema_ref s i = Some c"
  proof (cases "Option.bind (Option.bind (json_get (snd s) ''prefixItems'') as_array) (\<lambda>items. nth_opt items i)")
    case None
    then show ?thesis using that placed_get [OF assms(1)] by (auto simp: array_schema_ref_def)
  next
    case (Some d)
    then obtain vs where "Option.bind (json_get (snd s) ''prefixItems'') as_array = Some vs" "i < length vs" "d = vs ! i"
      unfolding bind_eq_Some_conv [of "Option.bind _ _"] by (auto simp: nth_opt_def split: if_splits)
    then show ?thesis using that Some placed_item [OF assms] by (auto simp: array_schema_ref_def)
  qed
qed

lemma placed_target: "resolve_ref doc r = Some t \<Longrightarrow> placed doc t"
  by (auto simp: resolve_ref_def placed_def bind_eq_Some_conv split: list.splits if_splits)

lemma placed_constraints: "placed doc s \<Longrightarrow> c \<in> set (local_constraints s doc) \<Longrightarrow> placed doc c"
proof -
  have loop: "placed doc c" if "c \<in> set (local_constraints_loop n doc s seen)" for n seen s
    using that
  proof (induction n arbitrary: s seen)
    case (Suc n s seen)
    then show ?case
      by (cases "ref_of (snd s)"; cases "resolve_ref doc (the (ref_of (snd s)))") (auto split: if_splits dest: placed_target)
  qed simp
  show "placed doc s \<Longrightarrow> c \<in> set (local_constraints s doc) \<Longrightarrow> placed doc c"
    using loop [of 32 s "[]"] by (auto simp: local_constraints_def)
qed

text \<open>
  The places of a document that hold its schemas: the document, the target of a local reference, the
  branches of a conjunction, the schemas of properties and items. Other places hold data, which no
  check reads as a schema.
\<close>

inductive schema_place :: "'n json \<Rightarrow> 'n schema_ref \<Rightarrow> bool" for doc where
  place_root: "schema_place doc ([], doc)"
| place_target: "schema_place doc s \<Longrightarrow> ref_of (snd s) = Some r \<Longrightarrow> resolve_ref doc r = Some t \<Longrightarrow> schema_place doc t"
| place_branch: "schema_place doc s \<Longrightarrow> b \<in> set (branch_refs s) \<Longrightarrow> schema_place doc b"
| place_child: "schema_place doc s \<Longrightarrow> child_schema_ref s k = Some c \<Longrightarrow> schema_place doc c"
| place_item: "schema_place doc s \<Longrightarrow> array_schema_ref s i = Some c \<Longrightarrow> schema_place doc c"

lemma place_constraints: "schema_place doc s \<Longrightarrow> c \<in> set (local_constraints s doc) \<Longrightarrow> schema_place doc c"
proof -
  have loop: "schema_place doc c" if "schema_place doc s" "c \<in> set (local_constraints_loop n doc s seen)" for n seen s
    using that
  proof (induction n arbitrary: s seen)
    case (Suc n s seen)
    obtain r where r: "ref_of (snd s) = Some r" "r \<notin> set seen"
      using Suc.prems(2) by (cases "ref_of (snd s)") (auto split: if_splits)
    then obtain t where t: "resolve_ref doc r = Some t" "c = t \<or> c \<in> set (local_constraints_loop n doc t (bs_insert r seen))"
      using Suc.prems(2) by (cases "resolve_ref doc r") auto
    have "schema_place doc t" using Suc.prems(1) r(1) t(1) by (rule place_target)
    then show ?case using t(2) Suc.IH by blast
  qed simp
  show "schema_place doc s \<Longrightarrow> c \<in> set (local_constraints s doc) \<Longrightarrow> schema_place doc c"
    using loop [of s 32 "[]"] by (auto simp: local_constraints_def)
qed

lemma place_placed: "schema_place doc s \<Longrightarrow> nodes doc \<le> 4096 \<Longrightarrow> placed doc s"
  by (induction rule: schema_place.induct)
    (auto intro: placed_child placed_target simp: placed_def [of doc "([], doc)"])

text \<open>The resource check has been at every such place.\<close>

lemma place_reached:
  assumes "check_resources x doc = Ok ()" "ids_at_root doc"
  shows "schema_place doc s \<Longrightarrow> reached doc 0 (snd s)"
proof (induction rule: schema_place.induct)
  case place_root
  then show ?case using assms by (auto simp: reached_def own_scope_def visited_def check_resources_def)
next
  case (place_target s r t)
  then obtain d where d: "visited doc d (snd s)" "own_scope doc (snd s)" by (auto simp: reached_def)
  show ?case
    using visited_parts(2) [OF d place_target(2)] own_scope_target [OF assms(2) place_target(3)] place_target(3) assms(2)
    by (auto simp: reached_def)
qed (auto intro: reached_mono reached_child)

lemma placed_apart: "placed doc s \<Longrightarrow> patterns_apart doc \<Longrightarrow> patterns_apart (snd s)"
  unfolding placed_def patterns_apart_def by (rule every_object_walk)

section \<open>Kinds\<close>

lemma json_case_Ok:
  "(case v of VString t \<Rightarrow> f t | _ \<Rightarrow> Err e) = Ok r \<longleftrightarrow> (\<exists>t. v = VString t \<and> f t = Ok r)"
  "(case v of VBool p \<Rightarrow> g p | _ \<Rightarrow> Err e) = Ok r \<longleftrightarrow> (\<exists>p. v = VBool p \<and> g p = Ok r)"
  "(case v of VArray vs \<Rightarrow> h vs | _ \<Rightarrow> Err e) = Ok r \<longleftrightarrow> (\<exists>vs. v = VArray vs \<and> h vs = Ok r)"
  by (cases v; simp)+

lemma denote_concat_string: "denote_concat f items s = Ok v \<Longrightarrow> \<exists>t. v = VString t"
  by (induction items arbitrary: s) (auto simp: json_case_Ok)

lemma denote_boolean_bool: "denote_boolean f items c = Ok v \<Longrightarrow> \<exists>t. v = VBool t"
  by (induction items) (auto simp: json_case_Ok split: if_splits)

lemma denote_exists_bool: "denote e ctx (Exists r) = Ok v \<Longrightarrow> \<exists>t. v = VBool t"
  by (cases "reference e r ctx"; simp) (auto split: context_error.splits)

text \<open>The kind that the compiler knows of a binding is the kind of its value.\<close>

lemma known_kind_sound:
  assumes kind: "known_kind x b = Some kind" and denotes: "denote e ctx b = Ok v"
  shows "kind_matches x v kind"
proof (cases b)
  case (Literal w)
  then show ?thesis using assms by (cases w) (auto simp: known_kind_def kind_matches_def)
next
  case (Concat items)
  then show ?thesis using assms by (auto simp: known_kind_def kind_matches_def dest!: denote_concat_string)
next
  case (And items)
  then show ?thesis using assms by (auto simp: known_kind_def kind_matches_def dest!: denote_boolean_bool)
next
  case (Or items)
  then show ?thesis using assms by (auto simp: known_kind_def kind_matches_def dest!: denote_boolean_bool)
next
  case (Exists r)
  then show ?thesis using kind denote_exists_bool [OF denotes [unfolded Exists]] by (auto simp: known_kind_def kind_matches_def)
qed (use assms in \<open>auto simp: known_kind_def kind_matches_def json_case_Ok\<close>)

text \<open>
  The reading of a binding in which every default takes its fallback, under objects and arrays too:
  the reading that the check of shapes judges.
\<close>

fun fallbacks :: "'n binding \<Rightarrow> 'n binding" where
  "fallbacks (Default r b) = fallbacks b"
| "fallbacks (Object fs) = Object (map (\<lambda>kb. (fst kb, fallbacks (snd kb))) fs)"
| "fallbacks (Array items) = Array (map fallbacks items)"
| "fallbacks b = b"

lemma denote_fields_exact:
  assumes "sorted_wrt (<) (map fst acc @ map fst fs)" "denote_fields f fs acc = Ok out"
  shows "\<exists>ws. length ws = length fs \<and> out = acc @ zip (map fst fs) ws \<and> (\<forall>i < length fs. f (snd (fs ! i)) = Ok (ws ! i))"
  using assms
proof (induction fs arbitrary: acc)
  case (Cons p fs)
  obtain w where w: "f (snd p) = Ok w" "denote_fields f fs (bt_insert (fst p) w acc) = Ok out"
    using Cons.prems(2) by auto
  have "bt_insert (fst p) w acc = acc @ [(fst p, w)]"
    by (rule bt_insert_last) (use Cons.prems(1) in \<open>simp add: bt_ok_def sorted_wrt_append\<close>)
  then obtain ws where ws: "length ws = length fs" "out = (acc @ [(fst p, w)]) @ zip (map fst fs) ws"
      "\<forall>i < length fs. f (snd (fs ! i)) = Ok (ws ! i)"
    using Cons.IH [of "acc @ [(fst p, w)]"] Cons.prems(1) w(2) by auto
  then show ?case
    using w(1) by (intro exI [of _ "w # ws"]) (auto simp: nth_Cons split: nat.splits)
qed auto

lemma denote_items_exact:
  "denote_items f items = Ok vs \<Longrightarrow> length vs = length items \<and> (\<forall>i < length items. f (items ! i) = Ok (vs ! i))"
proof (induction items arbitrary: vs)
  case (Cons i items)
  then show ?case by (auto simp: nth_Cons split: nat.splits)
qed auto

lemma for_each_unit: "for_each (\<lambda>c _. g c) cs () = Ok () \<longleftrightarrow> (\<forall>c \<in> set cs. g c = Ok ())"
  by (induction cs) auto

lemma check_operator_operands_anywhere:
  "check_operator_operands x b at span = Ok () \<Longrightarrow> check_operator_operands x b at' span' = Ok ()"
proof -
  have kind: "require_kind x b k at span = Ok () \<longleftrightarrow> known_kind x b = None \<or> known_kind x b = Some k" for x b k at span
    by (auto simp: require_kind_def split: option.splits)
  have ordering: "check_ordering x l r at span = Ok () \<Longrightarrow> check_ordering x l r at' span' = Ok ()" for x l r at span
    by (auto simp: check_ordering_def Let_def split: if_splits)
  show "check_operator_operands x b at span = Ok () \<Longrightarrow> check_operator_operands x b at' span' = Ok ()"
    by (induction x b at span rule: check_operator_operands.induct)
      (auto simp: for_each_unit kind intro: ordering split: if_splits)
qed

section \<open>No false refusals\<close>

text \<open>The validators of the subschemas, as the literal check builds them, agree with a judgement.\<close>

definition scoped_by :: "'n schema_externals \<Rightarrow> 'n json \<Rightarrow> ('n json \<Rightarrow> 'n json \<Rightarrow> bool) \<Rightarrow> bool" where
  "scoped_by x doc judge \<longleftrightarrow>
     (\<forall>s. schema_place doc s \<longrightarrow> (\<exists>p. build_scoped x doc (location_of (fst s)) = Some p \<and> (\<forall>v. p v \<longleftrightarrow> judge (snd s) v)))"

definition unrefused :: "verdict \<Rightarrow> bool" where
  "unrefused m \<longleftrightarrow> m = None \<or> m = Some (Ok ())"

lemma unrefused_simps [simp]: "unrefused None" "unrefused (Some (Ok ()))"
  by (simp_all add: unrefused_def)

lemma unrefused_and_then: "unrefused m \<Longrightarrow> (m = Some (Ok ()) \<Longrightarrow> unrefused k) \<Longrightarrow> unrefused (and_then m k)"
  by (auto simp: unrefused_def and_then_def)

lemma unrefused_every: "(\<And>c. c \<in> set cs \<Longrightarrow> unrefused (f c)) \<Longrightarrow> unrefused (every f cs)"
  by (induction cs) (auto intro: unrefused_and_then)

lemma child_schema_ref_property:
  assumes "patterns_apart (snd c)" "child_schema_ref c k = Some p"
  shows "snd p \<in> set (property_schemas x (snd c) k)"
proof -
  have "child_schema (snd c) k = Some (snd p)"
    using assms(2) by (auto simp: child_schema_def property_schema_def child_schema_ref_def split: option.splits)
  then show ?thesis by (rule apart_child_schema(2) [OF assms(1)])
qed

lemma array_schema_ref_item: "array_schema_ref c i = Some p \<Longrightarrow> item_schema (snd c) i = Some (snd p)"
  by (auto simp: array_schema_ref_def item_schema_def split: option.splits)

lemma required_names_required: "k \<in> set (required_names s) \<Longrightarrow> requires s k"
  by (cases "Option.bind (json_get s ''required'') as_array")
    (auto simp: required_names_def requires_def List.map_filter_def list_ex_iff)

context schema_judgement
begin

lemma object_unrefused:
  assumes denotes: "denote_fields f (map (\<lambda>kb. (fst kb, fallbacks (snd kb))) fs) [] = Ok out" "bt_ok fs"
    and judged: "judge (snd c) (VObject out)" and apart: "patterns_apart (snd c)"
    and part: "\<And>b w p at'. b \<in> snd ` set fs \<Longrightarrow> f (fallbacks b) = Ok w \<Longrightarrow> judge (snd p) w \<Longrightarrow>
      (\<exists>k. child_schema_ref c k = Some p) \<Longrightarrow> unrefused (rec b p at')"
  shows "unrefused (check_object_shape rec fs c at span)"
proof -
  let ?gs = "map (\<lambda>kb. (fst kb, fallbacks (snd kb))) fs"
  have "sorted_wrt (<) (map fst ([] :: (string \<times> 'a json) list) @ map fst ?gs)"
    using denotes(2) by (simp add: bt_ok_def comp_def)
  then obtain ws where ws: "length ws = length fs" "out = zip (map fst fs) ws" "\<forall>i < length fs. f (fallbacks (snd (fs ! i))) = Ok (ws ! i)"
    using denote_fields_exact [OF _ denotes(1)] by (auto simp: comp_def)
  have keys: "map fst out = map fst fs" using ws by simp
  have get: "\<exists>w. bt_get out k = Some w \<and> f (fallbacks b) = Ok w" if "(k, b) \<in> set fs" for k b
  proof -
    obtain i where i: "i < length fs" "fs ! i = (k, b)" using \<open>(k, b) \<in> set fs\<close> by (auto simp: in_set_conv_nth)
    have "bt_ok out" using denotes(2) keys by (simp add: bt_ok_def)
    moreover have "(k, ws ! i) \<in> set out" using i ws(1,2) by (auto simp: set_zip intro!: exI [of _ i])
    ultimately show ?thesis using i ws(3) by (auto simp: bt_get_iff)
  qed
  have field: "unrefused (let child_path = child at k in
      (case child_schema_ref c k of
         None \<Rightarrow> Some (Ok ())
       | Some p \<Rightarrow>
           if snd p = VBool False
           then Some (Err (Diagnostic_at ''binding.property'' ''Destination schema forbids this property'' child_path span))
           else rec b p child_path))" if member: "(k, b) \<in> set fs" for k b
  proof (cases "child_schema_ref c k")
    case (Some p)
    obtain w where w: "bt_get out k = Some w" "f (fallbacks b) = Ok w" using get [OF member] by blast
    have "judge (snd p) w"
      using judged_property [OF judged w(1) child_schema_ref_property [OF apart Some]] .
    then show ?thesis
      using part [of b w p "child at k"] member w(2) Some by (force simp: Let_def)
  qed simp
  have "list_all (bt_contains fs) (required_names (snd c))"
    using judged_required [OF judged] required_names_required keys
    by (auto simp: list_all_iff bt_contains_iff bt_keys_def)
  then show ?thesis
    unfolding check_object_shape_def using field
    by (intro unrefused_and_then unrefused_every) auto
qed

lemma array_unrefused:
  assumes denotes: "denote_items f (map fallbacks items) = Ok vs"
    and judged: "judge (snd c) (VArray vs)"
    and part: "\<And>b w p at'. b \<in> set items \<Longrightarrow> f (fallbacks b) = Ok w \<Longrightarrow> judge (snd p) w \<Longrightarrow>
      (\<exists>i. array_schema_ref c i = Some p) \<Longrightarrow> unrefused (rec b p at')"
  shows "unrefused (check_array_shape x rec items c at span)"
proof -
  have vs: "length vs = length items" "\<And>i. i < length items \<Longrightarrow> f (fallbacks (items ! i)) = Ok (vs ! i)"
    using denote_items_exact [OF denotes] by auto
  have item: "unrefused (let child_path = child at (show_nat i) in
      (case array_schema_ref c i of
         None \<Rightarrow> Some (Ok ())
       | Some p \<Rightarrow>
           if snd p = VBool False
           then Some (Err (Diagnostic_at ''binding.item'' ''Destination schema forbids this array item'' child_path span))
           else rec b p child_path))" if "(i, b) \<in> set (enumerate 0 items)" for i b
  proof (cases "array_schema_ref c i")
    case (Some p)
    have i: "i < length items" "b = items ! i"
      using that by (auto simp: enumerate_eq_zip set_zip)
    have "judge (snd p) (vs ! i)"
      using judged_item [OF judged _ array_schema_ref_item [OF Some]] i(1) vs(1) by simp
    then show ?thesis
      using part [of b "vs ! i" p] vs(2) i Some by (auto simp: Let_def)
  qed simp
  have "\<not> (case Option.bind (json_get (snd c) ''minItems'') (json_as_u64 x) of Some n \<Rightarrow> length items < n | None \<Rightarrow> False)"
    using judged_min_items [OF judged] vs(1) by (auto split: option.splits)
  then show ?thesis
    unfolding check_array_shape_def using item
    by (intro unrefused_and_then unrefused_every) auto
qed

lemma shape_unrefused:
  assumes scoped: "scoped_by x doc judge" and apart: "patterns_apart doc" and size: "nodes doc \<le> 4096"
  shows "denote e ctx (fallbacks b) = Ok v \<Longrightarrow> judge (snd s) v \<Longrightarrow> schema_place doc s \<Longrightarrow> binding_ok b
    \<Longrightarrow> check_operator_operands x b at0 span0 = Ok () \<Longrightarrow> unrefused (check_binding_shape fuel x doc span b s at)"
proof (induction fuel arbitrary: b s v at at0 span0)
  case (Suc fuel)
  let ?rec = "check_binding_shape fuel x doc span"
  have operands: "check_operator_operands x b at span = Ok ()"
    using Suc.prems(5) by (rule check_operator_operands_anywhere)
  have constraint: "judge (snd c) v" "schema_place doc c" "patterns_apart (snd c)" if "c \<in> set (local_constraints s doc)" for c
    using judged_constraints [OF Suc.prems(2) that] place_constraints [OF Suc.prems(3) that] place_placed [OF _ size]
      placed_apart apart by blast+
  have rest: "unrefused (check_constraints x doc ?rec span b s at)" if plain: "\<And>w. b \<noteq> Literal w" "\<And>r w. b \<noteq> Default r w"
  proof -
    have kind: "known_kind x (fallbacks b) = known_kind x b"
      using plain by (cases b) (auto simp: known_kind_def)
    have "\<not> is_known_empty (snd s) doc"
      using known_empty_refuses Suc.prems(2) unfolding is_known_empty_def by blast
    moreover have "\<not> kind_refused x b (local_constraints s doc)"
    proof (cases "known_kind x b")
      case (Some k)
      have "k \<noteq> ''number''" using Some plain by (cases b) (auto simp: known_kind_def)
      moreover have "kind_matches x v k" using known_kind_sound [OF _ Suc.prems(1)] kind Some by simp
      ultimately have "type_allows (snd c) k" if "c \<in> set (local_constraints s doc)" for c
        using judged_allows constraint(1) [OF that] by blast
      then show ?thesis using Some by (auto simp: kind_refused_def list_ex_iff)
    qed (simp add: kind_refused_def)
    moreover have "unrefused (every (\<lambda>c. every (\<lambda>p. ?rec b p at) (branch_refs c)) (local_constraints s doc))"
    proof (intro unrefused_every)
      fix c p assume c: "c \<in> set (local_constraints s doc)" and p: "p \<in> set (branch_refs c)"
      obtain bs where "Option.bind (json_get (snd c) ''allOf'') as_array = Some bs" "snd p \<in> set bs"
        using p by (rule branch_refs_in)
      then have "judge (snd p) v" using judged_all [OF constraint(1) [OF c]] by blast
      then show "unrefused (?rec b p at)"
        using Suc.IH Suc.prems(1,4,5) place_branch [OF constraint(2) [OF c] p] by blast
    qed
    moreover have "unrefused (check_constructed x ?rec span b (local_constraints s doc) at)"
    proof (cases b)
      case (Object fs)
      obtain out where out: "denote_fields (denote e ctx) (map (\<lambda>kb. (fst kb, fallbacks (snd kb))) fs) [] = Ok out" "v = VObject out"
        using Suc.prems(1) Object by auto
      have ops: "check_operator_operands x b' at0 span0 = Ok ()" "binding_ok b'" if "b' \<in> snd ` set fs" for b'
      proof -
        have "(\<forall>kb \<in> set fs. check_operator_operands x (snd kb) at0 span0 = Ok ())"
          using Suc.prems(5) Object by (simp add: for_each_unit)
        then show "check_operator_operands x b' at0 span0 = Ok ()" "binding_ok b'"
          using that Suc.prems(4) Object by (auto simp: list_all_iff)
      qed
      have "unrefused (check_object_shape ?rec fs c at span)" if c: "c \<in> set (local_constraints s doc)" for c
        using out(1) _ _ constraint(3) [OF c]
      proof (rule object_unrefused)
        show "bt_ok fs" using Suc.prems(4) Object by simp
        show "judge (snd c) (VObject out)" using constraint(1) [OF c] out(2) by simp
        show "unrefused (?rec b' p at')" if "b' \<in> snd ` set fs" "denote e ctx (fallbacks b') = Ok w" "judge (snd p) w"
            "\<exists>k. child_schema_ref c k = Some p" for b' w p at'
        proof -
          have "schema_place doc p" using that(4) place_child [OF constraint(2) [OF c]] by blast
          then show ?thesis using Suc.IH [OF that(2,3)] ops [OF that(1)] by blast
        qed
      qed
      then show ?thesis using Object by (auto simp: check_constructed_def intro: unrefused_every)
    next
      case (Array items)
      obtain vs where vs: "denote_items (denote e ctx) (map fallbacks items) = Ok vs" "v = VArray vs"
        using Suc.prems(1) Array by auto
      have ops: "check_operator_operands x b' at0 span0 = Ok ()" "binding_ok b'" if "b' \<in> set items" for b'
        using that Suc.prems(4,5) Array by (auto simp: for_each_unit list_all_iff)
      have "unrefused (check_array_shape x ?rec items c at span)" if c: "c \<in> set (local_constraints s doc)" for c
        using vs(1)
      proof (rule array_unrefused)
        show "judge (snd c) (VArray vs)" using constraint(1) [OF c] vs(2) by simp
        show "unrefused (?rec b' p at')" if "b' \<in> set items" "denote e ctx (fallbacks b') = Ok w" "judge (snd p) w"
            "\<exists>i. array_schema_ref c i = Some p" for b' w p at'
        proof -
          have "schema_place doc p" using that(4) place_item [OF constraint(2) [OF c]] by blast
          then show ?thesis using Suc.IH [OF that(2,3)] ops [OF that(1)] by blast
        qed
      qed
      then show ?thesis using Array by (auto simp: check_constructed_def intro: unrefused_every)
    qed (simp_all add: check_constructed_def)
    ultimately show ?thesis
      unfolding check_constraints_def Let_def by (simp add: unrefused_and_then)
  qed
  have "unrefused (Some (validate_known_literal x s doc w at span))" if w: "b = Literal w" for w
  proof -
    obtain p where p: "build_scoped x doc (location_of (fst s)) = Some p" "p w"
      using scoped Suc.prems(1,2,3) w unfolding scoped_by_def by (metis denote.simps(1) fallbacks.simps(4) outcome.inject(1))
    then show ?thesis
      using schema_location_exact [OF size] place_placed [OF Suc.prems(3) size] by (simp add: validate_known_literal_def placed_def)
  qed
  moreover have "unrefused (?rec fb s at)" if "b = Default r fb" for r fb
    using Suc.IH [of fb v s at0 span0] Suc.prems that by simp
  ultimately show ?case
    using operands rest by (cases b) (simp_all add: unrefused_and_then)
qed simp

end

section \<open>Samples\<close>

lemma sample_keywords: "keywords_hold sample_schema_externals doc P s v = keywords_hold sample_vocabulary doc P s v"
proof -
  have "number_as_u64 sample_schema_externals = number_as_u64 sample_vocabulary"
    "number_is_integral sample_schema_externals = number_is_integral sample_vocabulary"
    "pattern_matches sample_schema_externals = pattern_matches sample_vocabulary"
    by (simp_all add: sample_schema_externals_def)
  then show ?thesis
    by (simp only: keywords_hold_def object_holds_def array_holds_def type_holds_def kind_matches_def property_schemas_def
        matched_schemas_def json_as_u64_def [abs_def])
qed

lemma sample_schema_judges: "schema_judgement sample_schema_externals doc (sample_validator doc)"
  using sample_validator_judges [of doc] unfolding schema_judgement_def sample_keywords .

lemma sample_scoped: "nodes doc \<le> 4096 \<Longrightarrow> scoped_by sample_schema_externals doc (sample_validator doc)"
  by (auto simp: scoped_by_def placed_def dest!: place_placed simp: sample_schema_externals_def sample_vocabulary_def percent_decode_location pointer_tokens_render)

lemma sample_object_accepted:
  "check_resources sample_schema_externals sample_object_schema = Ok ()" "ids_at_root sample_object_schema"
proof -
  obtain sch where "Schema_compile sample_schema_externals sample_object_schema [] sample_span = Ok sch"
    using sample_schema_compiles by blast
  then show "check_resources sample_schema_externals sample_object_schema = Ok ()"
    by (auto simp: Schema_compile_def split: if_splits)
  show "ids_at_root sample_object_schema"
    by (simp add: ids_at_root_def sample_object_schema_def bt_contains_def bt_get_def)
qed

section \<open>Verdicts\<close>

lemma check_returns_at:
  assumes "check_resources x doc = Ok ()" "ids_at_root doc" and "schema_place doc s"
  shows "\<exists>r. \<forall>fuel \<ge> 33 + size b. check_binding_shape fuel x doc span b s at = Some r"
proof -
  have "check_binding_shape (33 + size b) x doc span b s at \<noteq> None"
    using check_binding_shape_returns [OF place_reached [OF assms], of b "33 + size b"] by simp
  then show ?thesis
    using check_binding_shape_settled by (metis le_Suc_ex not_None_eq)
qed

section \<open>Properties\<close>

text \<open>
  C22. The check of a binding's shape ends with a verdict at every place of an accepted document that
  holds a schema of it (the document itself, and from there targets of local references, branches of
  \<open>allOf\<close>, schemas of properties and items), when only the document itself has a \<open>$id\<close>: fuel for
  the 33 depths of the resource check and the size of the binding is enough, and more fuel changes
  nothing.
\<close>

theorem shape_check_returns:
  assumes "check_resources x doc = Ok ()" "ids_at_root doc" and "schema_place doc s"
  shows "\<exists>r. \<forall>fuel \<ge> 33 + size b. check_binding_shape fuel x doc span b s at = Some r"
  by (rule check_returns_at [OF assms])

theorem shape_check_returns_witness:
  "\<exists>r. \<forall>fuel \<ge> 33 + size (Array [] :: int binding). check_binding_shape fuel sample_schema_externals sample_object_schema
     sample_span (Array []) ([''properties'', ''name''], VObject [(''type'', VString ''string'')]) [] = Some r"
proof -
  have "child_schema_ref ([], sample_object_schema) ''name'' = Some ([''properties'', ''name''], VObject [(''type'', VString ''string'')])"
    by (simp add: child_schema_ref_def sample_object_schema_def json_get_def bt_get_def)
  then have "schema_place sample_object_schema ([''properties'', ''name''], VObject [(''type'', VString ''string'')])"
    by (rule place_child [OF place_root])
  then show ?thesis by (rule shape_check_returns [OF sample_object_accepted])
qed

text \<open>
  A subschema with a \<open>$id\<close> of its own breaks this. The resource check resolves the references
  below it against that subschema, the check of shapes against the whole document: here the same
  reference leads back to the subschema that holds it, and the recursion never ends, although
  the document has passed every bound.
\<close>

definition nested_resource :: "'n json" where
  "nested_resource = VObject
     [(''$id'', VString ''urn:a''), (''allOf'', VArray [VObject [(''$ref'', VString ''#/properties/a'')]]),
      (''properties'', VObject [(''a'', VBool True)])]"

definition nested_document :: "'n json" where
  "nested_document = VObject [(''properties'', VObject [(''a'', nested_resource)])]"

definition nested_branch :: "'n json" where
  "nested_branch = VObject [(''$ref'', VString ''#/properties/a'')]"

lemma nested_facts:
  "resolve_ref (nested_document :: 'n json) ''#/properties/a'' = Some ([''properties'', ''a''], nested_resource)"
  "ref_of nested_branch = Some ''#/properties/a''" "ref_of nested_resource = None"
  "branch_refs (ts, nested_resource) = [(ts @ [''allOf'', ''0''], nested_branch)]" "branch_refs (ts, nested_branch) = []"
  "\<not> is_known_empty nested_resource (nested_document :: 'n json)" "\<not> is_known_empty nested_branch (nested_document :: 'n json)"
proof -
  show resolved: "resolve_ref (nested_document :: 'n json) ''#/properties/a'' = Some ([''properties'', ''a''], nested_resource)"
    by (simp add: resolve_ref_def pointer_tokens_def unescape_def nested_document_def step_into_def bt_get_def)
  then have target: "ref_target (nested_document :: 'n json) ''#/properties/a'' = Some nested_resource"
    by (simp add: ref_target_def)
  show "ref_of nested_branch = Some ''#/properties/a''" "ref_of nested_resource = None"
    by (simp_all add: ref_of_def nested_branch_def nested_resource_def json_get_def bt_get_def as_str_def)
  have "show_nat 0 = ''0''" by code_simp
  then show "branch_refs (ts, nested_resource) = [(ts @ [''allOf'', ''0''], nested_branch)]" "branch_refs (ts, nested_branch) = []"
    by (simp_all add: branch_refs_def nested_branch_def nested_resource_def json_get_def bt_get_def as_array_def)
  show "\<not> is_known_empty nested_resource (nested_document :: 'n json)" "\<not> is_known_empty nested_branch (nested_document :: 'n json)"
    using target
    by (simp_all add: is_known_empty_def known_empty.simps nested_branch_def nested_resource_def bt_get_def as_array_def as_str_def)
qed

lemma nested_constraints:
  "local_constraints (ts, nested_resource) (nested_document :: 'n json) = [(ts, nested_resource)]"
  "local_constraints (ts, nested_branch) (nested_document :: 'n json) = [(ts, nested_branch), ([''properties'', ''a''], nested_resource)]"
  by (simp_all add: local_constraints_def nested_facts eval_nat_numeral)

lemma nested_check_stalls:
  "check_binding_shape fuel x nested_document span (Reference r) ([''properties'', ''a'', ''allOf'', ''0''], nested_branch) at = None"
proof (induction fuel)
  case (Suc fuel)
  then show ?case
    by (simp add: check_constraints_def nested_facts nested_constraints kind_refused_def known_kind_def)
qed simp

text \<open>
  A schema that the compiler accepts can stall it. The bounds and the dialect check read a
  \<open>$ref\<close> relative to the nearest enclosing \<open>$id\<close>, the check of a binding reads it relative to the
  whole document: below a nested \<open>$id\<close> a reference that the bounds found harmless leads the check
  back to the schema it came from, and no amount of fuel lets it return.
\<close>

theorem nested_ids_stall_the_check:
  fixes x :: "'n schema_externals"
  assumes "sum_list (map length (schema_writer x nested_document)) \<le> 65536"
  shows "check_resources x nested_document = Ok () \<and> check_dialects (nested_document :: 'n json) = Ok ()
    \<and> (\<forall>fuel. check_binding_shape fuel x nested_document span (Reference r) ([''properties'', ''a''], nested_resource) at = None)"
proof -
  have "check_binding_shape fuel x nested_document span (Reference r) ([''properties'', ''a''], nested_resource) at = None" for fuel
    by (cases fuel)
      (simp_all add: check_constraints_def nested_facts nested_constraints kind_refused_def known_kind_def nested_check_stalls
        del: check_binding_shape.simps(2), subst check_binding_shape.simps(2),
        simp add: check_constraints_def nested_facts nested_constraints kind_refused_def known_kind_def nested_check_stalls
        del: check_binding_shape.simps(2))
  moreover have visits: "\<exists>r. visit_schema inspect nested_document 0 (nested_document :: 'n json) 4096 = Ok r"
    if "\<And>s. json_get s ''$schema'' = None \<Longrightarrow> inspect s = Ok ()" for inspect
    using that
    by (simp add: nested_document_def nested_resource_def visit_schema.simps debit_def as_object_def bt_contains_def bt_get_def
        REFERENCE_KEYWORDS_def schema_children_def keyword_children_def as_array_def json_get_def as_str_def ref_target_def
        resolve_ref_def pointer_tokens_def unescape_def step_into_def)
  moreover have "check_dialects (nested_document :: 'n json) = Ok ()"
    using visits [of inspect_dialect] by (auto simp: check_dialects_def inspect_dialect_def)
  moreover have "\<exists>r. visit_data 0 (nested_document :: 'n json) 4096 = Ok r"
    by (simp add: visit_data_iff nested_document_def nested_resource_def)
  moreover have "\<exists>r. charge_all schema_bytes_write (schema_writer x nested_document) 65536 = Some r"
    using schema_bytes.all_granted_iff [where cs = "schema_writer x nested_document" and s = 65536] assms by simp
  ultimately show ?thesis
    using visits [of "\<lambda>_. Ok ()"] by (auto simp: check_resources_def)
qed

theorem nested_ids_stall_the_check_witness:
  "check_resources sample_schema_externals nested_document = Ok ()
   \<and> (\<forall>fuel. check_binding_shape fuel sample_schema_externals nested_document sample_span
       (Reference \<lparr>raw = ''/run/id'', root = RunId, path = []\<rparr>) ([''properties'', ''a''], nested_resource) [] = None)"
  using nested_ids_stall_the_check [of sample_schema_externals]
  by (simp add: sample_schema_externals_def sample_vocabulary_def del: check_binding_shape.simps)



end
