(* ===== verification/Analysis.thy ===== *)
theory Analysis
  imports Wire Availability Shape_Facts
begin

text \<open>
  The reference analysis of the compiler, \<open>check_availability\<close> of
  \<open>src/src/application/workflow/compiler/analysis.rs\<close>: every reference that a step's inputs, its rule
  and its repetition make is checked against the step outputs available on every route and against
  the schema of what it reads. It composes the readers of \<open>Wire\<close>, the walk of \<open>Binding_Syntax\<close>, the
  availability of outputs and the guarantees of \<open>Schema\<close>.
\<close>

section \<open>Model\<close>

text \<open>
  The schema that a reference reads under, \<open>None\<close> for the metadata of a run, which always exist.
\<close>

definition reference_schema ::
    "reference_use \<Rightarrow> step_id \<Rightarrow> step_id btree_set \<Rightarrow> own_output \<Rightarrow> 'n schema \<Rightarrow> 'n schema
      \<Rightarrow> (step_id, 'n schema) btree_map \<Rightarrow> ('n schema option, diagnostic) outcome" where
  "reference_schema u current available own inp par outputs =
     (case root (use_reference u) of
        Input \<Rightarrow> Ok (Some inp)
      | Params \<Rightarrow> Ok (Some par)
      | StepOutput i \<Rightarrow>
          (case bt_get outputs i of
             None \<Rightarrow> Err (Diagnostic_at ''reference.step'' ''Reference names an unknown step'' (use_path u) (use_span u))
           | Some schema \<Rightarrow>
               if step_reference_allowed current available own (use_optional u) i then Ok (Some schema)
               else Err (Diagnostic_at ''reference.path''
                 ''Step output is not available on every incoming route; use an explicit default'' (use_path u) (use_span u)))
      | _ \<Rightarrow> Ok None)"

definition check_reference ::
    "'n schema_externals \<Rightarrow> reference_use \<Rightarrow> step_id \<Rightarrow> step_id btree_set \<Rightarrow> own_output \<Rightarrow> 'n schema \<Rightarrow> 'n schema
      \<Rightarrow> (step_id, 'n schema) btree_map \<Rightarrow> (unit, diagnostic) outcome" where
  "check_reference x u current available own inp par outputs =
     bindr (reference_schema u current available own inp par outputs) (\<lambda>found.
     (case found of
        None \<Rightarrow> Ok ()
      | Some schema \<Rightarrow>
          bindr (reference_tail (use_reference u)) (\<lambda>tail.
          (case guarantees x schema tail of
             Impossible \<Rightarrow> Err (Diagnostic_at ''reference.impossible'' ''Reference cannot exist under its schema'' (use_path u) (use_span u))
           | UnsafeTraversal \<Rightarrow> Err (Diagnostic_at ''reference.traversal''
               ''Schema permits scalar traversal; a default only catches missing values'' (use_path u) (use_span u))
           | Optional \<Rightarrow>
               if \<not> use_optional u
               then Err (Diagnostic_at ''reference.optional''
                 ''Schema does not guarantee this path; use an explicit default'' (use_path u) (use_span u))
               else Ok ()
           | Guaranteed \<Rightarrow> Ok ()))))"

definition uses_at :: "'n located_node \<Rightarrow> string list \<Rightarrow> reference_use list" where
  "uses_at node paths =
     fold (\<lambda>at out. case node_at node at of Some n \<Rightarrow> walk_binding n at out | None \<Rightarrow> out) paths []"

definition input_paths :: "string \<Rightarrow> 'n step_definition \<Rightarrow> string list" where
  "input_paths base step = map (child (child base ''with'')) (bt_keys (step_inputs step))"

definition rule_paths :: "string \<Rightarrow> 'n ordered_rule option \<Rightarrow> string list" where
  "rule_paths base rule =
     (case rule of
        None \<Rightarrow> []
      | Some r \<Rightarrow> map (\<lambda>i. base @ ''/rule/cases/'' @ show_nat i @ ''/when'') [0 ..< length (cases r)])"

definition repeat_uses :: "'n decoded_source \<Rightarrow> 'n parsed_workflow \<Rightarrow> step_id \<Rightarrow> string \<Rightarrow> reference_use list" where
  "repeat_uses decoded p i base =
     (if (case bt_get (pw_controls p) i of Some c \<Rightarrow> control_repeat c \<noteq> None | None \<Rightarrow> False)
      then uses_at (source_root decoded) (map (child (child base ''repeat'')) [''next_input'', ''exit_when''])
      else [])"

definition check_step_references ::
    "'n schema_externals \<Rightarrow> 'n decoded_source \<Rightarrow> 'n parsed_workflow \<Rightarrow> available_sets \<Rightarrow> 'n schema \<Rightarrow> 'n schema
      \<Rightarrow> (step_id, 'n schema) btree_map \<Rightarrow> step_id \<times> 'n step_definition \<Rightarrow> (unit, diagnostic) outcome" where
  "check_step_references x decoded p sets inp par outputs entry =
     (let i = fst entry; base = ''/steps/'' @ i;
          uses = uses_at (source_root decoded) (input_paths base (snd entry) @ rule_paths base (bt_get (pw_rules p) i));
          check = (\<lambda>own u _. bindr (expect (bt_get sets i)) (\<lambda>available. check_reference x u i available own inp par outputs)) in
      bindr (for_each (check Own_Unavailable) uses ()) (\<lambda>_.
      for_each (check Own_Provisional) (repeat_uses decoded p i base) ()))"

text \<open>The analysis of availability has no error of its own, only a panic on a graph not validated.\<close>

definition check_availability ::
    "'n schema_externals \<Rightarrow> 'n decoded_source \<Rightarrow> 'n parsed_workflow \<Rightarrow> 'n schema \<Rightarrow> 'n schema
      \<Rightarrow> (step_id, 'n schema) btree_map \<Rightarrow> (unit, diagnostic) outcome" where
  "check_availability x decoded p inp par outputs =
     bindr (case availability (pw_definition p) of Ok sets \<Rightarrow> Ok sets | _ \<Rightarrow> Panic) (\<lambda>sets.
     for_each (\<lambda>entry _. check_step_references x decoded p sets inp par outputs entry) (wf_steps (pw_definition p)) ())"

section \<open>Every read is checked\<close>

lemma uses_at_keeps:
  "set out \<subseteq> set (fold (\<lambda>at out. case node_at node at of Some n \<Rightarrow> walk_binding n at out | None \<Rightarrow> out) paths out)"
proof (induction paths arbitrary: out)
  case (Cons at paths)
  have "set out \<subseteq> set (case node_at node at of Some n \<Rightarrow> walk_binding n at out | None \<Rightarrow> out)"
    using walk_keeps by (auto split: option.splits)
  then show ?case using Cons.IH by (simp, blast)
qed simp

lemma uses_at_finds:
  assumes "binding_at node at b" "at \<in> set paths" "(r, optional) \<in> set (reads b)"
  shows "\<exists>u \<in> set (uses_at node paths). use_reference u = r \<and> use_optional u = optional"
proof -
  obtain before rest where paths: "paths = before @ at # rest" using assms(2) by (meson split_list)
  let ?walk = "\<lambda>at out. case node_at node at of Some n \<Rightarrow> walk_binding n at out | None \<Rightarrow> out"
  obtain n where n: "node_at node at = Some n" "parse_binding n at = Ok b"
    using assms(1) by (auto simp: binding_at_def)
  let ?out = "walk_binding n at (fold ?walk before [])"
  have "(r, optional) \<in> set (used ?out)"
    using walk_finds_reads [OF n(2), of at "fold ?walk before []"] assms(3) by simp
  moreover have "set ?out \<subseteq> set (uses_at node paths)"
    using uses_at_keeps [of ?out node rest] n(1) by (simp add: uses_at_def paths)
  ultimately show ?thesis by (force simp: used_def)
qed

lemma check_availability_parts:
  assumes "check_availability x decoded p inp par outputs = Ok ()"
  obtains sets where "availability (pw_definition p) = Ok sets"
    and "\<forall>entry \<in> set (wf_steps (pw_definition p)). check_step_references x decoded p sets inp par outputs entry = Ok ()"
proof -
  obtain sets where "availability (pw_definition p) = Ok sets"
    and "for_each (\<lambda>entry _. check_step_references x decoded p sets inp par outputs entry) (wf_steps (pw_definition p)) () = Ok ()"
    using assms by (auto simp: check_availability_def split: outcome.splits)
  then show thesis using that by (simp add: for_each_unit)
qed

lemma check_step_parts:
  assumes "check_step_references x decoded p sets inp par outputs (i, step) = Ok ()"
  shows "u \<in> set (uses_at (source_root decoded) (input_paths (''/steps/'' @ i) step @ rule_paths (''/steps/'' @ i) (bt_get (pw_rules p) i)))
      \<Longrightarrow> \<exists>available. bt_get sets i = Some available \<and> check_reference x u i available Own_Unavailable inp par outputs = Ok ()"
    and "u \<in> set (repeat_uses decoded p i (''/steps/'' @ i))
      \<Longrightarrow> \<exists>available. bt_get sets i = Some available \<and> check_reference x u i available Own_Provisional inp par outputs = Ok ()"
  using assms by (auto simp: check_step_references_def Let_def for_each_unit)

section \<open>What a checked read finds\<close>

text \<open>
  A compiled schema whose validator respects the keywords of Draft 2020-12, and in which patterns
  stand apart from additional properties. (A real validator respects them this way where no subschema
  opens a resource of its own.)
\<close>

definition trusted :: "'n schema_externals \<Rightarrow> 'n schema \<Rightarrow> bool" where
  "trusted x sch \<longleftrightarrow> patterns_apart (schema_raw sch)
     \<and> (\<exists>judge. schema_judgement x (schema_raw sch) judge \<and> (\<forall>v. schema_validator sch v = None \<longrightarrow> judge (schema_raw sch) v))"

lemma trusted_guarantee:
  assumes "trusted x sch" "schema_validator sch v = None" "guarantees x sch tail = Guaranteed"
  shows "\<exists>u. lookup v tail pointer = Ok u"
proof -
  obtain judge where "schema_judgement x (schema_raw sch) judge" "judge (schema_raw sch) v"
    using assms(1,2) by (auto simp: trusted_def)
  then show ?thesis
    using schema_judgement.project_sound assms(1,3) unfolding guarantees_def trusted_def by blast
qed

text \<open>The context of a run whose input, parameters and committed outputs have been validated.\<close>

definition validated_context ::
    "'n schema \<Rightarrow> 'n schema \<Rightarrow> (step_id, 'n schema) btree_map \<Rightarrow> step_id set \<Rightarrow> 'n run_context \<Rightarrow> bool" where
  "validated_context inp par outputs outs ctx \<longleftrightarrow>
     schema_validator inp (input ctx) = None \<and> schema_validator par (params ctx) = None
     \<and> (\<forall>i \<in> outs. \<exists>v. bt_get (step_outputs ctx) i = Some v \<and> (\<forall>sch. bt_get outputs i = Some sch \<longrightarrow> schema_validator sch v = None))
     \<and> meta_deadline (run ctx) \<noteq> None"

lemma checked_reference_exists:
  assumes ok: "check_reference x u i available own inp par outputs = Ok ()" and required: "\<not> use_optional u"
    and schemas: "trusted x inp" "trusted x par" "\<forall>(j, sch) \<in> set outputs. trusted x sch"
    and ctx: "validated_context inp par outputs outs ctx"
    and readable: "\<And>j. step_reference_allowed i available own False j \<Longrightarrow> j \<in> outs"
  shows "\<exists>v. reference e (use_reference u) ctx = Ok v"
proof -
  let ?r = "use_reference u"
  obtain found where found: "reference_schema u i available own inp par outputs = Ok found"
    using ok by (auto simp: check_reference_def)
  have tail: "\<exists>tail. reference_tail ?r = (Ok tail :: (string list, diagnostic) outcome) \<and> guarantees x sch tail = Guaranteed"
    if "found = Some sch" for sch
  proof -
    obtain t where "reference_tail ?r = (Ok t :: (string list, diagnostic) outcome)"
      "(case guarantees x sch t of
          Impossible \<Rightarrow> Err (Diagnostic_at ''reference.impossible'' ''Reference cannot exist under its schema'' (use_path u) (use_span u))
        | UnsafeTraversal \<Rightarrow> Err (Diagnostic_at ''reference.traversal''
            ''Schema permits scalar traversal; a default only catches missing values'' (use_path u) (use_span u))
        | Optional \<Rightarrow>
            if \<not> use_optional u
            then Err (Diagnostic_at ''reference.optional''
              ''Schema does not guarantee this path; use an explicit default'' (use_path u) (use_span u))
            else Ok ()
        | Guaranteed \<Rightarrow> Ok ()) = Ok ()"
      using ok found \<open>found = Some sch\<close> by (auto simp: check_reference_def)
    then show ?thesis using required by (cases "guarantees x sch t") auto
  qed
  show ?thesis
  proof (cases "root ?r")
    case Input
    then have "found = Some inp" using found by (simp add: reference_schema_def)
    then obtain t where "slice_from 1 (path ?r) = (Ok t :: (string list, context_error) outcome)" "guarantees x inp t = Guaranteed"
      using tail Input by (auto simp: reference_tail_def slice_from_def split: if_splits)
    then show ?thesis
      using trusted_guarantee [OF schemas(1)] ctx Input by (simp add: reference_def validated_context_def)
  next
    case Params
    then have "found = Some par" using found by (simp add: reference_schema_def)
    then obtain t where "slice_from 1 (path ?r) = (Ok t :: (string list, context_error) outcome)" "guarantees x par t = Guaranteed"
      using tail Params by (auto simp: reference_tail_def slice_from_def split: if_splits)
    then show ?thesis
      using trusted_guarantee [OF schemas(2)] ctx Params by (simp add: reference_def validated_context_def)
  next
    case (StepOutput j)
    then obtain sch where sch: "bt_get outputs j = Some sch" "found = Some sch" "step_reference_allowed i available own False j"
      using found required by (auto simp: reference_schema_def split: option.splits if_splits)
    obtain v where v: "bt_get (step_outputs ctx) j = Some v" "schema_validator sch v = None"
      using ctx readable [OF sch(3)] sch(1) by (auto simp: validated_context_def)
    obtain t where "slice_from 3 (path ?r) = (Ok t :: (string list, context_error) outcome)" "guarantees x sch t = Guaranteed"
      using tail [OF sch(2)] StepOutput by (auto simp: reference_tail_def slice_from_def split: if_splits)
    moreover have "trusted x sch" using schemas(3) bt_get_in_set [OF sch(1)] by auto
    ultimately show ?thesis
      using trusted_guarantee v StepOutput by (simp add: reference_def)
  qed (use ctx in \<open>auto simp: reference_def validated_context_def\<close>)
qed

text \<open>A binding reports a missing value only for a read that tolerates none.\<close>

lemma json_case_Err:
  "(case v of VString t \<Rightarrow> f t | _ \<Rightarrow> Err e) = Err r \<longleftrightarrow> (\<exists>t. v = VString t \<and> f t = Err r) \<or> (\<nexists>t. v = VString t) \<and> e = r"
  "(case v of VBool p \<Rightarrow> g p | _ \<Rightarrow> Err e) = Err r \<longleftrightarrow> (\<exists>p. v = VBool p \<and> g p = Err r) \<or> (\<nexists>p. v = VBool p) \<and> e = r"
  "(case v of VArray vs \<Rightarrow> h vs | _ \<Rightarrow> Err e) = Err r \<longleftrightarrow> (\<exists>vs. v = VArray vs \<and> h vs = Err r) \<or> (\<nexists>vs. v = VArray vs) \<and> e = r"
  by (cases v; simp)+

lemma denote_lists_missing:
  "denote_fields f fs out = Err (Missing m) \<Longrightarrow> \<exists>kb \<in> set fs. f (snd kb) = Err (Missing m)"
  "denote_items f items = Err (Missing m) \<Longrightarrow> \<exists>b \<in> set items. f b = Err (Missing m)"
  "denote_concat f items t = Err (Missing m) \<Longrightarrow> \<exists>b \<in> set items. f b = Err (Missing m)"
  "denote_boolean f items c = Err (Missing m) \<Longrightarrow> \<exists>b \<in> set items. f b = Err (Missing m)"
  subgoal by (induction fs arbitrary: out) (auto simp: bindr_eq_Err)
  subgoal by (induction items) (auto simp: bindr_eq_Err)
  subgoal by (induction items arbitrary: t) (auto simp: bindr_eq_Err json_case_Err)
  subgoal by (induction items) (auto simp: bindr_eq_Err json_case_Err split: if_splits)
  done

lemma compare_not_missing: "compare e op a b \<noteq> Err (Missing m)"
  by (cases op) (auto simp: bindr_eq_Err json_order_def split: json.splits)

lemma denote_missing:
  "denote e ctx b = Err (Missing m) \<Longrightarrow> \<exists>r. (r, False) \<in> set (reads b) \<and> reference e r ctx = Err (Missing m)"
proof (induction e ctx b rule: denote.induct)
  case (3 e ctx r fallback)
  then show ?case by (auto split: outcome.splits context_error.splits)
next
  case (4 e ctx fs)
  then show ?case by (force simp: bindr_eq_Err dest: denote_lists_missing(1))
next
  case (5 e ctx items)
  then show ?case by (force simp: bindr_eq_Err dest: denote_lists_missing(2))
next
  case (6 e ctx r)
  then show ?case by (auto split: outcome.splits context_error.splits)
next
  case (7 e ctx items)
  then show ?case by (force dest: denote_lists_missing(3))
next
  case (8 e ctx op l r)
  then show ?case by (auto simp: bindr_eq_Err compare_not_missing)
next
  case (9 e ctx v items)
  then show ?case by (auto simp: bindr_eq_Err json_case_Err)
next
  case (10 e ctx items)
  then show ?case by (force dest: denote_lists_missing(4))
next
  case (11 e ctx items)
  then show ?case by (force dest: denote_lists_missing(4))
next
  case (12 e ctx item)
  then show ?case by (auto simp: bindr_eq_Err json_case_Err)
qed auto

section \<open>Steps of a compiled workflow\<close>

lemma parsed_step:
  assumes "parse_workflow w decoded version = Ok p" "bt_get (wf_steps (pw_definition p)) i = Some step"
  shows "bt_ok (wf_steps (pw_definition p))" and "step_valid step"
    and "inputs_located (source_root decoded) (''/steps/'' @ i) step"
proof -
  obtain steps_node limits_node acc where
    steps: "node_at (source_root decoded) ''/steps'' = Some steps_node" "steps_at w steps_node ''/steps'' = Ok acc"
    and p: "wf_steps (pw_definition p) = ps_steps acc"
    using assms(1) by (rule parse_workflow_parts)
  have parsed: "steps_parsed (source_root decoded) ''/steps'' acc" using steps_at_parsed [OF steps(2,1)] .
  have "(i, step) \<in> set (ps_steps acc)" using bt_get_in_set [OF assms(2)] p by simp
  then have entry: "StepId_parse i = Ok i" "step_valid step" "inputs_located (source_root decoded) (child ''/steps'' i) step"
    using parsed by (auto simp: steps_parsed_def)
  show "bt_ok (wf_steps (pw_definition p))" using parsed p by (simp add: steps_parsed_def)
  show "step_valid step" using entry by simp
  show "inputs_located (source_root decoded) (''/steps/'' @ i) step"
    using entry(3) parsed_steps_path [OF entry(1)] by simp
qed

lemma required_reads_exist:
  assumes parse: "parse_workflow w decoded version = Ok p" and valid: "validate (pw_definition p) = Ok graph"
    and checked: "check_availability x decoded p inp par outputs = Ok ()"
    and schemas: "trusted x inp" "trusted x par" "\<forall>(j, sch) \<in> set outputs. trusted x sch"
    and at_step: "run_commits e (pw_definition p) c outs" "bt_get (wf_steps (pw_definition p)) (hd (trail c)) = Some step"
    and ctx: "validated_context inp par outputs outs ctx"
    and read: "(k, b) \<in> set (step_inputs step)" "(r, False) \<in> set (reads b)"
  shows "\<exists>v. reference e r ctx = Ok v"
proof -
  let ?i = "hd (trail c)" and ?base = "''/steps/'' @ hd (trail c)"
  note step = parsed_step [OF parse at_step(2)]
  obtain sets where sets: "availability (pw_definition p) = Ok sets"
      "check_step_references x decoded p sets inp par outputs (?i, step) = Ok ()"
    using check_availability_parts [OF checked] bt_get_in_set [OF at_step(2)] by metis
  have "binding_at (source_root decoded) (child (child ?base ''with'') k) b"
    using step(3) read(1) by (auto simp: inputs_located_def)
  moreover have "child (child ?base ''with'') k \<in> set (input_paths ?base step @ rule_paths ?base (bt_get (pw_rules p) ?i))"
    using read(1) by (force simp: input_paths_def bt_keys_def)
  ultimately obtain u where u: "u \<in> set (uses_at (source_root decoded) (input_paths ?base step @ rule_paths ?base (bt_get (pw_rules p) ?i)))"
      "use_reference u = r" "\<not> use_optional u"
    using uses_at_finds [OF _ _ read(2)] by blast
  obtain available where av: "bt_get sets ?i = Some available" "check_reference x u ?i available Own_Unavailable inp par outputs = Ok ()"
    using check_step_parts(1) [OF sets(2) u(1)] by blast
  have "j \<in> outs" if "step_reference_allowed ?i available Own_Unavailable False j" for j
    using available_committed [OF step(1) valid sets(1) at_step(1) av(1)] that by (auto simp: step_reference_allowed_def Let_def)
  from checked_reference_exists [OF av(2) u(3) schemas ctx this] show ?thesis
    using u(2) by simp
qed

lemma inputs_never_missing:
  assumes "parse_workflow w decoded version = Ok p" "validate (pw_definition p) = Ok graph"
    "check_availability x decoded p inp par outputs = Ok ()"
    "trusted x inp" "trusted x par" "\<forall>(j, sch) \<in> set outputs. trusted x sch"
    "run_commits e (pw_definition p) c outs" "bt_get (wf_steps (pw_definition p)) (hd (trail c)) = Some step"
    "validated_context inp par outputs outs ctx"
  shows "resolve_inputs e (step_inputs step) ctx limits \<noteq> Err (name, Missing m)"
proof
  assume err: "resolve_inputs e (step_inputs step) ctx limits = Err (name, Missing m)"
  have "\<forall>kb \<in> set (step_inputs step). safe_binding (snd kb)"
    using parsed_step(2) [OF assms(1,8)] by (auto simp: step_valid_def safe_binding_def)
  from resolve_inputs_Err [OF this err] obtain k b where b: "(k, b) \<in> set (step_inputs step)" "denote e ctx b = Err (Missing m)"
    by auto
  obtain r where "(r, False) \<in> set (reads b)" "reference e r ctx = Err (Missing m)"
    using denote_missing [OF b(2)] by blast
  moreover from this(1) have "\<exists>v. reference e r ctx = Ok v"
    by (rule required_reads_exist [OF assms b(1)])
  ultimately show False by auto
qed

end
