(* ===== verification/Fact_Budget.thy ===== *)
theory Fact_Budget
  imports Schema_Facts Wire
begin

text \<open>
  The budget of compiled facts, \<open>src/src/application/workflow/compiler/fact_budget.rs\<close>, and the
  accounting of step descriptors in \<open>compile.rs\<close>. The compiler charges the descriptors of a workflow
  piece by piece, without building the document that it later stores; the total is shown to be
  that of the document, so that the two ways of counting accept the same workflows.
\<close>

section \<open>Model\<close>

subsection \<open>\<open>FactBudget\<close>\<close>

definition MAX_COMPILED_FACT_BYTES :: nat where
  "MAX_COMPILED_FACT_BYTES = 1048576"

record fact_budget =
  fact_remaining :: nat
  fact_nodes :: nat
  fact_span :: source_span

definition FactBudget_new :: "source_span \<Rightarrow> fact_budget" where
  "FactBudget_new span = \<lparr>fact_remaining = MAX_COMPILED_FACT_BYTES, fact_nodes = 65536, fact_span = span\<rparr>"

definition budget_error :: "fact_budget \<Rightarrow> diagnostic" where
  "budget_error b = Diagnostic_at ''dependency.limit''
     ''Expanded descriptor and dependency facts exceed byte or work limits'' ''/steps'' (fact_span b)"

text \<open>\<open>Write::write\<close>, which \<open>serde_json::to_writer\<close> calls with every chunk.\<close>

definition fact_write :: "string \<Rightarrow> fact_budget \<Rightarrow> fact_budget option" where
  "fact_write bytes b =
     map_option (\<lambda>left. b\<lparr>fact_remaining := left\<rparr>) (checked_sub (fact_remaining b) (length bytes))"

definition charge_facts :: "'n schema_externals \<Rightarrow> 'n json \<Rightarrow> fact_budget \<Rightarrow> (fact_budget, diagnostic) outcome" where
  "charge_facts x v b = ok_or (charge_all fact_write (schema_writer x v) b) (budget_error b)"

definition punctuation :: "nat \<Rightarrow> fact_budget \<Rightarrow> (fact_budget, diagnostic) outcome" where
  "punctuation bytes b =
     bindr (ok_or (checked_sub (fact_remaining b) bytes) (budget_error b)) (\<lambda>left. Ok (b\<lparr>fact_remaining := left\<rparr>))"

function visit_facts :: "nat \<Rightarrow> 'n json \<Rightarrow> fact_budget \<Rightarrow> (fact_budget, diagnostic) outcome" where
  "visit_facts depth v b =
     (if depth > 64 \<or> fact_nodes b = 0 then Err (budget_error b)
      else (let b' = b\<lparr>fact_nodes := fact_nodes b - 1\<rparr> in
        (case v of
           VObject m \<Rightarrow> for_each (\<lambda>kv. visit_facts (depth + 1) (snd kv)) m b'
         | VArray vs \<Rightarrow> for_each (visit_facts (depth + 1)) vs b'
         | _ \<Rightarrow> Ok b')))"
  by pat_completeness auto
termination
  by (relation "measure (\<lambda>(depth, _, _). 65 - depth)") auto

declare visit_facts.simps [simp del]

definition charge_schema :: "'n schema_externals \<Rightarrow> 'n json \<Rightarrow> fact_budget \<Rightarrow> (fact_budget, diagnostic) outcome" where
  "charge_schema x v b = bindr (visit_facts 0 v b) (charge_facts x v)"

subsection \<open>Descriptors\<close>

datatype route_contract = Contract_Success | Contract_Choices "choice_name btree_set"

datatype control_kind = Control_None | Control_ChildCall | Control_Repeat

record 'n step_descriptor =
  descriptor_type :: type_name
  descriptor_input :: "'n json"
  descriptor_output :: "'n json"
  descriptor_routes :: route_contract
  descriptor_control :: control_kind
  descriptor_rule :: bool

fun control_text :: "control_kind \<Rightarrow> string" where
  "control_text Control_None = ''None''"
| "control_text Control_ChildCall = ''ChildCall''"
| "control_text Control_Repeat = ''Repeat''"

text \<open>
  The borrowed form of a descriptor as it is serialized: the fields of a struct in the order of
  their declaration. As a \<open>serde_json::Value\<close> the same fields are ordered by name.
\<close>

definition descriptor_fact :: "'n step_descriptor \<Rightarrow> (string \<times> 'n json) list" where
  "descriptor_fact d =
     [(''type'', VString (descriptor_type d)), (''input_schema'', descriptor_input d),
      (''output_schema'', descriptor_output d),
      (''routes'', case descriptor_routes d of
          Contract_Success \<Rightarrow> VObject [(''success'', VBool True)]
        | Contract_Choices names \<Rightarrow> VObject [(''choices'', VArray (map VString names))]),
      (''control'', VString (control_text (descriptor_control d))),
      (''ordered_rule'', VBool (descriptor_rule d))]"

definition charge_descriptor ::
    "'n schema_externals \<Rightarrow> step_id \<Rightarrow> 'n step_descriptor \<Rightarrow> 'n json \<Rightarrow> fact_budget \<Rightarrow> (fact_budget, diagnostic) outcome" where
  "charge_descriptor x i d registration b =
     bindr (charge_facts x (VString i) b) (\<lambda>b.
     bindr (punctuation 1 b) (\<lambda>b.
     charge_facts x (VObject [(''contract'', VObject (descriptor_fact d)), (''registration'', registration)]) b))"

text \<open>The facts of a step in the stored document.\<close>

definition step_fact :: "'n step_descriptor \<Rightarrow> 'n json \<Rightarrow> 'n json" where
  "step_fact d registration =
     VObject [(''contract'', VObject (bt_of (descriptor_fact d))), (''registration'', registration)]"

type_synonym dependency_facts = "(string, string list) btree_map"

definition dependencies_value :: "dependency_facts \<Rightarrow> 'n json" where
  "dependencies_value deps = VObject (map (\<lambda>(i, children). (i, VArray (map VString children))) deps)"

record ('n, 'c) specialized_descriptor =
  specialized_descriptor :: "'n step_descriptor"
  specialized_facts :: "'n json"
  specialized_checks :: "'c list"

definition check_expanded_facts ::
    "'n schema_externals \<Rightarrow> (step_id, ('n, 'c) specialized_descriptor) btree_map \<Rightarrow> dependency_facts \<Rightarrow> source_span
      \<Rightarrow> (unit, diagnostic) outcome" where
  "check_expanded_facts x descriptors deps span =
     bindr (punctuation 5 (FactBudget_new span)) (\<lambda>b.
     bindr (for_each (\<lambda>(index, i, d) b.
         bindr (punctuation (if index > 0 then 1 else 0) b) (\<lambda>b.
         charge_descriptor x i (specialized_descriptor d) (specialized_facts d) b)) (enumerate 0 descriptors) b) (\<lambda>b.
     bindr (charge_facts x (dependencies_value deps) b) (\<lambda>_. Ok ())))"

text \<open>The reference that the tests compare it with: charge the whole document at once.\<close>

definition check_fact_budget ::
    "'n schema_externals \<Rightarrow> (string, 'n json) btree_map \<Rightarrow> dependency_facts \<Rightarrow> source_span \<Rightarrow> (unit, diagnostic) outcome" where
  "check_fact_budget x descriptors deps span =
     bindr (charge_facts x (VArray [VObject descriptors, dependencies_value deps]) (FactBudget_new span)) (\<lambda>_. Ok ())"

section \<open>Exact accounting\<close>

interpretation fact_bytes: allowance fact_write length fact_remaining "\<lambda>_. True"
  by unfold_locales (auto simp: fact_write_def)

text \<open>The length of the compact JSON text of a value, given the lengths of numbers and strings.\<close>

fun json_bytes :: "('n \<Rightarrow> nat) \<Rightarrow> (string \<Rightarrow> nat) \<Rightarrow> 'n json \<Rightarrow> nat" where
  "json_bytes num str VNull = 4"
| "json_bytes num str (VBool b) = (if b then 4 else 5)"
| "json_bytes num str (VNumber n) = num n"
| "json_bytes num str (VString s) = str s"
| "json_bytes num str (VArray vs) = 2 + (length vs - 1) + sum_list (map (json_bytes num str) vs)"
| "json_bytes num str (VObject m) =
     2 + (length m - 1) + sum_list (map (\<lambda>kv. str (fst kv) + 1 + json_bytes num str (snd kv)) m)"

text \<open>What \<open>serde_json\<close> documents of its compact writer.\<close>

definition compact_writer :: "'n schema_externals \<Rightarrow> ('n \<Rightarrow> nat) \<Rightarrow> (string \<Rightarrow> nat) \<Rightarrow> bool" where
  "compact_writer x num str \<longleftrightarrow> (\<forall>v. sum_list (map length (schema_writer x v)) = json_bytes num str v)"

definition spend :: "nat \<Rightarrow> fact_budget \<Rightarrow> (fact_budget, diagnostic) outcome" where
  "spend n b = (if n \<le> fact_remaining b then Ok (b\<lparr>fact_remaining := fact_remaining b - n\<rparr>) else Err (budget_error b))"

lemma spend_spend: "bindr (spend m b) (spend n) = spend (m + n) b"
  by (auto simp: spend_def budget_error_def)

lemma spend_spend': "bindr (spend m b) (\<lambda>b. bindr (spend n b) f) = bindr (spend (m + n) b) f"
  by (auto simp: spend_def budget_error_def)

lemma punctuation_spend: "punctuation n = spend n"
  by (auto simp: punctuation_def spend_def checked_sub_def fun_eq_iff)

lemma charge_all_writes:
  "charge_all fact_write cs b = Some b' \<Longrightarrow> b' = b\<lparr>fact_remaining := fact_remaining b - sum_list (map length cs)\<rparr>"
proof (induction cs arbitrary: b)
  case (Cons c cs)
  then obtain t where t: "fact_write c b = Some t" "charge_all fact_write cs t = Some b'"
    by (auto simp: Option.bind_eq_Some_conv)
  then have "t = b\<lparr>fact_remaining := fact_remaining b - length c\<rparr>" by (auto simp: fact_write_def)
  with Cons.IH [OF t(2)] show ?case by simp
qed simp

lemma charge_facts_spend:
  assumes "compact_writer x num str"
  shows "charge_facts x v = spend (json_bytes num str v)"
proof
  fix b
  have bytes: "sum_list (map length (schema_writer x v)) = json_bytes num str v"
    using assms by (simp add: compact_writer_def)
  then have granted: "(\<exists>b'. charge_all fact_write (schema_writer x v) b = Some b') \<longleftrightarrow> json_bytes num str v \<le> fact_remaining b"
    using fact_bytes.all_granted_iff [where cs = "schema_writer x v" and s = b] by simp
  show "charge_facts x v b = spend (json_bytes num str v) b"
  proof (cases "charge_all fact_write (schema_writer x v) b")
    case None
    then show ?thesis using granted by (simp add: charge_facts_def spend_def)
  next
    case (Some b')
    then show ?thesis using granted charge_all_writes [OF Some] bytes by (auto simp: charge_facts_def spend_def)
  qed
qed

lemma for_each_spend: "for_each (\<lambda>c. spend (cost c)) cs b = spend (sum_list (map cost cs)) b"
proof (induction cs arbitrary: b)
  case (Cons c cs)
  then have "for_each (\<lambda>c. spend (cost c)) cs = spend (sum_list (map cost cs))" by blast
  then show ?case by (simp add: spend_spend)
qed (simp add: spend_def)

lemma json_bytes_bt_of:
  assumes "distinct (map fst fs)"
  shows "json_bytes num str (VObject (bt_of fs)) = json_bytes num str (VObject fs)"
proof -
  have ok: "bt_ok (bt_of fs)" "set (bt_of fs) = set fs"
    using bt_of_distinct [OF assms] by auto
  then have "distinct (map fst (bt_of fs))" by (simp add: bt_ok_def strict_sorted_iff)
  then have "distinct (bt_of fs)" "distinct fs" using assms by (auto simp: distinct_map)
  then have "length (bt_of fs) = length fs" "sum_list (map f (bt_of fs)) = sum_list (map f fs)" for f :: "_ \<Rightarrow> nat"
    using ok(2) by (metis distinct_card, simp add: sum_list_distinct_conv_sum_set)
  then show ?thesis by simp
qed

lemma descriptor_fact_distinct: "distinct (map fst (descriptor_fact d))"
  by (simp add: descriptor_fact_def)

lemma step_fact_bytes:
  "json_bytes num str (step_fact d registration)
    = json_bytes num str (VObject [(''contract'', VObject (descriptor_fact d)), (''registration'', registration)])"
  using json_bytes_bt_of [OF descriptor_fact_distinct, of num str d] by (simp add: step_fact_def)

lemma charge_descriptor_spend:
  assumes "compact_writer x num str"
  shows "charge_descriptor x i d registration
    = spend (str i + 1 + json_bytes num str (step_fact d registration))"
  by (simp add: fun_eq_iff charge_descriptor_def charge_facts_spend [OF assms] punctuation_spend spend_spend spend_spend'
      step_fact_bytes add.assoc json_bytes.simps(4) del: One_nat_def json_bytes.simps(6))

lemma sum_enumerated:
  "sum_list (map (\<lambda>(index, e). (if index > 0 then 1 else 0) + cost e) (enumerate k es))
    = (length es - (if k = 0 then 1 else 0)) + sum_list (map cost es)"
proof (induction es arbitrary: k)
  case (Cons e es)
  then show ?case using Cons.IH [of "Suc k"] by auto
qed simp

text \<open>A writer with one byte for a number and two for the quotes of a string, and a descriptor.\<close>

definition counting_writer :: "int schema_externals" where
  "counting_writer = sample_vocabulary\<lparr>schema_writer :=
     \<lambda>v. [replicate (json_bytes (\<lambda>_. 1) (\<lambda>s. length s + 2) v) CHR ''.'']\<rparr>"

definition sample_descriptor :: "int step_descriptor" where
  "sample_descriptor = \<lparr>descriptor_type = ''data.map'', descriptor_input = VObject [], descriptor_output = VBool True,
     descriptor_routes = Contract_Choices [''no'', ''yes''], descriptor_control = Control_None, descriptor_rule = False\<rparr>"

lemma counting_writer_compact: "compact_writer counting_writer (\<lambda>_. 1) (\<lambda>s. length s + 2)"
  by (simp add: compact_writer_def counting_writer_def)

text \<open>
  C15. The incremental accounting of descriptors and dependencies accepts a workflow exactly if the
  document of its facts, written at once, fits the budget, and it reports the same error.
\<close>

theorem fact_accounting_is_exact:
  fixes descriptors :: "(step_id, ('n, 'c) specialized_descriptor) btree_map"
  assumes "compact_writer x num str"
  shows "check_expanded_facts x descriptors deps span
    = check_fact_budget x (map (\<lambda>(i, d). (i, step_fact (specialized_descriptor d) (specialized_facts d))) descriptors) deps span"
proof -
  let ?cost = "\<lambda>(i, d :: ('n, 'c) specialized_descriptor).
    str i + 1 + json_bytes num str (step_fact (specialized_descriptor d) (specialized_facts d))"
  have step: "(\<lambda>(index, i, d :: ('n, 'c) specialized_descriptor) b.
         bindr (punctuation (if index > 0 then 1 else 0) b) (\<lambda>b.
         charge_descriptor x i (specialized_descriptor d) (specialized_facts d) b))
      = (\<lambda>e. spend (case e of (index, e) \<Rightarrow> (if index > 0 then 1 else 0) + ?cost e))"
    by (auto simp: fun_eq_iff punctuation_spend charge_descriptor_spend [OF assms] spend_spend)
  have "check_expanded_facts x descriptors deps span
      = bindr (spend (5 + (length descriptors - 1 + sum_list (map ?cost descriptors)) + json_bytes num str (dependencies_value deps :: 'n json))
          (FactBudget_new span)) (\<lambda>_. Ok ())"
    unfolding check_expanded_facts_def step for_each_spend charge_facts_spend [OF assms] sum_enumerated
    by (simp add: punctuation_spend spend_spend' add.assoc)
  then show ?thesis
    by (simp add: check_fact_budget_def charge_facts_spend [OF assms] comp_def case_prod_unfold algebra_simps eval_nat_numeral)
qed

theorem fact_accounting_is_exact_witness:
  "check_expanded_facts counting_writer
     [(''a'', \<lparr>specialized_descriptor = sample_descriptor, specialized_facts = VNull, specialized_checks = [] :: unit list\<rparr>)]
     [(''w'', [''v''])] sample_span = Ok ()"
  unfolding fact_accounting_is_exact [OF counting_writer_compact]
  by (simp add: check_fact_budget_def charge_facts_spend [OF counting_writer_compact] spend_def FactBudget_new_def
      MAX_COMPILED_FACT_BYTES_def dependencies_value_def step_fact_bytes descriptor_fact_def sample_descriptor_def)

end
