(* ===== verification/Input_Checks.thy ===== *)
theory Input_Checks
  imports Shape_Facts Bounded_Text
begin

text \<open>
  The checks on the inputs of a step that a schema cannot state,
  \<open>src/src/application/workflow/registry/checks.rs\<close>. They run on the literal inputs when a workflow
  is compiled and on all resolved inputs before a step is handed to its handler. The parsers of
  instants and UUIDs are not in the repository; the checks of the classifier \<open>jev\<close> compare
  floating-point numbers and are an argument.
\<close>

section \<open>Model\<close>

datatype input_check = Check_Deadline | Check_Approval | Check_Http | Check_Message | Check_Jev

record 'n check_externals =
  rfc3339_is_valid :: "string \<Rightarrow> bool" \<comment> \<open>\<open>DateTime::parse_from_rfc3339\<close>\<close>
  check_uuid :: "string \<Rightarrow> uuid option" \<comment> \<open>\<open>Uuid::parse_str\<close>\<close>
  jev_inputs_error :: "'n json \<Rightarrow> string option" \<comment> \<open>\<open>jev::validate_inputs\<close>: the message of a refusal\<close>

definition MAX_SUBJECT_BYTES :: nat where
  "MAX_SUBJECT_BYTES = 998"

definition MAX_BODY_BYTES :: nat where
  "MAX_BODY_BYTES = 1000000"

definition check_error :: "string \<Rightarrow> string \<Rightarrow> string \<Rightarrow> string \<Rightarrow> source_span \<Rightarrow> diagnostic" where
  "check_error code message at field span = Diagnostic_at code message (at @ ''/'' @ escape field) span"

definition contains_str :: "string \<Rightarrow> string \<Rightarrow> bool" where
  "contains_str part s \<longleftrightarrow> split_once_str part s \<noteq> None"

definition to_ascii_lowercase :: "string \<Rightarrow> string" where
  "to_ascii_lowercase = map (\<lambda>c. if 65 \<le> byte_of c \<and> byte_of c \<le> 90 then char_of (byte_of c + 32) else c)"

definition http_path_valid :: "string \<Rightarrow> bool" where
  "http_path_valid s \<longleftrightarrow> s \<noteq> [] \<and> take 2 s \<noteq> ''//'' \<and> \<not> contains_str ''://'' s \<and> CHR 0x5C \<notin> set s
     \<and> \<not> list_ex (\<lambda>c. is_control c \<or> is_whitespace c) (str_chars s) \<and> CHR ''#'' \<notin> set s
     \<and> CHR '':'' \<notin> set (hd (split_on CHR ''/'' s))"

definition FORBIDDEN_HEADERS :: "string list" where
  "FORBIDDEN_HEADERS = [''authorization'', ''proxy-authorization'', ''cookie'', ''set-cookie'', ''host'', ''x-api-key'', ''api-key'']"

definition header_forbidden :: "string \<times> 'n json \<Rightarrow> bool" where
  "header_forbidden h \<longleftrightarrow> to_ascii_lowercase (fst h) \<in> set FORBIDDEN_HEADERS
     \<or> (case as_str (snd h) of Some s \<Rightarrow> CHR 0x0D \<in> set s \<or> CHR 0x0A \<in> set s | None \<Rightarrow> False)"

definition check_http :: "'n json \<Rightarrow> string \<Rightarrow> source_span \<Rightarrow> (unit, diagnostic) outcome" where
  "check_http inputs at span =
     bindr (case json_get inputs ''path'' of
         Some p \<Rightarrow>
           if (case as_str p of Some s \<Rightarrow> http_path_valid s | None \<Rightarrow> False) then Ok ()
           else Err (check_error ''registry.http_path''
             ''Use a relative HTTP path without an origin, fragment or control characters'' at ''path'' span)
       | None \<Rightarrow> Ok ()) (\<lambda>_.
     (case Option.bind (json_get inputs ''headers'') as_object of
        None \<Rightarrow> Ok ()
      | Some headers \<Rightarrow>
          for_each (\<lambda>h _. if header_forbidden h
            then Err (check_error ''registry.http_header''
              ''Credentials, origin overrides and line breaks are forbidden in workflow headers'' (at @ ''/headers'') (fst h) span)
            else Ok ()) headers ()))"

definition longer_than :: "nat \<Rightarrow> 'n json option \<Rightarrow> bool" where
  "longer_than n v \<longleftrightarrow> (case Option.bind v as_str of Some s \<Rightarrow> length s > n | None \<Rightarrow> False)"

definition check_content :: "'n json \<Rightarrow> string \<Rightarrow> source_span \<Rightarrow> (unit, diagnostic) outcome" where
  "check_content inputs at span =
     (case Option.bind (json_get inputs ''content'') as_object of
        None \<Rightarrow> Ok ()
      | Some content \<Rightarrow>
          if longer_than MAX_SUBJECT_BYTES (bt_get content ''subject'')
          then Err (check_error ''registry.message_subject'' ''A message subject is at most 998 UTF-8 bytes''
            (at @ ''/content'') ''subject'' span)
          else if longer_than MAX_BODY_BYTES (bt_get content ''body'')
          then Err (check_error ''registry.message_body'' ''A message body exceeds the canonical byte bound''
            (at @ ''/content'') ''body'' span)
          else Ok ())"

text \<open>The kind and the identity of a destination, if both are as they should be.\<close>

definition destination_of :: "'n check_externals \<Rightarrow> 'n json \<Rightarrow> (string \<times> uuid) option" where
  "destination_of e d =
     (case Option.bind (json_get d ''kind'') as_str of
        None \<Rightarrow> None
      | Some kind \<Rightarrow>
          if kind = ''user'' \<or> kind = ''channel''
          then map_option (Pair kind) (Option.bind (Option.bind (json_get d ''id'') as_str) (check_uuid e))
          else None)"

definition check_message :: "'n check_externals \<Rightarrow> 'n json \<Rightarrow> string \<Rightarrow> source_span \<Rightarrow> (unit, diagnostic) outcome" where
  "check_message e inputs at span =
     bindr (check_content inputs at span) (\<lambda>_.
     (case Option.bind (json_get inputs ''destinations'') as_array of
        None \<Rightarrow> Ok ()
      | Some destinations \<Rightarrow>
          bindr (for_each (\<lambda>d seen.
            (case destination_of e d of
               Some key \<Rightarrow>
                 if key \<in> seen
                 then Err (check_error ''registry.message_destination''
                   ''Destinations are distinct users or channels named by UUID'' at ''destinations'' span)
                 else Ok (insert key seen)
             | None \<Rightarrow> Err (check_error ''registry.message_destination''
                 ''Destinations are distinct users or channels named by UUID'' at ''destinations'' span))) destinations {})
            (\<lambda>_. Ok ())))"

definition check_deadline :: "'n check_externals \<Rightarrow> 'n json \<Rightarrow> string \<Rightarrow> source_span \<Rightarrow> (unit, diagnostic) outcome" where
  "check_deadline e inputs at span =
     (case json_get inputs ''deadline'' of
        None \<Rightarrow> Ok ()
      | Some deadline \<Rightarrow>
          if (case as_str deadline of None \<Rightarrow> True | Some s \<Rightarrow> \<not> rfc3339_is_valid e s)
          then Err (check_error ''registry.deadline'' ''Use an RFC3339 deadline with a timezone'' at ''deadline'' span)
          else Ok ())"

fun InputCheck_validate ::
    "'n check_externals \<Rightarrow> input_check \<Rightarrow> 'n json \<Rightarrow> string \<Rightarrow> source_span \<Rightarrow> (unit, diagnostic) outcome" where
  "InputCheck_validate e Check_Deadline inputs at span = check_deadline e inputs at span"
| "InputCheck_validate e Check_Approval inputs at span =
     (case json_get inputs ''approval'' of
        None \<Rightarrow> Ok ()
      | Some approval \<Rightarrow> check_deadline e approval (at @ ''/approval'') span)"
| "InputCheck_validate e Check_Http inputs at span = check_http inputs at span"
| "InputCheck_validate e Check_Message inputs at span = check_message e inputs at span"
| "InputCheck_validate e Check_Jev inputs at span =
     (case jev_inputs_error e inputs of
        None \<Rightarrow> Ok ()
      | Some message \<Rightarrow> Err (Diagnostic_at ''registry.jev'' message at span))"

section \<open>Relative references\<close>

text \<open>
  A URI reference in the sense of RFC 3986: a scheme is the text before a colon that precedes every
  slash, question mark and hash; an authority follows two slashes after the scheme, if any.
\<close>

definition scheme_end :: "string \<Rightarrow> string" where
  "scheme_end s = dropWhile (\<lambda>c. c \<notin> {CHR '':'', CHR ''/'', CHR ''?'', CHR ''#''}) s"

definition has_scheme :: "string \<Rightarrow> bool" where
  "has_scheme s \<longleftrightarrow> (\<exists>rest. scheme_end s = CHR '':'' # rest)"

definition has_authority :: "string \<Rightarrow> bool" where
  "has_authority s \<longleftrightarrow> (let rest = (if has_scheme s then tl (scheme_end s) else s) in take 2 rest = ''//'')"

definition has_fragment :: "string \<Rightarrow> bool" where
  "has_fragment s \<longleftrightarrow> CHR ''#'' \<in> set s"

lemma first_segment: "hd (split_on c s) = takeWhile (\<lambda>x. x \<noteq> c) s"
proof (induction s)
  case (Cons x s)
  then show ?case by (cases "split_on c s") auto
qed simp

lemma scheme_in_first_segment:
  assumes "has_scheme s"
  shows "CHR '':'' \<in> set (hd (split_on CHR ''/'' s))"
proof -
  obtain rest where "scheme_end s = CHR '':'' # rest"
    using assms by (auto simp: has_scheme_def)
  then show ?thesis
    unfolding first_segment scheme_end_def by (induction s) (auto split: if_splits)
qed

text \<open>A header name spelt with any capitals.\<close>

definition spells :: "string \<Rightarrow> string \<Rightarrow> bool" where
  "spells name lower \<longleftrightarrow>
     list_all2 (\<lambda>c d. c = d \<or> c \<in> {CHR ''A'' .. CHR ''Z''} \<and> (of_char d :: nat) = of_char c + 32) name lower"

lemma spells_lowercase:
  assumes "spells name lower" and "\<forall>d \<in> set lower. d \<notin> {CHR ''A'' .. CHR ''Z''}"
  shows "to_ascii_lowercase name = lower"
proof -
  have letter: "c \<in> {CHR ''A'' .. CHR ''Z''} \<longleftrightarrow> 65 \<le> byte_of c \<and> byte_of c \<le> 90" for c
    by (simp add: byte_of_def less_eq_char_def)
  have shifted: "char_of (byte_of c + 32) = d" if "(of_char d :: nat) = of_char c + 32" for c d
    using that by (metis byte_of_def char_of_char)
  show ?thesis
    using assms unfolding spells_def to_ascii_lowercase_def letter
    by (induction rule: list_all2_induct) (auto intro: shifted)
qed

text \<open>
  C16. A path that the check of HTTP inputs accepts is a relative reference without a fragment: it has no
  scheme and no authority, so the request goes to the origin of the connection that the step
  names. No header that it accepts is an authorization, a cookie, an API key or a host header, under
  any capitalization of these seven names, and no text given as the value of a header breaks a line.
\<close>

theorem checked_http_inputs_keep_the_origin:
  assumes "InputCheck_validate e Check_Http inputs at span = Ok ()"
  shows "(\<forall>p. json_get inputs ''path'' = Some p \<longrightarrow>
        (\<exists>s. p = VString s \<and> s \<noteq> [] \<and> \<not> has_scheme s \<and> \<not> has_authority s \<and> \<not> has_fragment s))
    \<and> (\<forall>headers name v. json_get inputs ''headers'' = Some (VObject headers) \<longrightarrow> (name, v) \<in> set headers
        \<longrightarrow> \<not> spells name ''authorization'' \<and> \<not> spells name ''proxy-authorization'' \<and> \<not> spells name ''cookie''
          \<and> \<not> spells name ''set-cookie'' \<and> \<not> spells name ''host'' \<and> \<not> spells name ''x-api-key'' \<and> \<not> spells name ''api-key''
          \<and> (\<forall>s. v = VString s \<longrightarrow> CHR 0x0D \<notin> set s \<and> CHR 0x0A \<notin> set s))"
proof (intro conjI allI impI)
  fix p assume "json_get inputs ''path'' = Some p"
  then have "case as_str p of Some s \<Rightarrow> http_path_valid s | None \<Rightarrow> False"
    using assms by (auto simp: check_http_def split: if_splits)
  then obtain s where s: "p = VString s" "http_path_valid s"
    by (cases p) (auto simp: as_str_def)
  then have "\<not> has_scheme s" using scheme_in_first_segment by (auto simp: http_path_valid_def)
  then show "\<exists>s. p = VString s \<and> s \<noteq> [] \<and> \<not> has_scheme s \<and> \<not> has_authority s \<and> \<not> has_fragment s"
    using s by (auto simp: http_path_valid_def has_authority_def has_fragment_def)
next
  fix headers name v
  assume "json_get inputs ''headers'' = Some (VObject headers)" "(name, v) \<in> set headers"
  then have "\<not> header_forbidden (name, v)"
    using assms by (auto simp: check_http_def as_object_def for_each_unit split: if_splits)
  then have allowed: "to_ascii_lowercase name \<notin> set FORBIDDEN_HEADERS"
      and "\<And>s. v = VString s \<Longrightarrow> CHR 0x0D \<notin> set s" "\<And>s. v = VString s \<Longrightarrow> CHR 0x0A \<notin> set s"
    by (auto simp: header_forbidden_def as_str_def)
  then show "\<And>s. v = VString s \<Longrightarrow> CHR 0x0D \<notin> set s" "\<And>s. v = VString s \<Longrightarrow> CHR 0x0A \<notin> set s"
    by blast+
  have "\<not> spells name h" if "h \<in> set FORBIDDEN_HEADERS" "list_all (\<lambda>d. d \<notin> {CHR ''A'' .. CHR ''Z''}) h" for h
    using allowed spells_lowercase [of name h] that by (auto simp: list_all_iff)
  then show "\<not> spells name ''authorization''" "\<not> spells name ''proxy-authorization''" "\<not> spells name ''cookie''"
      "\<not> spells name ''set-cookie''" "\<not> spells name ''host''" "\<not> spells name ''x-api-key''" "\<not> spells name ''api-key''"
    by (simp_all add: FORBIDDEN_HEADERS_def less_eq_char_def)
qed

definition sample_checks :: "int check_externals" where
  "sample_checks = \<lparr>rfc3339_is_valid = (\<lambda>_. True), check_uuid = (\<lambda>_. None), jev_inputs_error = (\<lambda>_. None)\<rparr>"

theorem checked_http_inputs_keep_the_origin_witness:
  "InputCheck_validate sample_checks Check_Http
     (VObject [(''headers'', VObject [(''Accept'', VString ''text/csv'')]), (''path'', VString ''v1/items?q=1'')]) [] sample_span = Ok ()
   \<and> \<not> has_authority ''v1/items?q=1'' \<and> \<not> spells ''Accept'' ''cookie'' \<and> spells ''Cookie'' ''cookie''"
proof -
  let ?inputs = "VObject [(''headers'', VObject [(''Accept'', VString ''text/csv'')]), (''path'', VString ''v1/items?q=1'')] :: int json"
  have "http_path_valid ''v1/items?q=1''" "\<not> header_forbidden (''Accept'', VString ''text/csv'' :: int json)"
    by (simp_all add: http_path_valid_def header_forbidden_def contains_str_def str_chars_def byte_of_def is_control_def
        is_whitespace_def FORBIDDEN_HEADERS_def to_ascii_lowercase_def as_str_def)
  then have ok: "InputCheck_validate sample_checks Check_Http ?inputs [] sample_span = Ok ()"
    by (simp add: check_http_def json_get_def bt_get_def as_str_def as_object_def)
  from checked_http_inputs_keep_the_origin [OF this] show ?thesis
    using ok by (simp add: json_get_def bt_get_def spells_def less_eq_char_def)
qed

end
