(* ===== verification/Compile.thy ===== *)
theory Compile
  imports Analysis Dependencies Fact_Budget Input_Checks
begin

text \<open>
  The last phase of the compiler and the compiled workflow,
  \<open>src/src/application/workflow/compiler/compile.rs\<close>. It joins the parsed workflow with the
  descriptors of its steps: their routes and controls, the schemas of their inputs and outputs, the
  shapes of their bindings, the references they make. A compiled workflow validates what goes in
  and out of a run and prepares the inputs of its steps.

  The check of shapes has fuel; what runs it returns \<open>None\<close> when the fuel is used up.
\<close>

section \<open>Model\<close>

record ('n, 'd) compile_externals =
  cx_values :: "('n, 'd) externals"
  cx_schemas :: "'n schema_externals"
  cx_wire :: "'n wire_externals"
  cx_checks :: "'n check_externals"
  cx_number :: "nat \<Rightarrow> 'n" \<comment> \<open>\<open>serde_json::Number::from\<close>\<close>
  cx_sha256 :: "string \<Rightarrow> string" \<comment> \<open>the hexadecimal digest of \<open>Sha256\<close>\<close>
  cx_jev_output :: "'n json \<Rightarrow> string option" \<comment> \<open>\<open>jev::validate_output\<close>: the message of a refusal\<close>

text \<open>Sequencing and loops of phases that may not have returned.\<close>

type_synonym 'a phase = "('a, diagnostic) outcome option"

definition bindv :: "'a phase \<Rightarrow> ('a \<Rightarrow> 'b phase) \<Rightarrow> 'b phase" where
  "bindv m f =
     (case m of
        None \<Rightarrow> None
      | Some r \<Rightarrow> (case r of Ok a \<Rightarrow> f a | Err e \<Rightarrow> Some (Err e) | Panic \<Rightarrow> Some Panic))"

primrec for_eachv :: "('x \<Rightarrow> 's \<Rightarrow> 's phase) \<Rightarrow> 'x list \<Rightarrow> 's \<Rightarrow> 's phase" where
  "for_eachv f [] s = Some (Ok s)"
| "for_eachv f (x # xs) s = bindv (f x s) (for_eachv f xs)"

definition bs_of :: "'a::linorder list \<Rightarrow> 'a btree_set" where
  "bs_of xs = fold bs_insert xs []"

subsection \<open>Positions and diagnostics\<close>

text \<open>\<open>get(path).copied().unwrap_or(locations[""])\<close>: the default is read first, and panics if it is absent.\<close>

definition span_or_root :: "locations \<Rightarrow> string \<Rightarrow> (source_span, 'e) outcome" where
  "span_or_root spans at =
     bindr (expect (bt_get spans [])) (\<lambda>whole.
     Ok (case bt_get spans at of Some span \<Rightarrow> span | None \<Rightarrow> whole))"

definition located :: "'n parsed_workflow \<Rightarrow> string \<Rightarrow> (source_span, diagnostic) outcome" where
  "located p at = span_or_root (pw_locations p) at"

definition refuse :: "locations \<Rightarrow> string \<Rightarrow> string \<Rightarrow> string \<Rightarrow> string \<Rightarrow> ('a, diagnostic) outcome" where
  "refuse spans tag message at anchor = bindr (span_or_root spans anchor) (\<lambda>span. Err (Diagnostic_at tag message at span))"

primrec or_else_refuse :: "('a, 'e) outcome \<Rightarrow> ('e \<Rightarrow> ('a, diagnostic) outcome) \<Rightarrow> ('a, diagnostic) outcome" where
  "or_else_refuse (Ok a) f = Ok a"
| "or_else_refuse (Err e) f = f e"
| "or_else_refuse Panic f = Panic"

fun graph_error_text :: "graph_error \<Rightarrow> string" where
  "graph_error_text Empty = ''workflow has no steps''"
| "graph_error_text (TooManySteps actual most) = ''workflow has '' @ show_nat actual @ '' steps, limit '' @ show_nat most"
| "graph_error_text (TooManyRoutes most) = ''workflow has more than '' @ show_nat most @ '' routes''"
| "graph_error_text (InvalidExecutionLimit field actual most) =
     ''execution limit '' @ field @ '' must be 1..='' @ show_nat most @ '', got '' @ show_nat actual"
| "graph_error_text (MissingEntry i) = ''entry step '' @ i @ '' is missing''"
| "graph_error_text (MissingTarget i route target) = ''step '' @ i @ '' route '' @ route @ '' targets missing step '' @ target"
| "graph_error_text (DuplicateChoice i choice) = ''step '' @ i @ '' duplicates choice route '' @ choice"
| "graph_error_text (EmptyChoices i) = ''step '' @ i @ '' has no choices''"
| "graph_error_text (Cycle i) = ''workflow contains a cycle involving '' @ i"
| "graph_error_text (Unreachable i) = ''step '' @ i @ '' is unreachable from entry''"

fun graph_error_path :: "graph_error \<Rightarrow> string" where
  "graph_error_path (MissingEntry _) = ''/entry''"
| "graph_error_path (MissingTarget i route _) =
     (if route = ''success'' then ''/steps/'' @ i @ ''/routes/success''
      else if route = ''final_error'' then ''/steps/'' @ i @ ''/routes/error''
      else ''/steps/'' @ i @ ''/routes/choices/'' @ route)"
| "graph_error_path (DuplicateChoice i _) = ''/steps/'' @ i @ ''/routes/choices''"
| "graph_error_path (EmptyChoices i) = ''/steps/'' @ i @ ''/routes/choices''"
| "graph_error_path (Cycle i) = ''/steps/'' @ i"
| "graph_error_path (Unreachable i) = ''/steps/'' @ i"
| "graph_error_path (InvalidExecutionLimit field _ _) = ''/limits/'' @ field"
| "graph_error_path _ = ''/steps''"

definition graph_diagnostic :: "'n parsed_workflow \<Rightarrow> graph_error \<Rightarrow> ('a, diagnostic) outcome" where
  "graph_diagnostic p e = refuse (pw_locations p) ''graph.invalid'' (graph_error_text e) (graph_error_path e) (graph_error_path e)"

fun context_error_text :: "context_error \<Rightarrow> string" where
  "context_error_text (Missing t) = ''missing reference '' @ t"
| "context_error_text (InvalidReference t) = ''invalid reference '' @ t"
| "context_error_text (Limit t) = ''context limit exceeded: '' @ t"
| "context_error_text (Operand t) = ''binding operand type mismatch: '' @ t"

fun rule_error_text :: "rule_error \<Rightarrow> string" where
  "rule_error_text InvalidCases = ''rule must have at least one case and at most 256''"
| "rule_error_text (UnknownRuleChoice c) = ''rule selects undeclared choice '' @ c"
| "rule_error_text (Predicate e) = ''rule predicate failed: '' @ context_error_text e"
| "rule_error_text NonBoolean = ''rule predicate must resolve to a boolean''"

subsection \<open>Descriptors\<close>

definition routes_match :: "routes \<Rightarrow> route_contract \<Rightarrow> bool" where
  "routes_match routes contract =
     (case (routes, contract) of
        (Routes_Success _, Contract_Success) \<Rightarrow> True
      | (Routes_Choices actual, Contract_Choices declared) \<Rightarrow> bs_of (map fst actual) = declared
      | _ \<Rightarrow> False)"

fun control_matches :: "control_kind \<Rightarrow> 'n step_control option \<Rightarrow> bool" where
  "control_matches Control_None c = (c = None)"
| "control_matches Control_ChildCall c =
     (case c of None \<Rightarrow> False | Some c \<Rightarrow> max_iterations c = None \<and> control_repeat c = None)"
| "control_matches Control_Repeat c =
     (case c of None \<Rightarrow> False | Some c \<Rightarrow> max_iterations c \<noteq> None \<and> control_repeat c \<noteq> None)"

definition check_descriptor ::
    "step_id \<Rightarrow> 'n step_definition \<Rightarrow> 'n step_descriptor \<Rightarrow> 'n parsed_workflow \<Rightarrow> (unit, diagnostic) outcome" where
  "check_descriptor i step d p =
     (let at = ''/steps/'' @ i; no = refuse (pw_locations p) in
      if \<not> routes_match (step_routes step) (descriptor_routes d)
      then no ''step.routes'' ''Routes do not match the step descriptor'' (at @ ''/routes'') (at @ ''/routes'')
      else if descriptor_rule d \<and> descriptor_routes d = Contract_Success
      then no ''step.descriptor'' ''Ordered-rule descriptor must declare choice routes'' at at
      else if \<not> control_matches (descriptor_control d) (bt_get (pw_controls p) i)
      then no ''step.control'' ''Child control and repeat bounds do not match the descriptor'' at at
      else (case (descriptor_rule d, bt_get (pw_rules p) i) of
          (True, Some rule) \<Rightarrow>
            (case step_routes step of
               Routes_Choices choices \<Rightarrow>
                 or_else_refuse (rule_check rule (bs_of (map fst choices))) (\<lambda>e.
                   no ''rule.invalid'' (rule_error_text e) (at @ ''/rule'') (at @ ''/rule''))
             | Routes_Success _ \<Rightarrow> no ''step.descriptor'' ''Ordered rule requires choice routes'' at at)
        | (False, None) \<Rightarrow> Ok ()
        | _ \<Rightarrow> no ''rule.shape'' ''Ordered rule is required only by a rule descriptor'' (at @ ''/rule'') at))"

subsection \<open>Bindings of a step\<close>

definition binding_limits :: "'n parsed_workflow \<Rightarrow> context_limits" where
  "binding_limits p = \<lparr>output_bytes = max_context_bytes (wf_limits (pw_definition p)), work_nodes = 65536\<rparr>"

definition preflight_at ::
    "('n, 'd) compile_externals \<Rightarrow> 'n parsed_workflow \<Rightarrow> string \<Rightarrow> 'n binding \<Rightarrow> string \<Rightarrow> (unit, diagnostic) outcome" where
  "preflight_at x p message b at =
     or_else_refuse (preflight_binding (cx_values x) b (binding_limits p)) (\<lambda>_.
       refuse (pw_locations p) ''binding.limit'' message at at)"

definition check_input ::
    "nat \<Rightarrow> ('n, 'd) compile_externals \<Rightarrow> 'n parsed_workflow \<Rightarrow> 'n schema \<Rightarrow> string \<Rightarrow> string \<times> 'n binding \<Rightarrow> verdict" where
  "check_input fuel x p sch at entry =
     (let name = fst entry; b = snd entry; here = child at name in
      bindv (Some (preflight_at x p ''Binding exceeds depth, node or byte limits'' b here)) (\<lambda>_.
      bindv (Some (located p here)) (\<lambda>span.
      bindv (Some (check_operator_operands (cx_schemas x) b here span)) (\<lambda>_.
      every (\<lambda>c.
        (case child_schema_ref c name of
           None \<Rightarrow> Some (Ok ())
         | Some expected \<Rightarrow>
             if \<not> is_literal b \<and> is_known_empty (snd expected) (schema_raw sch)
             then Some (Err (Diagnostic_at ''binding.property'' ''Destination schema forbids this input'' here span))
             else check_binding_shape fuel (cx_schemas x) (schema_raw sch) span b expected here)) (root_constraints sch)))))"

definition check_inputs ::
    "nat \<Rightarrow> ('n, 'd) compile_externals \<Rightarrow> step_id \<Rightarrow> 'n step_definition \<Rightarrow> 'n schema \<Rightarrow> 'n parsed_workflow \<Rightarrow> verdict" where
  "check_inputs fuel x i step sch p =
     (let at = ''/steps/'' @ i @ ''/with'' in
      if \<not> object_possible sch
      then Some (refuse (pw_locations p) ''binding.type'' ''Step input schema cannot accept an object'' at at)
      else
        and_then (every (check_input fuel x p sch at) (step_inputs step))
        (every (\<lambda>c. every (\<lambda>name.
           if bt_contains (step_inputs step) name then Some (Ok ())
           else Some (refuse (pw_locations p) ''binding.required'' ''Required input binding is missing'' at at))
          (required_names (snd c))) (root_constraints sch)))"

definition boolean_schema :: "'n json" where
  "boolean_schema = VObject [(''type'', VString ''boolean'')]"

definition check_rule_predicates ::
    "nat \<Rightarrow> ('n, 'd) compile_externals \<Rightarrow> step_id \<Rightarrow> 'n parsed_workflow \<Rightarrow> verdict" where
  "check_rule_predicates fuel x i p =
     (case bt_get (pw_rules p) i of
        None \<Rightarrow> Some (Ok ())
      | Some rule \<Rightarrow>
          every (\<lambda>(index, c).
            let at = ''/steps/'' @ i @ ''/rule/cases/'' @ show_nat index @ ''/when'' in
            bindv (Some (preflight_at x p ''Rule predicate exceeds binding limits'' (case_when c) at)) (\<lambda>_.
            bindv (Some (located p at)) (\<lambda>span.
            check_binding_shape fuel (cx_schemas x) boolean_schema span (case_when c) ([], boolean_schema) at)))
            (enumerate 0 (cases rule)))"

definition check_repeat_bindings ::
    "nat \<Rightarrow> ('n, 'd) compile_externals \<Rightarrow> step_id \<Rightarrow> 'n schema \<Rightarrow> 'n parsed_workflow \<Rightarrow> verdict" where
  "check_repeat_bindings fuel x i sch p =
     (case Option.bind (bt_get (pw_controls p) i) control_repeat of
        None \<Rightarrow> Some (Ok ())
      | Some repeat \<Rightarrow>
          let next_at = ''/steps/'' @ i @ ''/repeat/next_input''; exit_at = ''/steps/'' @ i @ ''/repeat/exit_when'' in
          and_then (every (\<lambda>(b, at). Some (preflight_at x p ''Repeat binding exceeds depth, node or byte limits'' b at))
              [(next_input repeat, next_at), (exit_when repeat, exit_at)])
          (and_then (every (\<lambda>c.
               (case Option.bind (json_get (snd c) ''properties'') (\<lambda>ps. json_get ps ''input'') of
                  None \<Rightarrow> Some (Ok ())
                | Some expected \<Rightarrow>
                    bindv (Some (located p next_at)) (\<lambda>span.
                    check_binding_shape fuel (cx_schemas x) (schema_raw sch) span (next_input repeat)
                      (fst c @ [''properties'', ''input''], expected) next_at))) (root_constraints sch))
          (bindv (Some (located p exit_at)) (\<lambda>span.
           check_binding_shape fuel (cx_schemas x) boolean_schema span (exit_when repeat) ([], boolean_schema) exit_at))))"

subsection \<open>Compiling the steps\<close>

record 'n step_schemas =
  ss_inputs :: "(step_id, 'n schema) btree_map"
  ss_outputs :: "(step_id, 'n schema) btree_map"
  ss_facts :: "(string, 'n json) btree_map"

type_synonym 'n specialized = "('n, input_check) specialized_descriptor"

definition compile_step ::
    "nat \<Rightarrow> ('n, 'd) compile_externals \<Rightarrow> 'n parsed_workflow \<Rightarrow> (step_id, 'n specialized) btree_map
      \<Rightarrow> step_id \<times> 'n step_definition \<Rightarrow> 'n step_schemas \<Rightarrow> 'n step_schemas phase" where
  "compile_step fuel x p descriptors entry result =
     (let i = fst entry; step = snd entry; at = ''/steps/'' @ i; no = refuse (pw_locations p) in
      (case bt_get descriptors i of
         None \<Rightarrow> Some (no ''step.type'' ''Unknown step type'' (at @ ''/type'') (at @ ''/type''))
       | Some specialized \<Rightarrow>
           let d = specialized_descriptor specialized in
           if descriptor_type d \<noteq> step_type step
           then Some (no ''step.descriptor'' ''Descriptor key and type identity disagree'' (at @ ''/type'') (at @ ''/type''))
           else
             bindv (Some (check_descriptor i step d p)) (\<lambda>_.
             bindv (Some (located p (at @ ''/with''))) (\<lambda>with_span.
             bindv (Some (Schema_compile (cx_schemas x) (descriptor_input d) (at @ ''/with'') with_span)) (\<lambda>input_s.
             bindv (Some (located p at)) (\<lambda>span.
             bindv (Some (Schema_compile (cx_schemas x) (descriptor_output d) (at @ ''/output'') span)) (\<lambda>output_s.
             bindv (check_inputs fuel x i step input_s p) (\<lambda>_.
             bindv (check_rule_predicates fuel x i p) (\<lambda>_.
             bindv (check_repeat_bindings fuel x i input_s p) (\<lambda>_.
             Some (Ok \<lparr>ss_inputs = bt_insert i input_s (ss_inputs result), ss_outputs = bt_insert i output_s (ss_outputs result),
               ss_facts = bt_insert i (step_fact d (specialized_facts specialized)) (ss_facts result)\<rparr>)))))))))))"

definition compile_steps ::
    "nat \<Rightarrow> ('n, 'd) compile_externals \<Rightarrow> 'n parsed_workflow \<Rightarrow> (step_id, 'n specialized) btree_map \<Rightarrow> 'n step_schemas phase" where
  "compile_steps fuel x p descriptors =
     for_eachv (compile_step fuel x p descriptors) (wf_steps (pw_definition p)) \<lparr>ss_inputs = [], ss_outputs = [], ss_facts = []\<rparr>"

subsection \<open>Dependencies and identity\<close>

definition dependency_facts ::
    "('n, 'd) compile_externals \<Rightarrow> 'n parsed_workflow \<Rightarrow> dependency_graph \<Rightarrow> uuid btree_set \<Rightarrow> (dependency_facts, diagnostic) outcome" where
  "dependency_facts x p graph tool_workflows =
     (let show_id = uuid_to_string (cx_values x) in
      bindr (located p ''/steps'') (\<lambda>span.
      bindr (check_dependencies (workflow_id (pw_definition p))
          (bs_of (map (child_workflow_id \<circ> snd) (pw_controls p) @ tool_workflows)) graph span) (\<lambda>closure.
      Ok (bt_of (map (\<lambda>(i, children). (show_id i, map show_id children)) closure)))))"

definition check_resolved_budget ::
    "('n, 'd) compile_externals \<Rightarrow> 'n parsed_workflow \<Rightarrow> (step_id, 'n specialized) btree_map \<Rightarrow> dependency_graph
      \<Rightarrow> uuid btree_set \<Rightarrow> (unit, diagnostic) outcome" where
  "check_resolved_budget x p descriptors graph tool_workflows =
     bindr (dependency_facts x p graph tool_workflows) (\<lambda>deps.
     bindr (located p ''/steps'') (check_expanded_facts (cx_schemas x) descriptors deps))"

text \<open>\<open>u64::to_be_bytes\<close> of a length.\<close>

definition to_be_bytes :: "nat \<Rightarrow> string" where
  "to_be_bytes n = map (\<lambda>i. char_of (n div 256 ^ i mod 256)) [7, 6, 5, 4, 3, 2, 1, 0]"

text \<open>What is hashed: a fixed prefix, then both texts behind their lengths.\<close>

definition identity_text :: "string \<Rightarrow> string \<Rightarrow> string" where
  "identity_text source encoded =
     ''workflow-compiled-v1'' @ [CHR 0x00] @ to_be_bytes (length source) @ source @ to_be_bytes (length encoded) @ encoded"

definition identity :: "('n, 'd) compile_externals \<Rightarrow> string \<Rightarrow> 'n json \<Rightarrow> string" where
  "identity x source representation =
     cx_sha256 x (identity_text source (concat (schema_writer (cx_schemas x) representation)))"

text \<open>\<open>TokenAllowance::policy\<close>.\<close>

definition token_policy :: "('n, 'd) compile_externals \<Rightarrow> token_allowance \<Rightarrow> 'n json" where
  "token_policy x t =
     VObject [(''max_tokens'', VNumber (cx_number x (unat (max_tokens t)))),
       (''reviewers'', VArray (map (\<lambda>i. VObject [(''id'', VString (uuid_to_string (cx_values x) i)), (''kind'', VString ''user'')])
          (reviewers t)))]"

definition representation ::
    "('n, 'd) compile_externals \<Rightarrow> 'n json \<Rightarrow> (string, 'n json) btree_map \<Rightarrow> dependency_facts \<Rightarrow> root_budget_limits \<Rightarrow> 'n json" where
  "representation x definition_value facts deps budget =
     (let count = (\<lambda>r. VNumber (cx_number x (unat (limit budget r)))) in
      VObject
        [(''definition'', definition_value), (''dependencies'', dependencies_value deps), (''descriptors'', VObject facts),
         (''format'', VString ''workflow-compiled-v1''),
         (''root_budget'', VObject ([(''activations'', count Activation), (''model_calls'', count ModelCall),
            (''repetitions'', count Repetition)]
            @ (case tokens budget of None \<Rightarrow> [] | Some t \<Rightarrow> [(''tokens'', token_policy x t)])))])"

subsection \<open>The compiled workflow\<close>

record 'n compiled_workflow =
  cw_source :: string
  cw_representation :: "'n json"
  cw_source_map :: locations
  cw_content_hash :: string
  cw_graph :: "'n validated_workflow"
  cw_input :: "'n schema"
  cw_params :: "'n schema"
  cw_output :: "'n schema"
  cw_step_inputs :: "(step_id, 'n schema) btree_map"
  cw_step_outputs :: "(step_id, 'n schema) btree_map"
  cw_rules :: "(step_id, 'n ordered_rule) btree_map"
  cw_controls :: "(step_id, 'n step_control) btree_map"
  cw_checks :: "(step_id, input_check list) btree_map"

definition compile_resolved ::
    "nat \<Rightarrow> ('n, 'd) compile_externals \<Rightarrow> 'n decoded_source \<Rightarrow> 'n parsed_workflow \<Rightarrow> (step_id, 'n specialized) btree_map
      \<Rightarrow> dependency_graph \<Rightarrow> uuid btree_set \<Rightarrow> 'n compiled_workflow phase" where
  "compile_resolved fuel x decoded p descriptors graph tool_workflows =
     (let d = pw_definition p;
          schema_at = (\<lambda>s at. bindr (expect s) (\<lambda>s. bindr (located p at) (Schema_compile (cx_schemas x) s at))) in
      bindv (Some (dependency_facts x p graph tool_workflows)) (\<lambda>deps.
      bindv (Some (bindr (located p ''/steps'') (check_expanded_facts (cx_schemas x) descriptors deps))) (\<lambda>_.
      bindv (Some (or_else_refuse (validate d) (graph_diagnostic p))) (\<lambda>graph'.
      bindv (Some (schema_at (input_schema d) ''/input_schema'')) (\<lambda>input_s.
      bindv (Some (schema_at (parameter_schema d) ''/parameter_schema'')) (\<lambda>params_s.
      bindv (Some (schema_at (output_schema d) ''/output_schema'')) (\<lambda>output_s.
      bindv (compile_steps fuel x p descriptors) (\<lambda>steps.
      bindv (Some (check_availability (cx_schemas x) decoded p input_s params_s (ss_outputs steps))) (\<lambda>_.
      bindv (Some (json_value (source_root decoded) [])) (\<lambda>definition_value.
      let rep = representation x definition_value (ss_facts steps) deps (root_budget (wf_limits d)) in
      Some (Ok \<lparr>cw_source = source_text decoded, cw_representation = rep, cw_source_map = pw_locations p,
        cw_content_hash = identity x (source_text decoded) rep, cw_graph = graph', cw_input = input_s, cw_params = params_s,
        cw_output = output_s, cw_step_inputs = ss_inputs steps, cw_step_outputs = ss_outputs steps, cw_rules = pw_rules p,
        cw_controls = pw_controls p, cw_checks = map (\<lambda>(i, s). (i, specialized_checks s)) descriptors\<rparr>)))))))))))"

record 'n compile_facts =
  cf_descriptors :: "(type_name, 'n step_descriptor) btree_map"
  cf_dependencies :: dependency_graph

text \<open>The two budgets that \<open>compile\<close> charges before it clones any descriptor.\<close>

definition preflight_facts ::
    "('n, 'd) compile_externals \<Rightarrow> 'n parsed_workflow \<Rightarrow> 'n compile_facts \<Rightarrow> (unit, diagnostic) outcome" where
  "preflight_facts x p facts =
     bindr (located p ''/steps'') (\<lambda>span.
     bindr (punctuation 5 (FactBudget_new span)) (\<lambda>exact.
     bindr (dependency_facts x p (cf_dependencies facts) []) (\<lambda>deps.
     bindr (charge_facts (cx_schemas x) (dependencies_value deps) exact) (\<lambda>exact.
     bindr (for_each (\<lambda>(index, i, step) (budget, exact).
         (case bt_get (cf_descriptors facts) (step_type step) of
            None \<Rightarrow> Ok (budget, exact)
          | Some d \<Rightarrow>
              bindr (charge_schema (cx_schemas x) (descriptor_input d) budget) (\<lambda>budget.
              bindr (charge_schema (cx_schemas x) (descriptor_output d) budget) (\<lambda>budget.
              bindr (punctuation (if index > 0 then 1 else 0) exact) (\<lambda>exact.
              bindr (charge_descriptor (cx_schemas x) i d VNull exact) (\<lambda>exact.
              Ok (budget, exact)))))))
        (enumerate 0 (wf_steps (pw_definition p))) (FactBudget_new span, exact)) (\<lambda>_. Ok ())))))"

definition resolved_descriptors ::
    "'n parsed_workflow \<Rightarrow> 'n compile_facts \<Rightarrow> (step_id, 'n specialized) btree_map" where
  "resolved_descriptors p facts =
     List.map_filter (\<lambda>(i, step). map_option (\<lambda>d. (i, \<lparr>specialized_descriptor = d, specialized_facts = VNull, specialized_checks = []\<rparr>))
       (bt_get (cf_descriptors facts) (step_type step))) (wf_steps (pw_definition p))"

definition compile ::
    "nat \<Rightarrow> ('n, 'd) compile_externals \<Rightarrow> 'n decoded_source \<Rightarrow> uuid \<Rightarrow> 'n compile_facts \<Rightarrow> 'n compiled_workflow phase" where
  "compile fuel x decoded version facts =
     bindv (Some (parse_workflow (cx_wire x) decoded version)) (\<lambda>p.
     bindv (Some (preflight_facts x p facts)) (\<lambda>_.
     compile_resolved fuel x decoded p (resolved_descriptors p facts) (cf_dependencies facts) []))"

subsection \<open>What a compiled workflow does at run time\<close>

definition validate_part ::
    "('n, 'd) compile_externals \<Rightarrow> 'n compiled_workflow \<Rightarrow> 'n schema \<Rightarrow> string \<Rightarrow> 'n json \<Rightarrow> string \<Rightarrow> string
      \<Rightarrow> (unit, diagnostic) outcome" where
  "validate_part x c sch message v at anchor =
     bindr (or_else_refuse (validate_context_value (cx_values x) v (workflow_context_limits (cw_graph c))) (\<lambda>_.
       refuse (cw_source_map c) ''context.limit'' message at anchor)) (\<lambda>_.
     bindr (span_or_root (cw_source_map c) anchor) (Schema_validate sch v at))"

definition validate_input :: "('n, 'd) compile_externals \<Rightarrow> 'n compiled_workflow \<Rightarrow> 'n json \<Rightarrow> (unit, diagnostic) outcome" where
  "validate_input x c v = validate_part x c (cw_input c) ''Workflow input exceeds context limits'' v ''/input'' ''/input_schema''"

definition validate_params :: "('n, 'd) compile_externals \<Rightarrow> 'n compiled_workflow \<Rightarrow> 'n json \<Rightarrow> (unit, diagnostic) outcome" where
  "validate_params x c v =
     validate_part x c (cw_params c) ''Workflow parameters exceed context limits'' v ''/params'' ''/parameter_schema''"

definition validate_output :: "('n, 'd) compile_externals \<Rightarrow> 'n compiled_workflow \<Rightarrow> 'n json \<Rightarrow> (unit, diagnostic) outcome" where
  "validate_output x c v = validate_part x c (cw_output c) ''Workflow output exceeds context limits'' v ''/output'' ''/output_schema''"

fun runtime_binding_diagnostic :: "context_error \<Rightarrow> string \<Rightarrow> source_span \<Rightarrow> diagnostic" where
  "runtime_binding_diagnostic (Missing _) at span =
     Diagnostic_at ''binding.missing'' ''Required step input reference is missing'' at span"
| "runtime_binding_diagnostic (InvalidReference _) at span =
     Diagnostic_at ''binding.reference'' ''Step input reference is invalid or traverses a scalar'' at span"
| "runtime_binding_diagnostic (Limit _) at span =
     Diagnostic_at ''context.limit'' ''Step input resolution exceeds a limit'' at span"
| "runtime_binding_diagnostic (Operand _) at span =
     Diagnostic_at ''binding.operand'' ''Step input operand has the wrong type'' at span"

definition run_input_check ::
    "('n, 'd) compile_externals \<Rightarrow> 'n compiled_workflow \<Rightarrow> 'n json \<Rightarrow> string \<Rightarrow> input_check \<Rightarrow> (unit, diagnostic) outcome" where
  "run_input_check x c v at check =
     bindr (span_or_root (cw_source_map c) at) (\<lambda>span.
     or_else_refuse (InputCheck_validate (cx_checks x) check v at span) (\<lambda>e.
       bindr (input_span (cw_source_map c) (diag_field_path e)) (\<lambda>span'. Err (e\<lparr>diag_span := span'\<rparr>))))"

definition prepare_step_inputs ::
    "('n, 'd::linorder) compile_externals \<Rightarrow> 'n compiled_workflow \<Rightarrow> step_id \<Rightarrow> 'n run_context \<Rightarrow> ('n json, diagnostic) outcome" where
  "prepare_step_inputs x c step ctx =
     (let spans = cw_source_map c in
      (case bt_get (wf_steps (definition_of (cw_graph c))) step of
         None \<Rightarrow> refuse spans ''step.unknown'' ''Unknown workflow step'' ''/steps'' ''/steps''
       | Some definition_of_step \<Rightarrow>
           bindr (validate_input x c (input ctx)) (\<lambda>_.
           bindr (validate_params x c (params ctx)) (\<lambda>_.
           let at = ''/steps/'' @ step @ ''/with'' in
           bindr (or_else_refuse
               (resolve_inputs (cx_values x) (step_inputs definition_of_step) ctx (workflow_context_limits (cw_graph c)))
               (\<lambda>(name, e).
                  let here = (case name of None \<Rightarrow> at | Some name \<Rightarrow> child at name) in
                  bindr (span_or_root spans here) (\<lambda>span. Err (runtime_binding_diagnostic e here span)))) (\<lambda>v.
           bindr (expect (bt_get (cw_step_inputs c) step)) (\<lambda>sch.
           bindr (span_or_root spans at) (\<lambda>span.
           bindr (Schema_validate sch v at span) (\<lambda>_.
           bindr (for_each (\<lambda>check _. run_input_check x c v at check)
               (case bt_get (cw_checks c) step of None \<Rightarrow> [] | Some checks \<Rightarrow> checks) ()) (\<lambda>_.
           Ok v)))))))))"

definition step_output_schema :: "'n compiled_workflow \<Rightarrow> step_id \<Rightarrow> 'n json option" where
  "step_output_schema c step = map_option schema_raw (bt_get (cw_step_outputs c) step)"

definition validate_step_output ::
    "('n, 'd) compile_externals \<Rightarrow> 'n compiled_workflow \<Rightarrow> step_id \<Rightarrow> 'n json \<Rightarrow> (unit, diagnostic) outcome" where
  "validate_step_output x c step v =
     (let spans = cw_source_map c in
      (case bt_get (cw_step_outputs c) step of
         None \<Rightarrow> refuse spans ''step.unknown'' ''Unknown workflow step'' ''/steps'' ''/steps''
       | Some sch \<Rightarrow>
           let at = ''/steps/'' @ step @ ''/output'' in
           bindr (validate_part x c sch ''Handler output exceeds context limits'' v at (''/steps/'' @ step)) (\<lambda>_.
           bindr (expect (bt_get (wf_steps (definition_of (cw_graph c))) step)) (\<lambda>d.
           if step_type d = ''jev.evaluate''
           then (case cx_jev_output x v of
               None \<Rightarrow> Ok () | Some message \<Rightarrow> refuse spans ''output.jev'' message at at)
           else Ok ()))))"

end
