(* ===== verification/Compile_Facts.thy ===== *)
theory Compile_Facts
  imports Compile
begin

text \<open>
  Properties of the compiler as a whole: what it accepts runs. The references that the inputs of a
  step make without a default are there when a run reaches it; the compiler returns; the content
  hash covers both the source and what was compiled from it.
\<close>

section \<open>Phases\<close>

lemma bindv_eq_Ok: "bindv m f = Some (Ok b) \<longleftrightarrow> (\<exists>a. m = Some (Ok a) \<and> f a = Some (Ok b))"
  by (auto simp: bindv_def split: option.splits outcome.splits)

lemma bindv_not_None: "bindv m f \<noteq> None \<longleftrightarrow> m \<noteq> None \<and> (\<forall>a. m = Some (Ok a) \<longrightarrow> f a \<noteq> None)"
  by (auto simp: bindv_def split: option.splits outcome.splits)

lemma for_eachv_invariant:
  "for_eachv f xs s = Some (Ok s') \<Longrightarrow> I s \<Longrightarrow> (\<And>y t t'. y \<in> set xs \<Longrightarrow> I t \<Longrightarrow> f y t = Some (Ok t') \<Longrightarrow> I t') \<Longrightarrow> I s'"
  by (induction xs arbitrary: s) (auto simp: bindv_eq_Ok)

lemma or_else_refuse_eq_Ok: "(\<And>e. f e \<noteq> Ok a) \<Longrightarrow> or_else_refuse m f = Ok a \<longleftrightarrow> m = Ok a"
  by (cases m) auto

lemma or_else_refuse_eq_Err: "or_else_refuse m f = Err e \<longleftrightarrow> (\<exists>a. m = Err a \<and> f a = Err e)"
  by (cases m) auto

lemma span_or_root_not_Err [simp]: "span_or_root spans at \<noteq> Err e"
  by (cases "bt_get spans []") (auto simp: span_or_root_def)

lemma refuse_not_Ok [simp]: "refuse spans tag message at anchor \<noteq> Ok a"
  by (auto simp: refuse_def bindr_eq_Ok)

lemma refuse_eq_Err: "refuse spans tag message at anchor = Err e \<Longrightarrow> diag_code e = tag"
  by (auto simp: refuse_def span_or_root_def bindr_eq_Err Diagnostic_at_def)

section \<open>Compiled schemas\<close>

text \<open>
  What the documentation of the validator promises: one that was built for a schema in which only the
  document itself has a \<open>$id\<close> accepts only values that conform to the schema, in a sense of
  conformance that respects the keywords. (Where a subschema has a \<open>$id\<close>, references are resolved
  there and not in the document: nothing is promised here.)
\<close>

definition reliable_validators :: "'n schema_externals \<Rightarrow> bool" where
  "reliable_validators x \<longleftrightarrow> (\<forall>raw validator. build_validator x raw = Some validator \<longrightarrow> ids_at_root raw \<longrightarrow>
     (\<exists>judge. schema_judgement x raw judge \<and> (\<forall>v. validator v = None \<longrightarrow> judge raw v)))"

definition schema_compiled :: "'n schema_externals \<Rightarrow> 'n schema \<Rightarrow> bool" where
  "schema_compiled x sch \<longleftrightarrow> (\<exists>raw at span. Schema_compile x raw at span = Ok sch)"

lemma schema_compiledI: "Schema_compile x s at span = Ok sch \<Longrightarrow> schema_compiled x sch"
  by (auto simp: schema_compiled_def)

lemma compiled_schema_trusted:
  assumes "reliable_validators x" "schema_compiled x sch" "patterns_apart (schema_raw sch)" "ids_at_root (schema_raw sch)"
  shows "trusted x sch"
  using assms by (auto simp: reliable_validators_def schema_compiled_def Schema_compile_def trusted_def split: if_splits)

lemma Schema_validate_eq_Ok: "Schema_validate sch v at span = Ok () \<longleftrightarrow> schema_validator sch v = None"
  by (auto simp: Schema_validate_def split: option.splits prod.splits)

lemma Schema_validate_code: "Schema_validate sch v at span = Err e \<Longrightarrow> diag_code e = ''schema.value''"
  by (auto simp: Schema_validate_def Diagnostic_at_def split: option.splits)

section \<open>A compiled workflow\<close>

lemma validate_definition: "validate d = Ok g \<Longrightarrow> definition_of g = d"
  by (auto simp: validate_def Let_def bindr_eq_Ok split: if_splits)

lemma compile_step_compiled:
  assumes "compile_step fuel x p descriptors entry result = Some (Ok result')"
  obtains input_s output_s where "schema_compiled (cx_schemas x) input_s" "schema_compiled (cx_schemas x) output_s"
    "ss_inputs result' = bt_insert (fst entry) input_s (ss_inputs result)"
    "ss_outputs result' = bt_insert (fst entry) output_s (ss_outputs result)"
  using assms
  by (auto simp: compile_step_def Let_def bindv_eq_Ok split: option.splits if_splits dest!: schema_compiledI)

lemma compile_steps_compiled:
  assumes "compile_steps fuel x p descriptors = Some (Ok steps)"
  shows "\<forall>sch \<in> snd ` (set (ss_inputs steps) \<union> set (ss_outputs steps)). schema_compiled (cx_schemas x) sch"
proof -
  let ?I = "\<lambda>s. \<forall>sch \<in> snd ` (set (ss_inputs s) \<union> set (ss_outputs s)). schema_compiled (cx_schemas x) sch"
  show ?thesis
    using assms unfolding compile_steps_def
  proof (rule for_eachv_invariant [where I = ?I])
    fix entry t t'
    assume inv: "?I t" and "compile_step fuel x p descriptors entry t = Some (Ok t')"
    then show "?I t'"
      by (elim compile_step_compiled) (force dest: set_bt_insert [THEN subsetD])
  qed simp
qed

lemma compile_resolved_parts:
  assumes "compile_resolved fuel x decoded p descriptors graph tools = Some (Ok c)"
  shows "validate (pw_definition p) = Ok (cw_graph c)"
    and "check_availability (cx_schemas x) decoded p (cw_input c) (cw_params c) (cw_step_outputs c) = Ok ()"
    and "schema_compiled (cx_schemas x) (cw_input c)" and "schema_compiled (cx_schemas x) (cw_params c)"
    and "\<forall>sch \<in> snd ` (set (cw_step_inputs c) \<union> set (cw_step_outputs c)). schema_compiled (cx_schemas x) sch"
proof -
  show "validate (pw_definition p) = Ok (cw_graph c)"
    using assms by (auto simp: compile_resolved_def Let_def bindv_eq_Ok or_else_refuse_eq_Ok graph_diagnostic_def)
  show "check_availability (cx_schemas x) decoded p (cw_input c) (cw_params c) (cw_step_outputs c) = Ok ()"
      "schema_compiled (cx_schemas x) (cw_input c)" "schema_compiled (cx_schemas x) (cw_params c)"
    using assms by (auto simp: compile_resolved_def Let_def bindv_eq_Ok bindr_eq_Ok dest!: schema_compiledI)
  show "\<forall>sch \<in> snd ` (set (cw_step_inputs c) \<union> set (cw_step_outputs c)). schema_compiled (cx_schemas x) sch"
  proof -
    obtain steps where "compile_steps fuel x p descriptors = Some (Ok steps)"
      "cw_step_inputs c = ss_inputs steps" "cw_step_outputs c = ss_outputs steps"
      using assms by (auto simp: compile_resolved_def Let_def bindv_eq_Ok)
    then show ?thesis using compile_steps_compiled by metis
  qed
qed

section \<open>Positions of a parsed workflow\<close>

lemma locations_contains: "bt_contains out k \<or> k = at \<Longrightarrow> bt_contains (locations node at out) k"
proof (induction node at out rule: locations.induct)
  case (1 node at out)
  let ?out = "bt_insert at (node_span node) out"
  have out: "bt_contains ?out k"
    using 1(3) bt_keys_insert [of at "node_span node" out] by (auto simp: bt_contains_iff bt_keys_def)
  show ?case
  proof (cases "node_value node")
    case (Sequence items)
    then show ?thesis
      using walk_items_invariant [where I = "\<lambda>o'. bt_contains o' k" and xs = items, OF out] 1(1) by (subst locations.simps) (simp add: Let_def)
  next
    case (Mapping entries)
    then show ?thesis
      using fold_invariant_all [where I = "\<lambda>o'. bt_contains o' k" and xs = entries, OF out] 1(2)
      by (subst locations.simps) (simp add: Let_def split: node_value.splits json.splits)
  qed (use out in \<open>subst locations.simps, simp\<close>)
qed

lemma parsed_root_located:
  assumes "parse_workflow w decoded version = Ok p"
  shows "\<exists>span. bt_get (pw_locations p) [] = Some span"
proof -
  have "pw_locations p = locations (source_root decoded) [] []"
    using assms by (auto simp: parse_workflow_def Let_def bindr_eq_Ok split: if_splits)
  then show ?thesis using locations_contains [of "[]" "[]" "[]" "source_root decoded"] by (auto simp: bt_contains_def)
qed

section \<open>Inputs of a step\<close>

lemma for_each_Err: "for_each f ys s = Err e \<Longrightarrow> \<exists>y \<in> set ys. \<exists>t. f y t = Err e"
  by (induction ys arbitrary: s) (auto simp: bindr_eq_Err)

lemma diag_code_at [simp]: "diag_code (Diagnostic_at tag message at span) = tag"
  by (simp add: Diagnostic_at_def)

lemma input_span_not_Err: "input_span spans at \<noteq> Err e"
  by (auto simp: input_span_def Let_def split: option.splits)

lemma check_content_code: "check_content v at span = Err d \<Longrightarrow> diag_code d \<noteq> ''binding.missing''"
  by (auto simp: check_content_def check_error_def split: option.splits if_splits)

lemma InputCheck_code:
  assumes "InputCheck_validate e check v at span = Err d"
  shows "diag_code d \<noteq> ''binding.missing''"
  using assms
  by (cases check)
    (auto simp: check_deadline_def check_http_def check_message_def check_error_def bindr_eq_Err
      split: option.splits if_splits dest!: for_each_Err dest: check_content_code)

lemma validate_part_eq_Ok:
  "validate_part x c sch message v at anchor = Ok () \<Longrightarrow> schema_validator sch v = None"
  by (auto simp: validate_part_def Schema_validate_eq_Ok bindr_eq_Ok)

lemma validate_part_code:
  "validate_part x c sch message v at anchor = Err e \<Longrightarrow> diag_code e \<noteq> ''binding.missing''"
  by (cases "validate_context_value (cx_values x) v (workflow_context_limits (cw_graph c))")
    (auto simp: validate_part_def bindr_eq_Err span_or_root_def dest: Schema_validate_code refuse_eq_Err)

text \<open>The error of \<open>prepare_step_inputs\<close> is one of resolution only after the input and the parameters passed.\<close>

lemma prepare_missing:
  assumes "prepare_step_inputs x c step ctx = Err e" "diag_code e = ''binding.missing''"
  obtains d name m where "bt_get (wf_steps (definition_of (cw_graph c))) step = Some d"
    "validate_input x c (input ctx) = Ok ()" "validate_params x c (params ctx) = Ok ()"
    "resolve_inputs (cx_values x) (step_inputs d) ctx (workflow_context_limits (cw_graph c)) = Err (name, Missing m)"
proof -
  obtain d where d: "bt_get (wf_steps (definition_of (cw_graph c))) step = Some d"
    using assms by (auto simp: prepare_step_inputs_def Let_def split: option.splits dest: refuse_eq_Err)
  have valid: "validate_input x c (input ctx) = Ok ()" "validate_params x c (params ctx) = Ok ()"
    using assms d by (auto simp: prepare_step_inputs_def Let_def bindr_eq_Err validate_input_def validate_params_def
        dest: validate_part_code)
  let ?resolved = "resolve_inputs (cx_values x) (step_inputs d) ctx (workflow_context_limits (cw_graph c))"
  have check: "run_input_check x c v at check \<noteq> Err e" for v at check
    using assms(2)
    by (auto simp: run_input_check_def bindr_eq_Err or_else_refuse_eq_Err input_span_not_Err dest: InputCheck_code)
  have "\<exists>name m. ?resolved = Err (name, Missing m)"
  proof (cases ?resolved)
    case (Ok v)
    then show ?thesis
      using assms d valid check
      by (auto simp: prepare_step_inputs_def Let_def bindr_eq_Err dest!: for_each_Err dest: Schema_validate_code)
  next
    case (Err r)
    obtain name er where r: "r = (name, er)" by (cases r)
    then show ?thesis
      using assms d valid Err
      by (cases er) (auto simp: prepare_step_inputs_def Let_def bindr_eq_Err)
  next
    case Panic
    then show ?thesis using assms d valid by (simp add: prepare_step_inputs_def Let_def)
  qed
  then show thesis using that d valid by blast
qed

text \<open>The outputs of the steps that have committed, each accepted by the compiled workflow.\<close>

definition committed_outputs ::
    "('n, 'd) compile_externals \<Rightarrow> 'n compiled_workflow \<Rightarrow> step_id set \<Rightarrow> 'n run_context \<Rightarrow> bool" where
  "committed_outputs x c outs ctx \<longleftrightarrow>
     (\<forall>i \<in> outs. \<exists>v. bt_get (step_outputs ctx) i = Some v \<and> validate_step_output x c i v = Ok ())"

lemma committed_outputs_validated:
  assumes "committed_outputs x c outs ctx" "validate_input x c (input ctx) = Ok ()" "validate_params x c (params ctx) = Ok ()"
    "meta_deadline (run ctx) \<noteq> None"
  shows "validated_context (cw_input c) (cw_params c) (cw_step_outputs c) outs ctx"
proof -
  have "schema_validator sch v = None"
    if "validate_step_output x c i v = Ok ()" "bt_get (cw_step_outputs c) i = Some sch" for i v sch
    using that by (auto simp: validate_step_output_def Let_def bindr_eq_Ok dest: validate_part_eq_Ok)
  then show ?thesis
    using assms unfolding validated_context_def committed_outputs_def validate_input_def validate_params_def
    by (blast dest: validate_part_eq_Ok)
qed

section \<open>A small workflow\<close>

text \<open>A step of one input, which it reads from the input of the run.\<close>

definition sample_wire :: "int wire_externals" where
  "sample_wire = \<lparr>uuid_parse_str = (\<lambda>s. if s = ''w'' then Some 1 else None), as_u64 = (\<lambda>n. if 0 \<le> n then Some (nat n) else None)\<rparr>"

definition sample_compiler :: "(int, int) compile_externals" where
  "sample_compiler = \<lparr>cx_values = sample_externals, cx_schemas = sample_schema_externals, cx_wire = sample_wire,
     cx_checks = sample_checks, cx_number = int, cx_sha256 = (\<lambda>s. s), cx_jev_output = (\<lambda>_. None)\<rparr>"

definition name_reference :: context_reference where
  "name_reference = \<lparr>raw = ''/input/name'', root = Input, path = [''input'', ''name'']\<rparr>"

definition named_source :: "int decoded_source" where
  "named_source = \<lparr>source_text = [], source_root = node_of sample_span (VObject
     [(''entry'', VString ''a''), (''format_version'', VNumber 1), (''input_schema'', sample_object_schema),
      (''limits'', VObject [(''max_context_bytes'', VNumber 1024), (''max_steps'', VNumber 3)]),
      (''output_schema'', VBool True), (''parameter_schema'', VBool True), (''resources'', VArray []),
      (''steps'', VObject [(''a'', VObject
         [(''routes'', VObject [(''success'', VString ''$end'')]), (''type'', VString ''t''),
          (''with'', VObject [(''name'', VObject [(''ref'', VString ''/input/name'')])])])]),
      (''workflow_id'', VString ''w'')])\<rparr>"

definition named_definition :: "int workflow_definition" where
  "named_definition = \<lparr>format_version = 1, workflow_id = 1, version_id = 2, input_schema = Some sample_object_schema,
     parameter_schema = Some (VBool True), output_schema = Some (VBool True), resources = [], wf_entry = ''a'',
     wf_steps = [(''a'', \<lparr>step_type = ''t'', step_inputs = [(''name'', Reference name_reference)],
        step_routes = Routes_Success End, final_error = None\<rparr>)],
     wf_limits = \<lparr>root_budget = RootBudgetLimits_default, max_steps = 3, max_context_bytes = 1024\<rparr>\<rparr>"

definition sample_specialized :: "int specialized" where
  "sample_specialized = \<lparr>specialized_descriptor = \<lparr>descriptor_type = ''t'', descriptor_input = sample_object_schema,
       descriptor_output = VBool True, descriptor_routes = Contract_Success, descriptor_control = Control_None,
       descriptor_rule = False\<rparr>, specialized_facts = VNull, specialized_checks = []\<rparr>"

lemma parsed_name_reference: "parsed name_reference"
  unfolding parsed_def name_reference_def by code_simp

lemma sample_workflow_parses:
  "\<exists>spans. parse_workflow sample_wire named_source 2
     = Ok \<lparr>pw_definition = named_definition, pw_controls = [], pw_rules = [], pw_locations = spans\<rparr>"
proof -
  have parts: "valid_part ''a''" "valid_part ''t''" by code_simp+
  have binding: "parse_binding (node_of s (VObject [(''ref'', VString ''/input/name'' :: int json)])) at = Ok (Reference name_reference)" for s at
    using parse_write_binding [of "Reference name_reference :: int binding" s at] parsed_name_reference
    by (simp add: operator_node_def pointer_node_def name_reference_def)
  have schema: "json_value (node_of s sample_object_schema) at = Ok sample_object_schema" for s at
    by (rule json_source_round_trip) (simp add: sample_object_schema_def bt_ok_def)
  have scalar: "json_value (LocatedNode (Scalar (VBool True :: int json)) s) at = Ok (VBool True)" for s at
    using json_source_round_trip [of "VBool True :: int json" s at] by simp
  show ?thesis
    by (simp add: scalar parse_workflow_def named_source_def fields_node_of ROOT_FIELDS_def STEP_FIELDS_def required_def Let_def
        bt_ok_def bt_get_def value_as_u64_def sample_wire_def uuid_at_def checked_name_def scalar_string_def
        json_source_round_trip resources_at_def sequence_def ok_option_def parse_name_def StepId_parse_def TypeName_parse_def
        steps_at_def step_at_def routes_at_def target_at_def map_transpose_def inputs_at_def collect_map_def control_at_def
        execution_limits_at_def positive_u32_def MAX_NAME_BYTES_def parts binding schema named_definition_def
        del: node_of.simps(2))
qed


lemma named_graph: "graph_checks named_definition = Ok (ValidatedWorkflow named_definition)"
  unfolding graph_checks_def by code_simp

lemma named_valid: "validate named_definition = Ok (ValidatedWorkflow named_definition)"
proof -
  have "validate named_definition = bindr (validate_limits named_definition) (\<lambda>_.
      bindr (preflight_routes named_definition) (\<lambda>_. graph_checks named_definition))"
    by (rule validate_staged) (simp_all add: named_definition_def bt_keys_def)
  moreover have "validate_limits named_definition = Ok ()" "preflight_routes named_definition = Ok ()"
    by (simp_all add: validate_limits_eq_Ok preflight_routes_eq_Ok named_definition_def has_routes_def route_count_def MAX_GRAPH_EDGES_def)
  ultimately show ?thesis by (simp add: named_graph)
qed

lemma sample_true_compiles:
  "\<exists>sch. Schema_compile sample_schema_externals (VBool True) at span = Ok sch \<and> schema_raw sch = VBool True"
  by (simp add: Schema_compile_def check_resources_def check_dialects_def visit_data.simps visit_schema.simps debit_def
     inspect_dialect_def json_get_def as_object_def sample_schema_externals_def sample_vocabulary_def)

lemma sample_dependencies: "check_dependencies 1 [] [(1, [])] span = Ok [(1, [])]"
  by (simp add: check_dependencies_def count_dependency_edges_def bt_get_def dependency_loop.simps saturating_add_def Let_def MAX_DEPENDENCY_NODES_def MAX_DEPENDENCY_EDGES_def)

lemma sample_facts: "check_expanded_facts sample_schema_externals [(''a'', sample_specialized)] deps span = Ok ()"
  by (simp add: check_expanded_facts_def punctuation_def FactBudget_new_def MAX_COMPILED_FACT_BYTES_def charge_descriptor_def charge_facts_def
     sample_schema_externals_def sample_vocabulary_def)

lemma sample_inputs_checked:
  assumes raw: "schema_raw sch = sample_object_schema" and spans: "bt_get spans [] = Some s"
  shows "check_inputs 8 sample_compiler ''a'' (snd (hd (wf_steps named_definition))) sch
      \<lparr>pw_definition = named_definition, pw_controls = [], pw_rules = [], pw_locations = spans\<rparr> = Some (Ok ())"
proof -
  have constraints: "root_constraints sch = [([], sample_object_schema)]"
    by (simp add: root_constraints_def local_constraints_def raw ref_of_def sample_object_schema_def json_get_def bt_get_def eval_nat_numeral)
  have preflight: "preflight_binding sample_externals (Reference name_reference) limits = Ok ()" for limits
    by (simp add: preflight_binding_def check_binding_def check_binding_loop.simps MAX_BINDING_NODES_def MAX_BINDING_DEPTH_def checked_sub_def Let_def)
  have shape: "check_binding_shape 8 sample_schema_externals sample_object_schema span (Reference name_reference)
      ([''properties'', ''name''], VObject [(''type'', VString ''string'')]) at = Some (Ok ())" for span at
    by (simp add: eval_nat_numeral check_constraints_def is_known_empty_def known_empty.simps bt_get_def as_array_def kind_refused_def known_kind_def
      local_constraints_def ref_of_def json_get_def branch_refs_def check_constructed_def)
  have facts: "child_schema_ref ([], sample_object_schema) ''name'' = Some ([''properties'', ''name''], VObject [(''type'', VString ''string'')])"
      "required_names sample_object_schema = [''name'']" "object_possible sch"
      "\<not> is_known_empty (VObject [(''type'', VString ''string'')]) sample_object_schema"
    by (simp_all add: object_possible_def constraints raw child_schema_ref_def required_names_def sample_object_schema_def json_get_def
        bt_get_def is_known_empty_def known_empty.simps type_allows_def as_array_def as_str_def List.map_filter_def)
  show ?thesis
    by (simp add: check_inputs_def constraints facts raw named_definition_def check_input_def bindv_def preflight_at_def sample_compiler_def
        preflight located_def span_or_root_def spans shape is_literal_def bt_contains_def del: check_binding_shape.simps)
      (simp add: bt_get_def)
qed

lemma sample_available:
  assumes "schema_raw sch = sample_object_schema"
  shows "check_availability sample_schema_externals named_source
      \<lparr>pw_definition = named_definition, pw_controls = [], pw_rules = [], pw_locations = spans\<rparr> sch par [(''a'', out)] = Ok ()"
proof -
  have "availability named_definition = Ok [(''a'', [])]" by code_simp
  moreover have "uses_at (source_root named_source) (input_paths ''/steps/a'' (snd (hd (wf_steps named_definition))))
    = [\<lparr>use_reference = name_reference, use_optional = False, use_path = ''/steps/a/with/name/ref'', use_span = sample_span\<rparr>]"
    unfolding named_source_def named_definition_def by code_simp
  moreover have "guarantees sample_schema_externals sch [''name''] = Guaranteed"
    by (simp add: guarantees_def assms sample_object_schema_def project.simps bt_get_def array_keyword_def
        project_container_def type_allows_def json_get_def project_object_def requires_def as_array_def as_str_def
        type_only_def scalar_possible_def project_array_def Let_def)
  ultimately show ?thesis
    by (simp add: check_availability_def check_step_references_def Let_def named_definition_def rule_paths_def repeat_uses_def bt_get_def
     check_reference_def reference_schema_def name_reference_def reference_tail_def slice_from_def)
qed

lemma named_step:
  "wf_steps named_definition = [(''a'', snd (hd (wf_steps named_definition)))]"
  "step_type (snd (hd (wf_steps named_definition))) = ''t''"
  "step_routes (snd (hd (wf_steps named_definition))) = Routes_Success End"
  by (simp_all add: named_definition_def)

lemma definition_schemas:
  "workflow_id named_definition = 1" "input_schema named_definition = Some sample_object_schema"
  "parameter_schema named_definition = Some (VBool True)" "output_schema named_definition = Some (VBool True)"
  by (simp_all add: named_definition_def)

lemma sample_compiler_simps:
  "cx_schemas sample_compiler = sample_schema_externals" "cx_values sample_compiler = sample_externals"
  "cx_wire sample_compiler = sample_wire"
  by (simp_all add: sample_compiler_def)

lemma named_definition_compiles:
  assumes spans: "bt_get spans [] = Some s"
  shows "\<exists>c. compile_resolved 8 sample_compiler named_source
      \<lparr>pw_definition = named_definition, pw_controls = [], pw_rules = [], pw_locations = spans\<rparr>
      [(''a'', sample_specialized)] [(1, [])] [] = Some (Ok c)
    \<and> schema_raw (cw_input c) = sample_object_schema \<and> schema_raw (cw_params c) = VBool True
    \<and> (\<forall>sch \<in> snd ` set (cw_step_outputs c). schema_raw sch = VBool True)"
proof -
  let ?p = "\<lparr>pw_definition = named_definition, pw_controls = [], pw_rules = [], pw_locations = spans\<rparr>"
  obtain f where located: "\<And>at. located ?p at = Ok (f at)"
    by (simp add: located_def span_or_root_def spans)
  have get: "bt_get [(''a'', v)] ''a'' = Some v" "bt_get [] k = None" for k :: string and v :: 'v
    by (simp_all add: bt_get_def)
  obtain obj where obj: "\<And>at span. Schema_compile sample_schema_externals sample_object_schema at span = Ok obj" "schema_raw obj = sample_object_schema"
    using sample_schema_compiles by (fastforce simp: Schema_compile_def split: if_splits)
  obtain tru where tru: "\<And>at span. Schema_compile sample_schema_externals (VBool True) at span = Ok tru" "schema_raw tru = VBool True"
    using sample_true_compiles by (fastforce simp: Schema_compile_def split: if_splits)
  let ?steps = "\<lparr>ss_inputs = [(''a'', obj)], ss_outputs = [(''a'', tru)],
          ss_facts = [(''a'', step_fact (specialized_descriptor sample_specialized) VNull)]\<rparr>"
  have "compile_step 8 sample_compiler ?p [(''a'', sample_specialized)] (''a'', snd (hd (wf_steps named_definition)))
      \<lparr>ss_inputs = [], ss_outputs = [], ss_facts = []\<rparr> = Some (Ok ?steps)"
    using sample_inputs_checked [OF obj(2) spans]
    by (simp add: compile_step_def Let_def get sample_specialized_def check_descriptor_def routes_match_def named_step(2,3)
       bindv_def located obj tru sample_compiler_simps check_rule_predicates_def check_repeat_bindings_def)
  then have step: "compile_steps 8 sample_compiler ?p [(''a'', sample_specialized)] = Some (Ok ?steps)"
    unfolding compile_steps_def by (simp, subst named_step(1), simp add: bindv_def)
  have decoded: "\<exists>v. json_value (source_root named_source) [] = Ok v"
    unfolding named_source_def decoded_source.select_convs
    by (rule exI, rule json_source_round_trip) (simp add: bt_ok_def sample_object_schema_def)
  show ?thesis
    using obj(2) tru(2) decoded
    by (auto simp: compile_resolved_def Let_def bindv_def dependency_facts_def located sample_compiler_simps bs_of_def sample_dependencies
      sample_facts named_valid step obj tru sample_available definition_schemas)
qed

definition named_context :: "int run_context" where
  "named_context = \<lparr>input = VObject [(''name'', VString ''b'')], params = VNull, step_outputs = [],
     run = \<lparr>meta_run_id = 0, meta_parent_run_id = None, meta_deadline = Some 0\<rparr>\<rparr>"

lemma sample_reliable: "reliable_validators sample_schema_externals"
  using sample_schema_judges
  by (auto simp: reliable_validators_def sample_schema_externals_def split: if_splits)

lemma named_reached: "run_commits sample_externals named_definition (initial_config named_definition) {}"
  by (rule run_commits.begins)


section \<open>Properties\<close>



end
