(* ===== verification/Compile_Returns.thy ===== *)
theory Compile_Returns
  imports Compile_Facts
begin

text \<open>
  The compiler returns. Its phases are loops over the parsed workflow except for the check of
  shapes, whose recursion follows the references of a schema; with enough fuel for that check the
  result of the compiler no longer depends on the fuel.
\<close>

section \<open>Phases that no longer depend on their fuel\<close>

definition settled :: "nat \<Rightarrow> (nat \<Rightarrow> 'a phase) \<Rightarrow> bool" where
  "settled n f \<longleftrightarrow> f n \<noteq> None \<and> (\<forall>m \<ge> n. f m = f n)"

named_theorems settling \<open>how phases that no longer depend on their fuel compose\<close>

lemma settled_const [settling, simp]: "settled n (\<lambda>_. Some r)"
  by (simp add: settled_def)

lemma settledI: "f n \<noteq> None \<Longrightarrow> (\<And>m. n \<le> m \<Longrightarrow> f m = f n) \<Longrightarrow> settled n f"
  unfolding settled_def by blast

lemma settledD: "settled n f \<Longrightarrow> n \<le> m \<Longrightarrow> f m = f n" "settled n f \<Longrightarrow> f n \<noteq> None"
  unfolding settled_def by blast+

lemma settled_bindv [settling]:
  assumes "settled n f" "\<And>a. f n = Some (Ok a) \<Longrightarrow> settled n (\<lambda>m. g m a)"
  shows "settled n (\<lambda>m. bindv (f m) (g m))"
proof (rule settledI)
  show "bindv (f n) (g n) \<noteq> None"
    unfolding bindv_not_None using settledD(2) [OF assms(1)] settledD(2) [OF assms(2)] by blast
  show "bindv (f m) (g m) = bindv (f n) (g n)" if "n \<le> m" for m
    using settledD(1) [OF assms(1) that] settledD(1) [OF assms(2) that]
    by (auto simp: bindv_def split: option.splits outcome.splits)
qed

lemma settled_and_then [settling]:
  assumes "settled n f" "settled n g"
  shows "settled n (\<lambda>m. and_then (f m) (g m))"
proof (rule settledI)
  show "and_then (f n) (g n) \<noteq> None" using assms settledD(2) by (auto simp: and_then_None)
  show "and_then (f m) (g m) = and_then (f n) (g n)" if "n \<le> m" for m
    using settledD(1) [OF assms(1) that] settledD(1) [OF assms(2) that] by simp
qed

lemma settled_every [settling]:
  "(\<And>c. c \<in> set cs \<Longrightarrow> settled n (\<lambda>m. f m c)) \<Longrightarrow> settled n (\<lambda>m. every (f m) cs)"
  by (induction cs) (auto intro: settled_and_then)

lemma settled_for_eachv [settling]:
  "(\<And>y s. y \<in> set ys \<Longrightarrow> settled n (\<lambda>m. f m y s)) \<Longrightarrow> settled n (\<lambda>m. for_eachv (f m) ys s)"
  by (induction ys arbitrary: s) (auto intro: settled_bindv)

lemma settled_case_option [settling]:
  "settled n g \<Longrightarrow> (\<And>y. v = Some y \<Longrightarrow> settled n (\<lambda>m. h m y)) \<Longrightarrow> settled n (\<lambda>m. case v of None \<Rightarrow> g m | Some y \<Rightarrow> h m y)"
  by (cases v) auto

lemma settled_if [settling]:
  "(b \<Longrightarrow> settled n g) \<Longrightarrow> (\<not> b \<Longrightarrow> settled n h) \<Longrightarrow> settled n (\<lambda>m. if b then g m else h m)"
  by (cases b) auto

section \<open>The checks of a step\<close>

lemma reached_settles:
  assumes "reached doc d (snd s)" "33 + size b \<le> n"
  shows "settled n (\<lambda>m. check_binding_shape m x doc span b s at)"
proof -
  have "check_binding_shape n x doc span b s at \<noteq> None"
    using check_binding_shape_returns [OF assms(1), of b n] assms(2) by simp
  then show ?thesis
    unfolding settled_def using check_binding_shape_settled by (metis le_Suc_ex)
qed

lemma document_reached: "check_resources x doc = Ok () \<Longrightarrow> ids_at_root doc \<Longrightarrow> reached doc 0 doc"
  by (auto simp: reached_def own_scope_def visited_def check_resources_def)

lemma child_settles:
  assumes "check_resources x doc = Ok ()" "ids_at_root doc" "33 + size b \<le> n"
    and "c \<in> set (local_constraints ([], doc) doc)" "child_schema_ref c k = Some s"
  shows "settled n (\<lambda>m. check_binding_shape m x' doc span b s at)"
proof -
  have "reached doc 1 (snd s)"
    using reached_child(2) [OF reached_constraints [OF _ assms(4)] assms(5)] document_reached [OF assms(1,2)] by simp
  then show ?thesis using assms(3) by (rule reached_settles)
qed

lemma boolean_settles:
  assumes "33 + size b \<le> n"
  shows "settled n (\<lambda>m. check_binding_shape m x boolean_schema span b ([], boolean_schema) at)"
proof -
  have "reached (boolean_schema :: 'a json) 0 boolean_schema"
    by (auto simp: reached_def own_scope_def visited_def ids_at_root_def boolean_schema_def visit_schema.simps debit_def
        as_object_def REFERENCE_KEYWORDS_def schema_children_def keyword_children_def bt_get_def bt_contains_def intro!: exI [of _ 0] exI [of _ 1])
  then show ?thesis using assms by (intro reached_settles) auto
qed

lemma Schema_compile_facts:
  "Schema_compile x s at span = Ok sch \<Longrightarrow> check_resources x s = Ok () \<and> schema_raw sch = s"
  by (auto simp: Schema_compile_def split: if_splits)

lemma check_inputs_settles:
  assumes "check_resources y (schema_raw sch) = Ok ()" "ids_at_root (schema_raw sch)"
    and "\<And>k b. (k, b) \<in> set (step_inputs step) \<Longrightarrow> 33 + size b \<le> n"
  shows "settled n (\<lambda>m. check_inputs m x i step sch p)"
  unfolding check_inputs_def check_input_def Let_def root_constraints_def
  by (intro settling child_settles [OF assms(1,2)]) (use assms(3) in \<open>auto simp del: settled_const\<close>)

lemma check_rule_settles:
  assumes "\<And>rule c. (i, rule) \<in> set (pw_rules p) \<Longrightarrow> c \<in> set (cases rule) \<Longrightarrow> 33 + size (case_when c) \<le> n"
  shows "settled n (\<lambda>m. check_rule_predicates m x i p)"
  unfolding check_rule_predicates_def Let_def case_prod_unfold
  by (intro settling boolean_settles) (use assms in \<open>auto dest!: bt_get_in_set simp: in_set_enumerate_eq\<close>)

lemma check_repeat_settles:
  assumes "check_resources y (schema_raw sch) = Ok ()" "ids_at_root (schema_raw sch)"
    and "\<And>control repeat. (i, control) \<in> set (pw_controls p) \<Longrightarrow> control_repeat control = Some repeat
      \<Longrightarrow> 33 + size (next_input repeat) \<le> n \<and> 33 + size (exit_when repeat) \<le> n"
  shows "settled n (\<lambda>m. check_repeat_bindings m x i sch p)"
proof -
  have next_settles: "settled n (\<lambda>m. check_binding_shape m (cx_schemas x) (schema_raw sch) span (next_input repeat)
      (fst c @ [''properties'', ''input''], expected) at)"
    if "Option.bind (bt_get (pw_controls p) i) control_repeat = Some repeat"
      "c \<in> set (local_constraints ([], schema_raw sch) (schema_raw sch))"
      "Option.bind (json_get (snd c) ''properties'') (\<lambda>ps. json_get ps ''input'') = Some expected" for repeat c expected span at
  proof (rule child_settles [OF assms(1,2) _ that(2)])
    show "33 + size (next_input repeat) \<le> n"
      using that(1) assms(3) by (auto simp: bind_eq_Some_conv dest!: bt_get_in_set)
    show "child_schema_ref c ''input'' = Some (fst c @ [''properties'', ''input''], expected)"
      using that(3) by (simp add: child_schema_ref_def)
  qed
  have exit: "33 + size (exit_when repeat) \<le> n" if "Option.bind (bt_get (pw_controls p) i) control_repeat = Some repeat" for repeat
    using that assms(3) by (auto simp: bind_eq_Some_conv dest!: bt_get_in_set)
  show ?thesis
    unfolding check_repeat_bindings_def Let_def case_prod_unfold root_constraints_def
    by (intro settling next_settles boolean_settles exit)
qed

section \<open>The compiler\<close>

text \<open>The bindings of a workflow: the inputs of its steps, the predicates of its rules, its repetitions.\<close>

definition workflow_bindings :: "'n parsed_workflow \<Rightarrow> 'n binding set" where
  "workflow_bindings p =
     (\<Union>(i, step) \<in> set (wf_steps (pw_definition p)). snd ` set (step_inputs step))
     \<union> (\<Union>(i, rule) \<in> set (pw_rules p). case_when ` set (cases rule))
     \<union> (\<Union>(i, control) \<in> set (pw_controls p). case control_repeat control of
          None \<Rightarrow> {} | Some repeat \<Rightarrow> {next_input repeat, exit_when repeat})"

lemma workflow_bindingsI:
  "(i, step) \<in> set (wf_steps (pw_definition p)) \<Longrightarrow> (k, b) \<in> set (step_inputs step) \<Longrightarrow> b \<in> workflow_bindings p"
  "(i, rule) \<in> set (pw_rules p) \<Longrightarrow> c \<in> set (cases rule) \<Longrightarrow> case_when c \<in> workflow_bindings p"
  "(i, control) \<in> set (pw_controls p) \<Longrightarrow> control_repeat control = Some repeat
    \<Longrightarrow> next_input repeat \<in> workflow_bindings p \<and> exit_when repeat \<in> workflow_bindings p"
  subgoal unfolding workflow_bindings_def by force
  subgoal unfolding workflow_bindings_def by blast
  subgoal unfolding workflow_bindings_def by (intro conjI UnI2 UN_I [of "(i, control)"]) auto
  done

lemma compile_step_settles:
  assumes ids: "\<forall>(i, s) \<in> set descriptors. ids_at_root (descriptor_input (specialized_descriptor s))"
    and fuel: "\<forall>b \<in> workflow_bindings p. 33 + size b \<le> n"
    and entry: "entry \<in> set (wf_steps (pw_definition p))"
  shows "settled n (\<lambda>m. compile_step m x p descriptors entry result)"
proof -
  obtain i step where e: "entry = (i, step)" by (cases entry)
  have schema: "check_resources (cx_schemas x) (schema_raw sch) = Ok ()" "ids_at_root (schema_raw sch)"
    if "bt_get descriptors (fst entry) = Some s"
      "Some (Schema_compile (cx_schemas x) (descriptor_input (specialized_descriptor s)) at span) = Some (Ok sch)" for s sch at span
    using that ids Schema_compile_facts [of "cx_schemas x"] by (auto dest!: bt_get_in_set)
  have bounds: "33 + size b \<le> n" if "(k, b) \<in> set (step_inputs (snd entry))" for k b
    using fuel entry that by (metis e snd_conv workflow_bindingsI(1))
  have rule_bounds: "33 + size (case_when c) \<le> n" if "(fst entry, rule) \<in> set (pw_rules p)" "c \<in> set (cases rule)" for rule c
    using fuel workflow_bindingsI(2) [OF that] by blast
  have repeat_bounds: "33 + size (next_input repeat) \<le> n \<and> 33 + size (exit_when repeat) \<le> n"
    if "(fst entry, control) \<in> set (pw_controls p)" "control_repeat control = Some repeat" for control repeat
    using fuel workflow_bindingsI(3) [OF that] by blast
  have checks: "settled n (\<lambda>m. check_inputs m x (fst entry) (snd entry) sch p)" "settled n (\<lambda>m. check_repeat_bindings m x (fst entry) sch p)"
    if "bt_get descriptors (fst entry) = Some s"
      "Some (Schema_compile (cx_schemas x) (descriptor_input (specialized_descriptor s)) at span) = Some (Ok sch)" for s sch at span
    by (rule check_inputs_settles [OF schema [OF that]], erule bounds)
      (rule check_repeat_settles [OF schema [OF that]], rule repeat_bounds)
  have rules: "settled n (\<lambda>m. check_rule_predicates m x (fst entry) p)"
    by (rule check_rule_settles) (rule rule_bounds)
  show ?thesis
    unfolding compile_step_def Let_def by (intro settling rules; rule checks; assumption)
qed

lemma compile_resolved_settles:
  assumes "\<forall>(i, s) \<in> set descriptors. ids_at_root (descriptor_input (specialized_descriptor s))"
    and "\<forall>b \<in> workflow_bindings p. 33 + size b \<le> n"
  shows "settled n (\<lambda>m. compile_resolved m x decoded p descriptors graph tools)"
  unfolding compile_resolved_def compile_steps_def Let_def
  by (intro settling compile_step_settles [OF assms])

lemma resolved_descriptors_from_facts:
  "(i, s) \<in> set (resolved_descriptors p facts) \<Longrightarrow> \<exists>t. (t, specialized_descriptor s) \<in> set (cf_descriptors facts)"
  by (auto simp: resolved_descriptors_def List.map_filter_def) (blast dest: bt_get_in_set)

section \<open>The content hash\<close>

lemma char_of_inj: "a < 256 \<Longrightarrow> b < 256 \<Longrightarrow> char_of (a :: nat) = char_of b \<Longrightarrow> a = b"
  by (metis mod_less of_char_of)

lemma digits_determine:
  "(m :: nat) < 256 ^ k \<Longrightarrow> n < 256 ^ k \<Longrightarrow> (\<And>i. i < k \<Longrightarrow> m div 256 ^ i mod 256 = n div 256 ^ i mod 256) \<Longrightarrow> m = n"
proof (induction k arbitrary: m n)
  case (Suc k)
  have "m div 256 = n div 256"
  proof (rule Suc.IH)
    show "m div 256 < 256 ^ k" "n div 256 < 256 ^ k" using Suc.prems(1,2) by (simp_all add: less_mult_imp_div_less mult.commute)
    show "m div 256 div 256 ^ i mod 256 = n div 256 div 256 ^ i mod 256" if "i < k" for i
      using Suc.prems(3) [of "Suc i"] that by (simp add: div_mult2_eq)
  qed
  moreover have "m mod 256 = n mod 256" using Suc.prems(3) [of 0] by simp
  ultimately show ?case by (metis div_mult_mod_eq)
qed simp

lemma to_be_bytes_inj:
  assumes "m < 2 ^ 64" "n < 2 ^ 64" "to_be_bytes m = to_be_bytes n"
  shows "m = n"
proof (rule digits_determine [of _ 8])
  fix i :: nat assume "i < 8"
  then have "i \<in> set [7, 6, 5, 4, 3, 2, 1, 0]" by auto
  then have "char_of (m div 256 ^ i mod 256) = (char_of (n div 256 ^ i mod 256) :: char)"
    using assms(3) unfolding to_be_bytes_def by (simp only: map_eq_conv)
  then show "m div 256 ^ i mod 256 = n div 256 ^ i mod 256" by (rule char_of_inj [rotated 2]) simp_all
qed (use assms in simp_all)

lemma length_to_be_bytes [simp]: "length (to_be_bytes n) = 8"
  by (simp add: to_be_bytes_def)

section \<open>Properties\<close>

text \<open>
  C12. The compiler returns. For a workflow that parses and descriptors whose input schemas keep
  \<open>$id\<close> at their root, 33 units of fuel more than the size of the largest binding are enough, and
  with more the result is the same.
\<close>

theorem compilation_returns:
  assumes "parse_workflow (cx_wire x) decoded version = Ok p"
    and "\<forall>(t, d) \<in> set (cf_descriptors facts). ids_at_root (descriptor_input d)"
    and "\<forall>b \<in> workflow_bindings p. 33 + size b \<le> n"
  shows "\<exists>r. \<forall>fuel \<ge> n. compile fuel x decoded version facts = Some r"
proof -
  have "\<forall>(i, s) \<in> set (resolved_descriptors p facts). ids_at_root (descriptor_input (specialized_descriptor s))"
    using assms(2) resolved_descriptors_from_facts by fastforce
  then have "settled n (\<lambda>m. compile m x decoded version facts)"
    unfolding compile_def using assms(1,3) by (intro settling compile_resolved_settles) auto
  then show ?thesis
    using settledD(1) settledD(2) by (metis (no_types, lifting) not_None_eq)
qed

theorem compilation_returns_witness:
  "\<exists>r. \<forall>fuel \<ge> 40. compile fuel sample_compiler named_source 2
     \<lparr>cf_descriptors = [(''t'', specialized_descriptor sample_specialized)], cf_dependencies = [(1, [])]\<rparr> = Some r"
proof -
  obtain spans where p: "parse_workflow (cx_wire sample_compiler) named_source 2
      = Ok \<lparr>pw_definition = named_definition, pw_controls = [], pw_rules = [], pw_locations = spans\<rparr>"
    using sample_workflow_parses by (auto simp: sample_compiler_simps)
  then show ?thesis
    by (rule compilation_returns)
      (auto simp: sample_specialized_def sample_object_schema_def ids_at_root_def bt_contains_def bt_get_def
        workflow_bindings_def named_definition_def)
qed

text \<open>
  The content hash covers everything. The text that is hashed determines both the source and the
  serialized representation: two workflows that differ in either are hashed from different texts,
  wherever one ends and the other begins.
\<close>

theorem content_hash_covers_source_and_representation:
  assumes "identity_text source encoded = identity_text source' encoded'"
    and "length source < 2 ^ 64" "length source' < 2 ^ 64"
  shows "source = source' \<and> encoded = encoded'"
proof -
  have "to_be_bytes (length source) = to_be_bytes (length source')"
    and rest: "source @ to_be_bytes (length encoded) @ encoded = source' @ to_be_bytes (length encoded') @ encoded'"
    using assms(1) by (auto simp: identity_text_def)
  then have "length source = length source'" using to_be_bytes_inj assms(2,3) by blast
  then show ?thesis using rest by auto
qed

theorem content_hash_covers_source_and_representation_witness:
  "identity_text ''ab'' ''c'' \<noteq> identity_text ''a'' ''bc''"
  using content_hash_covers_source_and_representation [of "''ab''" "''c''" "''a''" "''bc''"] by auto

end
