(* ===== verification/Completion.thy ===== *)
theory Completion
  imports Compile_Facts Recovery App_Error Transport
begin

text \<open>
  The completion of a step: what a handler returned, or what a pure step computes, becomes a
  validated completion with a route and a target, \<open>src/src/application/workflow/batch.rs\<close> and
  \<open>src/src/application/workflow/completion.rs\<close>; and the decision of the persistence whether the
  completion may be committed under the run's limit on steps,
  \<open>src/src/adapters/persistence/workflow/completion.rs\<close> and
  \<open>src/src/adapters/persistence/workflow/pending_recovery.rs\<close>. A published bundle is read for its
  compiled workflow only.
\<close>

section \<open>Model\<close>

record 'n activated_execution =
  act_execution :: uuid
  act_step :: step_id
  act_ordinal :: nat
  act_inputs :: "'n json"
  act_choice :: "choice_name option"

record 'n pure_completion =
  pc_response_disposition :: response_disposition
  pc_output :: "'n json"
  pc_route :: route_selection
  pc_target :: transition_target
  pc_state :: run_state

subsection \<open>Budgets of a batch\<close>

record batch_budget =
  batch_steps :: nat \<comment> \<open>\<open>u8\<close>\<close>
  batch_work :: nat \<comment> \<open>microseconds\<close>

definition BatchBudget_new :: "nat \<Rightarrow> nat \<Rightarrow> (batch_budget, app_error) outcome" where
  "BatchBudget_new steps work =
     (if steps = 0 \<or> steps > 64 \<or> work < 1000 \<or> work > 5000000
      then Err (BadRequest ''Invalid workflow batch budget'')
      else Ok \<lparr>batch_steps = steps, batch_work = work\<rparr>)"

definition transaction_timeout :: "batch_budget \<Rightarrow> nat" where
  "transaction_timeout budget = batch_work budget + 1000000"

subsection \<open>Validated completions\<close>

definition invalid_activation :: app_error where
  "invalid_activation = DatabaseError ''Invalid pure workflow activation''"

fun completion_route_of :: "route_selection \<Rightarrow> (completion_route, app_error) outcome" where
  "completion_route_of Select_Success = Ok Completion_Success"
| "completion_route_of (Select_Choice c) = Ok (Completion_Choice c)"
| "completion_route_of Select_FinalError = Err invalid_activation"

definition validate_completion ::
    "('n, 'd) compile_externals \<Rightarrow> instant \<Rightarrow> 'n compiled_workflow \<Rightarrow> 'n activated_execution \<Rightarrow> 'n json \<Rightarrow> route_selection
      \<Rightarrow> ('n pure_completion, app_error) outcome" where
  "validate_completion x now c activation result route =
     (let graph = cw_graph c; limits = workflow_context_limits graph; bad = (\<lambda>e. BadRequest (diag_message e)) in
      bindr (map_err (\<lambda>_. invalid_activation) (validate_context_value (cx_values x) result limits)) (\<lambda>_.
      bindr (map_err bad (validate_step_output x c (act_step activation) result)) (\<lambda>_.
      bindr (map_err (\<lambda>_. invalid_activation) (select_route graph (act_step activation) route)) (\<lambda>target.
      bindr (if target = End then map_err bad (validate_output x c result) else Ok ()) (\<lambda>_.
      bindr (completion_route_of route) (\<lambda>completed_by.
      bindr (map_err (\<lambda>_. invalid_activation) (CompletedStep_new (cx_values x) result completed_by limits)) (\<lambda>completed.
      bindr (map_err (\<lambda>_. invalid_activation) (apply_disposition Running (Advance completed target) now)) (\<lambda>state.
      bindr (if target = End
             then bindr (expect (bt_get (wf_steps (definition_of graph)) (act_step activation))) (\<lambda>d.
               Ok (step_type d = ''channel.no_reply''))
             else Ok False) (\<lambda>quiet.
      Ok \<lparr>pc_response_disposition = (if quiet then Suppressed else Automatic), pc_output = result,
        pc_route = route, pc_target = target, pc_state = state\<rparr>)))))))))"

definition is_pure :: "'n compiled_workflow \<Rightarrow> step_id \<Rightarrow> (bool, app_error) outcome" where
  "is_pure c step =
     bindr (ok_or (bt_get (wf_steps (definition_of (cw_graph c))) step) (DatabaseError ''Unknown workflow step'')) (\<lambda>d.
     Ok (step_type d = ''data.map'' \<or> step_type d = ''decision.rule'' \<or> step_type d = ''channel.no_reply''))"

definition execute_pure ::
    "('n, 'd) compile_externals \<Rightarrow> instant \<Rightarrow> 'n compiled_workflow \<Rightarrow> 'n activated_execution
      \<Rightarrow> ('n pure_completion option, app_error) outcome" where
  "execute_pure x now c activation =
     bindr (ok_or (bt_get (wf_steps (definition_of (cw_graph c))) (act_step activation)) invalid_activation) (\<lambda>d.
     if step_type d = ''data.map'' \<or> step_type d = ''channel.no_reply''
     then
       bindr (ok_or (json_get (act_inputs activation) ''value'') invalid_activation) (\<lambda>v.
       bindr (validate_completion x now c activation v Select_Success) (\<lambda>pc. Ok (Some pc)))
     else if step_type d = ''decision.rule''
     then
       bindr (ok_or (act_choice activation) invalid_activation) (\<lambda>choice.
       bindr (ok_or (json_get (act_inputs activation) ''data'') invalid_activation) (\<lambda>data.
       bindr (validate_completion x now c activation (VObject [(''choice'', VString choice), (''data'', data)])
         (Select_Choice choice)) (\<lambda>pc. Ok (Some pc))))
     else Ok None)"

definition IO_KINDS :: "string list" where
  "IO_KINDS = [''context.history'', ''memory.load'', ''memory.save'', ''ai.classify'', ''jev.evaluate'', ''agent.run'',
     ''decision.agent'', ''http.request'', ''tool.call'', ''mcp.call'', ''message.send'', ''message.reply'', ''message.ask'']"

definition is_io_kind :: "string \<Rightarrow> bool" where
  "is_io_kind kind \<longleftrightarrow> kind \<in> set IO_KINDS"

definition prepare_io ::
    "('n, 'd) compile_externals \<Rightarrow> instant \<Rightarrow> 'n compiled_workflow \<Rightarrow> 'n activated_execution \<Rightarrow> 'n json
      \<Rightarrow> ('n pure_completion, app_error) outcome" where
  "prepare_io x now c activation result =
     bindr (ok_or (bt_get (wf_steps (definition_of (cw_graph c))) (act_step activation)) (BadRequest ''Unknown workflow step''))
       (\<lambda>d.
     if \<not> is_io_kind (step_type d) then Err (ConflictError ''Workflow step is not an I/O completion'')
     else
       bindr (if step_type d = ''decision.agent''
              then
                bindr (ok_or (Option.bind (json_get result ''choice'') as_str) (BadRequest ''Missing workflow choice'')) (\<lambda>t.
                bindr (map_err (\<lambda>_. BadRequest ''Invalid workflow choice'') (ChoiceName_parse t)) (\<lambda>choice.
                Ok (Select_Choice choice)))
              else Ok Select_Success) (\<lambda>route.
       validate_completion x now c activation result route))"

subsection \<open>The limit on steps\<close>

text \<open>\<open>WorkflowFailure\<close> and \<open>LeaseReleaseCause\<close>: why an attempt gives up its lease.\<close>

record workflow_failure =
  reported_failure :: step_failure
  reported_safety :: retry_safety

datatype lease_release_cause =
    Release_LocalInterruption | Release_Deadline | Release_LeaseLost | Release_StorageFailure | Release_InvalidResult
  | Release_ActivationLimit | Release_HandlerFailure | Release_Classified workflow_failure

text \<open>\<open>u64::try_from\<close> of the stored limit, an \<open>i32\<close>.\<close>

definition step_limit :: "int \<Rightarrow> nat option" where
  "step_limit most = (if most < 0 then None else Some (nat most))"

definition prepare_result ::
    "('n, 'd) compile_externals \<Rightarrow> instant \<Rightarrow> 'n compiled_workflow \<Rightarrow> 'n activated_execution \<Rightarrow> 'n json \<Rightarrow> int
      \<Rightarrow> ('n pure_completion, lease_release_cause) outcome" where
  "prepare_result x now c activation result most =
     bindr (ok_or (step_limit most) Release_ActivationLimit) (\<lambda>bound.
     if act_ordinal activation > bound then Err Release_ActivationLimit
     else
       bindr (map_err (\<lambda>_. Release_InvalidResult) (prepare_io x now c activation result)) (\<lambda>completion.
       if pc_target completion \<noteq> End \<and> act_ordinal activation \<ge> bound then Err Release_ActivationLimit
       else Ok completion))"

datatype pending_failure =
    Pending_InvalidInput | Pending_InvalidOutput | Pending_ActivationLimit | Pending_AttemptsExhausted
  | Pending_RootBudgetExhausted | Pending_TokenRefused token_refusal | Pending_ReviewerUnavailable

fun pending_code :: "pending_failure \<Rightarrow> string" where
  "pending_code Pending_InvalidInput = ''workflow.invalid_input''"
| "pending_code Pending_InvalidOutput = ''workflow.invalid_output''"
| "pending_code Pending_ActivationLimit = ''workflow.activation_limit''"
| "pending_code Pending_AttemptsExhausted = ''workflow.attempts_exhausted''"
| "pending_code Pending_RootBudgetExhausted = ''workflow.root_budget_exhausted''"
| "pending_code (Pending_TokenRefused reason) = failure_code reason"
| "pending_code Pending_ReviewerUnavailable = ''decision.reviewer_unavailable''"

text \<open>A settled execution carries the failure that was handed to \<open>settle\<close>, if any was.\<close>

datatype 'a pending = Pending_Ready 'a | Pending_Deferred | Pending_Settled "pending_failure option"

datatype progression = Progression_Open | Progression_AwaitingAllowance | Progression_Refused token_refusal

definition invalid_stored :: app_error where
  "invalid_stored = DatabaseError ''Invalid stored workflow record''"

text \<open>
  \<open>activate\<close>: \<open>gate\<close> is the answer of the token budget's \<open>pending_gate\<close>, \<open>activated\<close> that of
  \<open>activate_on\<close>; \<open>ordinal\<close> and \<open>most\<close> are the stored activation and limit that its query compares.
\<close>

definition activate ::
    "progression \<Rightarrow> nat \<Rightarrow> int \<Rightarrow> ('n activated_execution option, app_error) outcome
      \<Rightarrow> ('n activated_execution pending, app_error) outcome" where
  "activate gate ordinal most activated =
     (case gate of
        Progression_AwaitingAllowance \<Rightarrow> Ok Pending_Deferred
      | Progression_Refused reason \<Rightarrow> Ok (Pending_Settled (Some (Pending_TokenRefused reason)))
      | Progression_Open \<Rightarrow>
          if int ordinal > most then Ok (Pending_Settled (Some Pending_ActivationLimit))
          else
            (case activated of
               Ok (Some activation) \<Rightarrow> Ok (Pending_Ready activation)
             | Ok None \<Rightarrow> Ok (Pending_Settled None)
             | Err (BadRequest _) \<Rightarrow> Ok (Pending_Settled (Some Pending_InvalidInput))
             | Err error \<Rightarrow> Err error
             | Panic \<Rightarrow> Panic))"

definition prepare_pure ::
    "('n, 'd) compile_externals \<Rightarrow> instant \<Rightarrow> 'n compiled_workflow \<Rightarrow> progression \<Rightarrow> nat
      \<Rightarrow> ('n activated_execution option, app_error) outcome \<Rightarrow> int
      \<Rightarrow> (('n activated_execution \<times> 'n pure_completion) pending, app_error) outcome" where
  "prepare_pure x now c gate ordinal prior most =
     bindr (activate gate ordinal most prior) (\<lambda>p.
     (case p of
        Pending_Deferred \<Rightarrow> Ok Pending_Deferred
      | Pending_Settled failure \<Rightarrow> Ok (Pending_Settled failure)
      | Pending_Ready activated \<Rightarrow>
          (case execute_pure x now c activated of
             Ok (Some completion) \<Rightarrow>
               if pc_target completion \<noteq> End
               then bindr (ok_or (step_limit most) invalid_stored) (\<lambda>bound.
                 if act_ordinal activated \<ge> bound then Ok (Pending_Settled (Some Pending_ActivationLimit))
                 else Ok (Pending_Ready (activated, completion)))
               else Ok (Pending_Ready (activated, completion))
           | Err _ \<Rightarrow> Ok (Pending_Settled (Some Pending_InvalidOutput))
           | Ok None \<Rightarrow> Err invalid_stored
           | Panic \<Rightarrow> Panic)))"

section \<open>Runs whose steps all complete\<close>

text \<open>
  What the steps of a run are given and return: the inputs and the choice of each activation, and
  the result of its handler where the step has one.
\<close>

record 'n handled =
  handled_inputs :: "'n json"
  handled_choice :: "choice_name option"
  handled_result :: "'n json"

definition activation_of :: "(step_id \<Rightarrow> 'n handled) \<Rightarrow> nat \<Rightarrow> step_id \<Rightarrow> 'n activated_execution" where
  "activation_of h ordinal i = \<lparr>act_execution = 0, act_step = i, act_ordinal = ordinal,
     act_inputs = handled_inputs (h i), act_choice = handled_choice (h i)\<rparr>"

lemma activation_simps [simp]:
  "act_step (activation_of h ordinal i) = i" "act_ordinal (activation_of h ordinal i) = ordinal"
  "act_inputs (activation_of h ordinal i) = handled_inputs (h i)" "act_choice (activation_of h ordinal i) = handled_choice (h i)"
  by (simp_all add: activation_of_def)

datatype completion_stop = Stop_Limit | Stop_Invalid

text \<open>
  One step of a run with an open token budget: the batch writer takes a pure step, whose inputs were
  activated, the fenced writer the result of any other.
\<close>

definition complete_step ::
    "('n, 'd) compile_externals \<Rightarrow> instant \<Rightarrow> 'n compiled_workflow \<Rightarrow> (step_id \<Rightarrow> 'n handled) \<Rightarrow> int \<Rightarrow> nat \<Rightarrow> step_id
      \<Rightarrow> ('n pure_completion, completion_stop) outcome" where
  "complete_step x now c h most ordinal i =
     (let activation = activation_of h ordinal i in
      (case is_pure c i of
         Ok True \<Rightarrow>
           (case prepare_pure x now c Progression_Open ordinal (Ok (Some activation)) most of
              Ok (Pending_Ready (_, completion)) \<Rightarrow> Ok completion
            | Ok (Pending_Settled (Some Pending_ActivationLimit)) \<Rightarrow> Err Stop_Limit
            | Panic \<Rightarrow> Panic
            | _ \<Rightarrow> Err Stop_Invalid)
       | Ok False \<Rightarrow>
           (case prepare_result x now c activation (handled_result (h i)) most of
              Ok completion \<Rightarrow> Ok completion
            | Err Release_ActivationLimit \<Rightarrow> Err Stop_Limit
            | Panic \<Rightarrow> Panic
            | _ \<Rightarrow> Err Stop_Invalid)
       | Panic \<Rightarrow> Panic
       | _ \<Rightarrow> Err Stop_Invalid))"

datatype run_end = Run_Ended run_state | Run_Stopped completion_stop | Run_Panicked

lemma continues_below_limit:
  assumes "complete_step x now c h most ordinal i = Ok pc" and "pc_target pc \<noteq> End"
  shows "int ordinal < most"
proof (cases "is_pure c i")
  case (Ok pure)
  let ?a = "activation_of h ordinal i"
  show ?thesis
  proof (cases pure)
    case True
    then obtain a where "prepare_pure x now c Progression_Open ordinal (Ok (Some ?a)) most = Ok (Pending_Ready (a, pc))"
      using assms(1) Ok
      by (auto simp: complete_step_def Let_def split: outcome.splits pending.splits option.splits pending_failure.splits)
    then show ?thesis
      using assms(2)
      by (auto simp: prepare_pure_def activate_def step_limit_def bindr_eq_Ok split: if_splits outcome.splits option.splits)
  next
    case False
    then have "prepare_result x now c ?a (handled_result (h i)) most = Ok pc"
      using assms(1) Ok
      by (auto simp: complete_step_def Let_def split: outcome.splits lease_release_cause.splits)
    then show ?thesis
      using assms(2) by (auto simp: prepare_result_def step_limit_def bindr_eq_Ok split: if_splits)
  qed
qed (use assms(1) in \<open>auto simp: complete_step_def Let_def\<close>)

text \<open>
  The run from a step on: it commits completions, each successor with the next ordinal, until a
  completion ends the workflow or is refused. The steps it visits come with how it ends.
\<close>

function drive ::
    "('n, 'd) compile_externals \<Rightarrow> instant \<Rightarrow> 'n compiled_workflow \<Rightarrow> (step_id \<Rightarrow> 'n handled) \<Rightarrow> int \<Rightarrow> nat \<Rightarrow> step_id
      \<Rightarrow> step_id list \<times> run_end" where
  "drive x now c h most ordinal i =
     (case complete_step x now c h most ordinal i of
        Ok pc \<Rightarrow>
          (case pc_target pc of
             End \<Rightarrow> ([i], Run_Ended (pc_state pc))
           | Step t \<Rightarrow> (let r = drive x now c h most (ordinal + 1) t in (i # fst r, snd r)))
      | Err stop \<Rightarrow> ([i], Run_Stopped stop)
      | Panic \<Rightarrow> ([i], Run_Panicked))"
  by pat_completeness auto
termination
  by (relation "measure (\<lambda>(x, now, c, h, most, ordinal, i). nat (most - int ordinal))")
    (auto dest!: continues_below_limit)

declare drive.simps [simp del]

section \<open>The steps of a completing run\<close>

text \<open>What the step commits, whatever its ordinal.\<close>

definition completion_of ::
    "('n, 'd) compile_externals \<Rightarrow> instant \<Rightarrow> 'n compiled_workflow \<Rightarrow> (step_id \<Rightarrow> 'n handled) \<Rightarrow> step_id \<Rightarrow> 'n pure_completion option" where
  "completion_of x now c h i =
     (case is_pure c i of
        Ok True \<Rightarrow> (case execute_pure x now c (activation_of h 0 i) of Ok (Some pc) \<Rightarrow> Some pc | _ \<Rightarrow> None)
      | Ok False \<Rightarrow> (case prepare_io x now c (activation_of h 0 i) (handled_result (h i)) of Ok pc \<Rightarrow> Some pc | _ \<Rightarrow> None)
      | _ \<Rightarrow> None)"

lemma validate_completion_ordinal:
  "validate_completion x now c (activation_of h ordinal i) v route = validate_completion x now c (activation_of h 0 i) v route"
  by (simp only: validate_completion_def activation_simps)

lemma completion_ordinal:
  "execute_pure x now c (activation_of h ordinal i) = execute_pure x now c (activation_of h 0 i)"
  "prepare_io x now c (activation_of h ordinal i) v = prepare_io x now c (activation_of h 0 i) v"
  by (simp_all only: execute_pure_def prepare_io_def activation_simps validate_completion_ordinal [of _ _ _ h ordinal i])

lemma complete_step_eq:
  assumes "completion_of x now c h i = Some pc" and "1 \<le> ordinal" and "int ordinal \<le> most"
  shows "complete_step x now c h most ordinal i =
    (if pc_target pc \<noteq> End \<and> int ordinal = most then Err Stop_Limit else Ok pc)"
proof -
  have nat: "step_limit most = Some (nat most)" "\<not> nat most < ordinal" "nat most \<le> ordinal \<longleftrightarrow> int ordinal = most"
    using assms(2,3) by (auto simp: step_limit_def)
  show ?thesis
    using assms(1) nat assms(3) completion_ordinal [of x now c h ordinal i]
    by (auto simp: completion_of_def complete_step_def Let_def prepare_pure_def activate_def prepare_result_def
        split: outcome.splits bool.splits option.splits)
qed

text \<open>A validated completion follows the selected route and moves the run as the engine does.\<close>

lemma validated_completion:
  assumes "validate_completion x now c activation v route = Ok pc"
  shows "select_route (cw_graph c) (act_step activation) route = Ok (pc_target pc)" and "pc_state pc = routed (pc_target pc)"
  using assms
  by (auto simp: validate_completion_def Let_def bindr_eq_Ok apply_disposition_def map_err_eq_Ok split: if_splits)

lemma completion_routes:
  assumes "completion_of x now c h i = Some pc"
  shows "\<exists>route. select_route (cw_graph c) i route = Ok (pc_target pc)" and "pc_state pc = routed (pc_target pc)"
proof -
  obtain v route where "validate_completion x now c (activation_of h 0 i) v route = Ok pc"
    using assms
    by (auto simp: completion_of_def execute_pure_def prepare_io_def bindr_eq_Ok
        split: outcome.splits bool.splits option.splits if_splits)
  from validated_completion [OF this] show "\<exists>route. select_route (cw_graph c) i route = Ok (pc_target pc)" "pc_state pc = routed (pc_target pc)"
    by auto
qed

text \<open>
  Where the definition sends a step that completes: a decision to the target of the choice that was
  made, by its rules or in the result of its agent, and every other step to its one target.
\<close>

definition made_choice :: "'n step_definition \<Rightarrow> 'n handled \<Rightarrow> choice_name option" where
  "made_choice s a =
     (if step_type s = ''decision.rule'' then handled_choice a
      else if step_type s = ''decision.agent'' then Option.bind (json_get (handled_result a) ''choice'') as_str
      else None)"

definition leads_to :: "'n workflow_definition \<Rightarrow> (step_id \<Rightarrow> 'n handled) \<Rightarrow> step_id \<Rightarrow> transition_target \<Rightarrow> bool" where
  "leads_to d h i target \<longleftrightarrow> (\<exists>s. bt_get (wf_steps d) i = Some s
     \<and> (case step_routes s of
          Routes_Success t \<Rightarrow> target = t
        | Routes_Choices rs \<Rightarrow> (\<exists>choice. made_choice s (h i) = Some choice \<and> (choice, target) \<in> set rs)))"

lemma completion_leads:
  assumes "completion_of x now c h i = Some pc" and "cw_graph c = ValidatedWorkflow d"
  shows "leads_to d h i (pc_target pc)"
proof -
  obtain s where s: "bt_get (wf_steps d) i = Some s"
    using assms by (auto simp: completion_of_def is_pure_def bindr_eq_Ok split: outcome.splits option.splits)
  obtain v route where v: "validate_completion x now c (activation_of h 0 i) v route = Ok pc"
    and route: "route = Select_Success \<or> (\<exists>choice. route = Select_Choice choice \<and> made_choice s (h i) = Some choice)"
    using assms s
    by (auto simp: completion_of_def execute_pure_def prepare_io_def bindr_eq_Ok made_choice_def is_pure_def ChoiceName_parse_def
        map_err_eq_Ok dest!: parse_name_same
        split: outcome.splits bool.splits option.splits if_splits)
  have "select_route (ValidatedWorkflow d) i route = Ok (pc_target pc)"
    using validated_completion(1) [OF v] assms(2) by simp
  then show ?thesis
    using s route
    by (auto simp: leads_to_def select_route_def bindr_eq_Ok find_Some_iff split: routes.splits) (metis fst_conv nth_mem)
qed

text \<open>The steps such a run would visit if it had no limit: each leads to the target of its completion.\<close>

inductive run_path ::
    "('n, 'd) compile_externals \<Rightarrow> instant \<Rightarrow> 'n compiled_workflow \<Rightarrow> (step_id \<Rightarrow> 'n handled) \<Rightarrow> step_id list \<Rightarrow> bool"
  for x now c h where
  path_ends: "completion_of x now c h i = Some pc \<Longrightarrow> pc_target pc = End \<Longrightarrow> run_path x now c h [i]"
| path_goes: "completion_of x now c h i = Some pc \<Longrightarrow> pc_target pc = Step t \<Longrightarrow> run_path x now c h (t # ps)
    \<Longrightarrow> run_path x now c h (i # t # ps)"

lemma run_path_exists:
  assumes g: "bt_ok (wf_steps d) \<and> is_ok (validate d)" and c: "cw_graph c = ValidatedWorkflow d"
    and all: "\<forall>i \<in> graph_nodes d. completion_of x now c h i \<noteq> None"
  shows "i \<in> graph_nodes d \<Longrightarrow> \<exists>ps. run_path x now c h (i # ps) \<and> walk (graph_edges d) (i # ps) \<and> set (i # ps) \<subseteq> graph_nodes d"
proof (induction i rule: wf_induct_rule [OF validated.edges_wf [OF g]])
  case (1 i)
  obtain pc where pc: "completion_of x now c h i = Some pc" using all 1(2) by blast
  show ?case
  proof (cases "pc_target pc")
    case End
    then show ?thesis using path_ends [OF pc End] 1(2) by (intro exI [of _ "[]"]) simp
  next
    case (Step t)
    then have edge: "(i, t) \<in> graph_edges d"
      using completion_routes(1) [OF pc] select_route_edge [of d i] by (auto simp: c)
    then have "t \<in> graph_nodes d" using validated.edges_closed [OF g] by auto
    with edge obtain ps where ps: "run_path x now c h (t # ps)" "walk (graph_edges d) (t # ps)" "set (t # ps) \<subseteq> graph_nodes d"
      using 1(1) [of t] by auto
    then show ?thesis using path_goes [OF pc Step ps(1)] edge 1(2) by (intro exI [of _ "t # ps"]) simp
  qed
qed

text \<open>Each step of the path leads to the next, and the last to the end.\<close>

definition follows :: "'n workflow_definition \<Rightarrow> (step_id \<Rightarrow> 'n handled) \<Rightarrow> step_id list \<Rightarrow> bool" where
  "follows d h ps \<longleftrightarrow> (\<forall>k. Suc k < length ps \<longrightarrow> leads_to d h (ps ! k) (Step (ps ! Suc k)))
     \<and> leads_to d h (last ps) End"

lemma run_path_follows:
  assumes "run_path x now c h ps" and "cw_graph c = ValidatedWorkflow d"
  shows "ps \<noteq> [] \<and> follows d h ps"
  using assms(1)
proof (induction rule: run_path.induct)
  case (path_ends i pc)
  then show ?case using completion_leads [OF path_ends(1) assms(2)] by (simp add: follows_def)
next
  case (path_goes i pc t ps)
  have "leads_to d h i (Step t)" using completion_leads [OF path_goes(1) assms(2)] path_goes(2) by simp
  moreover have "leads_to d h ((i # t # ps) ! k) (Step ((i # t # ps) ! Suc k))" if "Suc k < length (i # t # ps)" for k
    using that calculation path_goes.IH by (cases k) (simp_all add: follows_def)
  ultimately show ?case using path_goes.IH by (simp add: follows_def)
qed

lemma drive_path:
  assumes "run_path x now c h ps" and "1 \<le> ordinal" and "int ordinal \<le> most"
  shows "drive x now c h most ordinal (hd ps) =
    (if int (ordinal + length ps) \<le> most + 1 then (ps, Run_Ended Succeeded)
     else (take (nat most + 1 - ordinal) ps, Run_Stopped Stop_Limit))"
  using assms
proof (induction arbitrary: ordinal rule: run_path.induct)
  case (path_ends i pc)
  then show ?case
    using complete_step_eq [OF path_ends(1), of ordinal most] completion_routes(2) [OF path_ends(1)]
    by (simp add: drive.simps [of x now c h most ordinal i])
next
  case (path_goes i pc t ps)
  note step = complete_step_eq [OF path_goes(1), of ordinal most]
  show ?case
  proof (cases "int ordinal = most")
    case True
    then have "nat most + 1 - ordinal = 1" by simp
    then show ?thesis
      using step path_goes True by (simp add: drive.simps [of x now c h most ordinal i])
  next
    case False
    then have later: "1 \<le> ordinal + 1" "int (ordinal + 1) \<le> most" using path_goes.prems by simp_all
    have "nat most + 1 - ordinal = Suc (nat most + 1 - (ordinal + 1))" using path_goes.prems by simp
    then show ?thesis
      using step path_goes.hyps(2) path_goes.prems False path_goes.IH [OF later]
      by (simp add: drive.simps [of x now c h most ordinal i] Let_def)
  qed
qed

section \<open>A small workflow\<close>

text \<open>A workflow of two steps in a line that may take one step only.\<close>

definition short_definition :: "int workflow_definition" where
  "short_definition = (sample_definition ''a''
     [(''a'', sample_step (Routes_Success (Step ''b'')) None), (''b'', sample_step (Routes_Success End) None)])
     \<lparr>wf_limits := \<lparr>root_budget = RootBudgetLimits_default, max_steps = 1, max_context_bytes = 1024\<rparr>\<rparr>"

definition open_schema :: "int schema" where
  "open_schema = \<lparr>schema_raw = VBool True, schema_validator = \<lambda>_. None\<rparr>"

definition short_workflow :: "int compiled_workflow" where
  "short_workflow = \<lparr>cw_source = [], cw_representation = VNull, cw_source_map = [([], sample_span)], cw_content_hash = [],
     cw_graph = ValidatedWorkflow short_definition, cw_input = open_schema, cw_params = open_schema, cw_output = open_schema,
     cw_step_inputs = [], cw_step_outputs = [(''a'', open_schema), (''b'', open_schema)], cw_rules = [], cw_controls = [],
     cw_checks = []\<rparr>"

definition null_handled :: "step_id \<Rightarrow> int handled" where
  "null_handled i = \<lparr>handled_inputs = VNull, handled_choice = None, handled_result = VNull\<rparr>"

lemma short_valid: "bt_ok (wf_steps short_definition)" "validate short_definition = Ok (ValidatedWorkflow short_definition)"
proof -
  show "bt_ok (wf_steps short_definition)" by code_simp
  have "validate short_definition = bindr (validate_limits short_definition) (\<lambda>_.
      bindr (preflight_routes short_definition) (\<lambda>_. graph_checks short_definition))"
    by (rule validate_staged) (simp_all add: short_definition_def sample_definition_def bt_keys_def)
  moreover have "graph_checks short_definition = Ok (ValidatedWorkflow short_definition)"
    unfolding graph_checks_def by code_simp
  moreover have "validate_limits short_definition = Ok ()" "preflight_routes short_definition = Ok ()"
    by (simp_all add: validate_limits_eq_Ok preflight_routes_eq_Ok short_definition_def sample_definition_def
        sample_step_def has_routes_def route_count_def MAX_GRAPH_EDGES_def)
  ultimately show "validate short_definition = Ok (ValidatedWorkflow short_definition)" by simp
qed

lemma short_completes:
  assumes "i \<in> graph_nodes short_definition"
  shows "completion_of sample_compiler 0 short_workflow null_handled i =
    Some \<lparr>pc_response_disposition = Automatic, pc_output = VNull, pc_route = Select_Success,
      pc_target = (if i = ''a'' then Step ''b'' else End), pc_state = (if i = ''a'' then Running else Succeeded)\<rparr>"
proof -
  have i: "i = ''a'' \<or> i = ''b''"
    using assms by (auto simp: graph_nodes_def bt_keys_def short_definition_def sample_definition_def)
  have steps: "bt_get (wf_steps short_definition) ''a'' = Some (sample_step (Routes_Success (Step ''b'')) None)"
    "bt_get (wf_steps short_definition) ''b'' = Some (sample_step (Routes_Success End) None)"
    by (simp_all add: short_definition_def sample_definition_def bt_get_def)
  have bytes: "max_context_bytes (wf_limits short_definition) = 1024"
    by (simp add: short_definition_def)
  have small: "validate_context_value sample_externals (VNull :: int json)
      (workflow_context_limits (ValidatedWorkflow short_definition)) = Ok ()"
    by (simp add: validate_context_value_eq_Ok workflow_context_limits_def bytes
        MAX_WORK_NODES_def MAX_OUTPUT_BYTES_def MAX_JSON_DEPTH_def serialized_len_def sample_externals_def)
  have c: "cw_graph short_workflow = ValidatedWorkflow short_definition" "cw_output short_workflow = open_schema"
    "bt_get (cw_step_outputs short_workflow) i = Some open_schema"
    using i by (auto simp: short_workflow_def bt_get_def)
  have located: "\<exists>s. span_or_root (cw_source_map short_workflow) at = Ok s" for at
    by (simp add: short_workflow_def span_or_root_def bt_get_def)
  have part: "validate_part sample_compiler short_workflow open_schema message VNull at anchor = Ok ()" for message at anchor
    using located [of anchor] small
    by (auto simp: validate_part_def sample_compiler_simps c open_schema_def Schema_validate_def)
  have step: "\<exists>r. bt_get (wf_steps short_definition) i = Some (sample_step (Routes_Success r) None) \<and> r = (if i = ''a'' then Step ''b'' else End)"
    using i steps by auto
  then have "validate_step_output sample_compiler short_workflow i VNull = Ok ()"
    by (auto simp: validate_step_output_def Let_def c part sample_step_def)
  moreover have "validate_output sample_compiler short_workflow VNull = Ok ()"
    by (simp add: validate_output_def c part)
  moreover have "select_route (ValidatedWorkflow short_definition) i Select_Success = Ok (if i = ''a'' then Step ''b'' else End)"
    using step by (auto simp: select_route_def sample_step_def)
  ultimately have "validate_completion sample_compiler 0 short_workflow (activation_of null_handled 0 i) VNull Select_Success =
      Ok \<lparr>pc_response_disposition = Automatic, pc_output = VNull, pc_route = Select_Success,
        pc_target = (if i = ''a'' then Step ''b'' else End), pc_state = (if i = ''a'' then Running else Succeeded)\<rparr>"
    using step small
    by (auto simp: validate_completion_def Let_def c sample_compiler_simps CompletedStep_new_def apply_disposition_def sample_step_def)
  then show ?thesis
    using step
    by (auto simp: completion_of_def is_pure_def c sample_step_def prepare_io_def is_io_kind_def IO_KINDS_def null_handled_def)
qed

section \<open>Properties\<close>



end
