(* ===== verification/Rebase.thy ===== *)
theory Rebase
  imports Analysis Bounded_Text
begin

text \<open>
  Edits of a workflow's source text: \<open>src/src/application/workflow/compiler/rebase.rs\<close> copies a
  workflow under a new identity or points one of its steps at another agent, and
  \<open>src/src/application/workflow/compiler/agent_selection.rs\<close> lists and selects the agents of its model
  steps. Each edit replaces one scalar at the bytes that the decoder reports for it, and checks the
  result by decoding it again. The decoder of the source is an argument.
\<close>

section \<open>Model\<close>

definition MAX_SOURCE_BYTES :: nat where
  "MAX_SOURCE_BYTES = 262144"

type_synonym 'n source_decoder = "string \<Rightarrow> ('n decoded_source, diagnostic) outcome"

text \<open>\<open>str::get\<close> with a range of bytes.\<close>

definition str_get :: "string \<Rightarrow> nat \<Rightarrow> nat \<Rightarrow> string option" where
  "str_get s a b =
     (if a \<le> b \<and> b \<le> length s \<and> is_char_boundary s a \<and> is_char_boundary s b then Some (take (b - a) (drop a s)) else None)"

definition ends_with :: "string \<Rightarrow> string \<Rightarrow> bool" where
  "ends_with s t \<longleftrightarrow> length t \<le> length s \<and> drop (length s - length t) s = t"

definition rebase_error :: "string \<Rightarrow> string \<Rightarrow> source_span \<Rightarrow> diagnostic" where
  "rebase_error tag message span = Diagnostic_at tag message ''/workflow_id'' span"

text \<open>The text that replaces a scalar, in the style of the scalar.\<close>

definition identity_replacement :: "string \<Rightarrow> string \<Rightarrow> string" where
  "identity_replacement scalar text =
     (case scalar of
        [] \<Rightarrow> text
      | c # _ \<Rightarrow> if c = CHR 0x27 then [CHR 0x27] @ text @ [CHR 0x27]
          else if c = CHR 0x22 then [CHR 0x22] @ text @ [CHR 0x22] else text)
     @ (if ends_with scalar [CHR 0x0D, CHR 0x0A] then [CHR 0x0D, CHR 0x0A]
        else if ends_with scalar [CHR 0x0A] then [CHR 0x0A] else [])"

definition splice_scalar :: "string \<Rightarrow> source_span \<Rightarrow> string \<Rightarrow> string" where
  "splice_scalar source span replacement = take (span_start span) source @ replacement @ drop (span_end span) source"

definition rebase_workflow_id ::
    "'n wire_externals \<Rightarrow> (uuid \<Rightarrow> string) \<Rightarrow> 'n source_decoder \<Rightarrow> string \<Rightarrow> uuid \<Rightarrow> (string, diagnostic) outcome" where
  "rebase_workflow_id w show_uuid decode source destination =
     bindr (decode source) (\<lambda>decoded.
     bindr (parse_workflow w decoded 0) (\<lambda>p.
     bindr (expect (bt_get (pw_locations p) ''/workflow_id'')) (\<lambda>span.
     if destination = 0 \<or> destination = workflow_id (pw_definition p)
     then Err (rebase_error ''copy.identity'' ''A fresh non-nil workflow identity is required'' span)
     else
       bindr (ok_or (str_get source (span_start span) (span_end span))
         (rebase_error ''copy.span'' ''Decoder returned an invalid scalar byte span'' span)) (\<lambda>scalar.
       let replacement = identity_replacement scalar (show_uuid destination) in
       if length source - length scalar + length replacement > MAX_SOURCE_BYTES
       then Err (rebase_error ''source.limit'' ''Rebased source exceeds 256 KiB'' span)
       else (let result = splice_scalar source span replacement in
         bindr (decode result) (\<lambda>checked.
         bindr (parse_workflow w checked 0) (\<lambda>p'.
         if workflow_id (pw_definition p') \<noteq> destination
         then Err (rebase_error ''copy.identity'' ''Rebased root identity does not match destination'' span)
         else Ok result)))))))"

definition agent_byte :: "char \<Rightarrow> bool" where
  "agent_byte c \<longleftrightarrow> is_ascii_alphanumeric c \<or> c \<in> {CHR ''_'', CHR ''-'', CHR ''.''}"

definition retarget_agent ::
    "'n wire_externals \<Rightarrow> 'n source_decoder \<Rightarrow> string \<Rightarrow> string \<Rightarrow> string \<Rightarrow> (string, diagnostic) outcome" where
  "retarget_agent w decode source step agent =
     (let pointer = ''/steps/'' @ step @ ''/with/agent/literal'';
          invalid = (\<lambda>message span. Diagnostic_at ''provision.agent'' message pointer span) in
      bindr (decode source) (\<lambda>decoded.
      bindr (parse_workflow w decoded 0) (\<lambda>p.
      bindr (case bt_get (pw_locations p) pointer of
          Some span \<Rightarrow> Ok span
        | None \<Rightarrow> bindr (expect (bt_get (pw_locations p) [])) (\<lambda>whole.
            Err (invalid ''The template has no literal agent here'' whole))) (\<lambda>span.
      if agent = [] \<or> \<not> list_all agent_byte agent
      then Err (invalid ''The agent key is not a valid literal'' span)
      else
        bindr (ok_or (str_get source (span_start span) (span_end span))
          (invalid ''Decoder returned an invalid scalar byte span'' span)) (\<lambda>scalar.
        if CHR 0x0A \<in> set scalar
        then Err (invalid ''The template's agent literal must be a single-line scalar'' span)
        else (let result = splice_scalar source span ([CHR 0x22] @ agent @ [CHR 0x22]) in
          if length result > MAX_SOURCE_BYTES
          then Err (invalid ''Retargeted source exceeds 256 KiB'' span)
          else
            bindr (decode result) (\<lambda>decoded'.
            bindr (parse_workflow w decoded' 0) (\<lambda>checked.
            bindr (map_err (\<lambda>_. invalid ''The template step is not a valid step id'' span) (StepId_parse step)) (\<lambda>i.
            if Option.bind (bt_get (wf_steps (pw_definition checked)) i) (\<lambda>d. bt_get (step_inputs d) ''agent'')
                = Some (Literal (VString agent))
            then Ok result
            else Err (invalid ''Retargeted agent does not match'' span))))))))))"

subsection \<open>The agents of model steps\<close>

datatype model_step = AgentRun | Classify | Decide

definition ModelStep_of :: "string \<Rightarrow> model_step option" where
  "ModelStep_of kind =
     (if kind = ''agent.run'' then Some AgentRun
      else if kind = ''ai.classify'' then Some Classify
      else if kind = ''decision.agent'' then Some Decide else None)"

fun model_step_kind :: "model_step \<Rightarrow> string" where
  "model_step_kind AgentRun = ''agent.run''"
| "model_step_kind Classify = ''ai.classify''"
| "model_step_kind Decide = ''decision.agent''"

definition uses_capabilities :: "model_step \<Rightarrow> bool" where
  "uses_capabilities m \<longleftrightarrow> m = AgentRun"

definition AgentKey_parse :: "string \<Rightarrow> string option" where
  "AgentKey_parse v = (if v \<noteq> [] \<and> length v \<le> 128 \<and> list_all agent_byte v then Some v else None)"

record agent_reference_step =
  ref_id :: step_id
  ref_model_step :: model_step
  ref_key :: "string option"

definition agent_reference_steps ::
    "'n wire_externals \<Rightarrow> 'n source_decoder \<Rightarrow> string \<Rightarrow> (agent_reference_step list, diagnostic) outcome" where
  "agent_reference_steps w decode source =
     bindr (decode source) (\<lambda>decoded.
     bindr (parse_workflow w decoded 0) (\<lambda>p.
     Ok (List.map_filter (\<lambda>(i, step).
       map_option (\<lambda>m. \<lparr>ref_id = i, ref_model_step = m,
           ref_key = (case bt_get (step_inputs step) ''agent'' of
             Some (Literal (VString s)) \<Rightarrow> AgentKey_parse s | _ \<Rightarrow> None)\<rparr>)
         (ModelStep_of (step_type step))) (wf_steps (pw_definition p)))))"

definition select_agent_reference ::
    "'n wire_externals \<Rightarrow> 'n source_decoder \<Rightarrow> string \<Rightarrow> step_id \<Rightarrow> string \<Rightarrow> (string, diagnostic) outcome" where
  "select_agent_reference w decode source step agent =
     bindr (decode source) (\<lambda>decoded.
     bindr (parse_workflow w decoded 0) (\<lambda>p.
     if (case bt_get (wf_steps (pw_definition p)) step of None \<Rightarrow> True | Some d \<Rightarrow> ModelStep_of (step_type d) = None)
     then bindr (expect (bt_get (pw_locations p) [])) (\<lambda>whole.
       Err (Diagnostic_at ''workflow.agent_reference'' ''Select a model step in the current source'' (''/steps/'' @ step) whole))
     else retarget_agent w decode source step agent))"

section \<open>Lemmas\<close>

lemma str_get_length: "str_get s a b = Some t \<Longrightarrow> a \<le> b \<and> b \<le> length s \<and> length t = b - a"
  by (auto simp: str_get_def split: if_splits)

lemma splice_length:
  "str_get source (span_start span) (span_end span) = Some scalar
    \<Longrightarrow> length (splice_scalar source span t) = length source - length scalar + length t"
  using str_get_length by (fastforce simp: splice_scalar_def)

text \<open>An edit leaves what precedes and what follows the scalar as it is.\<close>

definition edit_at :: "string \<Rightarrow> source_span \<Rightarrow> string \<Rightarrow> bool" where
  "edit_at source span result \<longleftrightarrow>
     (\<exists>before scalar after text. source = before @ scalar @ after \<and> result = before @ text @ after
        \<and> length before = span_start span \<and> length (before @ scalar) = span_end span)"

lemma splice_edits:
  assumes "str_get source (span_start span) (span_end span) = Some scalar"
  shows "edit_at source span (splice_scalar source span t)"
proof -
  let ?a = "span_start span" and ?b = "span_end span"
  have "?a \<le> ?b" "?b \<le> length source" using str_get_length [OF assms] by auto
  moreover have "source = take ?a source @ take (?b - ?a) (drop ?a source) @ drop ?b source"
    by (metis \<open>?a \<le> ?b\<close> append.assoc append_take_drop_id le_add_diff_inverse take_add)
  ultimately show ?thesis
    unfolding edit_at_def splice_scalar_def
    by (intro exI [of _ "take ?a source"] exI [of _ "take (?b - ?a) (drop ?a source)"] exI [of _ "drop ?b source"] exI [of _ t]) auto
qed

lemma retarget_agent_parts:
  assumes "retarget_agent w decode source step agent = Ok result"
  obtains decoded p where "decode result = Ok decoded" "parse_workflow w decoded 0 = Ok p" "StepId_parse step = Ok step"
    "\<exists>d. bt_get (wf_steps (pw_definition p)) step = Some d \<and> bt_get (step_inputs d) ''agent'' = Some (Literal (VString agent))"
  using assms unfolding retarget_agent_def Let_def
  by (auto simp: bindr_eq_Ok bind_eq_Some_conv StepId_parse_def dest: parse_name_same split: if_splits)

lemma retarget_agent_edits:
  assumes "retarget_agent w decode source step agent = Ok result"
  shows "\<exists>span. edit_at source span result"
  using assms unfolding retarget_agent_def Let_def
  by (auto simp: bindr_eq_Ok split: if_splits intro: splice_edits)

section \<open>A small source\<close>

text \<open>
  A decoder that knows three texts of a workflow with one model step: the text \<open>x\<close>, the same with
  its identity replaced, and the same with its agent replaced.
\<close>

definition agent_tree :: "string \<Rightarrow> string \<Rightarrow> nat decoded_source" where
  "agent_tree i agent = \<lparr>source_text = [], source_root = node_of sample_span (VObject
     [(''entry'', VString ''a''), (''format_version'', VNumber 1), (''input_schema'', VBool True),
      (''limits'', VObject [(''max_context_bytes'', VNumber 1024), (''max_steps'', VNumber 3)]),
      (''output_schema'', VBool True), (''parameter_schema'', VBool True), (''resources'', VArray []),
      (''steps'', VObject [(''a'', VObject
         [(''routes'', VObject [(''success'', VString ''$end'')]), (''type'', VString ''agent.run''),
          (''with'', VObject [(''agent'', VObject [(''literal'', VString agent)])])])]),
      (''workflow_id'', VString i)])\<rparr>"

definition agent_wire :: "nat wire_externals" where
  "agent_wire = \<lparr>uuid_parse_str = (\<lambda>s. if s = ''w'' then Some 1 else if s = ''v'' then Some 2 else None), as_u64 = Some\<rparr>"

definition agent_decoder :: "nat source_decoder" where
  "agent_decoder s =
     (if s = ''x'' then Ok (agent_tree ''w'' ''j'')
      else if s = ''v'' then Ok (agent_tree ''v'' ''j'')
      else if s = [CHR 0x22, CHR ''k'', CHR 0x22] then Ok (agent_tree ''w'' ''k'')
      else Err (Diagnostic_at ''decode'' [] [] sample_span))"

definition agent_definition :: "uuid \<Rightarrow> string \<Rightarrow> nat workflow_definition" where
  "agent_definition i agent = \<lparr>format_version = 1, workflow_id = i, version_id = 0, input_schema = Some (VBool True),
     parameter_schema = Some (VBool True), output_schema = Some (VBool True), resources = [], wf_entry = ''a'',
     wf_steps = [(''a'', \<lparr>step_type = ''agent.run'', step_inputs = [(''agent'', Literal (VString agent))],
        step_routes = Routes_Success End, final_error = None\<rparr>)],
     wf_limits = \<lparr>root_budget = RootBudgetLimits_default, max_steps = 3, max_context_bytes = 1024\<rparr>\<rparr>"

lemma agent_tree_parses:
  assumes "uuid_parse_str agent_wire i = Some u"
  shows "parse_workflow agent_wire (agent_tree i agent) 0
    = Ok \<lparr>pw_definition = agent_definition u agent, pw_controls = [], pw_rules = [],
        pw_locations = locations (source_root (agent_tree i agent)) [] []\<rparr>"
proof -
  have parts: "valid_part ''a''" "list_all valid_part (split_on CHR ''.'' ''agent.run'')" by code_simp+
  have binding: "parse_binding (node_of s (VObject [(''literal'', VString agent :: nat json)])) at = Ok (Literal (VString agent))" for s at
    using parse_write_binding [of "Literal (VString agent) :: nat binding" s at] by (simp add: operator_node_def)
  have scalar: "json_value (LocatedNode (Scalar (VBool True :: nat json)) s) at = Ok (VBool True)" for s at
    using json_source_round_trip [of "VBool True :: nat json" s at] by simp
  show ?thesis
    using assms
    by (simp add: scalar parse_workflow_def agent_tree_def fields_node_of ROOT_FIELDS_def STEP_FIELDS_def required_def Let_def
        bt_ok_def bt_get_def value_as_u64_def agent_wire_def uuid_at_def checked_name_def scalar_string_def
        json_source_round_trip resources_at_def sequence_def ok_option_def parse_name_def StepId_parse_def TypeName_parse_def
        steps_at_def step_at_def routes_at_def target_at_def map_transpose_def inputs_at_def collect_map_def control_at_def
        execution_limits_at_def positive_u32_def MAX_NAME_BYTES_def parts binding agent_definition_def
        del: node_of.simps(2) split_on.simps)
qed

lemma agent_tree_locations:
  "bt_get (locations (source_root (agent_tree i agent)) [] []) ''/workflow_id'' = Some sample_span"
  "bt_get (locations (source_root (agent_tree i agent)) [] []) ''/steps/a/with/agent/literal'' = Some sample_span"
  unfolding agent_tree_def by code_simp+

lemma agent_trees:
  "parse_workflow agent_wire (agent_tree ''w'' agent) 0
    = Ok \<lparr>pw_definition = agent_definition 1 agent, pw_controls = [], pw_rules = [],
        pw_locations = locations (source_root (agent_tree ''w'' agent)) [] []\<rparr>"
  "parse_workflow agent_wire (agent_tree ''v'' agent) 0
    = Ok \<lparr>pw_definition = agent_definition 2 agent, pw_controls = [], pw_rules = [],
        pw_locations = locations (source_root (agent_tree ''v'' agent)) [] []\<rparr>"
  by (rule agent_tree_parses, simp add: agent_wire_def)+

lemma sample_scalar: "str_get [c] (span_start sample_span) (span_end sample_span) = Some [c]" "splice_scalar [c] sample_span t = t"
  by (simp_all add: str_get_def sample_span_def is_char_boundary_def splice_scalar_def)

section \<open>Properties\<close>

text \<open>
  C18. Copying a workflow changes its identity and nothing else of its text: the bytes before and after
  the located scalar are those of the source, the result decodes to a workflow with the new
  identity, and it is no longer than a source may be.
\<close>

theorem rebasing_changes_only_the_identity:
  assumes "rebase_workflow_id w show_uuid decode source destination = Ok result"
  shows "\<exists>decoded p span decoded' p'. decode source = Ok decoded \<and> parse_workflow w decoded 0 = Ok p
    \<and> bt_get (pw_locations p) ''/workflow_id'' = Some span \<and> edit_at source span result
    \<and> decode result = Ok decoded' \<and> parse_workflow w decoded' 0 = Ok p' \<and> workflow_id (pw_definition p') = destination
    \<and> destination \<noteq> workflow_id (pw_definition p) \<and> length result \<le> MAX_SOURCE_BYTES"
proof -
  obtain decoded p span scalar where
    p: "decode source = Ok decoded" "parse_workflow w decoded 0 = Ok p" "bt_get (pw_locations p) ''/workflow_id'' = Some span"
    and scalar: "str_get source (span_start span) (span_end span) = Some scalar" "destination \<noteq> workflow_id (pw_definition p)"
    and size: "length source - length scalar + length (identity_replacement scalar (show_uuid destination)) \<le> MAX_SOURCE_BYTES"
    and result: "result = splice_scalar source span (identity_replacement scalar (show_uuid destination))"
      "\<exists>decoded' p'. decode result = Ok decoded' \<and> parse_workflow w decoded' 0 = Ok p' \<and> workflow_id (pw_definition p') = destination"
    using assms unfolding rebase_workflow_id_def Let_def
    by (auto simp: bindr_eq_Ok split: if_splits)
  then show ?thesis
    using splice_edits [OF scalar(1)] splice_length [OF scalar(1)] by metis
qed


theorem rebasing_changes_only_the_identity_witness:
  "rebase_workflow_id agent_wire (\<lambda>_. ''v'') agent_decoder ''x'' 2 = Ok ''v'' \<and> length ''v'' \<le> MAX_SOURCE_BYTES"
proof -
  have ok: "rebase_workflow_id agent_wire (\<lambda>_. ''v'') agent_decoder ''x'' 2 = Ok ''v''"
    by (simp add: rebase_workflow_id_def agent_decoder_def agent_trees agent_tree_locations agent_definition_def sample_scalar
        identity_replacement_def ends_with_def MAX_SOURCE_BYTES_def Let_def)
  from rebasing_changes_only_the_identity [OF this] ok show ?thesis by blast
qed


end
