(* ===== verification/Registry_Schemas.thy ===== *)
theory Registry_Schemas
  imports Budget Input_Checks
begin

text \<open>
  The fixed parts of the step catalogue: the builders of the schemas of step inputs and outputs
  (\<open>src/src/application/workflow/registry/schemas.rs\<close>, \<open>mcp.rs\<close>), the inputs that triggers hand a
  run (\<open>src/src/application/workflow/triggers.rs\<close>) and the execution constraints of each step type
  (\<open>metadata.rs\<close>). The literals of \<open>json!\<close> are written in the order of the source; the object they
  build is ordered by key.
\<close>

section \<open>Literals of \<open>json!\<close>\<close>

definition jobj :: "(string \<times> 'n json) list \<Rightarrow> 'n json" where
  "jobj kvs = VObject (bt_of kvs)"

definition jstrings :: "string list \<Rightarrow> 'n json" where
  "jstrings ss = VArray (map VString ss)"

text \<open>Assignment to a key of an object, \<open>v[key] = w\<close>.\<close>

fun json_set :: "'n json \<Rightarrow> string \<Rightarrow> 'n json \<Rightarrow> 'n json" where
  "json_set (VObject m) k w = VObject (bt_insert k w m)"
| "json_set v k w = v"

section \<open>Limits\<close>

definition MAX_FACTS :: nat where "MAX_FACTS = 256"
definition MAX_SELECTIONS :: nat where "MAX_SELECTIONS = 128"
definition MAX_MESSAGE_DESTINATIONS :: nat where "MAX_MESSAGE_DESTINATIONS = 20"
definition MAX_ITEMS :: nat where "MAX_ITEMS = 256"
definition MAX_TEXT :: nat where "MAX_TEXT = 16384"
definition MAX_HEADERS :: nat where "MAX_HEADERS = 64"
definition MAX_CONTEXT_TOKENS :: nat where "MAX_CONTEXT_TOKENS = 131072"
definition MAX_IDENTIFIER :: nat where "MAX_IDENTIFIER = 128"
definition MAX_PATH :: nat where "MAX_PATH = 2048"
definition MAX_DEADLINE :: nat where "MAX_DEADLINE = 64"
definition MAX_CORRELATION :: nat where "MAX_CORRELATION = 256"

definition TYPES :: "string list" where
  "TYPES = [''context.history'', ''memory.load'', ''memory.save'', ''ai.classify'', ''jev.evaluate'', ''agent.run'',
     ''decision.rule'', ''decision.human'', ''decision.agent'', ''data.map'', ''channel.no_reply'', ''http.request'',
     ''tool.call'', ''mcp.call'', ''message.send'', ''message.reply'', ''message.ask'', ''workflow.call'',
     ''flow.repeat'', ''wait.event'', ''wait.timer'']"

section \<open>Schema builders\<close>

definition text_schema :: "(nat \<Rightarrow> 'n) \<Rightarrow> nat \<Rightarrow> 'n json" where
  "text_schema num most =
     jobj [(''type'', VString ''string''), (''minLength'', VNumber (num 1)), (''maxLength'', VNumber (num most))]"

definition identifier_schema :: "(nat \<Rightarrow> 'n) \<Rightarrow> 'n json" where
  "identifier_schema num =
     jobj [(''type'', VString ''string''), (''minLength'', VNumber (num 1)), (''maxLength'', VNumber (num MAX_IDENTIFIER)),
       (''pattern'', VString ''^[A-Za-z0-9][A-Za-z0-9_.-]*$'')]"

definition integer_schema :: "(nat \<Rightarrow> 'n) \<Rightarrow> nat \<Rightarrow> 'n json" where
  "integer_schema num most =
     jobj [(''type'', VString ''integer''), (''minimum'', VNumber (num 1)), (''maximum'', VNumber (num most))]"

definition array_schema :: "(nat \<Rightarrow> 'n) \<Rightarrow> 'n json \<Rightarrow> nat \<Rightarrow> nat \<Rightarrow> 'n json" where
  "array_schema num items least most =
     jobj [(''type'', VString ''array''), (''items'', items), (''minItems'', VNumber (num least)), (''maxItems'', VNumber (num most))]"

definition object_schema :: "(string \<times> 'n json) list \<Rightarrow> string list \<Rightarrow> 'n json" where
  "object_schema properties names =
     jobj [(''type'', VString ''object''), (''properties'', jobj properties), (''required'', jstrings names),
       (''additionalProperties'', VBool False)]"

definition const_schema :: "'n json \<Rightarrow> 'n json" where
  "const_schema v = jobj [(''const'', v)]"

definition enum_schema :: "string list \<Rightarrow> 'n json" where
  "enum_schema ss = jobj [(''enum'', jstrings ss)]"

definition scope_schema :: "(nat \<Rightarrow> 'n) \<Rightarrow> 'n json" where
  "scope_schema num = jobj [(''oneOf'', VArray
     [object_schema [(''kind'', const_schema (VString ''company'')), (''id'', identifier_schema num)] [''kind''],
      object_schema [(''kind'', enum_schema [''agent'', ''user'']), (''id'', identifier_schema num)] [''kind'', ''id'']])]"

definition uuid_pattern :: string where
  "uuid_pattern = ''^[0-9A-Fa-f]{8}-[0-9A-Fa-f]{4}-[0-9A-Fa-f]{4}-[0-9A-Fa-f]{4}-[0-9A-Fa-f]{12}$''"

definition uuid_schema :: "'n json" where
  "uuid_schema = jobj [(''type'', VString ''string''), (''pattern'', VString uuid_pattern)]"

definition reviewers_schema :: "(nat \<Rightarrow> 'n) \<Rightarrow> 'n json" where
  "reviewers_schema num =
     json_set (array_schema num (object_schema [(''kind'', const_schema (VString ''user'')), (''id'', uuid_schema)] [''kind'', ''id''])
       1 MAX_REVIEWERS) ''uniqueItems'' (VBool True)"

definition content_schema :: "(nat \<Rightarrow> 'n) \<Rightarrow> 'n json" where
  "content_schema num = object_schema
     [(''subject'', jobj [(''type'', VString ''string''), (''maxLength'', VNumber (num MAX_SUBJECT_BYTES))]),
      (''body'', text_schema num MAX_TEXT)] [''body'']"

definition string_schema :: "(nat \<Rightarrow> 'n) \<Rightarrow> nat \<Rightarrow> 'n json" where
  "string_schema num most = jobj [(''type'', VString ''string''), (''maxLength'', VNumber (num most))]"

definition date_time :: "(nat \<Rightarrow> 'n) \<Rightarrow> 'n json" where
  "date_time num = jobj [(''type'', VString ''string''), (''format'', VString ''date-time''), (''maxLength'', VNumber (num MAX_DEADLINE))]"

definition history_item :: "(nat \<Rightarrow> 'n) \<Rightarrow> 'n json" where
  "history_item num = object_schema
     [(''message_id'', identifier_schema num), (''at'', date_time num), (''role'', enum_schema [''human'', ''agent'', ''system'']),
      (''audience'', enum_schema [''external_conversation'', ''internal_only'']),
      (''entry_kind'', enum_schema [''conversation'', ''note'', ''delegation'', ''system_event'']),
      (''author'', string_schema num MAX_TEXT), (''subject'', string_schema num MAX_TEXT),
      (''body'', string_schema num MAX_TEXT), (''truncated'', jobj [(''type'', VString ''boolean'')])]
     [''message_id'', ''at'', ''role'', ''audience'', ''entry_kind'', ''author'', ''subject'', ''body'', ''truncated'']"

definition provenance_item :: "(nat \<Rightarrow> 'n) \<Rightarrow> 'n json" where
  "provenance_item num = object_schema
     [(''id'', identifier_schema num), (''source'', identifier_schema num), (''content'', text_schema num MAX_TEXT)] [''id'', ''source'', ''content'']"

definition message_result :: "(nat \<Rightarrow> 'n) \<Rightarrow> 'n json" where
  "message_result num =
     (let destination = object_schema [(''kind'', enum_schema [''user'', ''channel'', ''reply'']), (''id'', uuid_schema)] [''kind'', ''id''];
          status = enum_schema [''accepted'', ''failed''];
          entry = object_schema [(''destination'', destination), (''message_id'', uuid_schema), (''status'', status)]
            [''destination'', ''message_id'', ''status''] in
      object_schema [(''status'', status), (''messages'', array_schema num entry 1 MAX_MESSAGE_DESTINATIONS)] [''status'', ''messages''])"

definition headers_schema :: "(nat \<Rightarrow> 'n) \<Rightarrow> 'n json" where
  "headers_schema num = jobj
     [(''type'', VString ''object''), (''maxProperties'', VNumber (num MAX_HEADERS)),
      (''propertyNames'', jobj [(''type'', VString ''string''), (''minLength'', VNumber (num 1)),
         (''maxLength'', VNumber (num MAX_IDENTIFIER)),
         (''pattern'', VString (''^[!#$%&'' @ [CHR 0x27] @ ''*+.^_'' @ [CHR 0x60] @ ''|~0-9A-Za-z-]+$''))]),
      (''additionalProperties'', string_schema num MAX_TEXT)]"

text \<open>\<open>embedded\<close>: a caller's schema keeps its own local references by an \<open>$id\<close> of its own.\<close>

definition embedded :: "'n json \<Rightarrow> string \<Rightarrow> 'n json" where
  "embedded s field =
     (case s of
        VObject m \<Rightarrow>
          if bt_contains m ''$id'' then VObject m
          else VObject (bt_insert ''$id'' (VString (''urn:workflow:contract:'' @ field)) m)
      | _ \<Rightarrow> s)"

subsection \<open>Results of MCP tools\<close>

definition base64_schema :: "(nat \<Rightarrow> 'n) \<Rightarrow> 'n json" where
  "base64_schema num = jobj [(''type'', VString ''string''), (''maxLength'', VNumber (num MAX_TEXT)),
     (''pattern'', VString ''^(?:[A-Za-z0-9+/]{4})*(?:[A-Za-z0-9+/]{2}==|[A-Za-z0-9+/]{3}=)?$'')]"

definition mcp_metadata :: "(nat \<Rightarrow> 'n) \<Rightarrow> 'n json" where
  "mcp_metadata num = jobj [(''type'', VString ''object''), (''maxProperties'', VNumber (num MAX_HEADERS)),
     (''propertyNames'', jobj [(''maxLength'', VNumber (num MAX_IDENTIFIER))])]"

definition mcp_annotations :: "(nat \<Rightarrow> 'n) \<Rightarrow> 'n json" where
  "mcp_annotations num = object_schema
     [(''audience'', array_schema num (enum_schema [''user'', ''assistant'']) 0 2),
      (''priority'', jobj [(''type'', VString ''number''), (''minimum'', VNumber (num 0)), (''maximum'', VNumber (num 1))]),
      (''lastModified'', date_time num)] []"

definition mcp_block :: "(nat \<Rightarrow> 'n) \<Rightarrow> (string \<times> 'n json) list \<Rightarrow> string list \<Rightarrow> 'n json" where
  "mcp_block num properties names =
     object_schema (properties @ [(''annotations'', mcp_annotations num), (''_meta'', mcp_metadata num)]) names"

definition mcp_resource :: "(nat \<Rightarrow> 'n) \<Rightarrow> string \<Rightarrow> 'n json \<Rightarrow> 'n json" where
  "mcp_resource num field payload = object_schema
     [(''uri'', text_schema num MAX_PATH), (''mimeType'', string_schema num MAX_IDENTIFIER), (''_meta'', mcp_metadata num), (field, payload)]
     [''uri'', field]"

definition mcp_icons :: "(nat \<Rightarrow> 'n) \<Rightarrow> 'n json" where
  "mcp_icons num = array_schema num (object_schema
     [(''src'', text_schema num MAX_TEXT), (''mimeType'', string_schema num MAX_IDENTIFIER),
      (''sizes'', array_schema num (string_schema num MAX_IDENTIFIER) 0 MAX_SELECTIONS), (''theme'', enum_schema [''light'', ''dark''])] [''src''])
     0 MAX_SELECTIONS"

definition mcp_content :: "(nat \<Rightarrow> 'n) \<Rightarrow> 'n json" where
  "mcp_content num = array_schema num (jobj [(''oneOf'', VArray
     [mcp_block num [(''type'', const_schema (VString ''text'')), (''text'', string_schema num MAX_TEXT)] [''type'', ''text''],
      mcp_block num [(''type'', enum_schema [''image'', ''audio'']), (''data'', base64_schema num), (''mimeType'', text_schema num MAX_IDENTIFIER)]
        [''type'', ''data'', ''mimeType''],
      mcp_block num [(''type'', const_schema (VString ''resource'')),
         (''resource'', jobj [(''oneOf'', VArray [mcp_resource num ''text'' (string_schema num MAX_TEXT),
            mcp_resource num ''blob'' (base64_schema num)])])] [''type'', ''resource''],
      mcp_block num [(''type'', const_schema (VString ''resource_link'')), (''icons'', mcp_icons num), (''uri'', text_schema num MAX_PATH),
         (''name'', string_schema num MAX_IDENTIFIER), (''title'', string_schema num MAX_TEXT), (''description'', string_schema num MAX_TEXT),
         (''mimeType'', string_schema num MAX_IDENTIFIER),
         (''size'', jobj [(''type'', VString ''number''), (''minimum'', VNumber (num 0))])] [''type'', ''uri'', ''name'']])]) 0 MAX_ITEMS"

definition mcp_tool_result :: "(nat \<Rightarrow> 'n) \<Rightarrow> 'n json \<Rightarrow> 'n json" where
  "mcp_tool_result num output_s = object_schema
     [(''content'', mcp_content num), (''structuredContent'', embedded output_s ''mcp-output''),
      (''isError'', jobj [(''type'', VString ''boolean'')]), (''_meta'', mcp_metadata num)] [''content'', ''isError'']"

section \<open>Inputs of triggers\<close>

definition MESSAGE_INPUT_BODY_BYTES :: nat where "MESSAGE_INPUT_BODY_BYTES = 16384"
definition MESSAGE_INPUT_SENDER_BYTES :: nat where "MESSAGE_INPUT_SENDER_BYTES = 320"
definition MESSAGE_REPLY_EVENT :: string where "MESSAGE_REPLY_EVENT = ''message.reply''"
definition CHANNEL_QUESTION_REPLY_EVENT :: string where "CHANNEL_QUESTION_REPLY_EVENT = ''channel.question.reply''"

definition message_trigger_schema :: "(nat \<Rightarrow> 'n) \<Rightarrow> 'n json" where
  "message_trigger_schema num = object_schema
     [(''source_message'', uuid_schema), (''message'', string_schema num MESSAGE_INPUT_BODY_BYTES),
      (''subject'', string_schema num MAX_SUBJECT_BYTES), (''sender'', string_schema num MESSAGE_INPUT_SENDER_BYTES)]
     [''source_message'', ''message'', ''subject'', ''sender'']"

text \<open>The loop of \<open>truncate\<close> is that of \<open>boundary_before\<close>: the last character boundary at or before an index.\<close>

definition truncate_text :: "string \<Rightarrow> nat \<Rightarrow> string" where
  "truncate_text s most = (if length s \<le> most then s else take (boundary_before s most) s)"

record message_trigger_input =
  mt_source_message :: uuid
  mt_message :: string
  mt_subject :: string
  mt_sender :: string

definition MessageTriggerInput_new :: "uuid \<Rightarrow> string \<Rightarrow> string \<Rightarrow> string \<Rightarrow> message_trigger_input" where
  "MessageTriggerInput_new i body subject sender =
     \<lparr>mt_source_message = i, mt_message = truncate_text body MESSAGE_INPUT_BODY_BYTES,
      mt_subject = truncate_text subject MAX_SUBJECT_BYTES, mt_sender = truncate_text sender MESSAGE_INPUT_SENDER_BYTES\<rparr>"

definition message_trigger_value :: "(uuid \<Rightarrow> string) \<Rightarrow> message_trigger_input \<Rightarrow> 'n json" where
  "message_trigger_value show_uuid t = jobj
     [(''source_message'', VString (show_uuid (mt_source_message t))), (''message'', VString (mt_message t)),
      (''subject'', VString (mt_subject t)), (''sender'', VString (mt_sender t))]"

section \<open>Execution constraints\<close>

datatype effect_class = Pure | BoundedRead | ModelInvocation | AgentActions | DurableWrite | Effect_SharedAction
  | DurableSuspension | ChildControl

datatype recovery_mode = Recompute | ReuseCommittedResult | LogicalIdempotencyReceiptReconciliation | ResumeDurableIdentity

datatype capability_requirement = ContextRead | MemoryRead | MemoryWrite | ModelInvoke | AgentInvoke | ResourceUse
  | Capability_SharedAction | MessageSend | HumanReview | EventWait | TimerWait | ChildInvoke

record execution_constraints =
  ec_effect :: effect_class
  ec_recovery :: recovery_mode
  ec_capabilities :: "capability_requirement list"
  ec_may_suspend :: bool
  ec_shared_action_required :: bool
  ec_sequential_repeat :: bool
  ec_inherited_run_budgets :: bool
  ec_frozen_inputs_required :: bool
  ec_runtime_deadline_required :: bool

definition effect_of :: "string \<Rightarrow> (effect_class \<times> capability_requirement list, 'e) outcome" where
  "effect_of name =
     (if name \<in> {''data.map'', ''decision.rule'', ''channel.no_reply''} then Ok (Pure, [])
      else if name = ''context.history'' then Ok (BoundedRead, [ContextRead])
      else if name = ''memory.load'' then Ok (BoundedRead, [MemoryRead])
      else if name = ''memory.save'' then Ok (DurableWrite, [MemoryWrite])
      else if name \<in> {''ai.classify'', ''decision.agent''} then Ok (ModelInvocation, [ModelInvoke])
      else if name = ''jev.evaluate'' then Ok (ModelInvocation, [ModelInvoke, ResourceUse])
      else if name = ''agent.run'' then Ok (AgentActions, [AgentInvoke])
      else if name \<in> {''http.request'', ''mcp.call''} then Ok (Effect_SharedAction, [ResourceUse, Capability_SharedAction])
      else if name = ''tool.call'' then Ok (Effect_SharedAction, [Capability_SharedAction])
      else if name \<in> {''message.send'', ''message.reply'', ''message.ask''} then Ok (Effect_SharedAction, [MessageSend, Capability_SharedAction])
      else if name = ''decision.human'' then Ok (DurableSuspension, [HumanReview])
      else if name = ''wait.event'' then Ok (DurableSuspension, [EventWait])
      else if name = ''wait.timer'' then Ok (DurableSuspension, [TimerWait])
      else if name \<in> {''workflow.call'', ''flow.repeat''} then Ok (ChildControl, [ChildInvoke])
      else Panic)"

fun recovery_of :: "effect_class \<Rightarrow> recovery_mode" where
  "recovery_of Pure = Recompute"
| "recovery_of BoundedRead = ReuseCommittedResult"
| "recovery_of ModelInvocation = ReuseCommittedResult"
| "recovery_of AgentActions = LogicalIdempotencyReceiptReconciliation"
| "recovery_of DurableWrite = LogicalIdempotencyReceiptReconciliation"
| "recovery_of Effect_SharedAction = LogicalIdempotencyReceiptReconciliation"
| "recovery_of DurableSuspension = ResumeDurableIdentity"
| "recovery_of ChildControl = ResumeDurableIdentity"

definition step_constraints :: "string \<Rightarrow> (execution_constraints, 'e) outcome" where
  "step_constraints name =
     bindr (effect_of name) (\<lambda>(effect, capabilities).
     Ok \<lparr>ec_effect = effect, ec_recovery = recovery_of effect, ec_capabilities = capabilities,
       ec_may_suspend = (effect \<in> {DurableSuspension, ChildControl, AgentActions, Effect_SharedAction}),
       ec_shared_action_required = (effect \<in> {Effect_SharedAction, AgentActions}),
       ec_sequential_repeat = (name = ''flow.repeat''), ec_inherited_run_budgets = True, ec_frozen_inputs_required = True,
       ec_runtime_deadline_required = (effect \<noteq> Pure)\<rparr>)"

end
