(* ===== verification/Jev.thy ===== *)
theory Jev
  imports Registry_Schemas Fact_Budget
begin

text \<open>
  The contract of the typed evaluator, \<open>src/src/application/workflow/registry/jev.rs\<close>, with its image
  references (\<open>src/src/application/workflow/jev_assets.rs\<close>) and its models
  (\<open>src/src/application/workflow/jev.rs\<close>): the questions of a step and their bounds, the schema of the
  answers, the check of a response.

  The derived deserializers, the parser of UUIDs and the arithmetic of floating-point numbers are
  parameters.
\<close>

section \<open>Model\<close>

definition MAX_QUESTIONS :: nat where "MAX_QUESTIONS = 32"
definition MAX_OPTIONS :: nat where "MAX_OPTIONS = 64"
definition MAX_LEVELS :: nat where "MAX_LEVELS = 10"
definition MAX_REQUEST_BYTES :: nat where "MAX_REQUEST_BYTES = 65536"
definition MAX_RESPONSE_BYTES :: nat where "MAX_RESPONSE_BYTES = 65536"
definition MAX_ASSETS :: nat where "MAX_ASSETS = 4"

record noul_criteria =
  criteria_yes :: string
  criteria_no :: string

datatype question =
    Noul (instructions: string) "noul_criteria option"
  | Choice (instructions: string) "(string, string) btree_map"
  | Score (instructions: string) "string list"
  | Box (instructions: string)

type_synonym questions = "(string, question) btree_map"

record jev_asset_ref =
  asset_channel_id :: uuid
  asset_thread_id :: uuid
  asset_sha256 :: string

type_synonym jev_asset_refs = "(string, jev_asset_ref) btree_map"

text \<open>The comparisons of \<open>f64\<close> are false when an operand is not a number.\<close>

record ('n, 'd, 'f) jev_externals =
  jx_values :: "('n, 'd) externals"
  jx_question :: "'n json \<Rightarrow> question option" \<comment> \<open>the derived \<open>Question::deserialize\<close>\<close>
  jx_assets :: "'n json \<Rightarrow> jev_asset_refs option" \<comment> \<open>\<open>serde_json::from_value\<close> at \<open>JevAssetRefs\<close>\<close>
  jx_f64 :: "'n \<Rightarrow> 'f option" \<comment> \<open>\<open>Number::as_f64\<close>\<close>
  jx_finite :: "'f \<Rightarrow> bool" \<comment> \<open>\<open>f64::is_finite\<close>\<close>
  jx_zero :: 'f
  jx_one :: 'f
  jx_tolerance :: 'f \<comment> \<open>\<open>PROBABILITY_SUM_TOLERANCE\<close>\<close>
  jx_le :: "'f \<Rightarrow> 'f \<Rightarrow> bool"
  jx_lt :: "'f \<Rightarrow> 'f \<Rightarrow> bool"
  jx_add :: "'f \<Rightarrow> 'f \<Rightarrow> 'f"
  jx_distance :: "'f \<Rightarrow> 'f \<Rightarrow> 'f" \<comment> \<open>\<open>(a - b).abs()\<close>\<close>

subsection \<open>Questions\<close>

definition is_blank :: "string \<Rightarrow> bool" where
  "is_blank s \<longleftrightarrow> list_all is_whitespace (str_chars s)"

definition validate_id :: "string \<Rightarrow> (unit, string) outcome" where
  "validate_id i =
     (if is_blank i \<or> length i > MAX_IDENTIFIER \<or> list_ex is_control (str_chars i)
      then Err ''Question and option IDs must be nonblank, at most 128 UTF-8 bytes, without control characters''
      else Ok ())"

definition validate_text :: "string \<Rightarrow> (unit, string) outcome" where
  "validate_text s =
     (if is_blank s \<or> length s > MAX_TEXT
      then Err ''Instructions and descriptions must be nonblank and at most 16384 UTF-8 bytes''
      else Ok ())"

definition question_validate :: "question \<Rightarrow> (unit, string) outcome" where
  "question_validate q =
     bindr (case q of
         Box _ \<Rightarrow> Ok ()
       | Noul _ criteria \<Rightarrow>
           (case criteria of
              None \<Rightarrow> Ok ()
            | Some c \<Rightarrow> bindr (validate_text (criteria_yes c)) (\<lambda>_. validate_text (criteria_no c)))
       | Choice _ criteria \<Rightarrow>
           if criteria = [] \<or> length criteria > MAX_OPTIONS then Err ''Choice requires between 1 and 64 options''
           else for_each (\<lambda>c _. bindr (validate_id (fst c)) (\<lambda>_. validate_text (snd c))) criteria ()
       | Score _ criteria \<Rightarrow>
           if \<not> (2 \<le> length criteria \<and> length criteria \<le> MAX_LEVELS) then Err ''Score requires between 2 and 10 ordered levels''
           else for_each (\<lambda>c _. validate_text c) criteria ()) (\<lambda>_.
     validate_text (instructions q))"

definition bounded :: "('n, 'd, 'f) jev_externals \<Rightarrow> 'n json \<Rightarrow> nat \<Rightarrow> (unit, string) outcome" where
  "bounded x v bytes =
     map_err (\<lambda>_. ''Jev payload exceeds byte, depth or work limits'')
       (validate_context_value (jx_values x) v (ContextLimits_default\<lparr>output_bytes := bytes\<rparr>))"

definition parse_question ::
    "('n, 'd, 'f) jev_externals \<Rightarrow> string \<times> 'n json \<Rightarrow> questions \<Rightarrow> (questions, string) outcome" where
  "parse_question x iv qs =
     bindr (validate_id (fst iv)) (\<lambda>_.
     if json_get (snd iv) ''criteria'' = Some VNull
     then Err ''Criteria must be omitted or have the question's declared shape''
     else bindr (ok_or (jx_question x (snd iv)) ''Invalid Jev question shape'') (\<lambda>q.
       bindr (question_validate q) (\<lambda>_. Ok (bt_insert (fst iv) q qs))))"

definition Questions_parse :: "('n, 'd, 'f) jev_externals \<Rightarrow> 'n json \<Rightarrow> (questions, string) outcome" where
  "Questions_parse x v =
     bindr (bounded x v MAX_REQUEST_BYTES) (\<lambda>_.
     bindr (ok_or (as_object v) ''Questions must be an object'') (\<lambda>m.
     if m = [] \<or> length m > MAX_QUESTIONS then Err ''Use between 1 and 32 questions''
     else for_each (parse_question x) m []))"

definition starts_with :: "string \<Rightarrow> string \<Rightarrow> bool" where
  "starts_with p s \<longleftrightarrow> take (length p) s = p"

definition validate_assets :: "questions \<Rightarrow> string \<Rightarrow> jev_asset_refs \<Rightarrow> (unit, string) outcome" where
  "validate_assets qs model assets =
     (if \<not> (assets = [] \<or> starts_with ''jev-1.13.'' model \<or> starts_with ''jev-1.14.'' model)
      then Err ''Images require Jev 1.13 or 1.14''
      else for_each (\<lambda>q _.
        (case snd q of
           Box text \<Rightarrow>
             if \<not> starts_with ''jev-1.14.'' model then Err ''Box requires Jev 1.14''
             else if \<not> list_ex (\<lambda>name. contains_str ([CHR 0x60] @ ''assets.'' @ name @ [CHR 0x60]) text) (bt_keys assets)
             then Err (''Box instructions must identify a declared '' @ [CHR 0x60] @ ''assets.NAME'' @ [CHR 0x60] @ '' image'')
             else Ok ()
         | _ \<Rightarrow> Ok ())) qs ())"

definition validate_model :: "string \<Rightarrow> (unit, string) outcome" where
  "validate_model model =
     (let parts = split_on CHR ''.'' (if starts_with ''jev-'' model then drop 4 model else []) in
      if length model > MAX_IDENTIFIER \<or> length parts \<noteq> 3
         \<or> list_ex (\<lambda>part. part = [] \<or> \<not> list_all is_ascii_digit part \<or> (length part > 1 \<and> hd part = CHR ''0'')) parts
      then Err ''Use an exact versioned Jev model ID, such as jev-1.14.0; aliases are unsupported''
      else Ok ())"

subsection \<open>Schemas of answers\<close>

definition probability :: "(nat \<Rightarrow> 'n) \<Rightarrow> 'n json" where
  "probability num = jobj [(''type'', VString ''number''), (''minimum'', VNumber (num 0)), (''maximum'', VNumber (num 1))]"

definition exact_object :: "(string \<times> 'n json) list \<Rightarrow> 'n json" where
  "exact_object properties = object_schema properties (bt_keys (bt_of properties))"

definition typed_const :: "string \<Rightarrow> 'n json" where
  "typed_const s = jobj [(''type'', VString ''string''), (''const'', VString s)]"

definition question_output_schema :: "(nat \<Rightarrow> 'n) \<Rightarrow> question \<Rightarrow> 'n json" where
  "question_output_schema num q =
     (case q of
        Box _ \<Rightarrow> object_schema
          [(''type'', typed_const ''box''),
           (''box'', object_schema [(''left'', probability num), (''right'', probability num), (''top'', probability num),
              (''bottom'', probability num)] [''left'', ''right'', ''top'', ''bottom'']),
           (''confidence'', probability num)] [''type'', ''box'', ''confidence'']
      | Noul _ _ \<Rightarrow> object_schema [(''type'', typed_const ''noul''), (''noul'', probability num)] [''type'', ''noul'']
      | Choice _ criteria \<Rightarrow> object_schema
          [(''type'', typed_const ''choice''),
           (''choice'', jobj [(''type'', VString ''string''), (''enum'', jstrings (bt_keys criteria))]),
           (''probabilities'', exact_object (map (\<lambda>k. (k, probability num)) (bt_keys criteria))),
           (''confidence'', probability num)] [''type'', ''choice'', ''probabilities'', ''confidence'']
      | Score _ criteria \<Rightarrow> object_schema
          [(''type'', typed_const ''score''),
           (''score'', jobj [(''type'', VString ''number''), (''minimum'', VNumber (num 0)), (''maximum'', VNumber (num (length criteria - 1)))]),
           (''probabilities'', exact_object (map (\<lambda>i. (show_nat i, probability num)) [0..<length criteria])),
           (''legend'', exact_object (map (\<lambda>(i, t). (show_nat i, typed_const t)) (enumerate 0 criteria))),
           (''confidence'', probability num)] [''type'', ''score'', ''probabilities'', ''legend'', ''confidence''])"

definition Questions_output_schema :: "(nat \<Rightarrow> 'n) \<Rightarrow> questions \<Rightarrow> string \<Rightarrow> 'n json" where
  "Questions_output_schema num qs model =
     (let count = jobj [(''type'', VString ''integer''), (''minimum'', VNumber (num 0))] in
      object_schema
        [(''model'', typed_const model),
         (''answers'', exact_object (map (\<lambda>(i, q). (i, question_output_schema num q)) qs)),
         (''usage'', object_schema [(''input_tokens'', count), (''output_tokens'', count)] [''input_tokens'', ''output_tokens''])]
        [''model'', ''answers'', ''usage''])"

subsection \<open>Image references\<close>

definition lower_hex :: "char \<Rightarrow> bool" where
  "lower_hex c \<longleftrightarrow> is_ascii_digit c \<or> (97 \<le> byte_of c \<and> byte_of c \<le> 102)"

definition asset_valid :: "string \<times> jev_asset_ref \<Rightarrow> bool" where
  "asset_valid a \<longleftrightarrow>
     (case fst a of [] \<Rightarrow> False | c # _ \<Rightarrow> is_ascii_alphabetic c) \<and> length (fst a) \<le> 64
     \<and> list_all (\<lambda>c. is_ascii_alphanumeric c \<or> c = CHR ''_'') (fst a)
     \<and> asset_channel_id (snd a) \<noteq> 0 \<and> asset_thread_id (snd a) \<noteq> 0
     \<and> length (asset_sha256 (snd a)) = 64 \<and> list_all lower_hex (asset_sha256 (snd a))"

definition parse_assets :: "('n, 'd, 'f) jev_externals \<Rightarrow> 'n json option \<Rightarrow> (jev_asset_refs, string) outcome" where
  "parse_assets x value =
     (case value of
        None \<Rightarrow> Ok []
      | Some v \<Rightarrow>
          bindr (map_err (\<lambda>_. ''Image references exceed limits'')
            (validate_context_value (jx_values x) v (ContextLimits_default\<lparr>output_bytes := MAX_REQUEST_BYTES\<rparr>))) (\<lambda>_.
          bindr (ok_or (as_object v) ''Assets must be a literal map of private attachment references'') (\<lambda>m.
          if m = [] \<or> length m > MAX_ASSETS then Err ''Use between 1 and 4 image assets''
          else bindr (ok_or (jx_assets x v) ''Invalid private image reference'') (\<lambda>refs.
            if list_all asset_valid refs then Ok refs
            else Err ''Use an asset identifier, nonnil channel/thread UUIDs and lowercase SHA256 digest''))))"

subsection \<open>Requests\<close>

text \<open>The fields in the order of \<open>RequestFields\<close>; an absent field is not serialized.\<close>

record 'n request_fields =
  rf_model :: "'n json option"
  rf_state :: "'n json option"
  rf_questions :: "'n json option"
  rf_assets :: "'n json option"

definition request_members :: "'n request_fields \<Rightarrow> (string \<times> 'n json) list" where
  "request_members r = concat (map (\<lambda>(k, v). case v of None \<Rightarrow> [] | Some v \<Rightarrow> [(k, v)])
     [(''model'', rf_model r), (''state'', rf_state r), (''questions'', rf_questions r), (''assets'', rf_assets r)])"

definition byte_budget_write :: "string \<Rightarrow> nat \<Rightarrow> nat option" where
  "byte_budget_write bytes left = checked_sub left (length bytes)"

definition check_request_size :: "('n, 'd, 'f) jev_externals \<Rightarrow> 'n request_fields \<Rightarrow> (unit, string) outcome" where
  "check_request_size x r =
     bindr (for_each (\<lambda>kv _. bounded x (snd kv) MAX_REQUEST_BYTES) (request_members r) ()) (\<lambda>_.
     bindr (ok_or (charge_all byte_budget_write (to_writer (jx_values x) (VObject (request_members r))) MAX_REQUEST_BYTES)
       ''Jev request exceeds 65536 serialized bytes'') (\<lambda>_. Ok ()))"

definition validate_state :: "('n, 'd, 'f) jev_externals \<Rightarrow> 'n json \<Rightarrow> (unit, string) outcome" where
  "validate_state x v =
     (if (case v of VString _ \<Rightarrow> True | VObject _ \<Rightarrow> True | VArray _ \<Rightarrow> True | _ \<Rightarrow> False)
      then bounded x v MAX_REQUEST_BYTES
      else Err ''Jev state must be a string, object or array'')"

definition jev_validate_inputs :: "('n, 'd, 'f) jev_externals \<Rightarrow> 'n json \<Rightarrow> (unit, string) outcome" where
  "jev_validate_inputs x inputs =
     bindr (case json_get inputs ''state'' of None \<Rightarrow> Ok () | Some v \<Rightarrow> validate_state x v) (\<lambda>_.
     bindr (check_request_size x \<lparr>rf_model = json_get inputs ''model'', rf_state = json_get inputs ''state'',
       rf_questions = json_get inputs ''questions'', rf_assets = json_get inputs ''assets''\<rparr>) (\<lambda>_.
     bindr (parse_assets x (json_get inputs ''assets'')) (\<lambda>assets.
     (case (Option.bind (json_get inputs ''model'') as_str, json_get inputs ''questions'') of
        (Some model, Some qs) \<Rightarrow> bindr (Questions_parse x qs) (\<lambda>typed. validate_assets typed model assets)
      | _ \<Rightarrow> Ok ()))))"

subsection \<open>Responses\<close>

definition json_f64 :: "('n, 'd, 'f) jev_externals \<Rightarrow> 'n json option \<Rightarrow> 'f option" where
  "json_f64 x v = (case v of Some (VNumber n) \<Rightarrow> jx_f64 x n | _ \<Rightarrow> None)"

definition unit_interval :: "('n, 'd, 'f) jev_externals \<Rightarrow> 'n json option \<Rightarrow> 'f option" where
  "unit_interval x v =
     Option.bind (json_f64 x v) (\<lambda>p.
       if jx_finite x p \<and> jx_le x (jx_zero x) p \<and> jx_le x p (jx_one x) then Some p else None)"

definition box_edge :: "('n, 'd, 'f) jev_externals \<Rightarrow> 'n json \<Rightarrow> string \<Rightarrow> ('f, string) outcome" where
  "box_edge x answer name =
     ok_or (unit_interval x (Option.bind (json_get answer ''box'') (\<lambda>b. json_get b name))) ''Invalid Box coordinate''"

text \<open>The operands of \<open>||\<close> are evaluated from the left; the second edges only when the first pass.\<close>

definition check_box :: "('n, 'd, 'f) jev_externals \<Rightarrow> 'n json \<Rightarrow> (unit, string) outcome" where
  "check_box x answer =
     bindr (box_edge x answer ''left'') (\<lambda>left.
     bindr (box_edge x answer ''right'') (\<lambda>right.
     if jx_le x right left then Err ''Box must have positive width and height''
     else bindr (box_edge x answer ''top'') (\<lambda>upper.
       bindr (box_edge x answer ''bottom'') (\<lambda>lower.
       if jx_le x lower upper then Err ''Box must have positive width and height'' else Ok ()))))"

definition sum_probabilities :: "('n, 'd, 'f) jev_externals \<Rightarrow> (string, 'n json) btree_map \<Rightarrow> ('f, string) outcome" where
  "sum_probabilities x m =
     for_each (\<lambda>kv total. bindr (ok_or (unit_interval x (Some (snd kv))) ''Invalid Jev probability'') (\<lambda>p. Ok (jx_add x total p)))
       m (jx_zero x)"

definition check_answer :: "('n, 'd, 'f) jev_externals \<Rightarrow> 'n json \<Rightarrow> (unit, string) outcome" where
  "check_answer x answer =
     bindr (if Option.bind (json_get answer ''type'') as_str = Some ''box'' then check_box x answer else Ok ()) (\<lambda>_.
     (case Option.bind (json_get answer ''probabilities'') as_object of
        None \<Rightarrow> Ok ()
      | Some m \<Rightarrow> bindr (sum_probabilities x m) (\<lambda>total.
          if jx_lt x (jx_tolerance x) (jx_distance x total (jx_one x))
          then Err ''Jev probabilities must sum to 1 within absolute tolerance 0.000001'' else Ok ())))"

definition jev_validate_output :: "('n, 'd, 'f) jev_externals \<Rightarrow> 'n json \<Rightarrow> (unit, string) outcome" where
  "jev_validate_output x v =
     bindr (bounded x v MAX_RESPONSE_BYTES) (\<lambda>_.
     bindr (ok_or (Option.bind (json_get v ''answers'') as_object) ''Missing Jev answers'') (\<lambda>answers.
     for_each (\<lambda>kv _. check_answer x (snd kv)) answers ()))"

subsection \<open>The budget of facts\<close>

definition literal_input :: "'n step_definition \<Rightarrow> string \<Rightarrow> 'n json option" where
  "literal_input d field = (case bt_get (step_inputs d) field of Some (Literal v) \<Rightarrow> Some v | _ \<Rightarrow> None)"

definition saturating_times :: "nat \<Rightarrow> nat \<Rightarrow> nat" where
  "saturating_times a b = min (a * b) usize_max"

primrec repeated :: "nat \<Rightarrow> ('s \<Rightarrow> ('s, 'e) outcome) \<Rightarrow> 's \<Rightarrow> ('s, 'e) outcome" where
  "repeated 0 f s = Ok s"
| "repeated (Suc n) f s = bindr (f s) (repeated n f)"

definition criteria_count :: "'n json \<Rightarrow> nat" where
  "criteria_count q =
     (case json_get q ''criteria'' of Some (VObject m) \<Rightarrow> length m | Some (VArray vs) \<Rightarrow> length vs | _ \<Rightarrow> 0)"

definition jev_preflight ::
    "('n, 'd, 'f) jev_externals \<Rightarrow> 'n schema_externals \<Rightarrow> 'n step_definition \<Rightarrow> source_span \<Rightarrow> fact_budget
     \<Rightarrow> (fact_budget, diagnostic) outcome" where
  "jev_preflight x s d span budget =
     (let refused = \<lambda>message. Diagnostic_at ''registry.jev'' message ''/steps'' span in
      bindr (map_err refused (check_request_size x \<lparr>rf_model = literal_input d ''model'', rf_state = literal_input d ''state'',
        rf_questions = literal_input d ''questions'', rf_assets = literal_input d ''assets''\<rparr>)) (\<lambda>_.
      bindr (case literal_input d ''assets'' of
          None \<Rightarrow> Ok budget
        | Some assets \<Rightarrow> bindr (map_err refused (parse_assets x (Some assets))) (\<lambda>_. repeated 2 (charge_schema s assets) budget)) (\<lambda>budget.
      (case literal_input d ''questions'' of
         None \<Rightarrow> Ok budget
       | Some qs \<Rightarrow>
           bindr (repeated 3 (charge_schema s qs) budget) (\<lambda>budget.
           (case as_object qs of
              None \<Rightarrow> Ok budget
            | Some m \<Rightarrow>
                bindr (punctuation (saturating_times (length m) 1024) budget)
                  (for_each (\<lambda>kv. punctuation (saturating_times (criteria_count (snd kv)) 512)) m)))))))"

subsection \<open>Models\<close>

definition JevModel_parse :: "string \<Rightarrow> (string, string) outcome" where
  "JevModel_parse v = bindr (validate_model v) (\<lambda>_. Ok v)"

definition resource_contract :: "string \<Rightarrow> (type_name, 'e) outcome" where
  "resource_contract model = expect (ok_option (TypeName_parse (replace_char CHR ''.'' ''_'' model)))"

section \<open>Models and resource contracts\<close>

lemma replace_char_map: "replace_char c [d] s = map (\<lambda>y. if y = c then d else y) s"
  by (induction s) auto

lemma set_join_with: "set (join_with c ps) \<subseteq> (\<Union>p \<in> set ps. set p) \<union> {c}"
  by (induction c ps rule: join_with.induct) auto

lemma model_shape:
  assumes "validate_model m = Ok ()"
  obtains r where "m = ''jev-'' @ r" and "set r \<subseteq> {c. is_ascii_digit c} \<union> {CHR ''.''}" and "length m \<le> MAX_IDENTIFIER"
proof -
  define parts where "parts = split_on CHR ''.'' (if starts_with ''jev-'' m then drop 4 m else [])"
  have ok: "length m \<le> MAX_IDENTIFIER" "length parts = 3" "\<forall>p \<in> set parts. p \<noteq> [] \<and> list_all is_ascii_digit p"
    using assms unfolding validate_model_def parts_def[symmetric]
    by (auto simp: Let_def list_ex_iff split: if_splits)
  have pre: "starts_with ''jev-'' m"
    using ok(2) by (rule_tac ccontr) (simp add: parts_def)
  have split: "split_on CHR ''.'' (drop 4 m) = parts"
    using pre by (simp add: parts_def)
  have "set (drop 4 m) \<subseteq> (\<Union>p \<in> set parts. set p) \<union> {CHR ''.''}"
    by (metis split join_split_on set_join_with)
  then have "set (drop 4 m) \<subseteq> {c. is_ascii_digit c} \<union> {CHR ''.''}"
    using ok(3) by (fastforce simp: list_all_iff)
  moreover have "m = ''jev-'' @ drop 4 m"
  proof -
    have "take 4 m = ''jev-''"
      using pre by (simp add: starts_with_def numeral_eq_Suc)
    then show ?thesis
      by (metis append_take_drop_id)
  qed
  ultimately show ?thesis using that ok(1) by blast
qed

lemma digit_not_underscore: "is_ascii_digit c \<Longrightarrow> c \<noteq> CHR ''_'' \<and> c \<noteq> CHR ''.'' \<and> is_ascii_alphanumeric c"
  by (auto simp: is_ascii_digit_def is_ascii_alphanumeric_def)

lemma jev_letters: "is_ascii_alphabetic CHR ''j''" "is_ascii_alphanumeric CHR ''e''" "is_ascii_alphanumeric CHR ''v''"
  by (simp_all add: is_ascii_alphabetic_def is_ascii_alphanumeric_def)

lemma contract_of_model:
  assumes "validate_model m = Ok ()"
  shows "resource_contract m = Ok (replace_char CHR ''.'' ''_'' m)"
proof -
  obtain r where r: "m = ''jev-'' @ r" "set r \<subseteq> {c. is_ascii_digit c} \<union> {CHR ''.''}" "length m \<le> MAX_IDENTIFIER"
    using model_shape[OF assms] .
  let ?n = "replace_char CHR ''.'' ''_'' m"
  have n: "?n = ''jev-'' @ map (\<lambda>y. if y = CHR ''.'' then CHR ''_'' else y) r"
    by (simp add: r(1) replace_char_map)
  have chars: "\<forall>c \<in> set (map (\<lambda>y. if y = CHR ''.'' then CHR ''_'' else y) r). c = CHR ''_'' \<or> is_ascii_digit c"
    using r(2) by auto
  then have "CHR ''.'' \<notin> set ?n"
    by (auto simp: n dest: digit_not_underscore)
  moreover have "valid_part ?n"
  proof -
    have "length ?n \<le> MAX_NAME_BYTES"
      using r(1,3) unfolding n by (simp add: MAX_NAME_BYTES_def MAX_IDENTIFIER_def)
    moreover have "list_all (\<lambda>c. is_ascii_alphanumeric c \<or> c = CHR ''_'' \<or> c = CHR ''-'')
        (map (\<lambda>y. if y = CHR ''.'' then CHR ''_'' else y) r)"
      using chars digit_not_underscore unfolding list_all_iff by blast
    ultimately show ?thesis
      using jev_letters unfolding valid_part_def n by simp
  qed
  ultimately have "TypeName_parse ?n = Ok ?n"
    by (auto simp: TypeName_parse_def parse_name_def split_on_no_sep Let_def valid_part_def n)
  then show ?thesis
    by (simp add: resource_contract_def ok_option_def)
qed

text \<open>
  C40. The contract name of a validated model never panics and identifies the model: the rewriting of its
  version to a flat name is one-to-one on the models that \<open>validate_model\<close> accepts, so two models
  with the same resource contract are the same model.
\<close>

theorem resource_contracts_identify_models:
  assumes "validate_model a = Ok ()" and "validate_model b = Ok ()"
  shows "(\<exists>name. resource_contract a = Ok name \<and> TypeName_parse name = Ok name)
    \<and> (resource_contract a = resource_contract b \<longleftrightarrow> a = b)"
proof
  obtain r q where shapes: "a = ''jev-'' @ r" "set r \<subseteq> {c. is_ascii_digit c} \<union> {CHR ''.''}"
      "b = ''jev-'' @ q" "set q \<subseteq> {c. is_ascii_digit c} \<union> {CHR ''.''}"
    using model_shape[OF assms(1)] model_shape[OF assms(2)] by metis
  have "inj_on (\<lambda>y. if y = CHR ''.'' then CHR ''_'' else y) ({c. is_ascii_digit c} \<union> {CHR ''.''})"
    by (auto simp: inj_on_def dest: digit_not_underscore)
  then have "inj_on (\<lambda>y. if y = CHR ''.'' then CHR ''_'' else y) (set r \<union> set q)"
    using shapes by (meson Un_least inj_on_subset)
  then have "map (\<lambda>y. if y = CHR ''.'' then CHR ''_'' else y) r = map (\<lambda>y. if y = CHR ''.'' then CHR ''_'' else y) q \<longleftrightarrow> r = q"
    using map_inj_on by fastforce
  then show "resource_contract a = resource_contract b \<longleftrightarrow> a = b"
    unfolding contract_of_model[OF assms(1)] contract_of_model[OF assms(2)] by (simp add: shapes replace_char_map)
  show "\<exists>name. resource_contract a = Ok name \<and> TypeName_parse name = Ok name"
    using contract_of_model[OF assms(1)]
    by (auto simp: resource_contract_def ok_option_def TypeName_parse_def parse_name_def Let_def expect_eq_Ok split: if_splits)
qed

lemma sample_models: "validate_model ''jev-1.14.0'' = Ok ()" "validate_model ''jev-1.13.0'' = Ok ()"
  by (simp_all add: validate_model_def starts_with_def Let_def MAX_IDENTIFIER_def is_ascii_digit_def)

theorem resource_contracts_identify_models_witness:
  "validate_model ''jev-1.14.0'' = Ok () \<and> validate_model ''jev-1.13.0'' = Ok ()
   \<and> resource_contract ''jev-1.14.0'' \<noteq> (resource_contract ''jev-1.13.0'' :: (type_name, unit) outcome)"
  using resource_contracts_identify_models [OF sample_models, THEN conjunct2] sample_models by simp

end
