(* ===== verification/Registry.thy ===== *)
theory Registry
  imports Compile Jev
begin

text \<open>
  The catalogue of step types, \<open>src/src/application/workflow/registry/\<close>: the facts a caller supplies
  about tools and child workflows (\<open>facts.rs\<close>), the budget charged before any descriptor is built
  (\<open>budget.rs\<close>), the registration of each step (\<open>mod.rs\<close>, \<open>families.rs\<close>, \<open>actions.rs\<close>, \<open>jev.rs\<close>), and
  the compilation of a source with this catalogue.

  A registration is a record that its operations thread; \<open>self.parsed.definition.steps[self.id]\<close> is
  its field \<open>rg_step\<close>, which \<open>resolve_step\<close> reads once, where the index panics if it is absent.
\<close>

section \<open>Model\<close>

subsection \<open>Facts\<close>

record 'n tool_contract =
  tool_name :: type_name
  tool_connection :: "resource_name option"
  tool_input_schema :: "'n json"
  tool_output_schema :: "'n json"

record 'n child_contract =
  cc_workflow_id :: uuid
  cc_version_id :: uuid
  cc_input_schema :: "'n json"
  cc_output_schema :: "'n json"
  cc_parameter_schema :: "'n json"
  cc_resources :: "resource_requirement list"

record 'n catalogue_facts =
  fact_tools :: "'n tool_contract list"
  fact_children :: "'n child_contract list"
  fact_tool_workflows :: "uuid btree_set"

record ('n, 'd, 'f) registry_externals =
  rx_compile :: "('n, 'd) compile_externals"
  rx_jev :: "('n, 'd, 'f) jev_externals"

text \<open>The compiler's externals, with the checks of \<open>jev.rs\<close> in their place.\<close>

definition refusal_of :: "(unit, string) outcome \<Rightarrow> string option" where
  "refusal_of r = (case r of Err message \<Rightarrow> Some message | _ \<Rightarrow> None)"

definition catalogue_externals :: "('n, 'd, 'f) registry_externals \<Rightarrow> ('n, 'd) compile_externals" where
  "catalogue_externals x =
     (rx_compile x)\<lparr>cx_checks := (cx_checks (rx_compile x))\<lparr>jev_inputs_error := refusal_of \<circ> jev_validate_inputs (rx_jev x)\<rparr>,
       cx_jev_output := refusal_of \<circ> jev_validate_output (rx_jev x)\<rparr>"

definition fact_error :: "source_span \<Rightarrow> diagnostic" where
  "fact_error span = Diagnostic_at ''registry.facts'' ''Supplied contracts must be unique and bounded'' ''/steps'' span"

definition facts_limit :: "source_span \<Rightarrow> diagnostic" where
  "facts_limit span = Diagnostic_at ''registry.limit'' ''At most 256 supplied contracts are allowed'' ''/steps'' span"

definition check_fact_schema ::
    "('n, 'd) compile_externals \<Rightarrow> source_span \<Rightarrow> 'n json \<Rightarrow> nat \<Rightarrow> (nat, diagnostic) outcome" where
  "check_fact_schema x span v budget =
     bindr (map_err (\<lambda>_. fact_error span)
       (validate_context_value (cx_values x) v \<lparr>output_bytes = 1048576, work_nodes = 65536\<rparr>)) (\<lambda>_.
     bindr (ok_or (charge_all byte_budget_write (to_writer (cx_values x) v) budget) (fact_error span)) (\<lambda>budget.
     bindr (Schema_compile (cx_schemas x) v ''/steps'' span) (\<lambda>_. Ok budget)))"

definition check_tool_fact ::
    "('n, 'd) compile_externals \<Rightarrow> source_span \<Rightarrow> 'n tool_contract \<Rightarrow> (resource_name option \<times> type_name) set \<times> nat
     \<Rightarrow> ((resource_name option \<times> type_name) set \<times> nat, diagnostic) outcome" where
  "check_tool_fact x span t s =
     (let key = (tool_connection t, tool_name t) in
      if key \<in> fst s then Err (fact_error span)
      else bindr (check_fact_schema x span (tool_input_schema t) (snd s)) (\<lambda>budget.
        bindr (check_fact_schema x span (tool_output_schema t) budget) (\<lambda>budget. Ok (insert key (fst s), budget))))"

definition check_child_fact ::
    "('n, 'd) compile_externals \<Rightarrow> source_span \<Rightarrow> 'n child_contract \<Rightarrow> uuid set \<times> nat \<Rightarrow> (uuid set \<times> nat, diagnostic) outcome" where
  "check_child_fact x span c s =
     (if cc_version_id c \<in> fst s then Err (fact_error span)
      else bindr (check_fact_schema x span (cc_input_schema c) (snd s)) (\<lambda>budget.
        bindr (check_fact_schema x span (cc_output_schema c) budget) (\<lambda>budget. Ok (insert (cc_version_id c) (fst s), budget))))"

definition validate_facts :: "('n, 'd) compile_externals \<Rightarrow> 'n catalogue_facts \<Rightarrow> source_span \<Rightarrow> (unit, diagnostic) outcome" where
  "validate_facts x facts span =
     (if length (fact_tools facts) + length (fact_children facts) > MAX_FACTS then Err (facts_limit span)
      else bindr (for_each (check_tool_fact x span) (fact_tools facts) ({}, 1048576)) (\<lambda>tools.
        bindr (for_each (check_child_fact x span) (fact_children facts) ({}, snd tools)) (\<lambda>_. Ok ())))"

subsection \<open>Preflight\<close>

definition charge_contract ::
    "'n schema_externals \<Rightarrow> 'n json \<Rightarrow> 'n json \<Rightarrow> fact_budget \<Rightarrow> (fact_budget, diagnostic) outcome" where
  "charge_contract s given result b = for_each (charge_schema s) [given, result, given, result] b"

definition find_child_fact :: "'n catalogue_facts \<Rightarrow> 'n step_control \<Rightarrow> 'n child_contract option" where
  "find_child_fact facts c =
     find (\<lambda>f. cc_workflow_id f = child_workflow_id c \<and> cc_version_id f = child_version_id c) (fact_children facts)"

definition charge_tool ::
    "'n schema_externals \<Rightarrow> 'n catalogue_facts \<Rightarrow> 'n step_definition \<Rightarrow> fact_budget \<Rightarrow> (fact_budget, diagnostic) outcome" where
  "charge_tool s facts d b =
     (case find (\<lambda>t. Some (tool_name t) = Option.bind (literal_input d ''tool'') as_str
          \<and> tool_connection t = Option.bind (literal_input d ''connection'') as_str) (fact_tools facts) of
        None \<Rightarrow> Ok b
      | Some t \<Rightarrow> charge_contract s (tool_input_schema t) (tool_output_schema t) b)"

definition DECLARATIONS :: "string list" where
  "DECLARATIONS = [''output_schema'', ''data_schema'', ''payload_schema'']"

definition charge_declarations ::
    "'n schema_externals \<Rightarrow> 'n step_definition \<Rightarrow> fact_budget \<Rightarrow> (fact_budget, diagnostic) outcome" where
  "charge_declarations s d b =
     for_each (\<lambda>field b.
       (case literal_input d field of
          None \<Rightarrow> Ok b
        | Some v \<Rightarrow>
            bindr (repeated 2 (charge_schema s v) b) (\<lambda>b.
            if step_type d \<in> {''data.map'', ''channel.no_reply'', ''message.ask''} \<or> starts_with ''decision.'' (step_type d)
            then charge_schema s v b else Ok b))) DECLARATIONS b"

definition preflight_registration ::
    "('n, 'd, 'f) registry_externals \<Rightarrow> 'n parsed_workflow \<Rightarrow> 'n catalogue_facts \<Rightarrow> source_span \<Rightarrow> step_id \<times> 'n step_definition
     \<Rightarrow> fact_budget \<Rightarrow> (fact_budget, diagnostic) outcome" where
  "preflight_registration x p facts span id_step b =
     (let s = cx_schemas (rx_compile x); (i, d) = id_step in
      bindr (charge_declarations s d b) (\<lambda>b.
      if step_type d = ''jev.evaluate'' then jev_preflight (rx_jev x) s d span b
      else if step_type d \<in> {''tool.call'', ''mcp.call''} then charge_tool s facts d b
      else if step_type d \<in> {''workflow.call'', ''flow.repeat''}
      then (case Option.bind (bt_get (pw_controls p) i) (find_child_fact facts) of
          None \<Rightarrow> Ok b
        | Some c \<Rightarrow> charge_contract s (cc_input_schema c) (cc_output_schema c) b)
      else Ok b))"

definition preflight_catalogue ::
    "('n, 'd, 'f) registry_externals \<Rightarrow> 'n parsed_workflow \<Rightarrow> 'n catalogue_facts \<Rightarrow> (unit, diagnostic) outcome" where
  "preflight_catalogue x p facts =
     bindr (expect (bt_get (pw_locations p) [])) (\<lambda>span.
     if length (fact_tools facts) + length (fact_children facts) > MAX_FACTS then Err (facts_limit span)
     else bindr (for_each (preflight_registration x p facts span) (wf_steps (pw_definition p)) (FactBudget_new span)) (\<lambda>_. Ok ()))"

subsection \<open>Registrations\<close>

record 'n registration =
  rg_parsed :: "'n parsed_workflow"
  rg_id :: step_id
  rg_step :: "'n step_definition"
  rg_facts :: "'n catalogue_facts"
  rg_checks :: "input_check list"
  rg_effective :: "'n json"
  rg_static_fields :: "string list"

type_synonym ('n, 'a) registering = "'n registration \<Rightarrow> ('a \<times> 'n registration, diagnostic) outcome"

record 'n contract =
  contract_input :: "'n json"
  contract_output :: "'n json"

definition contract_of :: "(string \<times> 'n json) list \<Rightarrow> string list \<Rightarrow> 'n json \<Rightarrow> 'n contract" where
  "contract_of properties names result = \<lparr>contract_input = object_schema properties names, contract_output = result\<rparr>"

definition Registration_new :: "'n parsed_workflow \<Rightarrow> step_id \<Rightarrow> 'n step_definition \<Rightarrow> 'n catalogue_facts \<Rightarrow> 'n registration" where
  "Registration_new p i d facts =
     \<lparr>rg_parsed = p, rg_id = i, rg_step = d, rg_facts = facts, rg_checks = [], rg_effective = VObject [], rg_static_fields = []\<rparr>"

definition rg_name :: "'n registration \<Rightarrow> string" where
  "rg_name r = step_type (rg_step r)"

definition rg_input :: "'n registration \<Rightarrow> string \<Rightarrow> 'n binding option" where
  "rg_input r field = bt_get (step_inputs (rg_step r)) field"

definition rg_path :: "'n registration \<Rightarrow> string \<Rightarrow> string" where
  "rg_path r field = ''/steps/'' @ rg_id r @ ''/with/'' @ escape field"

definition rg_whole :: "'n registration \<Rightarrow> (source_span, diagnostic) outcome" where
  "rg_whole r = expect (bt_get (pw_locations (rg_parsed r)) [])"

definition rg_error :: "'n registration \<Rightarrow> string \<Rightarrow> string \<Rightarrow> string \<Rightarrow> ('a, diagnostic) outcome" where
  "rg_error r tag message field = refuse (pw_locations (rg_parsed r)) tag message (rg_path r field) (rg_path r field)"

definition rg_literal :: "string \<Rightarrow> ('n, 'n json) registering" where
  "rg_literal field r =
     (case rg_input r field of
        Some (Literal v) \<Rightarrow> Ok (v, r\<lparr>rg_static_fields := rg_static_fields r @ [field]\<rparr>)
      | _ \<Rightarrow> rg_error r ''registry.literal'' ''This declaration requires a literal binding'' field)"

definition params_only :: "'n binding \<Rightarrow> bool" where
  "params_only b \<longleftrightarrow> list_all (\<lambda>c. root_name (root c) = ''params'') (references b)"

record static_refusal =
  refusal_code :: string
  refusal_message :: string

definition STATIC_REVIEWERS :: static_refusal where
  "STATIC_REVIEWERS = \<lparr>refusal_code = ''registry.static_reviewers'',
     refusal_message = ''Reviewers must be literal or come from binding parameters''\<rparr>"

definition STATIC_PARAMS :: static_refusal where
  "STATIC_PARAMS = \<lparr>refusal_code = ''registry.static_params'',
     refusal_message = ''Child parameters must be literal or come from binding parameters''\<rparr>"

definition static_roots :: "'n registration \<Rightarrow> string \<Rightarrow> static_refusal \<Rightarrow> (unit, diagnostic) outcome" where
  "static_roots r field why =
     (case rg_input r field of
        None \<Rightarrow> Ok ()
      | Some b \<Rightarrow>
          if params_only b then Ok ()
          else rg_error r (refusal_code why) (refusal_message why) field)"

text \<open>Whether another \<open>wait.event\<close> step declares the same event with another payload.\<close>

definition event_conflict :: "step_id \<Rightarrow> 'n json \<Rightarrow> 'n json \<Rightarrow> step_id \<times> 'n step_definition \<Rightarrow> bool" where
  "event_conflict here name s other \<longleftrightarrow>
     fst other \<noteq> here \<and> step_type (snd other) = ''wait.event''
     \<and> literal_input (snd other) ''event'' = Some name \<and> literal_input (snd other) ''payload_schema'' \<noteq> Some s"

definition event_identity :: "'n json \<Rightarrow> ('n, unit) registering" where
  "event_identity s r =
     bindr (rg_literal ''event'' r) (\<lambda>(name, r).
     if as_str name = Some CHANNEL_QUESTION_REPLY_EVENT
     then rg_error r ''registry.reserved_event'' ''Question events belong to message.ask'' ''event''
     else if list_ex (event_conflict (rg_id r) name s) (wf_steps (pw_definition (rg_parsed r)))
     then rg_error r ''registry.event_schema'' ''Every wait for one event name must declare the same payload_schema'' ''payload_schema''
     else Ok ((), r))"

text \<open>The step whose message a reply answers, if the correlation names one.\<close>

definition awaited_step :: "'n registration \<Rightarrow> (step_id option, diagnostic) outcome" where
  "awaited_step r =
     (case rg_input r ''correlation'' of
        Some (Reference c) \<Rightarrow>
          (case root_step_id (root c) of
             None \<Rightarrow> Ok None
           | Some step \<Rightarrow>
               bindr (reference_tail c) (\<lambda>tail.
               Ok (if (case tail of
                     [messages, index, field] \<Rightarrow> messages = ''messages'' \<and> field = ''message_id'' \<and> index \<noteq> [] \<and> list_all is_ascii_digit index
                   | _ \<Rightarrow> False)
                   \<and> (case bt_get (wf_steps (pw_definition (rg_parsed r))) step of
                        Some sent \<Rightarrow> step_type sent \<in> {''message.send'', ''message.reply''} | None \<Rightarrow> False)
                 then Some step else None)))
      | _ \<Rightarrow> Ok None)"

definition message_reply_wait :: "(nat \<Rightarrow> 'n) \<Rightarrow> 'n registration \<Rightarrow> 'n json \<Rightarrow> (unit, diagnostic) outcome" where
  "message_reply_wait num r s =
     (if literal_input (rg_step r) ''event'' \<noteq> Some (VString MESSAGE_REPLY_EVENT) then Ok ()
      else if s \<noteq> message_trigger_schema num
      then rg_error r ''registry.message_reply_schema''
        ''A message.reply wait must declare the standard message payload_schema (source_message, message, subject, sender)'' ''payload_schema''
      else bindr (awaited_step r) (\<lambda>awaited.
        if awaited = None
        then rg_error r ''registry.message_reply_correlation''
          ''A message.reply wait must correlate on /steps/<message step>/output/messages/<n>/message_id'' ''correlation''
        else Ok ()))"

definition rg_choices :: "'n registration \<Rightarrow> (string list, diagnostic) outcome" where
  "rg_choices r =
     (case step_routes (rg_step r) of
        Routes_Choices choices \<Rightarrow> Ok (map fst choices)
      | _ \<Rightarrow> rg_error r ''registry.choices'' ''Declare named routes.choices for this decision'' [])"

text \<open>The literal inputs of a step, which a check sees when the step is registered.\<close>

definition literal_inputs :: "'n step_definition \<Rightarrow> 'n json" where
  "literal_inputs d =
     VObject (List.map_filter (\<lambda>(name, b). case b of Literal v \<Rightarrow> Some (name, v) | _ \<Rightarrow> None) (step_inputs d))"

definition rg_check :: "('n, 'd) compile_externals \<Rightarrow> input_check \<Rightarrow> ('n, unit) registering" where
  "rg_check x check r =
     bindr (rg_whole r) (\<lambda>span.
     bindr (or_else_refuse (InputCheck_validate (cx_checks x) check (literal_inputs (rg_step r)) (''/steps/'' @ rg_id r @ ''/with'') span)
       (\<lambda>e. bindr (input_span (pw_locations (rg_parsed r)) (diag_field_path e)) (\<lambda>span. Err (e\<lparr>diag_span := span\<rparr>)))) (\<lambda>_.
     Ok ((), r\<lparr>rg_checks := rg_checks r @ [check]\<rparr>)))"

subsection \<open>Families of steps\<close>

definition finite_enum :: "'n json \<Rightarrow> bool" where
  "finite_enum v \<longleftrightarrow>
     (case Option.bind (json_get v ''enum'') as_array of
        None \<Rightarrow> False
      | Some values \<Rightarrow> values \<noteq> [] \<and> length values \<le> MAX_SELECTIONS
          \<and> list_all (\<lambda>v. case as_str v of Some s \<Rightarrow> s \<noteq> [] \<and> length s \<le> MAX_IDENTIFIER | None \<Rightarrow> False) values)"

definition finite_labels :: "'n json \<Rightarrow> bool" where
  "finite_labels s \<longleftrightarrow> finite_enum s
     \<or> (json_get s ''type'' = Some (VString ''object'') \<or> json_get s ''type'' = Some (VArray [VString ''object'']))
       \<and> (case Option.bind (json_get s ''properties'') (\<lambda>p. json_get p ''label'') of Some v \<Rightarrow> finite_enum v | None \<Rightarrow> False)
       \<and> (case Option.bind (json_get s ''required'') as_array of Some names \<Rightarrow> VString ''label'' \<in> set names | None \<Rightarrow> False)"

definition approval_schema :: "(nat \<Rightarrow> 'n) \<Rightarrow> 'n json" where
  "approval_schema num = object_schema [(''reviewers'', reviewers_schema num), (''deadline'', text_schema num MAX_DEADLINE)]
     [''reviewers'', ''deadline'']"

text \<open>Assignment to a key of a member, \<open>v[outer][key] = w\<close>, of an object that has the member.\<close>

definition json_set_in :: "'n json \<Rightarrow> string \<Rightarrow> string \<Rightarrow> 'n json \<Rightarrow> 'n json" where
  "json_set_in v outer key w =
     (case json_get v outer of
        Some inner \<Rightarrow> json_set v outer (json_set inner key w)
      | None \<Rightarrow> json_set v outer (jobj [(key, w)]))"

fun static_approval_reviewers :: "'n binding \<Rightarrow> bool" where
  "static_approval_reviewers (Object fs) =
     (case bt_get fs ''reviewers'' of None \<Rightarrow> True | Some b \<Rightarrow> params_only b)"
| "static_approval_reviewers (Default c fallback) = (root_name (root c) = ''params'' \<and> static_approval_reviewers fallback)"
| "static_approval_reviewers other = params_only other"

definition rg_approval :: "('n, 'd) compile_externals \<Rightarrow> 'n contract \<Rightarrow> ('n, 'n contract) registering" where
  "rg_approval x c r =
     bindr (case rg_input r ''approval'' of
         None \<Rightarrow> Ok ((), r)
       | Some b \<Rightarrow>
           if \<not> static_approval_reviewers b
           then rg_error r ''registry.static_reviewers'' ''Approvers must be literal or come from binding parameters'' ''approval''
           else rg_check x Check_Approval r) (\<lambda>(_, r).
     Ok (c\<lparr>contract_input := json_set_in (contract_input c) ''properties'' ''approval'' (approval_schema (cx_number x))\<rparr>, r))"

definition agent_contract :: "(nat \<Rightarrow> 'n) \<Rightarrow> string \<Rightarrow> 'n json \<Rightarrow> 'n json \<Rightarrow> 'n contract" where
  "agent_contract num field declaration result =
     contract_of [(''agent'', identifier_schema num), (''context'', VBool True), (field, declaration)]
       [''agent'', ''context'', field] result"

definition schema_output :: "('n, 'd) compile_externals \<Rightarrow> ('n, 'n contract) registering" where
  "schema_output x r =
     bindr (rg_literal ''output_schema'' r) (\<lambda>(s, r).
     let declaration = const_schema s; name = rg_name r in
     if name \<in> {''data.map'', ''channel.no_reply''}
     then Ok (contract_of [(''value'', embedded s ''mapped''), (''output_schema'', declaration)] [''value'', ''output_schema''] s, r)
     else if name = ''ai.classify''
     then (if \<not> finite_labels s
       then rg_error r ''registry.labels'' ''Declare a finite scalar enum or a label enum property'' ''output_schema''
       else Ok (agent_contract (cx_number x) ''output_schema'' declaration s, r))
     else if name = ''agent.run'' then rg_approval x (agent_contract (cx_number x) ''output_schema'' declaration s) r
     else Panic)"

text \<open>The required feedback of a human decision, when the step declares the choices that need it.\<close>

definition feedback_rule :: "(nat \<Rightarrow> 'n) \<Rightarrow> 'n json \<Rightarrow> 'n json" where
  "feedback_rule num choices = VArray [jobj
     [(''if'', jobj [(''properties'', jobj [(''choice'', jobj [(''enum'', choices)])]), (''required'', jstrings [''choice''])]),
      (''then'', jobj [(''properties'', jobj [(''feedback'', jobj [(''minLength'', VNumber (num 1))])])])]]"

definition require_feedback :: "('n, 'd) compile_externals \<Rightarrow> 'n json \<Rightarrow> 'n json \<Rightarrow> ('n, 'n json) registering" where
  "require_feedback x feedback result r =
     (if rg_input r ''feedback_required'' = None then Ok (result, r)
      else bindr (rg_literal ''feedback_required'' r) (\<lambda>(v, r).
        bindr (rg_whole r) (\<lambda>span.
        bindr (Schema_compile (cx_schemas x) feedback (rg_path r ''feedback_required'') span) (\<lambda>sch.
        bindr (Schema_validate sch v (rg_path r ''feedback_required'') span) (\<lambda>_.
        Ok (json_set result ''allOf'' (feedback_rule (cx_number x) v), r))))))"

definition human_decision ::
    "('n, 'd) compile_externals \<Rightarrow> 'n json \<Rightarrow> 'n json \<Rightarrow> 'n json \<Rightarrow> ('n, 'n contract) registering" where
  "human_decision x choice declaration result r =
     (let num = cx_number x; feedback = array_schema num choice 0 MAX_SELECTIONS in
      bindr (require_feedback x feedback result r) (\<lambda>(result, r).
      let result = json_set_in result ''properties'' ''feedback'' (string_schema num MAX_TEXT);
          result = json_set result ''required'' (jstrings [''choice'', ''data'', ''feedback'']) in
      bindr (rg_check x Check_Deadline r) (\<lambda>(_, r).
      bindr (static_roots r ''reviewers'' STATIC_REVIEWERS) (\<lambda>_.
      Ok (contract_of
        [(''proposal'', VBool True), (''reviewers'', reviewers_schema num), (''deadline'', text_schema num MAX_DEADLINE),
         (''data_schema'', declaration), (''feedback_required'', feedback)]
        [''proposal'', ''reviewers'', ''deadline'', ''data_schema''] result, r)))))"

definition decision :: "('n, 'd) compile_externals \<Rightarrow> ('n, 'n contract) registering" where
  "decision x r =
     bindr (rg_literal ''data_schema'' r) (\<lambda>(s, r).
     bindr (rg_choices r) (\<lambda>choices.
     let choice = jobj [(''type'', VString ''string''), (''enum'', jstrings choices)];
         data = embedded s ''decision-data'';
         result = object_schema [(''choice'', choice), (''data'', data)] [''choice'', ''data''];
         declaration = const_schema s in
     if rg_name r = ''decision.rule''
     then Ok (contract_of [(''data'', data), (''data_schema'', declaration)] [''data'', ''data_schema''] result, r)
     else if rg_name r = ''decision.agent'' then Ok (agent_contract (cx_number x) ''data_schema'' declaration result, r)
     else if rg_name r = ''decision.human'' then human_decision x choice declaration result r
     else Panic))"

definition rg_wait :: "('n, 'd) compile_externals \<Rightarrow> ('n, 'n contract) registering" where
  "rg_wait x r =
     (let num = cx_number x in
      bindr (rg_check x Check_Deadline r) (\<lambda>(_, r).
      if rg_name r = ''wait.timer''
      then Ok (contract_of [(''deadline'', text_schema num MAX_DEADLINE)] [''deadline'']
        (object_schema [(''deadline'', date_time num)] [''deadline'']), r)
      else bindr (rg_literal ''payload_schema'' r) (\<lambda>(s, r).
        bindr (event_identity s r) (\<lambda>(_, r).
        bindr (message_reply_wait num r s) (\<lambda>_.
        Ok (contract_of
          [(''event'', identifier_schema num), (''correlation'', text_schema num MAX_CORRELATION),
           (''deadline'', text_schema num MAX_DEADLINE), (''payload_schema'', const_schema s)]
          [''event'', ''correlation'', ''deadline'', ''payload_schema''] s, r))))))"

definition default_params :: "('n, 'd) compile_externals \<Rightarrow> 'n registration \<Rightarrow> 'n child_contract \<Rightarrow> (unit, diagnostic) outcome" where
  "default_params x r c =
     (if rg_input r ''params'' \<noteq> None then Ok ()
      else bindr (rg_whole r) (\<lambda>span.
        bindr (Schema_compile (cx_schemas x) (cc_parameter_schema c) (rg_path r ''params'') span) (\<lambda>sch.
        if is_ok (Schema_validate sch (VObject []) (rg_path r ''params'') span) then Ok ()
        else rg_error r ''registry.child_params'' ''Supply with.params: the child's parameter schema requires parameters'' ''params'')))"

definition child_resources :: "'n registration \<Rightarrow> 'n child_contract \<Rightarrow> (unit, diagnostic) outcome" where
  "child_resources r c =
     for_each (\<lambda>s _.
       if s \<in> set (resources (pw_definition (rg_parsed r))) then Ok ()
       else rg_error r ''registry.child_resources''
         (''Declare the child's resource slot '' @ slot s @ '' with the same kind and contract'') ''input'') (cc_resources c) ()"

definition object_of :: "'n json \<Rightarrow> string \<Rightarrow> 'n json" where
  "object_of s field = jobj [(''allOf'', VArray [jobj [(''type'', VString ''object'')], embedded s field])]"

definition child_effective :: "('n, 'd) compile_externals \<Rightarrow> 'n child_contract \<Rightarrow> 'n json" where
  "child_effective x c =
     (let show_id = (\<lambda>i. VString (uuid_to_string (cx_values x) i)) in
      jobj [(''child_workflow_id'', show_id (cc_workflow_id c)), (''child_version_id'', show_id (cc_version_id c)),
        (''input_schema'', cc_input_schema c), (''output_schema'', cc_output_schema c), (''parameter_schema'', cc_parameter_schema c)])"

definition rg_child :: "('n, 'd) compile_externals \<Rightarrow> ('n, 'n contract) registering" where
  "rg_child x r =
     (case bt_get (pw_controls (rg_parsed r)) (rg_id r) of
        None \<Rightarrow> rg_error r ''registry.child'' ''Supply pinned child workflow and version identifiers'' ''input''
      | Some control \<Rightarrow>
          (case find_child_fact (rg_facts r) control of
             None \<Rightarrow> rg_error r ''registry.child'' ''Supply the matching pinned child contract'' ''input''
           | Some c \<Rightarrow>
               bindr (static_roots r ''params'' STATIC_PARAMS) (\<lambda>_.
               bindr (default_params x r c) (\<lambda>_.
               bindr (child_resources r c) (\<lambda>_.
               let r = r\<lparr>rg_effective := child_effective x c\<rparr>;
                   rounds = (case max_iterations control of Some n \<Rightarrow> unat n | None \<Rightarrow> 0);
                   result = (if rg_name r = ''flow.repeat''
                     then object_schema [(''result'', embedded (cc_output_schema c) ''child-output''),
                       (''rounds'', integer_schema (cx_number x) rounds)] [''result'', ''rounds'']
                     else cc_output_schema c) in
               Ok (contract_of [(''input'', object_of (cc_input_schema c) ''child-input''),
                 (''params'', object_of (cc_parameter_schema c) ''child-params'')] [''input''] result, r))))))"

subsection \<open>Actions\<close>

definition resource_value :: "resource_requirement \<Rightarrow> 'n json" where
  "resource_value s = jobj [(''slot'', VString (slot s)), (''kind'', VString (slot_kind s)),
     (''contract'', case slot_contract s of None \<Rightarrow> VNull | Some t \<Rightarrow> VString t)]"

definition rg_resource :: "string \<Rightarrow> ('n, 'n json) registering" where
  "rg_resource kind r =
     bindr (rg_literal ''connection'' r) (\<lambda>(connection, r).
     (case as_str connection of
        None \<Rightarrow> rg_error r ''registry.resource'' ''Connection must name a declared resource slot'' ''connection''
      | Some name \<Rightarrow>
          (case find (\<lambda>s. slot s = name \<and> slot_kind s = kind) (resources (pw_definition (rg_parsed r))) of
             None \<Rightarrow> rg_error r ''registry.resource'' ''Declare a resource slot with the required connection kind'' ''connection''
           | Some s \<Rightarrow> Ok (connection, r\<lparr>rg_effective := json_set (rg_effective r) ''resource'' (resource_value s)\<rparr>))))"

definition HTTP_METHODS :: "string list" where
  "HTTP_METHODS = [''GET'', ''HEAD'', ''POST'', ''PUT'', ''PATCH'', ''DELETE'', ''OPTIONS'']"

definition rg_http :: "('n, 'd) compile_externals \<Rightarrow> ('n, 'n contract) registering" where
  "rg_http x r =
     (let num = cx_number x in
      bindr (rg_resource ''http'' r) (\<lambda>(connection, r).
      bindr (rg_check x Check_Http r) (\<lambda>(_, r).
      Ok (contract_of
        [(''connection'', const_schema connection), (''method'', enum_schema HTTP_METHODS), (''path'', text_schema num MAX_PATH),
         (''headers'', headers_schema num), (''body'', VBool True)] [''connection'', ''method'', ''path'']
        (object_schema
          [(''status'', jobj [(''type'', VString ''integer''), (''minimum'', VNumber (num 100)), (''maximum'', VNumber (num 599))]),
           (''headers'', headers_schema num), (''body'', VBool True)] [''status'', ''headers'', ''body'']), r))))"

datatype message_kind = Message_Send | Message_Reply | Message_Ask

definition MessageKind_parse :: "string \<Rightarrow> message_kind option" where
  "MessageKind_parse name =
     (if name = ''message.send'' then Some Message_Send
      else if name = ''message.reply'' then Some Message_Reply
      else if name = ''message.ask'' then Some Message_Ask else None)"

datatype provisioning_kind = ListAgents | CreateAgentChannel

definition ProvisioningKind_parse :: "string \<Rightarrow> provisioning_kind option" where
  "ProvisioningKind_parse name =
     (if name = ''list_company_agents'' then Some ListAgents
      else if name = ''create_agent_channel'' then Some CreateAgentChannel else None)"

definition rg_tool :: "('n, 'd) compile_externals \<Rightarrow> ('n, 'n contract) registering" where
  "rg_tool x r =
     (let mcp = (rg_name r = ''mcp.call'') in
      bindr (if mcp then bindr (rg_resource ''mcp'' r) (\<lambda>(c, r). Ok (Some c, r)) else Ok (None, r)) (\<lambda>(connection, r).
      bindr (rg_literal ''tool'' r) (\<lambda>(name, r).
      (case as_str name of
         None \<Rightarrow> rg_error r ''registry.tool'' ''Tool must name a supplied contract'' ''tool''
       | Some name \<Rightarrow>
           if MessageKind_parse name \<noteq> None
           then rg_error r ''registry.tool'' ''Built-in messaging is a step type, not a selectable tool'' ''tool''
           else if \<not> mcp \<and> ProvisioningKind_parse name \<noteq> None
           then rg_error r ''registry.tool'' ''Built-in provisioning tools are agent tools, not step tools'' ''tool''
           else
             (case find (\<lambda>t. tool_name t = name \<and> tool_connection t = Option.bind connection as_str) (fact_tools (rg_facts r)) of
                None \<Rightarrow> rg_error r ''registry.tool'' ''Supply the selected tool argument and result contract'' ''tool''
              | Some t \<Rightarrow>
                  let r = r\<lparr>rg_effective := json_set (rg_effective r) ''tool''
                        (jobj [(''name'', VString (tool_name t)), (''input_schema'', tool_input_schema t), (''output_schema'', tool_output_schema t)])\<rparr>;
                      properties = [(''tool'', const_schema (VString name)), (''arguments'', object_of (tool_input_schema t) ''tool-input'')] in
                  (case connection of
                     Some c \<Rightarrow> Ok (contract_of (properties @ [(''connection'', const_schema c)]) [''connection'', ''tool'', ''arguments'']
                       (mcp_tool_result (cx_number x) (tool_output_schema t)), r)
                   | None \<Rightarrow> Ok (contract_of properties [''tool'', ''arguments''] (tool_output_schema t), r)))))))"

definition message_inputs :: "(nat \<Rightarrow> 'n) \<Rightarrow> string \<Rightarrow> ((string \<times> 'n json) list \<times> string list) option" where
  "message_inputs num name =
     (if name = ''message.send''
      then Some ([(''content'', content_schema num),
          (''destinations'', json_set (array_schema num
            (object_schema [(''kind'', enum_schema [''user'', ''channel'']), (''id'', uuid_schema)] [''kind'', ''id''])
            1 MAX_MESSAGE_DESTINATIONS) ''uniqueItems'' (VBool True))], [''content'', ''destinations''])
      else if name = ''message.reply''
      then Some ([(''source_message'', uuid_schema), (''content'', content_schema num)], [''source_message'', ''content''])
      else if name = ''message.ask''
      then Some ([(''source_message'', uuid_schema), (''content'', content_schema num), (''deadline'', text_schema num MAX_DEADLINE),
          (''payload_schema'', const_schema (message_trigger_schema num))], [''source_message'', ''content'', ''deadline'', ''payload_schema''])
      else None)"

definition message_tool_schemas :: "(nat \<Rightarrow> 'n) \<Rightarrow> string \<Rightarrow> ('n json \<times> 'n json) option" where
  "message_tool_schemas num name =
     map_option (\<lambda>(properties, names). (object_schema properties names, message_result num)) (message_inputs num name)"

definition rg_message :: "('n, 'd) compile_externals \<Rightarrow> ('n, 'n contract) registering" where
  "rg_message x r =
     (let num = cx_number x; name = rg_name r in
      bindr (rg_check x Check_Message r) (\<lambda>(_, r).
      bindr (expect (message_inputs num name)) (\<lambda>(properties, names).
      if name = ''message.ask''
      then bindr (rg_literal ''payload_schema'' r) (\<lambda>(s, r).
        if s \<noteq> message_trigger_schema num
        then rg_error r ''registry.question_schema'' ''A channel question requires the standard message payload_schema'' ''payload_schema''
        else Ok (contract_of properties names s, r))
      else Ok (contract_of properties names (message_result num), r))))"

definition rg_action :: "('n, 'd) compile_externals \<Rightarrow> ('n, 'n contract) registering" where
  "rg_action x r =
     bindr (if rg_name r = ''http.request'' then rg_http x r
       else if rg_name r \<in> {''tool.call'', ''mcp.call''} then rg_tool x r
       else if rg_name r \<in> {''message.send'', ''message.reply'', ''message.ask''} then rg_message x r
       else Panic) (\<lambda>(c, r). rg_approval x c r)"

subsection \<open>The evaluator\<close>

definition jev_message :: "'n registration \<Rightarrow> string \<Rightarrow> ('a, string) outcome \<Rightarrow> ('a, diagnostic) outcome" where
  "jev_message r field result = or_else_refuse result (\<lambda>message. rg_error r ''registry.jev'' message field)"

definition rg_jev :: "('n, 'd, 'f) registry_externals \<Rightarrow> ('n, 'n contract) registering" where
  "rg_jev x r =
     bindr (rg_resource ''typesafe'' r) (\<lambda>(connection, r).
     bindr (rg_literal ''model'' r) (\<lambda>(model, r).
     (case as_str model of
        None \<Rightarrow> rg_error r ''registry.jev'' ''Model must be a versioned Jev ID'' ''model''
      | Some text \<Rightarrow>
          bindr (jev_message r ''model'' (validate_model text)) (\<lambda>_.
          bindr (rg_literal ''questions'' r) (\<lambda>(qs, r).
          bindr (jev_message r ''questions'' (Questions_parse (rx_jev x) qs)) (\<lambda>typed.
          bindr (if rg_input r ''assets'' = None then Ok (None, r)
              else bindr (rg_literal ''assets'' r) (\<lambda>(v, r). Ok (Some v, r))) (\<lambda>(assets, r).
          bindr (jev_message r ''assets'' (parse_assets (rx_jev x) assets)) (\<lambda>refs.
          bindr (jev_message r ''questions'' (validate_assets typed text refs)) (\<lambda>_.
          bindr (rg_check (catalogue_externals x) Check_Jev r) (\<lambda>(_, r).
          let properties = [(''connection'', const_schema connection), (''model'', const_schema model),
                (''state'', jobj [(''type'', jstrings [''string'', ''object'', ''array''])]), (''questions'', const_schema qs)];
              names = [''connection'', ''model'', ''state'', ''questions''];
              result = Questions_output_schema (cx_number (rx_compile x)) typed text in
          Ok ((case assets of
              Some v \<Rightarrow> contract_of (properties @ [(''assets'', const_schema v)]) (names @ [''assets'']) result
            | None \<Rightarrow> contract_of properties names result), r)))))))))))"

subsection \<open>Resolution\<close>

definition rg_basic :: "('n, 'd, 'f) registry_externals \<Rightarrow> ('n, 'n contract) registering" where
  "rg_basic x r =
     (let c = catalogue_externals x; num = cx_number c; name = rg_name r in
      if name = ''jev.evaluate'' then rg_jev x r
      else if name = ''context.history''
      then Ok (contract_of [(''max_tokens'', integer_schema num MAX_CONTEXT_TOKENS)] [''max_tokens'']
        (object_schema
          [(''items'', array_schema num (history_item num) 0 MAX_ITEMS),
           (''token_count'', jobj [(''type'', VString ''integer''), (''minimum'', VNumber (num 0)), (''maximum'', VNumber (num MAX_CONTEXT_TOKENS))]),
           (''omitted'', jobj [(''type'', VString ''integer''), (''minimum'', VNumber (num 0))])]
          [''items'', ''token_count'', ''omitted'']), r)
      else if name = ''memory.load''
      then Ok (contract_of
        [(''scope'', scope_schema num), (''query'', text_schema num MAX_TEXT), (''limit'', integer_schema num MAX_ITEMS)]
        [''scope'', ''query'', ''limit'']
        (object_schema [(''items'', array_schema num (provenance_item num) 0 MAX_ITEMS)] [''items'']), r)
      else if name = ''memory.save''
      then Ok (contract_of
        [(''scope'', scope_schema num), (''facts'', array_schema num (text_schema num MAX_TEXT) 1 MAX_ITEMS)] [''scope'', ''facts'']
        (object_schema [(''saved_ids'', array_schema num (identifier_schema num) 1 MAX_ITEMS)] [''saved_ids'']), r)
      else if name \<in> {''ai.classify'', ''agent.run'', ''data.map'', ''channel.no_reply''} then schema_output c r
      else if name \<in> {''decision.rule'', ''decision.human'', ''decision.agent''} then decision c r
      else if name \<in> {''wait.event'', ''wait.timer''} then rg_wait c r
      else Panic)"

definition CONTRACT_REVISION :: string where
  "CONTRACT_REVISION = ''workflow-catalogue-v1.8''"

text \<open>The spellings of \<open>rename_all = "snake_case"\<close>.\<close>

fun input_check_text :: "input_check \<Rightarrow> string" where
  "input_check_text Check_Deadline = ''deadline''"
| "input_check_text Check_Approval = ''approval''"
| "input_check_text Check_Http = ''http''"
| "input_check_text Check_Message = ''message''"
| "input_check_text Check_Jev = ''jev''"

fun effect_class_text :: "effect_class \<Rightarrow> string" where
  "effect_class_text Pure = ''pure''"
| "effect_class_text BoundedRead = ''bounded_read''"
| "effect_class_text ModelInvocation = ''model_invocation''"
| "effect_class_text AgentActions = ''agent_actions''"
| "effect_class_text DurableWrite = ''durable_write''"
| "effect_class_text Effect_SharedAction = ''shared_action''"
| "effect_class_text DurableSuspension = ''durable_suspension''"
| "effect_class_text ChildControl = ''child_control''"

fun recovery_mode_text :: "recovery_mode \<Rightarrow> string" where
  "recovery_mode_text Recompute = ''recompute''"
| "recovery_mode_text ReuseCommittedResult = ''reuse_committed_result''"
| "recovery_mode_text LogicalIdempotencyReceiptReconciliation = ''logical_idempotency_receipt_reconciliation''"
| "recovery_mode_text ResumeDurableIdentity = ''resume_durable_identity''"

fun capability_text :: "capability_requirement \<Rightarrow> string" where
  "capability_text ContextRead = ''context_read''"
| "capability_text MemoryRead = ''memory_read''"
| "capability_text MemoryWrite = ''memory_write''"
| "capability_text ModelInvoke = ''model_invoke''"
| "capability_text AgentInvoke = ''agent_invoke''"
| "capability_text ResourceUse = ''resource_use''"
| "capability_text Capability_SharedAction = ''shared_action''"
| "capability_text MessageSend = ''message_send''"
| "capability_text HumanReview = ''human_review''"
| "capability_text EventWait = ''event_wait''"
| "capability_text TimerWait = ''timer_wait''"
| "capability_text ChildInvoke = ''child_invoke''"

definition constraints_value :: "execution_constraints \<Rightarrow> 'n json" where
  "constraints_value e = jobj
     [(''effect'', VString (effect_class_text (ec_effect e))), (''recovery'', VString (recovery_mode_text (ec_recovery e))),
      (''capabilities'', jstrings (map capability_text (ec_capabilities e))), (''may_suspend'', VBool (ec_may_suspend e)),
      (''shared_action_required'', VBool (ec_shared_action_required e)), (''sequential_repeat'', VBool (ec_sequential_repeat e)),
      (''inherited_run_budgets'', VBool (ec_inherited_run_budgets e)), (''frozen_inputs_required'', VBool (ec_frozen_inputs_required e)),
      (''runtime_deadline_required'', VBool (ec_runtime_deadline_required e))]"

definition registration_facts :: "'n registration \<Rightarrow> execution_constraints \<Rightarrow> 'n json" where
  "registration_facts r e = jobj
     [(''revision'', VString CONTRACT_REVISION), (''constraints'', constraints_value e), (''effective'', rg_effective r),
      (''literal_fields'', jstrings (rg_static_fields r)), (''checks'', jstrings (map input_check_text (rg_checks r)))]"

definition registered_contract :: "('n, 'd, 'f) registry_externals \<Rightarrow> ('n, 'n contract) registering" where
  "registered_contract x r =
     (if rg_name r \<in> {''http.request'', ''tool.call'', ''mcp.call'', ''message.send'', ''message.reply'', ''message.ask''}
      then rg_action (catalogue_externals x) r
      else if rg_name r \<in> {''workflow.call'', ''flow.repeat''} then rg_child (catalogue_externals x) r
      else rg_basic x r)"

definition registered_control :: "string \<Rightarrow> control_kind" where
  "registered_control name =
     (if name = ''workflow.call'' then Control_ChildCall else if name = ''flow.repeat'' then Control_Repeat else Control_None)"

definition registered_routes :: "'n registration \<Rightarrow> (route_contract, diagnostic) outcome" where
  "registered_routes r =
     bindr (if starts_with ''decision.'' (rg_name r) then bindr (rg_choices r) (\<lambda>names. Ok (Some names)) else Ok None) (\<lambda>choices.
     (case (if rg_name r = ''flow.repeat'' then Some [''done'', ''exhausted''] else choices) of
        None \<Rightarrow> Ok Contract_Success
      | Some names \<Rightarrow>
          bindr (collect_items (\<lambda>_ n. expect (ok_option (ChoiceName_parse n))) 0 names) (\<lambda>names.
          Ok (Contract_Choices (bs_of names)))))"

definition rg_resolve :: "('n, 'd, 'f) registry_externals \<Rightarrow> 'n registration \<Rightarrow> ('n specialized, diagnostic) outcome" where
  "rg_resolve x r =
     (let spans = pw_locations (rg_parsed r); here = ''/steps/'' @ rg_id r in
      if rg_name r \<notin> set TYPES
      then refuse spans ''step.type'' ''Unknown registered step type'' (here @ ''/type'') (here @ ''/type'')
      else if rg_name r = ''channel.no_reply'' \<and> step_routes (rg_step r) \<noteq> Routes_Success End
      then refuse spans ''registry.terminal_route'' ''channel.no_reply requires success routing to $end'' (here @ ''/routes'') (here @ ''/routes'')
      else
        bindr (registered_contract x r) (\<lambda>(c, r).
        bindr (registered_routes r) (\<lambda>routes.
        bindr (expect (ok_option (TypeName_parse (rg_name r)))) (\<lambda>type_name.
        bindr (step_constraints (rg_name r)) (\<lambda>metadata.
        Ok \<lparr>specialized_descriptor = \<lparr>descriptor_type = type_name, descriptor_input = contract_input c,
               descriptor_output = contract_output c, descriptor_routes = routes,
               descriptor_control = registered_control (rg_name r), descriptor_rule = (rg_name r = ''decision.rule'')\<rparr>,
             specialized_facts = registration_facts r metadata, specialized_checks = rg_checks r\<rparr>)))))"

definition resolve_step ::
    "('n, 'd, 'f) registry_externals \<Rightarrow> 'n parsed_workflow \<Rightarrow> 'n catalogue_facts \<Rightarrow> step_id \<Rightarrow> ('n specialized, diagnostic) outcome" where
  "resolve_step x p facts i =
     bindr (expect (bt_get (wf_steps (pw_definition p)) i)) (\<lambda>d. rg_resolve x (Registration_new p i d facts))"

subsection \<open>Compilation with the catalogue\<close>

definition register_step ::
    "('n, 'd, 'f) registry_externals \<Rightarrow> 'n parsed_workflow \<Rightarrow> 'n catalogue_facts \<Rightarrow> nat \<times> step_id
     \<Rightarrow> (step_id, 'n specialized) btree_map \<times> fact_budget \<Rightarrow> ((step_id, 'n specialized) btree_map \<times> fact_budget, diagnostic) outcome" where
  "register_step x p facts entry state =
     (let (index, i) = entry; (descriptors, budget) = state in
      bindr (resolve_step x p facts i) (\<lambda>s.
      bindr (punctuation (if index > 0 then 1 else 0) budget) (\<lambda>budget.
      bindr (charge_descriptor (cx_schemas (rx_compile x)) i (specialized_descriptor s) (specialized_facts s) budget) (\<lambda>budget.
      Ok (bt_insert i s descriptors, budget)))))"

definition register_steps ::
    "('n, 'd, 'f) registry_externals \<Rightarrow> 'n parsed_workflow \<Rightarrow> 'n catalogue_facts \<Rightarrow> ((step_id, 'n specialized) btree_map, diagnostic) outcome" where
  "register_steps x p facts =
     bindr (expect (bt_get (pw_locations p) [])) (\<lambda>span.
     bindr (punctuation 5 (FactBudget_new span)) (\<lambda>budget.
     bindr (for_each (register_step x p facts) (enumerate 0 (bt_keys (wf_steps (pw_definition p)))) ([], budget)) (\<lambda>(descriptors, _).
     Ok descriptors)))"

definition validate_declarations :: "('n, 'd) compile_externals \<Rightarrow> 'n parsed_workflow \<Rightarrow> (unit, diagnostic) outcome" where
  "validate_declarations x p =
     for_each (\<lambda>(i, d) _.
       for_each (\<lambda>field _.
         (case literal_input d field of
            None \<Rightarrow> Ok ()
          | Some v \<Rightarrow>
              let at = ''/steps/'' @ i @ ''/with/'' @ field in
              bindr (input_span (pw_locations p) at) (\<lambda>span.
              bindr (Schema_compile (cx_schemas x) v at span) (\<lambda>_. Ok ())))) DECLARATIONS ())
       (wf_steps (pw_definition p)) ()"

definition validate_jev_resources :: "'n parsed_workflow \<Rightarrow> (unit, diagnostic) outcome" where
  "validate_jev_resources p =
     for_each (\<lambda>s _.
       if list_ex (\<lambda>(i, d). step_type d = ''jev.evaluate'' \<and> Option.bind (literal_input d ''connection'') as_str = Some (slot s))
         (wf_steps (pw_definition p))
       then Ok ()
       else bindr (expect (bt_get (pw_locations p) [])) (\<lambda>span.
         Err (Diagnostic_at ''registry.resource'' ''TypeSafe resource slots must be referenced by a Jev step'' ''/resources'' span)))
     (filter (\<lambda>s. slot_kind s = ''typesafe'') (resources (pw_definition p))) ()"

definition compile_catalogue ::
    "nat \<Rightarrow> ('n, 'd, 'f) registry_externals \<Rightarrow> 'n decoded_source \<Rightarrow> uuid \<Rightarrow> 'n catalogue_facts \<Rightarrow> dependency_graph
     \<Rightarrow> 'n compiled_workflow phase" where
  "compile_catalogue fuel x decoded version facts dependencies =
     (let c = catalogue_externals x in
      bindv (Some (parse_workflow (cx_wire c) decoded version)) (\<lambda>p.
      bindv (Some (preflight_catalogue x p facts)) (\<lambda>_.
      bindv (Some (bindr (expect (bt_get (pw_locations p) [])) (validate_facts c facts))) (\<lambda>_.
      bindv (Some (register_steps x p facts)) (\<lambda>descriptors.
      bindv (Some (check_resolved_budget c p descriptors dependencies (fact_tool_workflows facts))) (\<lambda>_.
      bindv (Some (validate_declarations c p)) (\<lambda>_.
      bindv (Some (validate_jev_resources p)) (\<lambda>_.
      compile_resolved fuel c decoded p descriptors dependencies (fact_tool_workflows facts)))))))))"

end
