(* ===== verification/Registry_Facts.thy ===== *)
theory Registry_Facts
  imports Registry Compile_Facts
begin

text \<open>
  Properties of the step catalogue: who reviews and with which parameters a child runs is decided by
  the parameters of the binding alone, the waits for one event agree on its payload, and registering
  a parsed step never panics.
\<close>

section \<open>What a binding depends on\<close>

lemma denote_reads_references:
  "(\<And>r. r \<in> set (references b) \<Longrightarrow> reference x r ctx = reference x r ctx') \<Longrightarrow> denote x ctx b = denote x ctx' b"
proof (induction b rule: references.induct)
  case (4 r fallback)
  then have "denote x ctx fallback = denote x ctx' fallback" "reference x r ctx = reference x r ctx'"
    by auto
  then show ?case by (simp split: outcome.splits context_error.splits)
next
  case (5 fs)
  have "denote_fields (denote x ctx) fs [] = denote_fields (denote x ctx') fs []"
    by (rule denote_cong(1)) (use 5 in \<open>auto intro!: "5.IH"\<close>)
  then show ?case by simp
next
  case (6 items)
  have "denote_items (denote x ctx) items = denote_items (denote x ctx') items"
    by (rule denote_cong(2)) (use 6 in auto)
  then show ?case by simp
next
  case (7 items)
  have "denote_concat (denote x ctx) items [] = denote_concat (denote x ctx') items []"
    by (rule denote_cong(3)) (use 7 in auto)
  then show ?case by simp
next
  case (8 items)
  have "denote_boolean (denote x ctx) items True = denote_boolean (denote x ctx') items True"
    by (rule denote_cong(4)) (use 8 in auto)
  then show ?case by simp
next
  case (9 items)
  have "denote_boolean (denote x ctx) items False = denote_boolean (denote x ctx') items False"
    by (rule denote_cong(4)) (use 9 in auto)
  then show ?case by simp
qed auto

lemma params_reference:
  "root_name (root c) = ''params'' \<Longrightarrow> params ctx = params ctx' \<Longrightarrow> reference x c ctx = reference x c ctx'"
  by (cases "root c") (auto simp: reference_def)

lemma params_only_denote:
  "params_only b \<Longrightarrow> params ctx = params ctx' \<Longrightarrow> denote x ctx b = denote x ctx' b"
  by (intro denote_reads_references) (auto simp: params_only_def list_all_iff intro: params_reference)

lemma params_only_same:
  "params_only b \<Longrightarrow> params ctx = params ctx' \<Longrightarrow> denote x ctx b = Ok v \<Longrightarrow> denote x ctx' b = Ok v' \<Longrightarrow> v = v'"
  using params_only_denote [of b ctx ctx' x] by simp

lemma denote_fields_get:
  "denote_fields f fs out = Ok vs \<Longrightarrow> distinct (map fst fs) \<Longrightarrow> bt_ok out
   \<Longrightarrow> (case bt_get fs k of Some b \<Rightarrow> \<exists>w. f b = Ok w \<and> bt_get vs k = Some w | None \<Rightarrow> bt_get vs k = bt_get out k)"
proof (induction fs arbitrary: out)
  case (Cons p fs)
  obtain n b where p: "p = (n, b)" by (cases p)
  obtain w where w: "f b = Ok w" "denote_fields f fs (bt_insert n w out) = Ok vs"
    using Cons.prems p by (auto simp: bindr_eq_Ok)
  have ok: "bt_ok (bt_insert n w out)" using Cons.prems(3) by (rule bt_ok_insert)
  have IH: "case bt_get fs k of Some b \<Rightarrow> \<exists>w. f b = Ok w \<and> bt_get vs k = Some w | None \<Rightarrow> bt_get vs k = bt_get (bt_insert n w out) k"
    using Cons.IH [OF w(2)] Cons.prems ok by simp
  show ?case
  proof (cases "k = n")
    case True
    then have "bt_get fs k = None" using Cons.prems(2) p by (auto simp: bt_get_def map_of_eq_None_iff)
    then show ?thesis using IH w True p Cons.prems(3) by (simp add: bt_get_insert) (simp add: bt_get_def)
  next
    case False
    then have "bt_get (p # fs) k = bt_get fs k" by (simp add: bt_get_def p)
    then show ?thesis using IH False Cons.prems(3) by (simp add: bt_get_insert split: option.splits)
  qed
qed (simp add: bt_get_def)

section \<open>Reviewers and parameters\<close>

text \<open>The fields of the objects that a binding may denote, as the parser leaves them.\<close>

fun fields_ordered :: "'n binding \<Rightarrow> bool" where
  "fields_ordered (Object fs) = bt_ok fs"
| "fields_ordered (Default r fallback) = fields_ordered fallback"
| "fields_ordered _ = True"

lemma collect_map_ordered: "collect_map f m = Ok r \<Longrightarrow> bt_ok r"
  unfolding collect_map_def
  by (rule for_each_invariant [where I = bt_ok]) (auto simp: bindr_eq_Ok bt_ok_insert, simp add: bt_ok_def)

lemma parsed_fields_ordered: "parse_binding node at = Ok b \<Longrightarrow> fields_ordered b"
proof (induction "size node" arbitrary: node at b rule: less_induct)
  case less
  obtain name operand where op: "parse_operator parse_binding name operand (child at name) = Ok b" "size operand < size node"
  proof -
    obtain m where m: "node_fields node at OPERATORS = Ok m" and
      "(case m of [(name, operand)] \<Rightarrow> parse_operator parse_binding name operand (child at name)
        | _ \<Rightarrow> Err (Diagnostic_at ''binding.operator'' ''Binding must have exactly one operator'' at (node_span node))) = Ok b"
      using less.prems by (subst (asm) parse_binding.simps) (auto simp: bindr_eq_Ok split: node_value.splits)
    then obtain name operand where "m = [(name, operand)]" "parse_operator parse_binding name operand (child at name) = Ok b"
      by (auto split: list.splits)
    then show ?thesis using that m fields_size [OF m] by auto
  qed
  have "fields_ordered b" if fallback: "parse_fallback parse_binding operand q = Ok b" for q
  proof -
    obtain m v r a fb where m: "node_fields operand q [''ref'', ''value''] = Ok m" "bt_get m ''value'' = Some v"
        "parse_binding v a = Ok fb" "b = Default r fb"
      using fallback by (auto simp: parse_fallback_def bindr_eq_Ok required_def)
    then have "size v < size operand" by (auto intro: fields_size dest!: bt_get_in_set)
    then show ?thesis using less.hyps [of v a fb] m op(2) by simp
  qed
  then show ?case
    using op(1) by (auto simp: parse_operator_def parse_object_def bindr_eq_Ok split: if_splits dest: collect_map_ordered)
qed

lemma static_approval_denote:
  assumes "static_approval_reviewers b" "fields_ordered b" "params ctx = params ctx'"
    and "denote x ctx b = Ok v" "denote x ctx' b = Ok v'"
  shows "json_get v ''reviewers'' = json_get v' ''reviewers''"
  using assms
proof (induction b arbitrary: v v' rule: static_approval_reviewers.induct)
  case (1 fs)
  obtain out where out: "denote_fields (denote x ctx) fs [] = Ok out" "v = VObject out"
    using "1.prems" by (auto simp: bindr_eq_Ok)
  obtain out' where out': "denote_fields (denote x ctx') fs [] = Ok out'" "v' = VObject out'"
    using "1.prems" by (auto simp: bindr_eq_Ok)
  have dist: "distinct (map fst fs)" "bt_ok ([] :: (string \<times> 'a json) list)"
    using "1.prems" bt_ok_distinct by (auto simp: bt_ok_def)
  have "denote x ctx b = denote x ctx' b" if "bt_get fs ''reviewers'' = Some b" for b
    using that "1.prems" by (auto intro: params_only_denote)
  then show ?case
    using denote_fields_get [OF out(1) dist, of "''reviewers''"] denote_fields_get [OF out'(1) dist, of "''reviewers''"]
    by (auto simp: out(2) out'(2) json_get_def split: option.splits)
next
  case (2 c fallback)
  have "reference x c ctx = reference x c ctx'"
    using "2.prems" by (auto intro: params_reference)
  then show ?case
    using "2.prems" "2.IH" by (auto split: outcome.splits context_error.splits)
qed (simp del: denote.simps, drule (3) params_only_same, simp)+

lemma resolve_inputs_get:
  assumes "resolve_inputs x bs ctx limits = Ok v" "bt_ok bs"
  shows "case bt_get bs k of Some b \<Rightarrow> \<exists>w. json_get v k = Some w \<and> denote x ctx b = Ok w | None \<Rightarrow> json_get v k = None"
proof -
  obtain vals bu by' where e: "evaluate_inputs x ctx 0 bs [] bu by' = Ok vals" and v: "v = VObject vals"
    using assms(1) by (auto simp: resolve_inputs_def Let_def)
  obtain ws where ws: "length ws = length bs" "vals = fold (\<lambda>(k, v). bt_insert k v) (zip (map fst bs) ws) []"
      "\<forall>i < length bs. denote x ctx (snd (bs ! i)) = Ok (ws ! i)"
    using evaluate_inputs_Ok [OF e] by blast
  note vals = inserted_fields [OF assms(2) ws(1,2)]
  show ?thesis
  proof (cases "bt_get bs k")
    case None
    then have "k \<notin> set (map fst vals)" by (simp add: vals(1) bt_get_def map_of_eq_None_iff)
    then have "json_get v k = None" by (simp add: v json_get_def bt_get_def map_of_eq_None_iff)
    then show ?thesis using None by simp
  next
    case (Some b)
    then obtain i where i: "i < length bs" "bs ! i = (k, b)"
      using bt_get_in_set by (metis in_set_conv_nth)
    then have "bt_get vals k = Some (ws ! i)" "denote x ctx b = Ok (ws ! i)"
      using vals(2) [of i] ws(3) by auto
    then show ?thesis using Some by (simp add: v json_get_def)
  qed
qed

section \<open>Registrations\<close>

text \<open>The operations of a registration record checks, literals and facts; they never change its step.\<close>

definition same_step :: "'n registration \<Rightarrow> 'n registration \<Rightarrow> bool" where
  "same_step r r' \<longleftrightarrow> rg_parsed r' = rg_parsed r \<and> rg_id r' = rg_id r \<and> rg_step r' = rg_step r \<and> rg_facts r' = rg_facts r"

lemma same_step_simps:
  "same_step r r' \<Longrightarrow> rg_name r' = rg_name r" "same_step r r' \<Longrightarrow> rg_input r' f = rg_input r f"
  by (simp_all add: same_step_def rg_name_def rg_input_def)

lemma same_step_trans [trans]: "same_step r r' \<Longrightarrow> same_step r' r'' \<Longrightarrow> same_step r r''"
  by (simp add: same_step_def)

lemma same_step_update [simp]:
  "same_step r r" "same_step r (r'\<lparr>rg_checks := a\<rparr>) = same_step r r'" "same_step r (r'\<lparr>rg_effective := b\<rparr>) = same_step r r'"
  "same_step r (r'\<lparr>rg_static_fields := c\<rparr>) = same_step r r'"
  by (simp_all add: same_step_def)

lemma rg_error_not_Ok [simp]: "rg_error r tag message field \<noteq> Ok a"
  by (simp add: rg_error_def)

lemma rg_literal_eq_Ok:
  "rg_literal f r = Ok (v, r') \<longleftrightarrow> rg_input r f = Some (Literal v) \<and> r' = r\<lparr>rg_static_fields := rg_static_fields r @ [f]\<rparr>"
  by (auto simp: rg_literal_def split: option.splits binding.splits)

lemma rg_check_eq_Ok: "rg_check x check r = Ok (u, r') \<Longrightarrow> r' = r\<lparr>rg_checks := rg_checks r @ [check]\<rparr>"
  by (auto simp: rg_check_def bindr_eq_Ok)

lemma rg_resource_same: "rg_resource kind r = Ok (v, r') \<Longrightarrow> same_step r r'"
  by (clarsimp simp: rg_resource_def bindr_eq_Ok rg_literal_eq_Ok) (auto simp: same_step_def split: option.split_asm)

lemma static_roots_eq_Ok:
  "static_roots r f why = Ok () \<longleftrightarrow> (\<forall>b. rg_input r f = Some b \<longrightarrow> params_only b)"
  by (auto simp: static_roots_def split: option.splits)

lemma rg_approval_eq_Ok:
  assumes "rg_approval x c r = Ok (c', r')"
  shows "same_step r r'" and "rg_input r ''approval'' = Some b \<Longrightarrow> static_approval_reviewers b"
  using assms by (auto simp: rg_approval_def bindr_eq_Ok split: option.splits if_splits dest!: rg_check_eq_Ok)

lemma require_feedback_same: "require_feedback x feedback result r = Ok (v, r') \<Longrightarrow> same_step r r'"
  by (auto simp: require_feedback_def bindr_eq_Ok rg_literal_eq_Ok split: if_splits)

lemma human_decision_static:
  assumes "human_decision x choice declaration result r = Ok (c, r')" "rg_input r ''reviewers'' = Some b"
  shows "params_only b"
proof -
  obtain v r1 r2 u where r1: "require_feedback x (array_schema (cx_number x) choice 0 MAX_SELECTIONS) result r = Ok (v, r1)"
    and r2: "rg_check x Check_Deadline r1 = Ok (u, r2)" and "static_roots r2 ''reviewers'' STATIC_REVIEWERS = Ok ()"
    using assms(1) by (auto simp: human_decision_def Let_def bindr_eq_Ok)
  moreover have "same_step r r2"
    using require_feedback_same [OF r1] rg_check_eq_Ok [OF r2] by simp
  ultimately show ?thesis using assms(2) by (auto simp: static_roots_eq_Ok same_step_simps)
qed

lemma decision_static:
  assumes "decision x r = Ok (c, r')" "rg_name r = ''decision.human''" "rg_input r ''reviewers'' = Some b"
  shows "params_only b"
proof -
  obtain s r1 where r1: "rg_literal ''data_schema'' r = Ok (s, r1)"
    and rest: "bindr (rg_choices r1) (\<lambda>choices.
     let choice = jobj [(''type'', VString ''string''), (''enum'', jstrings choices)];
         data = embedded s ''decision-data'';
         result = object_schema [(''choice'', choice), (''data'', data)] [''choice'', ''data''];
         declaration = const_schema s in
     if rg_name r1 = ''decision.rule''
     then Ok (contract_of [(''data'', data), (''data_schema'', declaration)] [''data'', ''data_schema''] result, r1)
     else if rg_name r1 = ''decision.agent'' then Ok (agent_contract (cx_number x) ''data_schema'' declaration result, r1)
     else if rg_name r1 = ''decision.human'' then human_decision x choice declaration result r1
     else Panic) = Ok (c, r')"
    using assms(1) unfolding decision_def by (auto simp: bindr_eq_Ok)
  have same: "same_step r r1" using r1 by (auto simp: rg_literal_eq_Ok)
  then obtain choice decl result where "human_decision x choice decl result r1 = Ok (c, r')"
    using rest assms(2) by (auto simp: bindr_eq_Ok Let_def same_step_simps)
  then show ?thesis using human_decision_static [of x choice decl result r1] same assms(3) by (simp add: same_step_simps)
qed

lemma rg_child_static:
  "rg_child x r = Ok (c, r') \<Longrightarrow> rg_input r ''params'' = Some b \<Longrightarrow> params_only b"
  by (auto simp: rg_child_def bindr_eq_Ok static_roots_eq_Ok split: option.split_asm)

definition APPROVED_TYPES :: "string set" where
  "APPROVED_TYPES = {''agent.run'', ''http.request'', ''tool.call'', ''mcp.call'', ''message.send'', ''message.reply'', ''message.ask''}"

lemma rg_http_same: "rg_http x r = Ok (c, r') \<Longrightarrow> same_step r r'"
  by (auto simp: rg_http_def Let_def bindr_eq_Ok dest!: rg_resource_same rg_check_eq_Ok intro: same_step_trans)

lemma rg_message_same: "rg_message x r = Ok (c, r') \<Longrightarrow> same_step r r'"
  by (auto simp: rg_message_def Let_def bindr_eq_Ok rg_literal_eq_Ok split: if_splits dest!: rg_check_eq_Ok intro: same_step_trans)

lemma rg_tool_same: "rg_tool x r = Ok (c, r') \<Longrightarrow> same_step r r'"
proof -
  assume tool: "rg_tool x r = Ok (c, r')"
  obtain connection r1 where r1: "(if rg_name r = ''mcp.call'' then bindr (rg_resource ''mcp'' r) (\<lambda>(c, r). Ok (Some c, r)) else Ok (None, r))
      = Ok (connection, r1)"
    using tool by (auto simp: rg_tool_def Let_def bindr_eq_Ok)
  have same: "same_step r r1"
    using r1 by (auto simp: bindr_eq_Ok split: if_splits dest: rg_resource_same)
  obtain name r2 where r2: "rg_literal ''tool'' r1 = Ok (name, r2)"
    using tool r1 by (auto simp: rg_tool_def Let_def bindr_eq_Ok split: if_splits)
  then have "same_step r r2" using same by (auto simp: rg_literal_eq_Ok)
  then show ?thesis
    using tool by (simp add: rg_tool_def Let_def r1 r2) (auto simp: Let_def split: option.split_asm if_splits)
qed

lemma rg_action_static:
  assumes "rg_action x r = Ok (c, r')" "rg_input r ''approval'' = Some b"
  shows "static_approval_reviewers b"
proof -
  obtain c1 r1 where r1: "rg_approval x c1 r1 = Ok (c, r')" "same_step r r1"
    using assms(1) by (auto simp: rg_action_def bindr_eq_Ok split: if_splits dest: rg_http_same rg_tool_same rg_message_same)
  show ?thesis by (rule rg_approval_eq_Ok(2) [OF r1(1)]) (simp add: same_step_simps [OF r1(2)] assms(2))
qed

lemma schema_output_static:
  assumes "schema_output x r = Ok (c, r')" "rg_name r = ''agent.run''" "rg_input r ''approval'' = Some b"
  shows "static_approval_reviewers b"
proof -
  obtain s r1 where r1: "rg_literal ''output_schema'' r = Ok (s, r1)"
    using assms(1) by (auto simp: schema_output_def bindr_eq_Ok)
  then have same: "same_step r r1" by (auto simp: rg_literal_eq_Ok)
  have approval: "rg_approval x (agent_contract (cx_number x) ''output_schema'' (const_schema s) s) r1 = Ok (c, r')"
    using assms(1,2) same by (simp add: schema_output_def r1 Let_def same_step_simps)
  show ?thesis by (rule rg_approval_eq_Ok(2) [OF approval]) (simp add: same_step_simps [OF same] assms(3))
qed

lemma registered_static:
  assumes "registered_contract x r = Ok (c, r')"
  shows "rg_name r = ''decision.human'' \<Longrightarrow> rg_input r ''reviewers'' = Some b \<Longrightarrow> params_only b"
    and "rg_name r \<in> {''workflow.call'', ''flow.repeat''} \<Longrightarrow> rg_input r ''params'' = Some b \<Longrightarrow> params_only b"
    and "rg_name r \<in> APPROVED_TYPES \<Longrightarrow> rg_input r ''approval'' = Some b \<Longrightarrow> static_approval_reviewers b"
proof -
  show "params_only b" if "rg_name r = ''decision.human''" "rg_input r ''reviewers'' = Some b"
    using assms that decision_static [of "catalogue_externals x" r c r' b]
    by (simp add: registered_contract_def rg_basic_def Let_def)
  show "params_only b" if "rg_name r \<in> {''workflow.call'', ''flow.repeat''}" "rg_input r ''params'' = Some b"
    using assms that rg_child_static [of "catalogue_externals x" r c r' b] by (auto simp: registered_contract_def)
  show "static_approval_reviewers b" if "rg_name r \<in> APPROVED_TYPES" "rg_input r ''approval'' = Some b"
    using assms that rg_action_static [of "catalogue_externals x" r c r' b] schema_output_static [of "catalogue_externals x" r c r' b]
    by (auto simp: registered_contract_def rg_basic_def Let_def APPROVED_TYPES_def)
qed

lemma resolve_step_contract:
  assumes "resolve_step x p facts i = Ok s" "bt_get (wf_steps (pw_definition p)) i = Some d"
  obtains c r' where "registered_contract x (Registration_new p i d facts) = Ok (c, r')"
  using assms by (auto simp: resolve_step_def rg_resolve_def Let_def bindr_eq_Ok split: if_splits)

lemma register_steps_resolve:
  assumes "register_steps x p facts = Ok descriptors" "bt_get (wf_steps (pw_definition p)) i = Some d"
  shows "\<exists>s. resolve_step x p facts i = Ok s"
proof -
  have "i \<in> set (bt_keys (wf_steps (pw_definition p)))"
    using assms(2) by (auto simp: bt_keys_def dest: bt_get_in_set intro: rev_image_eqI)
  then obtain index where "(index, i) \<in> set (enumerate 0 (bt_keys (wf_steps (pw_definition p))))"
    by (metis (no_types, lifting) imageE map_snd_enumerate prod.collapse set_map)
  then show ?thesis
    using assms(1) by (auto simp: register_steps_def register_step_def bindr_eq_Ok dest!: for_each_visits)
qed

lemma registered_parsed_step:
  assumes "parse_workflow w decoded version = Ok p" "bt_get (wf_steps (pw_definition p)) i = Some d"
  shows "step_valid d" and "\<forall>(k, b) \<in> set (step_inputs d). fields_ordered b"
proof -
  obtain steps_node limits_node acc where
    steps: "node_at (source_root decoded) ''/steps'' = Some steps_node" "steps_at w steps_node ''/steps'' = Ok acc"
    and p: "wf_steps (pw_definition p) = ps_steps acc"
    using assms(1) by (rule parse_workflow_parts)
  have "steps_parsed (source_root decoded) ''/steps'' acc"
    using steps_at_parsed [OF steps(2,1)] .
  then have step: "step_valid d" "inputs_located (source_root decoded) (child ''/steps'' i) d"
    using bt_get_in_set [OF assms(2)] p by (auto simp: steps_parsed_def)
  then show "step_valid d" "\<forall>(k, b) \<in> set (step_inputs d). fields_ordered b"
    by (auto simp: inputs_located_def binding_at_def dest: parsed_fields_ordered)
qed

section \<open>Properties\<close>

text \<open>
  The authority that the inputs of a step assign: the reviewers of a human decision, the parameters of
  a child workflow, the reviewers whose approval an action or an agent needs.
\<close>

definition assigned_authority :: "string \<Rightarrow> 'n json \<Rightarrow> 'n json option" where
  "assigned_authority name v =
     (if name = ''decision.human'' then json_get v ''reviewers''
      else if name \<in> {''workflow.call'', ''flow.repeat''} then json_get v ''params''
      else if name \<in> APPROVED_TYPES then Option.bind (json_get v ''approval'') (\<lambda>a. json_get a ''reviewers'')
      else None)"

lemma registered_authority:
  assumes "parse_workflow w decoded version = Ok p" "bt_get (wf_steps (pw_definition p)) i = Some d"
    and "register_steps x p facts = Ok descriptors" "params ctx = params ctx'"
    and "resolve_inputs e (step_inputs d) ctx limits = Ok v" "resolve_inputs e (step_inputs d) ctx' limits' = Ok v'"
  shows "assigned_authority (step_type d) v = assigned_authority (step_type d) v'"
proof -
  let ?r = "Registration_new p i d facts"
  obtain s where s: "resolve_step x p facts i = Ok s" using register_steps_resolve [OF assms(3,2)] by blast
  obtain c r' where c: "registered_contract x ?r = Ok (c, r')" using resolve_step_contract [OF s assms(2)] by blast
  have r: "rg_name ?r = step_type d" "rg_input ?r f = bt_get (step_inputs d) f" for f
    by (simp_all add: Registration_new_def rg_name_def rg_input_def)
  note static = registered_static [OF c, unfolded r]
  note step = registered_parsed_step [OF assms(1,2)]
  have ok: "bt_ok (step_inputs d)" using step(1) by (simp add: step_valid_def)
  note got = resolve_inputs_get [OF assms(5) ok] and got' = resolve_inputs_get [OF assms(6) ok]
  have same: "json_get v f = json_get v' f" if "\<And>b. bt_get (step_inputs d) f = Some b \<Longrightarrow> params_only b" for f
  proof (cases "bt_get (step_inputs d) f")
    case (Some b)
    then show ?thesis
      using got [of f] got' [of f] params_only_same [OF that [OF Some] assms(4)] by auto
  qed (use got [of f] got' [of f] in simp)
  have approval: "Option.bind (json_get v ''approval'') (\<lambda>a. json_get a ''reviewers'') = Option.bind (json_get v' ''approval'') (\<lambda>a. json_get a ''reviewers'')"
    if "\<And>b. bt_get (step_inputs d) ''approval'' = Some b \<Longrightarrow> static_approval_reviewers b"
  proof (cases "bt_get (step_inputs d) ''approval''")
    case (Some b)
    then have "fields_ordered b" using step(2) by (auto dest: bt_get_in_set)
    then show ?thesis
      using Some got [of "''approval''"] got' [of "''approval''"] static_approval_denote [OF that [OF Some] _ assms(4)] by auto
  qed (use got [of "''approval''"] got' [of "''approval''"] in simp)
  show ?thesis
    unfolding assigned_authority_def using static same approval by simp
qed

text \<open>What a compilation with the catalogue went through.\<close>

lemma compile_catalogue_parts:
  assumes "compile_catalogue fuel x decoded version facts dependencies = Some (Ok c)"
  obtains p descriptors where "parse_workflow (cx_wire (rx_compile x)) decoded version = Ok p"
    "register_steps x p facts = Ok descriptors"
    "compile_resolved fuel (catalogue_externals x) decoded p descriptors dependencies (fact_tool_workflows facts) = Some (Ok c)"
  using assms by (auto simp: compile_catalogue_def Let_def bindv_eq_Ok catalogue_externals_def)

lemma compile_catalogue_definition:
  assumes "compile_resolved fuel x decoded p descriptors graph tools = Some (Ok c)"
  shows "definition_of (cw_graph c) = pw_definition p"
  using compile_resolved_parts(1) [OF assms] by (rule validate_definition)

lemma prepared_inputs_resolved:
  assumes "prepare_step_inputs x c step ctx = Ok v" "bt_get (wf_steps (definition_of (cw_graph c))) step = Some d"
  shows "resolve_inputs (cx_values x) (step_inputs d) ctx (workflow_context_limits (cw_graph c)) = Ok v"
proof (cases "resolve_inputs (cx_values x) (step_inputs d) ctx (workflow_context_limits (cw_graph c))")
  case (Ok w)
  then show ?thesis using assms by (auto simp: prepare_step_inputs_def Let_def bindr_eq_Ok)
next
  case (Err r)
  then show ?thesis using assms by (cases r) (auto simp: prepare_step_inputs_def Let_def bindr_eq_Ok)
next
  case Panic
  then show ?thesis using assms by (auto simp: prepare_step_inputs_def Let_def bindr_eq_Ok)
qed

lemma compiled_authority:
  assumes "compile_catalogue fuel x decoded version facts dependencies = Some (Ok c)"
    and "bt_get (wf_steps (definition_of (cw_graph c))) step = Some d"
    and "params ctx = params ctx'"
    and "prepare_step_inputs (catalogue_externals x) c step ctx = Ok v"
    and "prepare_step_inputs (catalogue_externals x) c step ctx' = Ok v'"
  shows "assigned_authority (step_type d) v = assigned_authority (step_type d) v'"
proof -
  obtain p descriptors where p: "parse_workflow (cx_wire (rx_compile x)) decoded version = Ok p"
    and registered: "register_steps x p facts = Ok descriptors"
    and c: "compile_resolved fuel (catalogue_externals x) decoded p descriptors dependencies (fact_tool_workflows facts) = Some (Ok c)"
    using assms(1) by (rule compile_catalogue_parts)
  have "bt_get (wf_steps (pw_definition p)) step = Some d"
    using assms(2) compile_catalogue_definition [OF c] by simp
  from registered_authority [OF p this registered assms(3)] show ?thesis
    using prepared_inputs_resolved [OF assms(4,2)] prepared_inputs_resolved [OF assms(5,2)] by blast
qed

section \<open>Events\<close>

lemma compile_step_output:
  assumes "compile_step fuel x p descriptors (i, d) result = Some (Ok result')"
  obtains s sch where "bt_get descriptors i = Some s" "schema_raw sch = descriptor_output (specialized_descriptor s)"
    "ss_outputs result' = bt_insert i sch (ss_outputs result)"
proof -
  have raw: "schema_raw sch = s" if "Schema_compile y s at span = Ok sch" for y s at span sch
    using that by (auto simp: Schema_compile_def bindr_eq_Ok split: if_splits)
  show ?thesis
    using assms that by (auto simp: compile_step_def Let_def bindv_eq_Ok bindr_eq_Ok split: option.splits if_splits dest!: raw)
qed

lemma compile_steps_outputs:
  assumes "compile_steps fuel x p descriptors = Some (Ok steps)" "bt_ok (wf_steps (pw_definition p))"
    "bt_get (wf_steps (pw_definition p)) i = Some d"
  shows "\<exists>s sch. bt_get descriptors i = Some s \<and> bt_get (ss_outputs steps) i = Some sch
    \<and> schema_raw sch = descriptor_output (specialized_descriptor s)"
proof -
  let ?P = "\<lambda>out. \<exists>s sch. bt_get descriptors i = Some s \<and> bt_get out i = Some sch
    \<and> schema_raw sch = descriptor_output (specialized_descriptor s)"
  have loop: "?P (ss_outputs steps)"
    if "for_eachv (compile_step fuel x p descriptors) es s = Some (Ok steps)" "i \<in> fst ` set es \<or> ?P (ss_outputs s)"
      "distinct (map fst es)" "bt_ok (ss_outputs s)" "?P (ss_outputs s) \<longrightarrow> i \<notin> fst ` set es" for es s
    using that
  proof (induction es arbitrary: s)
    case (Cons e es)
    obtain s1 where s1: "compile_step fuel x p descriptors (fst e, snd e) s = Some (Ok s1)"
      and rest: "for_eachv (compile_step fuel x p descriptors) es s1 = Some (Ok steps)"
      using Cons.prems(1) by (auto simp: bindv_eq_Ok)
    obtain s' sch where sch: "bt_get descriptors (fst e) = Some s'" "schema_raw sch = descriptor_output (specialized_descriptor s')"
        "ss_outputs s1 = bt_insert (fst e) sch (ss_outputs s)"
      using compile_step_output [OF s1] .
    have get: "bt_get (ss_outputs s1) = (bt_get (ss_outputs s))(fst e \<mapsto> sch)" "bt_ok (ss_outputs s1)"
      using Cons.prems(4) by (simp_all add: sch(3) bt_get_insert bt_ok_insert)
    show ?case
      by (rule Cons.IH [OF rest]) (use Cons.prems sch get in auto)
  qed auto
  have "i \<in> fst ` set (wf_steps (pw_definition p))"
    using bt_get_in_set [OF assms(3)] by (auto intro: rev_image_eqI)
  then show ?thesis
    using bt_ok_distinct [OF assms(2)]
    by (intro loop [OF assms(1) [unfolded compile_steps_def]]) (simp_all add: bt_ok_def bt_get_def)
qed

lemma register_steps_descriptors:
  assumes "register_steps x p facts = Ok descriptors" "bt_get descriptors i = Some s"
  shows "resolve_step x p facts i = Ok s"
proof -
  let ?I = "\<lambda>(m, budget :: fact_budget). \<forall>(k, v) \<in> set m. resolve_step x p facts k = Ok v"
  obtain es b b' where loop: "for_each (register_step x p facts) es ([], b) = Ok (descriptors, b')"
    using assms(1) unfolding register_steps_def by (auto simp: bindr_eq_Ok)
  have "?I (descriptors, b')"
    using loop
  proof (rule for_each_invariant [where I = ?I])
    fix y t t' assume "register_step x p facts y t = Ok t'" "?I t"
    then show "?I t'"
      by (cases y; cases t) (auto simp: register_step_def bindr_eq_Ok dest!: set_bt_insert [THEN subsetD])
  qed simp
  then show ?thesis using bt_get_in_set [OF assms(2)] by auto
qed

lemma register_steps_complete:
  assumes "register_steps x p facts = Ok descriptors" "bt_get (wf_steps (pw_definition p)) i = Some d"
  shows "\<exists>s. bt_get descriptors i = Some s \<and> resolve_step x p facts i = Ok s"
proof -
  obtain b b' where loop: "for_each (register_step x p facts) (enumerate 0 (bt_keys (wf_steps (pw_definition p)))) ([], b) = Ok (descriptors, b')"
    using assms(1) unfolding register_steps_def by (auto simp: bindr_eq_Ok)
  have "i \<in> set (bt_keys (wf_steps (pw_definition p)))"
    using assms(2) by (auto simp: bt_keys_def dest: bt_get_in_set intro: rev_image_eqI)
  moreover have "bt_ok descriptors \<and> (\<forall>k. k \<in> snd ` set es \<or> bt_get m k \<noteq> None \<longrightarrow> bt_get descriptors k \<noteq> None)"
    if "for_each (register_step x p facts) es (m, c) = Ok (descriptors, b')" "bt_ok m" for es m c
    using that
  proof (induction es arbitrary: m c)
    case (Cons e es)
    from Cons.prems(1) obtain t where t: "register_step x p facts e (m, c) = Ok t" "for_each (register_step x p facts) es t = Ok (descriptors, b')"
      by (auto simp: bindr_eq_Ok)
    then obtain s c' where "t = (bt_insert (snd e) s m, c')"
      by (cases e) (auto simp: register_step_def bindr_eq_Ok)
    with t(2) have s: "for_each (register_step x p facts) es (bt_insert (snd e) s m, c') = Ok (descriptors, b')" by simp
    show ?case
      using Cons.IH [OF s] Cons.prems(2) by (auto simp: bt_get_insert bt_ok_insert)
  qed auto
  from this [OF loop] have "i \<in> snd ` set (enumerate 0 (bt_keys (wf_steps (pw_definition p)))) \<longrightarrow> bt_get descriptors i \<noteq> None"
    by (simp add: bt_ok_def)
  ultimately have "bt_get descriptors i \<noteq> None"
    by (metis map_snd_enumerate set_map)
  then show ?thesis using register_steps_descriptors [OF assms(1)] by blast
qed

lemma wait_registered:
  assumes "resolve_step x p facts i = Ok s" "bt_get (wf_steps (pw_definition p)) i = Some d" "step_type d = ''wait.event''"
  obtains payload name where "literal_input d ''payload_schema'' = Some payload" "literal_input d ''event'' = Some name"
    "descriptor_output (specialized_descriptor s) = payload"
    "\<not> list_ex (event_conflict i name payload) (wf_steps (pw_definition p))" "as_str name \<noteq> Some CHANNEL_QUESTION_REPLY_EVENT"
proof -
  let ?r = "Registration_new p i d facts" and ?x = "catalogue_externals x"
  have name: "rg_name ?r = ''wait.event''" using assms(3) by (simp add: Registration_new_def rg_name_def)
  obtain c r' where c: "registered_contract x ?r = Ok (c, r')" "descriptor_output (specialized_descriptor s) = contract_output c"
    using assms(1,2) by (auto simp: resolve_step_def rg_resolve_def Let_def bindr_eq_Ok split: if_splits)
  then have wait: "rg_wait ?x ?r = Ok (c, r')"
    using name by (simp add: registered_contract_def rg_basic_def Let_def)
  obtain u r1 where r1: "rg_check ?x Check_Deadline ?r = Ok (u, r1)"
    using wait by (auto simp: rg_wait_def Let_def bindr_eq_Ok)
  have same: "same_step ?r r1" using rg_check_eq_Ok [OF r1] by simp
  obtain payload r2 where r2: "rg_literal ''payload_schema'' r1 = Ok (payload, r2)" and rest: "contract_output c = payload"
      "\<exists>u r3. event_identity payload r2 = Ok (u, r3)"
    using wait same name by (auto simp: rg_wait_def Let_def bindr_eq_Ok r1 same_step_simps contract_of_def split: if_splits)
  have "same_step ?r r2" using r2 same by (auto simp: rg_literal_eq_Ok)
  then have "rg_step r2 = d" "rg_id r2 = i" "rg_parsed r2 = p" "rg_step r1 = d"
    using same by (simp_all add: same_step_def Registration_new_def)
  then show thesis
    using that [of payload] r2 rest c(2)
    by (auto simp: rg_literal_eq_Ok event_identity_def bindr_eq_Ok literal_input_def rg_input_def split: if_splits)
qed

lemma compiled_wait:
  assumes "compile_catalogue fuel x decoded version facts dependencies = Some (Ok c)"
    and "bt_get (wf_steps (definition_of (cw_graph c))) i = Some d" "step_type d = ''wait.event''"
  obtains payload name where "literal_input d ''payload_schema'' = Some payload" "literal_input d ''event'' = Some name"
    "step_output_schema c i = Some payload" "as_str name \<noteq> Some CHANNEL_QUESTION_REPLY_EVENT"
    "\<not> list_ex (event_conflict i name payload) (wf_steps (definition_of (cw_graph c)))"
proof -
  obtain p descriptors where p: "parse_workflow (cx_wire (rx_compile x)) decoded version = Ok p"
    and registered: "register_steps x p facts = Ok descriptors"
    and c: "compile_resolved fuel (catalogue_externals x) decoded p descriptors dependencies (fact_tool_workflows facts) = Some (Ok c)"
    using assms(1) by (rule compile_catalogue_parts)
  have def_c: "definition_of (cw_graph c) = pw_definition p" by (rule compile_catalogue_definition [OF c])
  have step: "bt_get (wf_steps (pw_definition p)) i = Some d" using assms(2) def_c by simp
  obtain steps_node limits_node acc where
    steps: "node_at (source_root decoded) ''/steps'' = Some steps_node" "steps_at (cx_wire (rx_compile x)) steps_node ''/steps'' = Ok acc"
    and acc: "wf_steps (pw_definition p) = ps_steps acc"
    using p by (rule parse_workflow_parts)
  have ordered: "bt_ok (wf_steps (pw_definition p))"
    using steps_at_parsed [OF steps(2,1)] acc by (simp add: steps_parsed_def)
  obtain ss where "compile_steps fuel (catalogue_externals x) p descriptors = Some (Ok ss)" "cw_step_outputs c = ss_outputs ss"
    using c by (auto simp: compile_resolved_def Let_def bindv_eq_Ok)
  then obtain s sch where s: "bt_get descriptors i = Some s" "bt_get (cw_step_outputs c) i = Some sch"
      "schema_raw sch = descriptor_output (specialized_descriptor s)"
    using compile_steps_outputs ordered step by metis
  have out: "step_output_schema c i = Some (descriptor_output (specialized_descriptor s))"
    by (simp add: step_output_schema_def s)
  show ?thesis
    by (rule wait_registered [OF register_steps_descriptors [OF registered s(1)] step assms(3)])
      (use that out def_c in simp)
qed

lemma compiled_waits:
  assumes "compile_catalogue fuel x decoded version facts dependencies = Some (Ok c)"
    and "bt_get (wf_steps (definition_of (cw_graph c))) i = Some d" "step_type d = ''wait.event''"
    and "bt_get (wf_steps (definition_of (cw_graph c))) j = Some d'" "step_type d' = ''wait.event''"
    and "literal_input d ''event'' = literal_input d' ''event''"
  shows "\<exists>payload. step_output_schema c i = Some payload \<and> step_output_schema c j = Some payload
    \<and> literal_input d ''payload_schema'' = Some payload
    \<and> literal_input d ''event'' \<noteq> Some (VString CHANNEL_QUESTION_REPLY_EVENT)"
proof -
  obtain payload name where i: "literal_input d ''payload_schema'' = Some payload" "literal_input d ''event'' = Some name"
      "step_output_schema c i = Some payload" "as_str name \<noteq> Some CHANNEL_QUESTION_REPLY_EVENT"
      "\<not> list_ex (event_conflict i name payload) (wf_steps (definition_of (cw_graph c)))"
    by (rule compiled_wait [OF assms(1-3)])
  obtain payload' name' where j: "literal_input d' ''payload_schema'' = Some payload'" "step_output_schema c j = Some payload'"
    by (rule compiled_wait [OF assms(1,4,5)])
  have "(j, d') \<in> set (wf_steps (definition_of (cw_graph c)))" using assms(4) by (rule bt_get_in_set)
  then have "j = i \<or> payload' = payload"
    using i(2,5) j(1) assms(5,6) by (fastforce simp: list_ex_iff event_conflict_def)
  then show ?thesis using i j by (auto simp: as_str_def)
qed

lemma registered_waits:
  assumes "register_steps x p facts = Ok descriptors"
    and "bt_get (wf_steps (pw_definition p)) i = Some d" "step_type d = ''wait.event''"
    and "bt_get (wf_steps (pw_definition p)) j = Some d'" "step_type d' = ''wait.event''"
    and "literal_input d ''event'' = literal_input d' ''event''"
  shows "\<exists>payload s s'. bt_get descriptors i = Some s \<and> bt_get descriptors j = Some s'
    \<and> descriptor_output (specialized_descriptor s) = payload \<and> descriptor_output (specialized_descriptor s') = payload
    \<and> literal_input d ''payload_schema'' = Some payload \<and> literal_input d ''event'' \<noteq> Some (VString CHANNEL_QUESTION_REPLY_EVENT)"
proof -
  obtain s s' where s: "bt_get descriptors i = Some s" "resolve_step x p facts i = Ok s"
    and s': "bt_get descriptors j = Some s'" "resolve_step x p facts j = Ok s'"
    using register_steps_complete [OF assms(1,2)] register_steps_complete [OF assms(1,4)] by blast
  obtain payload name where i: "literal_input d ''payload_schema'' = Some payload" "literal_input d ''event'' = Some name"
      "descriptor_output (specialized_descriptor s) = payload" "as_str name \<noteq> Some CHANNEL_QUESTION_REPLY_EVENT"
      "\<not> list_ex (event_conflict i name payload) (wf_steps (pw_definition p))"
    by (rule wait_registered [OF s(2) assms(2,3)])
  obtain payload' name' where j: "literal_input d' ''payload_schema'' = Some payload'" "descriptor_output (specialized_descriptor s') = payload'"
    by (rule wait_registered [OF s'(2) assms(4,5)])
  have "(j, d') \<in> set (wf_steps (pw_definition p))" using assms(4) by (rule bt_get_in_set)
  then have "j = i \<and> d' = d \<or> payload' = payload"
    using i(2,5) j(1) assms(2,4-6) by (fastforce simp: list_ex_iff event_conflict_def)
  then show ?thesis using i j s s' by (auto simp: as_str_def)
qed

end
