(* ===== verification/Registry_Stall.thy ===== *)
theory Registry_Stall
  imports Registry_Facts
begin

text \<open>
  A workflow on which the compiler does not return. The registry gives the schema that an author
  declares a resource of its own, by an \<open>$id\<close>, where it places it into the contract of a step. The
  bounds on schemas read the references of the declared schema relative to it, the check of bindings
  reads them relative to the contract.
\<close>

section \<open>The declared schema and its contract\<close>

definition looping_schema :: "'n json" where
  "looping_schema = VObject
     [(''allOf'', VArray [VObject [(''$ref'', VString ''#/properties/value'')]]), (''properties'', VObject [(''value'', VBool True)])]"

definition looping_branch :: "'n json" where
  "looping_branch = VObject [(''$ref'', VString ''#/properties/value'')]"

definition looping_resource :: "'n json" where
  "looping_resource = embedded looping_schema ''mapped''"

definition looping_document :: "'n json" where
  "looping_document = object_schema [(''value'', looping_resource), (''output_schema'', const_schema looping_schema)] [''value'', ''output_schema'']"

lemma looping_resource_eq: "looping_resource = VObject
     [(''$id'', VString ''urn:workflow:contract:mapped''), (''allOf'', VArray [looping_branch]), (''properties'', VObject [(''value'', VBool True)])]"
  by (simp add: looping_resource_def looping_schema_def looping_branch_def embedded_def bt_contains_def bt_get_def)

lemma looping_document_eq: "looping_document = VObject
     [(''additionalProperties'', VBool False),
      (''properties'', VObject [(''output_schema'', VObject [(''const'', looping_schema)]), (''value'', looping_resource)]),
      (''required'', VArray [VString ''value'', VString ''output_schema'']), (''type'', VString ''object'')]"
  by (simp add: looping_document_def object_schema_def jobj_def jstrings_def const_schema_def bt_of_def)

lemma looping_facts:
  "resolve_ref (looping_document :: 'n json) ''#/properties/value'' = Some ([''properties'', ''value''], looping_resource)"
  "ref_of looping_branch = Some ''#/properties/value''" "ref_of looping_resource = None" "ref_of looping_document = None"
  "branch_refs (ts, looping_resource) = [(ts @ [''allOf'', ''0''], looping_branch)]" "branch_refs (ts, looping_branch) = []"
  "\<not> is_known_empty looping_resource (looping_document :: 'n json)" "\<not> is_known_empty looping_branch (looping_document :: 'n json)"
proof -
  show resolved: "resolve_ref (looping_document :: 'n json) ''#/properties/value'' = Some ([''properties'', ''value''], looping_resource)"
    by (simp add: resolve_ref_def pointer_tokens_def unescape_def looping_document_eq step_into_def bt_get_def)
  then have target: "ref_target (looping_document :: 'n json) ''#/properties/value'' = Some looping_resource"
    by (simp add: ref_target_def)
  show "ref_of looping_branch = Some ''#/properties/value''" "ref_of looping_resource = None" "ref_of looping_document = None"
    by (simp_all add: ref_of_def looping_branch_def looping_resource_eq looping_document_eq json_get_def bt_get_def as_str_def)
  have "show_nat 0 = ''0''" by code_simp
  then show "branch_refs (ts, looping_resource) = [(ts @ [''allOf'', ''0''], looping_branch)]" "branch_refs (ts, looping_branch) = []"
    by (simp_all add: branch_refs_def looping_branch_def looping_resource_eq json_get_def bt_get_def as_array_def)
  show "\<not> is_known_empty looping_resource (looping_document :: 'n json)" "\<not> is_known_empty looping_branch (looping_document :: 'n json)"
    using target
    by (simp_all add: is_known_empty_def known_empty.simps looping_branch_def looping_resource_eq bt_get_def as_array_def as_str_def)
qed

lemma looping_constraints:
  "local_constraints (ts, looping_resource) (looping_document :: 'n json) = [(ts, looping_resource)]"
  "local_constraints (ts, looping_branch) (looping_document :: 'n json) = [(ts, looping_branch), ([''properties'', ''value''], looping_resource)]"
  "local_constraints (ts, looping_document) (looping_document :: 'n json) = [(ts, looping_document)]"
  by (simp_all add: local_constraints_def looping_facts eval_nat_numeral)

lemma looping_branch_stalls:
  "check_binding_shape fuel x looping_document span (Reference r) ([''properties'', ''value'', ''allOf'', ''0''], looping_branch) at = None"
proof (induction fuel)
  case (Suc fuel)
  then show ?case
    by (simp add: check_constraints_def looping_facts looping_constraints kind_refused_def known_kind_def)
qed simp

lemma looping_check_stalls:
  "check_binding_shape fuel x looping_document span (Reference r) ([''properties'', ''value''], looping_resource) at = None"
  by (cases fuel)
    (simp_all add: check_constraints_def looping_facts looping_constraints kind_refused_def known_kind_def looping_branch_stalls
      del: check_binding_shape.simps(2), subst check_binding_shape.simps(2),
      simp add: check_constraints_def looping_facts looping_constraints kind_refused_def known_kind_def looping_branch_stalls
      del: check_binding_shape.simps(2))

text \<open>Both schemas are within every bound.\<close>

lemma looping_visits:
  assumes "\<And>s. json_get s ''$schema'' = None \<Longrightarrow> inspect s = Ok ()"
  shows "\<exists>r. visit_schema inspect looping_document 0 (looping_document :: 'n json) 4096 = Ok r"
    and "\<exists>r. visit_schema inspect looping_schema 0 (looping_schema :: 'n json) 4096 = Ok r"
  using assms
  by (simp_all add: looping_document_eq looping_resource_eq looping_branch_def looping_schema_def visit_schema.simps debit_def as_object_def
      bt_contains_def bt_get_def REFERENCE_KEYWORDS_def schema_children_def keyword_children_def as_array_def json_get_def as_str_def
      ref_target_def resolve_ref_def pointer_tokens_def unescape_def step_into_def)

text \<open>What the libraries answer for a schema that is well formed and small.\<close>

definition unobjectionable :: "'n schema_externals \<Rightarrow> 'n json \<Rightarrow> bool" where
  "unobjectionable x s \<longleftrightarrow> sum_list (map length (schema_writer x s)) \<le> 65536 \<and> meta_is_valid x s \<and> build_validator x s \<noteq> None"

lemma looping_compiles:
  assumes "unobjectionable x s" "s \<in> {looping_schema, looping_document}"
  shows "\<exists>sch. Schema_compile x s at span = Ok sch \<and> schema_raw sch = s"
proof -
  have "\<exists>r. visit_data 0 s 4096 = Ok r"
    using assms(2) by (auto simp: visit_data_iff looping_document_eq looping_resource_eq looping_branch_def looping_schema_def)
  moreover have "\<exists>r. charge_all schema_bytes_write (schema_writer x s) 65536 = Some r"
    using schema_bytes.all_granted_iff [where cs = "schema_writer x s" and s = 65536] assms(1) by (simp add: unobjectionable_def)
  moreover have "\<exists>r. visit_schema (\<lambda>_. Ok ()) s 0 s 4096 = Ok r" "\<exists>r. visit_schema inspect_dialect s 0 s 4096 = Ok r"
  proof -
    have "inspect_dialect t = Ok ()" if "json_get t ''$schema'' = None" for t :: "'a json"
      using that by (simp add: inspect_dialect_def)
    then show "\<exists>r. visit_schema inspect_dialect s 0 s 4096 = Ok r"
      using assms(2) looping_visits [of inspect_dialect] by blast
    show "\<exists>r. visit_schema (\<lambda>_. Ok ()) s 0 s 4096 = Ok r"
      using assms(2) looping_visits [of "\<lambda>_. Ok ()"] by blast
  qed
  ultimately have "check_resources x s = Ok ()" "check_dialects s = Ok ()"
    by (auto simp: check_resources_def check_dialects_def)
  then show ?thesis
    using assms(1) by (auto simp: Schema_compile_def unobjectionable_def)
qed

lemma reference_preflights: "preflight_binding x (Reference q) limits = Ok ()"
  by (simp add: preflight_binding_def check_binding_def check_binding_loop.simps MAX_BINDING_NODES_def MAX_BINDING_DEPTH_def checked_sub_def Let_def)

section \<open>The stall\<close>

text \<open>
  C39. An author can stop the compiler. Let a \<open>data.map\<close> step declare a small schema that refers to its
  own property \<open>value\<close>, and bind its value by a reference. The declaration compiles; the step is
  registered with a contract that compiles; and the check of the value against the contract never
  returns: the code recurs without a bound of its own.
\<close>

theorem declared_schemas_can_stall_the_compiler:
  fixes r :: "'n registration"
  assumes "rg_name r = ''data.map''" and "rg_input r ''output_schema'' = Some (Literal looping_schema)"
    and "unobjectionable (cx_schemas x) looping_schema" and "unobjectionable (cx_schemas x) looping_document"
    and "bt_get (pw_locations p) [] = Some whole"
  shows "(\<exists>sch. Schema_compile (cx_schemas x) looping_schema here span = Ok sch)
    \<and> (\<exists>c r' sch. schema_output x r = Ok (c, r') \<and> Schema_compile (cx_schemas x) (contract_input c) at span = Ok sch
        \<and> (\<forall>fuel. check_input fuel x p sch at (''value'', Reference q) = None))"
proof -
  obtain sch where sch: "Schema_compile (cx_schemas x) (looping_document :: 'n json) at span = Ok sch" "schema_raw sch = looping_document"
    using looping_compiles [OF assms(4)] by blast
  have "\<exists>r'. schema_output x r = Ok (\<lparr>contract_input = looping_document, contract_output = looping_schema\<rparr>, r')"
    using assms(1,2)
    by (simp add: schema_output_def rg_literal_def Let_def contract_of_def looping_document_def looping_resource_def rg_name_def)
  moreover have "check_input fuel x p sch at (''value'', Reference q) = None" for fuel
  proof -
    have "child_schema_ref ([], looping_document) ''value'' = Some ([''properties'', ''value''], looping_resource :: 'n json)"
      by (simp add: child_schema_ref_def looping_document_eq json_get_def bt_get_def)
    then show ?thesis
      using assms(5)
      by (simp add: check_input_def Let_def reference_preflights preflight_at_def located_def span_or_root_def bindv_def root_constraints_def sch(2)
          looping_constraints looping_facts looping_check_stalls del: check_binding_shape.simps)
  qed
  ultimately show ?thesis
    using looping_compiles [OF assms(3)] sch(1) by fastforce
qed

definition open_schemas :: "int schema_externals" where
  "open_schemas = \<lparr>meta_is_valid = (\<lambda>_. True), build_validator = (\<lambda>_. Some (\<lambda>_. None)), build_scoped = (\<lambda>_ _. Some (\<lambda>_. True)),
     schema_writer = (\<lambda>_. []), number_as_u64 = (\<lambda>n. if 0 \<le> n then Some (nat n) else None), number_is_integral = (\<lambda>_. True),
     pattern_matches = (\<lambda>_ _. True)\<rparr>"

definition mapped_step :: "int step_definition" where
  "mapped_step = \<lparr>step_type = ''data.map'', step_inputs = [(''output_schema'', Literal looping_schema), (''value'', Reference name_reference)],
     step_routes = Routes_Success End, final_error = None\<rparr>"

definition mapped_workflow :: "int parsed_workflow" where
  "mapped_workflow = \<lparr>pw_definition = named_definition\<lparr>wf_steps := [(''a'', mapped_step)]\<rparr>, pw_controls = [], pw_rules = [],
     pw_locations = [([], sample_span)]\<rparr>"

theorem declared_schemas_can_stall_the_compiler_witness:
  "\<exists>c r' sch. schema_output (sample_compiler\<lparr>cx_schemas := open_schemas\<rparr>)
       (Registration_new mapped_workflow ''a'' mapped_step \<lparr>fact_tools = [], fact_children = [], fact_tool_workflows = []\<rparr>) = Ok (c, r')
     \<and> Schema_compile open_schemas (contract_input c) ''/steps/a/with'' sample_span = Ok sch
     \<and> (\<forall>fuel. check_input fuel (sample_compiler\<lparr>cx_schemas := open_schemas\<rparr>) mapped_workflow sch ''/steps/a/with'' (''value'', Reference name_reference) = None)"
proof -
  let ?x = "sample_compiler\<lparr>cx_schemas := open_schemas\<rparr>"
  let ?r = "Registration_new mapped_workflow ''a'' mapped_step \<lparr>fact_tools = [], fact_children = [], fact_tool_workflows = []\<rparr>"
  have "rg_name ?r = ''data.map''" "rg_input ?r ''output_schema'' = Some (Literal looping_schema)"
    by (simp_all add: rg_name_def rg_input_def Registration_new_def mapped_step_def bt_get_def)
  moreover have "unobjectionable (cx_schemas ?x) s" for s by (simp add: unobjectionable_def open_schemas_def)
  moreover have "bt_get (pw_locations mapped_workflow) [] = Some sample_span" by (simp add: mapped_workflow_def bt_get_def)
  ultimately show ?thesis
    using declared_schemas_can_stall_the_compiler [of ?r ?x mapped_workflow sample_span] by simp
qed

end
