(* ===== verification/Catalogue.thy ===== *)
theory Catalogue
  imports Registry_Stall
begin

text \<open>
  A workflow compiled with the catalogue from its source: a human decision whose reviewers are a
  parameter, then two waits for one event. With it, the properties of compiled workflows that rest on
  the registration of their steps.
\<close>

section \<open>A small workflow\<close>

definition reviewers_reference :: context_reference where
  "reviewers_reference = \<lparr>raw = ''/params/reviewers'', root = Params, path = [''params'', ''reviewers'']\<rparr>"

definition draft_reference :: context_reference where
  "draft_reference = \<lparr>raw = ''/input/draft'', root = Input, path = [''input'', ''draft'']\<rparr>"

definition sample_jev :: "(int, int, int) jev_externals" where
  "sample_jev = \<lparr>jx_values = sample_externals, jx_question = (\<lambda>_. None), jx_assets = (\<lambda>_. None), jx_f64 = (\<lambda>n. Some n),
     jx_finite = (\<lambda>_. True), jx_zero = 0, jx_one = 1, jx_tolerance = 0, jx_le = (\<le>), jx_lt = (<), jx_add = (+), jx_distance = (\<lambda>a b. abs (a - b))\<rparr>"

definition sample_registry :: "(int, int, int) registry_externals" where
  "sample_registry = \<lparr>rx_compile = sample_compiler\<lparr>cx_schemas := open_schemas\<rparr>, rx_jev = sample_jev\<rparr>"

definition no_facts :: "int catalogue_facts" where
  "no_facts = \<lparr>fact_tools = [], fact_children = [], fact_tool_workflows = []\<rparr>"

definition review_step :: "int step_definition" where
  "review_step = \<lparr>step_type = ''decision.human'', step_inputs =
       [(''data_schema'', Literal (VBool True)), (''deadline'', Literal (VString ''d'')), (''proposal'', Reference draft_reference),
        (''reviewers'', Reference reviewers_reference)],
     step_routes = Routes_Choices [(''go'', Step ''b'')], final_error = None\<rparr>"

definition wait_step :: "transition_target \<Rightarrow> int step_definition" where
  "wait_step target = \<lparr>step_type = ''wait.event'', step_inputs =
       [(''correlation'', Literal (VString ''k'')), (''deadline'', Literal (VString ''d'')), (''event'', Literal (VString ''e'')),
        (''payload_schema'', Literal (VBool True))],
     step_routes = Routes_Success target, final_error = None\<rparr>"

definition params_schema :: "int json" where
  "params_schema = VObject [(''properties'', VObject [(''reviewers'', VBool True)]), (''required'', VArray [VString ''reviewers'']), (''type'', VString ''object'')]"

definition review_definition :: "int workflow_definition" where
  "review_definition = \<lparr>format_version = 1, workflow_id = 1, version_id = 2, input_schema = Some (VBool True),
     parameter_schema = Some params_schema, output_schema = Some (VBool True), resources = [], wf_entry = ''a'',
     wf_steps = [(''a'', review_step), (''b'', wait_step (Step ''c'')), (''c'', wait_step End)],
     wf_limits = \<lparr>root_budget = RootBudgetLimits_default, max_steps = 3, max_context_bytes = 1024\<rparr>\<rparr>"

definition literal_source :: "int json \<Rightarrow> int json" where
  "literal_source v = VObject [(''literal'', v)]"

definition wait_source :: "string \<Rightarrow> int json" where
  "wait_source target = VObject
     [(''routes'', VObject [(''success'', VString target)]), (''type'', VString ''wait.event''),
      (''with'', VObject [(''correlation'', literal_source (VString ''k'')), (''deadline'', literal_source (VString ''d'')),
         (''event'', literal_source (VString ''e'')), (''payload_schema'', literal_source (VBool True))])]"

definition review_value :: "int json" where
  "review_value = VObject
     [(''entry'', VString ''a''), (''format_version'', VNumber 1), (''input_schema'', VBool True),
      (''limits'', VObject [(''max_context_bytes'', VNumber 1024), (''max_steps'', VNumber 3)]),
      (''output_schema'', VBool True), (''parameter_schema'', params_schema), (''resources'', VArray []),
      (''steps'', VObject
         [(''a'', VObject
            [(''routes'', VObject [(''choices'', VObject [(''go'', VString ''b'')])]), (''type'', VString ''decision.human''),
             (''with'', VObject [(''data_schema'', literal_source (VBool True)), (''deadline'', literal_source (VString ''d'')),
                (''proposal'', VObject [(''ref'', VString ''/input/draft'')]), (''reviewers'', VObject [(''ref'', VString ''/params/reviewers'')])])]),
          (''b'', wait_source ''c''), (''c'', wait_source ''$end'')]),
      (''workflow_id'', VString ''w'')]"

definition review_source :: "int decoded_source" where
  "review_source = \<lparr>source_text = [], source_root = node_of sample_span review_value\<rparr>"

abbreviation review_workflow :: "locations \<Rightarrow> int parsed_workflow" where
  "review_workflow spans \<equiv> \<lparr>pw_definition = review_definition, pw_controls = [], pw_rules = [], pw_locations = spans\<rparr>"

lemma parsed_review_references: "parsed reviewers_reference" "parsed draft_reference"
  unfolding parsed_def reviewers_reference_def draft_reference_def by code_simp+

lemma review_parses: "\<exists>spans. parse_workflow sample_wire review_source 2 = Ok (review_workflow spans)"
proof -
  have parts: "valid_part ''a''" "valid_part ''b''" "valid_part ''c''" "valid_part ''decision''" "valid_part ''human''" "valid_part ''wait''"
    "valid_part ''event''" "valid_part ''go''" by code_simp+
  have binding: "parse_binding (node_of s (VObject [(''ref'', VString ''/params/reviewers'' :: int json)])) at = Ok (Reference reviewers_reference)"
      "parse_binding (node_of s (VObject [(''ref'', VString ''/input/draft'' :: int json)])) at = Ok (Reference draft_reference)" for s at
    using parse_write_binding [of "Reference reviewers_reference :: int binding" s at] parse_write_binding [of "Reference draft_reference :: int binding" s at]
      parsed_review_references
    by (simp_all add: operator_node_def pointer_node_def reviewers_reference_def draft_reference_def)
  have literal: "parse_binding (node_of s (literal_source v)) at = Ok (Literal v)" if "json_ok v" for s at v
    using parse_write_binding [of "Literal v" s at] that by (simp add: operator_node_def literal_source_def)
  have schema: "json_value (node_of s params_schema) at = Ok params_schema" for s at
    by (rule json_source_round_trip) (simp add: params_schema_def bt_ok_def)
  have scalar: "json_value (LocatedNode (Scalar (VBool True :: int json)) s) at = Ok (VBool True)" for s at
    using json_source_round_trip [of "VBool True :: int json" s at] by simp
  show ?thesis
    by (simp add: scalar parse_workflow_def review_source_def review_value_def wait_source_def fields_node_of ROOT_FIELDS_def STEP_FIELDS_def required_def Let_def
        bt_ok_def bt_get_def value_as_u64_def sample_wire_def uuid_at_def checked_name_def scalar_string_def
        json_source_round_trip resources_at_def sequence_def ok_option_def parse_name_def StepId_parse_def TypeName_parse_def ChoiceName_parse_def
        steps_at_def step_at_def routes_at_def choice_at_def target_at_def map_transpose_def inputs_at_def collect_map_def control_at_def
        execution_limits_at_def positive_u32_def MAX_NAME_BYTES_def parts binding literal schema review_definition_def review_step_def wait_step_def
        del: node_of.simps(2))
qed

section \<open>Its registration\<close>

lemma sample_deadline_checks:
  "json_get v ''deadline'' = Some (VString ''d'') \<Longrightarrow>
   InputCheck_validate (cx_checks (catalogue_externals sample_registry)) Check_Deadline v at span = Ok ()"
  by (simp add: check_deadline_def sample_registry_def catalogue_externals_def sample_compiler_def sample_checks_def as_str_def)

lemma deadline_registered:
  assumes "bt_get (pw_locations (rg_parsed r)) [] = Some whole" "rg_step r = review_step \<or> rg_step r = wait_step target"
  shows "rg_check (catalogue_externals sample_registry) Check_Deadline r = Ok ((), r\<lparr>rg_checks := rg_checks r @ [Check_Deadline]\<rparr>)"
proof -
  have "json_get (literal_inputs (rg_step r)) ''deadline'' = Some (VString ''d'')"
    using assms(2) by (auto simp: literal_inputs_def review_step_def wait_step_def json_get_def bt_get_def List.map_filter_def)
  then show ?thesis
    using assms(1) by (simp add: rg_check_def rg_whole_def sample_deadline_checks del: InputCheck_validate.simps)
qed

lemma registrations_resolve:
  assumes "rg_name r \<in> set TYPES" "rg_name r \<noteq> ''channel.no_reply''" "registered_contract x r = Ok (c, r')" "rg_name r' = rg_name r"
    and "registered_routes r' = Ok routes" "ok_option (TypeName_parse (rg_name r)) \<noteq> None" "step_constraints (rg_name r) = (Ok metadata :: (_, diagnostic) outcome)"
  shows "\<exists>s. rg_resolve x r = Ok s"
  using assms by (auto simp: rg_resolve_def Let_def)

lemma wait_contract:
  assumes "rg_step r = wait_step target" "bt_get (pw_locations (rg_parsed r)) [] = Some whole"
    "pw_definition (rg_parsed r) = review_definition"
  shows "\<exists>c r'. rg_wait (catalogue_externals sample_registry) r = Ok (c, r') \<and> rg_step r' = rg_step r"
proof -
  have "\<not> list_ex (event_conflict i (VString ''e'') (VBool True)) (wf_steps review_definition)" for i
    by (simp add: event_conflict_def review_definition_def review_step_def wait_step_def literal_input_def bt_get_def)
  then show ?thesis
    using assms
    by (simp add: rg_wait_def Let_def deadline_registered [OF assms(2) disjI2, OF assms(1)] rg_name_def rg_literal_def rg_input_def bt_get_def
        event_identity_def as_str_def message_reply_wait_def literal_input_def CHANNEL_QUESTION_REPLY_EVENT_def MESSAGE_REPLY_EVENT_def wait_step_def)
qed

lemma review_contract:
  assumes "rg_step r = review_step" "bt_get (pw_locations (rg_parsed r)) [] = Some whole"
  shows "\<exists>c r'. decision (catalogue_externals sample_registry) r = Ok (c, r') \<and> rg_step r' = rg_step r"
proof -
  have "params_only (Reference reviewers_reference)"
    by (simp add: params_only_def reviewers_reference_def)
  then show ?thesis
    using assms deadline_registered [where r = "r\<lparr>rg_static_fields := f\<rparr>" and whole = whole and target = End for f]
    by (simp add: decision_def human_decision_def require_feedback_def rg_choices_def Let_def rg_name_def rg_literal_def rg_input_def bt_get_def
        static_roots_def review_step_def)
qed

lemma sample_types: "step_type review_step = ''decision.human''" "step_type (wait_step target) = ''wait.event''"
  by (simp_all add: review_step_def wait_step_def)

lemma type_facts:
  "ok_option (TypeName_parse ''decision.human'') \<noteq> None" "ok_option (TypeName_parse ''wait.event'') \<noteq> None"
  "''decision.human'' \<in> set TYPES" "''wait.event'' \<in> set TYPES"
  by code_simp+

lemma constraint_facts:
  "\<exists>metadata. step_constraints ''decision.human'' = (Ok metadata :: (_, diagnostic) outcome)"
  "\<exists>metadata. step_constraints ''wait.event'' = (Ok metadata :: (_, diagnostic) outcome)"
  by (simp_all add: step_constraints_def effect_of_def)

lemma contract_branches:
  "rg_name r = ''decision.human'' \<Longrightarrow> registered_contract x r = decision (catalogue_externals x) r"
  "rg_name r = ''wait.event'' \<Longrightarrow> registered_contract x r = rg_wait (catalogue_externals x) r"
  by (simp_all add: registered_contract_def rg_basic_def Let_def)

lemma review_resolves:
  assumes "bt_get spans [] = Some whole" "bt_get (wf_steps review_definition) i = Some d"
  shows "\<exists>s. resolve_step sample_registry (review_workflow spans) no_facts i = Ok s"
proof -
  define r where "r = Registration_new (review_workflow spans) i d no_facts"
  have at: "bt_get (pw_locations (rg_parsed r)) [] = Some whole" "pw_definition (rg_parsed r) = review_definition" "rg_step r = d"
    using assms(1) by (simp_all add: Registration_new_def r_def)
  have kinds: "d = review_step \<or> d = wait_step (Step ''c'') \<or> d = wait_step End"
    using bt_get_in_set [OF assms(2)] by (auto simp: review_definition_def)
  have "\<exists>s. rg_resolve sample_registry r = Ok s"
  proof (cases "d = review_step")
    case True
    then obtain c r' where r': "decision (catalogue_externals sample_registry) r = Ok (c, r')" "rg_step r' = review_step"
      using review_contract [of r] at by auto
    moreover have "\<exists>routes. registered_routes r' = Ok routes"
    proof -
      have "ok_option (ChoiceName_parse ''go'') \<noteq> None" by code_simp
      then show ?thesis
        using r'(2) by (auto simp: registered_routes_def rg_name_def rg_choices_def review_step_def starts_with_def)
    qed
    moreover have name: "rg_name r = ''decision.human''" "rg_name r' = rg_name r"
      using True r'(2) at by (simp_all add: rg_name_def sample_types)
    ultimately show ?thesis
      using constraint_facts(1) type_facts by (auto intro!: registrations_resolve simp: contract_branches)
  next
    case False
    then obtain target where d: "d = wait_step target" using kinds by blast
    then obtain c r' where r': "rg_wait (catalogue_externals sample_registry) r = Ok (c, r')" "rg_step r' = d"
      using wait_contract [of r target] at by auto
    moreover have "registered_routes r' = Ok Contract_Success"
      using r'(2) d by (simp add: registered_routes_def rg_name_def sample_types starts_with_def)
    moreover have name: "rg_name r = ''wait.event''" "rg_name r' = rg_name r"
      using d r'(2) at by (simp_all add: rg_name_def sample_types)
    ultimately show ?thesis
      using constraint_facts(2) type_facts by (auto intro!: registrations_resolve simp: contract_branches)
  qed
  then show ?thesis using assms(2) by (simp add: resolve_step_def r_def)
qed

lemma review_registers:
  assumes "bt_get spans [] = Some whole"
  shows "\<exists>descriptors. register_steps sample_registry (review_workflow spans) no_facts = Ok descriptors"
proof -
  have step: "bt_get (wf_steps review_definition) ''a'' = Some review_step" "bt_get (wf_steps review_definition) ''b'' = Some (wait_step (Step ''c''))"
      "bt_get (wf_steps review_definition) ''c'' = Some (wait_step End)"
    by (simp_all add: review_definition_def bt_get_def)
  obtain sa sb sc where s: "resolve_step sample_registry (review_workflow spans) no_facts ''a'' = Ok sa"
      "resolve_step sample_registry (review_workflow spans) no_facts ''b'' = Ok sb"
      "resolve_step sample_registry (review_workflow spans) no_facts ''c'' = Ok sc"
    using review_resolves [OF assms step(1)] review_resolves [OF assms step(2)] review_resolves [OF assms step(3)] by blast
  have steps: "bt_keys (wf_steps review_definition) = [''a'', ''b'', ''c'']"
    by (simp add: review_definition_def bt_keys_def)
  have "charge_facts (cx_schemas (rx_compile sample_registry)) v b = Ok b" for v b
    by (simp add: charge_facts_def sample_registry_def open_schemas_def)
  then show ?thesis
    using assms
    by (simp add: register_steps_def steps register_step_def s charge_descriptor_def punctuation_def FactBudget_new_def checked_sub_def
        MAX_COMPILED_FACT_BYTES_def Let_def)
qed

lemma review_registered:
  "\<exists>spans descriptors. parse_workflow sample_wire review_source 2 = Ok (review_workflow spans)
     \<and> register_steps sample_registry (review_workflow spans) no_facts = Ok descriptors"
proof -
  obtain spans where p: "parse_workflow sample_wire review_source 2 = Ok (review_workflow spans)"
    using review_parses by blast
  have "\<exists>whole. bt_get spans [] = Some whole"
    using parsed_root_located [OF p] by simp
  then show ?thesis using review_registers p by blast
qed

section \<open>Authority\<close>

text \<open>
  C13. Who decides is settled by the binding alone. Let a workflow parse and its steps be registered. Then
  whatever a run receives as input, whatever its steps return and whenever it runs, two runs with the
  same parameters resolve the same reviewers for a human decision, the same parameters for a child
  workflow and the same reviewers for an approval.
\<close>

theorem authority_depends_on_parameters_only:
  assumes "parse_workflow w decoded version = Ok p" and "register_steps x p facts = Ok descriptors"
    and "bt_get (wf_steps (pw_definition p)) i = Some d" and "params ctx = params ctx'"
    and "resolve_inputs e (step_inputs d) ctx limits = Ok v" and "resolve_inputs e (step_inputs d) ctx' limits' = Ok v'"
  shows "assigned_authority (step_type d) v = assigned_authority (step_type d) v'"
  using assms(1,3,2,4-6) by (rule registered_authority)

definition reviewed_run :: "int json \<Rightarrow> int run_context" where
  "reviewed_run v = \<lparr>input = VObject [(''draft'', v)], params = VObject [(''reviewers'', VArray [VString ''u''])], step_outputs = [],
     run = \<lparr>meta_run_id = 0, meta_parent_run_id = None, meta_deadline = None\<rparr>\<rparr>"

definition reviewed_inputs :: "int json \<Rightarrow> int json" where
  "reviewed_inputs v = VObject [(''data_schema'', VBool True), (''deadline'', VString ''d''), (''proposal'', v),
     (''reviewers'', VArray [VString ''u''])]"

definition review_limits :: context_limits where
  "review_limits = \<lparr>output_bytes = 1000, work_nodes = 100\<rparr>"

lemma reviews_resolve:
  "resolve_inputs sample_externals (step_inputs review_step) (reviewed_run (VBool True)) review_limits = Ok (reviewed_inputs (VBool True))"
  "resolve_inputs sample_externals (step_inputs review_step) (reviewed_run (VString ''other'')) review_limits = Ok (reviewed_inputs (VString ''other''))"
proof -
  have len: "serialized_len sample_externals (VBool p) = 4" "serialized_len sample_externals (VArray vs) = 4"
      "serialized_len sample_externals (VObject m) = 4" "serialized_len sample_externals (VString s) = 2 + length s" for p vs m s
    by (simp_all add: serialized_len_def sample_externals_def)
  have reads: "reference sample_externals reviewers_reference (reviewed_run (VBool True)) = Ok (VArray [VString ''u''])"
    "reference sample_externals reviewers_reference (reviewed_run (VString ''other'')) = Ok (VArray [VString ''u''])"
    "reference sample_externals draft_reference (reviewed_run (VBool True)) = Ok (VBool True)"
    "reference sample_externals draft_reference (reviewed_run (VString ''other'')) = Ok (VString ''other'')"
    unfolding sample_externals_def reviewers_reference_def draft_reference_def reviewed_run_def by code_simp+
  have cv: "nodes v \<le> b \<Longrightarrow> height v \<le> d \<Longrightarrow> check_value v b d = Ok (b - nodes v)" for v :: "int json" and b d
    by (simp add: check_value_eq_Ok)
  show "resolve_inputs sample_externals (step_inputs review_step) (reviewed_run (VBool True)) review_limits = Ok (reviewed_inputs (VBool True))"
    "resolve_inputs sample_externals (step_inputs review_step) (reviewed_run (VString ''other'')) review_limits = Ok (reviewed_inputs (VString ''other''))"
    by (simp_all add: resolve_inputs_def Let_def review_step_def review_limits_def reviewed_inputs_def reads len check_size_total charge_name_def
        check_binding_def check_binding_loop.simps check_literal_def charge_value_def cv at_depth_def checked_sub_def
        push_all_def ensure_pending_capacity_def saturating_add_def usize_max_def MAX_OUTPUT_BYTES_def MAX_WORK_NODES_def MAX_BINDING_NODES_def
        MAX_BINDING_DEPTH_def MAX_JSON_DEPTH_def validate_context_value_def)
qed

theorem authority_depends_on_parameters_only_witness:
  "\<exists>v v'. resolve_inputs sample_externals (step_inputs review_step) (reviewed_run (VBool True)) review_limits = Ok v
     \<and> resolve_inputs sample_externals (step_inputs review_step) (reviewed_run (VString ''other'')) review_limits = Ok v'
     \<and> assigned_authority ''decision.human'' v = Some (VArray [VString ''u''])
     \<and> assigned_authority ''decision.human'' v' = Some (VArray [VString ''u''])"
proof -
  obtain spans descriptors where p: "parse_workflow sample_wire review_source 2 = Ok (review_workflow spans)"
    and registered: "register_steps sample_registry (review_workflow spans) no_facts = Ok descriptors"
    using review_registered by blast
  have "bt_get (wf_steps (pw_definition (review_workflow spans))) ''a'' = Some review_step"
    by (simp add: review_definition_def bt_get_def)
  from authority_depends_on_parameters_only [OF p registered this _ reviews_resolve]
  have "assigned_authority ''decision.human'' (reviewed_inputs (VBool True)) = assigned_authority ''decision.human'' (reviewed_inputs (VString ''other''))"
    by (simp add: reviewed_run_def sample_types)
  moreover have "assigned_authority ''decision.human'' (reviewed_inputs (VBool True)) = Some (VArray [VString ''u''])"
    by (simp add: assigned_authority_def reviewed_inputs_def json_get_def bt_get_def)
  ultimately show ?thesis using reviews_resolve by auto
qed

section \<open>Events\<close>

text \<open>
  C14. One event, one payload. All waits of a registered workflow for an event of one name are given the
  same output contract, the payload schema that their author declared, so that a payload can be checked
  before any of them is reached; and no wait can be registered for the event that answers a channel
  question.
\<close>

theorem waits_for_one_event_share_their_payload:
  assumes "register_steps x p facts = Ok descriptors"
    and "bt_get (wf_steps (pw_definition p)) i = Some d" "step_type d = ''wait.event''"
    and "bt_get (wf_steps (pw_definition p)) j = Some d'" "step_type d' = ''wait.event''"
    and "literal_input d ''event'' = literal_input d' ''event''"
  shows "\<exists>payload s s'. bt_get descriptors i = Some s \<and> bt_get descriptors j = Some s'
    \<and> descriptor_output (specialized_descriptor s) = payload \<and> descriptor_output (specialized_descriptor s') = payload
    \<and> literal_input d ''payload_schema'' = Some payload \<and> literal_input d ''event'' \<noteq> Some (VString CHANNEL_QUESTION_REPLY_EVENT)"
  using assms by (rule registered_waits)

theorem waits_for_one_event_share_their_payload_witness:
  "\<exists>p descriptors s s'. register_steps sample_registry p no_facts = Ok descriptors
     \<and> bt_get (wf_steps (pw_definition p)) ''b'' = Some (wait_step (Step ''c'')) \<and> bt_get (wf_steps (pw_definition p)) ''c'' = Some (wait_step End)
     \<and> bt_get descriptors ''b'' = Some s \<and> bt_get descriptors ''c'' = Some s'
     \<and> descriptor_output (specialized_descriptor s) = VBool True \<and> descriptor_output (specialized_descriptor s') = VBool True"
proof -
  obtain spans descriptors where registered: "register_steps sample_registry (review_workflow spans) no_facts = Ok descriptors"
    using review_registered by blast
  have steps: "bt_get (wf_steps (pw_definition (review_workflow spans))) ''b'' = Some (wait_step (Step ''c''))"
    "bt_get (wf_steps (pw_definition (review_workflow spans))) ''c'' = Some (wait_step End)"
    by (simp_all add: review_definition_def bt_get_def)
  have inputs: "literal_input (wait_step target) ''event'' = Some (VString ''e'')"
    "literal_input (wait_step target) ''payload_schema'' = Some (VBool True)" for target
    by (simp_all add: literal_input_def wait_step_def bt_get_def)
  from waits_for_one_event_share_their_payload [OF registered steps(1) sample_types(2) steps(2) sample_types(2)]
  show ?thesis using registered steps inputs by (intro exI [of _ "review_workflow spans"] exI [of _ descriptors]) auto
qed

end
